(* ===== verification/Prelude.thy ===== *)
theory Prelude
  imports Main "HOL-Library.Word" "HOL-Library.Monad_Syntax"
begin

text \<open>
  Shared ground of the development: the names of the Rust integer types, little-endian byte
  conversions (\<open>to_le_bytes\<close>, \<open>from_le_bytes\<close>), the binary search and the partition point of
  the standard library's slices, and generic facts on sorted lists that the components use.
\<close>

section \<open>Names of the model's types\<close>

type_synonym u8 = "8 word"
type_synonym u32 = "32 word"
type_synonym u64 = "64 word"
type_synonym i32 = "32 word"
type_synonym i64 = "64 word"
type_synonym bytes = "u8 list"

text \<open>
  A TL object that the code only carries around (a user, a chat, a media description) is
  represented by its serialized bytes.
\<close>
type_synonym tl_object = bytes

text \<open>An \<open>Instant\<close> and a \<open>Duration\<close> are counted in milliseconds.\<close>
type_synonym instant = nat
type_synonym duration = nat

abbreviation i32_min :: int where "i32_min \<equiv> - (2 ^ 31)"
abbreviation i32_max :: int where "i32_max \<equiv> 2 ^ 31 - 1"
abbreviation i64_max :: int where "i64_max \<equiv> 2 ^ 63 - 1"

text \<open>\<open>i32::saturating_sub\<close> on mathematical integers.\<close>
definition i32_saturating_sub :: "int \<Rightarrow> int \<Rightarrow> int" where
  "i32_saturating_sub a b = max i32_min (min i32_max (a - b))"

lemma i32_saturating_sub_exact [simp]:
  "i32_min \<le> a - b \<Longrightarrow> a - b \<le> i32_max \<Longrightarrow> i32_saturating_sub a b = a - b"
  by (simp add: i32_saturating_sub_def)

section \<open>Collections of facts\<close>

named_theorems codec_simps \<open>byte-level equations of the wire formats\<close>
named_theorems mb_simps \<open>field-by-field effect of the message box operations\<close>

section \<open>Little-endian bytes\<close>

fun le_bytes :: "nat \<Rightarrow> nat \<Rightarrow> bytes" where
  "le_bytes 0 v = []"
| "le_bytes (Suc n) v = of_nat (v mod 256) # le_bytes n (v div 256)"

fun le_nat :: "bytes \<Rightarrow> nat" where
  "le_nat [] = 0"
| "le_nat (b # bs) = unat b + 256 * le_nat bs"

lemma le_bytes_numeral [codec_simps]:
  "le_bytes (numeral k) v = of_nat (v mod 256) # le_bytes (pred_numeral k) (v div 256)"
  by (simp only: numeral_eq_Suc le_bytes.simps)

lemma length_le_bytes [simp]: "length (le_bytes n v) = n"
  by (induction n arbitrary: v) auto

lemma unat_byte [simp]: "unat (of_nat (v mod 256) :: u8) = v mod 256"
  by (simp add: unat_of_nat)

lemma le_nat_le_bytes_mod: "le_nat (le_bytes n v) = v mod 256 ^ n"
  by (induction n arbitrary: v) (auto simp: mod_mult2_eq algebra_simps)

lemma le_nat_le_bytes [simp, codec_simps]: "v < 256 ^ n \<Longrightarrow> le_nat (le_bytes n v) = v"
  by (simp add: le_nat_le_bytes_mod)

lemma unat_byte_lt [simp]: "unat (b :: u8) < 256"
  using unsigned_less[of b, where ?'a = nat] by simp

lemma le_nat_bound: "le_nat bs < 256 ^ length bs"
proof (induction bs)
  case Nil
  then show ?case by simp
next
  case (Cons b bs)
  have "unat b + 256 * le_nat bs < 256 + 256 * le_nat bs" by simp
  also have "\<dots> \<le> 256 * 256 ^ length bs" using Cons.IH by simp
  finally show ?case by simp
qed

lemma le_bytes_le_nat [simp, codec_simps]: "le_bytes (length bs) (le_nat bs) = bs"
proof (induction bs)
  case Nil
  then show ?case by simp
next
  case (Cons b bs)
  have "(unat b + 256 * le_nat bs) mod 256 = unat b"
    by simp
  moreover have "(unat b + 256 * le_nat bs) div 256 = le_nat bs"
    by simp
  ultimately show ?case using Cons.IH by simp
qed

lemma le_nat_append: "le_nat (as @ bs) = le_nat as + 256 ^ length as * le_nat bs"
  by (induction as) (auto simp: algebra_simps)

text \<open>The fixed-width conversions of the integer types.\<close>

definition le_bytes32 :: "32 word \<Rightarrow> bytes" where
  "le_bytes32 w = le_bytes 4 (unat w)"

definition le_word32 :: "bytes \<Rightarrow> 32 word" where
  "le_word32 bs = of_nat (le_nat bs)"

definition le_bytes64 :: "64 word \<Rightarrow> bytes" where
  "le_bytes64 w = le_bytes 8 (unat w)"

definition le_word64 :: "bytes \<Rightarrow> 64 word" where
  "le_word64 bs = of_nat (le_nat bs)"

lemma length_le_bytes32 [simp]: "length (le_bytes32 w) = 4"
  by (simp add: le_bytes32_def)

lemma length_le_bytes64 [simp]: "length (le_bytes64 w) = 8"
  by (simp add: le_bytes64_def)

lemma le_word32_le_bytes32 [simp, codec_simps]: "le_word32 (le_bytes32 w) = w"
proof -
  have "unat w < 256 ^ 4" using unsigned_less[of w, where ?'a = nat] by simp
  then show ?thesis by (simp add: le_word32_def le_bytes32_def)
qed

lemma le_word64_le_bytes64 [simp, codec_simps]: "le_word64 (le_bytes64 w) = w"
proof -
  have "unat w < 256 ^ 8" using unsigned_less[of w, where ?'a = nat] by simp
  then show ?thesis by (simp add: le_word64_def le_bytes64_def)
qed

lemma unat_le_word32: "length bs = 4 \<Longrightarrow> unat (le_word32 bs) = le_nat bs"
  using le_nat_bound[of bs] by (simp add: le_word32_def unat_of_nat)

lemma le_bytes32_le_word32: "length bs = 4 \<Longrightarrow> le_bytes32 (le_word32 bs) = bs"
  by (metis le_bytes32_def le_bytes_le_nat unat_le_word32)

lemma sint32_eq:
  "sint (w :: 32 word) = (if unat w < 2 ^ 31 then int (unat w) else int (unat w) - 2 ^ 32)"
proof -
  define n where "n = unat w"
  have n: "n < 2 ^ 32" using unsigned_less[of w, where ?'a = nat] by (simp add: n_def)
  have u: "uint w = int n" by (simp add: n_def)
  have wn: "word_of_nat n = w" by (simp add: n_def)
  have s: "sint w = (int n + 2 ^ 31) mod 2 ^ 32 - 2 ^ 31"
    using int_word_sint[of "int n", where ?'a = 32] by (simp add: wn)
  show ?thesis
  proof (cases "n < 2 ^ 31")
    case True
    then show ?thesis unfolding s n_def[symmetric] by simp
  next
    case False
    then have "(int n + 2 ^ 31) mod 2 ^ 32 = (int n - 2 ^ 31) mod 2 ^ 32"
      by (subst mod_pos_geq) auto
    also have "\<dots> = int n - 2 ^ 31" using False n by simp
    finally show ?thesis using False unfolding s n_def[symmetric] by simp
  qed
qed

lemma sint32_nonneg_iff: "0 \<le> sint (w :: 32 word) \<longleftrightarrow> unat w < 2 ^ 31"
proof -
  define n where "n = unat w"
  have "n < 4294967296" using unsigned_less[of w, where ?'a = nat] by (simp add: n_def)
  then have "int n < 4294967296" by linarith
  then show ?thesis unfolding sint32_eq n_def[symmetric] by auto
qed

lemma sint_small: "unat (w :: 32 word) < 2 ^ 31 \<Longrightarrow> sint w = int (unat w)"
  unfolding sint32_eq by simp

section \<open>Searching sorted slices\<close>

text \<open>
  \<open>binary_search_by_key\<close>: \<open>Inr i\<close> is Rust's \<open>Ok(i)\<close>, the position of a matching element,
  and \<open>Inl i\<close> is \<open>Err(i)\<close>, the position where it could be inserted.
\<close>

function bsearch_loop :: "('a \<Rightarrow> 'k::linorder) \<Rightarrow> 'k \<Rightarrow> 'a list \<Rightarrow> nat \<Rightarrow> nat \<Rightarrow> nat + nat" where
  "bsearch_loop f k xs lo hi =
     (if lo < hi then
        let mid = (lo + hi) div 2 in
        if f (xs ! mid) = k then Inr mid
        else if f (xs ! mid) < k then bsearch_loop f k xs (Suc mid) hi
        else bsearch_loop f k xs lo mid
      else Inl lo)"
  by pat_completeness auto
termination
  by (relation "measure (\<lambda>(f, k, xs, lo, hi). hi - lo)") auto

declare bsearch_loop.simps [simp del]

definition binary_search_by_key :: "('a \<Rightarrow> 'k::linorder) \<Rightarrow> 'k \<Rightarrow> 'a list \<Rightarrow> nat + nat" where
  "binary_search_by_key f k xs = bsearch_loop f k xs 0 (length xs)"

abbreviation sorted_keys :: "('a \<Rightarrow> 'k::linorder) \<Rightarrow> 'a list \<Rightarrow> bool" where
  "sorted_keys f xs \<equiv> sorted_wrt (<) (map f xs)"

lemma sorted_keys_nth_less:
  "sorted_keys f xs \<Longrightarrow> i < j \<Longrightarrow> j < length xs \<Longrightarrow> f (xs ! i) < f (xs ! j)"
  by (auto simp: sorted_wrt_iff_nth_less)

lemma sorted_keys_nth_inject:
  "sorted_keys f xs \<Longrightarrow> i < length xs \<Longrightarrow> j < length xs \<Longrightarrow> f (xs ! i) = f (xs ! j) \<Longrightarrow> i = j"
  by (metis linorder_neqE_nat order_less_irrefl sorted_keys_nth_less)

text \<open>The two outcomes of the search loop, with its invariant on the bounds.\<close>

lemma bsearch_loop_spec:
  assumes "sorted_keys f xs" "lo \<le> hi" "hi \<le> length xs"
    and "\<forall>j<lo. f (xs ! j) < k" "\<forall>j<length xs. hi \<le> j \<longrightarrow> k < f (xs ! j)"
  shows "case bsearch_loop f k xs lo hi of
           Inr i \<Rightarrow> i < length xs \<and> f (xs ! i) = k
         | Inl i \<Rightarrow> i \<le> length xs \<and> (\<forall>j<i. f (xs ! j) < k) \<and>
                    (\<forall>j<length xs. i \<le> j \<longrightarrow> k < f (xs ! j))"
  using assms
proof (induction f k xs lo hi rule: bsearch_loop.induct)
  case (1 f k xs lo hi)
  let ?mid = "(lo + hi) div 2"
  show ?case
  proof (cases "lo < hi")
    case False
    then have "bsearch_loop f k xs lo hi = Inl lo" by (simp add: bsearch_loop.simps)
    with False "1.prems" show ?thesis by auto
  next
    case True
    then have mid: "?mid < length xs" "lo \<le> ?mid" "?mid < hi"
      using "1.prems"(3) by auto
    consider (eq) "f (xs ! ?mid) = k" | (lt) "f (xs ! ?mid) < k" | (gt) "k < f (xs ! ?mid)"
      by (rule linorder_cases)
    then show ?thesis
    proof cases
      case eq
      with True mid show ?thesis by (simp add: bsearch_loop.simps[of f k xs lo hi] Let_def)
    next
      case lt
      have below: "\<forall>j<Suc ?mid. f (xs ! j) < k"
        using lt mid "1.prems"(1) by (metis less_Suc_eq order.strict_trans sorted_keys_nth_less)
      have "bsearch_loop f k xs lo hi = bsearch_loop f k xs (Suc ?mid) hi"
        using True lt less_imp_neq[OF lt] by (simp add: bsearch_loop.simps[of f k xs lo hi] Let_def)
      moreover have "Suc ?mid \<le> hi" using mid by simp
      ultimately show ?thesis
        using "1.IH"(1)[OF True refl less_imp_neq[OF lt] lt "1.prems"(1) _ "1.prems"(3) below "1.prems"(5)]
        by simp
    next
      case gt
      have above: "\<forall>j<length xs. ?mid \<le> j \<longrightarrow> k < f (xs ! j)"
        using gt mid "1.prems"(1)
        by (metis le_neq_implies_less order.strict_trans sorted_keys_nth_less)
      have "bsearch_loop f k xs lo hi = bsearch_loop f k xs lo ?mid"
        using True gt less_imp_neq[OF gt] by (auto simp: bsearch_loop.simps[of f k xs lo hi] Let_def)
      then show ?thesis
        using "1.IH"(2)[OF True refl less_imp_neq[OF gt, symmetric] less_not_sym[OF gt] "1.prems"(1)
            mid(2) less_imp_le[OF mid(1)] "1.prems"(4) above]
        by simp
    qed
  qed
qed

lemma binary_search_Inr:
  assumes "sorted_keys f xs" "binary_search_by_key f k xs = Inr i"
  shows "i < length xs" "f (xs ! i) = k"
  using bsearch_loop_spec[OF assms(1), of 0 "length xs" k] assms(2)
  by (auto simp: binary_search_by_key_def)

lemma binary_search_Inl:
  assumes "sorted_keys f xs" "binary_search_by_key f k xs = Inl i"
  shows "i \<le> length xs" "\<forall>j<i. f (xs ! j) < k" "\<forall>j<length xs. i \<le> j \<longrightarrow> k < f (xs ! j)"
  using bsearch_loop_spec[OF assms(1), of 0 "length xs" k] assms(2)
  by (auto simp: binary_search_by_key_def)

text \<open>On a slice with strictly sorted keys: the search decides membership, and inserting at the
  returned position keeps the slice sorted.\<close>

lemma binary_search_Inr_iff:
  assumes "sorted_keys f xs"
  shows "(\<exists>i. binary_search_by_key f k xs = Inr i) \<longleftrightarrow> k \<in> f ` set xs"
proof
  assume "\<exists>i. binary_search_by_key f k xs = Inr i"
  then show "k \<in> f ` set xs" using binary_search_Inr[OF assms] by (metis imageI nth_mem)
next
  assume "k \<in> f ` set xs"
  then obtain j where j: "j < length xs" "f (xs ! j) = k" by (auto simp: in_set_conv_nth)
  show "\<exists>i. binary_search_by_key f k xs = Inr i"
  proof (cases "binary_search_by_key f k xs")
    case (Inl i)
    with j binary_search_Inl[OF assms Inl] show ?thesis
      by (metis less_irrefl not_le)
  next
    case (Inr i)
    then show ?thesis by blast
  qed
qed

lemma sorted_keys_insert_at:
  assumes "sorted_keys f xs" "binary_search_by_key f (f x) xs = Inl i"
  shows "sorted_keys f (take i xs @ x # drop i xs)"
proof -
  have below: "f y < f x" if "y \<in> set (take i xs)" for y
    using that binary_search_Inl(2)[OF assms] by (auto simp: in_set_conv_nth)
  have above: "f x < f y" if "y \<in> set (drop i xs)" for y
    using that binary_search_Inl(1,3)[OF assms] by (auto simp: in_set_conv_nth)
  have "sorted_keys f (take i xs @ drop i xs)" using assms(1) by simp
  then show ?thesis
    using below above by (auto simp: sorted_wrt_append simp del: append_take_drop_id)
qed

lemma set_insert_at: "set (take i xs @ x # drop i xs) = insert x (set xs)"
  by (metis append_take_drop_id set_append Un_insert_right list.simps(15))

end
