(* ===== verification/Deque_Buffer.thy ===== *)
theory Deque_Buffer
  imports Prelude
begin

text \<open>
  The growable byte buffer of \<open>grammers-crypto/src/deque_buffer.rs\<close>: a vector with a head
  offset, so that headers can be written in front of a payload without moving it. The locale
  \<open>front_buffer\<close> is what the transports rely on: the buffer is a list that grows at both ends.
\<close>

section \<open>The buffer\<close>

record 'a deque_buffer =
  buffer :: "'a list"
  head :: nat
  default_head :: nat

text \<open>The value \<open>dflt\<close> is Rust's \<open>T::default()\<close>.\<close>

definition with_capacity :: "'a \<Rightarrow> nat \<Rightarrow> nat \<Rightarrow> 'a deque_buffer" where
  "with_capacity dflt back_capacity front_capacity =
     \<lparr>buffer = replicate front_capacity dflt, head = front_capacity, default_head = front_capacity\<rparr>"

definition clear :: "'a \<Rightarrow> 'a deque_buffer \<Rightarrow> 'a deque_buffer" where
  "clear dflt d =
     (let kept = take (default_head d) (buffer d)
      in d\<lparr>buffer := map (\<lambda>_. dflt) kept, head := default_head d\<rparr>)"

text \<open>\<open>copy_from_slice\<close> into the positions \<open>i..i + len\<close>; \<open>slice::rotate_right\<close>.\<close>

definition overwrite :: "'a list \<Rightarrow> nat \<Rightarrow> 'a list \<Rightarrow> 'a list" where
  "overwrite xs i ys = take i xs @ ys @ drop (i + length ys) xs"

definition rotate_right :: "nat \<Rightarrow> 'a list \<Rightarrow> 'a list" where
  "rotate_right k xs = drop (length xs - k) xs @ take (length xs - k) xs"

definition extend_front :: "'a \<Rightarrow> 'a list \<Rightarrow> 'a deque_buffer \<Rightarrow> 'a deque_buffer" where
  "extend_front dflt elems d =
     (let d' = (if length elems \<le> head d then d\<lparr>head := head d - length elems\<rparr>
                else let shift = length elems - head d
                     in d\<lparr>buffer := rotate_right shift (buffer d @ replicate shift dflt), head := 0\<rparr>)
      in d'\<lparr>buffer := overwrite (buffer d') (head d') elems\<rparr>)"

definition push :: "'a \<Rightarrow> 'a deque_buffer \<Rightarrow> 'a deque_buffer" where
  "push v d = d\<lparr>buffer := buffer d @ [v]\<rparr>"

definition deque_extend :: "'a list \<Rightarrow> 'a deque_buffer \<Rightarrow> 'a deque_buffer" where
  "deque_extend vs d = d\<lparr>buffer := buffer d @ vs\<rparr>"

definition is_empty :: "'a deque_buffer \<Rightarrow> bool" where
  "is_empty d \<longleftrightarrow> head d = length (buffer d)"

definition len :: "'a deque_buffer \<Rightarrow> nat" where
  "len d = length (buffer d) - head d"

definition as_ref :: "'a deque_buffer \<Rightarrow> 'a list" where
  "as_ref d = drop (head d) (buffer d)"

text \<open>Writing through \<open>as_mut\<close>: the visible slice is replaced by one of the same length.\<close>

definition as_mut_write :: "'a list \<Rightarrow> 'a deque_buffer \<Rightarrow> 'a deque_buffer" where
  "as_mut_write vs d = d\<lparr>buffer := take (head d) (buffer d) @ vs\<rparr>"

section \<open>The representation invariant and the list it stands for\<close>

definition deque_inv :: "'a deque_buffer \<Rightarrow> bool" where
  "deque_inv d \<longleftrightarrow> head d \<le> length (buffer d) \<and> default_head d \<le> length (buffer d)"

lemma overwrite_at:
  "i + length ys \<le> length xs \<Longrightarrow> drop i (overwrite xs i ys) = ys @ drop (i + length ys) xs"
  by (simp add: overwrite_def)

lemma length_overwrite [simp]:
  "i + length ys \<le> length xs \<Longrightarrow> length (overwrite xs i ys) = length xs"
  by (simp add: overwrite_def)

lemma rotate_right_append:
  "k = length ys \<Longrightarrow> rotate_right k (xs @ ys) = ys @ xs"
  by (simp add: rotate_right_def)

lemma as_ref_with_capacity [simp]: "as_ref (with_capacity dflt b f) = []"
  by (simp add: as_ref_def with_capacity_def)

lemma as_ref_clear: "deque_inv d \<Longrightarrow> as_ref (clear dflt d) = []"
  by (simp add: as_ref_def clear_def deque_inv_def Let_def)

lemma as_ref_extend [simp]: "deque_inv d \<Longrightarrow> as_ref (deque_extend vs d) = as_ref d @ vs"
  by (simp add: as_ref_def deque_extend_def deque_inv_def)

lemma as_ref_push: "deque_inv d \<Longrightarrow> as_ref (push v d) = as_ref d @ [v]"
  by (simp add: as_ref_def push_def deque_inv_def)

lemma as_ref_extend_front [simp]:
  assumes "deque_inv d"
  shows "as_ref (extend_front dflt vs d) = vs @ as_ref d"
proof (cases "length vs \<le> head d")
  case True
  with assms show ?thesis
    by (simp add: as_ref_def extend_front_def Let_def deque_inv_def overwrite_at)
next
  case False
  let ?shift = "length vs - head d"
  have "rotate_right ?shift (buffer d @ replicate ?shift dflt) = replicate ?shift dflt @ buffer d"
    by (rule rotate_right_append) simp
  moreover have "0 + length vs \<le> length (replicate ?shift dflt @ buffer d)"
    using False assms unfolding deque_inv_def length_append length_replicate by arith
  ultimately show ?thesis
    using False overwrite_at[of 0 vs "replicate ?shift dflt @ buffer d"]
    by (simp add: as_ref_def extend_front_def Let_def)
qed

lemma as_ref_as_mut_write [simp]:
  "deque_inv d \<Longrightarrow> as_ref (as_mut_write vs d) = vs"
  by (simp add: as_ref_def as_mut_write_def deque_inv_def)

lemma len_as_ref [simp]: "deque_inv d \<Longrightarrow> len d = length (as_ref d)"
  by (simp add: len_def as_ref_def)

lemma is_empty_as_ref: "deque_inv d \<Longrightarrow> is_empty d \<longleftrightarrow> as_ref d = []"
  by (auto simp: is_empty_def as_ref_def deque_inv_def)

lemma deque_inv_with_capacity [simp]: "deque_inv (with_capacity dflt b f)"
  by (simp add: deque_inv_def with_capacity_def)

lemma deque_inv_clear [simp]: "deque_inv d \<Longrightarrow> deque_inv (clear dflt d)"
  by (simp add: deque_inv_def clear_def Let_def)

lemma deque_inv_extend [simp]: "deque_inv d \<Longrightarrow> deque_inv (deque_extend vs d)"
  by (simp add: deque_inv_def deque_extend_def)

lemma deque_inv_push [simp]: "deque_inv d \<Longrightarrow> deque_inv (push v d)"
  by (simp add: deque_inv_def push_def)

lemma deque_inv_extend_front [simp]: "deque_inv d \<Longrightarrow> deque_inv (extend_front dflt vs d)"
  by (auto simp: deque_inv_def extend_front_def Let_def rotate_right_def)

lemma deque_inv_as_mut_write [simp]:
  "deque_inv d \<Longrightarrow> length vs = length (as_ref d) \<Longrightarrow> deque_inv (as_mut_write vs d)"
  by (auto simp: deque_inv_def as_mut_write_def as_ref_def)

section \<open>The interface the transports use\<close>

locale front_buffer =
  fixes view :: "'d \<Rightarrow> 'a list"
    and put_back :: "'a list \<Rightarrow> 'd \<Rightarrow> 'd"
    and put_front :: "'a list \<Rightarrow> 'd \<Rightarrow> 'd"
    and invar :: "'d \<Rightarrow> bool"
  assumes view_back: "invar d \<Longrightarrow> view (put_back vs d) = view d @ vs"
    and view_front: "invar d \<Longrightarrow> view (put_front vs d) = vs @ view d"
    and invar_back: "invar d \<Longrightarrow> invar (put_back vs d)"
    and invar_front: "invar d \<Longrightarrow> invar (put_front vs d)"
begin

text \<open>An envelope written around a payload, in whatever order its parts are written.\<close>

lemma envelope:
  "invar d \<Longrightarrow> view (put_back t (put_front h d)) = h @ view d @ t \<and> invar (put_back t (put_front h d))"
  by (simp add: view_back view_front invar_back invar_front)

lemma envelope_commutes:
  "invar d \<Longrightarrow> view (put_front h (put_back t d)) = view (put_back t (put_front h d))"
  by (simp add: view_back view_front invar_back invar_front)

lemma fronts: "invar d \<Longrightarrow> view (put_front h2 (put_front h1 d)) = h2 @ h1 @ view d"
  by (simp add: view_front invar_front)

end

interpretation db: front_buffer as_ref deque_extend "extend_front dflt" deque_inv
  by unfold_locales simp_all

end
