(* ===== verification/Transport.thy ===== *)
theory Transport
  imports Deque_Buffer
begin

text \<open>
  The framing layer of \<open>grammers-mtproto/src/transport\<close>: the abridged, intermediate and full
  transports, as functions on the deque buffer of the crypto crate, and the receive loop of
  \<open>grammers-mtsender/src/sender.rs\<close> that splits a byte stream into packets. The locale
  \<open>transport\<close> states what the sender relies on; each transport interprets it.
\<close>

unbundle bit_operations_syntax

section \<open>Errors and offsets\<close>

datatype transport_error =
    MissingBytes
  | BadLen i32
  | BadSeq i32 i32
  | BadCrc u32 u32
  | BadStatus u32

record unpacked_offset =
  data_start :: nat
  data_end :: nat
  next_offset :: nat

type_synonym 'r unpacker =
  "'r \<Rightarrow> bytes \<Rightarrow> ('r \<times> bytes \<times> (transport_error + unpacked_offset)) option"
type_synonym 's packer = "'s \<Rightarrow> u8 deque_buffer \<Rightarrow> ('s \<times> u8 deque_buffer) option"

text \<open>
  A packer or an unpacker is \<open>None\<close> where the code panics. An unpacker returns the new state,
  the buffer as left by the call, and the result. Every index and every range the code takes of a
  buffer is a \<open>byte_at\<close> or a \<open>subrange\<close>, which are \<open>None\<close> where Rust panics. Integers that Rust treats as \<open>i32\<close> are
  32-bit words read with \<open>sint\<close>; the flag \<open>checks\<close> says whether the build has overflow checks,
  in which case an addition that overflows panics, and otherwise it wraps.
\<close>

definition subrange :: "bytes \<Rightarrow> nat \<Rightarrow> nat \<Rightarrow> bytes option" where
  "subrange buf i j = (if i \<le> j \<and> j \<le> length buf then Some (take (j - i) (drop i buf)) else None)"

definition byte_at :: "bytes \<Rightarrow> nat \<Rightarrow> u8 option" where
  "byte_at buf i = (if i < length buf then Some (buf ! i) else None)"

definition i32_add :: "bool \<Rightarrow> i32 \<Rightarrow> i32 \<Rightarrow> i32 option" where
  "i32_add checks a b =
     (if checks \<and> (sint a + sint b < - (2 ^ 31) \<or> 2 ^ 31 \<le> sint a + sint b) then None else Some (a + b))"

abbreviation be_front :: "bytes \<Rightarrow> u8 deque_buffer \<Rightarrow> u8 deque_buffer" where
  "be_front \<equiv> extend_front 0"

definition unsigned_abs :: "i32 \<Rightarrow> u32" where
  "unsigned_abs w = (if sint w < 0 then - w else w)"

section \<open>Abridged\<close>

record abridged =
  ab_init :: bool

definition abridged_new :: abridged where
  "abridged_new = \<lparr>ab_init = False\<rparr>"

definition abridged_header :: "nat \<Rightarrow> bytes" where
  "abridged_header n =
     (if n < 127 then [of_nat n] else le_bytes32 (0x7f OR push_bit 8 (of_nat n :: u32)))"

definition abridged_pack :: "abridged packer" where
  "abridged_pack s buf =
     (let n = len buf in
      if n mod 4 \<noteq> 0 then None
      else
        let buf1 = be_front (abridged_header (n div 4)) buf in
        if \<not> ab_init s then Some (s\<lparr>ab_init := True\<rparr>, be_front [0xef] buf1)
        else Some (s, buf1))"

text \<open>The size of the header and the number of words it announces, unless it is incomplete.\<close>

definition abridged_length :: "bytes \<Rightarrow> (nat \<times> nat) option option" where
  "abridged_length buf =
     do { b0 \<leftarrow> byte_at buf 0;
          if unat b0 < 127 then Some (Some (1, unat b0))
          else if length buf < 4 then Some None
          else do { b1 \<leftarrow> byte_at buf 1; b2 \<leftarrow> byte_at buf 2; b3 \<leftarrow> byte_at buf 3;
                    Some (Some (4, le_nat [b1, b2, b3, 0])) } }"

definition abridged_unpack :: "abridged unpacker" where
  "abridged_unpack s buf =
     (if buf = [] then Some (s, buf, Inl MissingBytes)
      else case abridged_length buf of
        None \<Rightarrow> None
      | Some None \<Rightarrow> Some (s, buf, Inl MissingBytes)
      | Some (Some (header_len, n)) \<Rightarrow>
          let l = n * 4;
              accept = (s, buf, Inr \<lparr>data_start = header_len, data_end = header_len + l,
                                     next_offset = header_len + l\<rparr>)
          in
          if length buf < header_len + l then Some (s, buf, Inl MissingBytes)
          else if header_len = 1 \<and> l = 4 then
            do { data \<leftarrow> subrange buf 1 5;
                 Some (if sint (le_word32 data) < 0
                       then (s, buf, Inl (BadStatus (unsigned_abs (le_word32 data)))) else accept) }
          else Some accept)"

definition abridged_init_tag :: "abridged \<Rightarrow> abridged \<times> bytes" where
  "abridged_init_tag s = (s\<lparr>ab_init := True\<rparr>, [0xef, 0xef, 0xef, 0xef])"

section \<open>Intermediate\<close>

record intermediate =
  im_init :: bool

definition intermediate_tag :: bytes where
  "intermediate_tag = le_bytes32 0xeeeeeeee"

definition intermediate_new :: intermediate where
  "intermediate_new = \<lparr>im_init = False\<rparr>"

definition intermediate_pack :: "intermediate packer" where
  "intermediate_pack s buf =
     (let n = len buf in
      if n mod 4 \<noteq> 0 then None
      else
        let buf1 = be_front (le_bytes32 (of_nat n)) buf in
        if \<not> im_init s then Some (s\<lparr>im_init := True\<rparr>, be_front intermediate_tag buf1)
        else Some (s, buf1))"

definition intermediate_unpack :: "intermediate unpacker" where
  "intermediate_unpack s buf =
     (if length buf < 4 then Some (s, buf, Inl MissingBytes)
      else
        do { head4 \<leftarrow> subrange buf 0 4;
             let l = le_word32 head4 in
             if sint l < 4 then Some (s, buf, Inl (BadLen l))
             else if length buf < 4 + unat l then Some (s, buf, Inl MissingBytes)
             else if sint l = 4 then
               do { data \<leftarrow> subrange buf 4 8; Some (s, buf, Inl (BadStatus (- le_word32 data))) }
             else Some (s, buf, Inr \<lparr>data_start = 4, data_end = 4 + unat l,
                                     next_offset = 4 + unat l\<rparr>) })"

definition intermediate_init_tag :: "intermediate \<Rightarrow> intermediate \<times> bytes" where
  "intermediate_init_tag s = (s\<lparr>im_init := True\<rparr>, intermediate_tag)"

section \<open>Full\<close>

text \<open>The checksum of the \<open>crc32fast\<close> package is the parameter \<open>crc\<close>.\<close>

record full =
  send_seq :: i32
  recv_seq :: i32

definition full_new :: full where
  "full_new = \<lparr>send_seq = 0, recv_seq = 0\<rparr>"

definition full_pack :: "bool \<Rightarrow> (bytes \<Rightarrow> u32) \<Rightarrow> full packer" where
  "full_pack checks crc s buf =
     (let n = len buf in
      if n mod 4 \<noteq> 0 then None
      else
        do { l1 \<leftarrow> i32_add checks (of_nat n) 4;
             l2 \<leftarrow> i32_add checks l1 4;
             l \<leftarrow> i32_add checks l2 4;
             let buf1 = be_front (le_bytes32 (send_seq s)) buf;
                 buf2 = be_front (le_bytes32 l) buf1;
                 buf3 = deque_extend (le_bytes32 (crc (as_ref buf2))) buf2
             in do { sq \<leftarrow> i32_add checks (send_seq s) 1; Some (s\<lparr>send_seq := sq\<rparr>, buf3) } })"

definition full_unpack :: "bool \<Rightarrow> (bytes \<Rightarrow> u32) \<Rightarrow> full unpacker" where
  "full_unpack checks crc s buf =
     (if length buf < 4 then Some (s, buf, Inl MissingBytes)
      else
        do { head4 \<leftarrow> subrange buf 0 4;
             let total_len = (of_nat (length buf) :: i32);
                 l = le_word32 head4
             in
             if sint l < 12 then
               (if sint l < 0 then Some (s, buf, Inl (BadStatus (unsigned_abs l)))
                else Some (s, buf, Inl (BadLen l)))
             else if sint total_len < sint l then Some (s, buf, Inl MissingBytes)
             else
               do { sq4 \<leftarrow> subrange buf 4 8;
                    let sq = le_word32 sq4 in
                    if sq \<noteq> recv_seq s then Some (s, buf, Inl (BadSeq (recv_seq s) sq))
                    else
                      let n = unat l in
                      do { crc4 \<leftarrow> subrange buf (n - 4) n;
                           covered \<leftarrow> subrange buf 0 (n - 4);
                           let got = le_word32 crc4; valid = crc covered in
                           if got \<noteq> valid then Some (s, buf, Inl (BadCrc valid got))
                           else
                             do { next \<leftarrow> i32_add checks (recv_seq s) 1;
                                  Some (s\<lparr>recv_seq := next\<rparr>, buf,
                                        Inr \<lparr>data_start = 8, data_end = n - 4, next_offset = n\<rparr>) } } } })"

section \<open>The receive loop\<close>

text \<open>
  \<open>Sender::on_net_read\<close> unpacks packet after packet until the buffer is empty or the last
  packet is incomplete, and keeps the rest for the next read. The payloads stand for the calls
  of \<open>mtp.deserialize\<close>, which \<open>Sender.read_packets\<close> makes. \<open>None\<close> means a panic: in \<open>unpack\<close>,
  or because a packet reaches past the bytes received, where the next slice of the read buffer is
  out of range. The loop makes progress only if every packet has a positive size, so it takes
  fuel, and \<open>None\<close> also means that the fuel ran out.
\<close>

fun unpack_loop :: "'r unpacker \<Rightarrow> nat \<Rightarrow> 'r \<Rightarrow> bytes \<Rightarrow> bytes list \<Rightarrow>
    (transport_error + ('r \<times> bytes \<times> bytes list)) option" where
  "unpack_loop unpack 0 r buf acc = None"
| "unpack_loop unpack (Suc fuel) r buf acc =
     (if buf = [] then Some (Inr (r, buf, acc))
      else case unpack r buf of
        None \<Rightarrow> None
      | Some (r', buf', Inr off) \<Rightarrow>
          (case subrange buf' (data_start off) (data_end off) of
             None \<Rightarrow> None
           | Some payload \<Rightarrow>
               (case subrange buf' (next_offset off) (length buf') of
                  None \<Rightarrow> None
                | Some left \<Rightarrow> unpack_loop unpack fuel r' left (acc @ [payload])))
      | Some (r', buf', Inl e) \<Rightarrow>
          (if e = MissingBytes then Some (Inr (r', buf', acc)) else Some (Inl e)))"

datatype read_error = ConnectionReset | TransportFailed transport_error

definition on_net_read :: "'r unpacker \<Rightarrow> 'r \<Rightarrow> bytes \<Rightarrow> bytes \<Rightarrow>
    (read_error + ('r \<times> bytes \<times> bytes list)) option" where
  "on_net_read unpack r pending received =
     (if received = [] then Some (Inl ConnectionReset)
      else
        let buf = pending @ received in
        case unpack_loop unpack (Suc (length buf)) r buf [] of
          None \<Rightarrow> None
        | Some (Inl e) \<Rightarrow> Some (Inl (TransportFailed e))
        | Some (Inr res) \<Rightarrow> Some (Inr res))"

text \<open>Successive reads from the socket, collecting the payloads until an error.\<close>

fun read_chunks :: "'r unpacker \<Rightarrow> 'r \<Rightarrow> bytes \<Rightarrow> bytes list \<Rightarrow> bytes list \<Rightarrow>
    (read_error + ('r \<times> bytes \<times> bytes list)) option" where
  "read_chunks unpack r pending [] acc = Some (Inr (r, pending, acc))"
| "read_chunks unpack r pending (c # cs) acc =
     (case on_net_read unpack r pending c of
        Some (Inr (r', pending', payloads)) \<Rightarrow> read_chunks unpack r' pending' cs (acc @ payloads)
      | other \<Rightarrow> other)"

text \<open>The sending side: the wire bytes of a sequence of packets.\<close>

fun send_all :: "'s packer \<Rightarrow> 's \<Rightarrow> u8 deque_buffer list \<Rightarrow> ('s \<times> bytes) option" where
  "send_all pack s [] = Some (s, [])"
| "send_all pack s (d # ds) =
     do { (s1, d') \<leftarrow> pack s d; (s2, wire) \<leftarrow> send_all pack s1 ds; Some (s2, as_ref d' @ wire) }"

lemma subrange_tail [simp]: "subrange (xs @ ys) (length xs) (length xs + length ys) = Some ys"
  by (simp add: subrange_def)

section \<open>The contract of a transport\<close>

text \<open>
  \<open>sync s r\<close> says that the peer's receiver \<open>r\<close> expects what the sender \<open>s\<close> packs next, and
  \<open>ok\<close> describes the payloads the format can carry. Lengths stay below \<open>2 ^ 31\<close>.
\<close>

abbreviation wire_limit :: nat where "wire_limit \<equiv> 2 ^ 31"

locale transport =
  fixes pack :: "'s packer"
    and unpack :: "'r unpacker"
    and sync :: "'s \<Rightarrow> 'r \<Rightarrow> bool"
    and ok :: "bytes \<Rightarrow> bool"
  assumes frame_nonempty: "pack s d = Some (s', d') \<Longrightarrow> deque_inv d \<Longrightarrow> as_ref d' \<noteq> []"
    and unpack_frame:
      "sync s r \<Longrightarrow> deque_inv d \<Longrightarrow> ok (as_ref d) \<Longrightarrow> pack s d = Some (s', d') \<Longrightarrow>
       length (as_ref d' @ rest) < wire_limit \<Longrightarrow>
       \<exists>r' i j. unpack r (as_ref d' @ rest) =
           Some (r', as_ref d' @ rest,
             Inr \<lparr>data_start = i, data_end = j, next_offset = length (as_ref d')\<rparr>) \<and>
         subrange (as_ref d' @ rest) i j = Some (as_ref d) \<and> sync s' r'"
    and unpack_partial:
      "sync s r \<Longrightarrow> deque_inv d \<Longrightarrow> ok (as_ref d) \<Longrightarrow> pack s d = Some (s', d') \<Longrightarrow>
       length (as_ref d') < wire_limit \<Longrightarrow> n < length (as_ref d') \<Longrightarrow>
       unpack r (take n (as_ref d')) = Some (r, take n (as_ref d'), Inl MissingBytes)"
begin

abbreviation good :: "u8 deque_buffer \<Rightarrow> bool" where
  "good d \<equiv> deque_inv d \<and> ok (as_ref d)"

lemma send_all_nil: "send_all pack s ds = Some (s', []) \<Longrightarrow> \<forall>d\<in>set ds. good d \<Longrightarrow> ds = []"
  by (cases ds) (auto simp: bind_eq_Some_conv dest!: frame_nonempty)

text \<open>
  One run of the loop over a prefix of the wire consumes whole packets only, in order, and
  leaves the receiver in step with the sender at the first packet not consumed.
\<close>

lemma unpack_loop_prefix:
  assumes "sync s r" "\<forall>d\<in>set ds. good d" "send_all pack s ds = Some (s', buf @ rest)"
    and "length (buf @ rest) < wire_limit" "length buf < fuel"
  shows "\<exists>ds1 ds2 s1 r1 pend.
           unpack_loop unpack fuel r buf acc = Some (Inr (r1, pend, acc @ map as_ref ds1)) \<and>
           ds = ds1 @ ds2 \<and> sync s1 r1 \<and> send_all pack s1 ds2 = Some (s', pend @ rest) \<and>
           (rest = [] \<longrightarrow> ds2 = []) \<and> length pend \<le> length buf"
  using assms
proof (induction ds arbitrary: s r buf acc fuel)
  case Nil
  then obtain n where "fuel = Suc n" by (cases fuel) auto
  with Nil show ?case
    by (intro exI[of _ "[]"] exI[of _ s] exI[of _ r]) auto
next
  case (Cons d ds)
  obtain n where fuel: "fuel = Suc n" using Cons.prems(5) by (cases fuel) auto
  obtain sd d' w where pk: "pack s d = Some (sd, d')" and sa: "send_all pack sd ds = Some (s', w)"
    and wire: "buf @ rest = as_ref d' @ w"
    using Cons.prems(3) by (auto simp: bind_eq_Some_conv)
  have gd: "deque_inv d" "ok (as_ref d)" using Cons.prems(2) by auto
  have lim: "length (as_ref d') + length w < wire_limit"
    using Cons.prems(4) unfolding wire by simp
  show ?case
  proof (cases "length buf < length (as_ref d')")
    case True
    then have buf: "buf = take (length buf) (as_ref d')"
      using wire by (simp add: append_eq_append_conv_if)
    have rest: "rest \<noteq> []"
      using True wire by (metis append_Nil2 length_append le_add1 not_less)
    have "length (as_ref d') < wire_limit" using lim by linarith
    from unpack_partial[OF Cons.prems(1) gd pk this True]
    have "unpack r buf = Some (r, buf, Inl MissingBytes)" by (simp only: buf[symmetric])
    then have "unpack_loop unpack fuel r buf acc = Some (Inr (r, buf, acc))" by (simp add: fuel)
    with rest Cons.prems show ?thesis
      by (intro exI[of _ "[]"] exI[of _ "d # ds"] exI[of _ s] exI[of _ r] exI[of _ buf]) auto
  next
    case False
    define buf' where "buf' = drop (length (as_ref d')) buf"
    from False wire[symmetric] have "as_ref d' = take (length (as_ref d')) buf" and w: "w = buf' @ rest"
      by (simp_all add: append_eq_append_conv_if buf'_def)
    then have buf: "buf = as_ref d' @ buf'"
      unfolding buf'_def by (metis append_take_drop_id)
    obtain r' i j where u: "unpack r buf = Some (r', buf,
         Inr \<lparr>data_start = i, data_end = j, next_offset = length (as_ref d')\<rparr>)"
      and data: "subrange buf i j = Some (as_ref d)" and sy: "sync sd r'"
      using unpack_frame[OF Cons.prems(1) gd pk, of buf'] lim unfolding buf w by auto
    have ne: "as_ref d' \<noteq> []" by (rule frame_nonempty[OF pk gd(1)])
    then have small: "length buf' < n" using Cons.prems(5) fuel buf by (cases "as_ref d'") auto
    have step: "unpack_loop unpack fuel r buf acc = unpack_loop unpack n r' buf' (acc @ [as_ref d])"
      using u data ne by (simp add: fuel buf subrange_tail)
    have "\<forall>d\<in>set ds. good d" using Cons.prems(2) by simp
    moreover have "length (buf' @ rest) < wire_limit" using lim w by simp
    ultimately obtain ds1 ds2 s1 r1 pend where
      "unpack_loop unpack n r' buf' (acc @ [as_ref d]) =
         Some (Inr (r1, pend, (acc @ [as_ref d]) @ map as_ref ds1))"
      "ds = ds1 @ ds2" "sync s1 r1" "send_all pack s1 ds2 = Some (s', pend @ rest)"
      "rest = [] \<longrightarrow> ds2 = []" "length pend \<le> length buf'"
      using Cons.IH[OF sy _ sa[unfolded w] _ small] by meson
    then show ?thesis
      using step buf
      by (rule_tac exI[of _ "d # ds1"], rule_tac exI[of _ ds2], rule_tac exI[of _ s1]) auto
  qed
qed

text \<open>However the socket cuts the wire into reads, every payload arrives once and in order.\<close>

lemma read_chunks_delivers:
  assumes "sync s r" "\<forall>d\<in>set ds. good d" "send_all pack s ds = Some (s', pend @ concat cs)"
    and "length (pend @ concat cs) < wire_limit" "[] \<notin> set cs" "cs = [] \<longrightarrow> ds = []"
  shows "\<exists>r'. read_chunks unpack r pend cs acc = Some (Inr (r', [], acc @ map as_ref ds)) \<and> sync s' r'"
  using assms
proof (induction cs arbitrary: s r ds pend acc)
  case Nil
  then show ?case by simp
next
  case (Cons c cs)
  have wire: "send_all pack s ds = Some (s', (pend @ c) @ concat cs)"
    and lim: "length ((pend @ c) @ concat cs) < wire_limit"
    using Cons.prems(3,4) by simp_all
  obtain ds1 ds2 s1 r1 pend1 where
    loop: "unpack_loop unpack (Suc (length (pend @ c))) r (pend @ c) [] =
       Some (Inr (r1, pend1, [] @ map as_ref ds1))"
    and ds: "ds = ds1 @ ds2" and sy: "sync s1 r1"
    and sa: "send_all pack s1 ds2 = Some (s', pend1 @ concat cs)"
    and fin: "concat cs = [] \<longrightarrow> ds2 = []" and le: "length pend1 \<le> length (pend @ c)"
    using unpack_loop_prefix[OF Cons.prems(1,2) wire lim lessI, of "[]"] by blast
  have read: "on_net_read unpack r pend c = Some (Inr (r1, pend1, map as_ref ds1))"
    using loop Cons.prems(5) by (auto simp: on_net_read_def Let_def simp del: unpack_loop.simps)
  have "\<exists>r'. read_chunks unpack r1 pend1 cs (acc @ map as_ref ds1) =
          Some (Inr (r', [], (acc @ map as_ref ds1) @ map as_ref ds2)) \<and> sync s' r'"
    using Cons.prems(2,5) ds fin lim le by (intro Cons.IH[OF sy _ sa]) auto
  then show ?case by (simp add: read ds)
qed

lemma stream_delivery:
  assumes "sync s r" "\<forall>d\<in>set ds. good d" "send_all pack s ds = Some (s', concat cs)"
    and "length (concat cs) < wire_limit" "[] \<notin> set cs"
  shows "\<exists>r'. read_chunks unpack r [] cs [] = Some (Inr (r', [], map as_ref ds)) \<and> sync s' r'"
proof -
  have "cs = [] \<longrightarrow> ds = []" using assms(2,3) send_all_nil by auto
  then show ?thesis
    using read_chunks_delivers[of s r ds s' "[]" cs "[]"] assms by simp
qed

end

text \<open>A transport that packs every payload of its format, in any state.\<close>

locale total_transport = transport pack unpack sync ok
  for pack :: "'s packer" and unpack :: "'r unpacker" and sync ok +
  assumes pack_total: "ok (as_ref d) \<Longrightarrow> deque_inv d \<Longrightarrow> \<exists>s' d'. pack s d = Some (s', d')"
begin

lemma send_all_total: "\<forall>d\<in>set ds. good d \<Longrightarrow> \<exists>s' wire. send_all pack s ds = Some (s', wire)"
proof (induction ds arbitrary: s)
  case Nil
  then show ?case by simp
next
  case (Cons d ds)
  then obtain s1 d' where "pack s d = Some (s1, d')" using pack_total by fastforce
  moreover obtain s2 wire where "send_all pack s1 ds = Some (s2, wire)"
    using Cons by fastforce
  ultimately show ?case by simp
qed

end

end
