(* ===== verification/Transport_Laws.thy ===== *)
theory Transport_Laws
  imports Transport
begin

text \<open>
  Each transport of \<open>Transport\<close> satisfies the contract of the locale \<open>transport\<close>, and for any
  input at all the offsets that \<open>unpack\<close> returns lie inside the buffer.
\<close>

unbundle bit_operations_syntax

section \<open>Abridged\<close>

text \<open>The payloads: whole words, at most \<open>2 ^ 24 - 1\<close> of them, and not a lone negative word.\<close>

definition abridged_ok :: "bytes \<Rightarrow> bool" where
  "abridged_ok d \<longleftrightarrow> length d mod 4 = 0 \<and> length d < 4 * 2 ^ 24 \<and>
     (length d = 4 \<longrightarrow> 0 \<le> sint (le_word32 d))"

lemma abridged_long_header:
  assumes "n < 2 ^ 24"
  shows "le_bytes32 (0x7f OR push_bit 8 (of_nat n :: u32)) = 0x7f # le_bytes 3 n"
proof -
  have "(0x7f :: u32) OR push_bit 8 (of_nat n) = 0x7f + push_bit 8 (of_nat n)"
  proof (rule disjunctive_add_eq_or[symmetric])
    have "take_bit 7 (push_bit 8 (of_nat n :: u32)) = 0" by (simp add: take_bit_push_bit)
    then show "(0x7f :: u32) AND push_bit 8 (of_nat n) = 0"
      by (simp add: take_bit_eq_mask and.commute mask_eq_exp_minus_1)
  qed
  moreover have "push_bit 8 (of_nat n :: u32) = of_nat (256 * n)"
    by (simp add: push_bit_eq_mult mult.commute)
  ultimately have "(0x7f :: u32) OR push_bit 8 (of_nat n) = of_nat (127 + 256 * n)" by simp
  moreover have "unat (of_nat (127 + 256 * n) :: u32) = 127 + 256 * n"
    unfolding unat_of_nat using assms by simp
  moreover have "le_bytes 4 (127 + 256 * n) = 0x7f # le_bytes 3 n"
  proof -
    have "le_bytes (Suc 3) (127 + 256 * n) =
        of_nat ((127 + 256 * n) mod 256) # le_bytes 3 ((127 + 256 * n) div 256)"
      by (rule le_bytes.simps(2))
    moreover have "(127 + 256 * n) mod 256 = 127" "(127 + 256 * n) div 256 = n" by simp_all
    ultimately show ?thesis by simp
  qed
  ultimately show ?thesis by (simp only: le_bytes32_def)
qed

lemma le_nat_append_zero: "le_nat (bs @ [0]) = le_nat bs"
  by (induction bs) auto

lemma abridged_pack_view:
  assumes "abridged_pack s d = Some (s', d')" "deque_inv d"
  shows "as_ref d' = (if ab_init s then [] else [0xef]) @ abridged_header (length (as_ref d) div 4) @ as_ref d"
    and "ab_init s'" "deque_inv d'"
  using assms by (auto simp: abridged_pack_def Let_def split: if_splits)

text \<open>Reading a header back, whatever follows it.\<close>

lemma abridged_length_header:
  assumes "n < 2 ^ 24"
  shows "abridged_length (abridged_header n @ rest) = Some (Some (length (abridged_header n), n))"
proof (cases "n < 127")
  case True
  then have "unat (of_nat n :: u8) = n" by (simp add: unat_of_nat)
  with True show ?thesis by (simp add: abridged_length_def abridged_header_def byte_at_def)
next
  case False
  have h: "abridged_header n = 0x7f # le_bytes 3 n"
    using False abridged_long_header[OF assms] by (simp add: abridged_header_def)
  obtain a b c where abc: "le_bytes 3 n = [a, b, c]"
    using length_le_bytes[of 3 n] by (auto simp: length_Suc_conv numeral_3_eq_3)
  have "le_nat [a, b, c, 0] = n"
    using le_nat_append_zero[of "[a, b, c]"] le_nat_le_bytes[of n 3] assms abc by simp
  then show ?thesis by (simp add: abridged_length_def h abc byte_at_def)
qed

lemma length_abridged_header: "length (abridged_header n) = (if n < 127 then 1 else 4)"
  by (simp add: abridged_header_def)

lemma abridged_header_nonempty [simp]: "abridged_header n \<noteq> []"
  by (metis length_0_conv length_abridged_header one_neq_zero zero_neq_numeral)

text \<open>The two outcomes of a readable header.\<close>

lemma abridged_unpack_missing:
  "abridged_length buf = Some (Some (h, n)) \<Longrightarrow> length buf < h + n * 4 \<Longrightarrow>
   abridged_unpack r buf = Some (r, buf, Inl MissingBytes)"
  by (simp add: abridged_unpack_def Let_def)

lemma abridged_unpack_Inr:
  "buf \<noteq> [] \<Longrightarrow> abridged_length buf = Some (Some (h, n)) \<Longrightarrow> h + n * 4 \<le> length buf \<Longrightarrow>
   \<not> (h = 1 \<and> n = 1 \<and> sint (le_word32 (take 4 (drop 1 buf))) < 0) \<Longrightarrow>
   abridged_unpack r buf =
     Some (r, buf, Inr \<lparr>data_start = h, data_end = h + n * 4, next_offset = h + n * 4\<rparr>)"
  by (auto simp: abridged_unpack_def Let_def subrange_def)

lemma abridged_unpack_frame:
  assumes ok: "abridged_ok d" and h: "h = abridged_header (length d div 4)"
  shows "abridged_unpack r (h @ d @ rest) =
           Some (r, h @ d @ rest, Inr \<lparr>data_start = length h, data_end = length h + length d,
                                  next_offset = length h + length d\<rparr>)"
proof -
  have n: "length d div 4 < 2 ^ 24" and l: "length d div 4 * 4 = length d"
    using ok by (auto simp: abridged_ok_def)
  have "sint (le_word32 (take 4 (drop 1 (h @ d @ rest)))) \<ge> 0" if "length h = 1" "length d div 4 = 1"
  proof -
    have "length d = 4" using l that(2) by linarith
    with ok that(1) show ?thesis by (auto simp: abridged_ok_def)
  qed
  then show ?thesis
    using abridged_unpack_Inr[of "h @ d @ rest" "length h" "length d div 4" r]
      abridged_length_header[OF n, of "d @ rest"] l unfolding h by force
qed

text \<open>Of an incomplete packet nothing is consumed: the header or the payload is still short.\<close>

lemma abridged_unpack_partial:
  assumes ok: "abridged_ok d" and m: "m < length (abridged_header (length d div 4) @ d)"
  shows "abridged_unpack r (take m (abridged_header (length d div 4) @ d)) =
           Some (r, take m (abridged_header (length d div 4) @ d), Inl MissingBytes)"
proof -
  let ?h = "abridged_header (length d div 4)"
  let ?p = "take m (?h @ d)"
  have n: "length d div 4 < 2 ^ 24" and l: "length d div 4 * 4 = length d"
    using ok by (auto simp: abridged_ok_def)
  consider "m = 0" | "0 < m" "m < length ?h" | "length ?h \<le> m" by linarith
  then show ?thesis
  proof cases
    case 1
    then show ?thesis by (simp add: abridged_unpack_def)
  next
    case 2
    then have "\<not> length d div 4 < 127" and "m < 4" by (auto simp: length_abridged_header split: if_splits)
    then have "?h = 0x7f # le_bytes 3 (length d div 4)"
      using abridged_long_header[OF n] by (simp add: abridged_header_def)
    with 2 \<open>m < 4\<close> have "abridged_length ?p = Some None"
      by (cases m) (auto simp: abridged_length_def byte_at_def)
    then show ?thesis by (simp add: abridged_unpack_def)
  next
    case 3
    then have "?p = ?h @ take (m - length ?h) d" by simp
    then have "abridged_length ?p = Some (Some (length ?h, length d div 4))"
      using abridged_length_header[OF n] by metis
    moreover have "length ?p < length ?h + length d div 4 * 4" using m l by simp
    ultimately show ?thesis by (rule abridged_unpack_missing)
  qed
qed

interpretation ab: total_transport abridged_pack abridged_unpack "\<lambda>s r. ab_init s" abridged_ok
proof unfold_locales
  fix s s' d d'
  assume "abridged_pack s d = Some (s', d')" "deque_inv d"
  from abridged_pack_view(1)[OF this] show "as_ref d' \<noteq> []" by simp
next
  fix s d s' d' rest and r :: abridged
  assume "ab_init s" "deque_inv d" and ok: "abridged_ok (as_ref d)" and "abridged_pack s d = Some (s', d')"
  with abridged_pack_view[of s d s' d']
  have v: "as_ref d' = abridged_header (length (as_ref d) div 4) @ as_ref d" and "ab_init s'" by simp_all
  with abridged_unpack_frame[OF ok refl, of r rest]
  show "\<exists>r' i j. abridged_unpack r (as_ref d' @ rest) =
           Some (r', as_ref d' @ rest, Inr \<lparr>data_start = i, data_end = j, next_offset = length (as_ref d')\<rparr>) \<and>
         subrange (as_ref d' @ rest) i j = Some (as_ref d) \<and> ab_init s'"
    by (fastforce simp: v subrange_def)
next
  fix s d s' d' n and r :: abridged
  assume "ab_init s" "deque_inv d" and ok: "abridged_ok (as_ref d)" and "abridged_pack s d = Some (s', d')"
    and "n < length (as_ref d')"
  with abridged_pack_view[of s d s' d']
  show "abridged_unpack r (take n (as_ref d')) = Some (r, take n (as_ref d'), Inl MissingBytes)"
    using abridged_unpack_partial[OF ok, of n r] by simp
next
  fix s d
  assume "abridged_ok (as_ref d)" "deque_inv d"
  then show "\<exists>s' d'. abridged_pack s d = Some (s', d')"
    by (simp add: abridged_pack_def abridged_ok_def Let_def)
qed

section \<open>Intermediate\<close>

text \<open>Payloads of more than one word, since a lone word is read as a status code.\<close>

definition intermediate_ok :: "bytes \<Rightarrow> bool" where
  "intermediate_ok d \<longleftrightarrow> length d mod 4 = 0 \<and> 4 < length d \<and> length d < wire_limit"

lemma unat_of_nat_wire: "n < wire_limit \<Longrightarrow> unat (of_nat n :: i32) = n"
  by (simp add: unat_of_nat)

lemma sint_of_nat_wire: "n < wire_limit \<Longrightarrow> sint (of_nat n :: i32) = int n"
  by (subst sint_small) (auto simp only: unat_of_nat_wire)

lemma intermediate_pack_view:
  assumes "intermediate_pack s d = Some (s', d')" "deque_inv d"
  shows "as_ref d' = (if im_init s then [] else intermediate_tag) @
           le_bytes32 (of_nat (length (as_ref d))) @ as_ref d"
    and "im_init s'" "deque_inv d'"
  using assms by (auto simp: intermediate_pack_def Let_def split: if_splits)

lemma intermediate_unpack_frame:
  assumes ok: "intermediate_ok d" and h: "h = le_bytes32 (of_nat (length d))"
  shows "intermediate_unpack r (h @ d @ rest) =
           Some (r, h @ d @ rest, Inr \<lparr>data_start = 4, data_end = 4 + length d, next_offset = 4 + length d\<rparr>)"
proof -
  have "take 4 (h @ d @ rest) = h" by (simp add: h)
  moreover have "length d < wire_limit" "4 < length d" using ok by (auto simp: intermediate_ok_def)
  ultimately show ?thesis
    unfolding intermediate_unpack_def Let_def
    by (simp add: h subrange_def unat_of_nat_wire[simplified] sint_of_nat_wire[simplified])
qed

lemma intermediate_unpack_short:
  "length buf < 4 \<Longrightarrow> intermediate_unpack r buf = Some (r, buf, Inl MissingBytes)"
  by (simp add: intermediate_unpack_def)

lemma intermediate_unpack_partial:
  assumes ok: "intermediate_ok d" and h: "h = le_bytes32 (of_nat (length d))"
    and m: "m < length (h @ d)"
  shows "intermediate_unpack r (take m (h @ d)) = Some (r, take m (h @ d), Inl MissingBytes)"
proof (cases "m < 4")
  case True
  then show ?thesis by (intro intermediate_unpack_short) simp
next
  case False
  then have "take 4 (take m (h @ d)) = h" by (simp add: h)
  moreover have "length (take m (h @ d)) < 4 + length d" "4 \<le> length (take m (h @ d))"
    using m False by (auto simp: h)
  moreover have "length d < wire_limit" "4 < length d" using ok by (auto simp: intermediate_ok_def)
  ultimately show ?thesis
    unfolding intermediate_unpack_def Let_def
    by (simp add: h subrange_def unat_of_nat_wire[simplified] sint_of_nat_wire[simplified]
        del: take_append length_take)
qed

interpretation im: total_transport intermediate_pack intermediate_unpack "\<lambda>s r. im_init s" intermediate_ok
proof unfold_locales
  fix s s' d d'
  assume "intermediate_pack s d = Some (s', d')" "deque_inv d"
  from intermediate_pack_view(1)[OF this] show "as_ref d' \<noteq> []"
    by (auto simp flip: length_0_conv)
next
  fix s d s' d' rest and r :: intermediate
  assume "im_init s" "deque_inv d" and ok: "intermediate_ok (as_ref d)"
    and "intermediate_pack s d = Some (s', d')"
  with intermediate_pack_view[of s d s' d']
  have v: "as_ref d' = le_bytes32 (of_nat (length (as_ref d))) @ as_ref d" and "im_init s'" by simp_all
  with intermediate_unpack_frame[OF ok refl, of r rest]
  show "\<exists>r' i j. intermediate_unpack r (as_ref d' @ rest) =
           Some (r', as_ref d' @ rest, Inr \<lparr>data_start = i, data_end = j, next_offset = length (as_ref d')\<rparr>) \<and>
         subrange (as_ref d' @ rest) i j = Some (as_ref d) \<and> im_init s'"
    by (fastforce simp: v subrange_def)
next
  fix s d s' d' n and r :: intermediate
  assume "im_init s" "deque_inv d" and ok: "intermediate_ok (as_ref d)"
    and "intermediate_pack s d = Some (s', d')" and "n < length (as_ref d')"
  with intermediate_pack_view[of s d s' d']
  show "intermediate_unpack r (take n (as_ref d')) = Some (r, take n (as_ref d'), Inl MissingBytes)"
    using intermediate_unpack_partial[OF ok refl, of n r] by simp
next
  fix s d
  assume "intermediate_ok (as_ref d)" "deque_inv d"
  then show "\<exists>s' d'. intermediate_pack s d = Some (s', d')"
    by (simp add: intermediate_pack_def intermediate_ok_def Let_def)
qed

section \<open>Full\<close>

definition full_ok :: "bytes \<Rightarrow> bool" where
  "full_ok d \<longleftrightarrow> length d mod 4 = 0 \<and> length d + 12 < wire_limit"

text \<open>The part of a packet that the checksum covers.\<close>

definition full_body :: "full \<Rightarrow> bytes \<Rightarrow> bytes" where
  "full_body s d = le_bytes32 (of_nat (length d + 12)) @ le_bytes32 (send_seq s) @ d"

lemma length_full_body [simp]: "length (full_body s d) = 8 + length d"
  by (simp add: full_body_def)

lemma i32_add_Some: "i32_add checks a b = Some c \<Longrightarrow> c = a + b"
  by (simp add: i32_add_def split: if_splits)

lemma full_pack_view:
  assumes "full_pack checks crc s d = Some (s', d')" "deque_inv d"
  shows "as_ref d' = full_body s (as_ref d) @ le_bytes32 (crc (full_body s (as_ref d)))"
    and "send_seq s' = send_seq s + 1" "recv_seq s' = recv_seq s" "deque_inv d'"
    and "i32_add checks (send_seq s) 1 = Some (send_seq s + 1)"
proof -
  obtain l1 l2 l sq where add: "i32_add checks (of_nat (len d)) 4 = Some l1" "i32_add checks l1 4 = Some l2"
      "i32_add checks l2 4 = Some l" "i32_add checks (send_seq s) 1 = Some sq"
    and res: "s' = s\<lparr>send_seq := sq\<rparr>"
      "d' = (let b = be_front (le_bytes32 l) (be_front (le_bytes32 (send_seq s)) d)
             in deque_extend (le_bytes32 (crc (as_ref b))) b)"
    using assms(1) by (auto simp: full_pack_def Let_def bind_eq_Some_conv split: if_splits)
  have l: "l = of_nat (length (as_ref d) + 12)"
    using add(1-3)[THEN i32_add_Some] assms(2) by simp
  have sq: "sq = send_seq s + 1" by (rule i32_add_Some[OF add(4)])
  show "as_ref d' = full_body s (as_ref d) @ le_bytes32 (crc (full_body s (as_ref d)))" "deque_inv d'"
    using assms(2) by (simp_all add: res(2) l full_body_def Let_def)
  show "send_seq s' = send_seq s + 1" "recv_seq s' = recv_seq s"
    "i32_add checks (send_seq s) 1 = Some (send_seq s + 1)"
    using add(4) by (simp_all add: res(1) sq)
qed

lemma full_unpack_frame:
  assumes ok: "full_ok d" and sq: "send_seq s = recv_seq r"
    and f: "f = full_body s d @ le_bytes32 (crc (full_body s d))"
    and lim: "length (f @ rest) < wire_limit"
    and room: "i32_add checks (recv_seq r) 1 = Some (recv_seq r + 1)"
  shows "full_unpack checks crc r (f @ rest) =
           Some (r\<lparr>recv_seq := recv_seq r + 1\<rparr>, f @ rest,
            Inr \<lparr>data_start = 8, data_end = 8 + length d, next_offset = 12 + length d\<rparr>)"
proof -
  let ?l = "of_nat (length d + 12) :: i32"
  have len: "length d + 12 < wire_limit" using ok by (simp add: full_ok_def)
  have parts: "take 4 (f @ rest) = le_bytes32 ?l" "take 4 (drop 4 (f @ rest)) = le_bytes32 (send_seq s)"
    "take (8 + length d) (f @ rest) = full_body s d"
    "take 4 (drop (8 + length d) (f @ rest)) = le_bytes32 (crc (full_body s d))"
    by (simp_all add: f full_body_def)
  have "sint (of_nat (length (f @ rest)) :: i32) = int (length (f @ rest))"
    by (rule sint_of_nat_wire[OF lim])
  moreover have "length (f @ rest) = 12 + length d + length rest" by (simp add: f)
  ultimately show ?thesis
    using unat_of_nat_wire[OF len] sint_of_nat_wire[OF len] sq
    unfolding full_unpack_def Let_def
    by (auto simp: parts subrange_def room simp del: of_nat_add take_append drop_append)
qed

lemma full_unpack_short:
  "length buf < 4 \<Longrightarrow> full_unpack checks crc r buf = Some (r, buf, Inl MissingBytes)"
  by (simp add: full_unpack_def)

lemma full_unpack_missing:
  assumes "4 \<le> length buf" "length buf < n" "12 \<le> n" "n < wire_limit"
    and "take 4 buf = le_bytes32 (of_nat n)"
  shows "full_unpack checks crc r buf = Some (r, buf, Inl MissingBytes)"
proof -
  have "sint (of_nat (length buf) :: i32) = int (length buf)"
    using assms(2,4) by (intro sint_of_nat_wire) linarith
  with assms sint_of_nat_wire[OF assms(4)] show ?thesis
    by (simp add: full_unpack_def Let_def subrange_def)
qed

lemma full_unpack_partial:
  assumes ok: "full_ok d" and f: "f = full_body s d @ le_bytes32 c" and m: "m < length f"
  shows "full_unpack checks crc r (take m f) = Some (r, take m f, Inl MissingBytes)"
proof (cases "m < 4")
  case True
  then show ?thesis by (intro full_unpack_short) simp
next
  case False
  show ?thesis
  proof (rule full_unpack_missing)
    show "length (take m f) < length d + 12" using m by (simp add: f)
    show "take 4 (take m f) = le_bytes32 (of_nat (length d + 12))"
      using False by (simp add: f full_body_def)
    show "4 \<le> length (take m f)" using False m by simp
  qed (use ok in \<open>auto simp: full_ok_def\<close>)
qed

interpretation fu: transport "full_pack checks crc" "full_unpack checks crc" "\<lambda>s r. send_seq s = recv_seq r" full_ok
  for checks crc
proof unfold_locales
  fix s s' d d'
  assume "full_pack checks crc s d = Some (s', d')" "deque_inv d"
  from full_pack_view(1)[OF this] show "as_ref d' \<noteq> []"
    by (auto simp flip: length_0_conv)
next
  fix s d s' d' rest and r :: full
  assume sq: "send_seq s = recv_seq r" and "deque_inv d" and ok: "full_ok (as_ref d)"
    and "full_pack checks crc s d = Some (s', d')" and lim: "length (as_ref d' @ rest) < wire_limit"
  with full_pack_view[of checks crc s d s' d']
  have v: "as_ref d' = full_body s (as_ref d) @ le_bytes32 (crc (full_body s (as_ref d)))"
    and "send_seq s' = send_seq s + 1" and room: "i32_add checks (recv_seq r) 1 = Some (recv_seq r + 1)"
    using sq by simp_all
  moreover have "drop 8 (full_body s (as_ref d)) = as_ref d" by (simp add: full_body_def)
  ultimately show "\<exists>r' i j. full_unpack checks crc r (as_ref d' @ rest) =
           Some (r', as_ref d' @ rest, Inr \<lparr>data_start = i, data_end = j, next_offset = length (as_ref d')\<rparr>) \<and>
         subrange (as_ref d' @ rest) i j = Some (as_ref d) \<and> send_seq s' = recv_seq r'"
    using full_unpack_frame[where crc = crc, OF ok sq v lim room] sq by (fastforce simp: v subrange_def)
next
  fix s d s' d' n and r :: full
  assume "deque_inv d" and ok: "full_ok (as_ref d)" and "full_pack checks crc s d = Some (s', d')"
    and "n < length (as_ref d')"
  with full_pack_view[of checks crc s d s' d']
  show "full_unpack checks crc r (take n (as_ref d')) = Some (r, take n (as_ref d'), Inl MissingBytes)"
    using full_unpack_partial[OF ok] by simp
qed

section \<open>Bounds on arbitrary input\<close>

text \<open>A packet that \<open>unpack\<close> accepts lies within the buffer and has a positive size.\<close>

definition offset_within :: "bytes \<Rightarrow> unpacked_offset \<Rightarrow> bool" where
  "offset_within buf off \<longleftrightarrow> data_start off \<le> data_end off \<and> data_end off \<le> next_offset off \<and>
     next_offset off \<le> length buf \<and> 0 < next_offset off"

lemmas unpacker_simps = subrange_def byte_at_def Let_def bind_eq_Some_conv

lemma abridged_unpack_within:
  "abridged_unpack r buf = Some (r', buf', Inr off) \<Longrightarrow> r' = r \<and> buf' = buf \<and> offset_within buf off"
  by (auto simp: abridged_unpack_def abridged_length_def offset_within_def unpacker_simps
      split: if_splits option.splits)

lemma intermediate_unpack_within:
  "intermediate_unpack r buf = Some (r', buf', Inr off) \<Longrightarrow> r' = r \<and> buf' = buf \<and> offset_within buf off"
  by (auto simp: intermediate_unpack_def offset_within_def unpacker_simps split: if_splits)

lemma sint_of_nat_le: "sint (of_nat n :: i32) \<le> int n"
proof (cases "n < wire_limit")
  case True
  then show ?thesis by (simp only: sint_of_nat_wire)
next
  case False
  then show ?thesis using sint_lt[of "of_nat n :: i32"] by simp
qed

text \<open>Past its two length checks the full transport has a whole packet before it.\<close>

lemma full_length_within:
  fixes l :: i32
  assumes "\<not> sint l < 12" "\<not> sint (of_nat (length buf) :: i32) < sint l"
  shows "12 \<le> unat l \<and> unat l \<le> length buf"
proof -
  have "sint l = int (unat l)" using assms(1) sint32_nonneg_iff[of l] sint_small[of l] by simp
  with assms sint_of_nat_le[of "length buf"] show ?thesis by linarith
qed

lemma full_unpack_within:
  assumes "full_unpack checks crc r buf = Some (r', buf', Inr off)"
  shows "i32_add checks (recv_seq r) 1 = Some (recv_seq r') \<and> buf' = buf \<and> offset_within buf off \<and>
         12 \<le> next_offset off"
  using assms full_length_within[of "le_word32 (take 4 buf)" buf]
  by (auto simp: full_unpack_def offset_within_def unpacker_simps split: if_splits)

section \<open>Properties\<close>

text \<open>
  Over the abridged transport, whatever way the socket cuts the bytes of a sequence of
  packets into non-empty reads, the receive loop hands over every payload exactly once, in
  order and unchanged, and nothing is left in the buffer.
\<close>

theorem abridged_stream_delivery:
  assumes "ab_init s" and "\<forall>d\<in>set ds. deque_inv d \<and> abridged_ok (as_ref d)"
    and "send_all abridged_pack s ds = Some (s', concat cs)"
    and "length (concat cs) < 2 ^ 31" and "[] \<notin> set cs"
  shows "\<exists>r'. read_chunks abridged_unpack r [] cs [] = Some (Inr (r', [], map as_ref ds))"
  using ab.stream_delivery[OF assms, of r] by blast

text \<open>A buffer holding a given payload.\<close>

abbreviation payload_buffer :: "bytes \<Rightarrow> u8 deque_buffer" where
  "payload_buffer bs \<equiv> deque_extend bs (with_capacity 0 0 0)"

lemma as_ref_payload_buffer [simp]: "as_ref (payload_buffer bs) = bs"
  by simp

lemmas packing_simps = deque_extend_def with_capacity_def len_def as_ref_def extend_front_def overwrite_def
  rotate_right_def Let_def le_bytes32_def

theorem abridged_stream_delivery_witness:
  "\<exists>r'. read_chunks abridged_unpack abridged_new [] [[2, 1, 2], [3, 4, 5, 6, 7, 8, 0]] [] =
     Some (Inr (r', [], map as_ref [payload_buffer [1, 2, 3, 4, 5, 6, 7, 8], payload_buffer []]))"
proof (rule abridged_stream_delivery)
  show "send_all abridged_pack \<lparr>ab_init = True\<rparr> [payload_buffer [1, 2, 3, 4, 5, 6, 7, 8], payload_buffer []] =
      Some (\<lparr>ab_init = True\<rparr>, concat [[2, 1, 2], [3, 4, 5, 6, 7, 8, 0]])"
    by (simp add: abridged_pack_def abridged_header_def packing_simps)
qed (simp_all add: abridged_ok_def)

text \<open>
  Over the intermediate transport the same holds for payloads of more than one word.
\<close>

theorem intermediate_stream_delivery:
  assumes "im_init s" and "\<forall>d\<in>set ds. deque_inv d \<and> intermediate_ok (as_ref d)"
    and "send_all intermediate_pack s ds = Some (s', concat cs)"
    and "length (concat cs) < 2 ^ 31" and "[] \<notin> set cs"
  shows "\<exists>r'. read_chunks intermediate_unpack r [] cs [] = Some (Inr (r', [], map as_ref ds))"
  using im.stream_delivery[OF assms, of r] by blast

theorem intermediate_stream_delivery_witness:
  "\<exists>r'. read_chunks intermediate_unpack intermediate_new [] [[8, 0], [0, 0, 1, 2, 3, 4, 5, 6, 7, 8]] [] =
     Some (Inr (r', [], map as_ref [payload_buffer [1, 2, 3, 4, 5, 6, 7, 8]]))"
proof (rule intermediate_stream_delivery)
  show "send_all intermediate_pack \<lparr>im_init = True\<rparr> [payload_buffer [1, 2, 3, 4, 5, 6, 7, 8]] =
      Some (\<lparr>im_init = True\<rparr>, concat [[8, 0], [0, 0, 1, 2, 3, 4, 5, 6, 7, 8]])"
    by (simp add: intermediate_pack_def packing_simps le_bytes_numeral)
qed (simp_all add: intermediate_ok_def)

text \<open>
  C35: over the full transport the same holds for every checksum function, in builds with and
  without overflow checks, the sequence numbers of the two sides starting equal, and they are
  equal again at the end, so that the next packet is accepted too.
\<close>

theorem full_stream_delivery:
  assumes "send_seq s = recv_seq r" and "\<forall>d\<in>set ds. deque_inv d \<and> full_ok (as_ref d)"
    and "send_all (full_pack checks crc) s ds = Some (s', concat cs)"
    and "length (concat cs) < 2 ^ 31" and "[] \<notin> set cs"
  shows "\<exists>r'. read_chunks (full_unpack checks crc) r [] cs [] = Some (Inr (r', [], map as_ref ds)) \<and>
           send_seq s' = recv_seq r'"
  using fu.stream_delivery[OF assms] by blast

theorem full_stream_delivery_witness:
  "\<exists>r'. read_chunks (full_unpack True (\<lambda>_. 7)) full_new [] [[16, 0, 0, 0, 0, 0], [0, 0, 1, 2, 3, 4, 7, 0, 0, 0]] [] =
     Some (Inr (r', [], map as_ref [payload_buffer [1, 2, 3, 4]])) \<and> send_seq \<lparr>send_seq = 1, recv_seq = 0\<rparr> = recv_seq r'"
proof (rule full_stream_delivery)
  show "send_all (full_pack True (\<lambda>_. 7)) full_new [payload_buffer [1, 2, 3, 4]] =
      Some (\<lparr>send_seq = 1, recv_seq = 0\<rparr>, concat [[16, 0, 0, 0, 0, 0], [0, 0, 1, 2, 3, 4, 7, 0, 0, 0]])"
    by (simp add: full_pack_def full_new_def packing_simps le_bytes_numeral i32_add_def)
qed (simp_all add: full_ok_def full_new_def)

text \<open>
  On any bytes whatsoever, a packet accepted by one of the three transports lies inside the
  buffer, its payload lies inside the packet and the packet is not empty.
\<close>

theorem unpack_offsets_in_bounds:
  assumes "abridged_unpack ra buf = Some (ra', b1, Inr off) \<or>
           intermediate_unpack ri buf = Some (ri', b1, Inr off) \<or>
           full_unpack checks crc rf buf = Some (rf', b1, Inr off)"
  shows "data_start off \<le> data_end off \<and> data_end off \<le> next_offset off \<and>
         next_offset off \<le> length buf \<and> 0 < next_offset off"
  using assms abridged_unpack_within intermediate_unpack_within full_unpack_within
  unfolding offset_within_def by blast

theorem unpack_offsets_in_bounds_witness:
  "data_start \<lparr>data_start = 1, data_end = 1, next_offset = 1\<rparr> \<le> 1 \<and> (1::nat) \<le> 1 \<and>
   1 \<le> length [0 :: u8, 9] \<and> (0::nat) < 1"
  using unpack_offsets_in_bounds[of abridged_new "[0, 9]" abridged_new "[0, 9]"
      "\<lparr>data_start = 1, data_end = 1, next_offset = 1\<rparr>"]
  by (simp add: abridged_unpack_def abridged_length_def byte_at_def)

end
