(* ===== verification/Obfuscated.thy ===== *)
theory Obfuscated
  imports Transport_Laws
begin

text \<open>
  The obfuscation layer: \<open>grammers-crypto/src/obfuscated.rs\<close> (the two AES-256-CTR streams) and
  \<open>grammers-mtproto/src/transport/obfuscated.rs\<close> (the handshake and the wrapper around another
  transport). The CTR key stream and the hash of the cryptographic packages are the parameters
  \<open>ks\<close> (key, nonce and position to key-stream byte) and \<open>sha256\<close>.
\<close>

unbundle bit_operations_syntax

section \<open>The stream cipher\<close>

record ctr =
  ctr_key :: bytes
  ctr_iv :: bytes
  ctr_pos :: nat

definition ctr_new :: "bytes \<Rightarrow> bytes \<Rightarrow> ctr" where
  "ctr_new key iv = \<lparr>ctr_key = key, ctr_iv = iv, ctr_pos = 0\<rparr>"

type_synonym keystream = "bytes \<Rightarrow> bytes \<Rightarrow> nat \<Rightarrow> u8"

definition xor_from :: "(nat \<Rightarrow> u8) \<Rightarrow> nat \<Rightarrow> bytes \<Rightarrow> bytes" where
  "xor_from f p bs = map (\<lambda>(i, b). b XOR f i) (enumerate p bs)"

definition apply_keystream :: "keystream \<Rightarrow> ctr \<Rightarrow> bytes \<Rightarrow> ctr \<times> bytes" where
  "apply_keystream ks c bs =
     (c\<lparr>ctr_pos := ctr_pos c + length bs\<rparr>, xor_from (ks (ctr_key c) (ctr_iv c)) (ctr_pos c) bs)"

record obfuscated_cipher =
  rx :: ctr
  tx :: ctr

abbreviation sub :: "nat \<Rightarrow> nat \<Rightarrow> bytes \<Rightarrow> bytes" where
  "sub i j bs \<equiv> take (j - i) (drop i bs)"

definition cipher_new :: "bytes \<Rightarrow> obfuscated_cipher" where
  "cipher_new ini =
     (let ini_rev = rev ini in
      \<lparr>rx = ctr_new (sub 8 40 ini_rev) (sub 40 56 ini_rev), tx = ctr_new (sub 8 40 ini) (sub 40 56 ini)\<rparr>)"

definition cipher_with_secret :: "(bytes \<Rightarrow> bytes) \<Rightarrow> bytes \<Rightarrow> bytes \<Rightarrow> obfuscated_cipher" where
  "cipher_with_secret sha256 ini secret =
     (let ini_rev = rev ini;
          rx_key = sha256 (sub 8 40 ini_rev @ secret);
          tx_key = sha256 (sub 8 40 ini @ secret)
      in \<lparr>rx = ctr_new rx_key (sub 40 56 ini_rev), tx = ctr_new tx_key (sub 40 56 ini)\<rparr>)"

definition cipher_encrypt :: "keystream \<Rightarrow> obfuscated_cipher \<Rightarrow> bytes \<Rightarrow> obfuscated_cipher \<times> bytes" where
  "cipher_encrypt ks c bs = (let (t, out) = apply_keystream ks (tx c) bs in (c\<lparr>tx := t\<rparr>, out))"

definition cipher_decrypt :: "keystream \<Rightarrow> obfuscated_cipher \<Rightarrow> bytes \<Rightarrow> obfuscated_cipher \<times> bytes" where
  "cipher_decrypt ks c bs = (let (r, out) = apply_keystream ks (rx c) bs in (c\<lparr>rx := r\<rparr>, out))"

section \<open>The wrapped transport\<close>

record 't obfuscated =
  ob_inner :: 't
  ob_head :: "bytes option"
  decrypt_tail :: nat
  ob_cipher :: obfuscated_cipher

definition forbidden_first_ints :: "bytes list" where
  "forbidden_first_ints =
     [[0x48, 0x45, 0x41, 0x44], [0x50, 0x4f, 0x53, 0x54], [0x47, 0x45, 0x54, 0x20],
      [0x4f, 0x50, 0x54, 0x49], [0x16, 0x03, 0x01, 0x02], [0xdd, 0xdd, 0xdd, 0xdd],
      [0xee, 0xee, 0xee, 0xee]]"

definition forbidden_init :: "bytes \<Rightarrow> bool" where
  "forbidden_init ini \<longleftrightarrow> sub 4 8 ini = [0, 0, 0, 0] \<or> ini ! 0 = 0xef \<or>
     take 4 ini \<in> set forbidden_first_ints"

text \<open>
  The handshake draws 64 random bytes until they cannot be mistaken for another protocol; the
  draws are the list \<open>draws\<close> and \<open>None\<close> means that none of them was acceptable.
\<close>

fun draw_init :: "bytes \<Rightarrow> bytes list \<Rightarrow> bytes option" where
  "draw_init ini draws =
     (if forbidden_init ini then (case draws of [] \<Rightarrow> None | d # ds \<Rightarrow> draw_init d ds)
      else Some ini)"

declare draw_init.simps [simp del]

definition generate_keys :: "keystream \<Rightarrow> ('t \<Rightarrow> 't \<times> bytes) \<Rightarrow> bytes list \<Rightarrow> 't \<Rightarrow>
    ('t \<times> bytes \<times> obfuscated_cipher) option" where
  "generate_keys ks init_tag draws inner =
     (case draw_init (replicate 64 0) draws of
        None \<Rightarrow> None
      | Some ini \<Rightarrow>
          let (inner', tag) = init_tag inner;
              ini1 = overwrite ini 56 tag;
              (c, enc) = cipher_encrypt ks (cipher_new ini1) ini1
          in Some (inner', overwrite ini1 56 (sub 56 64 enc), c))"

definition obfuscated_new :: "keystream \<Rightarrow> ('t \<Rightarrow> 't \<times> bytes) \<Rightarrow> bytes list \<Rightarrow> 't \<Rightarrow> 't obfuscated option" where
  "obfuscated_new ks init_tag draws inner =
     (case generate_keys ks init_tag draws inner of
        None \<Rightarrow> None
      | Some (inner', ini, c) \<Rightarrow>
          Some \<lparr>ob_inner = inner', ob_head = Some ini, decrypt_tail = 0, ob_cipher = c\<rparr>)"


definition obfuscated_unpack :: "keystream \<Rightarrow> 't unpacker \<Rightarrow> 't obfuscated unpacker" where
  "obfuscated_unpack ks unpack s buf =
     (if length buf < decrypt_tail s then None
      else
        let (c, dec) = cipher_decrypt ks (ob_cipher s) (drop (decrypt_tail s) buf);
            buf1 = take (decrypt_tail s) buf @ dec
        in do {
             (i, buf2, res) \<leftarrow> unpack (ob_inner s) buf1;
             let s1 = s\<lparr>ob_inner := i, ob_cipher := c, decrypt_tail := length buf\<rparr> in
             case res of
               Inl e \<Rightarrow> Some (s1, buf2, Inl e)
             | Inr off \<Rightarrow>
                 if length buf < next_offset off then None
                 else Some (s1\<lparr>decrypt_tail := length buf - next_offset off\<rparr>, buf2, Inr off) })"

section \<open>The key stream on concatenated data\<close>

lemma length_xor_from [simp]: "length (xor_from f p bs) = length bs"
  by (simp add: xor_from_def)

lemma xor_from_Nil [simp]: "xor_from f p [] = []"
  by (simp add: xor_from_def)

lemma xor_from_eq_Nil [simp]:
  "xor_from f p bs = [] \<longleftrightarrow> bs = []" "[] = xor_from f p bs \<longleftrightarrow> [] = bs"
  by (metis length_0_conv length_xor_from)+

lemma xor_from_append: "xor_from f p (as @ bs) = xor_from f p as @ xor_from f (p + length as) bs"
  by (simp add: xor_from_def enumerate_append_eq)

lemma take_xor_from: "take n (xor_from f p bs) = xor_from f p (take n bs)"
  by (induction bs arbitrary: n p) (auto simp: xor_from_def take_Cons split: nat.splits)

lemma drop_xor_from: "drop n (xor_from f p bs) = xor_from f (p + n) (drop n bs)"
  by (induction bs arbitrary: n p) (auto simp: xor_from_def drop_Cons split: nat.splits)

lemma xor_from_inverse [simp]: "xor_from f p (xor_from f p bs) = bs"
  by (induction bs arbitrary: p) (auto simp: xor_from_def xor.assoc)

fun xor_chunks :: "(nat \<Rightarrow> u8) \<Rightarrow> nat \<Rightarrow> bytes list \<Rightarrow> bytes list" where
  "xor_chunks f p [] = []"
| "xor_chunks f p (c # cs) = xor_from f p c # xor_chunks f (p + length c) cs"

lemma concat_xor_chunks: "concat (xor_chunks f p cs) = xor_from f p (concat cs)"
  by (induction cs arbitrary: p) (auto simp: xor_from_append)


abbreviation stream_of :: "keystream \<Rightarrow> ctr \<Rightarrow> nat \<Rightarrow> u8" where
  "stream_of ks c \<equiv> ks (ctr_key c) (ctr_iv c)"

section \<open>Unpackers that only read\<close>

text \<open>
  What the receive loop and the obfuscation layer need from a transport: \<open>unpack\<close> leaves the
  buffer as it is and never claims more bytes than there are, and it does not panic on up to
  \<open>n\<close> more bytes while \<open>room n r\<close> holds.
\<close>

locale framed =
  fixes unpack :: "'r unpacker" and room :: "nat \<Rightarrow> 'r \<Rightarrow> bool"
  assumes keeps_buffer: "unpack r buf = Some (r', buf', res) \<Longrightarrow> buf' = buf"
    and within: "unpack r buf = Some (r', buf', Inr off) \<Longrightarrow> offset_within buf off"
    and returns: "room n r \<Longrightarrow> length buf \<le> n \<Longrightarrow> unpack r buf \<noteq> None"
    and room_error: "unpack r buf = Some (r', buf', Inl e) \<Longrightarrow> room n r \<Longrightarrow> room n r'"
    and room_packet: "unpack r buf = Some (r', buf', Inr off) \<Longrightarrow> length buf \<le> n \<Longrightarrow> room n r \<Longrightarrow>
      room (n - next_offset off) r'"
begin

lemma unpack_cases:
  obtains (panic) "unpack r buf = None"
  | (err) r' e where "unpack r buf = Some (r', buf, Inl e)"
  | (packet) r' off where "unpack r buf = Some (r', buf, Inr off)" "offset_within buf off"
proof (cases "unpack r buf")
  case (Some x)
  obtain r' b res where x: "x = (r', b, res)" by (cases x)
  have b: "b = buf" using Some keeps_buffer unfolding x by blast
  show ?thesis
  proof (cases res)
    case (Inl e)
    then show ?thesis using err Some unfolding x b by blast
  next
    case (Inr off)
    then show ?thesis using packet within Some unfolding x b by blast
  qed
qed (rule panic)

lemma subrange_within:
  "offset_within buf off \<Longrightarrow>
     subrange buf (data_start off) (data_end off) =
       Some (take (data_end off - data_start off) (drop (data_start off) buf))"
  "offset_within buf off \<Longrightarrow>
     subrange buf (next_offset off) (length buf) = Some (drop (next_offset off) buf)"
  by (auto simp: subrange_def offset_within_def)

text \<open>The receive loop ends on any input, well-formed or not, and room is left for the bytes it left.\<close>

lemma unpack_loop_returns:
  assumes "length buf < fuel" "room n r" "length buf \<le> n"
  shows "\<exists>res. unpack_loop unpack fuel r buf acc = Some res \<and>
           (\<forall>r' pend ps. res = Inr (r', pend, ps) \<longrightarrow>
              length pend \<le> length buf \<and> room (n - (length buf - length pend)) r')"
  using assms
proof (induction fuel arbitrary: r buf acc n)
  case 0
  then show ?case by simp
next
  case (Suc fuel)
  show ?case
  proof (cases r buf rule: unpack_cases)
    case panic
    then show ?thesis using returns Suc.prems by blast
  next
    case (err r' e)
    then show ?thesis using Suc.prems room_error[OF err Suc.prems(2)] by auto
  next
    case (packet r' off)
    let ?left = "drop (next_offset off) buf"
    let ?ps = "acc @ [take (data_end off - data_start off) (drop (data_start off) buf)]"
    have o: "next_offset off \<le> length buf" "0 < next_offset off"
      using packet(2) by (auto simp: offset_within_def)
    have less: "length ?left < fuel" and le: "length ?left \<le> n - next_offset off"
      using o Suc.prems by auto
    have ih_room: "room (n - next_offset off) r'" by (rule room_packet[OF packet(1) Suc.prems(3,2)])
    obtain res where res: "unpack_loop unpack fuel r' ?left ?ps = Some res"
      "\<forall>r'' pend ps. res = Inr (r'', pend, ps) \<longrightarrow>
         length pend \<le> length ?left \<and> room (n - next_offset off - (length ?left - length pend)) r''"
      using Suc.IH[OF less ih_room le, of ?ps] by blast
    have "unpack_loop unpack (Suc fuel) r buf acc = Some res"
      using packet o res(1) by (auto simp: subrange_within)
    moreover have "n - next_offset off - (length ?left - k) = n - (length buf - k)" if "k \<le> length ?left" for k
      using that o Suc.prems(3) by simp
    ultimately show ?thesis using res(2) by fastforce
  qed
qed

lemma on_net_read_returns:
  assumes "room n r" "length (pend @ c) \<le> n"
  shows "\<exists>res. on_net_read unpack r pend c = Some res \<and>
           (\<forall>r' pend' ps. res = Inr (r', pend', ps) \<longrightarrow> length pend' \<le> length (pend @ c) \<and>
              room (n - (length (pend @ c) - length pend')) r')"
proof -
  obtain res where "unpack_loop unpack (Suc (length (pend @ c))) r (pend @ c) [] = Some res"
    "\<forall>r' pend' ps. res = Inr (r', pend', ps) \<longrightarrow> length pend' \<le> length (pend @ c) \<and>
       room (n - (length (pend @ c) - length pend')) r'"
    using unpack_loop_returns[OF lessI assms(1,2), of "[]"] by blast
  then show ?thesis
    by (cases res) (auto simp: on_net_read_def Let_def simp del: unpack_loop.simps)
qed

text \<open>So do any number of reads, while there is room for all their bytes.\<close>

lemma read_chunks_returns:
  assumes "room n r" "length (pend @ concat cs) \<le> n"
  shows "\<exists>res. read_chunks unpack r pend cs acc = Some res"
  using assms
proof (induction cs arbitrary: r pend acc n)
  case Nil
  then show ?case by simp
next
  case (Cons c cs)
  have le: "length (pend @ c) \<le> n" using Cons.prems(2) by simp
  obtain res where res: "on_net_read unpack r pend c = Some res"
    "\<forall>r' pend' ps. res = Inr (r', pend', ps) \<longrightarrow> length pend' \<le> length (pend @ c) \<and>
       room (n - (length (pend @ c) - length pend')) r'"
    using on_net_read_returns[OF Cons.prems(1) le] by blast
  show ?case
  proof (cases res)
    case (Inl e)
    then show ?thesis using res(1) by simp
  next
    case (Inr t)
    obtain r' pend' ps where t: "t = (r', pend', ps)" by (cases t)
    with Inr res(2) have "length pend' \<le> length (pend @ c)"
      "room (n - (length (pend @ c) - length pend')) r'" by auto
    then show ?thesis
      using Cons.IH[of "n - (length (pend @ c) - length pend')" r' pend' "acc @ ps"] Cons.prems(2) res(1)
      by (auto simp: Inr t)
  qed
qed

text \<open>Once everything in the buffer is decrypted the wrapper does what the inner transport does.\<close>

lemma obfuscated_unpack_plain:
  assumes "decrypt_tail s = length buf"
  shows "obfuscated_unpack ks unpack s buf =
     (case unpack (ob_inner s) buf of
        None \<Rightarrow> None
      | Some (i, _, Inl e) \<Rightarrow> Some (s\<lparr>ob_inner := i\<rparr>, buf, Inl e)
      | Some (i, _, Inr off) \<Rightarrow>
          Some (s\<lparr>ob_inner := i, decrypt_tail := length buf - next_offset off\<rparr>, buf, Inr off))"
proof -
  have c: "cipher_decrypt ks (ob_cipher s) [] = (ob_cipher s, [])"
    by (simp add: cipher_decrypt_def apply_keystream_def)
  show ?thesis
    by (cases "ob_inner s" buf rule: unpack_cases)
      (auto simp: obfuscated_unpack_def assms c offset_within_def)
qed

lemma obfuscated_loop:
  assumes "decrypt_tail s = length buf"
  shows "case unpack_loop unpack fuel (ob_inner s) buf acc of
           None \<Rightarrow> unpack_loop (obfuscated_unpack ks unpack) fuel s buf acc = None
         | Some (Inl e) \<Rightarrow> unpack_loop (obfuscated_unpack ks unpack) fuel s buf acc = Some (Inl e)
         | Some (Inr (i, pend, ps)) \<Rightarrow>
             unpack_loop (obfuscated_unpack ks unpack) fuel s buf acc =
               Some (Inr (s\<lparr>ob_inner := i, decrypt_tail := length pend\<rparr>, pend, ps))"
  using assms
proof (induction fuel arbitrary: s buf acc)
  case 0
  then show ?case by simp
next
  case (Suc fuel)
  show ?case
  proof (cases "ob_inner s" buf rule: unpack_cases)
    case (err r' e)
    then show ?thesis using Suc.prems by (auto simp: obfuscated_unpack_plain)
  next
    case panic
    then show ?thesis using Suc.prems by (auto simp: obfuscated_unpack_plain)
  next
    case (packet r' off)
    let ?s = "s\<lparr>ob_inner := r', decrypt_tail := length buf - next_offset off\<rparr>"
    let ?ps = "acc @ [take (data_end off - data_start off) (drop (data_start off) buf)]"
    have "buf \<noteq> []" using packet(2) by (auto simp: offset_within_def)
    then show ?thesis
      using Suc.IH[of ?s "drop (next_offset off) buf" ?ps] packet Suc.prems
      by (auto simp: obfuscated_unpack_plain subrange_within split: option.splits sum.splits)
  qed
qed

end

lemma abridged_keeps_buffer: "abridged_unpack r buf = Some (r', buf', res) \<Longrightarrow> buf' = buf"
  by (auto simp: abridged_unpack_def unpacker_simps split: if_splits option.splits)

lemma intermediate_keeps_buffer: "intermediate_unpack r buf = Some (r', buf', res) \<Longrightarrow> buf' = buf"
  by (auto simp: intermediate_unpack_def unpacker_simps split: if_splits)

lemma full_keeps_buffer: "full_unpack checks crc r buf = Some (r', buf', res) \<Longrightarrow> buf' = buf"
  by (auto simp: full_unpack_def unpacker_simps split: if_splits)

text \<open>The length checks guard every index and every range that the unpackers take.\<close>

lemma abridged_returns: "abridged_unpack r buf \<noteq> None"
proof -
  have "abridged_length buf \<noteq> None" if "buf \<noteq> []" using that by (simp add: abridged_length_def byte_at_def)
  then show ?thesis
    by (cases "buf = []") (auto simp: abridged_unpack_def subrange_def Let_def split: option.split)
qed

lemma intermediate_returns: "intermediate_unpack r buf \<noteq> None"
proof -
  have "unat l = 4" if "sint l = 4" for l :: i32
  proof -
    have "sint l = int (unat l)" using that sint32_nonneg_iff[of l] sint_small[of l] by simp
    then show ?thesis using that by linarith
  qed
  then show ?thesis by (auto simp: intermediate_unpack_def subrange_def Let_def)
qed

text \<open>
  With overflow checks the full transport counts packets up to \<open>i32::MAX\<close>; every packet takes
  at least twelve bytes.
\<close>

definition full_room :: "bool \<Rightarrow> nat \<Rightarrow> full \<Rightarrow> bool" where
  "full_room checks n r \<longleftrightarrow> (checks \<longrightarrow> sint (recv_seq r) + int (n div 12) < 2 ^ 31)"

lemma i32_succ:
  assumes "i32_add checks a 1 = Some b" "checks"
  shows "sint b = sint a + 1"
  using assms sint_word_ariths(1)[of a 1] sint_lt[of a] sint_ge[of a]
  by (auto simp: i32_add_def signed_take_bit_int_eq_self split: if_splits)

lemma full_returns: "full_room checks n r \<Longrightarrow> length buf \<le> n \<Longrightarrow> full_unpack checks crc r buf \<noteq> None"
proof -
  assume room: "full_room checks n r" "length buf \<le> n"
  have "i32_add checks (recv_seq r) 1 \<noteq> None" if "12 \<le> length buf"
  proof -
    have "1 \<le> n div 12" using that room(2) by simp
    then show ?thesis using room(1) sint_ge[of "recv_seq r"] by (auto simp: full_room_def i32_add_def)
  qed
  note step = this
  let ?l = "le_word32 (take 4 buf)"
  show ?thesis
  proof (cases "length buf < 4 \<or> sint ?l < 12 \<or> sint (of_nat (length buf) :: i32) < sint ?l")
    case True
    then show ?thesis by (auto simp: full_unpack_def subrange_def Let_def)
  next
    case False
    then have n: "12 \<le> unat ?l" "unat ?l \<le> length buf" using full_length_within[of ?l buf] by auto
    then have "subrange buf 4 8 \<noteq> None" "subrange buf (unat ?l - 4) (unat ?l) \<noteq> None"
      "subrange buf 0 (unat ?l - 4) \<noteq> None" "subrange buf 0 4 = Some (take 4 buf)"
      "i32_add checks (recv_seq r) 1 \<noteq> None"
      using step by (auto simp: subrange_def)
    with False show ?thesis by (auto simp: full_unpack_def Let_def)
  qed
qed

lemma full_room_packet:
  assumes "full_unpack checks crc r buf = Some (r', buf', Inr off)" "length buf \<le> n" "full_room checks n r"
  shows "full_room checks (n - next_offset off) r'"
proof -
  from full_unpack_within[OF assms(1)]
  have o: "12 \<le> next_offset off" "next_offset off \<le> n" and add: "i32_add checks (recv_seq r) 1 = Some (recv_seq r')"
    using assms(2) by (auto simp: offset_within_def)
  have "(n - next_offset off) div 12 \<le> (n - 12) div 12" using o(1) by (intro div_le_mono) simp
  also have "\<dots> = n div 12 - 1" using o by (simp add: le_div_geq)
  finally have "(n - next_offset off) div 12 \<le> n div 12 - 1" .
  moreover have "1 \<le> n div 12" using o by simp
  ultimately show ?thesis using i32_succ[OF add] assms(3) by (auto simp: full_room_def)
qed

lemma full_room_error:
  "full_unpack checks crc r buf = Some (r', buf', Inl e) \<Longrightarrow> full_room checks n r \<Longrightarrow> full_room checks n r'"
  by (auto simp: full_unpack_def unpacker_simps split: if_splits)

interpretation abf: framed abridged_unpack "\<lambda>_ _. True"
  by unfold_locales (use abridged_keeps_buffer abridged_unpack_within abridged_returns in blast)+

interpretation imf: framed intermediate_unpack "\<lambda>_ _. True"
  by unfold_locales (use intermediate_keeps_buffer intermediate_unpack_within intermediate_returns in blast)+

interpretation fuf: framed "full_unpack checks crc" "full_room checks" for checks crc
proof unfold_locales
  fix r r' :: full and buf buf' res
  assume "full_unpack checks crc r buf = Some (r', buf', res)"
  then show "buf' = buf" by (rule full_keeps_buffer)
next
  fix r r' :: full and buf buf' off
  assume "full_unpack checks crc r buf = Some (r', buf', Inr off)"
  from full_unpack_within[OF this] show "offset_within buf off" by blast
qed (fact full_returns full_room_error full_room_packet)+

section \<open>End to end\<close>

text \<open>Reading one chunk of ciphertext is reading its decryption with the inner transport.\<close>

context framed
begin

lemma obfuscated_first_unpack:
  assumes "decrypt_tail s = length pend"
    and "dec = xor_from (stream_of ks (rx (ob_cipher s))) (ctr_pos (rx (ob_cipher s))) c"
    and "s1 = s\<lparr>ob_cipher := fst (cipher_decrypt ks (ob_cipher s) c), decrypt_tail := length (pend @ c)\<rparr>"
  shows "obfuscated_unpack ks unpack s (pend @ c) = obfuscated_unpack ks unpack s1 (pend @ dec)"
  by (cases "ob_inner s" "pend @ dec" rule: unpack_cases)
    (auto simp: obfuscated_unpack_def assms cipher_decrypt_def apply_keystream_def Let_def)

lemma obfuscated_on_net_read:
  assumes tail: "decrypt_tail s = length pend"
    and p: "p = ctr_pos (rx (ob_cipher s))" and f: "f = stream_of ks (rx (ob_cipher s))"
  shows "case on_net_read unpack (ob_inner s) pend (xor_from f p c) of
           None \<Rightarrow> on_net_read (obfuscated_unpack ks unpack) s pend c = None
         | Some (Inl e) \<Rightarrow> on_net_read (obfuscated_unpack ks unpack) s pend c = Some (Inl e)
         | Some (Inr (i, pend', ps)) \<Rightarrow>
             on_net_read (obfuscated_unpack ks unpack) s pend c =
               Some (Inr (s\<lparr>ob_inner := i, decrypt_tail := length pend',
                            ob_cipher := fst (cipher_decrypt ks (ob_cipher s) c)\<rparr>, pend', ps))"
proof (cases "c = []")
  case True
  then show ?thesis by (simp add: on_net_read_def)
next
  case False
  let ?s1 = "s\<lparr>ob_cipher := fst (cipher_decrypt ks (ob_cipher s) c), decrypt_tail := length (pend @ c)\<rparr>"
  let ?dec = "xor_from f p c"
  let ?U = "obfuscated_unpack ks unpack"
  have "unpack_loop ?U (Suc (length (pend @ c))) s (pend @ c) [] =
        unpack_loop ?U (Suc (length (pend @ c))) ?s1 (pend @ ?dec) []"
    using False obfuscated_first_unpack[OF tail refl refl, of ks c] by (simp add: f p)
  moreover have "decrypt_tail ?s1 = length (pend @ ?dec)" by simp
  note obfuscated_loop[OF this, where fuel = "Suc (length (pend @ c))" and acc = "[]" and ks = ks]
  ultimately show ?thesis
    using False by (auto simp: on_net_read_def Let_def split: option.splits sum.splits)
qed

lemma obfuscated_read_chunks:
  assumes "decrypt_tail s = length pend"
  shows "case read_chunks unpack (ob_inner s) pend
             (xor_chunks (stream_of ks (rx (ob_cipher s))) (ctr_pos (rx (ob_cipher s))) cs) acc of
           None \<Rightarrow> read_chunks (obfuscated_unpack ks unpack) s pend cs acc = None
         | Some (Inl e) \<Rightarrow> read_chunks (obfuscated_unpack ks unpack) s pend cs acc = Some (Inl e)
         | Some (Inr (i, pend', ps)) \<Rightarrow>
             \<exists>s'. read_chunks (obfuscated_unpack ks unpack) s pend cs acc = Some (Inr (s', pend', ps)) \<and>
                  ob_inner s' = i \<and> decrypt_tail s' = length pend'"
  using assms
proof (induction cs arbitrary: s pend acc)
  case Nil
  then show ?case by simp
next
  case (Cons c cs)
  let ?f = "stream_of ks (rx (ob_cipher s))" and ?p = "ctr_pos (rx (ob_cipher s))"
  note one = obfuscated_on_net_read[OF Cons.prems refl refl, of ks c]
  show ?case
  proof (cases "on_net_read unpack (ob_inner s) pend (xor_from ?f ?p c)")
    case None
    with one show ?thesis by simp
  next
    case (Some res)
    show ?thesis
    proof (cases res)
      case (Inl e)
      with one Some show ?thesis by simp
    next
      case (Inr t)
      obtain i pend' ps where t: "t = (i, pend', ps)" by (cases t)
      let ?s = "s\<lparr>ob_inner := i, decrypt_tail := length pend', ob_cipher := fst (cipher_decrypt ks (ob_cipher s) c)\<rparr>"
      have "rx (ob_cipher ?s) = (rx (ob_cipher s))\<lparr>ctr_pos := ?p + length c\<rparr>"
        by (simp add: cipher_decrypt_def apply_keystream_def)
      moreover have eq: "read_chunks (obfuscated_unpack ks unpack) s pend (c # cs) acc =
          read_chunks (obfuscated_unpack ks unpack) ?s pend' cs (acc @ ps)"
        using one Some by (simp add: Inr t)
      ultimately show ?thesis
        unfolding eq using Cons.IH[of ?s pend' "acc @ ps"] Some by (simp add: Inr t)
    qed
  qed
qed

lemma obfuscated_returns:
  assumes "decrypt_tail s = length pend" "room (length (pend @ concat cs)) (ob_inner s)"
  shows "\<exists>res. read_chunks (obfuscated_unpack ks unpack) s pend cs acc = Some res \<and>
           (\<forall>s' pend' ps. res = Inr (s', pend', ps) \<longrightarrow> decrypt_tail s' = length pend')"
proof -
  let ?cs = "xor_chunks (stream_of ks (rx (ob_cipher s))) (ctr_pos (rx (ob_cipher s))) cs"
  have "length (pend @ concat ?cs) \<le> length (pend @ concat cs)" by (simp add: concat_xor_chunks)
  from read_chunks_returns[OF assms(2) this, of acc] obtain res where
    "read_chunks unpack (ob_inner s) pend ?cs acc = Some res" by blast
  with obfuscated_read_chunks[OF assms(1), of ks cs acc] show ?thesis
    by (auto split: sum.splits)
qed

end


text \<open>The handshake stops at the first acceptable draw.\<close>

lemma draw_init_Some: "draw_init ini draws = Some out \<Longrightarrow> \<not> forbidden_init out \<and> out \<in> set (ini # draws)"
proof (induction ini draws rule: draw_init.induct)
  case (1 ini draws)
  then show ?case
    by (subst (asm) (2) draw_init.simps) (auto split: if_splits list.splits)
qed

lemma draw_init_exists: "\<exists>d\<in>set (ini # draws). \<not> forbidden_init d \<Longrightarrow> \<exists>out. draw_init ini draws = Some out"
proof (induction ini draws rule: draw_init.induct)
  case (1 ini draws)
  show ?case
  proof (cases "forbidden_init ini")
    case False
    then show ?thesis by (subst draw_init.simps) simp
  next
    case True
    with 1(2) obtain d ds where "draws = d # ds" by (cases draws) auto
    with True 1 show ?thesis by (subst draw_init.simps) auto
  qed
qed

text \<open>
  The shape of the handshake: key material \<open>a\<close> of 56 bytes, then eight bytes that carry the tag
  under the key stream.
\<close>

lemma handshake_shape:
  assumes a: "length a = 56" and t: "length t = 8"
    and enc: "(c, enc) = cipher_encrypt ks (cipher_new (a @ t)) (a @ t)"
  shows "sub 56 64 (snd (cipher_encrypt ks (cipher_new (a @ sub 56 64 enc)) (a @ sub 56 64 enc))) = t"
proof -
  let ?f = "ks (sub 8 40 a) (sub 40 56 a)"
  have key: "sub 8 40 (a @ x) = sub 8 40 a" "sub 40 56 (a @ x) = sub 40 56 a" for x
    using a by simp_all
  have run: "snd (cipher_encrypt ks (cipher_new (a @ x)) (a @ x)) = xor_from ?f 0 (a @ x)" for x
    by (simp only: cipher_encrypt_def apply_keystream_def cipher_new_def ctr_new_def Let_def key
        ctr.simps obfuscated_cipher.simps prod.case snd_conv)
  have e: "sub 56 64 (xor_from ?f 0 (a @ x)) = xor_from ?f 56 x" if "length x = 8" for x
    using a that by (simp add: xor_from_append)
  have "enc = xor_from ?f 0 (a @ t)" using run[of t] enc by (metis snd_conv)
  then have "sub 56 64 enc = xor_from ?f 56 t" by (simp only: e[OF t])
  moreover have "length (xor_from ?f 56 t) = 8" by (simp add: t)
  ultimately show ?thesis by (simp only: run e xor_from_inverse)
qed

lemma forbidden_init_prefix: "length a = 56 \<Longrightarrow> forbidden_init (a @ x) \<longleftrightarrow> forbidden_init (a @ y)"
  by (cases a) (auto simp: forbidden_init_def)


section \<open>Properties\<close>


definition sample_cipher :: obfuscated_cipher where
  "sample_cipher = \<lparr>rx = ctr_new [] [], tx = ctr_new [] []\<rparr>"

definition sample_peer :: "abridged obfuscated" where
  "sample_peer = \<lparr>ob_inner = \<lparr>ab_init = True\<rparr>, ob_head = None, decrypt_tail = 0, ob_cipher = sample_cipher\<rparr>"


text \<open>
  C37: the receive loop returns, without panicking and without running out of the fuel it is
  given (one more than the bytes in the buffer), for any pending bytes, any number of reads of
  any bytes from the network and any state of the abridged and intermediate transports. For the
  full transport it does so in a build without overflow checks, and in a build with them as long
  as \<open>recv_seq\<close> cannot pass \<open>i32::MAX\<close> on the bytes received, at twelve bytes per packet or
  more. The obfuscated abridged and intermediate transports return too, if at the start the
  pending bytes are those already decrypted; that holds again after every read. An index or a
  range outside the buffer, in a transport or in the loop, would be a panic here.
\<close>

theorem receive_loop_returns:
  assumes "checks \<longrightarrow> sint (recv_seq rf) + int (length (pend @ concat cs) div 12) < 2 ^ 31"
    and "decrypt_tail oa = length pend" "decrypt_tail oi = length pend"
  shows "(\<exists>res. read_chunks abridged_unpack ra pend cs [] = Some res) \<and>
    (\<exists>res. read_chunks intermediate_unpack ri pend cs [] = Some res) \<and>
    (\<exists>res. read_chunks (full_unpack checks crc) rf pend cs [] = Some res) \<and>
    (\<exists>res. read_chunks (obfuscated_unpack ks abridged_unpack) oa pend cs [] = Some res \<and>
       (\<forall>oa' pend' ps. res = Inr (oa', pend', ps) \<longrightarrow> decrypt_tail oa' = length pend')) \<and>
    (\<exists>res. read_chunks (obfuscated_unpack ks intermediate_unpack) oi pend cs [] = Some res \<and>
       (\<forall>oi' pend' ps. res = Inr (oi', pend', ps) \<longrightarrow> decrypt_tail oi' = length pend'))"
  using assms abf.read_chunks_returns[OF TrueI order_refl, of ra pend cs "[]"]
    imf.read_chunks_returns[OF TrueI order_refl, of ri pend cs "[]"]
    fuf.read_chunks_returns[of checks "length (pend @ concat cs)" rf pend cs crc "[]"]
    abf.obfuscated_returns[OF _ TrueI, of oa pend ks cs "[]"] imf.obfuscated_returns[OF _ TrueI, of oi pend ks cs "[]"]
  by (simp add: full_room_def)

theorem receive_loop_returns_witness:
  "(\<exists>res. read_chunks abridged_unpack abridged_new [] [[1, 2], [3]] [] = Some res) \<and>
   (\<exists>res. read_chunks intermediate_unpack intermediate_new [] [[1, 2], [3]] [] = Some res) \<and>
   (\<exists>res. read_chunks (full_unpack True (\<lambda>_. 7)) full_new [] [[1, 2], [3]] [] = Some res) \<and>
   (\<exists>res. read_chunks (obfuscated_unpack (\<lambda>_ _ i. of_nat i) abridged_unpack) sample_peer [] [[1, 2], [3]] [] = Some res \<and>
      (\<forall>oa' pend' ps. res = Inr (oa', pend', ps) \<longrightarrow> decrypt_tail oa' = length pend')) \<and>
   (\<exists>res. read_chunks (obfuscated_unpack (\<lambda>_ _ i. of_nat i) intermediate_unpack)
        \<lparr>ob_inner = intermediate_new, ob_head = None, decrypt_tail = 0, ob_cipher = sample_cipher\<rparr> [] [[1, 2], [3]] [] = Some res \<and>
      (\<forall>oi' pend' ps. res = Inr (oi', pend', ps) \<longrightarrow> decrypt_tail oi' = length pend'))"
  by (rule receive_loop_returns) (simp_all add: full_new_def sample_peer_def)

text \<open>The bound is needed: with overflow checks the packet numbered \<open>i32::MAX\<close> panics.\<close>

lemma full_unpack_last_packet_panics:
  "full_unpack True (\<lambda>_. 7) \<lparr>send_seq = 0, recv_seq = 0x7fffffff\<rparr> [12, 0, 0, 0, 255, 255, 255, 127, 7, 0, 0, 0] = None"
  by (simp add: full_unpack_def subrange_def i32_add_def le_word32_def)

text \<open>
  If any random draw is acceptable the obfuscation handshake succeeds; the first bytes it
  sends cannot be mistaken for a plain transport, TLS or HTTP, and a peer that starts a cipher
  from the key material in bytes 8 to 56 recovers the transport tag from bytes 56 to 60.
\<close>

theorem obfuscated_handshake:
  assumes "\<exists>d\<in>set draws. \<not> forbidden_init d" and "\<forall>d\<in>set draws. length d = 64"
  shows "\<exists>o1 hd. obfuscated_new ks abridged_init_tag draws s = Some o1 \<and> ob_head o1 = Some hd \<and>
           length hd = 64 \<and> \<not> forbidden_init hd \<and> ab_init (ob_inner o1) \<and>
           sub 56 60 (snd (cipher_encrypt ks (cipher_new hd) hd)) = [0xef, 0xef, 0xef, 0xef]"
proof -
  obtain d where "d \<in> set (replicate 64 0 # draws)" "\<not> forbidden_init d" using assms(1) by auto
  then obtain out where out: "draw_init (replicate 64 0) draws = Some out"
    using draw_init_exists by blast
  have zero: "forbidden_init (replicate 64 0)" by (simp add: forbidden_init_def numeral_eq_Suc)
  have "\<not> forbidden_init out" "length out = 64"
    using draw_init_Some[OF out] zero assms(2) by auto
  define a where "a = take 56 out"
  define b where "b = drop 56 out"
  have ab: "out = a @ b" "length a = 56" "length b = 8"
    using \<open>length out = 64\<close> by (auto simp: a_def b_def)
  define t where "t = [0xef, 0xef, 0xef, 0xef] @ drop 4 b"
  have t: "length t = 8" using ab by (simp add: t_def)
  obtain c enc where enc: "(c, enc) = cipher_encrypt ks (cipher_new (a @ t)) (a @ t)"
    by (metis surj_pair)
  let ?hd = "a @ sub 56 64 enc"
  have "length enc = 64"
    using enc ab t by (auto simp: cipher_encrypt_def apply_keystream_def)
  then have hd: "length ?hd = 64" "overwrite (a @ t) 56 (sub 56 64 enc) = ?hd"
    using ab t by (simp_all add: overwrite_def)
  have "overwrite out 56 [0xef, 0xef, 0xef, 0xef] = a @ t"
    using ab by (simp add: overwrite_def t_def)
  then have new: "obfuscated_new ks abridged_init_tag draws s =
      Some \<lparr>ob_inner = s\<lparr>ab_init := True\<rparr>, ob_head = Some ?hd, decrypt_tail = 0, ob_cipher = c\<rparr>"
    using hd(2) enc[symmetric]
    by (simp add: obfuscated_new_def generate_keys_def out abridged_init_tag_def del: One_nat_def)
  moreover have "\<not> forbidden_init ?hd"
    using \<open>\<not> forbidden_init out\<close> forbidden_init_prefix[OF ab(2), of b "sub 56 64 enc"] ab(1) by simp
  moreover have "sub 56 60 (snd (cipher_encrypt ks (cipher_new ?hd) ?hd)) = take 4 t"
    using arg_cong[OF handshake_shape[OF ab(2) t enc], of "take 4"] by simp
  ultimately show ?thesis using hd(1) by (simp add: t_def)
qed

definition sample_draw :: bytes where
  "sample_draw = map of_nat [1..<65]"

theorem obfuscated_handshake_witness:
  "\<exists>o1 hd. obfuscated_new (\<lambda>_ _ i. of_nat i) abridged_init_tag [sample_draw] abridged_new = Some o1 \<and>
     ob_head o1 = Some hd \<and> length hd = 64 \<and> \<not> forbidden_init hd \<and> ab_init (ob_inner o1) \<and>
     sub 56 60 (snd (cipher_encrypt (\<lambda>_ _ i. of_nat i) (cipher_new hd) hd)) = [0xef, 0xef, 0xef, 0xef]"
proof (rule obfuscated_handshake)
  have "\<not> forbidden_init sample_draw" by code_simp
  then show "\<exists>d\<in>set [sample_draw]. \<not> forbidden_init d" by simp
  show "\<forall>d\<in>set [sample_draw]. length d = 64" by (simp add: sample_draw_def)
qed

end
