(* ===== verification/Tl_Codec.thy ===== *)
theory Tl_Codec
  imports Prelude
begin

text \<open>
  The TL binary format of \<open>grammers-tl-types\<close>: the serializers of \<open>src/serialize.rs\<close> and the
  cursor and deserializers of \<open>src/deserialize.rs\<close>. A reader maps a cursor to a result and the
  cursor as the call leaves it, also when it fails. The locale \<open>codec\<close> is the contract between
  a type's two implementations; the generic vector implementations preserve it.
\<close>

section \<open>Serialization\<close>

definition serialize_u32 :: "u32 \<Rightarrow> bytes" where
  "serialize_u32 w = le_bytes32 w"

definition serialize_i32 :: "i32 \<Rightarrow> bytes" where
  "serialize_i32 w = le_bytes32 w"

definition serialize_i64 :: "i64 \<Rightarrow> bytes" where
  "serialize_i64 w = le_bytes64 w"

text \<open>A double is carried as its 64-bit pattern.\<close>

definition serialize_f64 :: "u64 \<Rightarrow> bytes" where
  "serialize_f64 w = le_bytes64 w"

definition serialize_bool :: "bool \<Rightarrow> bytes" where
  "serialize_bool b = serialize_u32 (if b then 0x997275b5 else 0xbc799737)"

definition serialize_array16 :: "bytes \<Rightarrow> bytes" where
  "serialize_array16 bs = bs"

definition serialize_array32 :: "bytes \<Rightarrow> bytes" where
  "serialize_array32 bs = bs"

definition serialize_raw_vec :: "('a \<Rightarrow> bytes) \<Rightarrow> 'a list \<Rightarrow> bytes" where
  "serialize_raw_vec ser xs = serialize_i32 (of_nat (length xs)) @ concat (map ser xs)"

definition serialize_vec :: "('a \<Rightarrow> bytes) \<Rightarrow> 'a list \<Rightarrow> bytes" where
  "serialize_vec ser xs = serialize_u32 0x1cb5c415 @ serialize_i32 (of_nat (length xs)) @ concat (map ser xs)"

definition serialize_bytes :: "bytes \<Rightarrow> bytes" where
  "serialize_bytes bs =
     (let n = length bs;
          (prefix, l) = (if n \<le> 253 then ([of_nat n], n + 1)
                         else ([254, of_nat (n mod 256), of_nat (n div 256 mod 256),
                                of_nat (n div 65536 mod 256)], n));
          padding = (4 - l mod 4) mod 4
      in prefix @ bs @ replicate padding 0)"

section \<open>The cursor\<close>

datatype tl_error = UnexpectedEof | DepthLimitExceeded | UnexpectedConstructor u32

record cursor =
  cbuf :: bytes
  cpos :: nat
  cdepth :: nat

type_synonym 'a reader = "cursor \<Rightarrow> (tl_error + 'a) \<times> cursor"

definition from_slice :: "bytes \<Rightarrow> cursor" where
  "from_slice bs = \<lparr>cbuf = bs, cpos = 0, cdepth = 0\<rparr>"

text \<open>The \<open>?\<close> operator: continue with the value or leave with the error.\<close>

definition and_then :: "'a reader \<Rightarrow> ('a \<Rightarrow> 'b reader) \<Rightarrow> 'b reader" where
  "and_then m k c = (case m c of (Inl e, c') \<Rightarrow> (Inl e, c') | (Inr x, c') \<Rightarrow> k x c')"

definition done_with :: "'a \<Rightarrow> 'a reader" where
  "done_with x c = (Inr x, c)"

definition fail_with :: "tl_error \<Rightarrow> 'a reader" where
  "fail_with e c = (Inl e, c)"

definition max_depth :: nat where
  "max_depth = 64"

text \<open>\<open>Cursor::enter\<close> with the scope of its guard: the depth is restored on every exit.\<close>

definition entered :: "'a reader \<Rightarrow> 'a reader" where
  "entered body c =
     (if cdepth c = max_depth then (Inl DepthLimitExceeded, c)
      else case body (c\<lparr>cdepth := cdepth c + 1\<rparr>) of
             (res, c') \<Rightarrow> (res, c'\<lparr>cdepth := cdepth c' - 1\<rparr>))"

definition read_byte :: "u8 reader" where
  "read_byte c =
     (if cpos c < length (cbuf c) then (Inr (cbuf c ! cpos c), c\<lparr>cpos := cpos c + 1\<rparr>)
      else (Inl UnexpectedEof, c))"

definition read_slice :: "nat \<Rightarrow> bytes reader" where
  "read_slice n c =
     (if cpos c + n \<le> length (cbuf c)
      then (Inr (take n (drop (cpos c) (cbuf c))), c\<lparr>cpos := cpos c + n\<rparr>)
      else (Inl UnexpectedEof, c))"

definition read_exact :: "nat \<Rightarrow> bytes reader" where
  "read_exact n c =
     (if length (cbuf c) < cpos c + n then (Inl UnexpectedEof, c)
      else (Inr (take n (drop (cpos c) (cbuf c))), c\<lparr>cpos := cpos c + n\<rparr>))"

definition read_to_end :: "bytes \<Rightarrow> (bytes \<times> nat) reader" where
  "read_to_end out c =
     (Inr (out @ drop (cpos c) (cbuf c), length (cbuf c) - cpos c), c\<lparr>cpos := length (cbuf c)\<rparr>)"

definition read_bytes :: "bytes reader" where
  "read_bytes =
     and_then read_byte (\<lambda>first.
     and_then (if first = 254
               then and_then (read_slice 3) (\<lambda>bs.
                      let n = unat (bs ! 0) + 256 * unat (bs ! 1) + 65536 * unat (bs ! 2)
                      in done_with (n, n mod 4))
               else done_with (unat first, (unat first + 1) mod 4)) (\<lambda>(n, padding).
     and_then (read_slice n) (\<lambda>result.
     if padding \<noteq> 0 then and_then (read_slice (4 - padding)) (\<lambda>_. done_with result)
     else done_with result)))"

section \<open>Deserialization\<close>

definition deserialize_u32 :: "u32 reader" where
  "deserialize_u32 = and_then (read_exact 4) (\<lambda>b. done_with (le_word32 b))"

definition deserialize_i32 :: "i32 reader" where
  "deserialize_i32 = and_then (read_exact 4) (\<lambda>b. done_with (le_word32 b))"

definition deserialize_i64 :: "i64 reader" where
  "deserialize_i64 = and_then (read_exact 8) (\<lambda>b. done_with (le_word64 b))"

definition deserialize_f64 :: "u64 reader" where
  "deserialize_f64 = and_then (read_exact 8) (\<lambda>b. done_with (le_word64 b))"

definition deserialize_array16 :: "bytes reader" where
  "deserialize_array16 = read_exact 16"

definition deserialize_array32 :: "bytes reader" where
  "deserialize_array32 = read_exact 32"

definition deserialize_bool :: "bool reader" where
  "deserialize_bool = and_then deserialize_u32 (\<lambda>cid.
     if cid = 0x997275b5 then done_with True
     else if cid = 0xbc799737 then done_with False
     else fail_with (UnexpectedConstructor cid))"

fun read_times :: "'a reader \<Rightarrow> nat \<Rightarrow> 'a list reader" where
  "read_times item 0 = done_with []"
| "read_times item (Suc n) = and_then item (\<lambda>x. and_then (read_times item n) (\<lambda>xs. done_with (x # xs)))"

definition deserialize_vector :: "'a reader \<Rightarrow> 'a list reader" where
  "deserialize_vector item = and_then deserialize_u32 (\<lambda>n.
     if n = 0 then done_with []
     else and_then item (\<lambda>first.
          and_then (read_times item (unat n - 1)) (\<lambda>xs. done_with (first # xs))))"

definition deserialize_vec :: "'a reader \<Rightarrow> 'a list reader" where
  "deserialize_vec item = and_then deserialize_u32 (\<lambda>cid.
     if cid \<noteq> 0x1cb5c415 then fail_with (UnexpectedConstructor cid)
     else deserialize_vector item)"

definition deserialize_raw_vec :: "'a reader \<Rightarrow> 'a list reader" where
  "deserialize_raw_vec item = deserialize_vector item"

definition deserialize_bytes :: "bytes reader" where
  "deserialize_bytes = read_bytes"

definition from_bytes :: "'a reader \<Rightarrow> bytes \<Rightarrow> tl_error + 'a" where
  "from_bytes item bs = fst (item (from_slice bs))"

section \<open>Readers at a position\<close>

text \<open>The cursor standing after \<open>pre\<close>, with \<open>rest\<close> still to be read.\<close>

definition at :: "bytes \<Rightarrow> bytes \<Rightarrow> nat \<Rightarrow> cursor" where
  "at pre rest d = \<lparr>cbuf = pre @ rest, cpos = length pre, cdepth = d\<rparr>"

lemma and_then_Inr [simp]: "m c = (Inr x, c') \<Longrightarrow> and_then m k c = k x c'"
  by (simp add: and_then_def)

lemma and_then_Inl [simp]: "m c = (Inl e, c') \<Longrightarrow> and_then m k c = (Inl e, c')"
  by (simp add: and_then_def)

lemma done_with_apply [simp]: "done_with x c = (Inr x, c)"
  by (simp add: done_with_def)

lemma fail_with_apply [simp]: "fail_with e c = (Inl e, c)"
  by (simp add: fail_with_def)

lemma read_byte_at [simp]: "read_byte (at pre (b # rest) d) = (Inr b, at (pre @ [b]) rest d)"
  by (simp add: read_byte_def at_def)

lemma read_slice_at [simp]:
  "n = length xs \<Longrightarrow> read_slice n (at pre (xs @ rest) d) = (Inr xs, at (pre @ xs) rest d)"
  by (simp add: read_slice_def at_def)

lemma read_exact_at [simp]:
  "n = length xs \<Longrightarrow> read_exact n (at pre (xs @ rest) d) = (Inr xs, at (pre @ xs) rest d)"
  by (simp add: read_exact_def at_def)

section \<open>The contract of a codec\<close>

locale codec =
  fixes ser :: "'a \<Rightarrow> bytes"
    and item :: "'a reader"
    and ok :: "'a \<Rightarrow> bool"
  assumes roundtrip: "ok x \<Longrightarrow> item (at pre (ser x @ rest) d) = (Inr x, at (pre @ ser x) rest d)"
begin

lemma from_bytes_ser: "ok x \<Longrightarrow> from_bytes item (ser x @ rest) = Inr x"
  using roundtrip[of x "[]" rest 0] by (simp add: from_bytes_def from_slice_def at_def)

text \<open>Two values of the type never have one encoding that is a prefix of the other's.\<close>

lemma ser_prefix_free: "ok x \<Longrightarrow> ok y \<Longrightarrow> ser x @ r1 = ser y @ r2 \<Longrightarrow> x = y \<and> r1 = r2"
  using from_bytes_ser[of x r1] from_bytes_ser[of y r2] by auto

lemma read_times_roundtrip:
  "list_all ok xs \<Longrightarrow>
   read_times item (length xs) (at pre (concat (map ser xs) @ rest) d) =
     (Inr xs, at (pre @ concat (map ser xs)) rest d)"
proof (induction xs arbitrary: pre)
  case Nil
  then show ?case by simp
next
  case (Cons x xs)
  then have "item (at pre (ser x @ concat (map ser xs) @ rest) d) =
      (Inr x, at (pre @ ser x) (concat (map ser xs) @ rest) d)"
    by (intro roundtrip) simp
  with Cons show ?case by simp
qed

lemma vector_roundtrip:
  assumes "list_all ok xs" "length xs < 2 ^ 32"
  shows "deserialize_vector item (at pre (serialize_raw_vec ser xs @ rest) d) =
           (Inr xs, at (pre @ serialize_raw_vec ser xs) rest d)"
proof (cases xs)
  case Nil
  then show ?thesis
    by (simp add: deserialize_vector_def deserialize_u32_def serialize_raw_vec_def serialize_i32_def)
next
  case (Cons y ys)
  let ?n = "of_nat (length xs) :: u32"
  have n: "unat ?n = length xs" using assms(2) by (simp add: unat_of_nat)
  then have "?n \<noteq> 0" using Cons by auto
  moreover have "item (at (pre @ le_bytes32 ?n) (ser y @ concat (map ser ys) @ rest) d) =
      (Inr y, at ((pre @ le_bytes32 ?n) @ ser y) (concat (map ser ys) @ rest) d)"
    using assms(1) Cons by (intro roundtrip) simp
  moreover have "unat ?n - 1 = length ys" using n Cons by simp
  ultimately show ?thesis
    using read_times_roundtrip[of ys "pre @ le_bytes32 ?n @ ser y" rest d] assms(1) Cons
    by (simp add: deserialize_vector_def deserialize_u32_def serialize_raw_vec_def serialize_i32_def
        del: of_nat_Suc)
qed

lemma raw_vec_codec:
  "codec (serialize_raw_vec ser) (deserialize_raw_vec item) (\<lambda>xs. list_all ok xs \<and> length xs < 2 ^ 32)"
  by unfold_locales (simp add: deserialize_raw_vec_def vector_roundtrip)

lemma vec_codec:
  "codec (serialize_vec ser) (deserialize_vec item) (\<lambda>xs. list_all ok xs \<and> length xs < 2 ^ 32)"
proof unfold_locales
  fix xs pre rest d
  assume ok: "list_all ok xs \<and> length xs < 2 ^ 32"
  have "serialize_vec ser xs = le_bytes32 0x1cb5c415 @ serialize_raw_vec ser xs"
    by (simp add: serialize_vec_def serialize_raw_vec_def serialize_u32_def)
  with ok show "deserialize_vec item (at pre (serialize_vec ser xs @ rest) d) =
      (Inr xs, at (pre @ serialize_vec ser xs) rest d)"
    by (simp add: deserialize_vec_def deserialize_u32_def vector_roundtrip)
qed

end

section \<open>The primitive codecs\<close>

interpretation u32c: codec serialize_u32 deserialize_u32 "\<lambda>_. True"
  by unfold_locales (simp add: serialize_u32_def deserialize_u32_def)

interpretation i32c: codec serialize_i32 deserialize_i32 "\<lambda>_. True"
  by unfold_locales (simp add: serialize_i32_def deserialize_i32_def)

interpretation i64c: codec serialize_i64 deserialize_i64 "\<lambda>_. True"
  by unfold_locales (simp add: serialize_i64_def deserialize_i64_def)

interpretation f64c: codec serialize_f64 deserialize_f64 "\<lambda>_. True"
  by unfold_locales (simp add: serialize_f64_def deserialize_f64_def)

interpretation boolc: codec serialize_bool deserialize_bool "\<lambda>_. True"
  by unfold_locales (simp add: serialize_bool_def deserialize_bool_def u32c.roundtrip)

interpretation a16c: codec serialize_array16 deserialize_array16 "\<lambda>bs. length bs = 16"
  by unfold_locales (simp add: serialize_array16_def deserialize_array16_def)

interpretation a32c: codec serialize_array32 deserialize_array32 "\<lambda>bs. length bs = 32"
  by unfold_locales (simp add: serialize_array32_def deserialize_array32_def)

text \<open>Byte strings: the two length prefixes and the padding to a multiple of four.\<close>

lemma three_bytes_value:
  assumes "(n :: nat) < 2 ^ 24"
  shows "n mod 256 + 256 * (n div 256 mod 256) + 65536 * (n div 65536 mod 256) = n"
proof -
  have "n div 65536 = n div 256 div 256" using div_mult2_eq[of n 256 256] by simp
  moreover have "n div 65536 < 256" using assms by (simp add: less_mult_imp_div_less)
  ultimately have "n div 256 = n div 256 mod 256 + 256 * (n div 65536 mod 256)" by simp
  moreover have "n = n mod 256 + 256 * (n div 256)" by simp
  ultimately show ?thesis by linarith
qed

lemma read_padding:
  assumes "p < 4"
  shows "(if p \<noteq> 0 then and_then (read_slice (4 - p)) (\<lambda>_. done_with x) else done_with x)
           (at pre (replicate ((4 - p) mod 4) 0 @ rest) d) =
         (Inr x, at (pre @ replicate ((4 - p) mod 4) 0) rest d)"
  using assms by (cases "p = 0") auto

text \<open>What follows the length prefix.\<close>

lemma read_body:
  assumes "p < 4" "n = length bs" "zs = replicate ((4 - p) mod 4) 0"
  shows "and_then (read_slice n) (\<lambda>result.
           if p \<noteq> 0 then and_then (read_slice (4 - p)) (\<lambda>_. done_with result) else done_with result)
         (at pre (bs @ zs @ rest) d) = (Inr bs, at (pre @ bs @ zs) rest d)"
  using read_padding[OF assms(1), of bs "pre @ bs" rest d] assms(2,3) by simp

lemma read_bytes_short:
  assumes "length bs \<le> 253"
  shows "read_bytes (at pre (serialize_bytes bs @ rest) d) = (Inr bs, at (pre @ serialize_bytes bs) rest d)"
proof -
  let ?b = "of_nat (length bs) :: u8"
  have u: "unat ?b = length bs" using assms by (simp add: unat_of_nat)
  have "?b \<noteq> 254"
  proof
    assume "?b = 254"
    then have "unat ?b = 254" by simp
    with u assms show False by simp
  qed
  moreover have "serialize_bytes bs = ?b # bs @ replicate ((4 - (length bs + 1) mod 4) mod 4) 0"
    using assms by (simp add: serialize_bytes_def Let_def)
  ultimately show ?thesis
    using read_body[of "(length bs + 1) mod 4" "length bs" bs _ "pre @ [?b]" rest d]
    by (simp add: read_bytes_def u)
qed

lemma read_bytes_long_prefix:
  assumes n: "unat x + 256 * unat y + 65536 * unat z = length bs"
    and zs: "zs = replicate ((4 - length bs mod 4) mod 4) 0"
  shows "read_bytes (at pre ([254, x, y, z] @ bs @ zs @ rest) d) =
           (Inr bs, at (pre @ [254, x, y, z] @ bs @ zs) rest d)"
proof -
  have "read_slice 3 (at (pre @ [254]) ([x, y, z] @ bs @ zs @ rest) d) =
      (Inr [x, y, z], at ((pre @ [254]) @ [x, y, z]) (bs @ zs @ rest) d)"
    by (rule read_slice_at) simp
  moreover note read_body[of "length bs mod 4" "length bs" bs zs "pre @ [254, x, y, z]" rest d]
  ultimately show ?thesis using zs by (simp add: read_bytes_def Let_def n)
qed

lemma read_bytes_long:
  assumes "253 < length bs" "length bs < 2 ^ 24"
  shows "read_bytes (at pre (serialize_bytes bs @ rest) d) = (Inr bs, at (pre @ serialize_bytes bs) rest d)"
proof -
  let ?n = "length bs"
  have "?n div 65536 < 256" using assms(2) by (simp add: less_mult_imp_div_less)
  then have "unat (of_nat (?n mod 256) :: u8) + 256 * unat (of_nat (?n div 256 mod 256) :: u8) +
      65536 * unat (of_nat (?n div 65536 mod 256) :: u8) = ?n"
    using three_bytes_value[OF assms(2)] by (simp add: unat_of_nat)
  from read_bytes_long_prefix[OF this refl, of pre rest d] assms(1) show ?thesis
    by (simp add: serialize_bytes_def Let_def)
qed

interpretation bytesc: codec serialize_bytes deserialize_bytes "\<lambda>bs. length bs < 2 ^ 24"
proof unfold_locales
  fix bs pre rest d
  assume "length (bs :: bytes) < 2 ^ 24"
  then show "deserialize_bytes (at pre (serialize_bytes bs @ rest) d) =
      (Inr bs, at (pre @ serialize_bytes bs) rest d)"
    using read_bytes_short[of bs] read_bytes_long[of bs] unfolding deserialize_bytes_def
    by (cases "length bs \<le> 253") auto
qed

interpretation vi32: codec "serialize_vec serialize_i32" "deserialize_vec deserialize_i32"
  "\<lambda>xs. list_all (\<lambda>_. True) xs \<and> length xs < 2 ^ 32"
  by (rule i32c.vec_codec)

interpretation vi64: codec "serialize_vec serialize_i64" "deserialize_vec deserialize_i64"
  "\<lambda>xs. list_all (\<lambda>_. True) xs \<and> length xs < 2 ^ 32"
  by (rule i64c.vec_codec)

interpretation vbytes: codec "serialize_vec serialize_bytes" "deserialize_vec deserialize_bytes"
  "\<lambda>xs. list_all (\<lambda>bs. length bs < 2 ^ 24) xs \<and> length xs < 2 ^ 32"
  by (rule bytesc.vec_codec)

text \<open>Every encoding is a whole number of words.\<close>

lemma serialize_bytes_aligned: "length (serialize_bytes bs) mod 4 = 0"
proof -
  have pad: "(m + (4 - m mod 4) mod 4) mod 4 = 0" for m :: nat
  proof -
    have "m mod 4 < 4" by simp
    then have "m mod 4 = 0 \<or> m mod 4 = 1 \<or> m mod 4 = 2 \<or> m mod 4 = 3" by linarith
    then have "(m mod 4 + (4 - m mod 4) mod 4) mod 4 = 0" by auto
    then show ?thesis by (simp only: mod_add_left_eq)
  qed
  show ?thesis
    using pad[of "length bs + 1"] pad[of "length bs"]
    by (cases "length bs \<le> 253") (simp_all add: serialize_bytes_def Let_def)
qed

section \<open>Robustness on arbitrary input\<close>

text \<open>
  A reader is sane when it never moves the cursor backwards or past the end, never touches the
  bytes, and leaves the depth as it found it, whether it succeeds or fails.
\<close>

definition sane :: "'a reader \<Rightarrow> bool" where
  "sane m \<longleftrightarrow> (\<forall>c res c'. cpos c \<le> length (cbuf c) \<longrightarrow> m c = (res, c') \<longrightarrow>
     cbuf c' = cbuf c \<and> cdepth c' = cdepth c \<and> cpos c \<le> cpos c' \<and> cpos c' \<le> length (cbuf c))"

lemma saneD:
  "sane m \<Longrightarrow> cpos c \<le> length (cbuf c) \<Longrightarrow> m c = (res, c') \<Longrightarrow>
   cbuf c' = cbuf c \<and> cdepth c' = cdepth c \<and> cpos c \<le> cpos c' \<and> cpos c' \<le> length (cbuf c)"
  unfolding sane_def by blast

named_theorems sane_intros \<open>readers built from sane readers are sane\<close>

lemma sane_and_then [sane_intros]:
  assumes "sane m" "\<And>x. sane (k x)"
  shows "sane (and_then m k)"
  unfolding sane_def
proof (intro allI impI)
  fix c res c'
  assume c: "cpos c \<le> length (cbuf c)" and run: "and_then m k c = (res, c')"
  obtain r1 c1 where m: "m c = (r1, c1)" by (cases "m c")
  note 1 = saneD[OF assms(1) c m]
  show "cbuf c' = cbuf c \<and> cdepth c' = cdepth c \<and> cpos c \<le> cpos c' \<and> cpos c' \<le> length (cbuf c)"
  proof (cases r1)
    case (Inl e)
    with 1 m run show ?thesis by (auto simp: and_then_def)
  next
    case (Inr x)
    with m run have "k x c1 = (res, c')" by simp
    from saneD[OF assms(2) _ this] 1 show ?thesis by auto
  qed
qed

lemma sane_done_with [sane_intros]: "sane (done_with x)"
  by (simp add: sane_def)

lemma sane_fail_with [sane_intros]: "sane (fail_with e)"
  by (simp add: sane_def)

lemma sane_if [sane_intros]: "sane a \<Longrightarrow> sane b \<Longrightarrow> sane (if P then a else b)"
  by simp

lemma sane_read_byte [sane_intros]: "sane read_byte"
  by (auto simp: sane_def read_byte_def split: if_splits)

lemma sane_read_slice [sane_intros]: "sane (read_slice n)"
  by (auto simp: sane_def read_slice_def split: if_splits)

lemma sane_read_exact [sane_intros]: "sane (read_exact n)"
  by (auto simp: sane_def read_exact_def split: if_splits)

lemma sane_entered [sane_intros]:
  assumes "sane m"
  shows "sane (entered m)"
  unfolding sane_def
proof (intro allI impI)
  fix c res c'
  assume c: "cpos c \<le> length (cbuf c)" and run: "entered m c = (res, c')"
  obtain r1 c1 where m: "m (c\<lparr>cdepth := cdepth c + 1\<rparr>) = (r1, c1)" by fastforce
  from saneD[OF assms _ m] c m run
  show "cbuf c' = cbuf c \<and> cdepth c' = cdepth c \<and> cpos c \<le> cpos c' \<and> cpos c' \<le> length (cbuf c)"
    by (auto simp: entered_def split: if_splits)
qed

lemma sane_read_bytes [sane_intros]: "sane read_bytes"
  unfolding read_bytes_def Let_def by (auto intro!: sane_intros split: prod.splits)

lemma sane_deserialize_u32 [sane_intros]: "sane deserialize_u32"
  unfolding deserialize_u32_def by (intro sane_intros)

lemma sane_read_times [sane_intros]: "sane item \<Longrightarrow> sane (read_times item n)"
  by (induction n) (auto intro!: sane_intros)

lemma sane_deserialize_vec [sane_intros]: "sane item \<Longrightarrow> sane (deserialize_vec item)"
  unfolding deserialize_vec_def deserialize_vector_def by (intro sane_intros)

text \<open>Nested boxed values: \<open>n\<close> levels around \<open>m\<close>.\<close>

fun nested :: "nat \<Rightarrow> 'a reader \<Rightarrow> 'a reader" where
  "nested 0 m = m"
| "nested (Suc n) m = entered (nested n m)"

lemma sane_nested [sane_intros]: "sane m \<Longrightarrow> sane (nested n m)"
  by (induction n) (auto intro!: sane_intros)

lemma nested_run:
  assumes "sane m" "cpos c \<le> length (cbuf c)" "cdepth c + n \<le> max_depth"
  shows "nested n m c =
    (case m (c\<lparr>cdepth := cdepth c + n\<rparr>) of (res, c') \<Rightarrow> (res, c'\<lparr>cdepth := cdepth c\<rparr>))"
  using assms(2,3)
proof (induction n arbitrary: c)
  case 0
  obtain r c' where m: "m c = (r, c')" by fastforce
  with saneD[OF assms(1) 0(1) m] show ?case by (simp add: m)
next
  case (Suc n)
  let ?c = "c\<lparr>cdepth := cdepth c + 1\<rparr>"
  have "nested n m ?c = (case m (?c\<lparr>cdepth := cdepth ?c + n\<rparr>) of (res, c') \<Rightarrow> (res, c'\<lparr>cdepth := cdepth ?c\<rparr>))"
    using Suc.prems by (intro Suc.IH) auto
  with Suc.prems show ?case by (auto simp: entered_def split: prod.splits)
qed

lemma nested_too_deep:
  assumes "cdepth c \<le> max_depth" "max_depth < cdepth c + n"
  shows "nested n m c = (Inl DepthLimitExceeded, c)"
  using assms
proof (induction n arbitrary: c)
  case 0
  then show ?case by simp
next
  case (Suc n)
  show ?case
  proof (cases "cdepth c = max_depth")
    case True
    then show ?thesis by (simp add: entered_def)
  next
    case False
    have "nested n m (c\<lparr>cdepth := cdepth c + 1\<rparr>) = (Inl DepthLimitExceeded, c\<lparr>cdepth := cdepth c + 1\<rparr>)"
      using False Suc.prems by (intro Suc.IH) auto
    with False show ?thesis by (simp add: entered_def)
  qed
qed

section \<open>Properties\<close>

text \<open>
  Every vector of byte strings of less than 16 MiB each is read back unchanged from its
  encoding, wherever the encoding stands in the input, and exactly the encoding is consumed.
\<close>

theorem vec_bytes_roundtrip:
  assumes "\<forall>bs\<in>set xs. length bs < 2 ^ 24" and "length xs < 2 ^ 32"
  shows "deserialize_vec deserialize_bytes
           \<lparr>cbuf = pre @ serialize_vec serialize_bytes xs @ rest, cpos = length pre, cdepth = d\<rparr> =
         (Inr xs, \<lparr>cbuf = pre @ serialize_vec serialize_bytes xs @ rest,
                   cpos = length pre + length (serialize_vec serialize_bytes xs), cdepth = d\<rparr>)"
  using vbytes.roundtrip[of xs pre rest d] assms by (simp add: at_def list_all_iff)

theorem vec_bytes_roundtrip_witness:
  "deserialize_vec deserialize_bytes
     \<lparr>cbuf = [9] @ serialize_vec serialize_bytes [[1, 2, 3], []] @ [7], cpos = length [9 :: u8], cdepth = 0\<rparr> =
   (Inr [[1, 2, 3], []], \<lparr>cbuf = [9] @ serialize_vec serialize_bytes [[1, 2, 3], []] @ [7],
      cpos = length [9 :: u8] + length (serialize_vec serialize_bytes [[1, 2, 3], []]), cdepth = 0\<rparr>)"
  by (rule vec_bytes_roundtrip) simp_all

text \<open>
  the encodings of booleans, integers, doubles, fixed-size arrays and byte strings are
  each the beginning of at most one value's encoding: reading the encoding of a value followed
  by anything gives that value.
\<close>

theorem primitive_roundtrips:
  "from_bytes deserialize_bool (serialize_bool b @ rest) = Inr b \<and>
   from_bytes deserialize_i32 (serialize_i32 i @ rest) = Inr i \<and>
   from_bytes deserialize_u32 (serialize_u32 u @ rest) = Inr u \<and>
   from_bytes deserialize_i64 (serialize_i64 l @ rest) = Inr l \<and>
   from_bytes deserialize_f64 (serialize_f64 f @ rest) = Inr f"
  by (simp add: boolc.from_bytes_ser i32c.from_bytes_ser u32c.from_bytes_ser i64c.from_bytes_ser
      f64c.from_bytes_ser)

text \<open>
  A byte string of \<open>2 ^ 24\<close> bytes or more is encoded with its length cut to 24 bits: the
  prefix of a string of exactly \<open>2 ^ 24\<close> bytes says that it is empty.
\<close>

theorem serialize_bytes_length_cut:
  assumes "length bs = 2 ^ 24"
  shows "from_bytes deserialize_bytes (serialize_bytes bs) = Inr []"
proof -
  have "serialize_bytes bs = [254, 0, 0, 0] @ bs"
    using assms by (simp add: serialize_bytes_def Let_def)
  then show ?thesis
    using read_bytes_long_prefix[of 0 0 0 "[]" "[]" "[]" bs 0]
    by (simp add: from_bytes_def from_slice_def deserialize_bytes_def at_def)
qed

theorem serialize_bytes_length_cut_witness:
  "from_bytes deserialize_bytes (serialize_bytes (replicate (2 ^ 24) 0)) = Inr []"
  by (rule serialize_bytes_length_cut) (rule length_replicate)

text \<open>
  Reading a vector of byte strings from any input keeps the cursor inside the input, never
  moves it back, never changes the input and restores the nesting depth, on success and on
  every error.
\<close>

theorem vec_bytes_reader_safe:
  assumes "cpos c \<le> length (cbuf c)"
    and "entered (deserialize_vec deserialize_bytes) c = (res, c')"
  shows "cbuf c' = cbuf c \<and> cdepth c' = cdepth c \<and> cpos c \<le> cpos c' \<and> cpos c' \<le> length (cbuf c)"
  using assms sane_entered[OF sane_deserialize_vec[OF sane_read_bytes]]
  unfolding deserialize_bytes_def by (blast dest: saneD)

theorem vec_bytes_reader_safe_witness:
  "cbuf (from_slice [1]) = cbuf (from_slice [1]) \<and> cdepth (from_slice [1]) = cdepth (from_slice [1]) \<and>
   cpos (from_slice [1]) \<le> cpos (from_slice [1]) \<and> cpos (from_slice [1]) \<le> length (cbuf (from_slice [1]))"
  by (rule vec_bytes_reader_safe[where res = "Inl UnexpectedEof"])
    (simp_all add: from_slice_def entered_def max_depth_def deserialize_vec_def deserialize_u32_def
      read_exact_def and_then_def)

text \<open>
  A value in \<open>n\<close> nested boxes is read exactly as without them while the total depth is at
  most 64, and one box more is refused with the depth error, leaving the cursor unchanged.
\<close>

theorem nesting_limit:
  assumes "sane m" "cpos c \<le> length (cbuf c)" "cdepth c \<le> 64"
  shows "if cdepth c + n \<le> 64
         then nested n m c = (case m (c\<lparr>cdepth := cdepth c + n\<rparr>) of (res, c') \<Rightarrow> (res, c'\<lparr>cdepth := cdepth c\<rparr>))
         else nested n m c = (Inl DepthLimitExceeded, c)"
  using nested_run[OF assms(1,2), of n] nested_too_deep[of c n m] assms(3)
  by (simp add: max_depth_def)

theorem nesting_limit_witness:
  "if cdepth (from_slice [3, 1, 2, 3]) + 65 \<le> 64
   then nested 65 read_bytes (from_slice [3, 1, 2, 3]) =
     (case read_bytes ((from_slice [3, 1, 2, 3])\<lparr>cdepth := cdepth (from_slice [3, 1, 2, 3]) + 65\<rparr>) of
        (res, c') \<Rightarrow> (res, c'\<lparr>cdepth := cdepth (from_slice [3, 1, 2, 3])\<rparr>))
   else nested 65 read_bytes (from_slice [3, 1, 2, 3]) = (Inl DepthLimitExceeded, from_slice [3, 1, 2, 3])"
  by (rule nesting_limit) (simp_all add: sane_read_bytes from_slice_def)

end
