(* ===== verification/Replay_Ids.thy ===== *)
theory Replay_Ids
  imports Prelude "HOL-Library.List_Lexorder"
begin

text \<open>
  The history of authenticated server message identifiers of
  \<open>grammers-mtproto/src/mtp/replay.rs\<close>, with the monotonic floor its caller keeps in
  \<open>grammers-mtproto/src/mtp/encrypted.rs\<close>. Identifiers are \<open>i64\<close> values, written as integers
  with the wrap-around explicit; an offset is the six bytes of \<open>[u8; 6]\<close>, compared
  lexicographically as Rust compares arrays.
\<close>

section \<open>The packed history\<close>

abbreviation i64_min :: int where "i64_min \<equiv> - (2 ^ 63)"

definition wrap64 :: "int \<Rightarrow> int" where
  "wrap64 x = (x + 2 ^ 63) mod 2 ^ 64 - 2 ^ 63"

definition saturating_sub64 :: "int \<Rightarrow> int \<Rightarrow> int" where
  "saturating_sub64 a b = max i64_min (min i64_max (a - b))"

definition capacity :: nat where "capacity = 1024"
definition max_age :: int where "max_age = 300 * 2 ^ 32"
definition offset_limit :: int where "offset_limit = 2 ^ 48"

record replay_ids =
  base :: int
  offsets :: "bytes list"

definition pack :: "nat \<Rightarrow> bytes" where
  "pack v = drop 2 (rev (le_bytes 8 v))"

definition unpack :: "bytes \<Rightarrow> nat" where
  "unpack bs = le_nat (rev ([0, 0] @ bs))"

definition replay_new :: replay_ids where
  "replay_new = \<lparr>base = 0, offsets = []\<rparr>"

definition id_at :: "int \<Rightarrow> bytes \<Rightarrow> int" where
  "id_at b off = wrap64 (b + int (unpack off))"

definition offset_of :: "int \<Rightarrow> int \<Rightarrow> bytes option" where
  "offset_of b x =
     (let off = (x - b) mod 2 ^ 64 in if off < offset_limit then Some (pack (nat off)) else None)"

definition contains :: "replay_ids \<Rightarrow> int \<Rightarrow> bool" where
  "contains r x =
     (case offset_of (base r) x of
        None \<Rightarrow> False
      | Some off \<Rightarrow> offsets r \<noteq> [] \<and> off \<le> last (offsets r) \<and>
                    (case binary_search_by_key (\<lambda>y. y) off (offsets r) of Inr _ \<Rightarrow> True | Inl _ \<Rightarrow> False))"

fun evict_old :: "int \<Rightarrow> int \<Rightarrow> bytes list \<Rightarrow> int option \<Rightarrow> bytes list \<times> int option" where
  "evict_old b oldest [] evicted = ([], evicted)"
| "evict_old b oldest (off # offs) evicted =
     (if id_at b off < oldest then evict_old b oldest offs (Some (id_at b off))
      else (off # offs, evicted))"

definition evict_full :: "int \<Rightarrow> bytes list \<times> int option \<Rightarrow> bytes list \<times> int option" where
  "evict_full b st =
     (case st of (offs, evicted) \<Rightarrow>
        if length offs = capacity then (tl offs, Some (id_at b (hd offs))) else (offs, evicted))"

definition insert_offset :: "bytes \<Rightarrow> bytes list \<Rightarrow> bytes list" where
  "insert_offset off offs =
     (if offs = [] \<or> last offs < off then offs @ [off]
      else case binary_search_by_key (\<lambda>y. y) off offs of
             Inl i \<Rightarrow> take i offs @ off # drop i offs
           | Inr _ \<Rightarrow> offs)"

definition rebase :: "int \<Rightarrow> int \<Rightarrow> bytes list \<Rightarrow> bytes list" where
  "rebase b oldest offs =
     map (\<lambda>off. pack (nat ((wrap64 (b + int (unpack off)) - oldest) mod 2 ^ 64))) offs"

definition remember :: "replay_ids \<Rightarrow> int \<Rightarrow> replay_ids \<times> int option" where
  "remember r x =
     (let newest = (if offsets r = [] then x else max (id_at (base r) (last (offsets r))) x);
          oldest = saturating_sub64 newest max_age
      in
      if x < oldest \<or> (length (offsets r) = capacity \<and> x < id_at (base r) (hd (offsets r)))
      then (r, Some x)
      else
        let (offs, evicted) = evict_full (base r) (evict_old (base r) oldest (offsets r) None);
            (b', offs', off) =
              (case offset_of (base r) x of
                 Some off \<Rightarrow>
                   if offs \<noteq> [] then (base r, offs, off)
                   else (oldest, rebase (base r) oldest offs, pack (nat ((x - oldest) mod 2 ^ 64)))
               | None \<Rightarrow> (oldest, rebase (base r) oldest offs, pack (nat ((x - oldest) mod 2 ^ 64))))
        in (\<lparr>base = b', offsets = insert_offset off offs'\<rparr>, evicted))"

section \<open>The caller's view\<close>

record received =
  received_ids :: replay_ids
  received_floor :: int

definition received_new :: received where
  "received_new = \<lparr>received_ids = replay_new, received_floor = 0\<rparr>"

definition remember_received :: "received \<Rightarrow> int \<Rightarrow> received" where
  "remember_received st x =
     (case remember (received_ids st) x of
        (r, None) \<Rightarrow> st\<lparr>received_ids := r\<rparr>
      | (r, Some evicted) \<Rightarrow>
          st\<lparr>received_ids := r, received_floor := max (received_floor st) evicted\<rparr>)"

text \<open>
  The replay gate of \<open>process_bounded\<close> for an authenticated message outside a container (the
  floor is the one read when the packet's processing began). A known identifier is acknowledged
  and skipped; one at or below the floor is stale, and its handler, where one still runs, is told
  so; only a fresh one is recorded, and only when its handler succeeds.
\<close>

datatype verdict = Known | Stale | Fresh

definition gate :: "received \<Rightarrow> int \<Rightarrow> verdict" where
  "gate st x =
     (if contains (received_ids st) x then Known
      else if x \<le> received_floor st then Stale else Fresh)"

definition receive :: "received \<Rightarrow> int \<Rightarrow> bool \<Rightarrow> received" where
  "receive st x handled = (if gate st x = Fresh \<and> handled then remember_received st x else st)"

text \<open>
  The identifiers processed as fresh along a run; each message comes with whether its handler
  succeeds.
\<close>

fun receive_all :: "received \<Rightarrow> (int \<times> bool) list \<Rightarrow> int list" where
  "receive_all st [] = []"
| "receive_all st ((x, handled) # xs) =
     (if gate st x = Fresh \<and> handled then [x] else []) @ receive_all (receive st x handled) xs"

section \<open>Specification: a set of identifiers\<close>

definition spec_remember :: "int set \<Rightarrow> int \<Rightarrow> int set \<times> int option" where
  "spec_remember S x =
     (let newest = (if S = {} then x else max (Max S) x);
          oldest = saturating_sub64 newest max_age
      in
      if x < oldest \<or> (card S = capacity \<and> x < Min S) then (S, Some x)
      else
        let old = {y \<in> S. y < oldest};
            S1 = S - old;
            evicted = (if old = {} then None else Some (Max old));
            (S2, evicted') = (if card S1 = capacity then (S1 - {Min S1}, Some (Min S1)) else (S1, evicted))
        in (insert x S2, evicted'))"

section \<open>Packing\<close>

lemma wrap64_id: "i64_min \<le> x \<Longrightarrow> x \<le> i64_max \<Longrightarrow> wrap64 x = x"
  by (simp add: wrap64_def)

lemma le_bytes_Suc_snoc: "le_bytes (Suc n) v = le_bytes n v @ [of_nat (v div 256 ^ n mod 256)]"
  by (induction n arbitrary: v) (auto simp: div_mult2_eq)

lemma drop_rev_le_bytes: "drop 2 (rev (le_bytes 8 v)) = rev (le_bytes 6 v)"
proof -
  have "le_bytes (Suc (Suc 6)) v = le_bytes 6 v @ [of_nat (v div 256 ^ 6 mod 256), of_nat (v div 256 ^ 7 mod 256)]"
    by (simp only: le_bytes_Suc_snoc append.assoc append.simps) simp
  then show ?thesis by simp
qed

lemma length_pack [simp]: "length (pack v) = 6"
  by (simp add: pack_def)

lemma unpack_eq: "unpack bs = le_nat (rev bs)"
  by (simp add: unpack_def le_nat_append)

lemma unpack_pack: "v < 2 ^ 48 \<Longrightarrow> unpack (pack v) = v"
  by (simp add: unpack_eq pack_def drop_rev_le_bytes)

lemma unpack_bound: "length bs = 6 \<Longrightarrow> unpack bs < 2 ^ 48"
  using le_nat_bound[of "rev bs"] by (simp add: unpack_eq)

lemma unpack_less_iff:
  "length as = length bs \<Longrightarrow> unpack as < unpack bs \<longleftrightarrow> as < bs"
proof (induction as bs rule: list_induct2)
  case Nil
  then show ?case by (simp add: unpack_eq)
next
  case (Cons a as b bs)
  let ?n = "256 ^ length bs :: nat"
  have l: "unpack as < ?n" "unpack bs < ?n"
    using Cons(1) le_nat_bound[of "rev as"] le_nat_bound[of "rev bs"] by (simp_all add: unpack_eq)
  have e: "unpack (a # as) = unpack as + ?n * unat a" "unpack (b # bs) = unpack bs + ?n * unat b"
    using Cons(1) by (simp_all add: unpack_eq le_nat_append)
  consider "unat a < unat b" | "unat a = unat b" | "unat b < unat a" by linarith
  then show ?case
  proof cases
    case 1
    then have "?n * unat a + ?n \<le> ?n * unat b"
      by (metis Suc_leI mult_Suc_right mult_le_mono2 add.commute)
    with 1 l e show ?thesis by (simp add: word_less_nat_alt)
  next
    case 2
    then have "a = b" by (simp add: word_unat_eq_iff)
    with e Cons.IH show ?thesis by simp
  next
    case 3
    then have "?n * unat b + ?n \<le> ?n * unat a"
      by (metis Suc_leI mult_Suc_right mult_le_mono2 add.commute)
    with 3 l e show ?thesis by (auto simp: word_less_nat_alt)
  qed
qed

lemma pack_unpack: "length bs = 6 \<Longrightarrow> pack (unpack bs) = bs"
  by (metis length_pack linorder_less_linear order_less_irrefl unpack_bound unpack_less_iff unpack_pack)

section \<open>Refinement of the specification\<close>

text \<open>Offsets that can be read relative to \<open>b\<close> without wrapping, in order.\<close>

definition well_based :: "int \<Rightarrow> bytes list \<Rightarrow> bool" where
  "well_based b offs \<longleftrightarrow> i64_min \<le> b \<and> sorted_wrt (<) offs \<and>
     (\<forall>off\<in>set offs. length off = 6 \<and> b + int (unpack off) \<le> i64_max)"

abbreviation ids_of :: "int \<Rightarrow> bytes list \<Rightarrow> int set" where
  "ids_of b offs \<equiv> id_at b ` set offs"

definition ids :: "replay_ids \<Rightarrow> int set" where
  "ids r = ids_of (base r) (offsets r)"

definition replay_inv :: "replay_ids \<Rightarrow> bool" where
  "replay_inv r \<longleftrightarrow> well_based (base r) (offsets r) \<and> length (offsets r) \<le> capacity \<and>
     (\<forall>x\<in>ids r. \<forall>y\<in>ids r. y - x \<le> max_age)"

lemma well_based_id:
  "well_based b offs \<Longrightarrow> off \<in> set offs \<Longrightarrow> id_at b off = b + int (unpack off)"
  by (auto simp: well_based_def id_at_def intro!: wrap64_id)

lemma well_based_sub:
  "well_based b (off # offs) \<Longrightarrow> well_based b offs"
  "well_based b (off # offs) \<Longrightarrow> y \<in> ids_of b offs \<Longrightarrow> id_at b off < y"
proof -
  assume w: "well_based b (off # offs)"
  then show "well_based b offs" by (auto simp: well_based_def)
  assume "y \<in> ids_of b offs"
  then obtain o' where o': "o' \<in> set offs" "y = id_at b o'" by auto
  with w have "off < o'" "length off = length o'" by (auto simp: well_based_def)
  then show "id_at b off < y"
    using o' well_based_id[OF w, of off] well_based_id[OF w, of o'] by (simp add: unpack_less_iff)
qed

lemma well_based_inj: "well_based b offs \<Longrightarrow> inj_on (id_at b) (set offs)"
proof (rule inj_onI)
  fix x y
  assume w: "well_based b offs" and xy: "x \<in> set offs" "y \<in> set offs" "id_at b x = id_at b y"
  then have "unpack x = unpack y" by (simp add: well_based_id[OF w])
  moreover have "length x = 6" "length y = 6" using w xy by (auto simp: well_based_def)
  ultimately show "x = y" using pack_unpack by metis
qed

lemma card_ids_of: "well_based b offs \<Longrightarrow> card (ids_of b offs) = length offs"
  by (simp add: card_image well_based_inj distinct_card strict_sorted_iff well_based_def)

lemma hd_Min: "well_based b (off # offs) \<Longrightarrow> Min (ids_of b (off # offs)) = id_at b off"
  using well_based_sub(2) by (intro Min_eqI) (auto intro: less_imp_le)

lemma last_Max: "well_based b offs \<Longrightarrow> offs \<noteq> [] \<Longrightarrow> Max (ids_of b offs) = id_at b (last offs)"
proof (induction offs)
  case Nil
  then show ?case by simp
next
  case (Cons off offs)
  show ?case
  proof (cases "offs = []")
    case True
    then show ?thesis by simp
  next
    case False
    have "id_at b off < id_at b (last offs)"
      using well_based_sub(2)[OF Cons.prems(1)] False by simp
    moreover have "Max (insert (id_at b off) (ids_of b offs)) = max (id_at b off) (Max (ids_of b offs))"
      using False by simp
    ultimately show ?thesis using Cons.IH well_based_sub(1)[OF Cons.prems(1)] False by simp
  qed
qed

lemma evict_old_spec:
  assumes "well_based b offs" "evict_old b oldest offs ev = (offs', ev')"
  shows "well_based b offs' \<and> ids_of b offs' = ids_of b offs - {y \<in> ids_of b offs. y < oldest} \<and>
     ev' = (if {y \<in> ids_of b offs. y < oldest} = {} then ev else Some (Max {y \<in> ids_of b offs. y < oldest}))"
  using assms
proof (induction offs arbitrary: ev)
  case Nil
  then show ?case by simp
next
  case (Cons off offs)
  note later = well_based_sub[OF Cons.prems(1)]
  let ?x = "id_at b off"
  let ?old = "{y \<in> ids_of b offs. y < oldest}"
  show ?case
  proof (cases "?x < oldest")
    case True
    have old: "{y \<in> ids_of b (off # offs). y < oldest} = insert ?x ?old" using True by auto
    have "Max (insert ?x ?old) = (if ?old = {} then ?x else Max ?old)"
    proof (cases "?old = {}")
      case True
      show ?thesis unfolding True by simp
    next
      case False
      then have "Max ?old \<in> ?old" by (intro Max_in) auto
      then have "?x < Max ?old" using later(2) by auto
      with False show ?thesis by (subst Max_insert) auto
    qed
    moreover have "ids_of b (off # offs) - insert ?x ?old = ids_of b offs - ?old"
      using later(2) by fastforce
    ultimately show ?thesis
      using Cons.IH[OF later(1), of "Some ?x"] Cons.prems(2) True unfolding old by simp
  next
    case False
    then have "{y \<in> ids_of b (off # offs). y < oldest} = {}" using later(2) by fastforce
    with False Cons.prems show ?thesis by auto
  qed
qed

lemma evict_full_spec:
  assumes "well_based b offs" "evict_full b (offs, ev) = (offs', ev')"
  shows "well_based b offs' \<and>
     (ids_of b offs', ev') = (if card (ids_of b offs) = capacity
        then (ids_of b offs - {Min (ids_of b offs)}, Some (Min (ids_of b offs))) else (ids_of b offs, ev))"
proof (cases "length offs = capacity")
  case False
  with assms show ?thesis by (auto simp: evict_full_def card_ids_of)
next
  case True
  then obtain off offs1 where offs: "offs = off # offs1" by (cases offs) (auto simp: capacity_def)
  have "ids_of b (off # offs1) - {id_at b off} = ids_of b offs1"
    using well_based_sub(2)[of b off offs1] assms(1) unfolding offs by fastforce
  with True assms hd_Min[of b off offs1] well_based_sub(1)[of b off offs1] show ?thesis
    by (auto simp: evict_full_def card_ids_of offs)
qed

lemma strict_sorted_le_last:
  fixes xs :: "bytes list"
  assumes "sorted_wrt (<) xs" "y \<in> set xs"
  shows "y \<le> last xs"
  using assms by (induction xs) (auto intro: less_imp_le)

lemma insert_offset_spec:
  assumes "sorted_wrt (<) offs"
  shows "sorted_wrt (<) (insert_offset off offs) \<and> set (insert_offset off offs) = insert off (set offs)"
proof -
  have keys: "sorted_keys (\<lambda>y. y) offs" using assms by simp
  consider "offs = [] \<or> last offs < off" | (mid) i where "\<not> (offs = [] \<or> last offs < off)"
      "binary_search_by_key (\<lambda>y. y) off offs = Inl i"
    | (found) i where "\<not> (offs = [] \<or> last offs < off)" "binary_search_by_key (\<lambda>y. y) off offs = Inr i"
    by (cases "binary_search_by_key (\<lambda>y. y) off offs") blast+
  then show ?thesis
  proof cases
    case 1
    have "y < off" if "y \<in> set offs" for y
    proof -
      have "y \<le> last offs" by (rule strict_sorted_le_last[OF assms that])
      moreover have "last offs < off" using 1 that by auto
      ultimately show ?thesis by simp
    qed
    then have "sorted_wrt (<) (offs @ [off])" using assms by (simp add: sorted_wrt_append)
    with 1 show ?thesis by (simp add: insert_offset_def)
  next
    case mid
    with sorted_keys_insert_at[OF keys mid(2)] set_insert_at[of i offs off] show ?thesis
      by (simp add: insert_offset_def)
  next
    case found
    then have "off \<in> set offs" using binary_search_Inr_iff[OF keys, of off] by auto
    with found assms show ?thesis by (simp add: insert_offset_def insert_absorb)
  qed
qed

lemma offset_of_Some:
  assumes "offset_of b x = Some off" "i64_min \<le> b" "x \<le> i64_max" "b - max_age \<le> x"
  shows "b \<le> x \<and> x - b < 2 ^ 48 \<and> off = pack (nat (x - b))"
proof (cases "b \<le> x")
  case True
  then have "(x - b) mod 2 ^ 64 = x - b" using assms by simp
  with assms(1) True show ?thesis by (auto simp: offset_of_def Let_def offset_limit_def split: if_splits)
next
  case False
  have "(x - b) mod 2 ^ 64 = (x - b + 2 ^ 64) mod 2 ^ 64" by simp
  also have "\<dots> = x - b + 2 ^ 64" using False assms(4) by (intro mod_pos_pos_trivial) (auto simp: max_age_def)
  finally show ?thesis
    using assms(1,4) by (auto simp: offset_of_def Let_def offset_limit_def max_age_def split: if_splits)
qed

text \<open>Recording \<open>x\<close> next to retained identifiers, all relative to the base \<open>b\<close>.\<close>

lemma insert_well_based:
  assumes "well_based b offs" "b \<le> x" "x - b < 2 ^ 48" "x \<le> i64_max" "off = pack (nat (x - b))"
  shows "well_based b (insert_offset off offs) \<and> ids_of b (insert_offset off offs) = insert x (ids_of b offs)"
proof -
  have "nat (x - b) < 2 ^ 48" using assms(2,3) by simp
  then have u: "b + int (unpack off) = x" using assms(2) by (simp add: assms(5) unpack_pack)
  have "i64_min \<le> b" using assms(1) by (simp add: well_based_def)
  then have "id_at b off = x" using assms(2,4) by (simp add: id_at_def u wrap64_id)
  with assms u insert_offset_spec[of offs off] show ?thesis by (auto simp: well_based_def)
qed

lemma rebase_well_based:
  assumes w: "well_based b offs" and lo: "i64_min \<le> oldest"
    and win: "\<forall>y\<in>ids_of b offs. oldest \<le> y \<and> y \<le> i64_max \<and> y - oldest < 2 ^ 48"
  shows "well_based oldest (rebase b oldest offs) \<and> ids_of oldest (rebase b oldest offs) = ids_of b offs"
proof -
  define g where "g = (\<lambda>off. pack (nat ((id_at b off - oldest) mod 2 ^ 64)))"
  have rb: "rebase b oldest offs = map g offs" by (simp only: rebase_def g_def id_at_def)
  have lg: "length (g off) = 6" for off by (simp only: g_def length_pack)
  have u: "int (unpack (g off)) = id_at b off - oldest" if "off \<in> set offs" for off
  proof -
    have y: "oldest \<le> id_at b off" "id_at b off - oldest < 2 ^ 48" using win that by auto
    have m: "(id_at b off - oldest) mod 2 ^ 64 = id_at b off - oldest"
      using y by (intro mod_pos_pos_trivial) auto
    have g: "g off = pack (nat (id_at b off - oldest))"
      by (simp only: g_def m)
    have "nat (id_at b off - oldest) < 2 ^ 48" using y by simp
    then show ?thesis unfolding g using y(1) by (simp only: unpack_pack nat_0_le diff_ge_0_iff_ge)
  qed
  have idg: "id_at oldest (g off) = id_at b off" if "off \<in> set offs" for off
  proof -
    have "oldest + int (unpack (g off)) = id_at b off" using u[OF that] by linarith
    moreover have "i64_min \<le> id_at b off" "id_at b off \<le> i64_max" using win lo that by force+
    ultimately show ?thesis unfolding id_at_def[of oldest] by (simp only: wrap64_id)
  qed
  have "g x < g y" if "x < y" "x \<in> set offs" "y \<in> set offs" for x y
  proof -
    have "length x = length y" using w that by (auto simp: well_based_def)
    then have "unpack x < unpack y" using that by (simp add: unpack_less_iff)
    then have "int (unpack (g x)) < int (unpack (g y))"
      unfolding u[OF that(2)] u[OF that(3)] well_based_id[OF w that(2)] well_based_id[OF w that(3)] by linarith
    then show ?thesis by (simp only: unpack_less_iff lg of_nat_less_iff)
  qed
  moreover have "sorted_wrt (<) offs" using w by (simp add: well_based_def)
  ultimately have "sorted_wrt (<) (map g offs)"
    unfolding sorted_wrt_map by (metis (no_types, lifting) sorted_wrt_mono_rel)
  moreover have "ids_of oldest (map g offs) = ids_of b offs" using idg by (auto simp: image_iff)
  moreover have "oldest + int (unpack (g off)) \<le> i64_max" if "off \<in> set offs" for off
    unfolding u[OF that] using win that by force
  ultimately show ?thesis using lo lg unfolding well_based_def rb by simp
qed

definition in_i64 :: "int \<Rightarrow> bool" where
  "in_i64 x \<longleftrightarrow> i64_min \<le> x \<and> x \<le> i64_max"

lemma ids_in_i64: "replay_inv r \<Longrightarrow> y \<in> ids r \<Longrightarrow> base r \<le> y \<and> in_i64 y"
  using well_based_id[of "base r" "offsets r"]
  by (force simp: replay_inv_def ids_def in_i64_def well_based_def)

lemma saturating_window:
  assumes "in_i64 n" "oldest = saturating_sub64 n max_age"
  shows "i64_min \<le> oldest" "oldest \<le> n" "n - max_age \<le> oldest"
  using assms by (auto simp: saturating_sub64_def in_i64_def max_age_def)

text \<open>The choice of base in \<open>remember\<close>: the old one while it reaches, else the oldest allowed.\<close>

lemma choose_base:
  assumes "well_based b offs" "in_i64 x" "in_i64 n" "x \<le> n"
    and old: "oldest = saturating_sub64 n max_age" "oldest \<le> x"
    and win: "\<forall>y\<in>ids_of b offs. oldest \<le> y \<and> y \<le> n" and below: "\<forall>y\<in>ids_of b offs. b \<le> y"
    and sel: "(b', offs', off) =
        (case offset_of b x of
           Some off \<Rightarrow> if offs \<noteq> [] then (b, offs, off)
                        else (oldest, rebase b oldest offs, pack (nat ((x - oldest) mod 2 ^ 64)))
         | None \<Rightarrow> (oldest, rebase b oldest offs, pack (nat ((x - oldest) mod 2 ^ 64))))"
  shows "well_based b' (insert_offset off offs') \<and> ids_of b' (insert_offset off offs') = insert x (ids_of b offs)"
proof (cases "\<exists>o1. offset_of b x = Some o1 \<and> offs \<noteq> []")
  case True
  then obtain o1 where o1: "offset_of b x = Some o1" and ne: "offs \<noteq> []" by blast
  then have eq: "b' = b" "offs' = offs" "off = o1" using sel by simp_all
  obtain y where "y \<in> ids_of b offs" using ne by (cases offs) auto
  then have "b \<le> n" using win below by force
  then have "b - max_age \<le> x" using saturating_window(3)[OF assms(3) old(1)] old(2) by linarith
  moreover have "i64_min \<le> b" using assms(1) by (simp add: well_based_def)
  ultimately show ?thesis
    using offset_of_Some[OF o1] insert_well_based[OF assms(1)] assms(2) eq by (auto simp: in_i64_def)
next
  case False
  then have eq: "b' = oldest" "offs' = rebase b oldest offs" "off = pack (nat ((x - oldest) mod 2 ^ 64))"
    using sel by (auto split: option.splits if_splits)
  note w = saturating_window[OF assms(3) old(1)]
  have span: "n - oldest < 2 ^ 48" using w(3) by (simp add: max_age_def)
  then have "\<forall>y\<in>ids_of b offs. oldest \<le> y \<and> y \<le> i64_max \<and> y - oldest < 2 ^ 48"
    using win assms(3) unfolding in_i64_def by force
  from rebase_well_based[OF assms(1) w(1) this]
  have r: "well_based oldest (rebase b oldest offs)" "ids_of oldest (rebase b oldest offs) = ids_of b offs"
    by auto
  have x: "x - oldest < 2 ^ 48" using span assms(4) by linarith
  then have "(x - oldest) mod 2 ^ 64 = x - oldest" using old(2) by simp
  then show ?thesis
    using insert_well_based[OF r(1) old(2) x] assms(2) r(2) eq by (simp add: in_i64_def)
qed

lemma contains_iff:
  assumes inv: "replay_inv r" and x: "in_i64 x"
  shows "contains r x \<longleftrightarrow> x \<in> ids r"
proof -
  let ?b = "base r"
  have w: "well_based ?b (offsets r)" using inv by (simp add: replay_inv_def)
  then have srt: "sorted_keys (\<lambda>y. y) (offsets r)" by (simp add: well_based_def)
  have b: "i64_min \<le> ?b" using w by (simp add: well_based_def)
  have search: "contains r x \<longleftrightarrow> (\<exists>off. offset_of ?b x = Some off \<and> off \<in> set (offsets r))"
  proof -
    have "off \<le> last (offsets r)" if "off \<in> set (offsets r)" for off
      using srt that by (intro strict_sorted_le_last) simp_all
    moreover have "(case binary_search_by_key (\<lambda>y. y) off (offsets r) of Inr _ \<Rightarrow> True | Inl _ \<Rightarrow> False)
        \<longleftrightarrow> off \<in> set (offsets r)" for off
      using binary_search_Inr_iff[OF srt, of off] by (auto split: sum.splits)
    ultimately show ?thesis by (auto simp: contains_def split: option.splits)
  qed
  show ?thesis
  proof
    assume "contains r x"
    then obtain off where off: "offset_of ?b x = Some off" "off \<in> set (offsets r)" using search by blast
    let ?d = "(x - ?b) mod 2 ^ 64"
    from off(1) have d: "?d < 2 ^ 48" "off = pack (nat ?d)"
      by (auto simp: offset_of_def Let_def offset_limit_def split: if_splits)
    have nn: "0 \<le> ?d" by simp
    then have "nat ?d < 2 ^ 48" using d(1) by simp
    then have "int (unpack off) = ?d" unfolding d(2) using nn by (simp only: unpack_pack nat_0_le)
    then have "id_at ?b off = wrap64 (?b + ?d)" by (simp only: id_at_def)
    also have "\<dots> = wrap64 x"
    proof -
      have "(?b + ?d + 2 ^ 63) mod 2 ^ 64 = (?b + (x - ?b) + 2 ^ 63) mod (2 ^ 64 :: int)"
        by (metis mod_add_left_eq mod_add_right_eq)
      then show ?thesis unfolding wrap64_def by simp
    qed
    also have "\<dots> = x" using x by (simp add: wrap64_id in_i64_def)
    finally show "x \<in> ids r" using off(2) by (force simp: ids_def)
  next
    assume "x \<in> ids r"
    then obtain off where off: "off \<in> set (offsets r)" "x = id_at ?b off" by (auto simp: ids_def)
    then have e: "x - ?b = int (unpack off)" and l: "length off = 6"
      using well_based_id[OF w off(1)] w by (auto simp: well_based_def)
    have u: "unpack off < 2 ^ 48" using unpack_bound[OF l] .
    then have "(x - ?b) mod 2 ^ 64 = int (unpack off)" unfolding e by (intro mod_pos_pos_trivial) auto
    with u have "offset_of ?b x = Some (pack (unpack off))"
      by (simp add: offset_of_def Let_def offset_limit_def)
    then show "contains r x" using search off(1) pack_unpack[OF l] by simp
  qed
qed

lemma spec_remember_accept:
  assumes r: "spec_remember S x = (S', ev)"
    and old: "oldest = saturating_sub64 (if S = {} then x else max (Max S) x) max_age" "old = {z \<in> S. z < oldest}"
    and acc: "\<not> (x < oldest \<or> (card S = capacity \<and> x < Min S))"
  shows "S' = insert x (if card (S - old) = capacity then S - old - {Min (S - old)} else S - old)"
    and "ev = (if card (S - old) = capacity then Some (Min (S - old)) else if old = {} then None else Some (Max old))"
  using r acc unfolding spec_remember_def Let_def old(1)[symmetric] old(2)[symmetric]
  by (auto split: if_splits)

text \<open>Nothing is forgotten: what leaves the set is covered by the identifier returned.\<close>

lemma spec_remember_covers:
  assumes S: "finite S" and r: "spec_remember S x = (S', ev)" and y: "y \<in> insert x S"
  shows "y \<in> S' \<or> (\<exists>e. ev = Some e \<and> y \<le> e)"
proof -
  define n where "n = (if S = {} then x else max (Max S) x)"
  define oldest where "oldest = saturating_sub64 n max_age"
  define old where "old = {z \<in> S. z < oldest}"
  have fin: "finite old" "finite (S - old)" using S by (simp_all add: old_def)
  show ?thesis
  proof (cases "x < oldest \<or> (card S = capacity \<and> x < Min S)")
    case True
    then have "S' = S \<and> ev = Some x"
      using r by (simp add: spec_remember_def Let_def flip: n_def oldest_def)
    with y show ?thesis by auto
  next
    case False
    note r' = spec_remember_accept[OF r oldest_def[unfolded n_def] old_def False]
    show ?thesis
    proof (cases "y \<in> old")
      case old: True
      then have le: "y \<le> Max old" using fin(1) by simp
      show ?thesis
      proof (cases "card (S - old) = capacity")
        case True
        then have "S - old \<noteq> {}" by (metis capacity_def card.empty zero_neq_numeral)
        then have "Min (S - old) \<in> S - old" using fin(2) by (intro Min_in)
        then have "y \<le> Min (S - old)" using old by (auto simp: old_def)
        with True show ?thesis by (simp add: r')
      next
        case False
        with old le show ?thesis by (auto simp: r')
      qed
    next
      case False
      with y show ?thesis by (auto simp: r')
    qed
  qed
qed

text \<open>The packed history implements the set.\<close>

lemma remember_refines:
  assumes inv: "replay_inv r" and x: "in_i64 x" and rem: "remember r x = (r', ev)"
  shows "replay_inv r' \<and> spec_remember (ids r) x = (ids r', ev)"
proof -
  let ?b = "base r"
  have w: "well_based ?b (offsets r)" and cap: "length (offsets r) \<le> capacity"
    using inv by (simp_all add: replay_inv_def)
  have card: "card (ids r) = length (offsets r)" by (simp add: ids_def card_ids_of[OF w])
  have emp: "ids r = {} \<longleftrightarrow> offsets r = []" by (simp add: ids_def)
  define n where "n = (if offsets r = [] then x else max (id_at ?b (last (offsets r))) x)"
  define oldest where "oldest = saturating_sub64 n max_age"
  have n_spec: "(if ids r = {} then x else max (Max (ids r)) x) = n"
    using last_Max[OF w] by (simp add: n_def emp) (simp add: ids_def)
  have n: "in_i64 n" "x \<le> n" "\<forall>y\<in>ids r. y \<le> n"
  proof -
    have "id_at ?b (last (offsets r)) \<in> ids r" if "offsets r \<noteq> []" using that by (simp add: ids_def)
    then show "in_i64 n" using x ids_in_i64[OF inv] by (auto simp: n_def max_def)
    show "x \<le> n" by (simp add: n_def)
    have "y \<le> max (Max (ids r)) x" if "y \<in> ids r" for y
      using Max_ge[of "ids r" y] that by (simp add: ids_def le_max_iff_disj)
    then show "\<forall>y\<in>ids r. y \<le> n" using n_spec by (metis empty_iff)
  qed
  note win = saturating_window[OF n(1) oldest_def]
  have guard: "(length (offsets r) = capacity \<and> x < id_at ?b (hd (offsets r)))
      \<longleftrightarrow> (card (ids r) = capacity \<and> x < Min (ids r))"
  proof (cases "offsets r")
    case Nil
    then show ?thesis by (simp add: card capacity_def)
  next
    case (Cons off offs)
    then show ?thesis using hd_Min[of ?b off offs] w card by (simp add: ids_def)
  qed
  show ?thesis
  proof (cases "x < oldest \<or> (card (ids r) = capacity \<and> x < Min (ids r))")
    case True
    then have "r' = r \<and> ev = Some x"
      using rem guard by (simp add: remember_def Let_def flip: n_def oldest_def)
    moreover have "spec_remember (ids r) x = (ids r, Some x)"
      using True by (simp add: spec_remember_def Let_def n_spec flip: oldest_def)
    ultimately show ?thesis using inv by simp
  next
    case False
    obtain offs1 ev1 where e1: "evict_old ?b oldest (offsets r) None = (offs1, ev1)" by fastforce
    obtain offs2 ev2 where e2: "evict_full ?b (offs1, ev1) = (offs2, ev2)" by fastforce
    obtain b' offs' off where sel: "(b', offs', off) =
        (case offset_of ?b x of
           Some off \<Rightarrow> if offs2 \<noteq> [] then (?b, offs2, off)
                        else (oldest, rebase ?b oldest offs2, pack (nat ((x - oldest) mod 2 ^ 64)))
         | None \<Rightarrow> (oldest, rebase ?b oldest offs2, pack (nat ((x - oldest) mod 2 ^ 64))))"
      by (metis prod_cases3)
    have r': "r' = \<lparr>base = b', offsets = insert_offset off offs'\<rparr>" "ev = ev2"
      using rem[unfolded remember_def Let_def, folded n_def, folded oldest_def] False guard
      by (simp_all add: e1 e2 flip: sel)
    note s1 = evict_old_spec[OF w e1, folded ids_def]
    note s2 = evict_full_spec[OF conjunct1[OF s1] e2]
    have sub: "ids_of ?b offs2 \<subseteq> ids_of ?b offs1" using s2 by (auto split: if_splits)
    have rng: "\<forall>y\<in>ids_of ?b offs2. oldest \<le> y \<and> y \<le> n" "\<forall>y\<in>ids_of ?b offs2. ?b \<le> y"
      using sub s1 n(3) ids_in_i64[OF inv] by fastforce+
    have "oldest \<le> x" using False by simp
    note res = choose_base[OF conjunct1[OF s2] x n(1,2) oldest_def this rng sel]
    have ids': "ids r' = insert x (ids_of ?b offs2)" using res by (simp add: r' ids_def)
    have "card (ids_of ?b offs2) < capacity"
    proof (cases "card (ids_of ?b offs1) = capacity")
      case True
      then have "ids_of ?b offs1 \<noteq> {}" by (metis capacity_def card.empty zero_neq_numeral)
      then have "card (ids_of ?b offs1 - {Min (ids_of ?b offs1)}) < card (ids_of ?b offs1)"
        by (intro psubset_card_mono psubsetI) (auto dest: Min_in[rotated])
      with True s2 show ?thesis by simp
    next
      case F: False
      have "card (ids_of ?b offs1) \<le> card (ids r)"
        using s1 by (intro card_mono) (auto simp: ids_def)
      with F s2 card cap show ?thesis by simp
    qed
    then have "card (ids r') \<le> capacity" unfolding ids' by (simp add: card_insert_if)
    moreover have w': "well_based (base r') (offsets r')" using res by (simp add: r')
    ultimately have len: "length (offsets r') \<le> capacity" using card_ids_of[OF w'] by (simp add: ids_def)
    have "y - z \<le> max_age" if "y \<in> ids r'" "z \<in> ids r'" for y z
    proof -
      have "y \<le> n" "oldest \<le> z" using that rng(1) n(2) False unfolding ids' by auto
      then show ?thesis using win(3) by linarith
    qed
    then have "replay_inv r'" using w' len by (simp add: replay_inv_def)
    moreover have "spec_remember (ids r) x = (ids r', ev)"
      using False s1 s2 unfolding ids' r'(2)
      by (auto simp: spec_remember_def Let_def n_spec simp flip: oldest_def split: if_splits)
    ultimately show ?thesis ..
  qed
qed

section \<open>The gate\<close>

text \<open>An identifier is settled when the gate will not process it again.\<close>

definition settled :: "received \<Rightarrow> int \<Rightarrow> bool" where
  "settled st x \<longleftrightarrow> x \<in> ids (received_ids st) \<or> x \<le> received_floor st"

lemma replay_inv_new: "replay_inv (received_ids received_new)" "ids (received_ids received_new) = {}"
  by (simp_all add: replay_inv_def received_new_def replay_new_def well_based_def ids_def)

lemma gate_Fresh:
  "replay_inv (received_ids st) \<Longrightarrow> in_i64 x \<Longrightarrow> gate st x = Fresh \<longleftrightarrow> \<not> settled st x"
  by (auto simp: gate_def settled_def contains_iff)

lemma remember_received_settles:
  assumes inv: "replay_inv (received_ids st)" and x: "in_i64 x"
  shows "replay_inv (received_ids (remember_received st x))"
    and "settled st y \<or> y = x \<Longrightarrow> settled (remember_received st x) y"
proof -
  obtain r ev where r: "remember (received_ids st) x = (r, ev)" by fastforce
  note ref = remember_refines[OF inv x r]
  then show "replay_inv (received_ids (remember_received st x))"
    by (simp add: remember_received_def r split: option.splits)
  assume "settled st y \<or> y = x"
  moreover have "finite (ids (received_ids st))" by (simp add: ids_def)
  ultimately show "settled (remember_received st x) y"
    using spec_remember_covers[OF _ conjunct2[OF ref], of y]
    by (fastforce simp: settled_def remember_received_def r split: option.splits)
qed

lemma receive_all_fresh:
  assumes "replay_inv (received_ids st)" "\<forall>(x, h)\<in>set xs. in_i64 x"
  shows "distinct (receive_all st xs) \<and> (\<forall>y\<in>set (receive_all st xs). \<not> settled st y)"
  using assms
proof (induction st xs rule: receive_all.induct)
  case (1 st)
  then show ?case by simp
next
  case (2 st x handled xs)
  have x: "in_i64 x" and xs: "\<forall>(y, h)\<in>set xs. in_i64 y" using "2.prems"(2) by auto
  note g = gate_Fresh[OF "2.prems"(1) x] and rr = remember_received_settles[OF "2.prems"(1) x]
  show ?case
  proof (cases "gate st x = Fresh \<and> handled")
    case True
    then have r: "receive st x handled = remember_received st x" by (simp add: receive_def)
    with rr(1) "2.IH" xs True g rr(2) show ?thesis by auto
  next
    case False
    then have "receive st x handled = st" by (auto simp: receive_def)
    with False "2.IH" "2.prems"(1) xs show ?thesis by auto
  qed
qed

text \<open>Identifiers in increasing order are never mistaken for old ones.\<close>

lemma remember_increasing:
  assumes inv: "replay_inv r" and x: "in_i64 x" and up: "\<forall>y\<in>ids r. y < x"
    and rem: "remember r x = (r', ev)"
  shows "ids r' \<subseteq> insert x (ids r)" and "ev = Some e \<Longrightarrow> e < x"
proof -
  have fin: "finite (ids r)" by (simp add: ids_def)
  have newest: "(if ids r = {} then x else max (Max (ids r)) x) = x"
    using up fin Max_in[OF fin] by (auto simp: max_def)
  define oldest where "oldest = saturating_sub64 x max_age"
  have "\<not> x < oldest" using saturating_window(2)[OF x oldest_def] by simp
  moreover have "\<not> (card (ids r) = capacity \<and> x < Min (ids r))"
    using up fin Min_in[OF fin] by (fastforce simp: capacity_def dest: card_gt_0_iff[THEN iffD1, rotated])
  moreover note ref = conjunct2[OF remember_refines[OF inv x rem]]
  define old where "old = {y \<in> ids r. y < oldest}"
  ultimately have shape:
    "ids r' = insert x (if card (ids r - old) = capacity then ids r - old - {Min (ids r - old)} else ids r - old)"
    "ev = (if card (ids r - old) = capacity then Some (Min (ids r - old))
       else if old = {} then None else Some (Max old))"
    using spec_remember_accept[OF ref, of oldest old] by (simp_all add: newest oldest_def)
  then show "ids r' \<subseteq> insert x (ids r)" by (auto split: if_splits)
  assume "ev = Some e"
  with shape(2) consider "e = Max old" "old \<noteq> {}" | "e = Min (ids r - old)" "card (ids r - old) = capacity"
    by (auto split: if_splits)
  then have "e \<in> ids r"
  proof cases
    case 1
    then show ?thesis using Max_in[of old] fin by (auto simp: old_def)
  next
    case 2
    then have "ids r - old \<noteq> {}" by (metis capacity_def card.empty zero_neq_numeral)
    then show ?thesis using Min_in[of "ids r - old"] fin 2 by auto
  qed
  then show "e < x" using up by blast
qed

lemma receive_all_increasing:
  assumes "replay_inv (received_ids st)" "\<forall>x\<in>set xs. in_i64 x" "sorted_wrt (<) xs"
    and "\<forall>x\<in>set xs. received_floor st < x \<and> (\<forall>y\<in>ids (received_ids st). y < x)"
  shows "receive_all st (map (\<lambda>x. (x, True)) xs) = xs"
  using assms
proof (induction xs arbitrary: st)
  case Nil
  then show ?case by simp
next
  case (Cons x xs)
  have x: "in_i64 x" and xs: "\<forall>y\<in>set xs. in_i64 y" using Cons.prems(2) by simp_all
  have up: "\<forall>y\<in>ids (received_ids st). y < x" "received_floor st < x" using Cons.prems(4) by simp_all
  have fresh: "gate st x = Fresh" using gate_Fresh[OF Cons.prems(1) x] up by (auto simp: settled_def)
  obtain r' ev where rm: "remember (received_ids st) x = (r', ev)" by fastforce
  note inc = remember_increasing[OF Cons.prems(1) x up(1) rm]
  have later: "\<forall>z\<in>set xs. x < z" using Cons.prems(3) by simp
  let ?st = "remember_received st x"
  have "received_floor ?st < z \<and> (\<forall>y\<in>ids (received_ids ?st). y < z)" if "z \<in> set xs" for z
    using inc later that up Cons.prems(4)
    by (fastforce simp: remember_received_def rm split: option.splits)
  then have "receive_all ?st (map (\<lambda>x. (x, True)) xs) = xs"
    using Cons.IH[of ?st] remember_received_settles(1)[OF Cons.prems(1) x] xs Cons.prems(3) by simp
  then show ?case using fresh by (simp add: receive_def)
qed

section \<open>Properties\<close>

text \<open>
  C38: the packed, rebased history behaves as a plain set of identifiers: from a well-formed
  history, recording any \<open>i64\<close> identifier gives a well-formed history (at most 1024 entries, all
  within 300 seconds of each other), with exactly the members and exactly the evicted maximum
  that the set-level reference computes, and membership tests agree with the set.
\<close>

theorem remember_implements_set:
  assumes "replay_inv r" and "in_i64 x" and "in_i64 y"
  shows "replay_inv (fst (remember r x)) \<and>
    spec_remember (ids r) x = (ids (fst (remember r x)), snd (remember r x)) \<and>
    (contains r y \<longleftrightarrow> y \<in> ids r)"
  using remember_refines[OF assms(1,2)] contains_iff[OF assms(1,3)] by (cases "remember r x") simp

theorem remember_implements_set_witness:
  "replay_inv (fst (remember replay_new 5)) \<and>
    spec_remember (ids replay_new) 5 = (ids (fst (remember replay_new 5)), snd (remember replay_new 5)) \<and>
    (contains replay_new 7 \<longleftrightarrow> 7 \<in> ids replay_new)"
  by (rule remember_implements_set)
    (simp_all add: replay_inv_def replay_new_def well_based_def ids_def in_i64_def)

text \<open>
  replay protection. Whatever identifiers the server, or someone replaying its traffic,
  presents in whatever order and however often, no identifier is successfully processed as new
  twice, even after its entry was evicted by age, by capacity, or refused outright.
\<close>

theorem no_identifier_processed_twice:
  assumes "\<forall>(x, handled)\<in>set xs. in_i64 x"
  shows "distinct (receive_all received_new xs)"
  using receive_all_fresh[OF replay_inv_new(1) assms] by blast

theorem no_identifier_processed_twice_witness:
  "distinct (receive_all received_new [(5, False), (2 ^ 42, True), (5, True), (2 ^ 42, True), (7, True)])"
  by (rule no_identifier_processed_twice) (simp add: in_i64_def)

text \<open>
  the gate loses nothing from a well-behaved server: positive identifiers that arrive in
  increasing order are all processed, however many there are and however far apart.
\<close>

theorem increasing_identifiers_processed:
  assumes "\<forall>x\<in>set xs. 0 < x \<and> in_i64 x" and "sorted_wrt (<) xs"
  shows "receive_all received_new (map (\<lambda>x. (x, True)) xs) = xs"
  using assms by (intro receive_all_increasing) (simp_all add: replay_inv_new, simp add: received_new_def)

theorem increasing_identifiers_processed_witness:
  "receive_all received_new (map (\<lambda>x. (x, True)) [5, 9, 2 ^ 45, 2 ^ 60]) = [5, 9, 2 ^ 45, 2 ^ 60]"
  by (rule increasing_identifiers_processed) (simp_all add: in_i64_def)

end
