(* ===== verification/Mb_Defs.thy ===== *)
theory Mb_Defs
  imports Prelude
begin

text \<open>
  The data of the update message boxes: the parts of the TL schema they look at, and the types
  and constants of \<open>grammers-session/src/message_box/defs.rs\<close>. Counters are \<open>i32\<close> values written
  as integers: the source widens them to \<open>i64\<close> before adding, so sums do not wrap. TL values
  the code only carries along (media, users, chats, the remaining fields of an update) are
  opaque objects. Instants and durations count milliseconds.
\<close>

section \<open>Schema types\<close>

datatype peer = PeerUser int | PeerChat int | PeerChannel int

datatype input_peer =
    InputPeerEmpty
  | InputPeerSelf
  | InputPeerChat int
  | InputPeerUser int int
  | InputPeerChannel int int
  | InputPeerUserFromMessage input_peer int int
  | InputPeerChannelFromMessage input_peer int int

record reply_header =
  reply_to_scheduled :: bool
  forum_topic :: bool
  quote :: bool
  reply_to_ephemeral :: bool
  reply_to_msg_id :: "int option"
  reply_to_peer_id :: "peer option"
  reply_from :: "tl_object option"
  reply_media :: "tl_object option"
  reply_to_top_id :: "int option"
  quote_text :: "string option"
  quote_entities :: "tl_object list option"
  quote_offset :: "int option"
  todo_item_id :: "int option"
  poll_option :: "bytes option"

datatype message_reply_header =
    ReplyHeader reply_header
  | ReplyStoryHeader peer int

record message_fields =
  m_out :: bool
  m_mentioned :: bool
  m_media_unread :: bool
  m_silent :: bool
  m_post :: bool
  m_from_scheduled :: bool
  m_legacy :: bool
  m_edit_hide :: bool
  m_pinned :: bool
  m_noforwards :: bool
  m_invert_media :: bool
  m_offline :: bool
  m_video_processing_pending :: bool
  m_paid_suggested_post_stars :: bool
  m_paid_suggested_post_ton :: bool
  m_id :: int
  m_from_id :: "peer option"
  m_from_boosts_applied :: "int option"
  m_from_rank :: "string option"
  m_peer_id :: peer
  m_saved_peer_id :: "peer option"
  m_fwd_from :: "tl_object option"
  m_via_bot_id :: "int option"
  m_via_business_bot_id :: "int option"
  m_guestchat_via_from :: "peer option"
  m_reply_to :: "message_reply_header option"
  m_date :: int
  m_message :: string
  m_media :: "tl_object option"
  m_reply_markup :: "tl_object option"
  m_entities :: "tl_object list option"
  m_views :: "int option"
  m_forwards :: "int option"
  m_replies :: "tl_object option"
  m_edit_date :: "int option"
  m_post_author :: "string option"
  m_grouped_id :: "int option"
  m_reactions :: "tl_object option"
  m_restriction_reason :: "tl_object list option"
  m_ttl_period :: "int option"
  m_quick_reply_shortcut_id :: "int option"
  m_effect :: "int option"
  m_factcheck :: "tl_object option"
  m_report_delivery_until_date :: "int option"
  m_paid_message_stars :: "int option"
  m_suggested_post :: "tl_object option"
  m_schedule_repeat_period :: "int option"
  m_summary_from_language :: "string option"
  m_rich_message :: "tl_object option"

text \<open>The three message constructors; a service message keeps its other fields opaque.\<close>

datatype message =
    MessageEmpty int "peer option"
  | Message message_fields
  | MessageService peer tl_object

text \<open>
  \<open>tl::enums::Update\<close>: every constructor whose \<open>pts\<close> or \<open>qts\<close> the source reads, with the fields the
  message boxes read and the others in one opaque object, and one constructor for the rest.
\<close>

datatype tl_update =
    NewMessage message int int
  | DeleteMessages "int list" int int
  | NewEncryptedMessage tl_object int
  | ReadHistoryInbox peer int int tl_object
  | ReadHistoryOutbox peer int int tl_object
  | WebPage int int tl_object
  | ReadMessagesContents "int list" int int tl_object
  | ChannelTooLong int "int option"
  | NewChannelMessage message int int
  | ReadChannelInbox int int tl_object
  | DeleteChannelMessages int "int list" int int
  | EditChannelMessage message int int
  | EditMessage message int int
  | ChannelWebPage int int int tl_object
  | FolderPeers int int tl_object
  | PinnedMessages peer int int tl_object
  | PinnedChannelMessages int int int tl_object
  | ChatParticipant int tl_object
  | ChannelParticipant int tl_object
  | BotStopped int tl_object
  | BotChatInviteRequester int tl_object
  | BotChatBoost int tl_object
  | BotMessageReaction int tl_object
  | BotMessageReactions int tl_object
  | BotNewBusinessMessage int tl_object
  | BotEditBusinessMessage int tl_object
  | BotDeleteBusinessMessage "int list" int tl_object
  | BotPurchasedPaidMedia int tl_object
  | OtherUpdate tl_object

section \<open>Keys\<close>

datatype key = Common | Secondary | Channel int

text \<open>The derived order of the enum: by variant first, then by channel identifier.\<close>

fun key_rank :: "key \<Rightarrow> nat \<times> int" where
  "key_rank Common = (0, 0)"
| "key_rank Secondary = (1, 0)"
| "key_rank (Channel i) = (2, i)"

instantiation key :: linorder
begin

definition less_eq_key :: "key \<Rightarrow> key \<Rightarrow> bool" where
  "less_eq_key a b \<longleftrightarrow> fst (key_rank a) < fst (key_rank b) \<or>
     (fst (key_rank a) = fst (key_rank b) \<and> snd (key_rank a) \<le> snd (key_rank b))"

definition less_key :: "key \<Rightarrow> key \<Rightarrow> bool" where
  "less_key a b \<longleftrightarrow> fst (key_rank a) < fst (key_rank b) \<or>
     (fst (key_rank a) = fst (key_rank b) \<and> snd (key_rank a) < snd (key_rank b))"

instance
proof
  fix x y z :: key
  show "(x < y) = (x \<le> y \<and> \<not> y \<le> x)" by (auto simp: less_eq_key_def less_key_def)
  show "x \<le> x" by (simp add: less_eq_key_def)
  show "x \<le> y \<Longrightarrow> y \<le> z \<Longrightarrow> x \<le> z" by (auto simp: less_eq_key_def)
  show "x \<le> y \<Longrightarrow> y \<le> x \<Longrightarrow> x = y" by (cases x; cases y) (auto simp: less_eq_key_def)
  show "x \<le> y \<or> y \<le> x" by (auto simp: less_eq_key_def)
qed

end

lemma key_order [simp]:
  "Common < Secondary" "Common < Channel i" "Secondary < Channel i" "Channel i < Channel j \<longleftrightarrow> i < j"
  by (simp_all add: less_key_def)

section \<open>Message box state\<close>

abbreviation NO_SEQ :: int where "NO_SEQ \<equiv> 0"
abbreviation NO_PTS :: int where "NO_PTS \<equiv> 0"
abbreviation NO_DATE :: int where "NO_DATE \<equiv> 0"

definition POSSIBLE_GAP_TIMEOUT :: duration where "POSSIBLE_GAP_TIMEOUT = 500"
definition NO_UPDATES_TIMEOUT :: duration where "NO_UPDATES_TIMEOUT = 15 * 60 * 1000"
definition MAX_CHANNEL_DEFERRALS :: nat where "MAX_CHANNEL_DEFERRALS = 30"
definition MAX_HELD_UPDATES :: nat where "MAX_HELD_UPDATES = 512"
definition CHANNEL_RETRY_DELAY_LIMIT :: duration where "CHANNEL_RETRY_DELAY_LIMIT = 60 * 1000"
definition MAX_INSERTION_SORT_UPDATES :: nat where "MAX_INSERTION_SORT_UPDATES = 32"

record possible_gap =
  gap_deadline :: instant
  gap_updates :: "tl_update list"

record live_entry =
  entry_key :: key
  pts :: int
  deadline :: instant
  recovery_deferred :: bool
  recovery_pending :: bool
  recovery_deferrals :: nat
  recovery_failures :: nat
  retry_not_before :: "instant option"
  possible_gap :: "possible_gap option"

record message_boxes =
  entries :: "live_entry list"
  date :: int
  seq :: int
  getting_diff_for :: "key list"
  ready_diff_count :: nat
  exhausted_channels :: "int set"
  held_updates :: "(int \<times> tl_update) list"
  held_release_ready :: bool
  held_overflowed :: bool
  next_deadline :: instant

record pts_info =
  info_key :: key
  info_pts :: int
  info_count :: int

datatype gap = Gap

datatype message_box =
    CommonBox int
  | SecondaryBox int
  | ChannelBox int int

record update_state =
  state_date :: int
  state_seq :: int
  state_box :: "message_box option"

text \<open>\<open>UpdateAndPeers\<close>: updates with their state, users and chats.\<close>

type_synonym update_and_peers = "(tl_update \<times> update_state) list \<times> tl_object list \<times> tl_object list"

text \<open>Persisted state, from \<open>grammers-session/src/types.rs\<close>.\<close>

record channel_state =
  chan_id :: int
  chan_pts :: int

record updates_state =
  us_pts :: int
  us_qts :: int
  us_date :: int
  us_seq :: int
  us_channels :: "channel_state list"

section \<open>Channel identifiers\<close>

text \<open>\<open>PeerId::channel(id).is_some()\<close>, from \<open>grammers-session/src/peer.rs\<close>.\<close>

definition valid_channel :: "int \<Rightarrow> bool" where
  "valid_channel i \<longleftrightarrow> (1 \<le> i \<and> i \<le> 997852516352) \<or> (1002147483649 \<le> i \<and> i \<le> 3000000000000)"

section \<open>Pts information\<close>

text \<open>\<open>as i32\<close> on a length.\<close>

definition as_i32 :: "nat \<Rightarrow> int" where
  "as_i32 n = (int n + 2 ^ 31) mod 2 ^ 32 - 2 ^ 31"

fun message_peer :: "message \<Rightarrow> peer option" where
  "message_peer (MessageEmpty i p) = p"
| "message_peer (Message m) = Some (m_peer_id m)"
| "message_peer (MessageService p r) = Some p"

fun message_channel_id :: "message \<Rightarrow> int option" where
  "message_channel_id (MessageEmpty i (Some (PeerChannel c))) = Some c"
| "message_channel_id (MessageEmpty i _) = None"
| "message_channel_id (Message m) = (case m_peer_id m of PeerChannel c \<Rightarrow> Some c | _ \<Rightarrow> None)"
| "message_channel_id (MessageService (PeerChannel c) r) = Some c"
| "message_channel_id (MessageService _ r) = None"

abbreviation mk_info :: "key \<Rightarrow> int \<Rightarrow> int \<Rightarrow> pts_info" where
  "mk_info k p c \<equiv> \<lparr>info_key = k, info_pts = p, info_count = c\<rparr>"

fun raw_from_update :: "tl_update \<Rightarrow> pts_info option" where
  "raw_from_update (NewMessage m p c) = Some (mk_info Common p c)"
| "raw_from_update (DeleteMessages ms p c) = Some (mk_info Common p c)"
| "raw_from_update (NewEncryptedMessage m q) = Some (mk_info Secondary q 1)"
| "raw_from_update (ReadHistoryInbox pr p c r) = Some (mk_info Common p c)"
| "raw_from_update (ReadHistoryOutbox pr p c r) = Some (mk_info Common p c)"
| "raw_from_update (WebPage p c r) = Some (mk_info Common p c)"
| "raw_from_update (ReadMessagesContents ms p c r) = Some (mk_info Common p c)"
| "raw_from_update (ChannelTooLong i p) = map_option (\<lambda>p. mk_info (Channel i) p 0) p"
| "raw_from_update (NewChannelMessage m p c) = map_option (\<lambda>i. mk_info (Channel i) p c) (message_channel_id m)"
| "raw_from_update (ReadChannelInbox i p r) = Some (mk_info (Channel i) p 0)"
| "raw_from_update (DeleteChannelMessages i ms p c) = Some (mk_info (Channel i) p c)"
| "raw_from_update (EditChannelMessage m p c) = map_option (\<lambda>i. mk_info (Channel i) p c) (message_channel_id m)"
| "raw_from_update (EditMessage m p c) = Some (mk_info Common p c)"
| "raw_from_update (ChannelWebPage i p c r) = Some (mk_info (Channel i) p c)"
| "raw_from_update (FolderPeers p c r) = Some (mk_info Common p c)"
| "raw_from_update (PinnedMessages pr p c r) = Some (mk_info Common p c)"
| "raw_from_update (PinnedChannelMessages i p c r) = Some (mk_info (Channel i) p c)"
| "raw_from_update (ChatParticipant q r) = Some (mk_info Secondary q 1)"
| "raw_from_update (ChannelParticipant q r) = Some (mk_info Secondary q 1)"
| "raw_from_update (BotStopped q r) = Some (mk_info Secondary q 1)"
| "raw_from_update (BotChatInviteRequester q r) = Some (mk_info Secondary q 1)"
| "raw_from_update (BotChatBoost q r) = Some (mk_info Secondary q 1)"
| "raw_from_update (BotMessageReaction q r) = Some (mk_info Secondary q 1)"
| "raw_from_update (BotMessageReactions q r) = Some (mk_info Secondary q 1)"
| "raw_from_update (BotNewBusinessMessage q r) = Some (mk_info Secondary q 1)"
| "raw_from_update (BotEditBusinessMessage q r) = Some (mk_info Secondary q 1)"
| "raw_from_update (BotDeleteBusinessMessage ms q r) = Some (mk_info Secondary q (as_i32 (length ms)))"
| "raw_from_update (BotPurchasedPaidMedia q r) = Some (mk_info Secondary q 1)"
| "raw_from_update (OtherUpdate r) = None"

definition from_update :: "tl_update \<Rightarrow> pts_info option" where
  "from_update u = (case raw_from_update u of
      Some info \<Rightarrow> if info_pts info \<noteq> NO_PTS then Some info else None
    | None \<Rightarrow> None)"

fun is_channel_peer :: "peer \<Rightarrow> bool" where
  "is_channel_peer (PeerChannel c) = True"
| "is_channel_peer _ = False"

definition none_or :: "('a \<Rightarrow> bool) \<Rightarrow> 'a option \<Rightarrow> bool" where
  "none_or p x = (case x of None \<Rightarrow> True | Some y \<Rightarrow> p y)"

fun valid_peer :: "tl_update \<Rightarrow> bool" where
  "valid_peer (NewMessage m p c) = none_or (\<lambda>x. \<not> is_channel_peer x) (message_peer m)"
| "valid_peer (EditMessage m p c) = none_or (\<lambda>x. \<not> is_channel_peer x) (message_peer m)"
| "valid_peer (ReadHistoryInbox pr p c r) = (\<not> is_channel_peer pr)"
| "valid_peer (ReadHistoryOutbox pr p c r) = (\<not> is_channel_peer pr)"
| "valid_peer (PinnedMessages pr p c r) = (\<not> is_channel_peer pr)"
| "valid_peer (NewChannelMessage m p c) = none_or is_channel_peer (message_peer m)"
| "valid_peer (EditChannelMessage m p c) = none_or is_channel_peer (message_peer m)"
| "valid_peer _ = True"

definition valid_update :: "tl_update \<Rightarrow> bool" where
  "valid_update u \<longleftrightarrow> valid_peer u \<and>
     none_or (\<lambda>info. 0 \<le> info_count info \<and> (info_pts info = NO_PTS \<or> info_count info \<le> info_pts info) \<and>
                (case info_key info of Channel i \<Rightarrow> valid_channel i | _ \<Rightarrow> True))
       (raw_from_update u)"

fun message_box_of :: "pts_info \<Rightarrow> message_box" where
  "message_box_of \<lparr>info_key = Common, info_pts = p, info_count = c\<rparr> = CommonBox p"
| "message_box_of \<lparr>info_key = Secondary, info_pts = p, info_count = c\<rparr> = SecondaryBox p"
| "message_box_of \<lparr>info_key = Channel i, info_pts = p, info_count = c\<rparr> = ChannelBox i p"

fun box_pts :: "message_box \<Rightarrow> int" where
  "box_pts (CommonBox p) = p"
| "box_pts (SecondaryBox q) = q"
| "box_pts (ChannelBox i p) = p"

lemma from_update_raw: "from_update u = Some info \<longleftrightarrow> raw_from_update u = Some info \<and> info_pts info \<noteq> NO_PTS"
  by (auto simp: from_update_def split: option.splits)

text \<open>A valid update with pts information has a usable range: its count is not negative and its
  position not below it.\<close>

lemma valid_update_range:
  assumes "valid_update u" "from_update u = Some info"
  shows "0 \<le> info_count info" "info_count info \<le> info_pts info" "0 < info_pts info"
    and "info_key info = Channel i \<Longrightarrow> valid_channel i"
  using assms by (auto simp: valid_update_def from_update_raw none_or_def)

end
