(* ===== verification/Mb_Adaptor.thy ===== *)
theory Mb_Adaptor
  imports Mb_Defs
begin

text \<open>
  The conversions of \<open>grammers-session/src/message_box/adaptor.rs\<close>: every shape of incoming
  updates becomes one \<open>updatesCombined\<close>, and every channel difference one \<open>channelDifference\<close>.
\<close>

section \<open>Incoming shapes\<close>

record updates_combined =
  uc_updates :: "tl_update list"
  uc_users :: "tl_object list"
  uc_chats :: "tl_object list"
  uc_date :: int
  uc_seq_start :: int
  uc_seq :: int

record plain_updates =
  pu_updates :: "tl_update list"
  pu_users :: "tl_object list"
  pu_chats :: "tl_object list"
  pu_date :: int
  pu_seq :: int

record short_update =
  su_update :: tl_update
  su_date :: int

record short_message =
  sm_out :: bool
  sm_mentioned :: bool
  sm_media_unread :: bool
  sm_silent :: bool
  sm_id :: int
  sm_user_id :: int
  sm_message :: string
  sm_pts :: int
  sm_pts_count :: int
  sm_date :: int
  sm_fwd_from :: "tl_object option"
  sm_via_bot_id :: "int option"
  sm_reply_to :: "message_reply_header option"
  sm_entities :: "tl_object list option"
  sm_ttl_period :: "int option"

record short_chat_message =
  sc_out :: bool
  sc_mentioned :: bool
  sc_media_unread :: bool
  sc_silent :: bool
  sc_id :: int
  sc_from_id :: int
  sc_chat_id :: int
  sc_message :: string
  sc_pts :: int
  sc_pts_count :: int
  sc_date :: int
  sc_fwd_from :: "tl_object option"
  sc_via_bot_id :: "int option"
  sc_reply_to :: "message_reply_header option"
  sc_entities :: "tl_object list option"
  sc_ttl_period :: "int option"

record short_sent_message =
  ss_out :: bool
  ss_id :: int
  ss_pts :: int
  ss_pts_count :: int
  ss_date :: int
  ss_media :: "tl_object option"
  ss_entities :: "tl_object list option"
  ss_ttl_period :: "int option"

datatype updates =
    TooLong
  | UpdateShortMessage short_message
  | UpdateShortChatMessage short_chat_message
  | UpdateShort short_update
  | Combined updates_combined
  | Updates plain_updates
  | UpdateShortSentMessage short_sent_message

record input_reply_message =
  ir_reply_to_msg_id :: int
  ir_top_msg_id :: "int option"
  ir_reply_to_peer_id :: "input_peer option"
  ir_quote_text :: "string option"
  ir_quote_entities :: "tl_object list option"
  ir_quote_offset :: "int option"
  ir_rest :: tl_object

datatype input_reply_to =
    InputReplyToMessage input_reply_message
  | InputReplyToStory input_peer int
  | InputReplyToMonoForum input_peer
  | InputReplyToEphemeralMessage int

datatype input_quick_reply_shortcut = ShortcutName string | ShortcutId int

record send_message =
  sd_silent :: bool
  sd_noforwards :: bool
  sd_invert_media :: bool
  sd_peer :: input_peer
  sd_reply_to :: "input_reply_to option"
  sd_message :: string
  sd_reply_markup :: "tl_object option"
  sd_entities :: "tl_object list option"
  sd_send_as :: "input_peer option"
  sd_quick_reply_shortcut :: "input_quick_reply_shortcut option"
  sd_effect :: "int option"
  sd_rest :: tl_object

record affected_messages =
  am_pts :: int
  am_pts_count :: int

datatype updates_like =
    UpdatesLike updates
  | ShortSentMessage send_message short_sent_message
  | AffectedMessages affected_messages
  | AffectedChannelMessages affected_messages int "int list"
  | InvitedUsers updates tl_object
  | ChatInviteJoinResult updates
  | ConnectionClosed
  | MalformedUpdates

section \<open>Conversions\<close>

definition updates_to_combined :: "plain_updates \<Rightarrow> updates_combined" where
  "updates_to_combined us =
     \<lparr>uc_updates = pu_updates us, uc_users = pu_users us, uc_chats = pu_chats us,
      uc_date = pu_date us, uc_seq_start = pu_seq us, uc_seq = pu_seq us\<rparr>"

definition update_short :: "short_update \<Rightarrow> updates_combined" where
  "update_short short =
     \<lparr>uc_updates = [su_update short], uc_users = [], uc_chats = [],
      uc_date = su_date short, uc_seq_start = NO_SEQ, uc_seq = NO_SEQ\<rparr>"

text \<open>The fields all three built messages leave at their defaults.\<close>

definition base_message :: "int \<Rightarrow> peer \<Rightarrow> int \<Rightarrow> string \<Rightarrow> message_fields" where
  "base_message i p d text =
     \<lparr>m_out = False, m_mentioned = False, m_media_unread = False, m_silent = False, m_post = False,
      m_from_scheduled = False, m_legacy = False, m_edit_hide = False, m_pinned = False,
      m_noforwards = False, m_invert_media = False, m_offline = False,
      m_video_processing_pending = False, m_paid_suggested_post_stars = False,
      m_paid_suggested_post_ton = False, m_id = i, m_from_id = None, m_from_boosts_applied = None,
      m_from_rank = None, m_peer_id = p, m_saved_peer_id = None, m_fwd_from = None,
      m_via_bot_id = None, m_via_business_bot_id = None, m_guestchat_via_from = None,
      m_reply_to = None, m_date = d, m_message = text, m_media = None, m_reply_markup = None,
      m_entities = None, m_views = None, m_forwards = None, m_replies = None, m_edit_date = None,
      m_post_author = None, m_grouped_id = None, m_reactions = None, m_restriction_reason = None,
      m_ttl_period = None, m_quick_reply_shortcut_id = None, m_effect = None, m_factcheck = None,
      m_report_delivery_until_date = None, m_paid_message_stars = None, m_suggested_post = None,
      m_schedule_repeat_period = None, m_summary_from_language = None, m_rich_message = None\<rparr>"

definition update_short_message :: "short_message \<Rightarrow> updates_combined" where
  "update_short_message short =
     update_short
       \<lparr>su_update = NewMessage
          (Message ((base_message (sm_id short) (PeerUser (sm_user_id short)) (sm_date short) (sm_message short))
             \<lparr>m_out := sm_out short, m_mentioned := sm_mentioned short,
              m_media_unread := sm_media_unread short, m_silent := sm_silent short,
              m_fwd_from := sm_fwd_from short, m_via_bot_id := sm_via_bot_id short,
              m_reply_to := sm_reply_to short, m_entities := sm_entities short,
              m_ttl_period := sm_ttl_period short\<rparr>))
          (sm_pts short) (sm_pts_count short),
        su_date = sm_date short\<rparr>"

definition update_short_chat_message :: "short_chat_message \<Rightarrow> updates_combined" where
  "update_short_chat_message short =
     update_short
       \<lparr>su_update = NewMessage
          (Message ((base_message (sc_id short) (PeerChat (sc_chat_id short)) (sc_date short) (sc_message short))
             \<lparr>m_out := sc_out short, m_mentioned := sc_mentioned short,
              m_media_unread := sc_media_unread short, m_silent := sc_silent short,
              m_from_id := Some (PeerUser (sc_from_id short)),
              m_fwd_from := sc_fwd_from short, m_via_bot_id := sc_via_bot_id short,
              m_reply_to := sc_reply_to short, m_entities := sc_entities short,
              m_ttl_period := sc_ttl_period short\<rparr>))
          (sc_pts short) (sc_pts_count short),
        su_date = sc_date short\<rparr>"

definition update_short_sent_message :: "short_sent_message \<Rightarrow> updates_combined" where
  "update_short_sent_message short =
     update_short
       \<lparr>su_update = NewMessage (MessageEmpty (ss_id short) None) (ss_pts short) (ss_pts_count short),
        su_date = ss_date short\<rparr>"

fun adapt_updates :: "updates \<Rightarrow> gap + updates_combined" where
  "adapt_updates TooLong = Inl Gap"
| "adapt_updates (UpdateShortMessage short) = Inr (update_short_message short)"
| "adapt_updates (UpdateShortChatMessage short) = Inr (update_short_chat_message short)"
| "adapt_updates (UpdateShort short) = Inr (update_short short)"
| "adapt_updates (Combined combined) = Inr combined"
| "adapt_updates (Updates us) = Inr (updates_to_combined us)"
| "adapt_updates (UpdateShortSentMessage short) = Inr (update_short_sent_message short)"

fun peer_from_input_peer :: "input_peer \<Rightarrow> peer" where
  "peer_from_input_peer InputPeerEmpty = PeerUser 0"
| "peer_from_input_peer InputPeerSelf = PeerUser 0"
| "peer_from_input_peer (InputPeerChat c) = PeerChat c"
| "peer_from_input_peer (InputPeerUser u h) = PeerUser u"
| "peer_from_input_peer (InputPeerChannel c h) = PeerChannel c"
| "peer_from_input_peer (InputPeerUserFromMessage p m u) = PeerUser u"
| "peer_from_input_peer (InputPeerChannelFromMessage p m c) = PeerChannel c"

fun sent_reply_header :: "input_reply_to \<Rightarrow> message_reply_header option" where
  "sent_reply_header (InputReplyToMessage i) =
     Some (ReplyHeader
       \<lparr>reply_to_scheduled = False, forum_topic = False, quote = (ir_quote_offset i \<noteq> None),
        reply_to_ephemeral = False, reply_to_msg_id = Some (ir_reply_to_msg_id i),
        reply_to_peer_id = map_option peer_from_input_peer (ir_reply_to_peer_id i),
        reply_from = None, reply_media = None, reply_to_top_id = ir_top_msg_id i,
        quote_text = ir_quote_text i, quote_entities = ir_quote_entities i,
        quote_offset = ir_quote_offset i, todo_item_id = None, poll_option = None\<rparr>)"
| "sent_reply_header (InputReplyToStory p story) = Some (ReplyStoryHeader (peer_from_input_peer p) story)"
| "sent_reply_header (InputReplyToMonoForum p) = None"
| "sent_reply_header (InputReplyToEphemeralMessage i) = None"

fun shortcut_id :: "input_quick_reply_shortcut \<Rightarrow> int option" where
  "shortcut_id (ShortcutName s) = None"
| "shortcut_id (ShortcutId i) = Some i"

definition sent_message :: "send_message \<Rightarrow> short_sent_message \<Rightarrow> message_fields" where
  "sent_message request upd =
     (base_message (ss_id upd) (peer_from_input_peer (sd_peer request)) (ss_date upd) (sd_message request))
       \<lparr>m_out := ss_out upd, m_silent := sd_silent request, m_noforwards := sd_noforwards request,
        m_invert_media := sd_invert_media request,
        m_from_id := map_option peer_from_input_peer (sd_send_as request),
        m_reply_to := Option.bind (sd_reply_to request) sent_reply_header,
        m_media := ss_media upd, m_reply_markup := sd_reply_markup request,
        m_entities := (if ss_entities upd = None then sd_entities request else ss_entities upd),
        m_ttl_period := ss_ttl_period upd,
        m_quick_reply_shortcut_id := Option.bind (sd_quick_reply_shortcut request) shortcut_id,
        m_effect := sd_effect request\<rparr>"

fun adapt :: "updates_like \<Rightarrow> gap + updates_combined" where
  "adapt (UpdatesLike us) = adapt_updates us"
| "adapt (ShortSentMessage request upd) =
     Inr (update_short
       \<lparr>su_update = NewMessage (Message (sent_message request upd)) (ss_pts upd) (ss_pts_count upd),
        su_date = ss_date upd\<rparr>)"
| "adapt (AffectedMessages affected) =
     Inr (update_short \<lparr>su_update = DeleteMessages [] (am_pts affected) (am_pts_count affected), su_date = 0\<rparr>)"
| "adapt (AffectedChannelMessages affected channel message_ids) =
     Inr (update_short
       \<lparr>su_update = DeleteChannelMessages channel message_ids (am_pts affected) (am_pts_count affected),
        su_date = 0\<rparr>)"
| "adapt (InvitedUsers us missing) = adapt_updates us"
| "adapt (ChatInviteJoinResult us) = adapt_updates us"
| "adapt ConnectionClosed = Inl Gap"
| "adapt MalformedUpdates = Inl Gap"

section \<open>Channel differences\<close>

record channel_difference =
  cd_final :: bool
  cd_pts :: int
  cd_timeout :: "int option"
  cd_new_messages :: "message list"
  cd_other_updates :: "tl_update list"
  cd_chats :: "tl_object list"
  cd_users :: "tl_object list"

datatype dialog =
    Dialog peer "int option" tl_object
  | DialogFolder tl_object
  | DialogCommunity tl_object

datatype channel_difference_enum =
    ChannelDifferenceEmpty bool int "int option"
  | ChannelDifferenceTooLong bool "int option" dialog "message list" "tl_object list" "tl_object list"
  | ChannelDifference channel_difference

text \<open>\<open>None\<close> is a panic: a too-long difference whose dialog has no pts or is no dialog.\<close>

fun dialog_pts :: "dialog \<Rightarrow> int option" where
  "dialog_pts (Dialog p dpts r) = dpts"
| "dialog_pts (DialogFolder r) = None"
| "dialog_pts (DialogCommunity r) = None"

fun adapt_channel_difference :: "channel_difference_enum \<Rightarrow> channel_difference option" where
  "adapt_channel_difference (ChannelDifferenceEmpty fin p timeout) =
     Some \<lparr>cd_final = fin, cd_pts = p, cd_timeout = timeout, cd_new_messages = [],
           cd_other_updates = [], cd_chats = [], cd_users = []\<rparr>"
| "adapt_channel_difference (ChannelDifferenceTooLong fin timeout dlg ms chats users) =
     (case dialog_pts dlg of
        None \<Rightarrow> None
      | Some p \<Rightarrow> Some \<lparr>cd_final = fin, cd_pts = p, cd_timeout = timeout, cd_new_messages = [],
                        cd_other_updates = [], cd_chats = chats, cd_users = users\<rparr>)"
| "adapt_channel_difference (ChannelDifference diff) = Some diff"

section \<open>Adapted updates keep their position\<close>

text \<open>The position a received shape stands for, read off before any conversion.\<close>

fun announced :: "updates_like \<Rightarrow> (key \<times> int \<times> int) option" where
  "announced (UpdatesLike (UpdateShortMessage s)) = Some (Common, sm_pts s, sm_pts_count s)"
| "announced (UpdatesLike (UpdateShortChatMessage s)) = Some (Common, sc_pts s, sc_pts_count s)"
| "announced (UpdatesLike (UpdateShortSentMessage s)) = Some (Common, ss_pts s, ss_pts_count s)"
| "announced (ShortSentMessage r s) = Some (Common, ss_pts s, ss_pts_count s)"
| "announced (AffectedMessages a) = Some (Common, am_pts a, am_pts_count a)"
| "announced (AffectedChannelMessages a c ms) = Some (Channel c, am_pts a, am_pts_count a)"
| "announced _ = None"

lemmas short_defs = update_short_message_def update_short_chat_message_def update_short_sent_message_def
  update_short_def

text \<open>
  Converting a shortened update or an RPC result keeps its position: the converted batch is a
  single update in the right message box with exactly the pts and count that were announced, and
  it bypasses the sequence number check.
\<close>

theorem adapt_keeps_position:
  assumes "announced us = Some (k, p, c)"
  shows "\<exists>u users chats d. adapt us =
      Inr \<lparr>uc_updates = [u], uc_users = users, uc_chats = chats, uc_date = d,
           uc_seq_start = NO_SEQ, uc_seq = NO_SEQ\<rparr> \<and>
    raw_from_update u = Some (mk_info k p c)"
  using assms by (cases us rule: announced.cases) (auto simp: short_defs)

theorem adapt_keeps_position_witness:
  "\<exists>u users chats d. adapt (AffectedChannelMessages \<lparr>am_pts = 12, am_pts_count = 2\<rparr> 7 [1, 2]) =
      Inr \<lparr>uc_updates = [u], uc_users = users, uc_chats = chats, uc_date = d,
           uc_seq_start = NO_SEQ, uc_seq = NO_SEQ\<rparr> \<and>
    raw_from_update u = Some (mk_info (Channel 7) 12 2)"
  by (rule adapt_keeps_position) simp

end
