(* ===== verification/Mb_Store.thy ===== *)
theory Mb_Store
  imports Mb_Defs "HOL-Library.Multiset"
begin

text \<open>
  The entry table of the message boxes: a vector of live entries sorted by key and searched with
  \<open>binary_search_by_key\<close> (the \<open>entry\<close>, \<open>update_entry\<close>, \<open>force_update_entry\<close>, \<open>set_entry\<close> and
  \<open>pop_entry\<close> methods of \<open>grammers-session/src/message_box/mod.rs\<close>). The locale states what the
  rest of the code relies on: it behaves as a map from keys to entries.
\<close>

section \<open>Operations\<close>

definition find_entry :: "live_entry list \<Rightarrow> key \<Rightarrow> live_entry option" where
  "find_entry es k = (case binary_search_by_key entry_key k es of Inr i \<Rightarrow> Some (es ! i) | Inl i \<Rightarrow> None)"

definition modify_entry :: "live_entry list \<Rightarrow> key \<Rightarrow> (live_entry \<Rightarrow> live_entry) \<Rightarrow> live_entry list \<times> bool" where
  "modify_entry es k updater =
     (case binary_search_by_key entry_key k es of
        Inr i \<Rightarrow> (es[i := updater (es ! i)], True)
      | Inl i \<Rightarrow> (es, False))"

text \<open>The updater of \<open>force_update_entry\<close> also hands a result to its caller.\<close>

definition force_entry ::
    "live_entry list \<Rightarrow> live_entry \<Rightarrow> (live_entry \<Rightarrow> live_entry \<times> 'r) \<Rightarrow> live_entry list \<times> 'r" where
  "force_entry es e updater =
     (case binary_search_by_key entry_key (entry_key e) es of
        Inr i \<Rightarrow> (case updater (es ! i) of (e', r) \<Rightarrow> (es[i := e'], r))
      | Inl i \<Rightarrow> (case updater e of (e', r) \<Rightarrow> (take i es @ e' # drop i es, r)))"

definition put_entry :: "live_entry list \<Rightarrow> live_entry \<Rightarrow> live_entry list" where
  "put_entry es e =
     (case binary_search_by_key entry_key (entry_key e) es of
        Inr i \<Rightarrow> es[i := e]
      | Inl i \<Rightarrow> take i es @ e # drop i es)"

definition remove_entry :: "live_entry list \<Rightarrow> key \<Rightarrow> live_entry list \<times> live_entry option" where
  "remove_entry es k =
     (case binary_search_by_key entry_key k es of
        Inr i \<Rightarrow> (take i es @ drop (Suc i) es, Some (es ! i))
      | Inl i \<Rightarrow> (es, None))"

section \<open>The contract\<close>

text \<open>A table of entries with unique keys.\<close>

locale keyed_store =
  fixes inv :: "'s \<Rightarrow> bool"
    and key_of :: "'e \<Rightarrow> 'k"
    and find :: "'s \<Rightarrow> 'k \<Rightarrow> 'e option"
    and modify :: "'s \<Rightarrow> 'k \<Rightarrow> ('e \<Rightarrow> 'e) \<Rightarrow> 's"
    and put :: "'s \<Rightarrow> 'e \<Rightarrow> 's"
    and remove :: "'s \<Rightarrow> 'k \<Rightarrow> 's"
  assumes find_key: "inv s \<Longrightarrow> find s k = Some e \<Longrightarrow> key_of e = k"
    and inv_put: "inv s \<Longrightarrow> inv (put s e)"
    and find_put: "inv s \<Longrightarrow> find (put s e) = (find s)(key_of e \<mapsto> e)"
    and inv_remove: "inv s \<Longrightarrow> inv (remove s k)"
    and find_remove: "inv s \<Longrightarrow> find (remove s k) = (find s)(k := None)"
    and inv_modify: "inv s \<Longrightarrow> (\<And>e. key_of (f e) = key_of e) \<Longrightarrow> inv (modify s k f)"
    and find_modify: "inv s \<Longrightarrow> (\<And>e. key_of (f e) = key_of e) \<Longrightarrow>
      find (modify s k f) = (find s)(k := map_option f (find s k))"
begin

lemma dom_modify: "inv s \<Longrightarrow> (\<And>e. key_of (f e) = key_of e) \<Longrightarrow> dom (find (modify s k f)) = dom (find s)"
  by (auto simp: find_modify split: if_splits)

lemma dom_put: "inv s \<Longrightarrow> dom (find (put s e)) = insert (key_of e) (dom (find s))"
  by (simp add: find_put)

lemma modify_absent: "inv s \<Longrightarrow> (\<And>e. key_of (f e) = key_of e) \<Longrightarrow> find s k = None \<Longrightarrow> find (modify s k f) = find s"
  by (auto simp: find_modify)

lemma modify_other: "inv s \<Longrightarrow> (\<And>e. key_of (f e) = key_of e) \<Longrightarrow> k' \<noteq> k \<Longrightarrow> find (modify s k f) k' = find s k'"
  by (simp add: find_modify)

lemma remove_put: "inv s \<Longrightarrow> find (remove (put s e) (key_of e)) = (find s)(key_of e := None)"
  by (simp add: find_remove inv_put find_put)

end

section \<open>The sorted vector keeps the contract\<close>

lemma sorted_keys_distinct: "sorted_keys f xs \<Longrightarrow> distinct xs"
  by (metis distinct_map strict_sorted_iff)

lemma sorted_keys_list_update:
  assumes "sorted_keys f xs" "i < length xs" "f e = f (xs ! i)"
  shows "sorted_keys f (xs[i := e])" "set (xs[i := e]) = insert e {x \<in> set xs. f x \<noteq> f e}"
proof -
  have "map f (xs[i := e]) = map f xs" using assms by (simp add: map_update list_update_same_conv)
  then show "sorted_keys f (xs[i := e])" using assms(1) by simp
  have "{x \<in> set xs. f x \<noteq> f e} = set xs - {xs ! i}"
    using assms by (auto simp: in_set_conv_nth) (metis sorted_keys_nth_inject)
  then show "set (xs[i := e]) = insert e {x \<in> set xs. f x \<noteq> f e}"
    using set_update_distinct[OF sorted_keys_distinct[OF assms(1)] assms(2)] by simp
qed

lemma find_entry_iff:
  assumes "sorted_keys entry_key es"
  shows "find_entry es k = Some e \<longleftrightarrow> e \<in> set es \<and> entry_key e = k"
proof (cases "binary_search_by_key entry_key k es")
  case (Inl i)
  then have "k \<notin> entry_key ` set es" using binary_search_Inr_iff[OF assms, of k] by auto
  with Inl show ?thesis by (auto simp: find_entry_def)
next
  case (Inr i)
  note i = binary_search_Inr[OF assms Inr]
  have "e = es ! i" if "e \<in> set es" "entry_key e = k"
    using that i by (metis assms in_set_conv_nth sorted_keys_nth_inject)
  with Inr i show ?thesis by (auto simp: find_entry_def)
qed

lemma find_entry_None:
  "sorted_keys entry_key es \<Longrightarrow> find_entry es k = None \<longleftrightarrow> k \<notin> entry_key ` set es"
  by (force simp: find_entry_def binary_search_Inr_iff[symmetric] split: sum.splits)

lemma find_entry_eqI:
  assumes "sorted_keys entry_key es" "\<And>e. m k = Some e \<longleftrightarrow> e \<in> set es \<and> entry_key e = k"
  shows "find_entry es k = m k"
proof -
  have "find_entry es k = Some e \<longleftrightarrow> m k = Some e" for e
    using assms(2)[of e] find_entry_iff[OF assms(1), of k e] by simp
  then show ?thesis by (metis not_None_eq)
qed

lemma put_entry_sound:
  assumes s: "sorted_keys entry_key es"
  shows "sorted_keys entry_key (put_entry es e)"
    and "set (put_entry es e) = insert e {x \<in> set es. entry_key x \<noteq> entry_key e}"
proof -
  have "sorted_keys entry_key (put_entry es e) \<and> set (put_entry es e) = insert e {x \<in> set es. entry_key x \<noteq> entry_key e}"
  proof (cases "binary_search_by_key entry_key (entry_key e) es")
    case (Inl i)
    then have "entry_key e \<notin> entry_key ` set es" using binary_search_Inr_iff[OF s, of "entry_key e"] by simp
    then have "{x \<in> set es. entry_key x \<noteq> entry_key e} = set es" by (auto simp: image_iff)
    then show ?thesis
      using sorted_keys_insert_at[OF s Inl] set_insert_at[of i es e] Inl by (simp add: put_entry_def)
  next
    case (Inr i)
    note i = binary_search_Inr[OF s Inr]
    from sorted_keys_list_update[OF s i(1) i(2)[symmetric]] Inr show ?thesis by (simp add: put_entry_def)
  qed
  then show "sorted_keys entry_key (put_entry es e)"
    "set (put_entry es e) = insert e {x \<in> set es. entry_key x \<noteq> entry_key e}" by auto
qed

lemma modify_entry_found: "find_entry es k = Some e \<Longrightarrow> sorted_keys entry_key es \<Longrightarrow> entry_key (f e) = k \<Longrightarrow>
    modify_entry es k f = (put_entry es (f e), True)"
  by (auto simp: modify_entry_def find_entry_def put_entry_def split: sum.splits)

lemma modify_entry_absent: "find_entry es k = None \<Longrightarrow> modify_entry es k f = (es, False)"
  by (auto simp: modify_entry_def find_entry_def split: sum.splits)

lemma force_entry_put:
  assumes "sorted_keys entry_key es"
    and "updater (case find_entry es (entry_key e) of Some e0 \<Rightarrow> e0 | None \<Rightarrow> e) = (e', r)" "entry_key e' = entry_key e"
  shows "force_entry es e updater = (put_entry es e', r)"
  using assms by (auto simp: force_entry_def find_entry_def put_entry_def split: sum.splits)

lemma remove_entry_sound:
  assumes s: "sorted_keys entry_key es"
  shows "sorted_keys entry_key (fst (remove_entry es k))"
    and "set (fst (remove_entry es k)) = {x \<in> set es. entry_key x \<noteq> k}"
proof -
  have "sorted_keys entry_key (fst (remove_entry es k)) \<and>
      set (fst (remove_entry es k)) = {x \<in> set es. entry_key x \<noteq> k}"
  proof (cases "binary_search_by_key entry_key k es")
    case (Inl i)
    then have "k \<notin> entry_key ` set es" using binary_search_Inr_iff[OF s, of k] by simp
    then have "{x \<in> set es. entry_key x \<noteq> k} = set es" by (auto simp: image_iff)
    with s Inl show ?thesis by (simp add: remove_entry_def)
  next
    case (Inr i)
    note i = binary_search_Inr[OF s Inr]
    have es: "es = take i es @ es ! i # drop (Suc i) es" using i(1) by (simp add: id_take_nth_drop)
    then have "sorted_keys entry_key (take i es @ es ! i # drop (Suc i) es)" using s by simp
    then have *: "sorted_keys entry_key (take i es @ drop (Suc i) es)"
      "\<forall>x\<in>set (take i es @ drop (Suc i) es). entry_key x \<noteq> entry_key (es ! i)"
      by (auto simp: sorted_wrt_append)
    have "set es = insert (es ! i) (set (take i es @ drop (Suc i) es))"
      by (subst es) (simp only: set_append list.set Un_insert_right)
    then have "set (take i es @ drop (Suc i) es) = {x \<in> set es. entry_key x \<noteq> k}"
      using *(2) i(2) by auto
    with *(1) Inr show ?thesis by (simp add: remove_entry_def)
  qed
  then show "sorted_keys entry_key (fst (remove_entry es k))"
    "set (fst (remove_entry es k)) = {x \<in> set es. entry_key x \<noteq> k}" by auto
qed

lemma find_put_entry: "sorted_keys entry_key es \<Longrightarrow> find_entry (put_entry es e) = (find_entry es)(entry_key e \<mapsto> e)"
  by (rule ext, rule find_entry_eqI) (auto simp: put_entry_sound find_entry_iff)

lemma find_remove_entry:
  "sorted_keys entry_key es \<Longrightarrow> find_entry (fst (remove_entry es k)) = (find_entry es)(k := None)"
  by (rule ext, rule find_entry_eqI) (auto simp: remove_entry_sound find_entry_iff)

abbreviation update_in :: "live_entry list \<Rightarrow> key \<Rightarrow> (live_entry \<Rightarrow> live_entry) \<Rightarrow> live_entry list" where
  "update_in es k f \<equiv> fst (modify_entry es k f)"

lemma modify_entry_cases:
  fixes f :: "live_entry \<Rightarrow> live_entry"
  assumes "sorted_keys entry_key es" "\<And>e. entry_key (f e) = entry_key e"
  shows "update_in es k f = (case find_entry es k of None \<Rightarrow> es | Some e \<Rightarrow> put_entry es (f e))"
  using assms find_entry_iff[of es k] modify_entry_absent[of es k f] modify_entry_found[of es k _ f]
  by (auto split: option.splits)

interpretation es: keyed_store "sorted_keys entry_key" entry_key find_entry update_in put_entry
  "\<lambda>es k. fst (remove_entry es k)"
proof
  fix s :: "live_entry list" and k and e :: live_entry and f :: "live_entry \<Rightarrow> live_entry"
  assume s: "sorted_keys entry_key s"
  show "find_entry s k = Some e \<Longrightarrow> entry_key e = k" using find_entry_iff[OF s] by blast
  show "sorted_keys entry_key (put_entry s e)" by (rule put_entry_sound[OF s])
  show "find_entry (put_entry s e) = (find_entry s)(entry_key e \<mapsto> e)" by (rule find_put_entry[OF s])
  show "sorted_keys entry_key (fst (remove_entry s k))" by (rule remove_entry_sound[OF s])
  show "find_entry (fst (remove_entry s k)) = (find_entry s)(k := None)" by (rule find_remove_entry[OF s])
  assume f: "\<And>e. entry_key (f e) = entry_key e"
  show "sorted_keys entry_key (update_in s k f)"
    using s by (auto simp: modify_entry_cases[OF s f] put_entry_sound split: option.splits)
  show "find_entry (update_in s k f) = (find_entry s)(k := map_option f (find_entry s k))"
  proof (cases "find_entry s k")
    case None
    then show ?thesis by (auto simp: modify_entry_cases[OF s f])
  next
    case (Some e0)
    then have "entry_key e0 = k" using find_entry_iff[OF s] by blast
    with Some show ?thesis by (simp add: modify_entry_cases[OF s f] find_put_entry[OF s] f)
  qed
qed

lemma find_entry_map:
  fixes f :: "live_entry \<Rightarrow> live_entry"
  assumes "sorted_keys entry_key es" "\<And>e. entry_key (f e) = entry_key e"
  shows "find_entry (map f es) k = map_option f (find_entry es k)" "sorted_keys entry_key (map f es)"
proof -
  have keys: "map entry_key (map f es) = map entry_key es" using assms(2) by simp
  show s: "sorted_keys entry_key (map f es)" unfolding keys by (rule assms(1))
  have "find_entry es k = Some e \<Longrightarrow> find_entry (map f es) k = Some (f e)" for e
    using find_entry_iff[OF assms(1), of k] find_entry_iff[OF s, of k] assms(2) by auto
  moreover have "find_entry es k = None \<Longrightarrow> find_entry (map f es) k = None"
    using find_entry_None[OF assms(1)] find_entry_None[OF s] keys by (metis list.set_map)
  ultimately show "find_entry (map f es) k = map_option f (find_entry es k)" by (cases "find_entry es k") auto
qed

section \<open>Sorting a batch\<close>

text \<open>
  \<open>sort_updates_by_key\<close>: nothing when already sorted, the standard stable sort beyond 32 updates,
  and otherwise insertion of each update behind the last one that does not exceed it.
  \<open>partition_point\<close> of a slice that is partitioned by its predicate is the length of the prefix
  satisfying it.
\<close>

definition insert_step :: "('a \<Rightarrow> 'k::linorder) \<Rightarrow> nat \<Rightarrow> 'a list \<Rightarrow> 'a list" where
  "insert_step f i us =
     (let position = length (takeWhile (\<lambda>u. f u \<le> f (us ! i)) (take i us))
      in take position us @ us ! i # drop position (take i us) @ drop (Suc i) us)"

definition sort_updates_by_key :: "('a \<Rightarrow> 'k::linorder) \<Rightarrow> 'a list \<Rightarrow> 'a list" where
  "sort_updates_by_key f us =
     (if sorted (map f us) then us
      else if MAX_INSERTION_SORT_UPDATES < length us then sort_key f us
      else fold (insert_step f) [1..<length us] us)"

lemma insort_key_takeWhile:
  fixes x :: 'a and f :: "'a \<Rightarrow> 'k::linorder"
  assumes "sorted (map f xs)"
  defines "t \<equiv> takeWhile (\<lambda>u. f u \<le> f x) xs"
  shows "t @ x # drop (length t) xs = sort_key f (xs @ [x])"
proof (rule properties_for_sort_key[symmetric])
  let ?r = "drop (length t) xs"
  have xs: "xs = t @ ?r" by (simp add: t_def flip: dropWhile_eq_drop)
  have le: "f u \<le> f x" if "u \<in> set t" for u using that by (auto simp: t_def dest: set_takeWhileD)
  have srt: "sorted (map f (t @ ?r))" using assms(1) xs by simp
  have gt: "f x < f u" if "u \<in> set ?r" for u
  proof (cases ?r)
    case Nil
    with that show ?thesis by simp
  next
    case (Cons v vs)
    have "\<not> f v \<le> f x" using Cons hd_dropWhile[of "\<lambda>u. f u \<le> f x" xs]
      by (simp add: t_def flip: dropWhile_eq_drop)
    moreover have "f v \<le> f u" using srt that Cons by (auto simp: sorted_append)
    ultimately show ?thesis by simp
  qed
  show "mset (t @ x # ?r) = mset (xs @ [x])" using arg_cong[OF xs, of mset] by simp
  show "sorted (map f (t @ x # ?r))" using srt le gt by (auto simp: sorted_append intro: less_imp_le order_trans)
  fix k
  have "filter (\<lambda>y. f k = f y) ?r = []" if "f k = f x" using gt that by (fastforce simp: filter_empty_conv)
  then show "filter (\<lambda>y. f k = f y) (t @ x # ?r) = filter (\<lambda>y. f k = f y) (xs @ [x])"
    using arg_cong[OF xs, of "filter (\<lambda>y. f k = f y)"] by auto
qed

lemma sort_key_snoc: "sort_key f (sort_key f xs @ [x]) = sort_key f (xs @ [x])"
proof (rule properties_for_sort_key)
  fix k
  have "filter (\<lambda>y. f k = f y) (sort_key f ys) = filter (\<lambda>y. f k = f y) ys" for ys
    using sort_key_stable[of f "f k" ys] by (simp add: eq_commute)
  then show "filter (\<lambda>y. f k = f y) (sort_key f (xs @ [x])) = filter (\<lambda>y. f k = f y) (sort_key f xs @ [x])"
    by simp
qed simp_all

lemma insert_step_sorts:
  assumes "i < length us" "sorted (map f (take i us))"
  shows "take (Suc i) (insert_step f i us) = sort_key f (take (Suc i) us)"
    and "drop (Suc i) (insert_step f i us) = drop (Suc i) us"
    and "length (insert_step f i us) = length us"
proof -
  let ?t = "takeWhile (\<lambda>u. f u \<le> f (us ! i)) (take i us)"
  have lt: "length ?t \<le> i" by (metis length_take length_takeWhile_le min.cobounded2 order_trans)
  have "take (length ?t) us = ?t"
    using lt by (metis min.absorb1 take_take takeWhile_eq_take)
  then have step: "insert_step f i us = (?t @ us ! i # drop (length ?t) (take i us)) @ drop (Suc i) us"
    by (simp add: insert_step_def Let_def)
  have srt: "?t @ us ! i # drop (length ?t) (take i us) = sort_key f (take (Suc i) us)"
    using insort_key_takeWhile[OF assms(2)] assms(1) by (simp add: take_Suc_conv_app_nth)
  have len: "length (sort_key f (take (Suc i) us)) = Suc i" using assms(1) by simp
  show "take (Suc i) (insert_step f i us) = sort_key f (take (Suc i) us)"
    and "drop (Suc i) (insert_step f i us) = drop (Suc i) us" and "length (insert_step f i us) = length us"
    unfolding step srt using assms(1) by (simp_all add: len)
qed

lemma fold_insert_step:
  "n \<le> length us \<Longrightarrow> 1 \<le> n \<Longrightarrow>
   take n (fold (insert_step f) [1..<n] us) = sort_key f (take n us) \<and>
   drop n (fold (insert_step f) [1..<n] us) = drop n us"
proof (induction n)
  case 0
  then show ?case by simp
next
  case (Suc n)
  show ?case
  proof (cases "n = 0")
    case True
    then show ?thesis by (cases us) auto
  next
    case False
    let ?vs = "fold (insert_step f) [1..<n] us"
    have IH: "take n ?vs = sort_key f (take n us)" "drop n ?vs = drop n us"
      using Suc False by simp_all
    have len: "length ?vs = length us" using IH Suc.prems(1)
      by (metis append_take_drop_id length_append length_sort)
    have n: "n < length ?vs" using Suc.prems(1) len by simp
    have nth: "?vs ! n = us ! n" using IH(2) Suc.prems(1) len by (metis Cons_nth_drop_Suc Suc_le_lessD list.inject)
    have "take (Suc n) ?vs = sort_key f (take n us) @ [us ! n]"
      unfolding take_Suc_conv_app_nth[OF n] IH(1) nth ..
    moreover have "take (Suc n) us = take n us @ [us ! n]"
      using Suc.prems(1) by (simp add: take_Suc_conv_app_nth)
    moreover have "sorted (map f (take n ?vs))" unfolding IH(1) by simp
    ultimately have "take (Suc n) (insert_step f n ?vs) = sort_key f (take (Suc n) us)"
      using insert_step_sorts(1)[OF n, of f] sort_key_snoc[of f "take n us" "us ! n"] by (simp only: )
    moreover have "drop (Suc n) (insert_step f n ?vs) = drop (Suc n) us"
    proof -
      have "drop (Suc n) (insert_step f n ?vs) = drop (Suc n) ?vs"
        by (rule insert_step_sorts(2)[OF n]) (simp only: IH(1) sorted_sort_key)
      also have "\<dots> = drop 1 (drop n ?vs)" by simp
      also have "\<dots> = drop (Suc n) us" unfolding IH(2) by simp
      finally show ?thesis .
    qed
    moreover have "fold (insert_step f) [1..<Suc n] us = insert_step f n ?vs"
      using False by simp
    ultimately show ?thesis by simp
  qed
qed

lemma sort_updates_by_key_eq: "sort_updates_by_key f us = sort_key f us"
proof (cases "sorted (map f us)")
  case True
  then show ?thesis by (simp add: sort_updates_by_key_def sort_key_id_if_sorted)
next
  case False
  then have "1 \<le> length us" by (cases us) auto
  with fold_insert_step[of "length us" us f]
  have "fold (insert_step f) [1..<length us] us = sort_key f us" by (metis append.right_neutral append_take_drop_id drop_all order_refl take_all)
  with False show ?thesis by (simp only: sort_updates_by_key_def if_False if_cancel)
qed

end
