(* ===== verification/Message_Boxes.thy ===== *)
theory Message_Boxes
  imports Mb_Adaptor Mb_Store
begin

text \<open>
  The operations of \<open>grammers-session/src/message_box/mod.rs\<close>, in the order of the source. Each
  takes the clock reading \<open>now\<close> of its call; an operation of the source that reads the clock more
  than once is modelled with all its readings equal. A panic (\<open>expect\<close>, or an underflow of a
  counter) is the result \<open>None\<close>; \<open>Err(Gap)\<close> is \<open>Inl Gap\<close>. Logging has no effect and is left out,
  and so are \<open>debug_assert\<close>s, which release builds do not have.
\<close>

section \<open>Helpers\<close>

definition hold_channel_update :: "(int \<times> tl_update) list \<times> bool \<Rightarrow> int \<Rightarrow> tl_update \<Rightarrow> (int \<times> tl_update) list \<times> bool" where
  "hold_channel_update st channel u =
     (case st of (held, overflowed) \<Rightarrow>
        if length held = MAX_HELD_UPDATES then (tl held @ [(channel, u)], True)
        else (held @ [(channel, u)], overflowed))"

definition next_updates_deadline :: "instant \<Rightarrow> instant" where
  "next_updates_deadline now = now + NO_UPDATES_TIMEOUT"

definition update_sort_key :: "tl_update \<Rightarrow> int" where
  "update_sort_key u =
     (case from_update u of
        Some info \<Rightarrow> i32_saturating_sub (info_pts info) (info_count info)
      | None \<Rightarrow> NO_PTS)"

definition retain_valid_updates :: "tl_update list \<Rightarrow> tl_update list" where
  "retain_valid_updates us = filter valid_update us"

definition effective_deadline :: "live_entry \<Rightarrow> instant" where
  "effective_deadline e =
     (let due = (case possible_gap e of Some gap \<Rightarrow> min (gap_deadline gap) (deadline e) | None \<Rightarrow> deadline e)
      in case retry_not_before e of Some not_before \<Rightarrow> max due not_before | None \<Rightarrow> due)"

definition channel_retry_delay :: "nat \<Rightarrow> duration" where
  "channel_retry_delay failures = min (1000 * 2 ^ min (failures - 1) 6) CHANNEL_RETRY_DELAY_LIMIT"

definition u8_saturating_succ :: "nat \<Rightarrow> nat" where
  "u8_saturating_succ n = min 255 (n + 1)"

definition mk_entry :: "key \<Rightarrow> int \<Rightarrow> instant \<Rightarrow> bool \<Rightarrow> live_entry" where
  "mk_entry k p dl pending =
     \<lparr>entry_key = k, pts = p, deadline = dl, recovery_deferred = False, recovery_pending = pending,
      recovery_deferrals = 0, recovery_failures = 0, retry_not_before = None, possible_gap = None\<rparr>"

section \<open>Creation, querying, and setting base state\<close>

definition new_boxes :: "instant \<Rightarrow> message_boxes" where
  "new_boxes now =
     \<lparr>entries = [], date = NO_DATE, seq = NO_SEQ, getting_diff_for = [], ready_diff_count = 0,
      exhausted_channels = {}, held_updates = [], held_release_ready = False, held_overflowed = False,
      next_deadline = next_updates_deadline now\<rparr>"

text \<open>The repairs \<open>load\<close> makes to a saved state before building entries from it.\<close>

definition repair_state :: "updates_state \<Rightarrow> updates_state" where
  "repair_state st =
     (let s1 = (if us_pts st < NO_PTS \<or> us_qts st < NO_PTS \<or> us_date st < NO_DATE \<or> us_seq st < NO_SEQ
                then st\<lparr>us_pts := max (us_pts st) NO_PTS, us_qts := max (us_qts st) NO_PTS,
                        us_date := max (us_date st) NO_DATE, us_seq := max (us_seq st) NO_SEQ\<rparr>
                else st);
          s2 = s1\<lparr>us_channels := filter (\<lambda>c. valid_channel (chan_id c) \<and> NO_PTS \<le> chan_pts c) (us_channels s1)\<rparr>
      in if us_pts s2 = NO_PTS \<and> NO_PTS < us_qts s2
         then s2\<lparr>us_qts := NO_PTS, us_seq := NO_SEQ, us_date := NO_DATE\<rparr>
         else s2)"

fun dedup_entries :: "live_entry list \<Rightarrow> live_entry list" where
  "dedup_entries (earlier # later # es) =
     (if entry_key later = entry_key earlier
      then dedup_entries (earlier\<lparr>pts := min (pts earlier) (pts later)\<rparr> # es)
      else earlier # dedup_entries (later # es))"
| "dedup_entries es = es"

definition saved_entries :: "instant \<Rightarrow> updates_state \<Rightarrow> live_entry list" where
  "saved_entries dl st =
     (if NO_PTS < us_pts st then [mk_entry Common (max (us_pts st) NO_PTS) dl True] else []) @
     (if NO_PTS < us_qts st then [mk_entry Secondary (us_qts st) dl True] else []) @
     map (\<lambda>c. mk_entry (Channel (chan_id c)) (chan_pts c) dl True)
       (filter (\<lambda>c. 0 < chan_id c \<and> NO_PTS < chan_pts c) (us_channels st))"

definition load :: "instant \<Rightarrow> updates_state \<Rightarrow> message_boxes" where
  "load now state =
     (let st = repair_state state;
          dl = next_updates_deadline now;
          es = dedup_entries (sort_key entry_key (saved_entries dl st));
          queue = map entry_key es
      in \<lparr>entries = es, date = us_date st, seq = us_seq st, getting_diff_for = queue,
          ready_diff_count = length queue, exhausted_channels = {}, held_updates = [],
          held_release_ready = False, held_overflowed = False, next_deadline = dl\<rparr>)"

definition try_load :: "instant \<Rightarrow> updates_state \<Rightarrow> gap + message_boxes" where
  "try_load now st =
     (if us_pts st < 0 \<or> us_qts st < 0 \<or> us_seq st < 0 \<or> us_date st < 0 \<or>
         list_ex (\<lambda>c. \<not> valid_channel (chan_id c) \<or> chan_pts c < 0) (us_channels st)
      then Inl Gap else Inr (load now st))"

definition entry :: "message_boxes \<Rightarrow> key \<Rightarrow> live_entry option" where
  "entry b k = find_entry (entries b) k"

definition is_getting_diff :: "message_boxes \<Rightarrow> key \<Rightarrow> bool" where
  "is_getting_diff b k = (case entry b k of Some e \<Rightarrow> recovery_pending e | None \<Rightarrow> False)"

definition update_entry :: "message_boxes \<Rightarrow> key \<Rightarrow> (live_entry \<Rightarrow> live_entry) \<Rightarrow> message_boxes \<times> bool" where
  "update_entry b k updater =
     (case modify_entry (entries b) k updater of (es, found) \<Rightarrow> (b\<lparr>entries := es\<rparr>, found))"

definition force_update_entry ::
    "message_boxes \<Rightarrow> live_entry \<Rightarrow> (live_entry \<Rightarrow> live_entry \<times> 'r) \<Rightarrow> message_boxes \<times> 'r" where
  "force_update_entry b e updater =
     (case force_entry (entries b) e updater of (es, r) \<Rightarrow> (b\<lparr>entries := es\<rparr>, r))"

definition set_entry :: "message_boxes \<Rightarrow> live_entry \<Rightarrow> message_boxes" where
  "set_entry b e = b\<lparr>entries := put_entry (entries b) e\<rparr>"

definition set_pts :: "instant \<Rightarrow> message_boxes \<Rightarrow> key \<Rightarrow> int \<Rightarrow> message_boxes" where
  "set_pts now b k p =
     (case update_entry b k (\<lambda>e. e\<lparr>pts := p\<rparr>) of
        (b', True) \<Rightarrow> b'
      | (b', False) \<Rightarrow> set_entry b' (mk_entry k p (next_updates_deadline now) False))"

definition pop_entry :: "message_boxes \<Rightarrow> key \<Rightarrow> message_boxes" where
  "pop_entry b k = b\<lparr>entries := fst (remove_entry (entries b) k)\<rparr>"

fun channel_state_of :: "live_entry \<Rightarrow> channel_state option" where
  "channel_state_of e =
     (case entry_key e of Channel i \<Rightarrow> Some \<lparr>chan_id = i, chan_pts = pts e\<rparr> | _ \<Rightarrow> None)"

definition session_state :: "message_boxes \<Rightarrow> updates_state" where
  "session_state b =
     \<lparr>us_pts = (case entry b Common of Some e \<Rightarrow> pts e | None \<Rightarrow> NO_PTS),
      us_qts = (case entry b Secondary of Some e \<Rightarrow> pts e | None \<Rightarrow> NO_PTS),
      us_date = date b, us_seq = seq b,
      us_channels = List.map_filter channel_state_of (entries b)\<rparr>"

definition boxes_empty :: "message_boxes \<Rightarrow> bool" where
  "boxes_empty b \<longleftrightarrow> entries b = []"

definition has_primary_state :: "message_boxes \<Rightarrow> bool" where
  "has_primary_state b \<longleftrightarrow> entry b Common \<noteq> None"

text \<open>Moving a channel's gap to the held updates, as \<open>check_deadlines\<close> and \<open>try_begin_get_diff\<close> do.\<close>

definition hold_gap :: "message_boxes \<Rightarrow> key \<Rightarrow> possible_gap option \<Rightarrow> message_boxes" where
  "hold_gap b k g =
     (case (k, g) of
        (Channel channel, Some gap) \<Rightarrow>
          (case fold (\<lambda>u st. hold_channel_update st channel u) (gap_updates gap)
                  (held_updates b, held_overflowed b) of
             (held, overflowed) \<Rightarrow> b\<lparr>held_updates := held, held_overflowed := overflowed\<rparr>)
      | _ \<Rightarrow> b)"

definition enqueue_ready :: "message_boxes \<Rightarrow> key \<Rightarrow> message_boxes" where
  "enqueue_ready b k =
     b\<lparr>ready_diff_count := ready_diff_count b + 1, getting_diff_for := getting_diff_for b @ [k]\<rparr>"

definition check_entry :: "instant \<Rightarrow> live_entry \<Rightarrow> message_boxes \<Rightarrow> live_entry \<times> message_boxes" where
  "check_entry now e b =
     (let (e1, b1) = (if recovery_deferred e \<and> deadline e \<le> now
                      then (e\<lparr>recovery_deferred := False\<rparr>, enqueue_ready b (entry_key e))
                      else (e, b))
      in if effective_deadline e1 \<le> now \<and> \<not> recovery_pending e1
         then (e1\<lparr>possible_gap := None, recovery_deferred := False, recovery_pending := True,
                  recovery_deferrals := 0\<rparr>,
               enqueue_ready (hold_gap b1 (entry_key e1) (possible_gap e1)) (entry_key e1))
         else (e1, b1))"

fun check_entries :: "instant \<Rightarrow> live_entry list \<Rightarrow> message_boxes \<Rightarrow> live_entry list \<times> message_boxes" where
  "check_entries now [] b = ([], b)"
| "check_entries now (e # es) b =
     (case check_entry now e b of
        (e', b1) \<Rightarrow> (case check_entries now es b1 of (es', b2) \<Rightarrow> (e' # es', b2)))"

definition waiting_deadlines :: "live_entry list \<Rightarrow> instant list" where
  "waiting_deadlines es =
     map effective_deadline (filter (\<lambda>e. \<not> recovery_pending e \<or> recovery_deferred e) es)"

definition check_deadlines :: "instant \<Rightarrow> message_boxes \<Rightarrow> message_boxes \<times> instant" where
  "check_deadlines now b =
     (let ready_deadline = min (next_deadline b) now in
      if now < next_deadline b
      then (b, if ready_diff_count b \<noteq> 0 then ready_deadline else next_deadline b)
      else
        let (es, b1) = check_entries now (entries b) b;
            ds = waiting_deadlines es;
            b2 = b1\<lparr>entries := es,
                    next_deadline := (if ds = [] then next_updates_deadline now else Min (set ds))\<rparr>
        in (b2, if ready_diff_count b2 \<noteq> 0 then ready_deadline else next_deadline b2))"

definition reset_deadline :: "message_boxes \<Rightarrow> key \<Rightarrow> instant \<Rightarrow> message_boxes" where
  "reset_deadline b k dl =
     (let old_deadline = (case entry b k of Some e \<Rightarrow> deadline e | None \<Rightarrow> next_deadline b);
          b1 = fst (update_entry b k (\<lambda>e. e\<lparr>deadline := dl\<rparr>))
      in if next_deadline b1 = old_deadline
         then b1\<lparr>next_deadline := fold (\<lambda>e d. min d (effective_deadline e)) (entries b1) dl\<rparr>
         else b1\<lparr>next_deadline := min (next_deadline b1) dl\<rparr>)"

definition reset_timeout :: "instant \<Rightarrow> message_boxes \<Rightarrow> key \<Rightarrow> int option \<Rightarrow> message_boxes" where
  "reset_timeout now b k timeout =
     reset_deadline b k
       (case timeout of
          Some t \<Rightarrow> if 0 \<le> t then now + 1000 * nat t else next_updates_deadline now
        | None \<Rightarrow> next_updates_deadline now)"

text \<open>\<open>tl::types::updates::State\<close>, without its unread count.\<close>

record account_state =
  as_pts :: int
  as_qts :: int
  as_date :: int
  as_seq :: int

definition set_state :: "instant \<Rightarrow> message_boxes \<Rightarrow> account_state \<Rightarrow> message_boxes" where
  "set_state now b st =
     (let dl = next_updates_deadline now;
          b1 = set_entry b (mk_entry Common (as_pts st) dl False);
          b2 = set_entry b1 (mk_entry Secondary (as_qts st) dl False)
      in b2\<lparr>date := as_date st, seq := as_seq st, next_deadline := min (next_deadline b2) dl\<rparr>)"

definition try_set_channel_state :: "instant \<Rightarrow> message_boxes \<Rightarrow> int \<Rightarrow> int \<Rightarrow> message_boxes" where
  "try_set_channel_state now b channel p =
     (if entry b (Channel channel) = None
      then set_entry b (mk_entry (Channel channel) p (next_updates_deadline now) False)
      else b)"

definition begin_entry :: "instant \<Rightarrow> live_entry \<Rightarrow> live_entry" where
  "begin_entry now e =
     (let e1 = e\<lparr>possible_gap := None, recovery_pending := True, recovery_deferred := False,
                 recovery_deferrals := 0\<rparr>
      in case retry_not_before e of
           Some not_before \<Rightarrow>
             if now < not_before then e1\<lparr>recovery_deferred := True, deadline := not_before\<rparr> else e1
         | None \<Rightarrow> e1)"

definition try_begin_get_diff :: "instant \<Rightarrow> message_boxes \<Rightarrow> key \<Rightarrow> message_boxes" where
  "try_begin_get_diff now b k =
     (if is_getting_diff b k then b
      else case entry b k of
             None \<Rightarrow> b
           | Some e \<Rightarrow>
               let b1 = hold_gap (fst (update_entry b k (begin_entry now))) k (possible_gap e)
               in case retry_not_before e of
                    Some not_before \<Rightarrow>
                      if now < not_before then b1\<lparr>next_deadline := min (next_deadline b1) not_before\<rparr>
                      else enqueue_ready b1 k
                  | None \<Rightarrow> enqueue_ready b1 k)"

text \<open>Taking a key out of the queue of ready work: it must be there and be counted.\<close>

definition dequeue_ready :: "message_boxes \<Rightarrow> key \<Rightarrow> message_boxes option" where
  "dequeue_ready b k =
     (if k \<in> set (getting_diff_for b) \<and> 0 < ready_diff_count b
      then Some (b\<lparr>getting_diff_for := remove1 k (getting_diff_for b),
                   ready_diff_count := ready_diff_count b - 1\<rparr>)
      else None)"

fun is_channel :: "key \<Rightarrow> bool" where
  "is_channel (Channel i) = True"
| "is_channel _ = False"

definition try_end_get_diff :: "instant \<Rightarrow> message_boxes \<Rightarrow> key \<Rightarrow> message_boxes option" where
  "try_end_get_diff now b k =
     (case entry b k of
        None \<Rightarrow> Some b
      | Some e \<Rightarrow>
          if \<not> recovery_pending e then Some b
          else do {
            b1 \<leftarrow> (if recovery_deferred e then Some b else dequeue_ready b k);
            let b2 = fst (update_entry b1 k (\<lambda>e. e\<lparr>recovery_pending := False, recovery_deferred := False,
                                                   recovery_deferrals := 0\<rparr>));
            let b3 = reset_deadline b2 k (next_updates_deadline now);
            Some (b3\<lparr>held_release_ready := held_release_ready b3 \<or> is_channel k\<rparr>)
          })"

section \<open>Processing updates\<close>

text \<open>
  The inner loop over an entry's gap: updates are popped while they continue the position, those
  already covered are dropped, and the first one beyond it stops the loop. The list is the vector
  from its end, so its head is popped first.
\<close>

fun drain_gap :: "int \<Rightarrow> tl_update list \<Rightarrow> (int \<times> (tl_update \<times> pts_info) list \<times> tl_update list) option" where
  "drain_gap p [] = Some (p, [], [])"
| "drain_gap p (u # us) =
     (case from_update u of
        None \<Rightarrow> None
      | Some info \<Rightarrow>
          if p + info_count info = info_pts info
          then map_option (\<lambda>(p', out, left). (p', (u, info) # out, left)) (drain_gap (info_pts info) us)
          else if p + info_count info > info_pts info then drain_gap p us
          else Some (p, [], u # us))"

definition receive_update :: "instant \<Rightarrow> instant \<Rightarrow> tl_update \<Rightarrow> pts_info \<Rightarrow> live_entry \<Rightarrow> live_entry \<times> (tl_update \<times> pts_info) list" where
  "receive_update now dl u info e =
     (if pts e + info_count info = info_pts info
      then (e\<lparr>pts := info_pts info, deadline := dl\<rparr>, [(u, info)])
      else if pts e + info_count info > info_pts info then (e, [])
      else
        let gap = (case possible_gap e of
                     Some gap \<Rightarrow> gap
                   | None \<Rightarrow> \<lparr>gap_deadline = now + POSSIBLE_GAP_TIMEOUT, gap_updates = []\<rparr>)
        in (e\<lparr>possible_gap := Some (if length (gap_updates gap) < MAX_HELD_UPDATES
                                     then gap\<lparr>gap_updates := gap_updates gap @ [u]\<rparr> else gap)\<rparr>, []))"

definition close_gap :: "live_entry \<Rightarrow> (live_entry \<times> (tl_update \<times> pts_info) list \<times> instant option) option" where
  "close_gap e =
     (case possible_gap e of
        None \<Rightarrow> Some (e, [], None)
      | Some gap \<Rightarrow>
          let sorted = sort_updates_by_key (\<lambda>u. - update_sort_key u) (gap_updates gap)
          in case drain_gap (pts e) (rev sorted) of
               None \<Rightarrow> None
             | Some (p, out, left) \<Rightarrow>
                 Some (if left = [] then (e\<lparr>pts := p, possible_gap := None\<rparr>, out, None)
                       else (e\<lparr>pts := p, possible_gap := Some (gap\<lparr>gap_updates := rev left\<rparr>)\<rparr>, out,
                             Some (gap_deadline gap))))"

definition apply_to_entry :: "instant \<Rightarrow> instant \<Rightarrow> tl_update \<Rightarrow> pts_info \<Rightarrow> live_entry \<Rightarrow>
    (live_entry \<times> (tl_update \<times> pts_info) list \<times> instant option) option" where
  "apply_to_entry now dl u info e =
     (case receive_update now dl u info e of
        (e1, out1) \<Rightarrow> map_option (\<lambda>(e2, out2, gd). (e2, out1 @ out2, gd)) (close_gap e1))"

record loop_state =
  boxes :: message_boxes
  results :: "(tl_update \<times> update_state) list"
  unresolved :: bool

text \<open>
  One round of the loop over a batch: \<open>Inl\<close> leaves the function with \<open>Err(Gap)\<close>. First the
  announcement that a channel has too many updates, then every other update.
\<close>

definition process_too_long :: "instant \<Rightarrow> int \<Rightarrow> int option \<Rightarrow> message_boxes \<Rightarrow> message_boxes" where
  "process_too_long now channel upts b =
     (let k = Channel channel in
      if is_getting_diff b k then b
      else try_begin_get_diff now
             (case upts of
                Some p \<Rightarrow> if NO_PTS < p \<and> entry b k = None
                           then set_entry b (mk_entry k p (next_updates_deadline now) False) else b
              | None \<Rightarrow> b) k)"

text \<open>A socket update of a box that is being recovered is postponed, and kept if it is a channel's.\<close>

definition postpone :: "message_boxes \<Rightarrow> key \<Rightarrow> tl_update \<Rightarrow> message_boxes" where
  "postpone b k u =
     (case k of
        Channel channel \<Rightarrow>
          (case hold_channel_update (held_updates b, held_overflowed b) channel u of
             (held, overflowed) \<Rightarrow> b\<lparr>held_updates := held, held_overflowed := overflowed\<rparr>)
      | _ \<Rightarrow> b)"

definition process_update ::
    "instant \<Rightarrow> key list \<Rightarrow> (message_box option \<Rightarrow> update_state) \<Rightarrow> tl_update \<Rightarrow> loop_state \<Rightarrow>
     (message_boxes + loop_state) option" where
  "process_update now force mk_state u st =
     (let b = boxes st; dl = next_updates_deadline now in
      case from_update u of
        None \<Rightarrow> Some (Inr (st\<lparr>results := results st @ [(u, mk_state None)]\<rparr>))
      | Some info \<Rightarrow>
        if info_count info < 0 \<or> info_pts info < info_count info
        then Some (Inl (try_begin_get_diff now b (info_key info)))
        else if info_key info \<in> set force
        then Some (Inr (st\<lparr>boxes := reset_deadline b (info_key info) dl,
                           results := results st @ [(u, mk_state (Some (message_box_of info)))]\<rparr>))
        else if is_getting_diff b (info_key info)
        then Some (Inr (st\<lparr>unresolved := True, boxes := postpone b (info_key info) u\<rparr>))
        else if info_key info = Secondary \<and> entry b Common = None
        then Some (Inr (st\<lparr>results := results st @ [(u, mk_state None)]\<rparr>))
        else
          (case force_update_entry b (mk_entry (info_key info) (info_pts info - info_count info) dl False)
                  (\<lambda>e. case apply_to_entry now dl u info e of
                          None \<Rightarrow> (e, None)
                        | Some (e', out, gd) \<Rightarrow> (e', Some (out, gd))) of
             (b1, None) \<Rightarrow> None
           | (b1, Some (out, gd)) \<Rightarrow>
               Some (Inr \<lparr>boxes = b1\<lparr>next_deadline :=
                             min (next_deadline b1) (case gd of Some d \<Rightarrow> d | None \<Rightarrow> dl)\<rparr>,
                          results = results st @ map (\<lambda>(v, i). (v, mk_state (Some (message_box_of i)))) out,
                          unresolved = (unresolved st \<or> gd \<noteq> None)\<rparr>)))"

definition process_one ::
    "instant \<Rightarrow> key list \<Rightarrow> (message_box option \<Rightarrow> update_state) \<Rightarrow> tl_update \<Rightarrow> loop_state \<Rightarrow>
     (message_boxes + loop_state) option" where
  "process_one now force mk_state u st =
     (case u of
        ChannelTooLong channel upts \<Rightarrow> Some (Inr (st\<lparr>boxes := process_too_long now channel upts (boxes st)\<rparr>))
      | _ \<Rightarrow> process_update now force mk_state u st)"

fun process_loop ::
    "instant \<Rightarrow> key list \<Rightarrow> (message_box option \<Rightarrow> update_state) \<Rightarrow> tl_update list \<Rightarrow> loop_state \<Rightarrow>
     (message_boxes + loop_state) option" where
  "process_loop now force mk_state [] st = Some (Inr st)"
| "process_loop now force mk_state (u # us) st =
     (case process_one now force mk_state u st of
        None \<Rightarrow> None
      | Some (Inl b) \<Rightarrow> Some (Inl b)
      | Some (Inr st') \<Rightarrow> process_loop now force mk_state us st')"

definition process_updates_inner ::
    "instant \<Rightarrow> key list \<Rightarrow> message_boxes \<Rightarrow> updates_like \<Rightarrow>
     (message_boxes \<times> (gap + update_and_peers)) option" where
  "process_updates_inner now force b ul =
     (case adapt ul of
        Inl Gap \<Rightarrow> Some (try_begin_get_diff now b Common, Inl Gap)
      | Inr uc \<Rightarrow>
        if uc_date uc < 0 \<or> uc_seq uc < 0 \<or> uc_seq_start uc < 0
        then Some (try_begin_get_diff now b Common, Inl Gap)
        else
        let account_pending = (force = [] \<and> (is_getting_diff b Common \<or> is_getting_diff b Secondary));
            new_date = (if uc_date uc = NO_DATE \<or> account_pending then date b else uc_date uc);
            new_seq = (if uc_seq uc = NO_SEQ \<or> account_pending then seq b else uc_seq uc);
            mk_state = (\<lambda>mb. \<lparr>state_date = new_date, state_seq = new_seq, state_box = mb\<rparr>)
        in
        if uc_seq_start uc \<noteq> NO_SEQ \<and> \<not> account_pending \<and> seq b + 1 > uc_seq_start uc
        then Some (b, Inr ([], uc_users uc, uc_chats uc))
        else if uc_seq_start uc \<noteq> NO_SEQ \<and> \<not> account_pending \<and> seq b + 1 < uc_seq_start uc
        then Some (try_begin_get_diff now b Common, Inl Gap)
        else if list_ex (\<lambda>u. \<not> valid_update u) (uc_updates uc)
        then Some (try_begin_get_diff now b Common, Inl Gap)
        else
          (case process_loop now force mk_state (sort_updates_by_key update_sort_key (uc_updates uc))
                  \<lparr>boxes = b, results = [], unresolved = False\<rparr> of
             None \<Rightarrow> None
           | Some (Inl b') \<Rightarrow> Some (b', Inl Gap)
           | Some (Inr st) \<Rightarrow>
               Some (if results st \<noteq> [] \<and> \<not> unresolved st
                     then (boxes st)\<lparr>date := new_date, seq := new_seq\<rparr> else boxes st,
                     Inr (results st, uc_users uc, uc_chats uc))))"

definition process_updates ::
    "instant \<Rightarrow> message_boxes \<Rightarrow> updates_like \<Rightarrow> (message_boxes \<times> (gap + update_and_peers)) option" where
  "process_updates now b ul = process_updates_inner now [] b ul"

abbreviation unsequenced :: "tl_update list \<Rightarrow> tl_object list \<Rightarrow> tl_object list \<Rightarrow> updates_like" where
  "unsequenced us users chats \<equiv>
     UpdatesLike (Updates \<lparr>pu_updates = us, pu_users = users, pu_chats = chats, pu_date = NO_DATE, pu_seq = NO_SEQ\<rparr>)"

text \<open>An update the entry's position already covers, as \<open>take_released_updates\<close> tests it.\<close>

definition covered_by :: "live_entry \<Rightarrow> tl_update \<Rightarrow> bool" where
  "covered_by e u = (case from_update u of
      Some info \<Rightarrow> pts e + info_count info > info_pts info
    | None \<Rightarrow> False)"

fun still_held :: "message_boxes \<Rightarrow> int \<times> tl_update \<Rightarrow> bool" where
  "still_held b (channel, u) = is_getting_diff b (Channel channel)"

fun to_release :: "message_boxes \<Rightarrow> int \<times> tl_update \<Rightarrow> bool" where
  "to_release b (channel, u) =
     (\<not> is_getting_diff b (Channel channel) \<and>
      \<not> (case entry b (Channel channel) of Some e \<Rightarrow> covered_by e u | None \<Rightarrow> False))"

definition take_released_updates :: "instant \<Rightarrow> message_boxes \<Rightarrow> (message_boxes \<times> update_and_peers option) option" where
  "take_released_updates now b =
     (if \<not> held_release_ready b then Some (b, None)
      else
        let released = map snd (filter (to_release b) (held_updates b));
            b1 = b\<lparr>held_release_ready := False, held_overflowed := False,
                   held_updates := filter (still_held b) (held_updates b)\<rparr>
        in if released = [] then Some (b1, None)
           else (case process_updates_inner now [] b1 (unsequenced released [] []) of
                   None \<Rightarrow> None
                 | Some (b2, Inl Gap) \<Rightarrow> Some (b2, None)
                 | Some (b2, Inr r) \<Rightarrow> Some (b2, Some r)))"

section \<open>Account difference\<close>

text \<open>The fields of the request that are not constant.\<close>

record get_difference_request =
  gd_pts :: int
  gd_date :: int
  gd_qts :: int

definition get_difference :: "message_boxes \<Rightarrow> get_difference_request option" where
  "get_difference b =
     (if is_getting_diff b Common \<or> is_getting_diff b Secondary
      then (case entry b Common of
              None \<Rightarrow> None
            | Some e \<Rightarrow>
                Some \<lparr>gd_pts = pts e, gd_date = max (date b) 1,
                      gd_qts = (case entry b Secondary of Some s \<Rightarrow> pts s | None \<Rightarrow> NO_PTS)\<rparr>)
      else None)"

record account_difference =
  ad_new_messages :: "message list"
  ad_new_encrypted_messages :: "tl_object list"
  ad_other_updates :: "tl_update list"
  ad_chats :: "tl_object list"
  ad_users :: "tl_object list"
  ad_state :: account_state

datatype difference =
    DifferenceEmpty int int
  | Difference account_difference
  | DifferenceSlice account_difference
  | DifferenceTooLong int

definition planned_channel :: "message_boxes \<Rightarrow> tl_update \<Rightarrow> bool" where
  "planned_channel b u = (case from_update u of
      Some info \<Rightarrow> is_channel (info_key info) \<and> is_getting_diff b (info_key info)
    | None \<Rightarrow> False)"

definition apply_difference_type :: "instant \<Rightarrow> message_boxes \<Rightarrow> account_difference \<Rightarrow> (message_boxes \<times> update_and_peers) option" where
  "apply_difference_type now b diff =
     (let st = ad_state diff;
          b1 = b\<lparr>date := as_date st, seq := as_seq st\<rparr>;
          b2 = set_pts now (set_pts now b1 Common (as_pts st)) Secondary (as_qts st);
          mk_state = (\<lambda>mb. \<lparr>state_date = as_date st, state_seq = as_seq st, state_box = Some mb\<rparr>);
          us = filter (\<lambda>u. \<not> planned_channel b2 u) (retain_valid_updates (ad_other_updates diff))
      in case process_updates_inner now [Common, Secondary] b2 (unsequenced us (ad_users diff) (ad_chats diff)) of
           None \<Rightarrow> None
         | Some (b3, Inl Gap) \<Rightarrow> None
         | Some (b3, Inr (rs, users, chats)) \<Rightarrow>
             Some (b3,
               rs @
               map (\<lambda>m. (NewMessage m NO_PTS 0, mk_state (CommonBox (as_pts st)))) (ad_new_messages diff) @
               map (\<lambda>m. (NewEncryptedMessage m NO_PTS, mk_state (SecondaryBox (as_qts st)))) (ad_new_encrypted_messages diff),
               users, chats))"

definition finish_account :: "instant \<Rightarrow> message_boxes \<Rightarrow> message_boxes option" where
  "finish_account now b = do { b1 \<leftarrow> try_end_get_diff now b Common; try_end_get_diff now b1 Secondary }"

fun apply_difference :: "instant \<Rightarrow> message_boxes \<Rightarrow> difference \<Rightarrow> (message_boxes \<times> update_and_peers) option" where
  "apply_difference now b (DifferenceEmpty d s) =
     map_option (\<lambda>b'. (b', [], [], [])) (finish_account now (b\<lparr>date := d, seq := s\<rparr>))"
| "apply_difference now b (Difference diff) =
     do { (b1, r) \<leftarrow> apply_difference_type now b diff; b2 \<leftarrow> finish_account now b1; Some (b2, r) }"
| "apply_difference now b (DifferenceSlice diff) = apply_difference_type now b diff"
| "apply_difference now b (DifferenceTooLong p) =
     map_option (\<lambda>b'. (b', [], [], [])) (finish_account now (set_pts now b Common p))"

definition valid_account_state :: "account_state \<Rightarrow> bool" where
  "valid_account_state st \<longleftrightarrow> 0 \<le> as_pts st \<and> 0 \<le> as_qts st \<and> 0 \<le> as_date st \<and> 0 \<le> as_seq st"

fun valid_difference :: "difference \<Rightarrow> bool" where
  "valid_difference (DifferenceEmpty d s) = (0 \<le> d \<and> 0 \<le> s)"
| "valid_difference (DifferenceTooLong p) = (0 \<le> p)"
| "valid_difference (Difference diff) = valid_account_state (ad_state diff)"
| "valid_difference (DifferenceSlice diff) = valid_account_state (ad_state diff)"

definition try_apply_difference :: "instant \<Rightarrow> message_boxes \<Rightarrow> difference \<Rightarrow> (message_boxes \<times> (gap + update_and_peers)) option" where
  "try_apply_difference now b diff =
     (if \<not> is_getting_diff b Common \<and> \<not> is_getting_diff b Secondary then Some (b, Inl Gap)
      else if \<not> valid_difference diff then Some (b, Inl Gap)
      else map_option (\<lambda>(b', r). (b', Inr r)) (apply_difference now b diff))"

section \<open>Channel difference\<close>

fun first_channel :: "key list \<Rightarrow> int option" where
  "first_channel [] = None"
| "first_channel (Channel i # ks) = Some i"
| "first_channel (k # ks) = first_channel ks"

definition channel_in_diff :: "message_boxes \<Rightarrow> int option" where
  "channel_in_diff b = first_channel (getting_diff_for b)"

record get_channel_difference_request =
  gcd_channel :: int
  gcd_pts :: int

text \<open>The outer \<open>None\<close> is a panic.\<close>

definition get_channel_difference :: "message_boxes \<Rightarrow> get_channel_difference_request option option" where
  "get_channel_difference b =
     (case channel_in_diff b of
        None \<Rightarrow> Some None
      | Some channel \<Rightarrow>
          (case entry b (Channel channel) of
             Some e \<Rightarrow> Some (Some \<lparr>gcd_channel = channel, gcd_pts = pts e\<rparr>)
           | None \<Rightarrow> None))"

text \<open>
  The scan of \<open>retain_contiguous_held_updates\<close> over a channel's sorted held updates: those that
  continue the position are kept, those it covers are dropped, and from the first one beyond it on
  all are returned.
\<close>

fun split_contiguous :: "int \<Rightarrow> tl_update list \<Rightarrow> tl_update list \<times> tl_update list" where
  "split_contiguous p [] = ([], [])"
| "split_contiguous p (u # us) =
     (case from_update u of
        None \<Rightarrow> split_contiguous p us
      | Some info \<Rightarrow>
          if p + info_count info = info_pts info
          then (case split_contiguous (info_pts info) us of (keep, beyond) \<Rightarrow> (u # keep, beyond))
          else if p + info_count info > info_pts info then split_contiguous p us
          else ([], u # filter (\<lambda>v. from_update v \<noteq> None) us))"

definition retain_contiguous_held_updates :: "message_boxes \<Rightarrow> int \<Rightarrow> int \<Rightarrow> message_boxes \<times> tl_update list" where
  "retain_contiguous_held_updates b channel p =
     (let mine = map snd (filter (\<lambda>(i, u). i = channel) (held_updates b));
          others = filter (\<lambda>(i, u). i \<noteq> channel) (held_updates b)
      in case split_contiguous p (sort_key update_sort_key mine) of
           (keep, beyond) \<Rightarrow> (b\<lparr>held_updates := others @ map (\<lambda>u. (channel, u)) keep\<rparr>, beyond))"

definition schedule_channel_retry :: "instant \<Rightarrow> message_boxes \<Rightarrow> key \<Rightarrow> nat \<Rightarrow> tl_update list \<Rightarrow> message_boxes" where
  "schedule_channel_retry now b k failures beyond =
     (let retry_at = now + channel_retry_delay failures;
          b1 = (if beyond \<noteq> [] then b\<lparr>next_deadline := min (next_deadline b) retry_at\<rparr> else b)
      in fst (update_entry b1 k (\<lambda>e.
           let e1 = e\<lparr>recovery_failures := failures, retry_not_before := Some retry_at\<rparr>
           in if beyond \<noteq> [] then e1\<lparr>possible_gap := Some \<lparr>gap_deadline = retry_at, gap_updates = beyond\<rparr>\<rparr> else e1)))"

definition clear_recovery :: "live_entry \<Rightarrow> live_entry" where
  "clear_recovery e = e\<lparr>possible_gap := None, recovery_deferred := False, recovery_deferrals := 0,
                        recovery_failures := 0, retry_not_before := None\<rparr>"

text \<open>
  The end of \<open>apply_channel_difference\<close>: socket updates beyond a final position wait in a gap for
  the next attempt; a channel with more pages yields to the other pending ones.
\<close>

definition conclude_channel :: "instant \<Rightarrow> message_boxes \<Rightarrow> int \<Rightarrow> channel_difference \<Rightarrow> nat \<Rightarrow> message_boxes" where
  "conclude_channel now b channel diff previous_failures =
     (let k = Channel channel;
          b1 = (if cd_final diff
                then (case retain_contiguous_held_updates b channel (cd_pts diff) of
                        (b', beyond) \<Rightarrow>
                          if beyond \<noteq> [] then schedule_channel_retry now b' k (u8_saturating_succ previous_failures) beyond
                          else b')
                else b)
      in if \<not> cd_final diff \<and> k \<in> set (getting_diff_for b1)
         then b1\<lparr>getting_diff_for := remove1 k (getting_diff_for b1) @ [k]\<rparr> else b1)"

definition apply_channel_difference ::
    "instant \<Rightarrow> message_boxes \<Rightarrow> channel_difference_enum \<Rightarrow> (message_boxes \<times> update_and_peers) option" where
  "apply_channel_difference now b difference = do {
     channel \<leftarrow> channel_in_diff b;
     let k = Channel channel;
     let b1 = b\<lparr>exhausted_channels := exhausted_channels b - {channel}\<rparr>;
     let previous_failures = (case entry b1 k of Some e \<Rightarrow> recovery_failures e | None \<Rightarrow> 0);
     let b2 = fst (update_entry b1 k clear_recovery);
     diff \<leftarrow> adapt_channel_difference difference;
     let us = retain_valid_updates (cd_other_updates diff);
     b3 \<leftarrow> (if cd_final diff then try_end_get_diff now b2 k else Some b2);
     let b4 = set_pts now b3 k (cd_pts diff);
     (b5, r) \<leftarrow> process_updates_inner now [k] b4 (unsequenced us (cd_users diff) (cd_chats diff));
     (rs, users, chats) \<leftarrow> (case r of Inl Gap \<Rightarrow> None | Inr x \<Rightarrow> Some x);
     let rs' = rs @ map (\<lambda>m. (NewChannelMessage m NO_PTS 0,
                   \<lparr>state_date = date b5, state_seq = seq b5, state_box = Some (ChannelBox channel (cd_pts diff))\<rparr>))
                 (cd_new_messages diff);
     let b6 = reset_timeout now b5 k (cd_timeout diff);
     Some (conclude_channel now b6 channel diff previous_failures, rs', users, chats)
   }"

fun valid_channel_difference :: "int \<Rightarrow> channel_difference_enum \<Rightarrow> bool" where
  "valid_channel_difference channel (ChannelDifferenceEmpty fin p timeout) = (NO_PTS \<le> p)"
| "valid_channel_difference channel (ChannelDifference diff) = (NO_PTS \<le> cd_pts diff)"
| "valid_channel_difference channel (ChannelDifferenceTooLong fin timeout (Dialog peer p r) ms chats users) =
     ((case p of Some p \<Rightarrow> NO_PTS \<le> p | None \<Rightarrow> False) \<and> peer = PeerChannel channel)"
| "valid_channel_difference channel (ChannelDifferenceTooLong fin timeout dlg ms chats users) = False"

definition try_apply_channel_difference ::
    "instant \<Rightarrow> message_boxes \<Rightarrow> channel_difference_enum \<Rightarrow> (message_boxes \<times> (gap + update_and_peers)) option" where
  "try_apply_channel_difference now b difference =
     (case channel_in_diff b of
        None \<Rightarrow> Some (b, Inl Gap)
      | Some channel \<Rightarrow>
          if \<not> valid_channel_difference channel difference then Some (b, Inl Gap)
          else map_option (\<lambda>(b', r). (b', Inr r)) (apply_channel_difference now b difference))"

definition grace_exhausted :: "message_boxes \<Rightarrow> int \<Rightarrow> bool" where
  "grace_exhausted b channel \<longleftrightarrow> channel \<in> exhausted_channels b \<or>
     (case entry b (Channel channel) of Some e \<Rightarrow> MAX_CHANNEL_DEFERRALS \<le> recovery_deferrals e | None \<Rightarrow> False)"

definition defer_channel_difference :: "instant \<Rightarrow> message_boxes \<Rightarrow> duration \<Rightarrow> message_boxes option" where
  "defer_channel_difference now b retry_after = do {
     channel \<leftarrow> channel_in_diff b;
     let k = Channel channel;
     if grace_exhausted b channel then do {
       b1 \<leftarrow> try_end_get_diff now (b\<lparr>exhausted_channels := insert channel (exhausted_channels b)\<rparr>) k;
       Some (pop_entry b1 k)
     } else do {
       let b1 = fst (update_entry b k (\<lambda>e. e\<lparr>recovery_deferred := True,
                                              recovery_deferrals := recovery_deferrals e + 1\<rparr>));
       b2 \<leftarrow> dequeue_ready b1 k;
       let dl = now + min retry_after NO_UPDATES_TIMEOUT;
       let b3 = fst (update_entry b2 k (\<lambda>e. e\<lparr>deadline := dl\<rparr>));
       Some (b3\<lparr>next_deadline := min (next_deadline b3) dl\<rparr>)
     }
   }"

definition try_exhaust_channel_grace :: "message_boxes \<Rightarrow> (message_boxes \<times> bool) option" where
  "try_exhaust_channel_grace b =
     (case channel_in_diff b of
        None \<Rightarrow> None
      | Some channel \<Rightarrow>
          Some (if grace_exhausted b channel
                then (b\<lparr>exhausted_channels := insert channel (exhausted_channels b)\<rparr>, True)
                else (b, False)))"

definition channel_difference_accessible :: "message_boxes \<Rightarrow> message_boxes option" where
  "channel_difference_accessible b =
     (case channel_in_diff b of
        None \<Rightarrow> None
      | Some channel \<Rightarrow>
          Some (fst (update_entry (b\<lparr>exhausted_channels := exhausted_channels b - {channel}\<rparr>) (Channel channel)
                 (\<lambda>e. e\<lparr>recovery_deferrals := 0\<rparr>))))"

definition retry_channel_without_delay :: "instant \<Rightarrow> message_boxes \<Rightarrow> int \<Rightarrow> message_boxes" where
  "retry_channel_without_delay now b channel =
     (let retry = (case entry b (Channel channel) of Some e \<Rightarrow> possible_gap e \<noteq> None | None \<Rightarrow> False);
          b1 = fst (update_entry b (Channel channel) (\<lambda>e.
                 e\<lparr>recovery_failures := recovery_failures e - 1, retry_not_before := None,
                   possible_gap := map_option (\<lambda>gap. gap\<lparr>gap_deadline := now\<rparr>) (possible_gap e)\<rparr>))
      in if retry then b1\<lparr>next_deadline := now\<rparr> else b1)"

datatype premature_end_reason = TemporaryServerIssues | Banned

definition end_channel_difference :: "instant \<Rightarrow> message_boxes \<Rightarrow> premature_end_reason \<Rightarrow> message_boxes option" where
  "end_channel_difference now b reason = do {
     channel \<leftarrow> channel_in_diff b;
     let k = Channel channel;
     let b1 = fst (update_entry b k (\<lambda>e. e\<lparr>possible_gap := None\<rparr>));
     let failures = (case entry b k of Some e \<Rightarrow> u8_saturating_succ (recovery_failures e) | None \<Rightarrow> 0);
     b2 \<leftarrow> try_end_get_diff now b1 k;
     (case reason of
        TemporaryServerIssues \<Rightarrow>
          (case entry b2 k of
             Some e \<Rightarrow>
               (case retain_contiguous_held_updates b2 channel (pts e) of
                  (b3, beyond) \<Rightarrow> Some (schedule_channel_retry now b3 k failures beyond))
           | None \<Rightarrow> Some b2)
      | Banned \<Rightarrow> Some (pop_entry b2 k))
   }"

definition discard_account_state :: "instant \<Rightarrow> message_boxes \<Rightarrow> message_boxes option" where
  "discard_account_state now b = do {
     b1 \<leftarrow> try_end_get_diff now b Common;
     b2 \<leftarrow> try_end_get_diff now (pop_entry b1 Common) Secondary;
     Some (pop_entry b2 Secondary)
   }"

end
