(* ===== verification/Mb_Invariant.thy ===== *)
theory Mb_Invariant
  imports Message_Boxes "HOL-Library.Sublist"
begin

text \<open>
  The consistency invariant of the message boxes and its preservation, one lemma per operation.
  It makes every \<open>expect\<close> of the source unreachable: ready recoveries are queued exactly once and
  counted, stored gaps hold only updates of their own box, deferred entries are pending.
\<close>

section \<open>The invariant\<close>

definition ready :: "live_entry \<Rightarrow> bool" where
  "ready e \<longleftrightarrow> recovery_pending e \<and> \<not> recovery_deferred e"

text \<open>A valid update whose position belongs to the box \<open>k\<close>.\<close>

definition tracked :: "key \<Rightarrow> tl_update \<Rightarrow> bool" where
  "tracked k u \<longleftrightarrow> valid_update u \<and> (case from_update u of Some info \<Rightarrow> info_key info = k | None \<Rightarrow> False)"

definition gap_ok :: "key \<Rightarrow> possible_gap \<Rightarrow> bool" where
  "gap_ok k g \<longleftrightarrow> gap_updates g \<noteq> [] \<and> length (gap_updates g) \<le> MAX_HELD_UPDATES \<and>
     list_all (tracked k) (gap_updates g)"

definition entry_ok :: "live_entry \<Rightarrow> bool" where
  "entry_ok e \<longleftrightarrow> (recovery_deferred e \<longrightarrow> recovery_pending e) \<and>
     recovery_deferrals e \<le> MAX_CHANNEL_DEFERRALS \<and> recovery_failures e \<le> 255 \<and>
     none_or (gap_ok (entry_key e)) (possible_gap e)"

definition table_inv :: "live_entry list \<Rightarrow> key list \<Rightarrow> nat \<Rightarrow> bool" where
  "table_inv es queue n \<longleftrightarrow> sorted_keys entry_key es \<and> list_all entry_ok es \<and>
     distinct queue \<and> set queue = entry_key ` set (filter ready es) \<and> n = length queue"

definition held_inv :: "(int \<times> tl_update) list \<Rightarrow> bool" where
  "held_inv held \<longleftrightarrow> length held \<le> MAX_HELD_UPDATES \<and> list_all (\<lambda>(channel, u). tracked (Channel channel) u) held"

definition account_inv :: "live_entry list \<Rightarrow> bool" where
  "account_inv es \<longleftrightarrow> (find_entry es Secondary \<noteq> None \<longrightarrow> find_entry es Common \<noteq> None)"

definition mb_inv :: "message_boxes \<Rightarrow> bool" where
  "mb_inv b \<longleftrightarrow> table_inv (entries b) (getting_diff_for b) (ready_diff_count b) \<and>
     held_inv (held_updates b) \<and> account_inv (entries b)"

section \<open>The table\<close>

lemma table_invD:
  assumes "table_inv es q n"
  shows "sorted_keys entry_key es" "distinct q" "n = length q"
    and "find_entry es k = Some e \<Longrightarrow> entry_ok e \<and> entry_key e = k"
    and "k \<in> set q \<longleftrightarrow> (\<exists>e. find_entry es k = Some e \<and> ready e)"
proof -
  show s: "sorted_keys entry_key es" and "distinct q" "n = length q" using assms by (auto simp: table_inv_def)
  show "find_entry es k = Some e \<Longrightarrow> entry_ok e \<and> entry_key e = k"
    using assms find_entry_iff[OF s] by (auto simp: table_inv_def list_all_iff)
  show "k \<in> set q \<longleftrightarrow> (\<exists>e. find_entry es k = Some e \<and> ready e)"
    using assms find_entry_iff[OF s, of k] by (auto simp: table_inv_def)
qed

lemma table_inv_put:
  assumes t: "table_inv es q n" and e: "entry_ok e"
    and q': "distinct q'" "set q' = set q - {entry_key e} \<union> (if ready e then {entry_key e} else {})" "n' = length q'"
  shows "table_inv (put_entry es e) q' n'"
proof -
  note s = table_invD(1)[OF t]
  have "set q = entry_key ` {x \<in> set es. ready x}" using t by (simp add: table_inv_def)
  then have "set q' = entry_key ` {x \<in> insert e {x \<in> set es. entry_key x \<noteq> entry_key e}. ready x}"
    unfolding q'(2) by (auto split: if_splits)
  then show ?thesis
    using t e q'(1,3) put_entry_sound[OF s, of e] by (auto simp: table_inv_def list_all_iff)
qed

text \<open>Rewriting an entry without changing whether it is ready.\<close>

lemma table_inv_put_same:
  assumes t: "table_inv es q n" and e: "entry_ok e" and r: "ready e \<longleftrightarrow> entry_key e \<in> set q"
  shows "table_inv (put_entry es e) q n"
  using table_invD(2,3)[OF t] r by (intro table_inv_put[OF t e]) auto

lemma table_inv_enqueue:
  assumes t: "table_inv es q n" and e: "entry_ok e" "ready e" "entry_key e \<notin> set q"
  shows "table_inv (put_entry es e) (q @ [entry_key e]) (n + 1)"
  using table_invD(2,3)[OF t] e by (intro table_inv_put[OF t e(1)]) auto

lemma table_inv_dequeue:
  assumes t: "table_inv es q n" and e: "entry_ok e" "\<not> ready e" "entry_key e \<in> set q"
  shows "table_inv (put_entry es e) (remove1 (entry_key e) q) (n - 1)"
  using table_invD(2,3)[OF t] e by (intro table_inv_put[OF t e(1)]) (auto simp: length_remove1)

lemma table_inv_remove:
  assumes t: "table_inv es q n" and k: "k \<notin> set q"
  shows "table_inv (fst (remove_entry es k)) q n"
proof -
  note s = table_invD(1)[OF t]
  have "set q = entry_key ` {x \<in> {x \<in> set es. entry_key x \<noteq> k}. ready x}"
    using t k by (auto simp: table_inv_def)
  then show ?thesis using t remove_entry_sound[OF s, of k] by (auto simp: table_inv_def list_all_iff)
qed

lemma table_inv_rotate:
  assumes t: "table_inv es q n" and k: "k \<in> set q"
  shows "table_inv es (remove1 k q @ [k]) n"
proof -
  have d: "distinct q" using t by (simp add: table_inv_def)
  then have "set (remove1 k q @ [k]) = set q" "distinct (remove1 k q @ [k])" using k by auto
  moreover have "length (remove1 k q @ [k]) = length q"
    using length_pos_if_in_set[OF k] by (simp add: length_remove1 k)
  ultimately show ?thesis using t unfolding table_inv_def by metis
qed

lemma account_inv_put:
  "sorted_keys entry_key es \<Longrightarrow> account_inv es \<Longrightarrow>
   (entry_key e = Secondary \<Longrightarrow> find_entry es Common \<noteq> None) \<Longrightarrow> account_inv (put_entry es e)"
  by (auto simp: account_inv_def find_put_entry)

lemma account_inv_remove_channel:
  "sorted_keys entry_key es \<Longrightarrow> account_inv es \<Longrightarrow> account_inv (fst (remove_entry es (Channel i)))"
  by (simp add: account_inv_def find_remove_entry)

lemma mb_invD:
  assumes "mb_inv b"
  shows "table_inv (entries b) (getting_diff_for b) (ready_diff_count b)"
    and "sorted_keys entry_key (entries b)" and "held_inv (held_updates b)" and "account_inv (entries b)"
    and "entry b k = Some e \<Longrightarrow> entry_ok e \<and> entry_key e = k"
    and "k \<in> set (getting_diff_for b) \<longleftrightarrow> (\<exists>e. entry b k = Some e \<and> ready e)"
  using assms table_invD[of "entries b" "getting_diff_for b" "ready_diff_count b"]
  by (auto simp: mb_inv_def entry_def)

section \<open>Held updates\<close>

lemma held_inv_hold:
  "held_inv held \<Longrightarrow> tracked (Channel c) u \<Longrightarrow> held_inv (fst (hold_channel_update (held, ov) c u))"
  by (cases held) (auto simp: held_inv_def hold_channel_update_def MAX_HELD_UPDATES_def)

lemma held_inv_fold:
  "held_inv held \<Longrightarrow> list_all (tracked (Channel c)) us \<Longrightarrow>
   held_inv (fst (fold (\<lambda>u st. hold_channel_update st c u) us (held, ov)))"
proof (induction us arbitrary: held ov)
  case Nil
  then show ?case by simp
next
  case (Cons u us)
  obtain held' ov' where h: "hold_channel_update (held, ov) c u = (held', ov')" by fastforce
  with held_inv_hold[of held c u ov] Cons.prems have "held_inv held'" by simp
  with Cons.IH[of held' ov'] Cons.prems h show ?case by simp
qed

lemma hold_gap_frame [simp]:
  "entries (hold_gap b k g) = entries b" "getting_diff_for (hold_gap b k g) = getting_diff_for b"
  "ready_diff_count (hold_gap b k g) = ready_diff_count b" "next_deadline (hold_gap b k g) = next_deadline b"
  "date (hold_gap b k g) = date b" "seq (hold_gap b k g) = seq b"
  "exhausted_channels (hold_gap b k g) = exhausted_channels b"
  "held_release_ready (hold_gap b k g) = held_release_ready b"
  by (auto simp: hold_gap_def split: key.splits option.splits prod.splits)

lemma hold_gap_held:
  assumes "held_inv (held_updates b)" "none_or (gap_ok k) g"
  shows "held_inv (held_updates (hold_gap b k g))"
  using assms held_inv_fold[of "held_updates b" _ _ "held_overflowed b"]
  by (auto simp: hold_gap_def none_or_def gap_ok_def split: key.splits option.splits prod.splits)
    (metis fst_conv)

section \<open>Entry operations\<close>

lemma update_entry_found:
  assumes "mb_inv b" "entry b k = Some e" "entry_key (f e) = k"
  shows "update_entry b k f = (b\<lparr>entries := put_entry (entries b) (f e)\<rparr>, True)"
  using assms mb_invD(2)[OF assms(1)] modify_entry_found[of "entries b" k e f]
  by (simp add: update_entry_def entry_def)

lemma update_entry_absent: "entry b k = None \<Longrightarrow> update_entry b k f = (b, False)"
  by (simp add: update_entry_def entry_def modify_entry_absent)

lemma entry_put:
  "sorted_keys entry_key (entries b) \<Longrightarrow> entries b' = put_entry (entries b) e \<Longrightarrow> entry b' = (entry b)(entry_key e \<mapsto> e)"
  by (simp add: entry_def[abs_def] find_put_entry)

text \<open>Rewriting an existing entry without changing whether it is ready.\<close>

lemma update_entry_inv:
  assumes inv: "mb_inv b"
    and f: "\<And>e. entry_key (f e) = entry_key e"
    and ok: "\<And>e. entry b k = Some e \<Longrightarrow> entry_ok (f e) \<and> ready (f e) = ready e"
  shows "mb_inv (fst (update_entry b k f))"
    and "entry (fst (update_entry b k f)) = (entry b)(k := map_option f (entry b k))"
proof -
  have "mb_inv (fst (update_entry b k f)) \<and>
      entry (fst (update_entry b k f)) = (entry b)(k := map_option f (entry b k))"
  proof (cases "entry b k")
    case None
    with inv show ?thesis by (auto simp: update_entry_absent)
  next
    case (Some e)
    note e = mb_invD(5)[OF inv Some]
    have u: "update_entry b k f = (b\<lparr>entries := put_entry (entries b) (f e)\<rparr>, True)"
      using e f by (intro update_entry_found[OF inv Some]) simp
    have r: "ready (f e) \<longleftrightarrow> entry_key (f e) \<in> set (getting_diff_for b)"
      using mb_invD(6)[OF inv, of k] Some ok[OF Some] e f by auto
    have "table_inv (put_entry (entries b) (f e)) (getting_diff_for b) (ready_diff_count b)"
      using ok[OF Some] r by (intro table_inv_put_same mb_invD(1)[OF inv]) auto
    moreover have "account_inv (put_entry (entries b) (f e))"
      using mb_invD(4)[OF inv] e f Some
      by (intro account_inv_put mb_invD(2)[OF inv]) (auto simp: account_inv_def entry_def)
    ultimately have "mb_inv (fst (update_entry b k f))"
      using mb_invD(3)[OF inv] by (simp add: u mb_inv_def)
    moreover have "entry (fst (update_entry b k f)) = (entry b)(k \<mapsto> f e)"
      using entry_put[OF mb_invD(2)[OF inv], of "fst (update_entry b k f)" "f e"] e f by (simp add: u)
    ultimately show ?thesis by (simp add: Some)
  qed
  then show "mb_inv (fst (update_entry b k f))"
    "entry (fst (update_entry b k f)) = (entry b)(k := map_option f (entry b k))" by auto
qed

lemma update_entry_frame [simp]:
  "getting_diff_for (fst (update_entry b k f)) = getting_diff_for b"
  "ready_diff_count (fst (update_entry b k f)) = ready_diff_count b"
  "held_updates (fst (update_entry b k f)) = held_updates b"
  "held_overflowed (fst (update_entry b k f)) = held_overflowed b"
  "held_release_ready (fst (update_entry b k f)) = held_release_ready b"
  "exhausted_channels (fst (update_entry b k f)) = exhausted_channels b"
  "next_deadline (fst (update_entry b k f)) = next_deadline b"
  "date (fst (update_entry b k f)) = date b" "seq (fst (update_entry b k f)) = seq b"
  by (simp_all add: update_entry_def split: prod.splits)

lemma mb_inv_cong:
  "entries b' = entries b \<Longrightarrow> getting_diff_for b' = getting_diff_for b \<Longrightarrow>
   ready_diff_count b' = ready_diff_count b \<Longrightarrow> held_updates b' = held_updates b \<Longrightarrow> mb_inv b' = mb_inv b"
  by (simp add: mb_inv_def)

lemma entry_cong: "entries b' = entries b \<Longrightarrow> entry b' = entry b"
  by (simp add: entry_def[abs_def])

lemma set_entry_inv:
  assumes inv: "mb_inv b" and e: "entry_ok e" "\<not> ready e" "entry b (entry_key e) = None"
    and acc: "entry_key e = Secondary \<Longrightarrow> entry b Common \<noteq> None"
  shows "mb_inv (set_entry b e)" "entry (set_entry b e) = (entry b)(entry_key e \<mapsto> e)"
proof -
  have "entry_key e \<notin> set (getting_diff_for b)" using mb_invD(6)[OF inv] e(3) by simp
  then show "mb_inv (set_entry b e)"
    using mb_invD(1,3)[OF inv] e account_inv_put[OF mb_invD(2,4)[OF inv], of e] acc
    by (simp add: mb_inv_def set_entry_def table_inv_put_same entry_def)
  show "entry (set_entry b e) = (entry b)(entry_key e \<mapsto> e)"
    by (rule entry_put[OF mb_invD(2)[OF inv]]) (simp add: set_entry_def)
qed

lemma entry_ok_mk [simp]:
  "entry_ok (mk_entry k p dl pend)" "entry_key (mk_entry k p dl pend) = k" "pts (mk_entry k p dl pend) = p"
  "recovery_pending (mk_entry k p dl pend) = pend" "ready (mk_entry k p dl pend) = pend"
  "possible_gap (mk_entry k p dl pend) = None" "recovery_deferred (mk_entry k p dl pend) = False"
  by (simp_all add: mk_entry_def entry_ok_def ready_def none_or_def)

section \<open>Beginning and ending recovery\<close>

lemma begin_entry_facts [simp]:
  "entry_key (begin_entry now e) = entry_key e" "pts (begin_entry now e) = pts e"
  "recovery_pending (begin_entry now e)" "possible_gap (begin_entry now e) = None"
  "recovery_failures (begin_entry now e) = recovery_failures e"
  "retry_not_before (begin_entry now e) = retry_not_before e"
  by (auto simp: begin_entry_def Let_def split: option.splits)

lemma begin_entry_ok: "entry_ok e \<Longrightarrow> entry_ok (begin_entry now e)"
  by (auto simp: entry_ok_def begin_entry_def Let_def none_or_def split: option.splits)

definition must_wait :: "instant \<Rightarrow> live_entry \<Rightarrow> bool" where
  "must_wait now e = (case retry_not_before e of Some t \<Rightarrow> now < t | None \<Rightarrow> False)"

lemma ready_begin_entry: "ready (begin_entry now e) \<longleftrightarrow> \<not> must_wait now e"
  by (auto simp: begin_entry_def ready_def must_wait_def Let_def split: option.splits)

definition began :: "instant \<Rightarrow> live_entry \<Rightarrow> live_entry" where
  "began now e = (if recovery_pending e then e else begin_entry now e)"

lemma try_begin_cases:
  "try_begin_get_diff now b k =
     (case entry b k of
        None \<Rightarrow> b
      | Some e \<Rightarrow>
          if recovery_pending e then b
          else let b1 = hold_gap (fst (update_entry b k (begin_entry now))) k (possible_gap e)
               in if must_wait now e then b1\<lparr>next_deadline := min (next_deadline b1) (the (retry_not_before e))\<rparr>
                  else enqueue_ready b1 k)"
  by (auto simp: try_begin_get_diff_def is_getting_diff_def must_wait_def Let_def split: option.splits)

lemma enqueue_ready_frame [simp]:
  "entries (enqueue_ready b k) = entries b" "held_updates (enqueue_ready b k) = held_updates b"
  "getting_diff_for (enqueue_ready b k) = getting_diff_for b @ [k]"
  "ready_diff_count (enqueue_ready b k) = ready_diff_count b + 1"
  "date (enqueue_ready b k) = date b" "seq (enqueue_ready b k) = seq b"
  "next_deadline (enqueue_ready b k) = next_deadline b"
  "held_overflowed (enqueue_ready b k) = held_overflowed b"
  "held_release_ready (enqueue_ready b k) = held_release_ready b"
  "exhausted_channels (enqueue_ready b k) = exhausted_channels b"
  by (simp_all add: enqueue_ready_def)

lemma try_begin_inv:
  assumes inv: "mb_inv b"
  shows "mb_inv (try_begin_get_diff now b k)"
    and "entry (try_begin_get_diff now b k) = (entry b)(k := map_option (began now) (entry b k))"
proof -
  let ?b' = "try_begin_get_diff now b k"
  have "mb_inv ?b' \<and> entry ?b' = (entry b)(k := map_option (began now) (entry b k))"
  proof (cases "entry b k")
    case None
    with inv show ?thesis by (auto simp: try_begin_cases)
  next
    case (Some e)
    note e = mb_invD(5)[OF inv Some]
    show ?thesis
    proof (cases "recovery_pending e")
      case True
      with inv Some show ?thesis by (auto simp: try_begin_cases began_def)
    next
      case False
      let ?e = "begin_entry now e"
      have k: "entry_key ?e = k" using e by simp
      have u: "update_entry b k (begin_entry now) = (b\<lparr>entries := put_entry (entries b) ?e\<rparr>, True)"
        using k by (intro update_entry_found[OF inv Some])
      have es: "entries ?b' = put_entry (entries b) ?e"
        using Some False by (simp add: try_begin_cases u Let_def)
      have notin: "k \<notin> set (getting_diff_for b)"
        using mb_invD(6)[OF inv, of k] Some False by (auto simp: ready_def)
      have held: "held_inv (held_updates (hold_gap (b\<lparr>entries := put_entry (entries b) ?e\<rparr>) k (possible_gap e)))"
        using mb_invD(3)[OF inv] e by (intro hold_gap_held) (auto simp: entry_ok_def)
      have "account_inv (put_entry (entries b) ?e)"
        using mb_invD(4)[OF inv] Some e
        by (intro account_inv_put mb_invD(2)[OF inv]) (auto simp: account_inv_def entry_def)
      moreover have "table_inv (put_entry (entries b) ?e) (getting_diff_for b) (ready_diff_count b)" if "must_wait now e"
        using that notin k by (intro table_inv_put_same mb_invD(1)[OF inv] begin_entry_ok) (auto simp: ready_begin_entry e)
      moreover have "table_inv (put_entry (entries b) ?e) (getting_diff_for b @ [k]) (ready_diff_count b + 1)" if "\<not> must_wait now e"
        using table_inv_enqueue[OF mb_invD(1)[OF inv], of ?e] that notin k e
        by (simp add: ready_begin_entry begin_entry_ok)
      ultimately have "mb_inv ?b'"
        using Some False held by (simp add: try_begin_cases u Let_def mb_inv_def)
      moreover have "entry ?b' = (entry b)(k \<mapsto> ?e)"
        using entry_put[OF mb_invD(2)[OF inv] es] k by simp
      ultimately show ?thesis using Some False by (simp add: began_def)
    qed
  qed
  then show "mb_inv ?b'" "entry ?b' = (entry b)(k := map_option (began now) (entry b k))" by auto
qed

lemma try_begin_frame [simp]:
  "date (try_begin_get_diff now b k) = date b" "seq (try_begin_get_diff now b k) = seq b"
  "exhausted_channels (try_begin_get_diff now b k) = exhausted_channels b"
  "held_release_ready (try_begin_get_diff now b k) = held_release_ready b"
  by (auto simp: try_begin_cases Let_def split: option.splits)

lemma reset_deadline_frame [simp]:
  "getting_diff_for (reset_deadline b k dl) = getting_diff_for b"
  "ready_diff_count (reset_deadline b k dl) = ready_diff_count b"
  "held_updates (reset_deadline b k dl) = held_updates b"
  "held_overflowed (reset_deadline b k dl) = held_overflowed b"
  "held_release_ready (reset_deadline b k dl) = held_release_ready b"
  "exhausted_channels (reset_deadline b k dl) = exhausted_channels b"
  "date (reset_deadline b k dl) = date b" "seq (reset_deadline b k dl) = seq b"
  "entries (reset_deadline b k dl) = entries (fst (update_entry b k (\<lambda>e. e\<lparr>deadline := dl\<rparr>)))"
  by (simp_all add: reset_deadline_def Let_def)

text \<open>An update of fields the invariant does not look at.\<close>

lemma entry_ok_deadline [simp]: "entry_ok (e\<lparr>deadline := dl\<rparr>) = entry_ok e" "ready (e\<lparr>deadline := dl\<rparr>) = ready e"
  by (simp_all add: entry_ok_def ready_def)

lemma entry_ok_pts [simp]: "entry_ok (e\<lparr>pts := p\<rparr>) = entry_ok e" "ready (e\<lparr>pts := p\<rparr>) = ready e"
  by (simp_all add: entry_ok_def ready_def)

lemma reset_deadline_inv:
  assumes inv: "mb_inv b"
  shows "mb_inv (reset_deadline b k dl)"
    and "entry (reset_deadline b k dl) = (entry b)(k := map_option (\<lambda>e. e\<lparr>deadline := dl\<rparr>) (entry b k))"
proof -
  let ?f = "\<lambda>e::live_entry. e\<lparr>deadline := dl\<rparr>"
  have u: "mb_inv (fst (update_entry b k ?f))"
      "entry (fst (update_entry b k ?f)) = (entry b)(k := map_option ?f (entry b k))"
    using mb_invD(5)[OF inv] by (auto intro!: update_entry_inv[OF inv])
  then show "mb_inv (reset_deadline b k dl)" by (subst mb_inv_cong[of _ "fst (update_entry b k ?f)"]) simp_all
  show "entry (reset_deadline b k dl) = (entry b)(k := map_option ?f (entry b k))"
    using u(2) entry_cong[of "reset_deadline b k dl" "fst (update_entry b k ?f)"] by simp
qed

definition ended :: "instant \<Rightarrow> live_entry \<Rightarrow> live_entry" where
  "ended now e =
     (if recovery_pending e
      then e\<lparr>recovery_pending := False, recovery_deferred := False, recovery_deferrals := 0,
             deadline := next_updates_deadline now\<rparr>
      else e)"

text \<open>Ending a recovery never panics, and leaves every other entry alone.\<close>

lemma try_end_inv:
  assumes t: "table_inv (entries b) (getting_diff_for b) (ready_diff_count b)"
  obtains b' where "try_end_get_diff now b k = Some b'"
    and "table_inv (entries b') (getting_diff_for b') (ready_diff_count b')"
    and "entry b' = (entry b)(k := map_option (ended now) (entry b k))"
    and "k \<notin> set (getting_diff_for b')" and "held_updates b' = held_updates b"
    and "date b' = date b" and "seq b' = seq b" and "exhausted_channels b' = exhausted_channels b"
    and "set (getting_diff_for b') = set (getting_diff_for b) - {k}"
proof -
  note s = table_invD(1)[OF t]
  have inq: "k \<in> set (getting_diff_for b) \<longleftrightarrow> (\<exists>e. entry b k = Some e \<and> ready e)"
    using table_invD(5)[OF t] by (simp add: entry_def)
  show thesis
  proof (cases "\<exists>e. entry b k = Some e \<and> recovery_pending e")
    case False
    then have "try_end_get_diff now b k = Some b" by (auto simp: try_end_get_diff_def split: option.splits)
    moreover have "map_option (ended now) (entry b k) = entry b k" using False by (cases "entry b k") (auto simp: ended_def)
    moreover have "k \<notin> set (getting_diff_for b)" using False inq by (auto simp: ready_def)
    ultimately show thesis using t by (intro that[of b]) auto
  next
    case True
    then obtain e where e: "entry b k = Some e" "recovery_pending e" by blast
    have ok: "entry_ok e" "entry_key e = k" using table_invD(4)[OF t] e(1) by (auto simp: entry_def)
    let ?f = "\<lambda>e::live_entry. e\<lparr>recovery_pending := False, recovery_deferred := False, recovery_deferrals := 0\<rparr>"
    let ?e = "(?f e)\<lparr>deadline := next_updates_deadline now\<rparr>"
    define q where "q = (if recovery_deferred e then getting_diff_for b else remove1 k (getting_diff_for b))"
    define n where "n = (if recovery_deferred e then ready_diff_count b else ready_diff_count b - 1)"
    define b1 where "b1 = b\<lparr>getting_diff_for := q, ready_diff_count := n\<rparr>"
    have nodef: "recovery_deferred e \<longleftrightarrow> k \<notin> set (getting_diff_for b)" using inq e by (auto simp: ready_def)
    have "(if recovery_deferred e then Some b else dequeue_ready b k) = Some b1"
    proof (cases "recovery_deferred e")
      case False
      then have "k \<in> set (getting_diff_for b)" using nodef by simp
      moreover from this have "0 < ready_diff_count b" using table_invD(3)[OF t] length_pos_if_in_set by simp
      ultimately show ?thesis using False by (simp add: dequeue_ready_def b1_def q_def n_def)
    qed (simp add: b1_def q_def n_def)
    have es1: "fst (update_entry b1 k ?f) = b1\<lparr>entries := put_entry (entries b) (?f e)\<rparr>"
      using modify_entry_found[of "entries b" k e ?f] e(1) ok(2) s
      by (simp add: update_entry_def b1_def entry_def)
    define b2 where "b2 = b1\<lparr>entries := put_entry (entries b) (?f e)\<rparr>"
    have ok2: "entry_ok (?f e)" "\<not> ready (?f e)" "entry_key (?f e) = k" using ok by (auto simp: entry_ok_def ready_def)
    have qs: "distinct q" "set q = set (getting_diff_for b) - {k}" "n = length q"
      using table_invD(2,3)[OF t] nodef by (auto simp: q_def n_def length_remove1)
    have t2: "table_inv (put_entry (entries b) (?f e)) q n"
      using ok2 qs by (intro table_inv_put[OF t]) auto
    have s2: "sorted_keys entry_key (entries b2)" using table_invD(1)[OF t2] by (simp add: b2_def)
    have f2: "find_entry (entries b2) k = Some (?f e)" using find_put_entry[OF s, of "?f e"] ok2(3) by (simp add: b2_def)
    have es3: "entries (reset_deadline b2 k (next_updates_deadline now)) = put_entry (entries b2) ?e"
      using modify_entry_found[OF f2 s2, of "\<lambda>e. e\<lparr>deadline := next_updates_deadline now\<rparr>"] ok(2)
      by (simp add: update_entry_def)
    have t3: "table_inv (put_entry (entries b2) ?e) q n"
      using t2 ok2 qs(2) by (intro table_inv_put_same) (auto simp: b2_def ok(2))
    define b' where "b' = (reset_deadline b2 k (next_updates_deadline now))
        \<lparr>held_release_ready := held_release_ready b2 \<or> is_channel k\<rparr>"
    have "try_end_get_diff now b k = Some b'"
      using e \<open>_ = Some b1\<close> es1 by (simp add: try_end_get_diff_def Let_def b'_def b2_def)
    moreover have "entry b' = (entry b)(k := map_option (ended now) (entry b k))"
      using e ok(2) find_put_entry[OF s2, of ?e] find_put_entry[OF s, of "?f e"] es3
      by (simp add: b'_def entry_def[abs_def] ended_def b2_def fun_eq_iff)
    moreover have "table_inv (entries b') (getting_diff_for b') (ready_diff_count b')"
      using t3 es3 by (simp add: b'_def b2_def b1_def)
    ultimately show thesis
      using qs by (intro that[of b']) (auto simp: b'_def b2_def b1_def)
  qed
qed

section \<open>Contiguous runs of updates\<close>

text \<open>\<open>chain p is q\<close>: the updates \<open>is\<close> lead from position \<open>p\<close> to \<open>q\<close>, each starting where the one before ended.\<close>

fun chain :: "int \<Rightarrow> pts_info list \<Rightarrow> int \<Rightarrow> bool" where
  "chain p [] q \<longleftrightarrow> p = q"
| "chain p (i # is) q \<longleftrightarrow> p + info_count i = info_pts i \<and> chain (info_pts i) is q"

lemma chain_append: "chain p (xs @ ys) q \<longleftrightarrow> (\<exists>r. chain p xs r \<and> chain r ys q)"
  by (induction p xs q rule: chain.induct) auto

lemma tracked_info:
  assumes "tracked k u"
  obtains info where "from_update u = Some info" "info_key info = k" "0 \<le> info_count info" "info_count info \<le> info_pts info"
  using assms valid_update_range[of u] by (auto simp: tracked_def split: option.splits)

lemma tracked_of: "valid_update u \<Longrightarrow> from_update u = Some info \<Longrightarrow> tracked (info_key info) u"
  by (simp add: tracked_def)

text \<open>What draining a gap does: it never meets an update without position, what it delivers is a
  contiguous run from the old position to the new one, and the rest is kept.\<close>

lemma drain_gap_spec:
  assumes "list_all (tracked k) us"
  shows "\<exists>p out left. drain_gap p0 us = Some (p, out, left) \<and> chain p0 (map snd out) p \<and>
    suffix left us \<and> (\<forall>(u, i)\<in>set out. u \<in> set us \<and> from_update u = Some i)"
  using assms
proof (induction us arbitrary: p0)
  case Nil
  then show ?case by simp
next
  case (Cons u us)
  then obtain info where info: "from_update u = Some info" by (auto elim: tracked_info)
  consider "p0 + info_count info = info_pts info" | "p0 + info_count info > info_pts info"
    | "p0 + info_count info < info_pts info" by linarith
  then show ?case
  proof cases
    case 1
    from Cons.IH[of "info_pts info"] Cons.prems obtain p out left where
      "drain_gap (info_pts info) us = Some (p, out, left)" "chain (info_pts info) (map snd out) p"
      "suffix left us" "\<forall>(u, i)\<in>set out. u \<in> set us \<and> from_update u = Some i" by auto
    with 1 info show ?thesis by (auto simp: suffix_ConsI)
  next
    case 2
    from Cons.IH[of p0] Cons.prems obtain p out left where
      "drain_gap p0 us = Some (p, out, left)" "chain p0 (map snd out) p"
      "suffix left us" "\<forall>(u, i)\<in>set out. u \<in> set us \<and> from_update u = Some i" by auto
    with 2 info show ?thesis by (auto simp: suffix_ConsI)
  next
    case 3
    with info show ?thesis by auto
  qed
qed

definition same_recovery :: "live_entry \<Rightarrow> live_entry \<Rightarrow> bool" where
  "same_recovery e e' \<longleftrightarrow> entry_key e' = entry_key e \<and> recovery_pending e' = recovery_pending e \<and>
     recovery_deferred e' = recovery_deferred e \<and> recovery_deferrals e' = recovery_deferrals e \<and>
     recovery_failures e' = recovery_failures e \<and> retry_not_before e' = retry_not_before e"

lemma close_gap_spec:
  assumes ok: "entry_ok e"
  obtains e' out gd where "close_gap e = Some (e', out, gd)" "entry_ok e'" "same_recovery e e'"
    "chain (pts e) (map snd out) (pts e')" "\<forall>(u, i)\<in>set out. tracked (entry_key e) u \<and> from_update u = Some i"
    "possible_gap e' \<noteq> None \<longleftrightarrow> gd \<noteq> None"
proof (cases "possible_gap e")
  case None
  with ok show thesis by (intro that[of e "[]" None]) (auto simp: close_gap_def same_recovery_def)
next
  case (Some g)
  let ?us = "rev (sort_updates_by_key (\<lambda>u. - update_sort_key u) (gap_updates g))"
  have g: "gap_ok (entry_key e) g" using ok Some by (simp add: entry_ok_def none_or_def)
  have us: "list_all (tracked (entry_key e)) ?us" "length ?us \<le> MAX_HELD_UPDATES"
    using g by (simp_all add: gap_ok_def sort_updates_by_key_eq list_all_iff)
  obtain p out left where d: "drain_gap (pts e) ?us = Some (p, out, left)" "chain (pts e) (map snd out) p"
      "suffix left ?us" "\<forall>(u, i)\<in>set out. u \<in> set ?us \<and> from_update u = Some i"
    using drain_gap_spec[OF us(1), of "pts e"] by auto
  have out: "\<forall>(u, i)\<in>set out. tracked (entry_key e) u \<and> from_update u = Some i"
    using d(4) us(1) by (auto simp: list_all_iff)
  have left: "length left \<le> MAX_HELD_UPDATES" "list_all (tracked (entry_key e)) left"
    using suffix_length_le[OF d(3)] us set_mono_suffix[OF d(3)] by (auto simp: list_all_iff)
  show thesis
  proof (cases "left = []")
    case True
    with d(1) Some have c: "close_gap e = Some (e\<lparr>pts := p, possible_gap := None\<rparr>, out, None)"
      by (simp add: close_gap_def Let_def)
    show thesis
      by (rule that[OF c]) (insert ok d(2) out, auto simp: entry_ok_def none_or_def same_recovery_def)
  next
    case False
    with d(1) Some have c: "close_gap e =
        Some (e\<lparr>pts := p, possible_gap := Some (g\<lparr>gap_updates := rev left\<rparr>)\<rparr>, out, Some (gap_deadline g))"
      by (simp add: close_gap_def Let_def)
    show thesis
      by (rule that[OF c])
        (insert ok d(2) out left False, auto simp: entry_ok_def none_or_def same_recovery_def gap_ok_def)
  qed
qed

lemma receive_update_spec:
  assumes ok: "entry_ok e" and u: "tracked (entry_key e) u" "from_update u = Some info"
    and r: "receive_update now dl u info e = (e1, out)"
  shows "entry_ok e1 \<and> same_recovery e e1 \<and> chain (pts e) (map snd out) (pts e1) \<and> set out \<subseteq> {(u, info)}"
  using ok u r
  by (auto simp: receive_update_def entry_ok_def none_or_def same_recovery_def gap_ok_def Let_def
      MAX_HELD_UPDATES_def split: if_splits option.splits)

lemma apply_to_entry_spec:
  assumes ok: "entry_ok e" and u: "tracked (entry_key e) u" "from_update u = Some info"
  obtains e' out gd where "apply_to_entry now dl u info e = Some (e', out, gd)" "entry_ok e'" "same_recovery e e'"
    "chain (pts e) (map snd out) (pts e')" "\<forall>(v, i)\<in>set out. tracked (entry_key e) v \<and> from_update v = Some i"
    "possible_gap e' \<noteq> None \<longleftrightarrow> gd \<noteq> None"
proof -
  obtain e1 out1 where r: "receive_update now dl u info e = (e1, out1)" by fastforce
  note r' = receive_update_spec[OF ok u r]
  then have "entry_ok e1" by blast
  then obtain e' out2 gd where c: "close_gap e1 = Some (e', out2, gd)" "entry_ok e'" "same_recovery e1 e'"
      "chain (pts e1) (map snd out2) (pts e')" "\<forall>(u, i)\<in>set out2. tracked (entry_key e1) u \<and> from_update u = Some i"
      "possible_gap e' \<noteq> None \<longleftrightarrow> gd \<noteq> None"
    by (rule close_gap_spec)
  have a: "apply_to_entry now dl u info e = Some (e', out1 @ out2, gd)" by (simp add: apply_to_entry_def r c(1))
  have "chain (pts e) (map snd (out1 @ out2)) (pts e')" using r' c(4) by (auto simp: chain_append)
  moreover have "\<forall>(v, i)\<in>set (out1 @ out2). tracked (entry_key e) v \<and> from_update v = Some i"
    using r' c(5) u by (auto simp: same_recovery_def)
  moreover have "same_recovery e e'" using r' c(3) by (simp add: same_recovery_def)
  ultimately show thesis using that[OF a c(2)] c(6) by blast
qed

end
