(* ===== verification/Mb_Process.thy ===== *)
theory Mb_Process
  imports Mb_Invariant
begin

text \<open>
  Processing a batch of updates: it always returns, keeps the invariant, and what it delivers
  from each message box is a contiguous run that takes the box from its old position to its new
  one, while boxes being recovered neither deliver nor move.
\<close>

section \<open>The rounds of the loop\<close>

lemma process_one_other: "(\<And>c p. u \<noteq> ChannelTooLong c p) \<Longrightarrow> process_one now force mk_state u st = process_update now force mk_state u st"
  by (cases u) (simp_all add: process_one_def, blast)

text \<open>The entry a position update is applied to, created on demand.\<close>

definition target_entry :: "instant \<Rightarrow> message_boxes \<Rightarrow> pts_info \<Rightarrow> live_entry" where
  "target_entry now b info =
     (case entry b (info_key info) of
        Some e \<Rightarrow> e
      | None \<Rightarrow> mk_entry (info_key info) (info_pts info - info_count info) (next_updates_deadline now) False)"

lemma target_entry_ok:
  assumes "mb_inv b"
  shows "entry_ok (target_entry now b info)" "entry_key (target_entry now b info) = info_key info"
  using mb_invD(5)[OF assms, of "info_key info"] by (auto simp: target_entry_def split: option.splits)

lemma process_update_applied:
  assumes inv: "mb_inv (boxes st)" and valid: "valid_update u" and info: "from_update u = Some info"
    and k: "info_key info \<notin> set force" "\<not> is_getting_diff (boxes st) (info_key info)"
      "info_key info = Secondary \<longrightarrow> entry (boxes st) Common \<noteq> None"
    and a: "apply_to_entry now (next_updates_deadline now) u info (target_entry now (boxes st) info) = Some (e', out, gd)"
      "entry_key e' = info_key info"
  shows "process_update now force mk_state u st =
     Some (Inr \<lparr>boxes = (boxes st)\<lparr>entries := put_entry (entries (boxes st)) e',
          next_deadline := min (next_deadline (boxes st)) (case gd of Some d \<Rightarrow> d | None \<Rightarrow> next_updates_deadline now)\<rparr>,
        results = results st @ map (\<lambda>(v, i). (v, mk_state (Some (message_box_of i)))) out,
        unresolved = (unresolved st \<or> gd \<noteq> None)\<rparr>)"
proof -
  let ?upd = "\<lambda>e. case apply_to_entry now (next_updates_deadline now) u info e of
                     None \<Rightarrow> (e, None) | Some (e', out, gd) \<Rightarrow> (e', Some (out, gd))"
  let ?new = "mk_entry (info_key info) (info_pts info - info_count info) (next_updates_deadline now) False"
  have "force_entry (entries (boxes st)) ?new ?upd = (put_entry (entries (boxes st)) e', Some (out, gd))"
    using a by (intro force_entry_put[OF mb_invD(2)[OF inv]]) (simp_all add: target_entry_def entry_def)
  then have "force_update_entry (boxes st) ?new ?upd =
      ((boxes st)\<lparr>entries := put_entry (entries (boxes st)) e'\<rparr>, Some (out, gd))"
    by (simp add: force_update_entry_def)
  then show ?thesis using k valid_update_range[OF valid info] by (auto simp: process_update_def Let_def info)
qed

lemma process_update_cases:
  assumes inv: "mb_inv (boxes st)" and valid: "valid_update u"
  obtains
    (plain) "process_update now force mk_state u st = Some (Inr (st\<lparr>results := results st @ [(u, mk_state None)]\<rparr>))"
  | (forced) info where "from_update u = Some info" "info_key info \<in> set force"
      "process_update now force mk_state u st =
         Some (Inr (st\<lparr>boxes := reset_deadline (boxes st) (info_key info) (next_updates_deadline now),
                       results := results st @ [(u, mk_state (Some (message_box_of info)))]\<rparr>))"
  | (postponed) info where "from_update u = Some info" "info_key info \<notin> set force"
      "is_getting_diff (boxes st) (info_key info)"
      "process_update now force mk_state u st =
         Some (Inr (st\<lparr>unresolved := True, boxes := postpone (boxes st) (info_key info) u\<rparr>))"
  | (applied) info e' out gd where "from_update u = Some info" "info_key info \<notin> set force"
      "\<not> is_getting_diff (boxes st) (info_key info)"
      "info_key info = Secondary \<longrightarrow> entry (boxes st) Common \<noteq> None"
      "apply_to_entry now (next_updates_deadline now) u info (target_entry now (boxes st) info) = Some (e', out, gd)"
      "process_update now force mk_state u st =
         Some (Inr \<lparr>boxes = (boxes st)\<lparr>entries := put_entry (entries (boxes st)) e',
              next_deadline := min (next_deadline (boxes st)) (case gd of Some d \<Rightarrow> d | None \<Rightarrow> next_updates_deadline now)\<rparr>,
            results = results st @ map (\<lambda>(v, i). (v, mk_state (Some (message_box_of i)))) out,
            unresolved = (unresolved st \<or> gd \<noteq> None)\<rparr>)"
proof (cases "from_update u")
  case None
  then show thesis using plain by (simp add: process_update_def Let_def)
next
  case (Some info)
  let ?k = "info_key info"
  have rng: "\<not> info_count info < 0" "\<not> info_pts info < info_count info"
    using valid_update_range[OF valid Some] by simp_all
  note one = process_update_def[of now force mk_state u st, unfolded Some Let_def option.case]
  consider (force) "?k \<in> set force" | (pend) "?k \<notin> set force" "is_getting_diff (boxes st) ?k"
    | (early) "?k \<notin> set force" "\<not> is_getting_diff (boxes st) ?k" "?k = Secondary" "entry (boxes st) Common = None"
    | (app) "?k \<notin> set force" "\<not> is_getting_diff (boxes st) ?k" "?k = Secondary \<longrightarrow> entry (boxes st) Common \<noteq> None"
    by blast
  then show thesis
  proof cases
    case force
    then show thesis using forced[OF Some] one rng by simp
  next
    case pend
    then show thesis using postponed[OF Some] one rng by simp
  next
    case early
    then show thesis using plain one rng by simp
  next
    case app
    let ?e = "target_entry now (boxes st) info"
    have "tracked (entry_key ?e) u" using tracked_of[OF valid Some] target_entry_ok(2)[OF inv] by simp
    then obtain e' out gd where a: "apply_to_entry now (next_updates_deadline now) u info ?e = Some (e', out, gd)"
        "same_recovery ?e e'"
      using apply_to_entry_spec[OF target_entry_ok(1)[OF inv] _ Some] by metis
    have "entry_key e' = ?k" using a(2) target_entry_ok(2)[OF inv, of now info] by (simp add: same_recovery_def)
    from process_update_applied[OF inv valid Some app a(1) this] show thesis by (rule applied[OF Some app a(1)])
  qed
qed

text \<open>Postponing touches only the held updates.\<close>

lemma postpone_frame [simp]:
  "entries (postpone b k u) = entries b" "getting_diff_for (postpone b k u) = getting_diff_for b"
  "ready_diff_count (postpone b k u) = ready_diff_count b" "date (postpone b k u) = date b" "seq (postpone b k u) = seq b"
  by (auto simp: postpone_def split: key.splits prod.splits)

lemma postpone_inv: "mb_inv b \<Longrightarrow> tracked k u \<Longrightarrow> mb_inv (postpone b k u)"
  using held_inv_hold[of "held_updates b" _ u "held_overflowed b"]
  by (cases k) (auto simp: postpone_def mb_inv_def split: prod.splits, metis fst_conv)

section \<open>Positions and deliveries\<close>

definition pos :: "message_boxes \<Rightarrow> key \<Rightarrow> int option" where
  "pos b k = map_option pts (entry b k)"

text \<open>The positioned updates of one box in a list of results, in order.\<close>

definition delivered_info :: "key \<Rightarrow> tl_update \<times> update_state \<Rightarrow> pts_info option" where
  "delivered_info k r = (case r of (u, s) \<Rightarrow>
     case from_update u of
       Some info \<Rightarrow> if info_key info = k \<and> state_box s \<noteq> None then Some info else None
     | None \<Rightarrow> None)"

definition delivered :: "key \<Rightarrow> (tl_update \<times> update_state) list \<Rightarrow> pts_info list" where
  "delivered k rs = List.map_filter (delivered_info k) rs"

lemma delivered_simps [simp]:
  "delivered k [] = []"
  "delivered k (r # rs) = (case delivered_info k r of Some i \<Rightarrow> i # delivered k rs | None \<Rightarrow> delivered k rs)"
  "delivered k (rs @ ss) = delivered k rs @ delivered k ss"
  by (simp_all add: delivered_def List.map_filter_def split: option.splits)

text \<open>
  \<open>advances p is q\<close>: the contiguous run \<open>is\<close> takes a box from position \<open>p\<close> to \<open>q\<close>; a box
  without position may start anywhere.
\<close>

fun advances :: "int option \<Rightarrow> pts_info list \<Rightarrow> int option \<Rightarrow> bool" where
  "advances (Some p) is (Some q) = chain p is q"
| "advances None is (Some q) = (\<exists>p. chain p is q)"
| "advances None is None = (is = [])"
| "advances (Some p) is None = False"

lemma advances_refl [simp]: "advances p [] p"
  by (cases p) auto

lemma advances_trans: "advances p is q \<Longrightarrow> advances q js r \<Longrightarrow> advances p (is @ js) r"
  by (cases p; cases q; cases r) (auto simp: chain_append)

text \<open>What a batch, or a part of it, does to the boxes and delivers.\<close>

definition is_ready :: "message_boxes \<Rightarrow> key \<Rightarrow> bool" where
  "is_ready b k = (case entry b k of Some e \<Rightarrow> ready e | None \<Rightarrow> False)"

definition batch_ok :: "key list \<Rightarrow> message_boxes \<Rightarrow> (tl_update \<times> update_state) list \<Rightarrow> message_boxes \<Rightarrow> bool" where
  "batch_ok force b new b' \<longleftrightarrow> mb_inv b' \<and> date b' = date b \<and> seq b' = seq b \<and>
     (\<forall>k. k \<notin> set force \<longrightarrow> advances (pos b k) (delivered k new) (pos b' k)) \<and>
     (\<forall>k. is_getting_diff b k \<longrightarrow> is_getting_diff b' k \<and> pos b' k = pos b k \<and>
          (k \<notin> set force \<longrightarrow> delivered k new = [])) \<and>
     (\<forall>k. is_ready b k \<longrightarrow> is_ready b' k) \<and> list_all (\<lambda>(u, s). valid_update u) new \<and>
     (\<forall>k\<in>set force. entry b k \<noteq> None \<longrightarrow> pos b' k = pos b k)"

lemma batch_ok_refl: "mb_inv b \<Longrightarrow> batch_ok force b [] b"
  by (simp add: batch_ok_def)

lemma pos_None: "pos b k = None \<longleftrightarrow> entry b k = None"
  by (simp add: pos_def)

lemma batch_ok_trans:
  assumes "batch_ok force b n1 b1" "batch_ok force b1 n2 b2"
  shows "batch_ok force b (n1 @ n2) b2"
  using assms unfolding batch_ok_def by (auto intro: advances_trans simp flip: pos_None)

lemma batch_ok_same_entries:
  assumes "mb_inv b'" "date b' = date b" "seq b' = seq b" "entry b' = entry b"
    and "\<And>k. k \<notin> set force \<Longrightarrow> delivered k new = []" "list_all (\<lambda>(u, s). valid_update u) new"
  shows "batch_ok force b new b'"
  using assms by (simp add: batch_ok_def pos_def is_getting_diff_def is_ready_def)

text \<open>A change to one entry that keeps its position, and its recovery once it is pending.\<close>

lemma batch_ok_entry:
  assumes "mb_inv b'" "date b' = date b" "seq b' = seq b"
    and ent: "entry b' = (entry b)(k := map_option f (entry b k))"
    and f: "\<And>e. pts (f e) = pts e" "\<And>e. recovery_pending e \<Longrightarrow> recovery_pending (f e)" "\<And>e. ready e \<Longrightarrow> ready (f e)"
    and new: "\<And>k. k \<notin> set force \<Longrightarrow> delivered k new = []" "list_all (\<lambda>(u, s). valid_update u) new"
  shows "batch_ok force b new b'"
proof -
  have "pos b' j = pos b j" for j using f(1) by (simp add: pos_def ent option.map_comp comp_def)
  moreover have "is_getting_diff b j \<Longrightarrow> is_getting_diff b' j" for j
    using f(2) by (auto simp: is_getting_diff_def ent split: option.splits if_splits)
  moreover have "is_ready b j \<Longrightarrow> is_ready b' j" for j
    using f(3) by (auto simp: is_ready_def ent split: option.splits if_splits)
  ultimately show ?thesis using assms(1-3) new by (simp add: batch_ok_def)
qed

lemma process_too_long_ok:
  assumes inv: "mb_inv b"
  shows "batch_ok force b [] (process_too_long now c p b)"
proof (cases "is_getting_diff b (Channel c)")
  case True
  then show ?thesis using batch_ok_refl[OF inv] by (simp add: process_too_long_def Let_def)
next
  case False
  have start: "batch_ok force b' [] (try_begin_get_diff now b' (Channel c))" if "mb_inv b'" for b'
    using try_begin_inv[OF that, of now "Channel c"]
    by (intro batch_ok_entry[of _ _ "Channel c" "began now"]) (auto simp: began_def ready_def)
  show ?thesis
  proof (cases "\<exists>q. p = Some q \<and> NO_PTS < q \<and> entry b (Channel c) = None")
    case True
    then obtain q where q: "p = Some q" "NO_PTS < q" and none: "entry b (Channel c) = None" by blast
    let ?e = "mk_entry (Channel c) q (next_updates_deadline now) False"
    note s = set_entry_inv[OF inv, of ?e, simplified, OF none]
    have "batch_ok force b [] (set_entry b ?e)"
      using s none inv
      by (auto simp: batch_ok_def pos_def is_getting_diff_def is_ready_def set_entry_def intro!: exI[of _ q])
    from batch_ok_trans[OF this start[OF s(1)]] show ?thesis
      using False q none by (simp add: process_too_long_def Let_def)
  next
    case no: False
    then have "process_too_long now c p b = try_begin_get_diff now b (Channel c)"
      using False by (auto simp: process_too_long_def Let_def split: option.splits)
    with start[OF inv] show ?thesis by simp
  qed
qed

lemma delivered_out:
  assumes "\<forall>(v, i)\<in>set out. tracked k v \<and> from_update v = Some i" and "\<And>mb. state_box (mk_state (Some mb)) \<noteq> None"
  shows "delivered j (map (\<lambda>(v, i). (v, mk_state (Some (message_box_of i)))) out) = (if j = k then map snd out else [])"
  using assms(1)
proof (induction out)
  case Nil
  then show ?case by simp
next
  case (Cons x out)
  obtain v i where x: "x = (v, i)" by fastforce
  with Cons.prems have "from_update v = Some i" "info_key i = k" by (auto simp: tracked_def)
  with Cons x assms(2) show ?case by (auto simp: delivered_info_def)
qed

lemma applied_ok:
  assumes inv: "mb_inv b" and valid: "valid_update u" and info: "from_update u = Some info"
    and k: "info_key info \<notin> set force" "\<not> is_getting_diff b (info_key info)"
    and acc: "info_key info = Secondary \<longrightarrow> entry b Common \<noteq> None"
    and app: "apply_to_entry now dl u info (target_entry now b info) = Some (e', out, gd)"
    and mk: "\<And>mb. state_box (mk_state (Some mb)) \<noteq> None"
  shows "batch_ok force b (map (\<lambda>(v, i). (v, mk_state (Some (message_box_of i)))) out)
           (b\<lparr>entries := put_entry (entries b) e', next_deadline := nd\<rparr>)"
proof -
  let ?k = "info_key info" and ?e = "target_entry now b info"
  let ?b = "b\<lparr>entries := put_entry (entries b) e', next_deadline := nd\<rparr>"
  note e = target_entry_ok[OF inv, of now info]
  have "tracked (entry_key ?e) u" using tracked_of[OF valid info] e(2) by simp
  then obtain e1 out1 gd1 where "apply_to_entry now dl u info ?e = Some (e1, out1, gd1)" "entry_ok e1"
      "same_recovery ?e e1" "chain (pts ?e) (map snd out1) (pts e1)"
      "\<forall>(v, i)\<in>set out1. tracked (entry_key ?e) v \<and> from_update v = Some i"
    by (rule apply_to_entry_spec[OF e(1) _ info])
  with app e(2) have a: "entry_ok e'" "same_recovery ?e e'" "chain (pts ?e) (map snd out) (pts e')"
      "\<forall>(v, i)\<in>set out. tracked ?k v \<and> from_update v = Some i" by simp_all
  have key: "entry_key e' = ?k" using a(2) e(2) by (simp add: same_recovery_def)
  have np: "\<not> recovery_pending ?e" using k(2) by (auto simp: target_entry_def is_getting_diff_def split: option.splits)
  then have nr: "\<not> ready e'" using a(2) by (simp add: same_recovery_def ready_def)
  have "?k \<notin> set (getting_diff_for b)"
    using mb_invD(6)[OF inv, of ?k] k(2) by (auto simp: is_getting_diff_def ready_def)
  then have "table_inv (put_entry (entries b) e') (getting_diff_for b) (ready_diff_count b)"
    using a(1) nr key by (intro table_inv_put_same mb_invD(1)[OF inv]) auto
  moreover have "account_inv (put_entry (entries b) e')"
    using acc key by (intro account_inv_put mb_invD(2,4)[OF inv]) (auto simp: entry_def)
  ultimately have inv': "mb_inv ?b" using mb_invD(3)[OF inv] by (simp add: mb_inv_def)
  have ent: "entry ?b = (entry b)(?k \<mapsto> e')" using entry_put[OF mb_invD(2)[OF inv], of ?b e'] key by simp
  note out = delivered_out[where mk_state = mk_state, OF a(4) mk]
  have "advances (pos b j) (delivered j (map (\<lambda>(v, i). (v, mk_state (Some (message_box_of i)))) out)) (pos ?b j)" for j
    using a(3) by (auto simp: out pos_def ent target_entry_def split: option.splits)
  moreover have "is_getting_diff b j \<Longrightarrow> j \<noteq> ?k" for j using k(2) by auto
  moreover have "is_ready b j \<Longrightarrow> j \<noteq> ?k" for j
    using k(2) by (auto simp: is_ready_def is_getting_diff_def ready_def split: option.splits)
  moreover have "list_all (\<lambda>(u, s). valid_update u) (map (\<lambda>(v, i). (v, mk_state (Some (message_box_of i)))) out)"
    using a(4) by (auto simp: list_all_iff tracked_def)
  ultimately show ?thesis
    using inv' k(1) by (auto simp: batch_ok_def out pos_def ent is_getting_diff_def is_ready_def)
qed

section \<open>The loop and the whole function\<close>

lemma process_one_ok:
  assumes inv: "mb_inv (boxes st)" and valid: "valid_update u"
    and mk: "state_box (mk_state None) = None" "\<And>mb. state_box (mk_state (Some mb)) \<noteq> None"
  obtains st' new where "process_one now force mk_state u st = Some (Inr st')"
    "results st' = results st @ new" "batch_ok force (boxes st) new (boxes st')"
proof (cases "\<exists>c p. u = ChannelTooLong c p")
  case True
  then obtain c p where u: "u = ChannelTooLong c p" by blast
  have "process_one now force mk_state u st = Some (Inr (st\<lparr>boxes := process_too_long now c p (boxes st)\<rparr>))"
    by (simp add: u process_one_def)
  from that[OF this, of "[]"] show thesis using process_too_long_ok[OF inv] by simp
next
  case False
  then have eq: "process_one now force mk_state u st = process_update now force mk_state u st"
    by (intro process_one_other) blast
  show thesis
  proof (rule process_update_cases[OF inv valid, of now force mk_state], goal_cases plain forced postponed applied)
    case plain
    have "delivered k [(u, mk_state None)] = []" for k using mk(1) by (simp add: delivered_info_def split: option.splits)
    then show thesis using plain inv valid
      by (intro that[OF eq[unfolded plain]]) (auto intro: batch_ok_same_entries)
  next
    case (forced info)
    let ?b = "reset_deadline (boxes st) (info_key info) (next_updates_deadline now)"
    note rd = reset_deadline_inv[OF inv, of "info_key info" "next_updates_deadline now"]
    have "delivered k [(u, mk_state (Some (message_box_of info)))] = []" if "k \<notin> set force" for k
      using that forced(1,2) by (auto simp: delivered_info_def)
    then have "batch_ok force (boxes st) [(u, mk_state (Some (message_box_of info)))] ?b"
      using rd valid by (intro batch_ok_entry[OF rd(1) _ _ rd(2)]) auto
    then show thesis using that[OF eq[unfolded forced(3)]] by simp
  next
    case (postponed info)
    have "mb_inv (postpone (boxes st) (info_key info) u)"
      using tracked_of[OF valid postponed(1)] by (rule postpone_inv[OF inv])
    then have "batch_ok force (boxes st) [] (postpone (boxes st) (info_key info) u)"
      by (intro batch_ok_same_entries) (auto intro: entry_cong)
    then show thesis using that[OF eq[unfolded postponed(4)], of "[]"] by simp
  next
    case (applied info e' out gd)
    from applied_ok[where mk_state = mk_state, OF inv valid applied(1,2,3,4,5) mk(2)] show thesis
      using that[OF eq[unfolded applied(6)]] by simp
  qed
qed

lemma process_loop_ok:
  assumes "mb_inv (boxes st)" "list_all valid_update us"
    and mk: "state_box (mk_state None) = None" "\<And>mb. state_box (mk_state (Some mb)) \<noteq> None"
  obtains st' new where "process_loop now force mk_state us st = Some (Inr st')"
    "results st' = results st @ new" "batch_ok force (boxes st) new (boxes st')"
  using assms(1,2)
proof (induction us arbitrary: st thesis)
  case Nil
  then show thesis by (intro Nil(1)[of st "[]"]) (auto intro: batch_ok_refl)
next
  case (Cons u us)
  have u: "valid_update u" and us: "list_all valid_update us" using Cons.prems(3) by simp_all
  obtain st1 n1 where one: "process_one now force mk_state u st = Some (Inr st1)"
      "results st1 = results st @ n1" "batch_ok force (boxes st) n1 (boxes st1)"
    by (rule process_one_ok[OF Cons.prems(2) u mk])
  have "mb_inv (boxes st1)" using one(3) by (simp add: batch_ok_def)
  from Cons.IH[OF _ this us] obtain st2 n2 where two: "process_loop now force mk_state us st1 = Some (Inr st2)"
      "results st2 = results st1 @ n2" "batch_ok force (boxes st1) n2 (boxes st2)" by metis
  show thesis
    using one two batch_ok_trans[OF one(3) two(3)] by (intro Cons.prems(1)[of st2 "n1 @ n2"]) simp_all
qed

text \<open>Within a batch of valid updates only the announcement that a channel lags starts a recovery.\<close>

lemma process_too_long_pending:
  assumes inv: "mb_inv b" and p: "is_getting_diff (process_too_long now c p b) k"
  shows "is_getting_diff b k \<or> k = Channel c"
proof -
  have start: "is_getting_diff b' k \<or> k = Channel c" if "mb_inv b'" "is_getting_diff (try_begin_get_diff now b' (Channel c)) k" for b'
    using that(2) try_begin_inv(2)[OF that(1), of now "Channel c"]
    by (auto simp: is_getting_diff_def split: option.splits if_splits)
  show ?thesis
  proof (cases "is_getting_diff b (Channel c) \<or> \<not> (\<exists>q. p = Some q \<and> NO_PTS < q \<and> entry b (Channel c) = None)")
    case True
    with p start[OF inv] show ?thesis by (auto simp: process_too_long_def Let_def split: option.splits if_splits)
  next
    case False
    then obtain q where q: "p = Some q" "NO_PTS < q" "entry b (Channel c) = None" "\<not> is_getting_diff b (Channel c)" by blast
    let ?b = "set_entry b (mk_entry (Channel c) q (next_updates_deadline now) False)"
    note s = set_entry_inv[OF inv, of "mk_entry (Channel c) q (next_updates_deadline now) False", simplified, OF q(3)]
    have "is_getting_diff (try_begin_get_diff now ?b (Channel c)) k" using p q by (simp add: process_too_long_def Let_def)
    from start[OF s(1) this] s(2) show ?thesis by (auto simp: is_getting_diff_def split: if_splits)
  qed
qed

lemma process_one_pending:
  assumes inv: "mb_inv (boxes st)" and valid: "valid_update u" and one: "process_one now force mk_state u st = Some (Inr st')"
    and p: "is_getting_diff (boxes st') k"
  shows "is_getting_diff (boxes st) k \<or> (\<exists>c q. u = ChannelTooLong c q \<and> k = Channel c)"
proof (cases "\<exists>c q. u = ChannelTooLong c q")
  case True
  then obtain c q where "u = ChannelTooLong c q" by blast
  with one p process_too_long_pending[OF inv, of now c q k] show ?thesis by (auto simp: process_one_def)
next
  case False
  then have u: "process_update now force mk_state u st = Some (Inr st')"
    using one process_one_other[of u now force mk_state st] by auto
  show ?thesis
  proof (rule process_update_cases[OF inv valid, of now force mk_state], goal_cases plain forced postponed applied)
    case plain
    with u p show ?thesis by auto
  next
    case (forced info)
    with u p reset_deadline_inv(2)[OF inv, of "info_key info" "next_updates_deadline now"] show ?thesis
      by (auto simp: is_getting_diff_def split: option.splits if_splits)
  next
    case (postponed info)
    with u p entry_cong[of "postpone (boxes st) (info_key info) u" "boxes st"] show ?thesis
      by (auto simp: is_getting_diff_def)
  next
    case (applied info e' out gd)
    let ?e = "target_entry now (boxes st) info"
    note e = target_entry_ok[OF inv, of now info]
    have "tracked (entry_key ?e) u" using tracked_of[OF valid applied(1)] e(2) by simp
    then have same: "same_recovery ?e e'"
      by (rule apply_to_entry_spec[OF e(1) _ applied(1), of now "next_updates_deadline now"]) (use applied(5) in simp)
    have "entry (boxes st') = (entry (boxes st))(info_key info \<mapsto> e')"
      using u applied(6) entry_put[OF mb_invD(2)[OF inv], of "boxes st'" e'] same e(2) by (auto simp: same_recovery_def)
    moreover have "\<not> recovery_pending e'"
      using applied(3) same by (auto simp: same_recovery_def target_entry_def is_getting_diff_def split: option.splits)
    ultimately show ?thesis using p by (auto simp: is_getting_diff_def split: if_splits)
  qed
qed

lemma process_loop_pending:
  assumes "mb_inv (boxes st)" "list_all valid_update us" "process_loop now force mk_state us st = Some (Inr st')"
    and mk: "state_box (mk_state None) = None" "\<And>mb. state_box (mk_state (Some mb)) \<noteq> None"
    and "is_getting_diff (boxes st') k"
  shows "is_getting_diff (boxes st) k \<or> (\<exists>c q. ChannelTooLong c q \<in> set us \<and> k = Channel c)"
  using assms(1,2,3,6)
proof (induction us arbitrary: st)
  case (Cons u us)
  have u: "valid_update u" and us: "list_all valid_update us" using Cons.prems(2) by simp_all
  obtain st1 n1 where one: "process_one now force mk_state u st = Some (Inr st1)" "batch_ok force (boxes st) n1 (boxes st1)"
    by (rule process_one_ok[OF Cons.prems(1) u mk])
  then have "mb_inv (boxes st1)" by (simp add: batch_ok_def)
  from Cons.IH[OF this us] Cons.prems(3,4) one(1) process_one_pending[OF Cons.prems(1) u one(1), of k] show ?case by auto
qed simp

text \<open>
  Updates without a position, and those of the boxes a difference is applied to, are delivered as
  they are, in the order of the batch.
\<close>

fun is_too_long :: "tl_update \<Rightarrow> bool" where
  "is_too_long (ChannelTooLong c p) = True"
| "is_too_long _ = False"

definition immediate :: "key list \<Rightarrow> tl_update \<Rightarrow> bool" where
  "immediate force u \<longleftrightarrow> \<not> is_too_long u \<and> (case from_update u of Some info \<Rightarrow> info_key info \<in> set force | None \<Rightarrow> True)"

lemma process_one_immediate:
  assumes inv: "mb_inv (boxes st)" and valid: "valid_update u" and one: "process_one now force mk_state u st = Some (Inr st')"
  shows "filter (immediate force) (map fst (results st')) =
    filter (immediate force) (map fst (results st)) @ filter (immediate force) [u]"
proof (cases "is_too_long u")
  case True
  then show ?thesis using one
    by (cases u) (auto simp: process_one_def immediate_def)
next
  case False
  then have u: "process_update now force mk_state u st = Some (Inr st')"
    using one process_one_other[of u now force mk_state st] by (cases u) auto
  show ?thesis
  proof (rule process_update_cases[OF inv valid, of now force mk_state], goal_cases plain forced postponed applied)
    case plain
    with u show ?thesis by auto
  next
    case (forced info)
    with u show ?thesis by auto
  next
    case (postponed info)
    with u show ?thesis by (auto simp: immediate_def)
  next
    case (applied info e' out gd)
    let ?e = "target_entry now (boxes st) info"
    note e = target_entry_ok[OF inv, of now info]
    have "tracked (entry_key ?e) u" using tracked_of[OF valid applied(1)] e(2) by simp
    then have "\<forall>(v, i)\<in>set out. tracked (info_key info) v \<and> from_update v = Some i"
      by (rule apply_to_entry_spec[OF e(1) _ applied(1), of now "next_updates_deadline now"]) (use applied(5) e(2) in simp)
    then have "filter (immediate force) (map fst out) = []"
      using applied(2) by (auto simp: immediate_def tracked_def filter_empty_conv)
    moreover have "results st' = results st @ map (\<lambda>(v, i). (v, mk_state (Some (message_box_of i)))) out"
      using u applied(6) by auto
    then have "map fst (results st') = map fst (results st) @ map fst out" by (auto simp: comp_def case_prod_beta)
    ultimately show ?thesis using applied(1,2) by (simp add: immediate_def)
  qed
qed

lemma process_loop_immediate:
  assumes "mb_inv (boxes st)" "list_all valid_update us" "process_loop now force mk_state us st = Some (Inr st')"
    and mk: "state_box (mk_state None) = None" "\<And>mb. state_box (mk_state (Some mb)) \<noteq> None"
  shows "filter (immediate force) (map fst (results st')) =
    filter (immediate force) (map fst (results st)) @ filter (immediate force) us"
  using assms(1,2,3)
proof (induction us arbitrary: st)
  case (Cons u us)
  have u: "valid_update u" and us: "list_all valid_update us" using Cons.prems(2) by simp_all
  obtain st1 n1 where one: "process_one now force mk_state u st = Some (Inr st1)" "batch_ok force (boxes st) n1 (boxes st1)"
    by (rule process_one_ok[OF Cons.prems(1) u mk])
  then have "mb_inv (boxes st1)" by (simp add: batch_ok_def)
  from Cons.IH[OF this us] Cons.prems(3) one(1) process_one_immediate[OF Cons.prems(1) u one(1)] show ?case by auto
qed simp

end
