(* ===== verification/Mb_Operations.thy ===== *)
theory Mb_Operations
  imports Mb_Process
begin

text \<open>
  Every public operation of the message boxes keeps the invariant and does not panic.
\<close>

section \<open>Whole batches\<close>

lemma boxes_same: "\<exists>d s. (b :: message_boxes) = b\<lparr>date := d, seq := s\<rparr>"
  by (rule exI[of _ "date b"], rule exI[of _ "seq b"]) simp

lemma inner_cases:
  assumes inv: "mb_inv b"
  obtains
    (gap) "process_updates_inner now force b ul = Some (try_begin_get_diff now b Common, Inl Gap)"
  | (applied) rs users chats bm b' where "process_updates_inner now force b ul = Some (b', Inr (rs, users, chats))"
      "batch_ok force b rs bm" "\<exists>d s. b' = bm\<lparr>date := d, seq := s\<rparr>"
proof (cases "adapt ul")
  case (Inl g)
  then show thesis using gap by (cases g) (simp add: process_updates_inner_def)
next
  case (Inr uc)
  define pend where "pend = (force = [] \<and> (is_getting_diff b Common \<or> is_getting_diff b Secondary))"
  define d where "d = (if uc_date uc = NO_DATE \<or> pend then date b else uc_date uc)"
  define s where "s = (if uc_seq uc = NO_SEQ \<or> pend then seq b else uc_seq uc)"
  define mk where "mk = (\<lambda>mb. \<lparr>state_date = d, state_seq = s, state_box = mb\<rparr>)"
  note inner = process_updates_inner_def[of now force b ul, unfolded Inr sum.case Let_def,
      folded pend_def, folded d_def s_def, folded mk_def]
  let ?us = "sort_updates_by_key update_sort_key (uc_updates uc)"
  let ?st = "\<lparr>boxes = b, results = [], unresolved = False\<rparr>"
  consider (range) "uc_date uc < 0 \<or> uc_seq uc < 0 \<or> uc_seq_start uc < 0"
    | (old) "\<not> (uc_date uc < 0 \<or> uc_seq uc < 0 \<or> uc_seq_start uc < 0)"
      "uc_seq_start uc \<noteq> NO_SEQ \<and> \<not> pend \<and> seq b + 1 > uc_seq_start uc"
    | (ahead) "\<not> (uc_date uc < 0 \<or> uc_seq uc < 0 \<or> uc_seq_start uc < 0)"
      "uc_seq_start uc \<noteq> NO_SEQ \<and> \<not> pend \<and> seq b + 1 < uc_seq_start uc"
    | (invalid) "\<not> (uc_date uc < 0 \<or> uc_seq uc < 0 \<or> uc_seq_start uc < 0)"
      "\<not> (uc_seq_start uc \<noteq> NO_SEQ \<and> \<not> pend \<and> seq b + 1 > uc_seq_start uc)"
      "\<not> (uc_seq_start uc \<noteq> NO_SEQ \<and> \<not> pend \<and> seq b + 1 < uc_seq_start uc)"
      "list_ex (\<lambda>u. \<not> valid_update u) (uc_updates uc)"
    | (valid) "\<not> (uc_date uc < 0 \<or> uc_seq uc < 0 \<or> uc_seq_start uc < 0)"
      "\<not> (uc_seq_start uc \<noteq> NO_SEQ \<and> \<not> pend \<and> seq b + 1 > uc_seq_start uc)"
      "\<not> (uc_seq_start uc \<noteq> NO_SEQ \<and> \<not> pend \<and> seq b + 1 < uc_seq_start uc)"
      "\<not> list_ex (\<lambda>u. \<not> valid_update u) (uc_updates uc)" by blast
  then show thesis
  proof cases
    case old
    then have "process_updates_inner now force b ul = Some (b, Inr ([], uc_users uc, uc_chats uc))"
      using inner by simp
    from applied[OF this batch_ok_refl[OF inv]] show thesis using boxes_same by blast
  next
    case valid
    then have "list_all valid_update ?us" by (auto simp: sort_updates_by_key_eq list_all_iff list_ex_iff)
    then obtain st new where l: "process_loop now force mk ?us ?st = Some (Inr st)"
        "results st = new" "batch_ok force b new (boxes st)"
      using process_loop_ok[of ?st ?us mk now force] inv by (auto simp: mk_def)
    have "process_updates_inner now force b ul =
        Some (if results st \<noteq> [] \<and> \<not> unresolved st then (boxes st)\<lparr>date := d, seq := s\<rparr> else boxes st,
              Inr (results st, uc_users uc, uc_chats uc))"
      unfolding inner if_not_P[OF valid(1)] if_not_P[OF valid(2)] if_not_P[OF valid(3)] if_not_P[OF valid(4)] l(1) by simp
    moreover have "\<exists>d' s'. (if results st \<noteq> [] \<and> \<not> unresolved st then (boxes st)\<lparr>date := d, seq := s\<rparr> else boxes st)
        = (boxes st)\<lparr>date := d', seq := s'\<rparr>"
      using boxes_same by (cases "results st \<noteq> [] \<and> \<not> unresolved st") auto
    ultimately show thesis using applied l(2,3) by blast
  next
    case range
    show thesis by (rule gap) (unfold inner if_P[OF range], rule refl)
  next
    case ahead
    then have n: "\<not> (uc_seq_start uc \<noteq> NO_SEQ \<and> \<not> pend \<and> seq b + 1 > uc_seq_start uc)" by simp
    show thesis by (rule gap) (unfold inner if_not_P[OF ahead(1)] if_not_P[OF n] if_P[OF ahead(2)], rule refl)
  next
    case invalid
    show thesis
      by (rule gap) (unfold inner if_not_P[OF invalid(1)] if_not_P[OF invalid(2)] if_not_P[OF invalid(3)]
          if_P[OF invalid(4)], rule refl)
  qed
qed

lemma mb_inv_fields [simp]:
  "mb_inv (b\<lparr>date := d\<rparr>) = mb_inv b" "mb_inv (b\<lparr>seq := s\<rparr>) = mb_inv b"
  "mb_inv (b\<lparr>next_deadline := t\<rparr>) = mb_inv b" "mb_inv (b\<lparr>exhausted_channels := x\<rparr>) = mb_inv b"
  "mb_inv (b\<lparr>held_release_ready := r\<rparr>) = mb_inv b" "mb_inv (b\<lparr>held_overflowed := r\<rparr>) = mb_inv b"
  by (simp_all add: mb_inv_def)

lemma entry_fields [simp]:
  "entry (b\<lparr>date := d\<rparr>) = entry b" "entry (b\<lparr>seq := s\<rparr>) = entry b"
  "entry (b\<lparr>next_deadline := t\<rparr>) = entry b" "entry (b\<lparr>exhausted_channels := x\<rparr>) = entry b"
  "entry (b\<lparr>held_release_ready := r\<rparr>) = entry b" "entry (b\<lparr>held_overflowed := r\<rparr>) = entry b"
  "entry (b\<lparr>held_updates := h\<rparr>) = entry b" "entry (b\<lparr>getting_diff_for := q\<rparr>) = entry b"
  "entry (b\<lparr>ready_diff_count := n\<rparr>) = entry b"
  by (simp_all add: entry_def[abs_def])

lemma pos_fields [simp]:
  "pos (b\<lparr>date := d\<rparr>) = pos b" "pos (b\<lparr>seq := s\<rparr>) = pos b"
  "is_getting_diff (b\<lparr>date := d\<rparr>) = is_getting_diff b" "is_getting_diff (b\<lparr>seq := s\<rparr>) = is_getting_diff b"
  by (simp_all add: pos_def[abs_def] is_getting_diff_def[abs_def])

lemma inner_inv:
  assumes inv: "mb_inv b"
  obtains b' r where "process_updates_inner now force b ul = Some (b', r)" "mb_inv b'"
proof (rule inner_cases[OF inv, of now force ul], goal_cases gap applied)
  case gap
  then show thesis using that try_begin_inv(1)[OF inv] by blast
next
  case (applied rs users chats bm b')
  from applied(4) obtain d s where "b' = bm\<lparr>date := d, seq := s\<rparr>" by blast
  then have "mb_inv b'" using applied(3) by (simp add: batch_ok_def)
  with applied(2) that show thesis by blast
qed

text \<open>A batch without sequence number whose updates are valid is always applied.\<close>

lemma inner_unsequenced:
  assumes inv: "mb_inv b" and us: "list_all valid_update us"
  obtains rs b' where "process_updates_inner now force b (unsequenced us users chats) = Some (b', Inr (rs, users, chats))"
    "batch_ok force b rs b'"
    "\<And>k. is_getting_diff b' k \<Longrightarrow> is_getting_diff b k \<or> (\<exists>c q. ChannelTooLong c q \<in> set us \<and> k = Channel c)"
    "filter (immediate force) (map fst rs) = sort_key update_sort_key (filter (immediate force) us)"
proof -
  define mk where "mk = (\<lambda>mb. \<lparr>state_date = date b, state_seq = seq b, state_box = mb\<rparr>)"
  let ?us = "sort_updates_by_key update_sort_key us"
  let ?st = "\<lparr>boxes = b, results = [], unresolved = False\<rparr>"
  have val: "list_all valid_update ?us" using us by (simp add: sort_updates_by_key_eq list_all_iff)
  then obtain st new where l: "process_loop now force mk ?us ?st = Some (Inr st)"
      "results st = new" "batch_ok force b new (boxes st)"
    using process_loop_ok[of ?st ?us mk now force] inv by (auto simp: mk_def)
  have pend: "is_getting_diff b k \<or> (\<exists>c q. ChannelTooLong c q \<in> set us \<and> k = Channel c)" if "is_getting_diff (boxes st) k" for k
    using process_loop_pending[OF _ val l(1) _ _ that] inv by (simp add: mk_def sort_updates_by_key_eq)
  have imm: "filter (immediate force) (map fst new) = sort_key update_sort_key (filter (immediate force) us)"
    using process_loop_immediate[OF _ val l(1)] inv l(2) by (simp add: mk_def sort_updates_by_key_eq filter_sort)
  have "(boxes st)\<lparr>date := date b, seq := seq b\<rparr> = boxes st" using l(3) by (simp add: batch_ok_def)
  moreover have "\<not> list_ex (\<lambda>u. \<not> valid_update u) us" using us by (auto simp: list_ex_iff list_all_iff)
  ultimately have "process_updates_inner now force b (unsequenced us users chats) = Some (boxes st, Inr (new, users, chats))"
    using l(1,2) by (simp add: process_updates_inner_def updates_to_combined_def Let_def flip: mk_def)
  with that l(3) pend imm show thesis by blast
qed

section \<open>Positions, states and ends of recovery\<close>

lemma try_end_mb:
  assumes inv: "mb_inv b"
  obtains b' where "try_end_get_diff now b k = Some b'" "mb_inv b'"
    "entry b' = (entry b)(k := map_option (ended now) (entry b k))" "k \<notin> set (getting_diff_for b')"
    "held_updates b' = held_updates b" "date b' = date b" "seq b' = seq b" "exhausted_channels b' = exhausted_channels b"
    "set (getting_diff_for b') = set (getting_diff_for b) - {k}"
proof -
  obtain b' where b': "try_end_get_diff now b k = Some b'"
      "table_inv (entries b') (getting_diff_for b') (ready_diff_count b')"
      "entry b' = (entry b)(k := map_option (ended now) (entry b k))" "k \<notin> set (getting_diff_for b')"
      "held_updates b' = held_updates b" "date b' = date b" "seq b' = seq b" "exhausted_channels b' = exhausted_channels b"
      "set (getting_diff_for b') = set (getting_diff_for b) - {k}"
    by (rule try_end_inv[OF mb_invD(1)[OF inv]])
  have "account_inv (entries b')"
    using mb_invD(4)[OF inv] b'(3) by (auto simp: account_inv_def entry_def[abs_def] fun_eq_iff split: if_splits)
  then have "mb_inv b'" using b'(2,5) mb_invD(3)[OF inv] by (simp add: mb_inv_def)
  with that b' show thesis by blast
qed

lemma set_pts_inv:
  assumes inv: "mb_inv b" and acc: "k = Secondary \<Longrightarrow> entry b Common \<noteq> None"
  shows "mb_inv (set_pts now b k p)"
    and "entry (set_pts now b k p) = (entry b)(k \<mapsto>
      (case entry b k of Some e \<Rightarrow> e\<lparr>pts := p\<rparr> | None \<Rightarrow> mk_entry k p (next_updates_deadline now) False))"
proof -
  let ?b = "set_pts now b k p"
  have "mb_inv ?b \<and> entry ?b = (entry b)(k \<mapsto>
      (case entry b k of Some e \<Rightarrow> e\<lparr>pts := p\<rparr> | None \<Rightarrow> mk_entry k p (next_updates_deadline now) False))"
  proof (cases "entry b k")
    case None
    with set_entry_inv[OF inv, of "mk_entry k p (next_updates_deadline now) False"] acc show ?thesis
      by (simp add: set_pts_def update_entry_absent)
  next
    case (Some e)
    let ?f = "\<lambda>e::live_entry. e\<lparr>pts := p\<rparr>"
    have k: "entry_key (?f e) = k" using mb_invD(5)[OF inv Some] by simp
    have "?b = fst (update_entry b k ?f)"
      using update_entry_found[OF inv Some, of ?f] k by (simp add: set_pts_def)
    moreover have "mb_inv (fst (update_entry b k ?f))"
        "entry (fst (update_entry b k ?f)) = (entry b)(k := map_option ?f (entry b k))"
      using mb_invD(5)[OF inv] by (auto intro!: update_entry_inv[OF inv])
    ultimately show ?thesis using Some by simp
  qed
  then show "mb_inv ?b" "entry ?b = (entry b)(k \<mapsto>
      (case entry b k of Some e \<Rightarrow> e\<lparr>pts := p\<rparr> | None \<Rightarrow> mk_entry k p (next_updates_deadline now) False))" by auto
qed

lemma finish_account_inv:
  assumes "mb_inv b"
  obtains b' where "finish_account now b = Some b'" "mb_inv b'"
    "entry b' = (entry b)(Common := map_option (ended now) (entry b Common), Secondary := map_option (ended now) (entry b Secondary))"
    "date b' = date b" "seq b' = seq b"
proof -
  obtain b1 where 1: "try_end_get_diff now b Common = Some b1" "mb_inv b1"
      "entry b1 = (entry b)(Common := map_option (ended now) (entry b Common))" "date b1 = date b" "seq b1 = seq b"
    by (rule try_end_mb[OF assms])
  obtain b2 where 2: "try_end_get_diff now b1 Secondary = Some b2" "mb_inv b2"
      "entry b2 = (entry b1)(Secondary := map_option (ended now) (entry b1 Secondary))" "date b2 = date b1" "seq b2 = seq b1"
    by (rule try_end_mb[OF 1(2)])
  from 1 2 that[of b2] show thesis by (simp add: finish_account_def)
qed

section \<open>Creation\<close>

lemma new_boxes_inv: "mb_inv (new_boxes now)"
  by (simp add: new_boxes_def mb_inv_def table_inv_def held_inv_def account_inv_def find_entry_def
      binary_search_by_key_def bsearch_loop.simps)

lemma pts_same: "\<exists>p. (e :: live_entry) = e\<lparr>pts := p\<rparr>"
  by (rule exI[of _ "pts e"]) simp

lemma dedup_entries_spec:
  "sorted (map entry_key es) \<Longrightarrow>
   sorted_keys entry_key (dedup_entries es) \<and> entry_key ` set (dedup_entries es) = entry_key ` set es \<and>
   (\<forall>e\<in>set (dedup_entries es). \<exists>e0\<in>set es. \<exists>p. e = e0\<lparr>pts := p\<rparr>)"
proof (induction es rule: dedup_entries.induct)
  case (1 earlier later es)
  show ?case
  proof (cases "entry_key later = entry_key earlier")
    case True
    let ?m = "earlier\<lparr>pts := min (pts earlier) (pts later)\<rparr>"
    have "sorted (map entry_key (?m # es))" using "1.prems" by simp
    note IH = "1.IH"(1)[OF True this]
    have "\<exists>e0\<in>set (earlier # later # es). \<exists>p. e = e0\<lparr>pts := p\<rparr>" if "e \<in> set (dedup_entries (?m # es))" for e
    proof -
      from IH that obtain e0 p where "e0 \<in> set (?m # es)" "e = e0\<lparr>pts := p\<rparr>" by blast
      then show ?thesis by (cases "e0 = ?m") auto
    qed
    with IH True show ?thesis by auto
  next
    case False
    let ?d = "dedup_entries (later # es)"
    have "sorted (map entry_key (later # es))" using "1.prems" by simp
    note IH = "1.IH"(2)[OF False this]
    have "entry_key earlier < entry_key later" using False "1.prems" by (simp add: order.strict_iff_order)
    then have "\<forall>k\<in>entry_key ` set (later # es). entry_key earlier < k" using "1.prems" by auto
    then have "sorted_keys entry_key (earlier # ?d)"
      using IH by (simp only: list.map sorted_wrt.simps set_map simp_thms)
    moreover have "\<exists>e0\<in>set (earlier # later # es). \<exists>p. e = e0\<lparr>pts := p\<rparr>" if "e \<in> set (earlier # ?d)" for e
    proof (cases "e = earlier")
      case True
      then have "\<exists>p. e = earlier\<lparr>pts := p\<rparr>" by (intro exI[of _ "pts earlier"]) simp
      then show ?thesis by simp
    next
      case ne: False
      with IH that show ?thesis by auto
    qed
    moreover have "entry_key ` set (earlier # ?d) = entry_key ` set (earlier # later # es)" using IH by simp
    ultimately show ?thesis using False by (simp only: dedup_entries.simps if_False) blast
  qed
next
  case "2_2"
  show ?case by (simp add: pts_same)
qed simp

lemma load_inv: "mb_inv (load now st)"
proof -
  define s where "s = repair_state st"
  define raw where "raw = saved_entries (next_updates_deadline now) s"
  define es where "es = dedup_entries (sort_key entry_key raw)"
  have "sorted (map entry_key (sort_key entry_key raw))" by simp
  note dd = dedup_entries_spec[OF this, folded es_def]
  have d: "sorted_keys entry_key es" "entry_key ` set es = entry_key ` set raw"
      "\<forall>e\<in>set es. \<exists>e0\<in>set raw. \<exists>p. e = e0\<lparr>pts := p\<rparr>"
    using dd by simp_all
  have fresh: "entry_ok e0 \<and> ready e0" if "e0 \<in> set raw" for e0
    using that by (auto simp: raw_def saved_entries_def split: if_splits)
  have all: "entry_ok e \<and> ready e" if e: "e \<in> set es" for e
  proof -
    obtain e0 p where "e0 \<in> set raw" "e = e0\<lparr>pts := p\<rparr>" using bspec[OF d(3) e] by blast
    then show ?thesis using fresh by simp
  qed
  have filt: "filter ready es = es" using all by (simp add: filter_id_conv)
  have "distinct (map entry_key es)" using d(1) strict_sorted_iff by blast
  then have t: "table_inv es (map entry_key es) (length (map entry_key es))"
    using d(1) all by (simp add: table_inv_def list_all_iff filt)
  have sec: "us_qts s \<le> NO_PTS \<or> NO_PTS < us_pts s" by (auto simp: s_def repair_state_def Let_def)
  have "Common \<in> entry_key ` set raw" if "Secondary \<in> entry_key ` set raw"
    using that sec by (auto simp: raw_def saved_entries_def split: if_splits)
  then have "account_inv es" using d(1,2) find_entry_None[of es] by (simp add: account_inv_def)
  with t show ?thesis by (simp add: load_def Let_def mb_inv_def held_inv_def flip: s_def raw_def es_def)
qed

lemma set_state_inv:
  assumes inv: "mb_inv b" and none: "\<not> has_primary_state b"
  shows "mb_inv (set_state now b st)"
proof -
  let ?c = "mk_entry Common (as_pts st) (next_updates_deadline now) False"
  let ?s = "mk_entry Secondary (as_qts st) (next_updates_deadline now) False"
  have c: "entry b Common = None" using none by (simp add: has_primary_state_def)
  then have s: "entry b Secondary = None" using mb_invD(4)[OF inv] by (auto simp: account_inv_def entry_def)
  note 1 = set_entry_inv[OF inv, of ?c, simplified, OF c]
  have "mb_inv (set_entry (set_entry b ?c) ?s)"
    by (rule set_entry_inv(1)[OF 1(1)]) (simp_all add: 1(2) s)
  then show ?thesis by (simp add: set_state_def Let_def)
qed

lemma try_set_channel_state_inv: "mb_inv b \<Longrightarrow> mb_inv (try_set_channel_state now b c p)"
  by (auto simp: try_set_channel_state_def intro!: set_entry_inv(1))

section \<open>Deadlines\<close>

text \<open>What \<open>check_deadlines\<close> makes of one entry.\<close>

definition checked :: "instant \<Rightarrow> live_entry \<Rightarrow> live_entry" where
  "checked now e =
     (if recovery_deferred e \<and> deadline e \<le> now then e\<lparr>recovery_deferred := False\<rparr>
      else if effective_deadline e \<le> now \<and> \<not> recovery_pending e
      then e\<lparr>possible_gap := None, recovery_deferred := False, recovery_pending := True, recovery_deferrals := 0\<rparr>
      else e)"

definition newly_ready :: "instant \<Rightarrow> live_entry \<Rightarrow> bool" where
  "newly_ready now e \<longleftrightarrow> \<not> ready e \<and> ready (checked now e)"

lemma checked_facts [simp]: "entry_key (checked now e) = entry_key e" "pts (checked now e) = pts e"
  by (simp_all add: checked_def)

lemma checked_ok: "entry_ok e \<Longrightarrow> entry_ok (checked now e)" "ready e \<Longrightarrow> checked now e = e"
  by (auto simp: entry_ok_def checked_def none_or_def ready_def split: option.splits)

lemma check_entry_eq:
  assumes ok: "entry_ok e"
  shows "\<exists>b'. check_entry now e b = (checked now e, b') \<and> entries b' = entries b \<and>
    getting_diff_for b' = getting_diff_for b @ (if newly_ready now e then [entry_key e] else []) \<and>
    ready_diff_count b' = ready_diff_count b + (if newly_ready now e then 1 else 0) \<and>
    (held_inv (held_updates b) \<longrightarrow> held_inv (held_updates b')) \<and> date b' = date b \<and> seq b' = seq b"
proof (cases "recovery_deferred e")
  case True
  then have p: "recovery_pending e" using ok by (simp add: entry_ok_def)
  show ?thesis
  proof (cases "deadline e \<le> now")
    case d: True
    then have "check_entry now e b = (e\<lparr>recovery_deferred := False\<rparr>, enqueue_ready b (entry_key e))"
      using True p by (simp add: check_entry_def)
    with True d p show ?thesis by (simp add: checked_def newly_ready_def ready_def)
  next
    case False
    with True p show ?thesis by (simp add: check_entry_def checked_def newly_ready_def ready_def)
  qed
next
  case False
  show ?thesis
  proof (cases "effective_deadline e \<le> now \<and> \<not> recovery_pending e")
    case True
    have "held_inv (held_updates (hold_gap b (entry_key e) (possible_gap e)))" if "held_inv (held_updates b)"
      using ok by (intro hold_gap_held[OF that]) (simp add: entry_ok_def)
    with True False show ?thesis by (simp add: check_entry_def checked_def newly_ready_def ready_def)
  next
    case no: False
    with False show ?thesis by (auto simp: check_entry_def checked_def newly_ready_def ready_def)
  qed
qed

lemma check_entries_eq:
  "list_all entry_ok es \<Longrightarrow>
   \<exists>b'. check_entries now es b = (map (checked now) es, b') \<and> entries b' = entries b \<and>
    getting_diff_for b' = getting_diff_for b @ map entry_key (filter (newly_ready now) es) \<and>
    ready_diff_count b' = ready_diff_count b + length (filter (newly_ready now) es) \<and>
    (held_inv (held_updates b) \<longrightarrow> held_inv (held_updates b')) \<and> date b' = date b \<and> seq b' = seq b"
proof (induction es arbitrary: b)
  case Nil
  then show ?case by simp
next
  case (Cons e es)
  from check_entry_eq[of e now b] Cons.prems obtain b1 where 1: "check_entry now e b = (checked now e, b1)"
      "entries b1 = entries b" "getting_diff_for b1 = getting_diff_for b @ (if newly_ready now e then [entry_key e] else [])"
      "ready_diff_count b1 = ready_diff_count b + (if newly_ready now e then 1 else 0)"
      "held_inv (held_updates b) \<longrightarrow> held_inv (held_updates b1)" "date b1 = date b" "seq b1 = seq b" by auto
  from Cons.IH[of b1] Cons.prems obtain b2 where 2: "check_entries now es b1 = (map (checked now) es, b2)"
      "entries b2 = entries b1" "getting_diff_for b2 = getting_diff_for b1 @ map entry_key (filter (newly_ready now) es)"
      "ready_diff_count b2 = ready_diff_count b1 + length (filter (newly_ready now) es)"
      "held_inv (held_updates b1) \<longrightarrow> held_inv (held_updates b2)" "date b2 = date b1" "seq b2 = seq b1" by auto
  from 1 2 show ?case by auto
qed

lemma table_inv_checked:
  assumes t: "table_inv es q n"
  shows "table_inv (map (checked now) es) (q @ map entry_key (filter (newly_ready now) es))
    (n + length (filter (newly_ready now) es))"
proof -
  note s = table_invD(1)[OF t]
  have ok: "\<forall>e\<in>set es. entry_ok e" and q: "set q = entry_key ` {e \<in> set es. ready e}" "distinct q" "n = length q"
    using t by (auto simp: table_inv_def list_all_iff)
  have inj: "inj_on entry_key (set es)" using s by (metis distinct_map strict_sorted_iff)
  then have disj: "set q \<inter> entry_key ` {e \<in> set es. newly_ready now e} = {}"
    unfolding q(1) by (auto simp: newly_ready_def dest: inj_onD)
  have "distinct (map entry_key (filter (newly_ready now) es))"
    using s by (metis distinct_map distinct_map_filter strict_sorted_iff)
  then have dist: "distinct (q @ map entry_key (filter (newly_ready now) es))" using q(2) disj by auto
  have "{e \<in> set es. ready (checked now e)} = {e \<in> set es. ready e} \<union> {e \<in> set es. newly_ready now e}"
    using checked_ok(2)[of _ now] by (auto simp: newly_ready_def)
  moreover have "entry_key ` set (filter ready (map (checked now) es)) = entry_key ` {e \<in> set es. ready (checked now e)}"
    by (auto simp: filter_map image_comp comp_def)
  ultimately have "entry_key ` set (filter ready (map (checked now) es)) = set q \<union> entry_key ` {e \<in> set es. newly_ready now e}"
    unfolding q(1) by (simp add: image_Un)
  then show ?thesis
    using find_entry_map(2)[OF s, of "checked now"] ok checked_ok(1) dist q(3)
    by (auto simp: table_inv_def list_all_iff)
qed

lemma check_deadlines_expired:
  assumes inv: "mb_inv b" and due: "next_deadline b \<le> now"
  obtains b' t where "check_deadlines now b = (b', t)" "mb_inv b'" "entries b' = map (checked now) (entries b)"
    "t = (if ready_diff_count b' \<noteq> 0 then next_deadline b else next_deadline b')"
    "next_deadline b' = (let ds = waiting_deadlines (entries b') in if ds = [] then next_updates_deadline now else Min (set ds))"
    "getting_diff_for b' = getting_diff_for b @ map entry_key (filter (newly_ready now) (entries b))"
proof -
  have "list_all entry_ok (entries b)" using mb_invD(1)[OF inv] by (simp add: table_inv_def)
  from check_entries_eq[OF this, of now b] obtain b1 where c: "check_entries now (entries b) b = (map (checked now) (entries b), b1)"
      "getting_diff_for b1 = getting_diff_for b @ map entry_key (filter (newly_ready now) (entries b))"
      "ready_diff_count b1 = ready_diff_count b + length (filter (newly_ready now) (entries b))"
      "held_inv (held_updates b) \<longrightarrow> held_inv (held_updates b1)" by blast
  let ?ds = "waiting_deadlines (map (checked now) (entries b))"
  let ?b = "b1\<lparr>entries := map (checked now) (entries b),
      next_deadline := (if ?ds = [] then next_updates_deadline now else Min (set ?ds))\<rparr>"
  have "account_inv (map (checked now) (entries b))"
    using mb_invD(4)[OF inv] find_entry_map(1)[OF mb_invD(2)[OF inv], of "checked now"] by (simp add: account_inv_def)
  then have inv': "mb_inv ?b"
    using table_inv_checked[OF mb_invD(1)[OF inv], of now] c mb_invD(3)[OF inv] by (simp add: mb_inv_def)
  have "check_deadlines now b = (?b, if ready_diff_count ?b \<noteq> 0 then next_deadline b else next_deadline ?b)"
    using due c(1) by (simp add: check_deadlines_def Let_def min_absorb1)
  from that[OF this inv'] c(2) show thesis by (simp add: Let_def)
qed

lemma check_deadlines_inv: "mb_inv b \<Longrightarrow> mb_inv (fst (check_deadlines now b))"
proof (cases "now < next_deadline b")
  case False
  assume "mb_inv b"
  with False obtain b' t where "check_deadlines now b = (b', t)" "mb_inv b'"
    by (metis check_deadlines_expired not_less)
  then show ?thesis by simp
qed (simp add: check_deadlines_def Let_def)

section \<open>Updates, released updates and account differences\<close>

lemma process_updates_inv:
  assumes "mb_inv b"
  obtains b' r where "process_updates now b ul = Some (b', r)" "mb_inv b'"
  using inner_inv[OF assms] by (metis process_updates_def)

lemma held_tracked: "held_inv held \<Longrightarrow> (c, u) \<in> set held \<Longrightarrow> tracked (Channel c) u"
  by (auto simp: held_inv_def list_all_iff)

lemma held_inv_filter: "held_inv held \<Longrightarrow> held_inv (filter P held)"
  by (auto simp: held_inv_def list_all_iff intro: order_trans[OF length_filter_le])

lemma delivered_unpositioned:
  "(\<And>x. from_update (g x) = None) \<Longrightarrow> delivered k (map (\<lambda>x. (g x, s x)) xs) = []"
  by (induction xs) (simp_all add: delivered_info_def)

lemma from_update_new [simp]:
  "from_update (NewMessage m NO_PTS c) = None" "from_update (NewEncryptedMessage o' NO_PTS) = None"
  "from_update (NewChannelMessage m NO_PTS c) = None"
  by (simp_all add: from_update_def) (cases "message_channel_id m", simp_all)

lemma take_released_updates_cases:
  assumes inv: "mb_inv b" and ready: "held_release_ready b"
  defines "b1 \<equiv> b\<lparr>held_release_ready := False, held_overflowed := False,
      held_updates := filter (still_held b) (held_updates b)\<rparr>"
    and "rel \<equiv> map snd (filter (to_release b) (held_updates b))"
  obtains (idle) "rel = []" "take_released_updates now b = Some (b1, None)" "mb_inv b1"
  | (released) rs b' where "rel \<noteq> []" "take_released_updates now b = Some (b', Some (rs, [], []))"
      "mb_inv b1" "batch_ok [] b1 rs b'" "mb_inv b'" "list_all valid_update rel"
      "process_updates_inner now [] b1 (unsequenced rel [] []) = Some (b', Inr (rs, [], []))"
proof -
  have inv1: "mb_inv b1"
    using mb_invD(1,4)[OF inv] held_inv_filter[OF mb_invD(3)[OF inv]] by (simp add: b1_def mb_inv_def)
  have "valid_update u" if "u \<in> set rel" for u
  proof -
    from that obtain c where "(c, u) \<in> set (held_updates b)" by (auto simp: rel_def)
    then show ?thesis using held_tracked[OF mb_invD(3)[OF inv]] by (auto simp: tracked_def)
  qed
  then have valid: "list_all valid_update rel" by (simp add: list_all_iff)
  have eq: "take_released_updates now b =
      (if rel = [] then Some (b1, None)
       else (case process_updates_inner now [] b1 (unsequenced rel [] []) of
               None \<Rightarrow> None
             | Some (b2, Inl Gap) \<Rightarrow> Some (b2, None)
             | Some (b2, Inr r) \<Rightarrow> Some (b2, Some r)))"
    using ready by (simp add: take_released_updates_def Let_def flip: b1_def rel_def)
  show thesis
  proof (cases "rel = []")
    case True
    then have "take_released_updates now b = Some (b1, None)" using eq by simp
    from idle[OF True this inv1] show thesis .
  next
    case False
    obtain rs b' where r: "process_updates_inner now [] b1 (unsequenced rel [] []) = Some (b', Inr (rs, [], []))"
        "batch_ok [] b1 rs b'" by (rule inner_unsequenced[OF inv1 valid])
    have "mb_inv b'" using r(2) by (simp add: batch_ok_def)
    with False eq r inv1 valid show thesis by (intro released) simp_all
  qed
qed

lemma take_released_updates_inv:
  assumes inv: "mb_inv b"
  obtains b' r where "take_released_updates now b = Some (b', r)" "mb_inv b'"
proof (cases "held_release_ready b")
  case True
  from take_released_updates_cases[OF inv True, of now thesis] that show thesis by blast
next
  case False
  with that inv show thesis by (simp add: take_released_updates_def)
qed

lemma apply_difference_type_ok:
  assumes inv: "mb_inv b"
  obtains b' rs users chats where "apply_difference_type now b diff = Some (b', rs, users, chats)" "mb_inv b'"
    "pos b' Common = Some (as_pts (ad_state diff))" "pos b' Secondary = Some (as_qts (ad_state diff))"
    "date b' = as_date (ad_state diff)" "seq b' = as_seq (ad_state diff)"
    "is_getting_diff b Common \<Longrightarrow> is_getting_diff b' Common"
    "is_getting_diff b Secondary \<Longrightarrow> is_getting_diff b' Secondary"
    "\<And>c. is_getting_diff b (Channel c) \<Longrightarrow> is_getting_diff b' (Channel c) \<and> pos b' (Channel c) = pos b (Channel c) \<and>
       delivered (Channel c) rs = []"
    "\<And>c. advances (pos b (Channel c)) (delivered (Channel c) rs) (pos b' (Channel c))"
    "filter (immediate [Common, Secondary]) (map fst rs) =
       sort_key update_sort_key (filter (immediate [Common, Secondary]) (retain_valid_updates (ad_other_updates diff))) @
       map (\<lambda>m. NewMessage m NO_PTS 0) (ad_new_messages diff) @
       map (\<lambda>m. NewEncryptedMessage m NO_PTS) (ad_new_encrypted_messages diff)"
proof -
  let ?st = "ad_state diff"
  define b1 where "b1 = b\<lparr>date := as_date ?st, seq := as_seq ?st\<rparr>"
  define b2 where "b2 = set_pts now b1 Common (as_pts ?st)"
  define b3 where "b3 = set_pts now b2 Secondary (as_qts ?st)"
  have inv1: "mb_inv b1" "entry b1 = entry b" using inv by (simp_all add: b1_def)
  have 2: "mb_inv b2" "entry b2 = (entry b)(Common \<mapsto>
      (case entry b Common of Some e \<Rightarrow> e\<lparr>pts := as_pts ?st\<rparr> | None \<Rightarrow> mk_entry Common (as_pts ?st) (next_updates_deadline now) False))"
    using set_pts_inv[OF inv1(1), of Common now "as_pts ?st"] by (simp_all add: b2_def inv1(2))
  have 3: "mb_inv b3" "entry b3 = (entry b2)(Secondary \<mapsto>
      (case entry b2 Secondary of Some e \<Rightarrow> e\<lparr>pts := as_qts ?st\<rparr> | None \<Rightarrow> mk_entry Secondary (as_qts ?st) (next_updates_deadline now) False))"
    using set_pts_inv[OF 2(1), of Secondary now "as_qts ?st"] 2(2) by (simp_all add: b3_def)
  have fields: "date b3 = as_date ?st" "seq b3 = as_seq ?st"
    by (simp_all add: b3_def b2_def b1_def set_pts_def set_entry_def update_entry_def split: prod.splits bool.splits)
  let ?us = "filter (\<lambda>u. \<not> planned_channel b3 u) (retain_valid_updates (ad_other_updates diff))"
  have "list_all valid_update ?us" by (simp add: list_all_iff retain_valid_updates_def)
  then obtain rs b' where r: "process_updates_inner now [Common, Secondary] b3 (unsequenced ?us (ad_users diff) (ad_chats diff))
        = Some (b', Inr (rs, ad_users diff, ad_chats diff))" "batch_ok [Common, Secondary] b3 rs b'"
      "filter (immediate [Common, Secondary]) (map fst rs) = sort_key update_sort_key (filter (immediate [Common, Secondary]) ?us)"
    by (rule inner_unsequenced[OF 3(1)])
  let ?ms = "map (\<lambda>m. (NewMessage m NO_PTS 0, \<lparr>state_date = as_date ?st, state_seq = as_seq ?st,
      state_box = Some (CommonBox (as_pts ?st))\<rparr>)) (ad_new_messages diff) @
    map (\<lambda>m. (NewEncryptedMessage m NO_PTS, \<lparr>state_date = as_date ?st, state_seq = as_seq ?st,
      state_box = Some (SecondaryBox (as_qts ?st))\<rparr>)) (ad_new_encrypted_messages diff)"
  have a: "apply_difference_type now b diff = Some (b', rs @ ?ms, ad_users diff, ad_chats diff)"
    using r(1) by (simp add: apply_difference_type_def Let_def flip: b1_def b2_def b3_def)
  have nod: "delivered k (rs @ ?ms) = delivered k rs" for k by (simp add: delivered_unpositioned)
  have chans: "pos b3 (Channel c) = pos b (Channel c)" "is_getting_diff b3 (Channel c) = is_getting_diff b (Channel c)" for c
    by (simp_all add: pos_def is_getting_diff_def 3(2) 2(2))
  have acct: "pos b3 Common = Some (as_pts ?st)" "pos b3 Secondary = Some (as_qts ?st)"
    by (simp_all add: pos_def 3(2) 2(2) split: option.splits)
  have keep: "is_getting_diff b Common \<Longrightarrow> is_getting_diff b3 Common" "is_getting_diff b Secondary \<Longrightarrow> is_getting_diff b3 Secondary"
    by (auto simp: is_getting_diff_def 3(2) 2(2) split: option.splits)
  have ne: "entry b3 Common \<noteq> None" "entry b3 Secondary \<noteq> None" using acct by (auto simp: pos_def)
  have "filter (immediate [Common, Secondary]) ?us =
      filter (immediate [Common, Secondary]) (retain_valid_updates (ad_other_updates diff))"
    by (auto simp: immediate_def planned_channel_def intro!: filter_cong split: option.splits)
  with r(3) have all: "filter (immediate [Common, Secondary]) (map fst (rs @ ?ms)) =
      sort_key update_sort_key (filter (immediate [Common, Secondary]) (retain_valid_updates (ad_other_updates diff))) @
      map (\<lambda>m. NewMessage m NO_PTS 0) (ad_new_messages diff) @
      map (\<lambda>m. NewEncryptedMessage m NO_PTS) (ad_new_encrypted_messages diff)"
    by (simp add: immediate_def filter_map comp_def)
  show thesis
    by (rule that[OF a _ _ _ _ _ _ _ _ _ all])
      (insert r(2) fields chans acct keep ne, auto simp: batch_ok_def nod simp del: delivered_simps)
qed

lemma apply_difference_inv:
  assumes inv: "mb_inv b"
  obtains b' r where "apply_difference now b diff = Some (b', r)" "mb_inv b'"
proof (cases diff)
  case (DifferenceEmpty d s)
  obtain b' where "finish_account now (b\<lparr>date := d, seq := s\<rparr>) = Some b'" "mb_inv b'"
    by (rule finish_account_inv[of "b\<lparr>date := d, seq := s\<rparr>" now]) (use inv in simp_all)
  then show thesis using that DifferenceEmpty by simp
next
  case (Difference ad)
  obtain b1 r where 1: "apply_difference_type now b ad = Some (b1, r)" "mb_inv b1"
    by (rule apply_difference_type_ok[OF inv])
  obtain b' where "finish_account now b1 = Some b'" "mb_inv b'" by (rule finish_account_inv[OF 1(2)])
  then show thesis using that Difference 1(1) by simp
next
  case (DifferenceSlice ad)
  obtain b1 r where "apply_difference_type now b ad = Some (b1, r)" "mb_inv b1"
    by (rule apply_difference_type_ok[OF inv])
  then show thesis using that DifferenceSlice by simp
next
  case (DifferenceTooLong p)
  have "mb_inv (set_pts now b Common p)" by (rule set_pts_inv(1)[OF inv]) simp
  then obtain b' where "finish_account now (set_pts now b Common p) = Some b'" "mb_inv b'"
    by (rule finish_account_inv)
  then show thesis using that DifferenceTooLong by simp
qed

lemma try_apply_difference_inv:
  assumes inv: "mb_inv b"
  obtains b' r where "try_apply_difference now b diff = Some (b', r)" "mb_inv b'" "r = Inl Gap \<Longrightarrow> b' = b"
proof (cases "(is_getting_diff b Common \<or> is_getting_diff b Secondary) \<and> valid_difference diff")
  case True
  obtain b' r where "apply_difference now b diff = Some (b', r)" "mb_inv b'" by (rule apply_difference_inv[OF inv])
  then show thesis using that[of b' "Inr r"] True by (auto simp: try_apply_difference_def)
next
  case False
  then show thesis using that[of b "Inl Gap"] inv by (auto simp: try_apply_difference_def)
qed

section \<open>Channel differences\<close>

lemma first_channel_queued: "first_channel q = Some c \<Longrightarrow> Channel c \<in> set q"
  by (induction q rule: first_channel.induct) auto

lemma channel_in_diff_ready:
  assumes "mb_inv b" "channel_in_diff b = Some c"
  obtains e where "entry b (Channel c) = Some e" "ready e" "Channel c \<in> set (getting_diff_for b)"
  using assms mb_invD(6)[OF assms(1), of "Channel c"] first_channel_queued[of "getting_diff_for b" c]
  by (auto simp: channel_in_diff_def)

lemma get_channel_difference_total:
  assumes "mb_inv b"
  shows "get_channel_difference b \<noteq> None"
proof (cases "channel_in_diff b")
  case None
  then show ?thesis by (simp add: get_channel_difference_def)
next
  case (Some c)
  then obtain e where "entry b (Channel c) = Some e" by (rule channel_in_diff_ready[OF assms])
  with Some show ?thesis by (simp add: get_channel_difference_def)
qed

lemma split_contiguous_subset:
  "split_contiguous p us = (keep, beyond) \<Longrightarrow> set keep \<union> set beyond \<subseteq> set us \<and> length keep + length beyond \<le> length us"
proof (induction us arbitrary: p keep beyond)
  case Nil
  then show ?case by simp
next
  case (Cons u us)
  show ?case
  proof (cases "from_update u")
    case None
    with Cons show ?thesis by fastforce
  next
    case (Some info)
    show ?thesis
      using Cons.prems Some Cons.IH[of "info_pts info"] Cons.IH[of p] length_filter_le[of "\<lambda>v. from_update v \<noteq> None" us]
      by (fastforce split: if_splits prod.splits)
  qed
qed

lemma retain_contiguous_inv:
  assumes inv: "mb_inv b" and r: "retain_contiguous_held_updates b c p = (b', beyond)"
  shows "mb_inv b'" "entry b' = entry b" "list_all (tracked (Channel c)) beyond" "length beyond \<le> MAX_HELD_UPDATES"
    and "entries b' = entries b" "getting_diff_for b' = getting_diff_for b" "date b' = date b" "seq b' = seq b"
proof -
  let ?h = "held_updates b"
  define mine where "mine = map snd (filter (\<lambda>(i, u). i = c) ?h)"
  define others where "others = filter (\<lambda>(i, u). i \<noteq> c) ?h"
  note held = mb_invD(3)[OF inv]
  obtain keep bey where s: "split_contiguous p (sort_key update_sort_key mine) = (keep, bey)" by fastforce
  then have b': "b' = b\<lparr>held_updates := others @ map (\<lambda>u. (c, u)) keep\<rparr>" "beyond = bey"
    using r by (simp_all add: retain_contiguous_held_updates_def Let_def flip: mine_def others_def)
  from split_contiguous_subset[OF s] have sub: "set keep \<subseteq> set mine" "set beyond \<subseteq> set mine"
      "length keep + length beyond \<le> length mine" by (auto simp: b'(2))
  have mine: "tracked (Channel c) u" if "u \<in> set mine" for u
    using that held_tracked[OF held] by (auto simp: mine_def)
  have len: "length mine + length others = length ?h"
    using sum_length_filter_compl[of "\<lambda>(i, u). i = c" ?h] by (simp add: mine_def others_def case_prod_unfold)
  then have "held_inv (others @ map (\<lambda>u. (c, u)) keep)"
    using held sub mine by (auto simp: held_inv_def list_all_iff others_def)
  then show "mb_inv b'" using mb_invD(1,4)[OF inv] by (simp add: b' mb_inv_def)
  show "list_all (tracked (Channel c)) beyond" "length beyond \<le> MAX_HELD_UPDATES"
    using sub mine len held by (auto simp: list_all_iff held_inv_def)
  show "entry b' = entry b" "entries b' = entries b" "getting_diff_for b' = getting_diff_for b" "date b' = date b" "seq b' = seq b"
    by (simp_all add: b')
qed

lemma schedule_channel_retry_inv:
  assumes inv: "mb_inv b" and f: "failures \<le> 255"
    and beyond: "list_all (tracked k) beyond" "length beyond \<le> MAX_HELD_UPDATES"
  shows "mb_inv (schedule_channel_retry now b k failures beyond)"
    and "pos (schedule_channel_retry now b k failures beyond) = pos b"
    and "is_getting_diff (schedule_channel_retry now b k failures beyond) = is_getting_diff b"
    and "getting_diff_for (schedule_channel_retry now b k failures beyond) = getting_diff_for b"
proof -
  let ?t = "now + channel_retry_delay failures"
  let ?f = "\<lambda>e::live_entry. let e1 = e\<lparr>recovery_failures := failures, retry_not_before := Some ?t\<rparr>
       in if beyond \<noteq> [] then e1\<lparr>possible_gap := Some \<lparr>gap_deadline = ?t, gap_updates = beyond\<rparr>\<rparr> else e1"
  define b1 where "b1 = (if beyond \<noteq> [] then b\<lparr>next_deadline := min (next_deadline b) ?t\<rparr> else b)"
  have eq: "schedule_channel_retry now b k failures beyond = fst (update_entry b1 k ?f)"
    by (simp add: schedule_channel_retry_def Let_def b1_def)
  have b1: "mb_inv b1" "entry b1 = entry b" "getting_diff_for b1 = getting_diff_for b" using inv by (simp_all add: b1_def)
  have ok: "entry_ok (?f e) \<and> ready (?f e) = ready e" if "entry b1 k = Some e" for e
    using mb_invD(5)[OF b1(1) that] f beyond
    by (auto simp: entry_ok_def none_or_def gap_ok_def ready_def Let_def split: option.splits)
  have u: "mb_inv (fst (update_entry b1 k ?f))" "entry (fst (update_entry b1 k ?f)) = (entry b1)(k := map_option ?f (entry b1 k))"
    using ok by (auto intro!: update_entry_inv[OF b1(1)] simp: Let_def)
  show "mb_inv (schedule_channel_retry now b k failures beyond)" unfolding eq by (rule u(1))
  have pf: "pts (?f e) = pts e" "recovery_pending (?f e) = recovery_pending e" for e by (simp_all add: Let_def)
  show "pos (schedule_channel_retry now b k failures beyond) = pos b"
    unfolding eq pos_def[abs_def] u(2) b1(2) by (auto simp: fun_eq_iff option.map_comp comp_def pf)
  show "is_getting_diff (schedule_channel_retry now b k failures beyond) = is_getting_diff b"
    unfolding eq is_getting_diff_def[abs_def] u(2) b1(2) by (auto simp: fun_eq_iff pf split: option.splits)
  show "getting_diff_for (schedule_channel_retry now b k failures beyond) = getting_diff_for b"
    unfolding eq using b1(3) by simp
qed

end
