(* ===== verification/Mb_Channels.thy ===== *)
theory Mb_Channels
  imports Mb_Operations
begin

text \<open>
  The operations on a channel's recovery: applying its difference, deferring it, ending it early.
\<close>

lemma clear_recovery_facts [simp]:
  "entry_key (clear_recovery e) = entry_key e" "pts (clear_recovery e) = pts e"
  "recovery_pending (clear_recovery e) = recovery_pending e"
  "possible_gap (clear_recovery e) = None" "recovery_deferred (clear_recovery e) = False"
  by (simp_all add: clear_recovery_def)

lemma clear_recovery_ok: "ready e \<Longrightarrow> entry_ok (clear_recovery e) \<and> ready (clear_recovery e)"
  by (simp add: clear_recovery_def entry_ok_def none_or_def ready_def)

lemma u8_saturating_succ_le: "u8_saturating_succ n \<le> 255"
  by (simp add: u8_saturating_succ_def)

text \<open>The part of \<open>apply_channel_difference\<close> before its updates are processed.\<close>

lemma channel_difference_prepared:
  assumes inv: "mb_inv b" and c: "channel_in_diff b = Some c"
  defines "b2 \<equiv> fst (update_entry (b\<lparr>exhausted_channels := exhausted_channels b - {c}\<rparr>) (Channel c) clear_recovery)"
  shows "mb_inv b2" "entry b2 = (entry b)(Channel c := map_option clear_recovery (entry b (Channel c)))"
    "getting_diff_for b2 = getting_diff_for b" "date b2 = date b" "seq b2 = seq b"
proof -
  obtain e where e: "entry b (Channel c) = Some e" "ready e" by (rule channel_in_diff_ready[OF inv c])
  let ?b1 = "b\<lparr>exhausted_channels := exhausted_channels b - {c}\<rparr>"
  have "mb_inv ?b1" "entry ?b1 = entry b" using inv by simp_all
  with e clear_recovery_ok[OF e(2)]
  have "mb_inv b2 \<and> entry b2 = (entry ?b1)(Channel c := map_option clear_recovery (entry ?b1 (Channel c)))"
    unfolding b2_def by (intro conjI update_entry_inv) auto
  then show "mb_inv b2" "entry b2 = (entry b)(Channel c := map_option clear_recovery (entry b (Channel c)))"
    "getting_diff_for b2 = getting_diff_for b" "date b2 = date b" "seq b2 = seq b"
    by (simp_all add: b2_def)
qed

text \<open>Positions after ending the recovery, where it ends, and taking the server's position.\<close>

lemma channel_position_taken:
  assumes inv: "mb_inv b2" and e: "entry b2 (Channel c) = Some e" "recovery_pending e"
  obtains b3 where "(if fin then try_end_get_diff now b2 (Channel c) else Some b2) = Some b3" "mb_inv b3"
    "\<And>k. k \<noteq> Channel c \<Longrightarrow> entry b3 k = entry b2 k"
    "entry (set_pts now b3 (Channel c) p) = (entry b3)(Channel c \<mapsto> (if fin then ended now e else e)\<lparr>pts := p\<rparr>)"
    "mb_inv (set_pts now b3 (Channel c) p)" "date b3 = date b2" "seq b3 = seq b2"
proof (cases fin)
  case True
  obtain b3 where b3: "try_end_get_diff now b2 (Channel c) = Some b3" "mb_inv b3"
      "entry b3 = (entry b2)(Channel c := map_option (ended now) (entry b2 (Channel c)))" "date b3 = date b2" "seq b3 = seq b2"
    by (rule try_end_mb[OF inv])
  note sp = set_pts_inv[OF b3(2), of "Channel c" now p, simplified]
  have "entry (set_pts now b3 (Channel c) p) = (entry b3)(Channel c \<mapsto> (ended now e)\<lparr>pts := p\<rparr>)"
    using sp(2) b3(3) e(1) by simp
  then show thesis using that[of b3] True b3 sp(1) by simp
next
  case False
  note sp = set_pts_inv[OF inv, of "Channel c" now p, simplified]
  have "entry (set_pts now b2 (Channel c) p) = (entry b2)(Channel c \<mapsto> e\<lparr>pts := p\<rparr>)" using sp(2) e(1) by simp
  then show thesis using that[of b2] False inv sp(1) by simp
qed

lemma set_pts_frame [simp]:
  "date (set_pts now b k p) = date b" "seq (set_pts now b k p) = seq b"
  "getting_diff_for (set_pts now b k p) = getting_diff_for b"
  by (auto simp: set_pts_def set_entry_def update_entry_def split: prod.splits bool.splits)

lemma reset_timeout_inv:
  assumes "mb_inv b"
  shows "mb_inv (reset_timeout now b k t)" "pos (reset_timeout now b k t) = pos b"
    "is_getting_diff (reset_timeout now b k t) = is_getting_diff b"
proof -
  define dl where "dl = (case t of Some s \<Rightarrow> if 0 \<le> s then now + 1000 * nat s else next_updates_deadline now
      | None \<Rightarrow> next_updates_deadline now)"
  have eq: "reset_timeout now b k t = reset_deadline b k dl" by (simp add: reset_timeout_def dl_def)
  note rd = reset_deadline_inv[OF assms, of k dl]
  show "mb_inv (reset_timeout now b k t)" unfolding eq by (rule rd(1))
  show "pos (reset_timeout now b k t) = pos b" "is_getting_diff (reset_timeout now b k t) = is_getting_diff b"
    unfolding eq pos_def[abs_def] is_getting_diff_def[abs_def] rd(2)
    by (auto simp: fun_eq_iff option.map_comp comp_def split: option.splits)
qed

lemma reset_timeout_frame [simp]:
  "getting_diff_for (reset_timeout now b k t) = getting_diff_for b" "date (reset_timeout now b k t) = date b"
  "seq (reset_timeout now b k t) = seq b"
  by (simp_all add: reset_timeout_def)

lemma pos_cong: "entry b' = entry b \<Longrightarrow> pos b' = pos b" "entry b' = entry b \<Longrightarrow> is_getting_diff b' = is_getting_diff b"
  by (simp_all add: pos_def[abs_def] is_getting_diff_def[abs_def])

lemma conclude_channel_inv:
  assumes inv: "mb_inv b"
  shows "mb_inv (conclude_channel now b c diff failures)"
    and "pos (conclude_channel now b c diff failures) = pos b"
    and "is_getting_diff (conclude_channel now b c diff failures) = is_getting_diff b"
    and "\<not> cd_final diff \<Longrightarrow> Channel c \<in> set (getting_diff_for b) \<Longrightarrow>
      getting_diff_for (conclude_channel now b c diff failures) = remove1 (Channel c) (getting_diff_for b) @ [Channel c]"
proof -
  have "mb_inv (conclude_channel now b c diff failures) \<and> pos (conclude_channel now b c diff failures) = pos b \<and>
      is_getting_diff (conclude_channel now b c diff failures) = is_getting_diff b"
  proof (cases "cd_final diff")
    case True
    obtain b' beyond where r: "retain_contiguous_held_updates b c (cd_pts diff) = (b', beyond)" by fastforce
    note ri = retain_contiguous_inv[OF inv r]
    note si = schedule_channel_retry_inv[OF ri(1) u8_saturating_succ_le ri(3,4)]
    show ?thesis
      using True ri(1) si pos_cong[OF ri(2)] by (simp add: conclude_channel_def r Let_def)
  next
    case False
    show ?thesis
    proof (cases "Channel c \<in> set (getting_diff_for b)")
      case in_q: True
      then have "mb_inv (b\<lparr>getting_diff_for := remove1 (Channel c) (getting_diff_for b) @ [Channel c]\<rparr>)"
        using table_inv_rotate[OF mb_invD(1)[OF inv] in_q] mb_invD(3,4)[OF inv] by (simp add: mb_inv_def)
      with in_q False show ?thesis
        using pos_cong[of "b\<lparr>getting_diff_for := remove1 (Channel c) (getting_diff_for b) @ [Channel c]\<rparr>" b]
        by (simp add: conclude_channel_def Let_def)
    qed (use False inv in \<open>simp add: conclude_channel_def\<close>)
  qed
  then show "mb_inv (conclude_channel now b c diff failures)" "pos (conclude_channel now b c diff failures) = pos b"
    "is_getting_diff (conclude_channel now b c diff failures) = is_getting_diff b" by auto
  show "\<not> cd_final diff \<Longrightarrow> Channel c \<in> set (getting_diff_for b) \<Longrightarrow>
      getting_diff_for (conclude_channel now b c diff failures) = remove1 (Channel c) (getting_diff_for b) @ [Channel c]"
    by (simp add: conclude_channel_def Let_def)
qed

lemma apply_channel_difference_ok:
  assumes inv: "mb_inv b" and c: "channel_in_diff b = Some c"
    and d: "adapt_channel_difference difference = Some diff"
  obtains b' rs where "apply_channel_difference now b difference = Some (b', rs, cd_users diff, cd_chats diff)"
    "mb_inv b'" "pos b' (Channel c) = Some (cd_pts diff)"
    "\<And>k. k \<noteq> Channel c \<Longrightarrow> advances (pos b k) (delivered k rs) (pos b' k)"
    "\<And>k. k \<noteq> Channel c \<Longrightarrow> is_getting_diff b k \<Longrightarrow>
       is_getting_diff b' k \<and> pos b' k = pos b k \<and> delivered k rs = []"
    "\<not> cd_final diff \<Longrightarrow> is_getting_diff b' (Channel c) \<and> last (getting_diff_for b') = Channel c"
    "cd_final diff \<Longrightarrow> is_getting_diff b' (Channel c) \<Longrightarrow> \<exists>p. ChannelTooLong c p \<in> set (cd_other_updates diff)"
    "filter (immediate [Channel c]) (map fst rs) =
       sort_key update_sort_key (filter (immediate [Channel c]) (retain_valid_updates (cd_other_updates diff))) @
       map (\<lambda>m. NewChannelMessage m NO_PTS 0) (cd_new_messages diff)"
proof -
  let ?k = "Channel c"
  obtain e where e: "entry b ?k = Some e" "ready e" by (rule channel_in_diff_ready[OF inv c])
  define b1 where "b1 = b\<lparr>exhausted_channels := exhausted_channels b - {c}\<rparr>"
  define b2 where "b2 = fst (update_entry b1 ?k clear_recovery)"
  note p = channel_difference_prepared[OF inv c, folded b1_def, folded b2_def]
  let ?e = "clear_recovery e"
  have e2: "entry b2 ?k = Some ?e" "recovery_pending ?e" "ready ?e"
    using e p(2) clear_recovery_ok[OF e(2)] by (simp_all add: ready_def)
  obtain b3 where b3: "(if cd_final diff then try_end_get_diff now b2 ?k else Some b2) = Some b3" "mb_inv b3"
      "\<And>k. k \<noteq> ?k \<Longrightarrow> entry b3 k = entry b2 k"
      "entry (set_pts now b3 ?k (cd_pts diff)) = (entry b3)(?k \<mapsto> (if cd_final diff then ended now ?e else ?e)\<lparr>pts := cd_pts diff\<rparr>)"
      "mb_inv (set_pts now b3 ?k (cd_pts diff))"
    by (rule channel_position_taken[OF p(1) e2(1,2), of "cd_final diff" now "cd_pts diff"]) metis
  define b4 where "b4 = set_pts now b3 ?k (cd_pts diff)"
  let ?us = "retain_valid_updates (cd_other_updates diff)"
  have "list_all valid_update ?us" by (simp add: retain_valid_updates_def list_all_iff)
  then obtain rs b5 where r: "process_updates_inner now [?k] b4 (unsequenced ?us (cd_users diff) (cd_chats diff))
        = Some (b5, Inr (rs, cd_users diff, cd_chats diff))" "batch_ok [?k] b4 rs b5"
      "is_getting_diff b5 ?k \<Longrightarrow> is_getting_diff b4 ?k \<or> (\<exists>p. ChannelTooLong c p \<in> set (cd_other_updates diff))"
      "filter (immediate [?k]) (map fst rs) = sort_key update_sort_key (filter (immediate [?k]) ?us)"
    using inner_unsequenced[OF b3(5)[folded b4_def], of ?us now "[?k]" "cd_users diff" "cd_chats diff" thesis]
    by (auto simp: retain_valid_updates_def)
  have inv5: "mb_inv b5" using r(2) by (simp add: batch_ok_def)
  define b6 where "b6 = reset_timeout now b5 ?k (cd_timeout diff)"
  note rt = reset_timeout_inv[OF inv5, of now ?k "cd_timeout diff", folded b6_def]
  define b8 where "b8 = conclude_channel now b6 c diff (case entry b1 ?k of Some e \<Rightarrow> recovery_failures e | None \<Rightarrow> 0)"
  note cc = conclude_channel_inv[OF rt(1), where now = now and c = c and diff = diff
      and failures = "case entry b1 ?k of Some e \<Rightarrow> recovery_failures e | None \<Rightarrow> 0", folded b8_def]
  define ms where "ms = map (\<lambda>m. (NewChannelMessage m NO_PTS 0,
      \<lparr>state_date = date b5, state_seq = seq b5, state_box = Some (ChannelBox c (cd_pts diff))\<rparr>)) (cd_new_messages diff)"
  have a: "apply_channel_difference now b difference = Some (b8, rs @ ms, cd_users diff, cd_chats diff)"
    unfolding apply_channel_difference_def c d bind.bind_lunit Let_def b1_def[symmetric]
    unfolding b2_def[symmetric] b3(1) bind.bind_lunit
    unfolding b4_def[symmetric] r(1) bind.bind_lunit prod.case sum.case
    unfolding b6_def[symmetric] b8_def[symmetric] ms_def ..
  have nod: "delivered k (rs @ ms) = delivered k rs" for k by (simp add: ms_def delivered_unpositioned)
  have pos4: "pos b4 k = pos b k" "is_getting_diff b4 k = is_getting_diff b k" if "k \<noteq> ?k" for k
    using that b3(3,4) p(2) by (simp_all add: b4_def pos_def is_getting_diff_def)
  have own: "pos b4 ?k = Some (cd_pts diff)" "\<not> cd_final diff \<Longrightarrow> is_getting_diff b4 ?k" "entry b4 ?k \<noteq> None"
    using b3(4) e2(2) by (simp_all add: b4_def pos_def is_getting_diff_def)
  have final: "is_getting_diff b8 ?k \<and> last (getting_diff_for b8) = ?k" if nf: "\<not> cd_final diff"
  proof -
    have "is_ready b4 ?k" using b3(4) e2(3) nf by (simp add: b4_def is_ready_def)
    then have "is_ready b5 ?k" using r(2) by (simp add: batch_ok_def)
    then have "?k \<in> set (getting_diff_for b5)"
      using mb_invD(6)[OF inv5, of ?k] by (auto simp: is_ready_def split: option.splits)
    then show ?thesis using nf cc(3,4) rt(3) r(2) own(2) by (simp add: b6_def batch_ok_def)
  qed
  have "\<not> is_getting_diff b4 ?k" if "cd_final diff"
    using b3(4) that by (simp add: b4_def is_getting_diff_def ended_def)
  then have ends: "\<exists>p. ChannelTooLong c p \<in> set (cd_other_updates diff)" if "cd_final diff" "is_getting_diff b8 ?k"
    using that r(3) cc(3) rt(3) by auto
  have all: "filter (immediate [?k]) (map fst (rs @ ms)) = sort_key update_sort_key (filter (immediate [?k]) ?us) @
      map (\<lambda>m. NewChannelMessage m NO_PTS 0) (cd_new_messages diff)"
    using r(4) by (simp add: ms_def immediate_def filter_map comp_def)
  show thesis
    by (rule that[OF a cc(1) _ _ _ _ _ all])
      (insert r(2) cc rt pos4 own final ends, auto simp: batch_ok_def nod simp del: delivered_simps)
qed

lemma valid_channel_difference_adapts:
  "valid_channel_difference c difference \<Longrightarrow> \<exists>diff. adapt_channel_difference difference = Some diff \<and> 0 \<le> cd_pts diff"
  by (cases "(c, difference)" rule: valid_channel_difference.cases) (auto split: option.splits)

lemma try_apply_channel_difference_inv:
  assumes inv: "mb_inv b"
  obtains b' r where "try_apply_channel_difference now b difference = Some (b', r)" "mb_inv b'" "r = Inl Gap \<Longrightarrow> b' = b"
proof (cases "channel_in_diff b")
  case None
  then show thesis using that[of b "Inl Gap"] inv by (simp add: try_apply_channel_difference_def)
next
  case (Some c)
  show thesis
  proof (cases "valid_channel_difference c difference")
    case True
    then obtain diff where "adapt_channel_difference difference = Some diff"
      using valid_channel_difference_adapts by blast
    then obtain b' rs where "apply_channel_difference now b difference = Some (b', rs, cd_users diff, cd_chats diff)" "mb_inv b'"
      by (rule apply_channel_difference_ok[OF inv Some])
    then show thesis
      using that[of b' "Inr (rs, cd_users diff, cd_chats diff)"] Some True by (simp add: try_apply_channel_difference_def)
  next
    case False
    then show thesis using that[of b "Inl Gap"] inv Some by (simp add: try_apply_channel_difference_def)
  qed
qed

lemma pop_channel_inv:
  assumes inv: "mb_inv b" and q: "Channel c \<notin> set (getting_diff_for b)"
  shows "mb_inv (pop_entry b (Channel c))" "entry (pop_entry b (Channel c)) = (entry b)(Channel c := None)"
  using table_inv_remove[OF mb_invD(1)[OF inv] q] account_inv_remove_channel[OF mb_invD(2,4)[OF inv]] mb_invD(3)[OF inv]
    find_remove_entry[OF mb_invD(2)[OF inv]]
  by (simp_all add: mb_inv_def pop_entry_def entry_def[abs_def])

lemma exhausted_ended:
  assumes inv: "mb_inv b"
  obtains b1 where "try_end_get_diff now b (Channel c) = Some b1" "mb_inv (pop_entry b1 (Channel c))"
    "entry (pop_entry b1 (Channel c)) = (entry b)(Channel c := None)" "exhausted_channels b1 = exhausted_channels b"
proof -
  obtain b1 where b1: "try_end_get_diff now b (Channel c) = Some b1" "mb_inv b1"
      "entry b1 = (entry b)(Channel c := map_option (ended now) (entry b (Channel c)))"
      "Channel c \<notin> set (getting_diff_for b1)" "exhausted_channels b1 = exhausted_channels b"
    by (rule try_end_mb[OF inv])
  show thesis using that[OF b1(1)] pop_channel_inv[OF b1(2,4)] b1(3,5) by simp
qed

text \<open>Deferring: the channel leaves the queue of ready work but stays pending until its deadline.\<close>

definition deferred_entry :: "instant \<Rightarrow> live_entry \<Rightarrow> live_entry" where
  "deferred_entry dl e = e\<lparr>recovery_deferred := True, recovery_deferrals := recovery_deferrals e + 1, deadline := dl\<rparr>"

lemma dequeue_deferred:
  assumes inv: "mb_inv b" and e: "entry b k = Some e" "ready e" "recovery_deferrals e < MAX_CHANNEL_DEFERRALS"
  defines "b1 \<equiv> fst (update_entry b k (\<lambda>e. e\<lparr>recovery_deferred := True, recovery_deferrals := recovery_deferrals e + 1\<rparr>))"
  obtains b2 where "dequeue_ready b1 k = Some b2"
    "mb_inv (fst (update_entry b2 k (\<lambda>e. e\<lparr>deadline := dl\<rparr>)))"
    "entry (fst (update_entry b2 k (\<lambda>e. e\<lparr>deadline := dl\<rparr>))) = (entry b)(k \<mapsto> deferred_entry dl e)"
proof -
  let ?f = "\<lambda>e::live_entry. e\<lparr>recovery_deferred := True, recovery_deferrals := recovery_deferrals e + 1\<rparr>"
  note ok = mb_invD(5)[OF inv e(1)]
  have u: "update_entry b k ?f = (b\<lparr>entries := put_entry (entries b) (?f e)\<rparr>, True)"
    using ok by (intro update_entry_found[OF inv e(1)]) simp
  have inq: "k \<in> set (getting_diff_for b)" using mb_invD(6)[OF inv] e(1,2) by blast
  then have cnt: "0 < ready_diff_count b" using table_invD(3)[OF mb_invD(1)[OF inv]] length_pos_if_in_set by simp
  define b2 where "b2 = b\<lparr>entries := put_entry (entries b) (?f e), getting_diff_for := remove1 k (getting_diff_for b),
      ready_diff_count := ready_diff_count b - 1\<rparr>"
  have dq: "dequeue_ready b1 k = Some b2" using inq cnt unfolding dequeue_ready_def b1_def u by (simp add: b2_def)
  have fe: "entry_ok (?f e)" "\<not> ready (?f e)" "entry_key (?f e) = k"
    using ok e(2,3) by (auto simp: entry_ok_def ready_def)
  have "table_inv (put_entry (entries b) (?f e)) (remove1 k (getting_diff_for b)) (ready_diff_count b - 1)"
    using table_inv_dequeue[OF mb_invD(1)[OF inv] fe(1,2)] fe(3) inq by simp
  moreover have "account_inv (put_entry (entries b) (?f e))"
    using mb_invD(4)[OF inv] e(1) fe(3) by (intro account_inv_put mb_invD(2)[OF inv]) (auto simp: account_inv_def entry_def)
  ultimately have inv2: "mb_inv b2" using mb_invD(3)[OF inv] by (simp add: b2_def mb_inv_def)
  have ent2: "entry b2 = (entry b)(k \<mapsto> ?f e)" using entry_put[OF mb_invD(2)[OF inv], of b2 "?f e"] fe(3) by (simp add: b2_def)
  let ?g = "\<lambda>e::live_entry. e\<lparr>deadline := dl\<rparr>"
  have "mb_inv (fst (update_entry b2 k ?g))" "entry (fst (update_entry b2 k ?g)) = (entry b2)(k := map_option ?g (entry b2 k))"
    using mb_invD(5)[OF inv2] by (auto intro!: update_entry_inv[OF inv2])
  then show thesis using that[OF dq] ent2 by (simp add: deferred_entry_def)
qed

lemma defer_channel_difference_cases:
  assumes inv: "mb_inv b" and c: "channel_in_diff b = Some c"
  obtains (discarded) b' where "grace_exhausted b c" "defer_channel_difference now b d = Some b'" "mb_inv b'"
      "entry b' = (entry b)(Channel c := None)" "exhausted_channels b' = insert c (exhausted_channels b)"
  | (deferred) b' e where "\<not> grace_exhausted b c" "defer_channel_difference now b d = Some b'" "mb_inv b'"
      "entry b (Channel c) = Some e"
      "entry b' = (entry b)(Channel c \<mapsto> deferred_entry (now + min d NO_UPDATES_TIMEOUT) e)"
      "next_deadline b' \<le> now + min d NO_UPDATES_TIMEOUT"
proof (cases "grace_exhausted b c")
  case True
  have "mb_inv (b\<lparr>exhausted_channels := insert c (exhausted_channels b)\<rparr>)" using inv by simp
  then obtain b1 where b1: "try_end_get_diff now (b\<lparr>exhausted_channels := insert c (exhausted_channels b)\<rparr>) (Channel c) = Some b1"
      "mb_inv (pop_entry b1 (Channel c))" "entry (pop_entry b1 (Channel c)) = (entry b)(Channel c := None)"
      "exhausted_channels b1 = insert c (exhausted_channels b)"
    by (rule exhausted_ended) simp
  then show thesis
    using discarded[OF True, of "pop_entry b1 (Channel c)"] c True
    by (simp add: defer_channel_difference_def Let_def pop_entry_def)
next
  case False
  obtain e where e: "entry b (Channel c) = Some e" "ready e" by (rule channel_in_diff_ready[OF inv c])
  then have lt: "recovery_deferrals e < MAX_CHANNEL_DEFERRALS" using False by (auto simp: grace_exhausted_def)
  let ?dl = "now + min d NO_UPDATES_TIMEOUT"
  obtain b2 where b2: "dequeue_ready (fst (update_entry b (Channel c)
        (\<lambda>e. e\<lparr>recovery_deferred := True, recovery_deferrals := recovery_deferrals e + 1\<rparr>))) (Channel c) = Some b2"
      "mb_inv (fst (update_entry b2 (Channel c) (\<lambda>e. e\<lparr>deadline := ?dl\<rparr>)))"
      "entry (fst (update_entry b2 (Channel c) (\<lambda>e. e\<lparr>deadline := ?dl\<rparr>))) = (entry b)(Channel c \<mapsto> deferred_entry ?dl e)"
    by (rule dequeue_deferred[where dl = ?dl, OF inv e lt])
  define b3 where "b3 = fst (update_entry b2 (Channel c) (\<lambda>e. e\<lparr>deadline := ?dl\<rparr>))"
  have "defer_channel_difference now b d = Some (b3\<lparr>next_deadline := min (next_deadline b3) ?dl\<rparr>)"
    using c False b2(1) by (simp add: defer_channel_difference_def Let_def b3_def)
  then show thesis
    using deferred[OF False _ _ e(1)] b2(2,3) by (simp add: b3_def)
qed

lemma try_exhaust_inv: "mb_inv b \<Longrightarrow> try_exhaust_channel_grace b = Some (b', x) \<Longrightarrow> mb_inv b'"
  by (auto simp: try_exhaust_channel_grace_def split: option.splits if_splits)

lemma accessible_inv:
  assumes "mb_inv b" "channel_difference_accessible b = Some b'"
  shows "mb_inv b'"
proof -
  obtain c where c: "channel_in_diff b = Some c" using assms(2) by (auto simp: channel_difference_accessible_def split: option.splits)
  let ?b1 = "b\<lparr>exhausted_channels := exhausted_channels b - {c}\<rparr>"
  have b1: "mb_inv ?b1" using assms(1) by simp
  have "entry_ok (e\<lparr>recovery_deferrals := 0\<rparr>) \<and> ready (e\<lparr>recovery_deferrals := 0\<rparr>) = ready e" if "entry_ok e" for e :: live_entry
    using that by (simp add: entry_ok_def ready_def)
  then have "mb_inv (fst (update_entry ?b1 (Channel c) (\<lambda>e. e\<lparr>recovery_deferrals := 0\<rparr>)))"
    using mb_invD(5)[OF b1] by (auto intro!: update_entry_inv[OF b1])
  then show ?thesis using assms(2) c by (simp add: channel_difference_accessible_def)
qed

lemma retry_without_delay_inv:
  assumes inv: "mb_inv b"
  shows "mb_inv (retry_channel_without_delay now b c)"
proof -
  let ?f = "\<lambda>e::live_entry. e\<lparr>recovery_failures := recovery_failures e - 1, retry_not_before := None,
                   possible_gap := map_option (\<lambda>gap. gap\<lparr>gap_deadline := now\<rparr>) (possible_gap e)\<rparr>"
  have "entry_ok (?f e) \<and> ready (?f e) = ready e" if "entry_ok e" for e
    using that by (auto simp: entry_ok_def ready_def none_or_def gap_ok_def split: option.splits)
  then have "mb_inv (fst (update_entry b (Channel c) ?f))"
    using mb_invD(5)[OF inv] by (intro update_entry_inv[OF inv]) auto
  then show ?thesis by (auto simp: retry_channel_without_delay_def Let_def)
qed

lemma end_channel_difference_inv:
  assumes inv: "mb_inv b" and c: "channel_in_diff b = Some c"
  obtains b' where "end_channel_difference now b reason = Some b'" "mb_inv b'"
    "reason = Banned \<Longrightarrow> entry b' = (entry b)(Channel c := None)"
    "reason = TemporaryServerIssues \<Longrightarrow> pos b' = pos b \<and> \<not> is_getting_diff b' (Channel c)"
proof -
  let ?k = "Channel c"
  obtain e where e: "entry b ?k = Some e" "ready e" by (rule channel_in_diff_ready[OF inv c])
  let ?f = "\<lambda>e::live_entry. e\<lparr>possible_gap := None\<rparr>"
  define b1 where "b1 = fst (update_entry b ?k ?f)"
  have "entry_ok (?f e) \<and> ready (?f e) = ready e" if "entry_ok e" for e
    using that by (simp add: entry_ok_def ready_def none_or_def)
  then have b1: "mb_inv b1" "entry b1 = (entry b)(?k := map_option ?f (entry b ?k))"
    using mb_invD(5)[OF inv] by (auto simp: b1_def intro!: update_entry_inv[OF inv])
  obtain b2 where b2: "try_end_get_diff now b1 ?k = Some b2" "mb_inv b2"
      "entry b2 = (entry b1)(?k := map_option (ended now) (entry b1 ?k))" "?k \<notin> set (getting_diff_for b2)"
    by (rule try_end_mb[OF b1(1)])
  let ?e2 = "ended now (?f e)"
  have e2: "entry b2 ?k = Some ?e2" using b1(2) b2(3) e(1) by simp
  have p2: "pos b2 = pos b" "\<not> is_getting_diff b2 ?k"
    using b1(2) b2(3) e e2 by (auto simp: pos_def[abs_def] is_getting_diff_def fun_eq_iff ended_def)
  define fl where "fl = (case entry b ?k of Some e \<Rightarrow> u8_saturating_succ (recovery_failures e) | None \<Rightarrow> 0)"
  have fl: "fl \<le> 255" by (simp add: fl_def e(1) u8_saturating_succ_le)
  obtain b3 beyond where r: "retain_contiguous_held_updates b2 c (pts ?e2) = (b3, beyond)" by fastforce
  note ri = retain_contiguous_inv[OF b2(2) r] and si = schedule_channel_retry_inv[OF retain_contiguous_inv(1)[OF b2(2) r] fl
      retain_contiguous_inv(3,4)[OF b2(2) r], of now]
  show thesis
  proof (cases reason)
    case TemporaryServerIssues
    have "end_channel_difference now b reason = Some (schedule_channel_retry now b3 ?k fl beyond)"
      unfolding end_channel_difference_def c bind.bind_lunit Let_def b1_def[symmetric] b2(1) fl_def[symmetric]
      using TemporaryServerIssues e2 r by simp
    then show thesis using that si pos_cong[OF ri(2)] p2 TemporaryServerIssues by simp
  next
    case Banned
    have "end_channel_difference now b reason = Some (pop_entry b2 ?k)"
      unfolding end_channel_difference_def c bind.bind_lunit Let_def b1_def[symmetric] b2(1) using Banned by simp
    moreover have "(entry b2)(?k := None) = (entry b)(?k := None)" using b1(2) b2(3) by auto
    ultimately show thesis using that[of "pop_entry b2 ?k"] pop_channel_inv[OF b2(2,4)] Banned by simp
  qed
qed

lemma discard_account_state_inv:
  assumes inv: "mb_inv b"
  obtains b' where "discard_account_state now b = Some b'" "mb_inv b'" "entry b' = (entry b)(Common := None, Secondary := None)"
proof -
  obtain b1 where b1: "try_end_get_diff now b Common = Some b1" "mb_inv b1"
      "entry b1 = (entry b)(Common := map_option (ended now) (entry b Common))" "Common \<notin> set (getting_diff_for b1)"
    by (rule try_end_mb[OF inv])
  let ?b1 = "pop_entry b1 Common"
  note s1 = mb_invD(2)[OF b1(2)]
  have t: "table_inv (entries ?b1) (getting_diff_for ?b1) (ready_diff_count ?b1)"
    using table_inv_remove[OF mb_invD(1)[OF b1(2)] b1(4)] by (simp add: pop_entry_def)
  obtain b2 where b2: "try_end_get_diff now ?b1 Secondary = Some b2"
      "table_inv (entries b2) (getting_diff_for b2) (ready_diff_count b2)"
      "entry b2 = (entry ?b1)(Secondary := map_option (ended now) (entry ?b1 Secondary))"
      "Secondary \<notin> set (getting_diff_for b2)" "held_updates b2 = held_updates ?b1"
    by (rule try_end_inv[OF t])
  let ?b = "pop_entry b2 Secondary"
  have ent: "entry ?b = (entry b2)(Secondary := None)"
    using find_remove_entry[OF table_invD(1)[OF b2(2)]] by (simp add: pop_entry_def entry_def[abs_def])
  have "entry ?b1 = (entry b1)(Common := None)"
    using find_remove_entry[OF s1] by (simp add: pop_entry_def entry_def[abs_def])
  with ent b2(3) b1(3) have ent': "entry ?b = (entry b)(Common := None, Secondary := None)" by auto
  have "account_inv (entries ?b)" using ent' by (simp add: account_inv_def entry_def[abs_def] fun_eq_iff)
  moreover have "table_inv (entries ?b) (getting_diff_for ?b) (ready_diff_count ?b)"
    using table_inv_remove[OF b2(2,4)] by (simp add: pop_entry_def)
  ultimately have "mb_inv ?b"
    using mb_invD(3)[OF b1(2)] b2(5) by (simp add: mb_inv_def pop_entry_def)
  then show thesis using that[of ?b] b1(1) b2(1) ent' by (simp add: discard_account_state_def)
qed

end
