(* ===== verification/Mb_Properties.thy ===== *)
theory Mb_Properties
  imports Mb_Channels
begin

text \<open>
  The properties of the message boxes: consistency of every reachable state and absence of
  panics, contiguous delivery, recovery, deadlines, and the saved state.
\<close>

section \<open>Reachable states\<close>

text \<open>The states a caller of the public interface can bring about.\<close>

inductive reachable :: "message_boxes \<Rightarrow> bool" where
  created: "reachable (new_boxes now)"
| loaded: "reachable (load now st)"
| deadlines: "reachable b \<Longrightarrow> reachable (fst (check_deadlines now b))"
| account: "reachable b \<Longrightarrow> \<not> has_primary_state b \<Longrightarrow> reachable (set_state now b ast)"
| channel: "reachable b \<Longrightarrow> reachable (try_set_channel_state now b c p)"
| updates: "reachable b \<Longrightarrow> process_updates now b ul = Some (b', r) \<Longrightarrow> reachable b'"
| released: "reachable b \<Longrightarrow> take_released_updates now b = Some (b', rel) \<Longrightarrow> reachable b'"
| difference: "reachable b \<Longrightarrow> apply_difference now b d = Some (b', res) \<Longrightarrow> reachable b'"
| channel_difference: "reachable b \<Longrightarrow> apply_channel_difference now b cd = Some (b', res) \<Longrightarrow> reachable b'"
| deferred: "reachable b \<Longrightarrow> defer_channel_difference now b delay = Some b' \<Longrightarrow> reachable b'"
| exhausted: "reachable b \<Longrightarrow> try_exhaust_channel_grace b = Some (b', x) \<Longrightarrow> reachable b'"
| accessible: "reachable b \<Longrightarrow> channel_difference_accessible b = Some b' \<Longrightarrow> reachable b'"
| retried: "reachable b \<Longrightarrow> reachable (retry_channel_without_delay now b c)"
| ended_early: "reachable b \<Longrightarrow> end_channel_difference now b reason = Some b' \<Longrightarrow> reachable b'"
| discarded: "reachable b \<Longrightarrow> discard_account_state now b = Some b' \<Longrightarrow> reachable b'"

lemma apply_channel_difference_inv:
  assumes inv: "mb_inv b" and a: "apply_channel_difference now b difference = Some (b', r)"
  shows "mb_inv b'"
proof -
  obtain c where c: "channel_in_diff b = Some c"
    using a by (cases "channel_in_diff b") (auto simp: apply_channel_difference_def)
  obtain diff where "adapt_channel_difference difference = Some diff"
    using a c by (cases "adapt_channel_difference difference") (auto simp: apply_channel_difference_def Let_def)
  then obtain b1 rs where "apply_channel_difference now b difference = Some (b1, rs, cd_users diff, cd_chats diff)" "mb_inv b1"
    by (rule apply_channel_difference_ok[OF inv c])
  with a show ?thesis by simp
qed

lemma defer_channel_difference_total:
  assumes "mb_inv b" "channel_in_diff b = Some c"
  obtains b' where "defer_channel_difference now b d = Some b'" "mb_inv b'"
  using defer_channel_difference_cases[OF assms, of now d thesis] by blast

lemma needs_channel:
  assumes "defer_channel_difference now b d \<noteq> None \<or> end_channel_difference now b reason \<noteq> None"
  shows "\<exists>c. channel_in_diff b = Some c"
  using assms by (cases "channel_in_diff b") (auto simp: defer_channel_difference_def end_channel_difference_def)

lemma reachable_mb_inv: "reachable b \<Longrightarrow> mb_inv b"
proof (induction rule: reachable.induct)
  case (updates b now ul b' r)
  obtain b1 r1 where "process_updates now b ul = Some (b1, r1)" "mb_inv b1" by (rule process_updates_inv[OF updates.IH])
  with updates show ?case by simp
next
  case (released b now b' r)
  obtain b1 r1 where "take_released_updates now b = Some (b1, r1)" "mb_inv b1" by (rule take_released_updates_inv[OF released.IH])
  with released show ?case by simp
next
  case (difference b now d b' r)
  obtain b1 r1 where "apply_difference now b d = Some (b1, r1)" "mb_inv b1" by (rule apply_difference_inv[OF difference.IH])
  with difference show ?case by simp
next
  case (deferred b now d b')
  obtain c where c: "channel_in_diff b = Some c" using needs_channel[of now b d] deferred by auto
  obtain b1 where "defer_channel_difference now b d = Some b1" "mb_inv b1"
    by (rule defer_channel_difference_total[OF deferred.IH c])
  with deferred show ?case by simp
next
  case (ended_early b now reason b')
  obtain c where c: "channel_in_diff b = Some c" using needs_channel[of now b _ reason] ended_early by auto
  obtain b1 where "end_channel_difference now b reason = Some b1" "mb_inv b1"
    by (rule end_channel_difference_inv[OF ended_early.IH c])
  with ended_early show ?case by simp
next
  case (discarded b now b')
  obtain b1 where "discard_account_state now b = Some b1" "mb_inv b1" by (rule discard_account_state_inv[OF discarded.IH])
  with discarded show ?case by simp
qed (auto intro: new_boxes_inv load_inv check_deadlines_inv set_state_inv try_set_channel_state_inv
    apply_channel_difference_inv try_exhaust_inv accessible_inv retry_without_delay_inv)

text \<open>
  C3: every state a caller can reach is consistent: entries are sorted by key and unique, exactly
  the boxes whose recovery is pending and not deferred are queued, once each, and counted;
  deferred boxes are pending; gaps are non-empty, hold at most 512 valid updates, all of their own
  box; at most 512 updates are held and all belong to their channel; a secondary position never
  exists without a primary one.
\<close>

theorem reachable_consistent:
  assumes "reachable b"
  shows "mb_inv b"
  using assms by (rule reachable_mb_inv)

theorem reachable_consistent_witness: "mb_inv (fst (check_deadlines 5 (new_boxes 0)))"
  by (rule reachable_consistent) (intro reachable.intros)

text \<open>When an operation on the first ready channel, or the conversion of its difference, panics.\<close>

lemma channel_operations_panic:
  assumes inv: "mb_inv b"
  shows "defer_channel_difference now b delay = None \<longleftrightarrow> channel_in_diff b = None"
    and "end_channel_difference now b reason = None \<longleftrightarrow> channel_in_diff b = None"
    and "try_exhaust_channel_grace b = None \<longleftrightarrow> channel_in_diff b = None"
    and "channel_difference_accessible b = None \<longleftrightarrow> channel_in_diff b = None"
    and "apply_channel_difference now b cd = None \<longleftrightarrow> channel_in_diff b = None \<or> adapt_channel_difference cd = None"
proof -
  show "defer_channel_difference now b delay = None \<longleftrightarrow> channel_in_diff b = None"
    using defer_channel_difference_total[OF inv, of _ now delay] by (metis needs_channel option.distinct(1) option.exhaust)
  show "end_channel_difference now b reason = None \<longleftrightarrow> channel_in_diff b = None"
    using end_channel_difference_inv[OF inv, of _ now reason] by (metis needs_channel option.distinct(1) option.exhaust)
  show "try_exhaust_channel_grace b = None \<longleftrightarrow> channel_in_diff b = None"
    "channel_difference_accessible b = None \<longleftrightarrow> channel_in_diff b = None"
    by (simp_all add: try_exhaust_channel_grace_def channel_difference_accessible_def split: option.splits)
  have "apply_channel_difference now b cd = None" if "channel_in_diff b = None \<or> adapt_channel_difference cd = None"
    using that by (cases "channel_in_diff b") (auto simp: apply_channel_difference_def Let_def)
  moreover have "apply_channel_difference now b cd \<noteq> None" if c: "channel_in_diff b = Some c" "adapt_channel_difference cd = Some diff" for c diff
    by (rule apply_channel_difference_ok[where now = now, OF inv c]) simp
  ultimately show "apply_channel_difference now b cd = None \<longleftrightarrow> channel_in_diff b = None \<or> adapt_channel_difference cd = None"
    by (cases "channel_in_diff b"; cases "adapt_channel_difference cd") auto
qed

lemma adapt_channel_difference_panics:
  "adapt_channel_difference cd = None \<longleftrightarrow>
     (\<exists>fin timeout dlg ms chats users. cd = ChannelDifferenceTooLong fin timeout dlg ms chats users \<and> dialog_pts dlg = None)"
  by (cases cd) (auto split: option.splits)

text \<open>
  C4: when the operations panic in a reachable state, in a build without debug assertions.
  Processing updates, releasing held ones, both checked ways to apply a difference, asking for a
  channel difference and discarding the account never do, whatever the server sent: no \<open>expect\<close>
  fails and no counter underflows. Applying an account difference unchecked does not while one is
  pending, as \<open>apply_difference\<close> asserts. The operations on the first ready channel panic exactly when
  there is none, as documented, and applying a channel difference unchecked panics exactly then or
  when it is a too-long difference whose dialog has no position, is a folder or is a community.
\<close>

theorem no_panic:
  assumes "reachable b"
  shows "process_updates now b ul \<noteq> None \<and> take_released_updates now b \<noteq> None \<and>
    try_apply_difference now b d \<noteq> None \<and> try_apply_channel_difference now b cd \<noteq> None \<and>
    get_channel_difference b \<noteq> None \<and> discard_account_state now b \<noteq> None \<and>
    (is_getting_diff b Common \<or> is_getting_diff b Secondary \<longrightarrow> apply_difference now b d \<noteq> None) \<and>
    (defer_channel_difference now b delay = None \<longleftrightarrow> channel_in_diff b = None) \<and>
    (end_channel_difference now b reason = None \<longleftrightarrow> channel_in_diff b = None) \<and>
    (try_exhaust_channel_grace b = None \<longleftrightarrow> channel_in_diff b = None) \<and>
    (channel_difference_accessible b = None \<longleftrightarrow> channel_in_diff b = None) \<and>
    (apply_channel_difference now b cd = None \<longleftrightarrow> channel_in_diff b = None \<or>
      (\<exists>fin timeout dlg ms chats users. cd = ChannelDifferenceTooLong fin timeout dlg ms chats users \<and> dialog_pts dlg = None))"
proof -
  note inv = reachable_mb_inv[OF assms]
  have "process_updates now b ul \<noteq> None" by (rule process_updates_inv[OF inv, of now ul]) simp
  moreover have "take_released_updates now b \<noteq> None" by (rule take_released_updates_inv[where now = now, OF inv]) simp
  moreover have "apply_difference now b d \<noteq> None" by (rule apply_difference_inv[where now = now and diff = d, OF inv]) simp
  moreover have "try_apply_difference now b d \<noteq> None" by (rule try_apply_difference_inv[where now = now and diff = d, OF inv]) simp
  moreover have "try_apply_channel_difference now b cd \<noteq> None" by (rule try_apply_channel_difference_inv[where now = now and difference = cd, OF inv]) simp
  moreover have "discard_account_state now b \<noteq> None" by (rule discard_account_state_inv[where now = now, OF inv]) simp
  ultimately show ?thesis
    using get_channel_difference_total[OF inv]
    by (simp add: channel_operations_panic[OF inv] adapt_channel_difference_panics)
qed

definition sample_saved :: updates_state where
  "sample_saved = \<lparr>us_pts = 10, us_qts = 3, us_date = 100, us_seq = 2,
     us_channels = [\<lparr>chan_id = 7, chan_pts = 20\<rparr>, \<lparr>chan_id = 9, chan_pts = 5\<rparr>]\<rparr>"

text \<open>The equations with which the operations evaluate on concrete states.\<close>

lemmas eval_simps = load_def repair_state_def saved_entries_def mk_entry_def Let_def valid_channel_def next_updates_deadline_def
  NO_UPDATES_TIMEOUT_def entry_def is_getting_diff_def find_entry_def binary_search_by_key_def bsearch_loop.simps
  process_updates_def process_updates_inner_def update_short_def sort_updates_by_key_def valid_update_def none_or_def
  process_one_def process_update_def from_update_def new_boxes_def force_update_entry_def force_entry_def apply_to_entry_def
  receive_update_def close_gap_def pos_def delivered_info_def less_key_def less_eq_key_def

lemma sample_channel: "channel_in_diff (load 0 sample_saved) = Some 7"
  by (simp add: sample_saved_def channel_in_diff_def eval_simps)

theorem no_panic_witness:
  "process_updates 7 (load 0 sample_saved) ConnectionClosed \<noteq> None \<and> take_released_updates 7 (load 0 sample_saved) \<noteq> None \<and>
    apply_difference 7 (load 0 sample_saved) (DifferenceTooLong 4) \<noteq> None \<and>
    defer_channel_difference 7 (load 0 sample_saved) 1000 \<noteq> None \<and>
    end_channel_difference 7 (load 0 sample_saved) Banned \<noteq> None \<and>
    apply_channel_difference 7 (load 0 sample_saved) (ChannelDifferenceTooLong True None (DialogFolder []) [] [] []) = None"
proof -
  have "is_getting_diff (load 0 sample_saved) Common" by (simp add: sample_saved_def eval_simps)
  then show ?thesis
    using no_panic[OF reachable.loaded, of 7 0 sample_saved ConnectionClosed "DifferenceTooLong 4"
        "ChannelDifferenceTooLong True None (DialogFolder []) [] [] []" 1000 Banned] sample_channel
    by auto
qed

section \<open>Contiguous delivery\<close>

text \<open>
  What happens to the message boxes between differences: updates arrive, held ones are released
  and deadlines are checked, each at its time. The result collects everything delivered.
\<close>

datatype socket_event = Received updates_like | Release | Tick

fun handle_event :: "instant \<Rightarrow> socket_event \<Rightarrow> message_boxes \<Rightarrow> (message_boxes \<times> (tl_update \<times> update_state) list) option" where
  "handle_event now (Received ul) b =
     (case process_updates now b ul of
        None \<Rightarrow> None
      | Some (b', Inl Gap) \<Rightarrow> Some (b', [])
      | Some (b', Inr (rs, users, chats)) \<Rightarrow> Some (b', rs))"
| "handle_event now Release b =
     (case take_released_updates now b of
        None \<Rightarrow> None
      | Some (b', None) \<Rightarrow> Some (b', [])
      | Some (b', Some (rs, users, chats)) \<Rightarrow> Some (b', rs))"
| "handle_event now Tick b = Some (fst (check_deadlines now b), [])"

fun run_events :: "message_boxes \<Rightarrow> (instant \<times> socket_event) list \<Rightarrow> (message_boxes \<times> (tl_update \<times> update_state) list) option" where
  "run_events b [] = Some (b, [])"
| "run_events b ((now, ev) # evs) =
     do { (b1, rs) \<leftarrow> handle_event now ev b; (b2, rs') \<leftarrow> run_events b1 evs; Some (b2, rs @ rs') }"

text \<open>What one event does, per box.\<close>

definition event_ok :: "message_boxes \<Rightarrow> (tl_update \<times> update_state) list \<Rightarrow> message_boxes \<Rightarrow> bool" where
  "event_ok b rs b' \<longleftrightarrow> mb_inv b' \<and> list_all (\<lambda>(u, s). valid_update u) rs \<and>
     (\<forall>k. advances (pos b k) (delivered k rs) (pos b' k)) \<and>
     (\<forall>k. is_getting_diff b k \<longrightarrow> is_getting_diff b' k \<and> pos b' k = pos b k \<and> delivered k rs = [])"

lemma event_ok_trans: "event_ok b rs b1 \<Longrightarrow> event_ok b1 rs' b2 \<Longrightarrow> event_ok b (rs @ rs') b2"
  unfolding event_ok_def by (auto intro: advances_trans)

lemma batch_event_ok: "batch_ok [] b rs bm \<Longrightarrow> b' = bm\<lparr>date := d, seq := s\<rparr> \<Longrightarrow> event_ok b rs b'"
  by (simp add: batch_ok_def event_ok_def)

lemma check_deadlines_event_ok:
  assumes inv: "mb_inv b"
  shows "event_ok b [] (fst (check_deadlines now b))"
proof (cases "now < next_deadline b")
  case True
  then show ?thesis using inv by (simp add: check_deadlines_def Let_def event_ok_def)
next
  case False
  then obtain b' t where c: "check_deadlines now b = (b', t)" "mb_inv b'" "entries b' = map (checked now) (entries b)"
    using check_deadlines_expired[OF inv, of now thesis] by (metis check_deadlines_expired inv not_less)
  have ent: "entry b' k = map_option (checked now) (entry b k)" for k
    using find_entry_map(1)[OF mb_invD(2)[OF inv], of "checked now" k] c(3) by (simp add: entry_def)
  have "recovery_pending e \<Longrightarrow> recovery_pending (checked now e)" for e by (simp add: checked_def)
  then have "is_getting_diff b k \<Longrightarrow> is_getting_diff b' k" for k
    by (auto simp: is_getting_diff_def ent split: option.splits)
  moreover have "pos b' k = pos b k" for k by (simp add: pos_def ent option.map_comp comp_def)
  ultimately show ?thesis using c(1,2) by (simp add: event_ok_def)
qed

lemma handle_event_ok:
  assumes inv: "mb_inv b"
  obtains b' rs where "handle_event now ev b = Some (b', rs)" "event_ok b rs b'"
proof (cases ev)
  case (Received ul)
  show thesis
  proof (rule inner_cases[OF inv, of now "[]" ul], goal_cases gap applied)
    case gap
    have "event_ok b [] (try_begin_get_diff now b Common)"
      using try_begin_inv[OF inv, of now Common]
      by (auto simp: event_ok_def pos_def is_getting_diff_def began_def option.map_comp comp_def split: option.splits if_splits
          intro: option.map_cong)
    with gap Received show thesis by (intro that) (simp_all add: process_updates_def)
  next
    case (applied rs users chats bm b')
    then obtain d s where "b' = bm\<lparr>date := d, seq := s\<rparr>" by blast
    from batch_event_ok[OF applied(2) this] applied(1) Received show thesis
      by (intro that) (simp_all add: process_updates_def)
  qed
next
  case Release
  show thesis
  proof (cases "held_release_ready b")
    case False
    then show thesis using Release inv that[of b "[]"] by (simp add: take_released_updates_def event_ok_def)
  next
    case True
    have same: "event_ok b rs b'" if "event_ok (b\<lparr>held_release_ready := r, held_overflowed := v, held_updates := h\<rparr>) rs b'" for r v h rs b'
      using that by (simp add: event_ok_def pos_def is_getting_diff_def)
    show thesis
    proof (rule take_released_updates_cases[OF inv True, of now], goal_cases idle released)
      case idle
      then have "event_ok b [] (b\<lparr>held_release_ready := False, held_overflowed := False,
          held_updates := filter (still_held b) (held_updates b)\<rparr>)"
        by (simp add: event_ok_def pos_def is_getting_diff_def)
      then show thesis using idle Release by (intro that) simp_all
    next
      case (released rs b')
      then have "event_ok (b\<lparr>held_release_ready := False, held_overflowed := False,
          held_updates := filter (still_held b) (held_updates b)\<rparr>) rs b'"
        by (simp add: batch_ok_def event_ok_def)
      from same[OF this] released(2) Release show thesis by (intro that) simp_all
    qed
  qed
next
  case Tick
  then show thesis using that check_deadlines_event_ok[OF inv] by simp
qed

lemma run_events_ok:
  assumes "mb_inv b"
  obtains b' rs where "run_events b evs = Some (b', rs)" "event_ok b rs b'"
  using assms
proof (induction evs arbitrary: b thesis)
  case Nil
  then show thesis by (intro Nil(1)[of b "[]"]) (simp_all add: event_ok_def)
next
  case (Cons e evs)
  obtain now ev where e: "e = (now, ev)" by fastforce
  obtain b1 r1 where 1: "handle_event now ev b = Some (b1, r1)" "event_ok b r1 b1" by (rule handle_event_ok[OF Cons.prems(2)])
  have "mb_inv b1" using 1(2) by (simp add: event_ok_def)
  from Cons.IH[OF _ this] obtain b2 r2 where 2: "run_events b1 evs = Some (b2, r2)" "event_ok b1 r2 b2" by metis
  show thesis using 1 2 e event_ok_trans[OF 1(2) 2(2)] by (intro Cons.prems(1)[of b2 "r1 @ r2"]) simp_all
qed

text \<open>Positions along a chain increase, strictly for updates that count.\<close>

lemma chain_increasing:
  "chain p is q \<Longrightarrow> \<forall>i\<in>set is. 0 \<le> info_count i \<Longrightarrow>
   p \<le> q \<and> (\<forall>i\<in>set is. p + info_count i \<le> info_pts i) \<and>
   sorted_wrt (<) (map info_pts (filter (\<lambda>i. 0 < info_count i) is))"
proof (induction p "is" q rule: chain.induct)
  case (2 p i "is" q)
  then have IH: "info_pts i \<le> q" "\<forall>j\<in>set is. info_pts i + info_count j \<le> info_pts j"
      "sorted_wrt (<) (map info_pts (filter (\<lambda>i. 0 < info_count i) is))" by auto
  have "p \<le> info_pts i" "p + info_count i = info_pts i" using 2(2,3) by auto
  with IH show ?case by fastforce
qed simp

lemma advances_increasing:
  "advances p is q \<Longrightarrow> \<forall>i\<in>set is. 0 \<le> info_count i \<Longrightarrow> sorted_wrt (<) (map info_pts (filter (\<lambda>i. 0 < info_count i) is))"
  by (cases p; cases q) (auto dest: chain_increasing)

lemma delivered_valid:
  "list_all (\<lambda>(u, s). valid_update u) rs \<Longrightarrow> i \<in> set (delivered k rs) \<Longrightarrow> 0 \<le> info_count i \<and> info_key i = k"
proof (induction rs)
  case (Cons r rs)
  then show ?case using valid_update_range(1)
    by (auto simp: delivered_info_def split: option.splits prod.splits if_splits)
qed simp

text \<open>
  C1: contiguous delivery. From any reachable state, through any sequence of received updates,
  releases of held updates and deadline checks, what is delivered from each message box is a
  contiguous run from its old position to its new one: each update starts exactly where the
  previous one ended, so nothing inside is skipped and nothing is delivered out of order.
\<close>

theorem delivery_is_contiguous:
  assumes "reachable b"
  shows "\<exists>b' rs. run_events b evs = Some (b', rs) \<and> (\<forall>k. advances (pos b k) (delivered k rs) (pos b' k))"
proof -
  obtain b' rs where "run_events b evs = Some (b', rs)" "event_ok b rs b'"
    by (rule run_events_ok[OF reachable_mb_inv[OF assms]])
  then show ?thesis by (auto simp: event_ok_def)
qed

theorem delivery_is_contiguous_witness:
  "\<exists>b' rs. run_events (load 0 sample_saved) [(3, Received ConnectionClosed), (9, Tick), (9, Release)] = Some (b', rs) \<and>
     (\<forall>k. advances (pos (load 0 sample_saved) k) (delivered k rs) (pos b' k))"
  by (rule delivery_is_contiguous) (rule reachable.loaded)

text \<open>
  C9: at most once. In such a run no update that advances its box is delivered twice: the
  positions of the delivered updates with a positive count strictly increase.
\<close>

theorem delivered_at_most_once:
  assumes "reachable b" and "run_events b evs = Some (b', rs)"
  shows "sorted_wrt (<) (map info_pts (filter (\<lambda>i. 0 < info_count i) (delivered k rs)))"
proof -
  obtain b1 rs1 where "run_events b evs = Some (b1, rs1)" "event_ok b rs1 b1"
    by (rule run_events_ok[OF reachable_mb_inv[OF assms(1)]])
  with assms(2) have ok: "event_ok b rs b'" by simp
  have "\<forall>i\<in>set (delivered k rs). 0 \<le> info_count i"
    using ok delivered_valid[of rs _ k] by (auto simp: event_ok_def)
  with ok show ?thesis by (auto simp: event_ok_def intro: advances_increasing)
qed

text \<open>A deletion received twice, and a channel whose recovery is pending.\<close>

definition sample_event :: socket_event where
  "sample_event = Received (UpdatesLike (UpdateShort \<lparr>su_update = DeleteMessages [1] 5 1, su_date = 0\<rparr>))"

lemma sample_pending: "is_getting_diff (load 0 sample_saved) (Channel 7)"
  by (simp add: sample_saved_def eval_simps)

lemma sample_run: "\<exists>b'. run_events (new_boxes 0) [(1, sample_event), (2, sample_event)] =
   Some (b', [(DeleteMessages [1] 5 1, \<lparr>state_date = 0, state_seq = 0, state_box = Some (CommonBox 5)\<rparr>)])"
  by (simp add: sample_event_def eval_simps)

theorem delivered_at_most_once_witness:
  "\<exists>b' rs. run_events (new_boxes 0) [(1, sample_event), (2, sample_event)] = Some (b', rs) \<and>
     sorted_wrt (<) (map info_pts (filter (\<lambda>i. 0 < info_count i) (delivered Common rs)))"
proof -
  obtain b' rs where "run_events (new_boxes 0) [(1, sample_event), (2, sample_event)] = Some (b', rs)"
    using sample_run by blast
  with delivered_at_most_once[OF reachable.created this] show ?thesis by blast
qed

text \<open>
  C8: no box moves while its difference is being fetched: through any such run a box whose
  recovery is pending stays pending, keeps its position and delivers nothing, so socket updates
  cannot skip its backlog.
\<close>

theorem pending_box_waits:
  assumes "reachable b" and "run_events b evs = Some (b', rs)" and "is_getting_diff b k"
  shows "is_getting_diff b' k \<and> pos b' k = pos b k \<and> delivered k rs = []"
proof -
  obtain b1 rs1 where "run_events b evs = Some (b1, rs1)" "event_ok b rs1 b1"
    by (rule run_events_ok[OF reachable_mb_inv[OF assms(1)]])
  with assms(2,3) show ?thesis by (simp add: event_ok_def)
qed

theorem pending_box_waits_witness:
  "\<exists>b' rs. run_events (load 0 sample_saved) [(1, sample_event), (2, Tick)] = Some (b', rs) \<and>
     is_getting_diff b' (Channel 7) \<and> pos b' (Channel 7) = pos (load 0 sample_saved) (Channel 7) \<and> delivered (Channel 7) rs = []"
proof -
  have r: "reachable (load 0 sample_saved)" by (rule reachable.loaded)
  obtain b' rs where "run_events (load 0 sample_saved) [(1, sample_event), (2, Tick)] = Some (b', rs)"
    by (rule run_events_ok[OF reachable_mb_inv[OF r]])
  with pending_box_waits[OF r this sample_pending] show ?thesis by blast
qed

end
