(* ===== verification/Mb_Recovery.thy ===== *)
theory Mb_Recovery
  imports Mb_Properties
begin

text \<open>
  Recovery of the message boxes: what account and channel differences do to the positions, how
  invalid ones are refused, how often a channel is deferred, and what a check of the deadlines does.
\<close>

section \<open>Account differences\<close>

text \<open>What the account state is to a caller: both positions, the date and the sequence number.\<close>

definition account_view :: "message_boxes \<Rightarrow> int option \<times> int option \<times> int \<times> int" where
  "account_view b = (pos b Common, pos b Secondary, date b, seq b)"

text \<open>What a difference means for it, and whether it is the last one.\<close>

fun difference_view :: "difference \<Rightarrow> int option \<times> int option \<times> int \<times> int \<Rightarrow> int option \<times> int option \<times> int \<times> int" where
  "difference_view (DifferenceEmpty d s) (p, q, _, _) = (p, q, d, s)"
| "difference_view (Difference ad) _ = (Some (as_pts (ad_state ad)), Some (as_qts (ad_state ad)), as_date (ad_state ad), as_seq (ad_state ad))"
| "difference_view (DifferenceSlice ad) _ = (Some (as_pts (ad_state ad)), Some (as_qts (ad_state ad)), as_date (ad_state ad), as_seq (ad_state ad))"
| "difference_view (DifferenceTooLong p) (_, q, d, s) = (Some p, q, d, s)"

fun last_difference :: "difference \<Rightarrow> bool" where
  "last_difference (DifferenceSlice _) = False"
| "last_difference _ = True"

lemma ended_facts [simp]: "pts (ended now e) = pts e" "\<not> recovery_pending (ended now e)"
  by (simp_all add: ended_def)

lemma finish_account_view:
  assumes "mb_inv b"
  obtains b' where "finish_account now b = Some b'" "mb_inv b'" "account_view b' = account_view b"
    "\<not> is_getting_diff b' Common" "\<not> is_getting_diff b' Secondary"
    "\<forall>c. entry b' (Channel c) = entry b (Channel c)"
proof -
  obtain b' where b': "finish_account now b = Some b'" "mb_inv b'"
    "entry b' = (entry b)(Common := map_option (ended now) (entry b Common), Secondary := map_option (ended now) (entry b Secondary))"
    "date b' = date b" "seq b' = seq b"
    by (rule finish_account_inv[OF assms])
  have "account_view b' = account_view b" "\<not> is_getting_diff b' Common" "\<not> is_getting_diff b' Secondary"
    by (simp_all add: account_view_def pos_def is_getting_diff_def b'(3-5) option.map_comp comp_def split: option.splits)
  with b' that show thesis by simp
qed

lemma channel_cong: "entry b' k = entry b k \<Longrightarrow> pos b' k = pos b k \<and> is_getting_diff b' k = is_getting_diff b k"
  by (simp add: pos_def is_getting_diff_def)

text \<open>
  The effect of a difference on the account and on the channels: its messages, its updates of the
  account and those without position are all delivered.
\<close>

definition account_contents :: "account_difference \<Rightarrow> tl_update list" where
  "account_contents ad =
     sort_key update_sort_key (filter (immediate [Common, Secondary]) (retain_valid_updates (ad_other_updates ad))) @
     map (\<lambda>m. NewMessage m NO_PTS 0) (ad_new_messages ad) @
     map (\<lambda>m. NewEncryptedMessage m NO_PTS) (ad_new_encrypted_messages ad)"

fun difference_contents :: "difference \<Rightarrow> tl_update list" where
  "difference_contents (Difference ad) = account_contents ad"
| "difference_contents (DifferenceSlice ad) = account_contents ad"
| "difference_contents _ = []"

definition difference_ok :: "message_boxes \<Rightarrow> difference \<Rightarrow> message_boxes \<Rightarrow> (tl_update \<times> update_state) list \<Rightarrow> bool" where
  "difference_ok b d b' rs \<longleftrightarrow> account_view b' = difference_view d (account_view b) \<and>
     filter (immediate [Common, Secondary]) (map fst rs) = difference_contents d \<and>
     (last_difference d \<longrightarrow> \<not> is_getting_diff b' Common \<and> \<not> is_getting_diff b' Secondary) \<and>
     (\<not> last_difference d \<longrightarrow> (\<forall>k\<in>{Common, Secondary}. is_getting_diff b k \<longrightarrow> is_getting_diff b' k)) \<and>
     (\<forall>c. advances (pos b (Channel c)) (delivered (Channel c) rs) (pos b' (Channel c))) \<and>
     (\<forall>c. is_getting_diff b (Channel c) \<longrightarrow> is_getting_diff b' (Channel c) \<and>
        pos b' (Channel c) = pos b (Channel c) \<and> delivered (Channel c) rs = [])"

lemma difference_ok_quiet:
  assumes "mb_inv b1" "account_view b1 = difference_view d (account_view b)" "last_difference d" "difference_contents d = []"
    "\<forall>c. entry b1 (Channel c) = entry b (Channel c)"
  obtains b' where "finish_account now b1 = Some b'" "mb_inv b'" "difference_ok b d b' []"
proof -
  obtain b' where b': "finish_account now b1 = Some b'" "mb_inv b'" "account_view b' = account_view b1"
    "\<not> is_getting_diff b' Common" "\<not> is_getting_diff b' Secondary"
    "\<forall>c. entry b' (Channel c) = entry b1 (Channel c)"
    by (rule finish_account_view[where now = now, OF assms(1)])
  have "difference_ok b d b' []"
    using b' assms(2-5) channel_cong[of b' "Channel _" b] by (simp add: difference_ok_def)
  with b' that show thesis by blast
qed

lemma apply_difference_ok:
  assumes inv: "mb_inv b"
  obtains b' rs users chats where "apply_difference now b d = Some (b', rs, users, chats)" "mb_inv b'"
    "difference_ok b d b' rs"
proof (cases d)
  case (DifferenceEmpty dt s)
  obtain b' where "finish_account now (b\<lparr>date := dt, seq := s\<rparr>) = Some b'" "mb_inv b'" "difference_ok b d b' []"
    by (rule difference_ok_quiet[of "b\<lparr>date := dt, seq := s\<rparr>" d b now])
      (use inv DifferenceEmpty in \<open>simp_all add: account_view_def pos_def\<close>)
  then show thesis using that DifferenceEmpty by simp
next
  case (DifferenceTooLong p)
  have v: "account_view (set_pts now b Common p) = difference_view d (account_view b)"
    using set_pts_inv(2)[OF inv, of Common now p] DifferenceTooLong
    by (auto simp: account_view_def pos_def split: option.splits)
  have i: "mb_inv (set_pts now b Common p)" by (rule set_pts_inv(1)[OF inv]) simp
  have c: "\<forall>c. entry (set_pts now b Common p) (Channel c) = entry b (Channel c)"
    using set_pts_inv(2)[OF inv, of Common now p] by simp
  obtain b' where "finish_account now (set_pts now b Common p) = Some b'" "mb_inv b'" "difference_ok b d b' []"
    by (rule difference_ok_quiet[OF i v _ _ c, where now = now]) (simp_all add: DifferenceTooLong)
  then show thesis using that DifferenceTooLong by simp
next
  case (DifferenceSlice ad)
  show thesis
    by (rule apply_difference_type_ok[OF inv, of now ad])
      (rule that, use DifferenceSlice in \<open>auto simp: difference_ok_def account_view_def account_contents_def\<close>)
next
  case (Difference ad)
  show thesis
  proof (rule apply_difference_type_ok[OF inv, of now ad])
    fix b1 rs users chats
    assume 1: "apply_difference_type now b ad = Some (b1, rs, users, chats)" "mb_inv b1"
      "pos b1 Common = Some (as_pts (ad_state ad))" "pos b1 Secondary = Some (as_qts (ad_state ad))"
      "date b1 = as_date (ad_state ad)" "seq b1 = as_seq (ad_state ad)"
      "\<And>c. is_getting_diff b (Channel c) \<Longrightarrow> is_getting_diff b1 (Channel c) \<and> pos b1 (Channel c) = pos b (Channel c) \<and>
         delivered (Channel c) rs = []"
      "\<And>c. advances (pos b (Channel c)) (delivered (Channel c) rs) (pos b1 (Channel c))"
      "filter (immediate [Common, Secondary]) (map fst rs) =
         sort_key update_sort_key (filter (immediate [Common, Secondary]) (retain_valid_updates (ad_other_updates ad))) @
         map (\<lambda>m. NewMessage m NO_PTS 0) (ad_new_messages ad) @
         map (\<lambda>m. NewEncryptedMessage m NO_PTS) (ad_new_encrypted_messages ad)"
    obtain b' where b': "finish_account now b1 = Some b'" "mb_inv b'" "account_view b' = account_view b1"
      "\<not> is_getting_diff b' Common" "\<not> is_getting_diff b' Secondary"
      "\<forall>c. entry b' (Channel c) = entry b1 (Channel c)"
      by (rule finish_account_view[where now = now, OF 1(2)])
    have "difference_ok b d b' rs"
      using b'(3-5) 1(3-9) Difference channel_cong[OF b'(6)[rule_format]] by (simp add: difference_ok_def account_view_def account_contents_def)
    then show thesis using that b'(1,2) 1(1) Difference by simp
  qed
qed

text \<open>
  C5: account recovery. Applying a valid difference to a reachable state whose account recovery is
  pending moves both positions, the date and the sequence number to exactly what the server said,
  delivers every new message and every valid account update of the difference once, ends the
  recovery unless the difference is a slice, and treats channel updates inside it as
  socket updates: they are delivered contiguously, and not at all for channels whose own
  difference is still to come.
\<close>

theorem account_difference_recovers:
  assumes "reachable b" and "is_getting_diff b Common \<or> is_getting_diff b Secondary" and "valid_difference d"
  shows "\<exists>b' rs users chats. try_apply_difference now b d = Some (b', Inr (rs, users, chats)) \<and> difference_ok b d b' rs"
proof -
  obtain b' rs users chats where "apply_difference now b d = Some (b', rs, users, chats)" "difference_ok b d b' rs"
    by (rule apply_difference_ok[OF reachable_mb_inv[OF assms(1)]])
  with assms(2,3) show ?thesis by (simp add: try_apply_difference_def)
qed

lemma sample_account_pending: "is_getting_diff (load 0 sample_saved) Common"
  by (simp add: sample_saved_def eval_simps)

theorem account_difference_recovers_witness:
  "\<exists>b' rs users chats. try_apply_difference 5 (load 0 sample_saved) (DifferenceTooLong 40) = Some (b', Inr (rs, users, chats)) \<and>
     difference_ok (load 0 sample_saved) (DifferenceTooLong 40) b' rs"
  by (rule account_difference_recovers) (simp_all add: reachable.loaded sample_account_pending)

section \<open>Channel differences\<close>

definition channel_difference_ok ::
    "message_boxes \<Rightarrow> int \<Rightarrow> channel_difference \<Rightarrow> message_boxes \<Rightarrow> (tl_update \<times> update_state) list \<Rightarrow> bool" where
  "channel_difference_ok b c diff b' rs \<longleftrightarrow> pos b' (Channel c) = Some (cd_pts diff) \<and>
     filter (immediate [Channel c]) (map fst rs) =
       sort_key update_sort_key (filter (immediate [Channel c]) (retain_valid_updates (cd_other_updates diff))) @
       map (\<lambda>m. NewChannelMessage m NO_PTS 0) (cd_new_messages diff) \<and>
     (\<not> cd_final diff \<longrightarrow> is_getting_diff b' (Channel c) \<and> last (getting_diff_for b') = Channel c) \<and>
     (cd_final diff \<longrightarrow> is_getting_diff b' (Channel c) \<longrightarrow> (\<exists>p. ChannelTooLong c p \<in> set (cd_other_updates diff))) \<and>
     (\<forall>k. k \<noteq> Channel c \<longrightarrow> advances (pos b k) (delivered k rs) (pos b' k)) \<and>
     (\<forall>k. k \<noteq> Channel c \<longrightarrow> is_getting_diff b k \<longrightarrow>
        is_getting_diff b' k \<and> pos b' k = pos b k \<and> delivered k rs = [])"

text \<open>
  C6: channel recovery. Applying a valid difference for the first ready channel moves its position
  to exactly what the server said and delivers every new message and every valid update of the
  channel in the difference once. A final difference ends the recovery, unless it itself announces
  that the channel lags further; another page keeps it pending and moves it behind all other
  pending boxes. Other boxes only advance contiguously, and not at all while they are pending.
\<close>

theorem channel_difference_recovers:
  assumes "reachable b" and "channel_in_diff b = Some c" and "valid_channel_difference c d"
  shows "\<exists>b' rs diff. adapt_channel_difference d = Some diff \<and>
    try_apply_channel_difference now b d = Some (b', Inr (rs, cd_users diff, cd_chats diff)) \<and>
    channel_difference_ok b c diff b' rs"
proof -
  obtain diff where d: "adapt_channel_difference d = Some diff" using valid_channel_difference_adapts[OF assms(3)] by blast
  have "\<exists>b' rs. apply_channel_difference now b d = Some (b', rs, cd_users diff, cd_chats diff) \<and> channel_difference_ok b c diff b' rs"
    by (rule apply_channel_difference_ok[OF reachable_mb_inv[OF assms(1)] assms(2) d, of now])
      (auto simp: channel_difference_ok_def)
  with d assms(2,3) show ?thesis by (auto simp: try_apply_channel_difference_def)
qed

theorem channel_difference_recovers_witness:
  "\<exists>b' rs diff. adapt_channel_difference (ChannelDifferenceEmpty True 25 None) = Some diff \<and>
    try_apply_channel_difference 5 (load 0 sample_saved) (ChannelDifferenceEmpty True 25 None) =
      Some (b', Inr (rs, cd_users diff, cd_chats diff)) \<and>
    channel_difference_ok (load 0 sample_saved) 7 diff b' rs"
  by (rule channel_difference_recovers) (simp_all add: reachable.loaded sample_channel)

text \<open>
  Bad differences are refused whole. The checked operations fail exactly when no such recovery
  is pending or the difference is invalid (a negative counter, or a dialog that is not the
  channel's), and then leave the state untouched.
\<close>

theorem bad_differences_refused:
  assumes "reachable b"
  shows "(\<exists>b' r. try_apply_difference now b d = Some (b', r) \<and>
      (r = Inl Gap \<longleftrightarrow> \<not> (is_getting_diff b Common \<or> is_getting_diff b Secondary) \<or> \<not> valid_difference d) \<and>
      (r = Inl Gap \<longrightarrow> b' = b)) \<and>
    (\<exists>b' r. try_apply_channel_difference now b cd = Some (b', r) \<and>
      (r = Inl Gap \<longleftrightarrow> (\<forall>c. channel_in_diff b = Some c \<longrightarrow> \<not> valid_channel_difference c cd)) \<and>
      (r = Inl Gap \<longrightarrow> b' = b))"
proof (rule conjI)
  note inv = reachable_mb_inv[OF assms]
  obtain b' r where 1: "try_apply_difference now b d = Some (b', r)" "r = Inl Gap \<Longrightarrow> b' = b"
    using try_apply_difference_inv[OF inv, of now d] by metis
  have "r = Inl Gap \<longleftrightarrow> \<not> (is_getting_diff b Common \<or> is_getting_diff b Secondary) \<or> \<not> valid_difference d"
    using 1(1) by (auto simp: try_apply_difference_def split: if_splits)
  with 1 show "\<exists>b' r. try_apply_difference now b d = Some (b', r) \<and>
      (r = Inl Gap \<longleftrightarrow> \<not> (is_getting_diff b Common \<or> is_getting_diff b Secondary) \<or> \<not> valid_difference d) \<and>
      (r = Inl Gap \<longrightarrow> b' = b)" by blast
  obtain b2 r2 where 2: "try_apply_channel_difference now b cd = Some (b2, r2)" "r2 = Inl Gap \<Longrightarrow> b2 = b"
    using try_apply_channel_difference_inv[OF inv, of now cd] by metis
  have "r2 = Inl Gap \<longleftrightarrow> (\<forall>c. channel_in_diff b = Some c \<longrightarrow> \<not> valid_channel_difference c cd)"
    using 2(1) by (auto simp: try_apply_channel_difference_def split: if_splits option.splits)
  with 2 show "\<exists>b' r. try_apply_channel_difference now b cd = Some (b', r) \<and>
      (r = Inl Gap \<longleftrightarrow> (\<forall>c. channel_in_diff b = Some c \<longrightarrow> \<not> valid_channel_difference c cd)) \<and>
      (r = Inl Gap \<longrightarrow> b' = b)" by blast
qed

theorem bad_differences_refused_witness:
  "try_apply_difference 3 (load 0 sample_saved) (DifferenceTooLong (-4)) = Some (load 0 sample_saved, Inl Gap) \<and>
   try_apply_channel_difference 3 (load 0 sample_saved) (ChannelDifferenceEmpty True (-1) None) = Some (load 0 sample_saved, Inl Gap)"
  using bad_differences_refused[OF reachable.loaded, of 3 0 sample_saved "DifferenceTooLong (-4)" "ChannelDifferenceEmpty True (-1) None"]
  by auto

section \<open>Deferral\<close>

lemma try_end_releases:
  assumes "try_end_get_diff now b (Channel c) = Some b'" "entry b (Channel c) = Some e" "recovery_pending e"
  shows "held_release_ready b'"
  using assms
  by (auto simp: try_end_get_diff_def reset_deadline_def Let_def bind_eq_Some_conv split: if_splits)

text \<open>
  Deferral is bounded. Deferring the first ready channel, whose access hash is unknown, keeps
  its position and schedules a retry no later than the given delay or fifteen minutes, at most
  thirty times; once this grace is spent its position is discarded, the channel is remembered as
  exhausted and the socket updates held for it are released.
\<close>

theorem deferral_bounded:
  assumes "reachable b" and "channel_in_diff b = Some c"
  shows "\<exists>b' e. defer_channel_difference now b d = Some b' \<and> entry b (Channel c) = Some e \<and>
    (if grace_exhausted b c
     then entry b' (Channel c) = None \<and> c \<in> exhausted_channels b' \<and> held_release_ready b'
     else recovery_deferrals e < 30 \<and> next_deadline b' \<le> now + min d NO_UPDATES_TIMEOUT \<and>
       entry b' (Channel c) = Some (e\<lparr>recovery_deferred := True, recovery_deferrals := recovery_deferrals e + 1,
                                     deadline := now + min d NO_UPDATES_TIMEOUT\<rparr>))"
proof -
  note inv = reachable_mb_inv[OF assms(1)]
  obtain e where e: "entry b (Channel c) = Some e" "ready e" by (rule channel_in_diff_ready[OF inv assms(2)])
  show ?thesis
  proof (rule defer_channel_difference_cases[OF inv assms(2), of now d], goal_cases discarded deferred)
    case (discarded b')
    let ?b = "b\<lparr>exhausted_channels := insert c (exhausted_channels b)\<rparr>"
    obtain b1 where b1: "try_end_get_diff now ?b (Channel c) = Some b1" "b' = pop_entry b1 (Channel c)"
      using discarded(1,2) assms(2) by (auto simp: defer_channel_difference_def Let_def bind_eq_Some_conv)
    have "held_release_ready b'"
      using try_end_releases[OF b1(1), of e] e b1(2) by (simp add: ready_def pop_entry_def)
    with discarded e show ?thesis by auto
  next
    case (deferred b' e')
    with e show ?thesis
      by (auto simp: deferred_entry_def grace_exhausted_def MAX_CHANNEL_DEFERRALS_def split: option.splits)
  qed
qed

theorem deferral_bounded_witness:
  "\<exists>b' e. defer_channel_difference 5 (load 0 sample_saved) 1000 = Some b' \<and> entry (load 0 sample_saved) (Channel 7) = Some e \<and>
    (if grace_exhausted (load 0 sample_saved) 7
     then entry b' (Channel 7) = None \<and> 7 \<in> exhausted_channels b' \<and> held_release_ready b'
     else recovery_deferrals e < 30 \<and> next_deadline b' \<le> 5 + min 1000 NO_UPDATES_TIMEOUT \<and>
       entry b' (Channel 7) = Some (e\<lparr>recovery_deferred := True, recovery_deferrals := recovery_deferrals e + 1,
                                     deadline := 5 + min 1000 NO_UPDATES_TIMEOUT\<rparr>))"
  by (rule deferral_bounded[OF reachable.loaded sample_channel])

section \<open>Deadlines\<close>

lemma work_has_request:
  assumes inv: "mb_inv b" and q: "getting_diff_for b \<noteq> []"
  shows "get_difference b \<noteq> None \<or> (\<exists>r. get_channel_difference b = Some (Some r))"
proof (cases "channel_in_diff b")
  case (Some c)
  then show ?thesis using get_channel_difference_total[OF inv] by (auto simp: get_channel_difference_def split: option.splits)
next
  case None
  obtain k where k: "k \<in> set (getting_diff_for b)" using q by (cases "getting_diff_for b") auto
  then obtain e where e: "entry b k = Some e" "ready e" using mb_invD(6)[OF inv] by blast
  have "first_channel q = None \<Longrightarrow> Channel c \<notin> set q" for q c by (induction q rule: first_channel.induct) auto
  with None k have "k = Common \<or> k = Secondary" by (cases k) (auto simp: channel_in_diff_def)
  then have "is_getting_diff b Common \<or> is_getting_diff b Secondary" using e by (auto simp: is_getting_diff_def ready_def)
  moreover have "entry b Common \<noteq> None"
    using \<open>k = Common \<or> k = Secondary\<close> e mb_invD(4)[OF inv] by (auto simp: account_inv_def entry_def)
  ultimately show ?thesis by (auto simp: get_difference_def)
qed

lemma check_deadlines_early:
  assumes "mb_inv b" "now < next_deadline b" "check_deadlines now b = (b', t)"
  shows "b' = b" "getting_diff_for b \<noteq> [] \<Longrightarrow> t \<le> now"
  using assms table_invD(3)[OF mb_invD(1)[OF assms(1)]] by (auto simp: check_deadlines_def Let_def split: if_splits)

lemma waiting_deadline_le:
  assumes "mb_inv b'" "entry b' k = Some e" "\<not> ready e"
    "next_deadline b' = (let ds = waiting_deadlines (entries b') in if ds = [] then nd else Min (set ds))"
  shows "next_deadline b' \<le> effective_deadline e"
proof -
  have "e \<in> set (entries b')" using assms(1,2) find_entry_iff[OF mb_invD(2)[OF assms(1)]] by (auto simp: entry_def)
  then have "effective_deadline e \<in> set (waiting_deadlines (entries b'))"
    using assms(3) by (auto simp: waiting_deadlines_def ready_def)
  then show ?thesis using assms(4) by (auto simp: Let_def intro: Min_le)
qed

lemma check_deadlines_due:
  assumes inv: "mb_inv b" and due: "next_deadline b \<le> now" and c: "check_deadlines now b = (b', t)"
  shows "entries b' = map (checked now) (entries b)"
    and "t = (if ready_diff_count b' \<noteq> 0 then next_deadline b else next_deadline b')"
    and "next_deadline b' = (let ds = waiting_deadlines (entries b') in if ds = [] then next_updates_deadline now else Min (set ds))"
proof -
  obtain b1 t1 where 1: "check_deadlines now b = (b1, t1)" "entries b1 = map (checked now) (entries b)"
    "t1 = (if ready_diff_count b1 \<noteq> 0 then next_deadline b else next_deadline b1)"
    "next_deadline b1 = (let ds = waiting_deadlines (entries b1) in if ds = [] then next_updates_deadline now else Min (set ds))"
    by (rule check_deadlines_expired[OF inv due])
  have eq: "b1 = b'" "t1 = t" using c 1(1) by simp_all
  from 1(2-4)[unfolded eq] show "entries b' = map (checked now) (entries b)"
    "t = (if ready_diff_count b' \<noteq> 0 then next_deadline b else next_deadline b')"
    "next_deadline b' = (let ds = waiting_deadlines (entries b') in if ds = [] then next_updates_deadline now else Min (set ds))" .
qed

lemma expired_queued:
  assumes inv: "mb_inv b" and n: "next_deadline b \<le> now" and c: "check_deadlines now b = (b', t)" and e: "entry b k = Some e"
    and x: "effective_deadline e \<le> now \<and> \<not> recovery_pending e \<or> recovery_deferred e \<and> deadline e \<le> now"
  shows "k \<in> set (getting_diff_for b')"
proof -
  have "entry b' k = Some (checked now e)"
    using find_entry_map(1)[OF mb_invD(2)[OF inv], of "checked now" k] check_deadlines_due(1)[OF inv n c] e by (simp add: entry_def)
  moreover have "ready (checked now e)"
    using x mb_invD(5)[OF inv e] by (auto simp: checked_def ready_def entry_ok_def)
  ultimately show ?thesis using mb_invD(6)[of b' k] check_deadlines_inv[OF inv, of now] c by auto
qed

text \<open>Work that is ready makes a check return an instant that has passed.\<close>

lemma ready_work_wakes:
  assumes inv: "mb_inv b" and c: "check_deadlines now b = (b', t)" and q: "getting_diff_for b' \<noteq> []"
  shows "t \<le> now"
proof (cases "now < next_deadline b")
  case True
  then show ?thesis using check_deadlines_early[OF inv True c] q by simp
next
  case False
  have inv': "mb_inv b'" using check_deadlines_inv[OF inv, of now] c by simp
  then show ?thesis
    using False check_deadlines_due(2)[OF inv _ c] q table_invD(3)[OF mb_invD(1)[OF inv']] by simp
qed

end
