(* ===== verification/Mb_Saved.thy ===== *)
theory Mb_Saved
  imports Mb_Recovery
begin

text \<open>
  The saved state of the message boxes: loading repairs it, keeps the oldest position of every
  channel, and is undone by saving.
\<close>

section \<open>Merging duplicate rows\<close>

text \<open>Of several positions saved for one key the oldest is kept.\<close>

lemma pts_of_key_Cons:
  "pts ` {x \<in> set (y # es). entry_key x = k} =
     (if entry_key y = k then insert (pts y) (pts ` {x \<in> set es. entry_key x = k}) else pts ` {x \<in> set es. entry_key x = k})"
proof -
  have "{x \<in> set (y # es). entry_key x = k} =
      (if entry_key y = k then insert y {x \<in> set es. entry_key x = k} else {x \<in> set es. entry_key x = k})" by auto
  then show ?thesis by simp
qed

lemma dedup_entries_oldest:
  "sorted (map entry_key es) \<Longrightarrow> e \<in> set (dedup_entries es) \<Longrightarrow>
   pts e = Min (pts ` {x \<in> set es. entry_key x = entry_key e})"
proof (induction es rule: dedup_entries.induct)
  case (1 earlier later es)
  show ?case
  proof (cases "entry_key later = entry_key earlier")
    case True
    let ?m = "earlier\<lparr>pts := min (pts earlier) (pts later)\<rparr>"
    have IH: "pts e = Min (pts ` {x \<in> set (?m # es). entry_key x = entry_key e})"
      using "1.IH"(1)[OF True] "1.prems" True by simp
    show ?thesis
    proof (cases "entry_key e = entry_key earlier")
      case k: True
      let ?r = "pts ` {x \<in> set es. entry_key x = entry_key e}"
      have "pts ` {x \<in> set (?m # es). entry_key x = entry_key e} = insert (min (pts earlier) (pts later)) ?r"
        "pts ` {x \<in> set (earlier # later # es). entry_key x = entry_key e} = insert (pts earlier) (insert (pts later) ?r)"
        unfolding pts_of_key_Cons using k True by simp_all
      with IH show ?thesis by (cases "?r = {}") (simp_all add: min.assoc)
    next
      case k: False
      then have "{x \<in> set (?m # es). entry_key x = entry_key e} = {x \<in> set (earlier # later # es). entry_key x = entry_key e}"
        using True by auto
      with IH show ?thesis by simp
    qed
  next
    case False
    have less: "\<forall>k\<in>entry_key ` set (later # es). entry_key earlier < k"
      using False "1.prems"(1) by (auto simp: order.strict_iff_order)
    have s: "sorted (map entry_key (later # es))" using "1.prems" by simp
    show ?thesis
    proof (cases "e = earlier")
      case True
      then have "{x \<in> set (earlier # later # es). entry_key x = entry_key e} = {earlier}" using less by auto
      with True show ?thesis by simp
    next
      case ne: False
      then have e: "e \<in> set (dedup_entries (later # es))" using "1.prems"(2) False by simp
      then have "entry_key e \<in> entry_key ` set (later # es)" using dedup_entries_spec[OF s] by (metis image_eqI)
      then have "{x \<in> set (earlier # later # es). entry_key x = entry_key e} = {x \<in> set (later # es). entry_key x = entry_key e}"
        using less by auto
      with "1.IH"(2)[OF False s e] show ?thesis by simp
    qed
  qed
next
  case "2_2"
  then show ?case by (auto simp: conj_commute cong: conj_cong)
qed simp

section \<open>Entries of a loaded state\<close>

text \<open>The rows of a saved state that become entries of the channel.\<close>

definition saved_positions :: "updates_state \<Rightarrow> int \<Rightarrow> int set" where
  "saved_positions st c =
     chan_pts ` {r \<in> set (us_channels st). chan_id r = c \<and> valid_channel c \<and> NO_PTS < chan_pts r}"

lemma valid_channel_pos: "valid_channel c \<Longrightarrow> 0 < c"
  by (auto simp: valid_channel_def)

lemma repair_channels: "us_channels (repair_state st) =
    filter (\<lambda>c. valid_channel (chan_id c) \<and> NO_PTS \<le> chan_pts c) (us_channels st)"
  by (simp add: repair_state_def Let_def)

lemma load_entries:
  "entries (load now st) = dedup_entries (sort_key entry_key (saved_entries (next_updates_deadline now) (repair_state st)))"
  "date (load now st) = us_date (repair_state st)" "seq (load now st) = us_seq (repair_state st)"
  by (simp_all add: load_def Let_def)

lemma loaded_channel_rows:
  "pts ` {e \<in> set (saved_entries dl (repair_state st)). entry_key e = Channel c} = saved_positions st c"
proof -
  have "{e \<in> set (saved_entries dl (repair_state st)). entry_key e = Channel c} =
      (\<lambda>r. mk_entry (Channel (chan_id r)) (chan_pts r) dl True) `
        {r \<in> set (us_channels st). chan_id r = c \<and> valid_channel c \<and> NO_PTS < chan_pts r}"
    by (auto simp: saved_entries_def repair_channels dest: valid_channel_pos)
  then show ?thesis by (simp add: saved_positions_def image_image)
qed

text \<open>
  A saved channel resumes at its oldest valid position, so that no update between two saved
  positions is skipped; a channel without a valid row has no position after loading.
\<close>

theorem load_keeps_oldest:
  "pos (load now st) (Channel c) =
     (if saved_positions st c = {} then None else Some (Min (saved_positions st c)))"
proof -
  let ?b = "load now st" and ?raw = "saved_entries (next_updates_deadline now) (repair_state st)"
  have sorted: "sorted (map entry_key (sort_key entry_key ?raw))" by simp
  note spec = dedup_entries_spec[OF sorted, folded load_entries(1)]
  have key: "Channel c \<in> entry_key ` set ?raw \<longleftrightarrow> saved_positions st c \<noteq> {}"
    unfolding loaded_channel_rows[of "next_updates_deadline now" st c, symmetric] by (auto simp: image_iff) metis
  show ?thesis
  proof (cases "entry ?b (Channel c)")
    case None
    then have "Channel c \<notin> entry_key ` set (entries ?b)"
      using find_entry_None[of "entries ?b" "Channel c"] spec by (simp add: entry_def)
    with None key spec show ?thesis by (simp add: pos_def)
  next
    case (Some e)
    then have e: "e \<in> set (entries ?b)" "entry_key e = Channel c"
      using find_entry_iff[of "entries ?b" "Channel c" e] spec by (simp_all add: entry_def)
    have "pts e = Min (saved_positions st c)"
      using dedup_entries_oldest[OF sorted e(1)[unfolded load_entries(1)]] e(2)
        loaded_channel_rows[of "next_updates_deadline now" st c] by simp
    moreover have "Channel c \<in> entry_key ` set (entries ?b)" using e by (metis image_eqI)
    then have "Channel c \<in> entry_key ` set ?raw" using spec by simp
    ultimately show ?thesis using Some key by (simp add: pos_def)
  qed
qed

section \<open>Saving and loading\<close>

text \<open>A saved state that needs no repair, as the storages keep it.\<close>

definition normal_saved :: "updates_state \<Rightarrow> bool" where
  "normal_saved st \<longleftrightarrow> 0 \<le> us_date st \<and> 0 \<le> us_seq st \<and> 0 \<le> us_qts st \<and>
     (0 < us_pts st \<or> us_pts st = 0 \<and> us_qts st = 0) \<and>
     sorted_keys chan_id (us_channels st) \<and>
     list_all (\<lambda>c. valid_channel (chan_id c) \<and> 0 < chan_pts c) (us_channels st)"

lemma dedup_distinct: "sorted_keys entry_key es \<Longrightarrow> dedup_entries es = es"
  by (induction es rule: dedup_entries.induct) auto

lemma map_filter_append: "List.map_filter f (xs @ ys) = List.map_filter f xs @ List.map_filter f ys"
  by (simp add: List.map_filter_def)

lemma map_filter_channels:
  "List.map_filter channel_state_of (map (\<lambda>c. mk_entry (Channel (chan_id c)) (chan_pts c) dl True) cs) = cs"
  by (induction cs) (simp_all add: map_filter_simps)

lemma sorted_channel_entries:
  "sorted_keys chan_id cs \<Longrightarrow> sorted_keys entry_key (map (\<lambda>c. mk_entry (Channel (chan_id c)) (chan_pts c) dl True) cs)"
  by (simp add: sorted_wrt_map)

lemma load_normal:
  assumes n: "normal_saved st"
  shows "session_state (load now st) = st"
proof -
  let ?dl = "next_updates_deadline now"
  have "filter (\<lambda>c. valid_channel (chan_id c) \<and> NO_PTS \<le> chan_pts c) (us_channels st) = us_channels st"
    using n by (auto simp: normal_saved_def list_all_iff filter_id_conv)
  then have r: "repair_state st = st" using n by (auto simp: normal_saved_def repair_state_def Let_def list_all_iff filter_id_conv)
  have f: "filter (\<lambda>c. 0 < chan_id c \<and> NO_PTS < chan_pts c) (us_channels st) = us_channels st"
    using n by (auto simp: normal_saved_def list_all_iff filter_id_conv dest: valid_channel_pos)
  let ?chans = "map (\<lambda>c. mk_entry (Channel (chan_id c)) (chan_pts c) ?dl True) (us_channels st)"
  define es where "es = (if 0 < us_pts st then [mk_entry Common (us_pts st) ?dl True] else []) @
    (if 0 < us_qts st then [mk_entry Secondary (us_qts st) ?dl True] else []) @ ?chans"
  have raw: "saved_entries ?dl st = es" by (simp add: saved_entries_def f es_def)
  have ks: "sorted_keys entry_key es"
    using sorted_channel_entries[of "us_channels st" ?dl] n by (auto simp: es_def normal_saved_def sorted_wrt_append)
  then have "sort_key entry_key es = es" by (intro sort_key_id_if_sorted) (rule strict_sorted_imp_sorted)
  then have ent: "entries (load now st) = es" using ks by (simp add: load_entries r raw dedup_distinct)
  have fnd: "entry (load now st) k = Some e \<longleftrightarrow> e \<in> set es \<and> entry_key e = k" for k e
    using find_entry_iff[OF ks] by (simp add: entry_def ent)
  have none: "entry (load now st) k = None \<longleftrightarrow> k \<notin> entry_key ` set es" for k
    using find_entry_None[OF ks] by (simp add: entry_def ent)
  have p: "(case entry (load now st) Common of Some e \<Rightarrow> pts e | None \<Rightarrow> NO_PTS) = us_pts st"
    using n fnd[of Common] none[of Common] by (auto simp: es_def normal_saved_def split: option.splits if_splits)
  have q: "(case entry (load now st) Secondary of Some e \<Rightarrow> pts e | None \<Rightarrow> NO_PTS) = us_qts st"
    using n fnd[of Secondary] none[of Secondary] by (auto simp: es_def normal_saved_def split: option.splits if_splits)
  have "List.map_filter channel_state_of es = us_channels st"
    by (simp add: es_def map_filter_append map_filter_channels map_filter_simps)
  with p q show ?thesis by (simp add: session_state_def ent load_entries(2,3) r)
qed

text \<open>What was loaded is in that form again.\<close>

lemma loaded_positive:
  assumes "e \<in> set (entries (load now st))"
  shows "0 < pts e" "\<And>c. entry_key e = Channel c \<Longrightarrow> valid_channel c"
proof -
  let ?raw = "saved_entries (next_updates_deadline now) (repair_state st)"
  have sorted: "sorted (map entry_key (sort_key entry_key ?raw))" by simp
  have e: "e \<in> set (dedup_entries (sort_key entry_key ?raw))" using assms by (simp add: load_entries)
  let ?same = "{x \<in> set ?raw. entry_key x = entry_key e}"
  have "entry_key e \<in> entry_key ` set ?raw" using dedup_entries_spec[OF sorted] e by (metis image_eqI set_sort)
  then have ne: "?same \<noteq> {}" by auto
  have "pts e = Min (pts ` ?same)" using dedup_entries_oldest[OF sorted e] by simp
  moreover have "Min (pts ` ?same) \<in> pts ` ?same" using ne by (intro Min_in) auto
  ultimately obtain x where x: "x \<in> set ?raw" "entry_key x = entry_key e" "pts e = pts x" by auto
  then show "0 < pts e" by (auto simp: saved_entries_def split: if_splits)
  show "valid_channel c" if "entry_key e = Channel c" for c
    using x(1,2) that by (auto simp: saved_entries_def repair_channels split: if_splits)
qed

lemma channel_rows:
  "r \<in> set (List.map_filter channel_state_of es) \<Longrightarrow> \<exists>e\<in>set es. entry_key e = Channel (chan_id r) \<and> pts e = chan_pts r"
  by (induction es) (auto simp: map_filter_simps split: key.splits)

lemma channel_ids_sorted:
  "sorted_keys entry_key es \<Longrightarrow> sorted_keys chan_id (List.map_filter channel_state_of es)"
proof (induction es)
  case (Cons e es)
  have "entry_key e < Channel (chan_id r)" if "r \<in> set (List.map_filter channel_state_of es)" for r
    using channel_rows[OF that] Cons.prems by auto
  moreover have "channel_state_of e = (case entry_key e of Channel c \<Rightarrow> Some \<lparr>chan_id = c, chan_pts = pts e\<rparr> | _ \<Rightarrow> None)" by simp
  ultimately show ?case using Cons
    by (cases "entry_key e") (auto simp: map_filter_simps simp del: channel_state_of.simps)
qed (simp add: map_filter_simps)

lemma loaded_normal: "normal_saved (session_state (load now st))"
proof -
  let ?b = "load now st"
  note inv = load_inv[of now st]
  have mem: "e \<in> set (entries ?b)" if "entry ?b k = Some e" for k e
    using that find_entry_iff[OF mb_invD(2)[OF inv]] by (simp add: entry_def)
  have chans: "valid_channel (chan_id r) \<and> 0 < chan_pts r" if "r \<in> set (List.map_filter channel_state_of (entries ?b))" for r
    using channel_rows[OF that] loaded_positive by metis
  have rep: "0 \<le> us_date (repair_state st)" "0 \<le> us_seq (repair_state st)" by (auto simp: repair_state_def Let_def)
  have "entry ?b Secondary \<noteq> None \<longrightarrow> entry ?b Common \<noteq> None" using mb_invD(4)[OF inv] by (simp add: account_inv_def entry_def)
  then show ?thesis
    using mem[of Common] mem[of Secondary] loaded_positive(1) channel_ids_sorted[OF mb_invD(2)[OF inv]] chans rep
    by (auto simp: normal_saved_def session_state_def load_entries(2,3) list_all_iff less_imp_le split: option.splits)
qed

text \<open>
  C16: saving undoes loading. A saved state that needs no repair comes back unchanged when it is
  loaded and saved; any saved state, however damaged, is repaired by its first loading and stays
  the same from then on.
\<close>

theorem save_load_roundtrip:
  "(normal_saved st \<longrightarrow> session_state (load now st) = st) \<and>
   session_state (load now' (session_state (load now st))) = session_state (load now st)"
  using load_normal load_normal[OF loaded_normal] by blast

theorem save_load_roundtrip_witness:
  "normal_saved sample_saved \<and> session_state (load 0 sample_saved) = sample_saved"
proof -
  have "normal_saved sample_saved" by (simp add: normal_saved_def sample_saved_def valid_channel_def)
  with save_load_roundtrip[of sample_saved 0 0] show ?thesis by blast
qed

end
