(* ===== verification/Mb_Reorder.thy ===== *)
theory Mb_Reorder
  imports Mb_Saved
begin

text \<open>
  Updates of one message box that arrive out of order: whatever the order, the gap they open
  closes by itself and they are delivered in their own order.
\<close>

section \<open>Contiguous runs of updates\<close>

fun contiguous :: "key \<Rightarrow> int \<Rightarrow> tl_update list \<Rightarrow> int \<Rightarrow> bool" where
  "contiguous k p [] q \<longleftrightarrow> p = q"
| "contiguous k p (u # us) q \<longleftrightarrow> valid_update u \<and> \<not> is_too_long u \<and>
     (case from_update u of
        None \<Rightarrow> False
      | Some info \<Rightarrow> info_key info = k \<and> 0 < info_count info \<and> p + info_count info = info_pts info \<and>
                      info_pts info \<le> i32_max \<and> contiguous k (info_pts info) us q)"

abbreviation info_of :: "tl_update \<Rightarrow> pts_info" where
  "info_of u \<equiv> the (from_update u)"

lemma contiguous_ConsD:
  assumes "contiguous k p (u # us) q"
  shows "from_update u = Some (info_of u)" "valid_update u" "\<not> is_too_long u" "info_key (info_of u) = k" "0 < info_count (info_of u)"
    "p + info_count (info_of u) = info_pts (info_of u)" "contiguous k (info_pts (info_of u)) us q" "update_sort_key u = p"
proof -
  obtain info where i: "from_update u = Some info" "valid_update u" "\<not> is_too_long u" "info_key info = k" "0 < info_count info"
      "p + info_count info = info_pts info" "info_pts info \<le> i32_max" "contiguous k (info_pts info) us q"
    using assms by (auto split: option.splits)
  show "update_sort_key u = p"
    using i(1,5,6,7) valid_update_range[OF i(2,1)] by (simp add: update_sort_key_def)
qed (use assms in \<open>auto split: option.splits\<close>)

lemma contiguous_sorted:
  "contiguous k p us q \<Longrightarrow> sorted_wrt (<) (map update_sort_key us) \<and> (\<forall>u\<in>set us. p \<le> update_sort_key u)"
proof (induction us arbitrary: p)
  case (Cons u us)
  note u = contiguous_ConsD[OF Cons.prems]
  from Cons.IH[OF u(7)] u(5,6,8) show ?case by fastforce
qed simp

lemma contiguous_member:
  "contiguous k p us q \<Longrightarrow> u \<in> set us \<Longrightarrow>
   \<exists>info. from_update u = Some info \<and> valid_update u \<and> \<not> is_too_long u \<and> info_key info = k \<and>
     update_sort_key u + info_count info = info_pts info \<and> 0 < info_count info"
proof (induction us arbitrary: p)
  case (Cons v us)
  from contiguous_ConsD[OF Cons.prems(1)] Cons.IH Cons.prems(2) show ?case by auto
qed simp

lemma contiguous_distinct: "contiguous k p us q \<Longrightarrow> distinct us"
  using contiguous_sorted[of k p us q] by (auto dest: sorted_keys_distinct)

lemma contiguous_append: "contiguous k p (us @ vs) q \<longleftrightarrow> (\<exists>r. contiguous k p us r \<and> contiguous k r vs q)"
  by (induction us arbitrary: p) (auto split: option.splits)

text \<open>Draining a gap that holds part of a run delivers what continues the position and keeps the rest.\<close>

lemma drain_gap_run:
  "contiguous k p ws q \<Longrightarrow>
   \<exists>p'. drain_gap p (filter P ws) = Some (p', map (\<lambda>u. (u, info_of u)) (takeWhile P ws), filter P (dropWhile P ws)) \<and>
     contiguous k p (takeWhile P ws) p' \<and> contiguous k p' (dropWhile P ws) q"
proof (induction ws arbitrary: p)
  case (Cons u ws)
  note i = contiguous_ConsD(1,5,6,7)[OF Cons.prems]
  show ?case
  proof (cases "P u")
    case True
    from Cons.IH[OF i(4)] True i Cons.prems show ?thesis by (auto split: option.splits)
  next
    case False
    have "drain_gap p (filter P ws) = Some (p, [], filter P ws)"
    proof (cases "filter P ws")
      case (Cons v vs)
      then have v: "v \<in> set ws" by (metis filter_is_subset list.set_intros(1) subsetD)
      from contiguous_member[OF i(4) v] contiguous_sorted[OF i(4)] v i(2,3) show ?thesis
        by (fastforce simp: Cons)
    qed simp
    with False Cons.prems show ?thesis by simp
  qed
qed simp

lemma rev_sort_descending:
  fixes f :: "'a \<Rightarrow> int"
  assumes "sorted_wrt (<) (map f ys)" "mset xs = mset ys"
  shows "rev (sort_key (\<lambda>u. - f u) xs) = ys"
proof -
  have "sorted (map (\<lambda>u. - f u) (rev ys))"
    using assms(1) by (auto simp: sorted_wrt_map sorted_wrt_rev intro: sorted_wrt_mono_rel[rotated])
  moreover have "distinct (map f ys)" using assms(1) by (simp add: strict_sorted_iff)
  then have "inj_on f (set ys)" by (simp add: distinct_map)
  then have "inj_on (\<lambda>u. - f u) (set xs)" using mset_eq_setD[OF assms(2)] by (auto simp: inj_on_def)
  ultimately have "sort_key (\<lambda>u. - f u) xs = rev ys" by (intro sort_key_inj_key_eq) (simp_all add: assms(2))
  then show ?thesis by simp
qed

section \<open>One entry\<close>

text \<open>The gap of an entry holds, in reverse, the updates of the run that satisfy the predicate.\<close>

definition gap_is :: "tl_update list \<Rightarrow> live_entry \<Rightarrow> bool" where
  "gap_is us e \<longleftrightarrow> (case possible_gap e of None \<Rightarrow> us = [] | Some g \<Rightarrow> us \<noteq> [] \<and> rev (gap_updates g) = us)"

lemma gap_is_mset:
  assumes "gap_is us e"
  shows "case possible_gap e of None \<Rightarrow> us = [] | Some g \<Rightarrow> mset (gap_updates g) = mset us"
  using assms by (cases "possible_gap e") (auto simp: gap_is_def)

lemma close_gap_run:
  assumes run: "contiguous k (pts e) ws q"
    and gap: "case possible_gap e of None \<Rightarrow> filter P ws = [] | Some g \<Rightarrow> mset (gap_updates g) = mset (filter P ws)"
  obtains e' out gd where "close_gap e = Some (e', out, gd)" "map fst out = takeWhile P ws" "same_recovery e e'"
    "contiguous k (pts e) (takeWhile P ws) (pts e')" "contiguous k (pts e') (dropWhile P ws) q"
    "gap_is (filter P (dropWhile P ws)) e'"
proof (cases "possible_gap e")
  case None
  then have "filter P ws = []" using gap by simp
  then have "takeWhile P ws = []" "dropWhile P ws = ws" by (cases ws; simp split: if_splits)+
  then show thesis using None run \<open>filter P ws = []\<close>
    by (intro that[of e "[]" None]) (simp_all add: close_gap_def same_recovery_def gap_is_def)
next
  case (Some g)
  have "sorted_wrt (<) (map update_sort_key (filter P ws))"
    using contiguous_sorted[OF run] by (simp add: sorted_wrt_map sorted_wrt_filter)
  then have s: "rev (sort_updates_by_key (\<lambda>u. - update_sort_key u) (gap_updates g)) = filter P ws"
    using gap Some by (simp add: sort_updates_by_key_eq rev_sort_descending)
  obtain p' where d: "drain_gap (pts e) (filter P ws) = Some (p', map (\<lambda>u. (u, info_of u)) (takeWhile P ws), filter P (dropWhile P ws))"
      "contiguous k (pts e) (takeWhile P ws) p'" "contiguous k p' (dropWhile P ws) q"
    using drain_gap_run[OF run] by blast
  note c = close_gap_def[of e, unfolded Some option.case Let_def s d(1) prod.case]
  show thesis
  proof (cases "filter P (dropWhile P ws) = []")
    case True
    then show thesis using d
      by (intro that[OF c[unfolded if_P[OF True]]]) (auto simp: same_recovery_def gap_is_def comp_def)
  next
    case False
    then show thesis using d
      by (intro that[OF c[unfolded if_not_P[OF False]]]) (auto simp: same_recovery_def gap_is_def comp_def)
  qed
qed

text \<open>
  The entry after the updates of a run that satisfy \<open>S\<close> arrived: it stands after the longest prefix
  that is complete, and its gap holds the others.
\<close>

definition awaiting :: "key \<Rightarrow> int \<Rightarrow> tl_update list \<Rightarrow> int \<Rightarrow> (tl_update \<Rightarrow> bool) \<Rightarrow> live_entry \<Rightarrow> bool" where
  "awaiting k p ws q S e \<longleftrightarrow> entry_key e = k \<and> contiguous k p (takeWhile S ws) (pts e) \<and>
     contiguous k (pts e) (dropWhile S ws) q \<and> gap_is (filter S (dropWhile S ws)) e"

lemma awaiting_closing:
  assumes run: "contiguous k r (x # ws) q" and e: "pts e = r" "gap_is (filter S ws) e"
  obtains e' out gd where "apply_to_entry now dl x (info_of x) e = Some (e', out, gd)"
    "map fst out = x # takeWhile S ws" "same_recovery e e'" "contiguous k r (x # takeWhile S ws) (pts e')"
    "contiguous k (pts e') (dropWhile S ws) q" "gap_is (filter S (dropWhile S ws)) e'"
proof -
  define i where "i = info_of x"
  note x = contiguous_ConsD[OF run, folded i_def]
  let ?e = "e\<lparr>pts := info_pts i, deadline := dl\<rparr>"
  have r: "receive_update now dl x i e = (?e, [(x, i)])" using x(6) e(1) by (simp add: receive_update_def)
  obtain e' out gd where c: "close_gap ?e = Some (e', out, gd)" "map fst out = takeWhile S ws" "same_recovery ?e e'"
      "contiguous k (info_pts i) (takeWhile S ws) (pts e')" "contiguous k (pts e') (dropWhile S ws) q"
      "gap_is (filter S (dropWhile S ws)) e'"
    by (rule close_gap_run[of k ?e ws q S]) (use x(7) gap_is_mset[OF e(2)] in simp_all)
  show thesis
    by (rule that[of e' "(x, i) # out" gd]) (use c run x in \<open>auto simp: apply_to_entry_def r same_recovery_def i_def[symmetric]\<close>)
qed

lemma awaiting_opening:
  assumes run: "contiguous k r (x # ws) q" and e: "pts e = r" "gap_is (filter S (x # ws)) e"
    and u: "u \<in> set ws" "\<not> S u" and x: "\<not> S x" and len: "length ws < MAX_HELD_UPDATES"
  defines "S' \<equiv> \<lambda>v. v = u \<or> S v"
  obtains e' gd where "apply_to_entry now dl u (info_of u) e = Some (e', [], gd)" "same_recovery e e'" "pts e' = r"
    "gap_is (filter S' (x # ws)) e'"
proof -
  note i = contiguous_ConsD(1,5,6,7)[OF run]
  define j where "j = info_of u"
  have j: "from_update u = Some j" "update_sort_key u + info_count j = info_pts j" "info_pts (info_of x) \<le> update_sort_key u"
    using contiguous_member[OF i(4) u(1)] contiguous_sorted[OF i(4)] u(1) by (auto simp: j_def)
  define g0 where "g0 = (case possible_gap e of Some g \<Rightarrow> g | None \<Rightarrow> \<lparr>gap_deadline = now + POSSIBLE_GAP_TIMEOUT, gap_updates = []\<rparr>)"
  have g0: "rev (gap_updates g0) = filter S ws"
    using e(2) x by (auto simp: gap_is_def g0_def split: option.splits)
  have dist: "distinct (x # ws)" using contiguous_distinct[OF run] .
  have "length (filter S ws) \<le> length ws" by simp
  then have room: "length (gap_updates g0) < MAX_HELD_UPDATES" using g0 len by (metis length_rev le_less_trans)
  let ?e = "e\<lparr>possible_gap := Some (g0\<lparr>gap_updates := gap_updates g0 @ [u]\<rparr>)\<rparr>"
  have r: "receive_update now dl u j e = (?e, [])"
    using e(1) i(2,3) j(2,3) room by (simp add: receive_update_def Let_def flip: g0_def)
  have xu: "x \<noteq> u" using u(1) dist by auto
  have "set (gap_updates g0) = {v \<in> set ws. S v}" "distinct (gap_updates g0)"
    using arg_cong[OF g0, of set] arg_cong[OF g0, of distinct] dist by auto
  then have m: "mset (gap_updates g0 @ [u]) = mset (filter S' (x # ws))"
    using u dist xu x by (intro iffD1[OF set_eq_iff_mset_eq_distinct]) (auto simp: S'_def)
  have tw: "takeWhile S' (x # ws) = []" "dropWhile S' (x # ws) = x # ws" using xu x by (simp_all add: S'_def)
  obtain e' out gd where c: "close_gap ?e = Some (e', out, gd)" "map fst out = takeWhile S' (x # ws)" "same_recovery ?e e'"
      "contiguous k r (takeWhile S' (x # ws)) (pts e')" "gap_is (filter S' (dropWhile S' (x # ws))) e'"
    by (rule close_gap_run[of k ?e "x # ws" q S']) (use run e(1) m in auto)
  show thesis
    by (rule that[of e' gd]) (use c tw j in \<open>auto simp: apply_to_entry_def r same_recovery_def\<close>)
qed

lemma awaiting_step:
  assumes run: "contiguous k p ws q" and len: "length ws \<le> MAX_HELD_UPDATES" and e: "awaiting k p ws q S e"
    and u: "u \<in> set ws" "\<not> S u"
  defines "S' \<equiv> \<lambda>v. v = u \<or> S v"
  obtains e' out gd where "apply_to_entry now dl u (info_of u) e = Some (e', out, gd)" "awaiting k p ws q S' e'"
    "takeWhile S' ws = takeWhile S ws @ map fst out" "same_recovery e e'"
proof -
  define t where "t = takeWhile S ws"
  have t: "\<forall>v\<in>set t. S v" by (auto simp: t_def dest: set_takeWhileD)
  have "dropWhile S ws \<noteq> []" using u by (auto simp: dropWhile_eq_Nil_conv)
  then obtain x ws' where d: "dropWhile S ws = x # ws'" by (cases "dropWhile S ws") auto
  have x: "\<not> S x" using hd_dropWhile[of S ws] d by simp
  have ws: "ws = t @ x # ws'" using takeWhile_dropWhile_id[of S ws] d by (simp add: t_def)
  have dist: "distinct ws" by (rule contiguous_distinct[OF run])
  have a: "contiguous k p t (pts e)" "contiguous k (pts e) (x # ws') q" "gap_is (filter S (x # ws')) e" "entry_key e = k"
    using e by (simp_all add: awaiting_def t_def d)
  have tw: "takeWhile S' ws = t @ takeWhile S' (x # ws')" "dropWhile S' ws = dropWhile S' (x # ws')"
    using t by (auto simp: ws S'_def)
  show thesis
  proof (cases "u = x")
    case True
    have same: "takeWhile S' ws' = takeWhile S ws'" "dropWhile S' ws' = dropWhile S ws'"
        "filter S' (dropWhile S ws') = filter S (dropWhile S ws')"
      using dist by (auto simp: ws S'_def True intro!: takeWhile_cong dropWhile_cong filter_cong dest: set_dropWhileD)
    obtain e' out gd where s: "apply_to_entry now dl x (info_of x) e = Some (e', out, gd)"
        "map fst out = x # takeWhile S ws'" "same_recovery e e'" "contiguous k (pts e) (x # takeWhile S ws') (pts e')"
        "contiguous k (pts e') (dropWhile S ws') q" "gap_is (filter S (dropWhile S ws')) e'"
      by (rule awaiting_closing[OF a(2) refl, of S now dl]) (use a(3) x in simp_all)
    have tw': "takeWhile S' ws = t @ x # takeWhile S ws'" "dropWhile S' ws = dropWhile S ws'"
      using tw True same by (simp_all add: S'_def)
    have "contiguous k p (t @ x # takeWhile S ws') (pts e')" using a(1) s(4) contiguous_append by blast
    then have "awaiting k p ws q S' e'" using s(3,5,6) same a(4) by (simp add: awaiting_def same_recovery_def tw')
    with s that True show thesis by (simp add: tw' flip: t_def)
  next
    case False
    then have u': "u \<in> set ws'" using u t by (auto simp: ws)
    have "length ws' < MAX_HELD_UPDATES" using len by (simp add: ws)
    then obtain e' gd where s: "apply_to_entry now dl u (info_of u) e = Some (e', [], gd)" "same_recovery e e'" "pts e' = pts e"
        "gap_is (filter S' (x # ws')) e'"
      using awaiting_opening[OF a(2) refl a(3) u' u(2) x, of now dl thesis] unfolding S'_def by blast
    have "takeWhile S' ws = t" "dropWhile S' ws = x # ws'" using tw False x by (simp_all add: S'_def)
    with s a have "awaiting k p ws q S' e'" by (simp add: awaiting_def same_recovery_def)
    with s that \<open>takeWhile S' ws = t\<close> show thesis by (simp add: t_def)
  qed
qed

section \<open>The message boxes\<close>

definition short_event :: "int \<Rightarrow> tl_update \<Rightarrow> socket_event" where
  "short_event d u = Received (UpdatesLike (UpdateShort \<lparr>su_update = u, su_date = d\<rparr>))"

lemma short_event_step:
  assumes inv: "mb_inv b" and run: "contiguous k p ws q" and len: "length ws \<le> MAX_HELD_UPDATES"
    and k: "entry b k = Some e" "\<not> recovery_pending e" "k = Secondary \<longrightarrow> entry b Common \<noteq> None"
    and e: "awaiting k p ws q S e" and u: "u \<in> set ws" "\<not> S u" and d: "0 \<le> d"
  obtains b' rs e' where "handle_event now (short_event d u) b = Some (b', rs)" "mb_inv b'"
    "entry b' = (entry b)(k \<mapsto> e')" "\<not> recovery_pending e'" "awaiting k p ws q (\<lambda>v. v = u \<or> S v) e'"
    "takeWhile (\<lambda>v. v = u \<or> S v) ws = takeWhile S ws @ map fst rs"
proof -
  let ?st = "\<lparr>boxes = b, results = [], unresolved = False\<rparr>"
  define i where "i = info_of u"
  have u': "from_update u = Some i" "valid_update u" "\<not> is_too_long u" "info_key i = k"
    using contiguous_member[OF run u(1)] by (auto simp: i_def)
  obtain e' out gd where a: "apply_to_entry now (next_updates_deadline now) u i e = Some (e', out, gd)"
      "awaiting k p ws q (\<lambda>v. v = u \<or> S v) e'"
      "takeWhile (\<lambda>v. v = u \<or> S v) ws = takeWhile S ws @ map fst out" "same_recovery e e'"
    using awaiting_step[OF run len e u, of now "next_updates_deadline now" thesis] unfolding i_def by blast
  have t: "target_entry now b i = e" by (simp add: target_entry_def u' k)
  have np: "\<not> is_getting_diff b k" using k by (simp add: is_getting_diff_def)
  have key: "entry_key e' = k" using a(2) by (simp add: awaiting_def)
  let ?b = "b\<lparr>entries := put_entry (entries b) e',
      next_deadline := min (next_deadline b) (case gd of Some d \<Rightarrow> d | None \<Rightarrow> next_updates_deadline now)\<rparr>"
  have one: "process_one now [] mk u ?st = Some (Inr \<lparr>boxes = ?b,
      results = map (\<lambda>(v, i). (v, mk (Some (message_box_of i)))) out, unresolved = gd \<noteq> None\<rparr>)" for mk
    using process_update_applied[of ?st u i "[]" now e' out gd mk] inv u' np k(3) a(1) t key process_one_other[of u now "[]" mk ?st]
    by (cases u) auto
  define c where "c = ?b"
  define pend where "pend = (is_getting_diff b Common \<or> is_getting_diff b Secondary)"
  define nd where "nd = (if d = NO_DATE \<or> pend then date b else d)"
  define mk where "mk = (\<lambda>mb. \<lparr>state_date = nd, state_seq = seq b, state_box = mb\<rparr>)"
  have "process_updates now b (UpdatesLike (UpdateShort \<lparr>su_update = u, su_date = d\<rparr>)) =
      Some (if out \<noteq> [] \<and> gd = None then c\<lparr>date := nd, seq := seq b\<rparr> else c,
        Inr (map (\<lambda>(v, i). (v, mk (Some (message_box_of i)))) out, [], []))"
    using d u'(2)
    by (auto simp: one[folded c_def] process_updates_def process_updates_inner_def update_short_def sort_updates_by_key_def
        Let_def mk_def nd_def pend_def)
  moreover have "\<exists>dt sq. (if out \<noteq> [] \<and> gd = None then c\<lparr>date := nd, seq := seq b\<rparr> else c) = c\<lparr>date := dt, seq := sq\<rparr>"
    using boxes_same by (cases "out \<noteq> [] \<and> gd = None") auto
  ultimately obtain dt sq where p: "handle_event now (short_event d u) b =
      Some (?b\<lparr>date := dt, seq := sq\<rparr>, map (\<lambda>(v, i). (v, mk (Some (message_box_of i)))) out)"
    by (auto simp: short_event_def c_def)
  have ent: "entry (?b\<lparr>date := dt, seq := sq\<rparr>) = (entry b)(k \<mapsto> e')"
    using entry_put[OF mb_invD(2)[OF inv], of ?b e'] key by simp
  have "event_ok b (map (\<lambda>(v, i). (v, mk (Some (message_box_of i)))) out) (?b\<lparr>date := dt, seq := sq\<rparr>)"
    using handle_event_ok[OF inv, of now "short_event d u"] p by (metis option.inject prod.inject)
  then have "mb_inv (?b\<lparr>date := dt, seq := sq\<rparr>)" by (simp add: event_ok_def)
  then show thesis using p ent a k(2)
    by (intro that[of "?b\<lparr>date := dt, seq := sq\<rparr>" "map (\<lambda>(v, i). (v, mk (Some (message_box_of i)))) out" e'])
      (auto simp: same_recovery_def comp_def case_prod_beta)
qed

text \<open>Every order of the run: what is delivered so far is the complete prefix.\<close>

lemma short_events_run:
  assumes inv: "mb_inv b" and run: "contiguous k p ws q" and len: "length ws \<le> MAX_HELD_UPDATES"
    and k: "entry b k = Some e" "\<not> recovery_pending e" "k = Secondary \<longrightarrow> entry b Common \<noteq> None"
    and e: "awaiting k p ws q S e" and us: "distinct (map snd us)" "set (map snd us) \<subseteq> set ws" "\<forall>u\<in>set (map snd us). \<not> S u" and d: "0 \<le> d"
  shows "\<exists>b' rs e'. run_events b (map (\<lambda>(t, u). (t, short_event d u)) us) = Some (b', rs) \<and>
    entry b' = (entry b)(k \<mapsto> e') \<and> awaiting k p ws q (\<lambda>v. v \<in> set (map snd us) \<or> S v) e' \<and>
    takeWhile (\<lambda>v. v \<in> set (map snd us) \<or> S v) ws = takeWhile S ws @ map fst rs"
  using inv k e us
proof (induction us arbitrary: b e S)
  case Nil
  then show ?case by (auto intro!: exI[of _ e])
next
  case (Cons x us)
  obtain t u where x: "x = (t, u)" by fastforce
  let ?S = "\<lambda>v. v = u \<or> S v"
  obtain b1 r1 e1 where s: "handle_event t (short_event d u) b = Some (b1, r1)" "mb_inv b1"
      "entry b1 = (entry b)(k \<mapsto> e1)" "\<not> recovery_pending e1" "awaiting k p ws q ?S e1"
      "takeWhile ?S ws = takeWhile S ws @ map fst r1"
    by (rule short_event_step[OF Cons.prems(1) run len Cons.prems(2,3,4,5) _ _ d, of u t]) (use Cons.prems x in auto)
  have "\<exists>b' rs e'. run_events b1 (map (\<lambda>(t, u). (t, short_event d u)) us) = Some (b', rs) \<and>
      entry b' = (entry b1)(k \<mapsto> e') \<and> awaiting k p ws q (\<lambda>v. v \<in> set (map snd us) \<or> ?S v) e' \<and>
      takeWhile (\<lambda>v. v \<in> set (map snd us) \<or> ?S v) ws = takeWhile ?S ws @ map fst rs"
    using Cons.prems x s by (intro Cons.IH[of b1 e1 ?S]) auto
  then obtain b' rs e' where n: "run_events b1 (map (\<lambda>(t, u). (t, short_event d u)) us) = Some (b', rs)"
      "entry b' = (entry b1)(k \<mapsto> e')" "awaiting k p ws q (\<lambda>v. v \<in> set (map snd us) \<or> ?S v) e'"
      "takeWhile (\<lambda>v. v \<in> set (map snd us) \<or> ?S v) ws = takeWhile ?S ws @ map fst rs" by blast
  have S: "(\<lambda>v. v \<in> set (map snd us) \<or> ?S v) = (\<lambda>v. v \<in> set (map snd (x # us)) \<or> S v)" by (auto simp: x)
  have "run_events b (map (\<lambda>(t, u). (t, short_event d u)) (x # us)) = Some (b', r1 @ rs)" using n(1) s(1) by (simp add: x)
  moreover have "entry b' = (entry b)(k \<mapsto> e')" using n(2) s(3) by simp
  ultimately show ?case using n(3,4)[unfolded S] s(6) by (metis append.assoc map_append)
qed

text \<open>
  C2: reordering is repaired. Let a contiguous run of at most 512 updates with positive counts
  follow the position of a box that is neither being recovered nor waiting on a gap. In whatever
  order and at whatever times the updates arrive, one by one, all of them are delivered, in the
  order of the run, and the box ends at the end of the run with no gap left.
\<close>

theorem reordered_run_delivered:
  assumes "reachable b" and "entry b k = Some e" and "\<not> recovery_pending e" and "possible_gap e = None"
    and "k = Secondary \<longrightarrow> entry b Common \<noteq> None"
    and "contiguous k (pts e) ws q" and "length ws \<le> 512" and "mset (map snd us) = mset ws" and "0 \<le> d"
  shows "\<exists>b' rs e'. run_events b (map (\<lambda>(t, u). (t, short_event d u)) us) = Some (b', rs) \<and>
    map fst rs = ws \<and> entry b' k = Some e' \<and> pts e' = q \<and> possible_gap e' = None"
proof -
  note inv = reachable_mb_inv[OF assms(1)]
  have tf: "takeWhile (\<lambda>v. False) ws = []" "dropWhile (\<lambda>v. False) ws = ws" by (cases ws; simp)+
  have "awaiting k (pts e) ws q (\<lambda>v. False) e"
    using assms(4,6) mb_invD(5)[OF inv assms(2)] by (simp add: awaiting_def gap_is_def tf)
  moreover have us: "distinct (map snd us)" "set (map snd us) = set ws"
    using contiguous_distinct[OF assms(6)] assms(8) mset_eq_setD[OF assms(8)] mset_eq_imp_distinct_iff[OF assms(8)] by auto
  ultimately obtain b' rs e' where r: "run_events b (map (\<lambda>(t, u). (t, short_event d u)) us) = Some (b', rs)"
      "entry b' = (entry b)(k \<mapsto> e')" "awaiting k (pts e) ws q (\<lambda>v. v \<in> set (map snd us) \<or> False) e'"
      "takeWhile (\<lambda>v. v \<in> set (map snd us) \<or> False) ws = takeWhile (\<lambda>v. False) ws @ map fst rs"
    using short_events_run[OF inv assms(6) _ assms(2,3,5), of "\<lambda>v. False" us d] assms(7,9)
    by (auto simp: MAX_HELD_UPDATES_def)
  have all: "takeWhile (\<lambda>v. v \<in> set (map snd us) \<or> False) ws = ws" "dropWhile (\<lambda>v. v \<in> set (map snd us) \<or> False) ws = []"
    using us(2) by (simp_all add: takeWhile_eq_all_conv dropWhile_eq_Nil_conv)
  have "map fst rs = ws" using r(4) all(1) tf(1) by simp
  moreover have "pts e' = q" "possible_gap e' = None" using r(3)[unfolded awaiting_def all] by (simp_all add: gap_is_def split: option.splits)
  ultimately show ?thesis using r(1,2) by auto
qed

definition sample_boxes :: message_boxes where
  "sample_boxes = set_state 0 (new_boxes 0) \<lparr>as_pts = 4, as_qts = 1, as_date = 50, as_seq = 3\<rparr>"

lemma sample_boxes_entry:
  "reachable sample_boxes" "entry sample_boxes Common = Some (mk_entry Common 4 (next_updates_deadline 0) False)"
proof -
  have "\<not> has_primary_state (new_boxes 0)" by (simp add: has_primary_state_def eval_simps)
  then show "reachable sample_boxes" unfolding sample_boxes_def by (intro reachable.account reachable.created)
  show "entry sample_boxes Common = Some (mk_entry Common 4 (next_updates_deadline 0) False)"
    by (simp add: sample_boxes_def set_state_def set_entry_def put_entry_def eval_simps)
qed

theorem reordered_run_delivered_witness:
  "\<exists>b' rs e'. run_events sample_boxes
      (map (\<lambda>(t, u). (t, short_event 0 u)) [(1, DeleteMessages [3] 8 2), (2, DeleteMessages [9] 6 2)]) = Some (b', rs) \<and>
    map fst rs = [DeleteMessages [9] 6 2, DeleteMessages [3] 8 2] \<and>
    entry b' Common = Some e' \<and> pts e' = 8 \<and> possible_gap e' = None"
  by (rule reordered_run_delivered[OF sample_boxes_entry])
    (simp_all add: from_update_def valid_update_def none_or_def)

end
