(* ===== verification/Mb_Batches.thy ===== *)
theory Mb_Batches
  imports Mb_Reorder
begin

text \<open>
  Whole batches of updates: when one is refused, in which order its updates are looked at, and how
  many postponed updates are kept.
\<close>

section \<open>Refused batches\<close>

text \<open>What \<open>process_updates\<close> answers with \<open>Err(Gap)\<close>.\<close>

definition refused :: "message_boxes \<Rightarrow> updates_like \<Rightarrow> bool" where
  "refused b ul \<longleftrightarrow>
     (case adapt ul of
        Inl _ \<Rightarrow> True
      | Inr uc \<Rightarrow>
          let sequenced = uc_seq_start uc \<noteq> NO_SEQ \<and> \<not> is_getting_diff b Common \<and> \<not> is_getting_diff b Secondary
          in uc_date uc < 0 \<or> uc_seq uc < 0 \<or> uc_seq_start uc < 0 \<or>
             (sequenced \<and> seq b + 1 < uc_seq_start uc) \<or>
             (\<not> (sequenced \<and> uc_seq_start uc \<le> seq b) \<and> (\<exists>u\<in>set (uc_updates uc). \<not> valid_update u)))"

lemma inner_refused:
  assumes inv: "mb_inv b"
  shows "(\<exists>b'. process_updates_inner now [] b ul = Some (b', Inl Gap)) \<longleftrightarrow> refused b ul"
proof (cases "adapt ul")
  case (Inl g)
  then show ?thesis by (cases g) (simp add: process_updates_inner_def refused_def)
next
  case (Inr uc)
  define pend where "pend = (is_getting_diff b Common \<or> is_getting_diff b Secondary)"
  define d where "d = (if uc_date uc = NO_DATE \<or> pend then date b else uc_date uc)"
  define s where "s = (if uc_seq uc = NO_SEQ \<or> pend then seq b else uc_seq uc)"
  define mk where "mk = (\<lambda>mb. \<lparr>state_date = d, state_seq = s, state_box = mb\<rparr>)"
  let ?us = "sort_updates_by_key update_sort_key (uc_updates uc)"
  let ?st = "\<lparr>boxes = b, results = [], unresolved = False\<rparr>"
  have loop: "\<exists>st. process_loop now [] mk ?us ?st = Some (Inr st)" if "\<forall>u\<in>set (uc_updates uc). valid_update u"
  proof -
    have "list_all valid_update ?us" using that by (simp add: sort_updates_by_key_eq list_all_iff)
    from process_loop_ok[OF _ this, of ?st mk now "[]" thesis for thesis] inv show ?thesis
      by (auto simp: mk_def)
  qed
  define neg where "neg = (uc_date uc < 0 \<or> uc_seq uc < 0 \<or> uc_seq_start uc < 0)"
  define old where "old = (uc_seq_start uc \<noteq> NO_SEQ \<and> \<not> pend \<and> seq b + 1 > uc_seq_start uc)"
  define ahead where "ahead = (uc_seq_start uc \<noteq> NO_SEQ \<and> \<not> pend \<and> seq b + 1 < uc_seq_start uc)"
  define bad where "bad = list_ex (\<lambda>u. \<not> valid_update u) (uc_updates uc)"
  have inner: "process_updates_inner now [] b ul =
      (if neg then Some (try_begin_get_diff now b Common, Inl Gap)
       else if old then Some (b, Inr ([], uc_users uc, uc_chats uc))
       else if ahead then Some (try_begin_get_diff now b Common, Inl Gap)
       else if bad then Some (try_begin_get_diff now b Common, Inl Gap)
       else case process_loop now [] mk ?us ?st of
              None \<Rightarrow> None
            | Some (Inl b') \<Rightarrow> Some (b', Inl Gap)
            | Some (Inr st) \<Rightarrow> Some (if results st \<noteq> [] \<and> \<not> unresolved st then (boxes st)\<lparr>date := d, seq := s\<rparr> else boxes st,
                                    Inr (results st, uc_users uc, uc_chats uc)))"
    unfolding process_updates_inner_def Inr sum.case Let_def neg_def old_def ahead_def bad_def mk_def d_def s_def pend_def by simp
  have "refused b ul \<longleftrightarrow> neg \<or> ahead \<or> \<not> old \<and> bad"
    by (auto simp: refused_def Inr Let_def neg_def old_def ahead_def bad_def pend_def list_ex_iff)
  moreover have "\<not> (old \<and> ahead)" by (auto simp: old_def ahead_def)
  moreover have "\<exists>st. process_loop now [] mk ?us ?st = Some (Inr st)" if "\<not> bad"
    using loop that by (auto simp: bad_def list_ex_iff)
  ultimately show ?thesis unfolding inner by (auto split: option.splits sum.splits)
qed

text \<open>
  A batch is refused exactly when it is unusable: it stands for a closed connection or an
  unreadable message, carries a negative date or sequence number, starts beyond the next sequence
  number, or contains an invalid update (unless it is old and skipped whole). A refused batch
  delivers nothing and its only effect is to begin the recovery of the account, if it is known.
\<close>

theorem gap_reported_iff:
  assumes "reachable b"
  shows "if refused b ul
    then process_updates now b ul = Some (try_begin_get_diff now b Common, Inl Gap) \<and>
      (has_primary_state b \<longrightarrow> is_getting_diff (try_begin_get_diff now b Common) Common)
    else \<exists>b' r. process_updates now b ul = Some (b', Inr r)"
proof -
  note inv = reachable_mb_inv[OF assms]
  have p: "has_primary_state b \<longrightarrow> is_getting_diff (try_begin_get_diff now b Common) Common"
    using try_begin_inv(2)[OF inv, of now Common]
    by (auto simp: has_primary_state_def is_getting_diff_def began_def split: option.splits)
  show ?thesis
    by (rule inner_cases[OF inv, of now "[]" ul]) (use p inner_refused[OF inv, of now ul] in \<open>auto simp: process_updates_def\<close>)
qed

theorem gap_reported_iff_witness:
  "refused (load 0 sample_saved) ConnectionClosed \<and>
   process_updates 3 (load 0 sample_saved) ConnectionClosed =
     Some (try_begin_get_diff 3 (load 0 sample_saved) Common, Inl Gap)"
proof -
  have "refused (load 0 sample_saved) ConnectionClosed" by (simp add: refused_def)
  with gap_reported_iff[OF reachable.loaded, of 0 sample_saved ConnectionClosed 3] show ?thesis by simp
qed

section \<open>Order within a batch\<close>

text \<open>
  The hand-written sort that orders a batch and a gap, which returns sorted input untouched,
  inserts into short input in place and leaves long input to the library, computes the stable sort
  by key whatever the keys.
\<close>

theorem insertion_sort_is_stable_sort:
  "sort_updates_by_key f us = sort_key f us"
  by (rule sort_updates_by_key_eq)

section \<open>Postponed updates\<close>

lemma hold_channel_update_last:
  "length held \<le> MAX_HELD_UPDATES \<Longrightarrow>
   fold (\<lambda>u st. hold_channel_update st c u) us (held, ov) =
     (drop (length held + length us - MAX_HELD_UPDATES) (held @ map (Pair c) us),
      ov \<or> MAX_HELD_UPDATES < length held + length us)"
proof (induction us arbitrary: held ov)
  case (Cons u us)
  show ?case
  proof (cases "length held = MAX_HELD_UPDATES")
    case True
    then obtain h hs where h: "held = h # hs" by (cases held) (auto simp: MAX_HELD_UPDATES_def)
    then have "hold_channel_update (held, ov) c u = (hs @ [(c, u)], True)" using True by (simp add: hold_channel_update_def)
    with Cons.IH[of "hs @ [(c, u)]" True] h True show ?thesis by (simp add: MAX_HELD_UPDATES_def)
  next
    case False
    then have "hold_channel_update (held, ov) c u = (held @ [(c, u)], ov)" by (simp add: hold_channel_update_def)
    with Cons.IH[of "held @ [(c, u)]" ov] Cons.prems False show ?thesis by (simp add: MAX_HELD_UPDATES_def)
  qed
qed simp

text \<open>
  Of the updates postponed during recoveries the newest 512 are kept, in the order they came,
  and losing one is noted: holding the updates of a gap of a reachable state gives the last 512 of
  what was held and what the gap has, never more.
\<close>

theorem held_updates_newest:
  assumes "reachable b"
  shows "let b' = hold_gap b (Channel c) (Some g); all = held_updates b @ map (Pair c) (gap_updates g) in
    held_updates b' = drop (length all - 512) all \<and> length (held_updates b') \<le> 512 \<and>
    held_overflowed b' = (held_overflowed b \<or> 512 < length all)"
proof -
  have "length (held_updates b) \<le> MAX_HELD_UPDATES"
    using mb_invD(3)[OF reachable_mb_inv[OF assms]] by (simp add: held_inv_def)
  from hold_channel_update_last[OF this, of c "gap_updates g" "held_overflowed b"] show ?thesis
    by (simp add: hold_gap_def Let_def MAX_HELD_UPDATES_def)
qed

theorem held_updates_newest_witness:
  "let g = \<lparr>gap_deadline = 5, gap_updates = [DeleteChannelMessages 7 [1] 30 1]\<rparr>;
       b' = hold_gap (load 0 sample_saved) (Channel 7) (Some g);
       all = held_updates (load 0 sample_saved) @ map (Pair 7) (gap_updates g) in
    held_updates b' = drop (length all - 512) all \<and> length (held_updates b') \<le> 512 \<and>
    held_overflowed b' = (held_overflowed (load 0 sample_saved) \<or> 512 < length all)"
  unfolding Let_def by (rule held_updates_newest[OF reachable.loaded, unfolded Let_def])

end
