(* ===== verification/Mb_Deadlines.thy ===== *)
theory Mb_Deadlines
  imports Mb_Recovery
begin

text \<open>
  The wake-up time of the message boxes. \<open>MessageBoxes::check_deadlines\<close> looks at the boxes only
  from the cached \<open>next_deadline\<close> on, so a deadline is met only if the cache is never later than it.
  Here is when that is so, which operations keep it so and what a check then guarantees.
\<close>

section \<open>A cache that is early enough\<close>

text \<open>
  When a box that is not queued has to be looked at. A deferred box is looked at by its \<open>deadline\<close>.
\<close>

definition wake_at :: "live_entry \<Rightarrow> instant" where
  "wake_at e = (if recovery_deferred e then max (deadline e) (effective_deadline e) else effective_deadline e)"

text \<open>
  \<open>T\<close> is the time of the last operation. Besides the cached deadline, the gaps matter: they expire
  within the default timeout, and a box of the account has none while it is recovered.
\<close>

definition quiet :: "instant \<Rightarrow> live_entry \<Rightarrow> bool" where
  "quiet T e \<longleftrightarrow> (recovery_pending e \<and> \<not> is_channel (entry_key e) \<longrightarrow> possible_gap e = None) \<and>
     none_or (\<lambda>gap. gap_deadline gap \<le> next_updates_deadline T) (possible_gap e)"

definition awake :: "instant \<Rightarrow> instant \<Rightarrow> live_entry \<Rightarrow> bool" where
  "awake T nd e \<longleftrightarrow> quiet T e \<and> (\<not> ready e \<longrightarrow> nd \<le> max T (wake_at e))"

definition timely :: "instant \<Rightarrow> message_boxes \<Rightarrow> bool" where
  "timely T b \<longleftrightarrow> (\<forall>k e. entry b k = Some e \<longrightarrow> awake T (next_deadline b) e)"

lemmas deadline_simps = awake_def quiet_def wake_at_def effective_deadline_def ready_def none_or_def Let_def

lemma next_updates_deadline_mono: "T \<le> T' \<Longrightarrow> next_updates_deadline T \<le> next_updates_deadline T'"
  by (simp add: next_updates_deadline_def)

lemma awake_mono: "awake T nd e \<Longrightarrow> T \<le> T' \<Longrightarrow> nd' \<le> nd \<Longrightarrow> awake T' nd' e"
  using next_updates_deadline_mono[of T T'] by (auto simp: awake_def quiet_def none_or_def split: option.splits)

lemma timely_mono: "timely T b \<Longrightarrow> T \<le> T' \<Longrightarrow> timely T' b"
  unfolding timely_def by (blast intro: awake_mono)

lemma timely_cong: "entries b' = entries b \<Longrightarrow> next_deadline b' = next_deadline b \<Longrightarrow> timely T b' = timely T b"
  using entry_cong[of b' b] by (simp add: timely_def)

text \<open>An operation on one box: the cache is lowered, or recomputed from all the boxes.\<close>

definition cached :: "message_boxes \<Rightarrow> message_boxes \<Rightarrow> bool" where
  "cached b b' \<longleftrightarrow> next_deadline b' \<le> next_deadline b \<or> (\<forall>e\<in>set (entries b'). next_deadline b' \<le> effective_deadline e)"

lemma entry_in_set: "sorted_keys entry_key (entries b) \<Longrightarrow> entry b k = Some e \<Longrightarrow> e \<in> set (entries b)"
  by (simp add: entry_def find_entry_iff)

lemma awake_effective: "quiet T e \<Longrightarrow> nd \<le> effective_deadline e \<Longrightarrow> awake T nd e"
  by (auto simp: awake_def wake_at_def)

lemma timely_one:
  assumes t: "timely T b" and s: "sorted_keys entry_key (entries b')" and c: "cached b b'"
    and e: "\<And>j. j \<noteq> k \<Longrightarrow> entry b' j = entry b j"
    and own: "\<And>e. entry b' k = Some e \<Longrightarrow> quiet T e"
      "\<And>e. entry b' k = Some e \<Longrightarrow> next_deadline b' \<le> next_deadline b \<Longrightarrow> awake T (next_deadline b') e"
  shows "timely T b'"
  unfolding timely_def
proof (intro allI impI)
  fix j e
  assume j: "entry b' j = Some e"
  have old: "awake T (next_deadline b) e" if "j \<noteq> k" using t e[OF that] j by (simp add: timely_def)
  then have q: "quiet T e" using own(1) j by (cases "j = k") (auto simp: awake_def)
  show "awake T (next_deadline b') e"
  proof (cases "next_deadline b' \<le> next_deadline b")
    case True
    then show ?thesis using own(2) j old awake_mono by (cases "j = k") auto
  next
    case False
    then have "next_deadline b' \<le> effective_deadline e" using c entry_in_set[OF s j] by (auto simp: cached_def)
    then show ?thesis by (rule awake_effective[OF q])
  qed
qed

lemma timelyD: "timely T b \<Longrightarrow> entry b k = Some e \<Longrightarrow> awake T (next_deadline b) e"
  by (simp add: timely_def)

lemma timely_quiet: "timely T b \<Longrightarrow> entry b k = Some e \<Longrightarrow> quiet T e"
  by (auto simp: timely_def awake_def)

lemma quiet_mk [simp]: "quiet T (mk_entry k p dl pend)"
  by (simp add: quiet_def none_or_def)

lemma effective_deadline_mk [simp]: "effective_deadline (mk_entry k p dl pend) = dl"
  by (simp add: effective_deadline_def mk_entry_def)

lemma awake_pts [simp]: "awake T nd (e\<lparr>pts := p\<rparr>) = awake T nd e"
  by (cases "possible_gap e") (auto simp: deadline_simps)

section \<open>The shared steps\<close>

lemma fold_min_le: "fold (\<lambda>e d. min d (f e)) es d \<le> d \<and> (\<forall>e\<in>set es. fold (\<lambda>e d. min d (f e)) es d \<le> f e)"
  for d :: "'a :: linorder"
proof (induction es arbitrary: d)
  case Nil
  then show ?case by simp
next
  case (Cons e es)
  from Cons[of "min d (f e)"] show ?case by auto
qed

lemma reset_deadline_cached:
  "cached b (reset_deadline b k dl)" "next_deadline (reset_deadline b k dl) \<le> dl"
  using fold_min_le[of effective_deadline "entries (fst (update_entry b k (\<lambda>e. e\<lparr>deadline := dl\<rparr>)))" dl]
  by (auto simp: cached_def reset_deadline_def Let_def)

text \<open>A new deadline that the cache does not exceed keeps the box awake.\<close>

lemma awake_deadline:
  assumes "awake T nd e \<or> possible_gap e = None" "quiet T e" "nd' \<le> nd" "nd' \<le> dl"
  shows "awake T nd' (e\<lparr>deadline := dl\<rparr>)"
  using assms
  by (cases "possible_gap e"; cases "retry_not_before e") (auto simp: deadline_simps le_max_iff_disj)

lemma timely_reset:
  assumes inv: "mb_inv b" and t: "timely T b"
  shows "timely T (reset_deadline b k dl)"
proof (rule timely_one[OF t _ reset_deadline_cached(1)])
  note rd = reset_deadline_inv[OF inv, of k dl]
  show "sorted_keys entry_key (entries (reset_deadline b k dl))" by (rule mb_invD(2)[OF rd(1)])
  show "entry (reset_deadline b k dl) j = entry b j" if "j \<noteq> k" for j using that rd(2) by simp
  fix e
  assume e: "entry (reset_deadline b k dl) k = Some e"
  then obtain e0 where e0: "entry b k = Some e0" "e = e0\<lparr>deadline := dl\<rparr>" using rd(2) by auto
  show "quiet T e" using timely_quiet[OF t e0(1)] by (simp add: e0(2) quiet_def)
  show "awake T (next_deadline (reset_deadline b k dl)) e" if "next_deadline (reset_deadline b k dl) \<le> next_deadline b"
    using awake_deadline[OF disjI1[OF timelyD[OF t e0(1)]] timely_quiet[OF t e0(1)] that reset_deadline_cached(2)]
    by (simp add: e0(2))
qed

lemma try_end_cached:
  assumes "try_end_get_diff now b k = Some b'"
  shows "cached b b'" "entry b k = Some e \<Longrightarrow> recovery_pending e \<Longrightarrow> next_deadline b' \<le> next_updates_deadline now"
proof -
  have "cached b b' \<and> ((\<exists>e. entry b k = Some e \<and> recovery_pending e) \<longrightarrow> next_deadline b' \<le> next_updates_deadline now)"
  proof (cases "\<exists>e. entry b k = Some e \<and> recovery_pending e")
    case False
    then have "b' = b" using assms by (auto simp: try_end_get_diff_def split: option.splits if_splits)
    then show ?thesis using False by (auto simp: cached_def)
  next
    case True
    then obtain e where e: "entry b k = Some e" "recovery_pending e" by blast
    let ?f = "\<lambda>e::live_entry. e\<lparr>recovery_pending := False, recovery_deferred := False, recovery_deferrals := 0\<rparr>"
    obtain b1 where b1: "(if recovery_deferred e then Some b else dequeue_ready b k) = Some b1"
      and b': "b' = (let b3 = reset_deadline (fst (update_entry b1 k ?f)) k (next_updates_deadline now)
                     in b3\<lparr>held_release_ready := held_release_ready b3 \<or> is_channel k\<rparr>)"
      using assms e unfolding try_end_get_diff_def by (auto simp: Let_def bind_eq_Some_conv)
    define b2 where "b2 = fst (update_entry b1 k ?f)"
    define b3 where "b3 = reset_deadline b2 k (next_updates_deadline now)"
    have "next_deadline b2 = next_deadline b" using b1 by (auto simp: b2_def dequeue_ready_def split: if_splits)
    moreover have "next_deadline b' = next_deadline b3" "entries b' = entries b3"
      by (simp_all add: b' b3_def b2_def Let_def)
    ultimately show ?thesis
      using reset_deadline_cached[of b2 k "next_updates_deadline now"] by (simp add: cached_def flip: b3_def)
  qed
  then show "cached b b'" "entry b k = Some e \<Longrightarrow> recovery_pending e \<Longrightarrow> next_deadline b' \<le> next_updates_deadline now"
    by blast+
qed

text \<open>Ending the recovery of a box without gap.\<close>

lemma timely_end:
  assumes inv: "table_inv (entries b) (getting_diff_for b) (ready_diff_count b)" and t: "timely now b"
    and e: "try_end_get_diff now b k = Some b'" "\<And>e. entry b k = Some e \<Longrightarrow> recovery_pending e \<Longrightarrow> possible_gap e = None"
  shows "timely now b'"
proof -
  obtain b1 where b1: "try_end_get_diff now b k = Some b1" "table_inv (entries b1) (getting_diff_for b1) (ready_diff_count b1)"
    "entry b1 = (entry b)(k := map_option (ended now) (entry b k))"
    by (rule try_end_inv[OF inv])
  then have eq: "b1 = b'" using e(1) by simp
  have awake: "quiet now x \<and> (next_deadline b' \<le> next_deadline b \<longrightarrow> awake now (next_deadline b') x)"
    if a: "entry b' k = Some x" for x
  proof -
    obtain e where x: "entry b k = Some e" "x = ended now e" using a b1(3) eq by auto
    note q = timely_quiet[OF t x(1)]
    show ?thesis
    proof (cases "recovery_pending e")
      case True
      then have "next_deadline b' \<le> next_updates_deadline now" "possible_gap e = None"
        using try_end_cached(2)[OF e(1) x(1)] e(2)[OF x(1)] by simp_all
      then show ?thesis using True q by (auto simp: x(2) ended_def deadline_simps split: option.splits)
    next
      case False
      then show ?thesis using q awake_mono[OF timelyD[OF t x(1)] order_refl] by (simp add: x(2) ended_def)
    qed
  qed
  show ?thesis
    using b1(2,3) awake unfolding eq
    by (intro timely_one[OF t _ try_end_cached(1)[OF e(1)], of k]) (auto dest: table_invD(1))
qed

lemma timely_begin:
  assumes inv: "mb_inv b" and t: "timely now b"
  shows "timely now (try_begin_get_diff now b k)"
proof -
  let ?b = "try_begin_get_diff now b k"
  note i = try_begin_inv[OF inv, of now k]
  have le: "next_deadline ?b \<le> next_deadline b"
    by (auto simp: try_begin_cases Let_def split: option.splits)
  have "awake now (next_deadline ?b) x" if a: "entry ?b k = Some x" for x
  proof -
    obtain e where x: "entry b k = Some e" "x = began now e" using a i(2) by auto
    show ?thesis
    proof (cases "recovery_pending e")
      case True
      then show ?thesis using awake_mono[OF timelyD[OF t x(1)] order_refl le] by (simp add: x(2) began_def)
    next
      case False
      have "must_wait now e \<Longrightarrow> next_deadline ?b \<le> the (retry_not_before e)"
        using x(1) False by (simp add: try_begin_cases Let_def)
      then show ?thesis using False
        by (auto simp: x(2) began_def begin_entry_def must_wait_def deadline_simps split: option.splits)
    qed
  qed
  then show ?thesis
    using le i by (intro timely_one[OF t mb_invD(2)[OF i(1)], of k]) (auto simp: cached_def awake_def)
qed

text \<open>Taking a position: an existing box keeps its deadline, a new one is due after the default timeout.\<close>

lemma set_pts_next [simp]: "next_deadline (set_pts now b k p) = next_deadline b"
  by (auto simp: set_pts_def set_entry_def update_entry_def split: prod.splits bool.splits)

lemma timely_set_pts:
  assumes inv: "mb_inv b" and t: "timely now b" and k: "k = Secondary \<Longrightarrow> entry b Common \<noteq> None"
    and new: "entry b k \<noteq> None \<or> next_deadline b \<le> next_updates_deadline now"
  shows "timely now (set_pts now b k p)"
proof -
  note sp = set_pts_inv[OF inv, of k now p, OF k]
  have "awake now (next_deadline b) x" if "entry (set_pts now b k p) k = Some x" for x
  proof (cases "entry b k")
    case None
    then show ?thesis using that sp(2) new by (auto simp: awake_def wake_at_def effective_deadline_def mk_entry_def quiet_def none_or_def)
  next
    case (Some e)
    then have "x = e\<lparr>pts := p\<rparr>" using that sp(2) by simp
    then show ?thesis using timelyD[OF t Some] by simp
  qed
  then show ?thesis
    using sp(2) by (intro timely_one[OF t mb_invD(2)[OF sp(1)], of k]) (auto simp: cached_def awake_def)
qed

section \<open>Processing updates\<close>

text \<open>For a box that is neither recovered nor deferred: the cache is not after its deadlines or its retry time.\<close>

definition due_by :: "instant \<Rightarrow> live_entry \<Rightarrow> bool" where
  "due_by nd e \<longleftrightarrow> nd \<le> deadline e \<and> none_or (\<lambda>gap. nd \<le> gap_deadline gap) (possible_gap e)"

lemma awake_waiting:
  assumes "\<not> recovery_pending e" "\<not> recovery_deferred e"
  shows "awake T nd e \<longleftrightarrow> none_or (\<lambda>gap. gap_deadline gap \<le> next_updates_deadline T) (possible_gap e) \<and>
    (nd \<le> T \<or> due_by nd e \<or> (\<exists>r. retry_not_before e = Some r \<and> nd \<le> r))"
  using assms
  by (cases "possible_gap e"; cases "retry_not_before e") (auto simp: deadline_simps due_by_def le_max_iff_disj)

text \<open>
  What an update makes of a box: a box that was awake stays awake under the cache lowered to the
  gap that is left, or to the default timeout when none is.
\<close>

lemma applied_awake:
  assumes a: "apply_to_entry now (next_updates_deadline now) u info e = Some (e', out, gd)"
    and e: "awake now nd e" "\<not> recovery_pending e" "\<not> recovery_deferred e"
  shows "awake now (min nd (case gd of Some d \<Rightarrow> d | None \<Rightarrow> next_updates_deadline now)) e'"
proof -
  let ?dl = "next_updates_deadline now"
  obtain e1 out1 where r: "receive_update now ?dl u info e = (e1, out1)" by fastforce
  obtain out2 where c: "close_gap e1 = Some (e', out2, gd)" using a r by (auto simp: apply_to_entry_def)
  have gap: "now + POSSIBLE_GAP_TIMEOUT \<le> ?dl"
    by (simp add: next_updates_deadline_def POSSIBLE_GAP_TIMEOUT_def NO_UPDATES_TIMEOUT_def)
  have same: "recovery_pending e' = recovery_pending e" "recovery_deferred e' = recovery_deferred e"
    "retry_not_before e' = retry_not_before e" "deadline e' = deadline e1"
    using r c by (auto simp: receive_update_def close_gap_def Let_def split: if_splits option.splits prod.splits)
  have gap_e: "none_or (\<lambda>g. gap_deadline g \<le> ?dl) (possible_gap e)" using e(1) by (simp add: awake_def quiet_def)
  have due: "due_by nd e \<Longrightarrow> due_by nd e1 \<or> deadline e1 = ?dl \<and> possible_gap e1 = possible_gap e \<or>
      (\<exists>g. possible_gap e1 = Some g \<and> nd \<le> deadline e1)"
    and gap_e1: "none_or (\<lambda>g. gap_deadline g \<le> ?dl) (possible_gap e1)"
    using r gap gap_e by (auto simp: receive_update_def due_by_def none_or_def Let_def split: if_splits option.splits)
  consider (closed) "possible_gap e' = None" "gd = None"
    | (left) g g' where "possible_gap e1 = Some g" "possible_gap e' = Some g'" "gap_deadline g' = gap_deadline g"
        "gd = Some (gap_deadline g)"
    using c by (auto simp: close_gap_def Let_def split: if_splits option.splits prod.splits)
  then have "(due_by nd e \<longrightarrow> due_by (min nd (case gd of Some d \<Rightarrow> d | None \<Rightarrow> ?dl)) e') \<and>
    none_or (\<lambda>g. gap_deadline g \<le> ?dl) (possible_gap e')"
  proof cases
    case closed
    then show ?thesis using due by (auto simp: due_by_def none_or_def same)
  next
    case (left g g')
    then have "gap_deadline g \<le> ?dl" using gap_e1 by (simp add: none_or_def)
    with left show ?thesis using due by (auto simp: due_by_def none_or_def same)
  qed
  then show ?thesis using e by (auto simp: awake_waiting same)
qed

text \<open>The box an update is applied to is one of the boxes or a new one, whose first update is delivered.\<close>

lemma target_awake:
  assumes inv: "mb_inv b" and t: "timely now b" and k: "\<not> is_getting_diff b (info_key info)"
    and a: "apply_to_entry now (next_updates_deadline now) u info (target_entry now b info) = Some (e', out, gd)"
  shows "awake now (min (next_deadline b) (case gd of Some d \<Rightarrow> d | None \<Rightarrow> next_updates_deadline now)) e'"
proof (cases "entry b (info_key info)")
  case None
  then have "gd = None" "e' = mk_entry (info_key info) (info_pts info) (next_updates_deadline now) False"
    using a by (auto simp: target_entry_def apply_to_entry_def receive_update_def close_gap_def mk_entry_def)
  then show ?thesis by (auto simp: awake_def wake_at_def effective_deadline_def mk_entry_def quiet_def none_or_def)
next
  case (Some e)
  have "\<not> recovery_pending e" using k Some by (simp add: is_getting_diff_def)
  moreover have "\<not> recovery_deferred e" using mb_invD(5)[OF inv Some] calculation by (simp add: entry_ok_def)
  ultimately show ?thesis using applied_awake[OF _ timelyD[OF t Some]] a Some by (simp add: target_entry_def)
qed

lemma timely_too_long:
  assumes inv: "mb_inv b" and t: "timely now b"
  shows "timely now (process_too_long now c p b)"
proof -
  let ?k = "Channel c"
  show ?thesis
  proof (cases "(\<exists>q. p = Some q \<and> NO_PTS < q) \<and> entry b ?k = None")
    case False
    then have "process_too_long now c p b = (if is_getting_diff b ?k then b else try_begin_get_diff now b ?k)"
      by (auto simp: process_too_long_def Let_def split: option.splits)
    then show ?thesis using t timely_begin[OF inv t] by simp
  next
    case True
    then obtain q where q: "p = Some q" "NO_PTS < q" "entry b ?k = None" by blast
    let ?b1 = "set_entry b (mk_entry ?k q (next_updates_deadline now) False)"
    let ?b = "try_begin_get_diff now ?b1 ?k"
    have eq: "process_too_long now c p b = ?b" using q by (simp add: process_too_long_def is_getting_diff_def Let_def)
    have b1: "mb_inv ?b1" "entry ?b1 = (entry b)(?k \<mapsto> mk_entry ?k q (next_updates_deadline now) False)"
      using set_entry_inv[OF inv, of "mk_entry ?k q (next_updates_deadline now) False"] q(3) by auto
    note i = try_begin_inv[OF b1(1), of now ?k]
    have x: "entry ?b ?k = Some (begin_entry now (mk_entry ?k q (next_updates_deadline now) False))"
      using i(2) b1(2) by (simp add: began_def)
    have le: "next_deadline ?b \<le> next_deadline b"
      by (auto simp: try_begin_cases Let_def set_entry_def split: option.splits)
    have "awake now nd (begin_entry now (mk_entry ?k q (next_updates_deadline now) False))" for nd
      by (simp add: begin_entry_def mk_entry_def awake_def quiet_def none_or_def ready_def)
    then show ?thesis
      unfolding eq using x le i(2) b1(2)
      by (intro timely_one[OF t mb_invD(2)[OF i(1)], of ?k]) (auto simp: cached_def awake_def)
  qed
qed

lemma timely_update:
  assumes inv: "mb_inv (boxes st)" and valid: "valid_update u" and t: "timely now (boxes st)"
    and one: "process_update now force mk_state u st = Some (Inr st')"
  shows "timely now (boxes st')"
proof (rule process_update_cases[OF inv valid, of now force mk_state], goal_cases plain forced postponed applied)
  case plain
  then show ?thesis using one t by auto
next
  case (forced info)
  then show ?thesis using one timely_reset[OF inv t] by auto
next
  case (postponed info)
  have "next_deadline (postpone b k u) = next_deadline b" for b k
    by (auto simp: postpone_def split: key.splits prod.splits)
  then show ?thesis using postponed one t timely_cong[of "postpone (boxes st) (info_key info) u" "boxes st"] by auto
next
  case (applied info e' out gd)
  let ?nd = "min (next_deadline (boxes st)) (case gd of Some d \<Rightarrow> d | None \<Rightarrow> next_updates_deadline now)"
  let ?b = "(boxes st)\<lparr>entries := put_entry (entries (boxes st)) e', next_deadline := ?nd\<rparr>"
  have eq: "boxes st' = ?b" using one applied(6) by auto
  have "tracked (entry_key (target_entry now (boxes st) info)) u"
    using tracked_of[OF valid applied(1)] target_entry_ok(2)[OF inv] by simp
  then obtain e1 out1 gd1 where "apply_to_entry now (next_updates_deadline now) u info (target_entry now (boxes st) info) = Some (e1, out1, gd1)"
    "same_recovery (target_entry now (boxes st) info) e1"
    by (rule apply_to_entry_spec[OF target_entry_ok(1)[OF inv] _ applied(1)])
  then have k: "entry_key e' = info_key info"
    using applied(5) target_entry_ok(2)[OF inv, of now info] by (simp add: same_recovery_def)
  have ent: "entry ?b = (entry (boxes st))(info_key info \<mapsto> e')"
    using entry_put[OF mb_invD(2)[OF inv], of ?b e'] k by simp
  have "sorted_keys entry_key (entries ?b)"
    using put_entry_sound(1)[OF mb_invD(2)[OF inv], of e'] by simp
  then show ?thesis
    unfolding eq using ent target_awake[OF inv t applied(3,5)]
    by (intro timely_one[OF t _ _, of ?b "info_key info"]) (auto simp: cached_def awake_def)
qed

lemma timely_loop:
  assumes "mb_inv (boxes st)" "list_all valid_update us" "timely now (boxes st)"
    and mk: "state_box (mk_state None) = None" "\<And>mb. state_box (mk_state (Some mb)) \<noteq> None"
    and "process_loop now force mk_state us st = Some (Inr st')"
  shows "timely now (boxes st')"
  using assms(1-3,6)
proof (induction us arbitrary: st)
  case Nil
  then show ?case by simp
next
  case (Cons u us)
  have u: "valid_update u" and us: "list_all valid_update us" using Cons.prems(2) by simp_all
  obtain st1 n1 where one: "process_one now force mk_state u st = Some (Inr st1)" "batch_ok force (boxes st) n1 (boxes st1)"
    by (rule process_one_ok[OF Cons.prems(1) u mk])
  have "timely now (boxes st1)"
  proof (cases "\<exists>c p. u = ChannelTooLong c p")
    case True
    then show ?thesis using one(1) timely_too_long[OF Cons.prems(1,3)] by (auto simp: process_one_def)
  next
    case False
    then have "process_one now force mk_state u st = process_update now force mk_state u st"
      by (intro process_one_other) blast
    then show ?thesis using one(1) timely_update[OF Cons.prems(1) u Cons.prems(3)] by simp
  qed
  moreover have "mb_inv (boxes st1)" using one(2) by (simp add: batch_ok_def)
  ultimately show ?case using Cons.IH[of st1] us Cons.prems(4) one(1) by simp
qed

lemma timely_inner:
  assumes inv: "mb_inv b" and t: "timely now b" and p: "process_updates_inner now force b ul = Some (b', r)"
  shows "timely now b'"
proof (cases "adapt ul")
  case (Inl g)
  then show ?thesis using p timely_begin[OF inv t] by (cases g) (auto simp: process_updates_inner_def)
next
  case (Inr uc)
  define pend where "pend = (force = [] \<and> (is_getting_diff b Common \<or> is_getting_diff b Secondary))"
  define d where "d = (if uc_date uc = NO_DATE \<or> pend then date b else uc_date uc)"
  define s where "s = (if uc_seq uc = NO_SEQ \<or> pend then seq b else uc_seq uc)"
  define mk where "mk = (\<lambda>mb. \<lparr>state_date = d, state_seq = s, state_box = mb\<rparr>)"
  note inner = process_updates_inner_def[of now force b ul, unfolded Inr sum.case Let_def,
      folded pend_def, folded d_def s_def, folded mk_def]
  let ?us = "sort_updates_by_key update_sort_key (uc_updates uc)"
  let ?st = "\<lparr>boxes = b, results = [], unresolved = False\<rparr>"
  have val: "list_all valid_update ?us" if "\<not> list_ex (\<lambda>u. \<not> valid_update u) (uc_updates uc)"
    using that by (auto simp: sort_updates_by_key_eq list_all_iff list_ex_iff)
  have "b' = b \<or> b' = try_begin_get_diff now b Common \<or>
    (\<not> list_ex (\<lambda>u. \<not> valid_update u) (uc_updates uc) \<and> (\<exists>st. process_loop now force mk ?us ?st = Some (Inr st) \<and>
       (b' = boxes st \<or> b' = (boxes st)\<lparr>date := d, seq := s\<rparr>)))"
  proof (cases "list_ex (\<lambda>u. \<not> valid_update u) (uc_updates uc)")
    case True
    then show ?thesis using p inner by (auto split: if_splits)
  next
    case False
    obtain st where "process_loop now force mk ?us ?st = Some (Inr st)"
      using process_loop_ok[of ?st ?us mk now force] inv val[OF False] by (auto simp: mk_def)
    with False show ?thesis using p inner by (auto split: if_splits)
  qed
  moreover have "timely now (boxes st)" if "\<not> list_ex (\<lambda>u. \<not> valid_update u) (uc_updates uc)"
    "process_loop now force mk ?us ?st = Some (Inr st)" for st
    using timely_loop[OF _ val[OF that(1)] _ _ _ that(2)] inv t by (simp add: mk_def)
  ultimately show ?thesis
    using t timely_begin[OF inv t] timely_cong[of "(boxes st)\<lparr>date := d, seq := s\<rparr>" "boxes st" now for st] by auto
qed

section \<open>The public operations\<close>

lemma timely_new: "timely now (new_boxes now)"
  by (simp add: timely_def entry_def new_boxes_def find_entry_def binary_search_by_key_def bsearch_loop.simps)

lemma timely_load: "timely now (load now st)"
proof -
  let ?raw = "sort_key entry_key (saved_entries (next_updates_deadline now) (repair_state st))"
  have raw: "ready e \<and> possible_gap e = None" if "e \<in> set ?raw" for e
    using that by (auto simp: saved_entries_def split: if_splits)
  have "\<forall>e\<in>set (dedup_entries ?raw). \<exists>e0\<in>set ?raw. \<exists>p. e = e0\<lparr>pts := p\<rparr>"
    using dedup_entries_spec[of ?raw] by simp
  then have "ready e \<and> possible_gap e = None" if "e \<in> set (entries (load now st))" for e
    using that raw by (fastforce simp: load_def Let_def)
  then show ?thesis
    using entry_in_set[OF mb_invD(2)[OF load_inv]] by (fastforce simp: timely_def awake_def quiet_def none_or_def)
qed

lemma timely_check:
  assumes inv: "mb_inv b" and t: "timely now b"
  shows "timely now (fst (check_deadlines now b))"
proof (cases "now < next_deadline b")
  case True
  then show ?thesis using t by (simp add: check_deadlines_def Let_def)
next
  case False
  obtain b' t' where c: "check_deadlines now b = (b', t')" by fastforce
  have n: "next_deadline b \<le> now" using False by simp
  have inv': "mb_inv b'" using check_deadlines_inv[OF inv, of now] c by simp
  have "awake now (next_deadline b') x" if x: "entry b' k = Some x" for k x
  proof -
    obtain e where e: "entry b k = Some e" "x = checked now e"
      using find_entry_map(1)[OF mb_invD(2)[OF inv], of "checked now" k] check_deadlines_due(1)[OF inv n c] x
      by (auto simp: entry_def)
    have "quiet now x" using timely_quiet[OF t e(1)] by (auto simp: e(2) checked_def quiet_def none_or_def)
    moreover have "\<not> ready x \<Longrightarrow> next_deadline b' \<le> effective_deadline x"
      using waiting_deadline_le[OF inv' x _ check_deadlines_due(3)[OF inv n c]] by simp
    ultimately show ?thesis by (auto simp: awake_def wake_at_def)
  qed
  then show ?thesis by (simp add: c timely_def)
qed

lemma set_state_entry:
  assumes "mb_inv b"
  shows "entry (set_state now b st) = (entry b)(Common \<mapsto> mk_entry Common (as_pts st) (next_updates_deadline now) False,
     Secondary \<mapsto> mk_entry Secondary (as_qts st) (next_updates_deadline now) False)"
proof -
  let ?c = "mk_entry Common (as_pts st) (next_updates_deadline now) False"
  let ?s = "mk_entry Secondary (as_qts st) (next_updates_deadline now) False"
  have sorted: "sorted_keys entry_key (entries (set_entry b ?c))"
    using put_entry_sound(1)[OF mb_invD(2)[OF assms], of ?c] by (simp add: set_entry_def)
  have "entry (set_entry (set_entry b ?c) ?s) = (entry b)(Common \<mapsto> ?c, Secondary \<mapsto> ?s)"
    using entry_put[OF sorted, of "set_entry (set_entry b ?c) ?s" ?s] entry_put[OF mb_invD(2)[OF assms], of "set_entry b ?c" ?c]
    by (simp add: set_entry_def)
  then show ?thesis by (simp add: set_state_def Let_def)
qed

lemma timely_set_state:
  assumes inv: "mb_inv b" and t: "timely now b"
  shows "timely now (set_state now b st)"
proof -
  let ?dl = "next_updates_deadline now"
  have nd: "next_deadline (set_state now b st) = min (next_deadline b) ?dl" by (simp add: set_state_def Let_def set_entry_def)
  have "awake now (min (next_deadline b) ?dl) (mk_entry k p ?dl False)" for k p
    by (rule awake_effective) simp_all
  then show ?thesis
    using t awake_mono[OF timelyD[OF t] order_refl] by (auto simp: timely_def set_state_entry[OF inv] nd)
qed

text \<open>
  A channel registered from outside is due after the default timeout, but \<open>try_set_channel_state\<close>
  leaves the cached deadline alone: it must already be early enough.
\<close>

lemma timely_set_channel:
  assumes inv: "mb_inv b" and t: "timely now b"
    and g: "entry b (Channel c) \<noteq> None \<or> next_deadline b \<le> next_updates_deadline now"
  shows "timely now (try_set_channel_state now b c p)"
proof (cases "entry b (Channel c)")
  case None
  let ?e = "mk_entry (Channel c) p (next_updates_deadline now) False"
  have eq: "try_set_channel_state now b c p = set_entry b ?e" using None by (simp add: try_set_channel_state_def)
  have s: "mb_inv (set_entry b ?e)" "entry (set_entry b ?e) = (entry b)(Channel c \<mapsto> ?e)"
    using set_entry_inv[OF inv, of ?e] None by auto
  have nd: "next_deadline (set_entry b ?e) = next_deadline b" by (simp add: set_entry_def)
  have "awake now (next_deadline b) ?e"
    using g None by (intro awake_effective) auto
  then show ?thesis using t by (auto simp: eq timely_def s(2) nd)
qed (use t in \<open>simp add: try_set_channel_state_def\<close>)

lemma timely_release:
  assumes inv: "mb_inv b" and t: "timely now b" and r: "take_released_updates now b = Some (b', rel)"
  shows "timely now b'"
proof (cases "held_release_ready b")
  case False
  then show ?thesis using r t by (simp add: take_released_updates_def)
next
  case True
  let ?b1 = "b\<lparr>held_release_ready := False, held_overflowed := False, held_updates := filter (still_held b) (held_updates b)\<rparr>"
  have t1: "timely now ?b1" using t timely_cong[of ?b1 b] by simp
  show ?thesis
  proof (rule take_released_updates_cases[OF inv True, of now], goal_cases idle released)
    case idle
    then show ?thesis using r t1 by simp
  next
    case (released rs b'')
    then show ?thesis using r timely_inner[OF released(3) t1 released(7)] by simp
  qed
qed

text \<open>A box of the account has no gap while it is recovered.\<close>

lemma account_gap:
  assumes "table_inv (entries b) q n" "timely T b" "entry b k = Some e" "recovery_pending e" "\<not> is_channel k"
  shows "possible_gap e = None"
  using timely_quiet[OF assms(2,3)] table_invD(4)[OF assms(1)] assms(3-5) by (simp add: quiet_def entry_def)

lemma timely_finish:
  assumes inv: "mb_inv b" and t: "timely now b" and f: "finish_account now b = Some b'"
  shows "timely now b'"
proof -
  obtain b1 where b1: "try_end_get_diff now b Common = Some b1" "try_end_get_diff now b1 Secondary = Some b'"
    using f by (auto simp: finish_account_def bind_eq_Some_conv)
  obtain b2 where "try_end_get_diff now b Common = Some b2" "mb_inv b2" by (rule try_end_mb[OF inv])
  then have inv1: "mb_inv b1" using b1(1) by simp
  note tab = mb_invD(1)[OF inv] and tab1 = mb_invD(1)[OF inv1]
  have t1: "timely now b1" by (rule timely_end[OF tab t b1(1)]) (rule account_gap[OF tab t], assumption+, simp)
  show ?thesis by (rule timely_end[OF tab1 t1 b1(2)]) (rule account_gap[OF tab1 t1], assumption+, simp)
qed

text \<open>
  A difference creates the boxes of the account that are missing; the cached deadline must be
  early enough for them.
\<close>

definition room_for_account :: "instant \<Rightarrow> message_boxes \<Rightarrow> bool" where
  "room_for_account now b \<longleftrightarrow>
     entry b Common \<noteq> None \<and> entry b Secondary \<noteq> None \<or> next_deadline b \<le> next_updates_deadline now"

lemma timely_difference_type:
  assumes inv: "mb_inv b" and t: "timely now b" and g: "room_for_account now b"
    and a: "apply_difference_type now b diff = Some (b', r)"
  shows "timely now b'"
proof -
  let ?st = "ad_state diff"
  define b1 where "b1 = b\<lparr>date := as_date ?st, seq := as_seq ?st\<rparr>"
  define b2 where "b2 = set_pts now b1 Common (as_pts ?st)"
  define b3 where "b3 = set_pts now b2 Secondary (as_qts ?st)"
  have 1: "mb_inv b1" "timely now b1" "entry b1 = entry b" "next_deadline b1 = next_deadline b"
    using inv t timely_cong[of b1 b] by (simp_all add: b1_def)
  have g2: "entry b1 Common \<noteq> None \<or> next_deadline b1 \<le> next_updates_deadline now"
    using g 1(3,4) by (auto simp: room_for_account_def)
  have 2: "mb_inv b2" "timely now b2" unfolding b2_def
    by (rule set_pts_inv(1)[OF 1(1)], simp) (rule timely_set_pts[OF 1(1,2) _ g2], simp)
  have ent: "entry b2 = (entry b)(Common \<mapsto> (case entry b Common of Some e \<Rightarrow> e\<lparr>pts := as_pts ?st\<rparr>
      | None \<Rightarrow> mk_entry Common (as_pts ?st) (next_updates_deadline now) False))"
    using set_pts_inv(2)[OF 1(1), of Common now "as_pts ?st"] 1(3) by (simp add: b2_def)
  then have g3: "entry b2 Secondary \<noteq> None \<or> next_deadline b2 \<le> next_updates_deadline now" and c: "entry b2 Common \<noteq> None"
    using g 1(4) by (auto simp: room_for_account_def b2_def)
  have 3: "mb_inv b3" "timely now b3" unfolding b3_def
    by (rule set_pts_inv(1)[OF 2(1) c]) (rule timely_set_pts[OF 2 c g3])
  let ?us = "filter (\<lambda>u. \<not> planned_channel b3 u) (retain_valid_updates (ad_other_updates diff))"
  obtain r1 where "process_updates_inner now [Common, Secondary] b3 (unsequenced ?us (ad_users diff) (ad_chats diff)) = Some (b', r1)"
    using a by (auto simp: apply_difference_type_def Let_def simp flip: b1_def b2_def b3_def
        split: option.splits prod.splits sum.splits gap.splits)
  then show ?thesis by (rule timely_inner[OF 3])
qed

lemma timely_difference:
  assumes inv: "mb_inv b" and t: "timely now b" and g: "room_for_account now b"
    and a: "apply_difference now b diff = Some (b', r)"
  shows "timely now b'"
proof (cases diff)
  case (DifferenceEmpty d s)
  let ?b = "b\<lparr>date := d, seq := s\<rparr>"
  have "mb_inv ?b" "timely now ?b" using inv t timely_cong[of ?b b] by simp_all
  from timely_finish[OF this] show ?thesis using a DifferenceEmpty by auto
next
  case (Difference ad)
  then obtain b1 r1 where b1: "apply_difference_type now b ad = Some (b1, r1)" "finish_account now b1 = Some b'"
    using a by (auto simp: bind_eq_Some_conv)
  obtain b2 r2 where "apply_difference_type now b ad = Some (b2, r2)" "mb_inv b2"
    by (rule apply_difference_type_ok[OF inv])
  then have "mb_inv b1" using b1(1) by simp
  then show ?thesis using timely_finish[OF _ timely_difference_type[OF inv t g b1(1)] b1(2)] by simp
next
  case (DifferenceSlice ad)
  then show ?thesis using timely_difference_type[OF inv t g] a by simp
next
  case (DifferenceTooLong p)
  have "mb_inv (set_pts now b Common p)" by (rule set_pts_inv(1)[OF inv]) simp
  moreover have "timely now (set_pts now b Common p)"
    using g by (intro timely_set_pts[OF inv t]) (auto simp: room_for_account_def)
  ultimately have "finish_account now (set_pts now b Common p) = Some b' \<Longrightarrow> timely now b'" by (rule timely_finish)
  then show ?thesis using a DifferenceTooLong by auto
qed

section \<open>Channel differences\<close>

lemma channel_retry_delay_le: "now + channel_retry_delay n \<le> next_updates_deadline now"
  by (simp add: channel_retry_delay_def CHANNEL_RETRY_DELAY_LIMIT_def next_updates_deadline_def NO_UPDATES_TIMEOUT_def)

lemma schedule_entry:
  assumes inv: "mb_inv b" and f: "failures \<le> 255"
    and beyond: "list_all (tracked (Channel c)) beyond" "length beyond \<le> MAX_HELD_UPDATES"
  shows "entry (schedule_channel_retry now b (Channel c) failures beyond) = (entry b)(Channel c := map_option (\<lambda>e.
      let e1 = e\<lparr>recovery_failures := failures, retry_not_before := Some (now + channel_retry_delay failures)\<rparr>
      in if beyond \<noteq> [] then e1\<lparr>possible_gap := Some \<lparr>gap_deadline = now + channel_retry_delay failures, gap_updates = beyond\<rparr>\<rparr>
         else e1) (entry b (Channel c)))"
proof -
  let ?k = "Channel c" and ?t = "now + channel_retry_delay failures"
  let ?f = "\<lambda>e::live_entry. let e1 = e\<lparr>recovery_failures := failures, retry_not_before := Some ?t\<rparr>
       in if beyond \<noteq> [] then e1\<lparr>possible_gap := Some \<lparr>gap_deadline = ?t, gap_updates = beyond\<rparr>\<rparr> else e1"
  define b1 where "b1 = (if beyond \<noteq> [] then b\<lparr>next_deadline := min (next_deadline b) ?t\<rparr> else b)"
  have eq: "schedule_channel_retry now b ?k failures beyond = fst (update_entry b1 ?k ?f)"
    by (simp add: schedule_channel_retry_def Let_def b1_def)
  have b1: "mb_inv b1" "entry b1 = entry b" using inv by (simp_all add: b1_def)
  have ok: "entry_ok (?f e) \<and> ready (?f e) = ready e" if "entry b1 ?k = Some e" for e
    using mb_invD(5)[OF b1(1) that] f beyond
    by (auto simp: entry_ok_def none_or_def gap_ok_def ready_def Let_def split: option.splits)
  show ?thesis
    unfolding eq using ok update_entry_inv(2)[OF b1(1), of ?f ?k] b1(2) by (auto simp: Let_def)
qed

lemma timely_schedule:
  assumes inv: "mb_inv b" and t: "timely now b" and f: "failures \<le> 255"
    and beyond: "list_all (tracked (Channel c)) beyond" "length beyond \<le> MAX_HELD_UPDATES"
    and g: "beyond \<noteq> [] \<or> (\<forall>e. entry b (Channel c) = Some e \<longrightarrow> possible_gap e = None \<and> next_deadline b \<le> deadline e)"
  shows "timely now (schedule_channel_retry now b (Channel c) failures beyond)"
proof -
  let ?b = "schedule_channel_retry now b (Channel c) failures beyond" and ?t = "now + channel_retry_delay failures"
  note ent = schedule_entry[OF inv f beyond, of now] and si = schedule_channel_retry_inv[OF inv f beyond, of now]
  have nd: "next_deadline ?b = (if beyond \<noteq> [] then min (next_deadline b) ?t else next_deadline b)"
    by (simp add: schedule_channel_retry_def Let_def)
  have "awake now (next_deadline ?b) x" if a: "entry ?b (Channel c) = Some x" for x
  proof -
    obtain e where e: "entry b (Channel c) = Some e" using a ent by auto
    show ?thesis
    proof (cases "beyond = []")
      case True
      then have "x = e\<lparr>recovery_failures := failures, retry_not_before := Some ?t\<rparr>" using a ent e by (simp add: Let_def)
      then show ?thesis using g True e nd by (auto simp: deadline_simps le_max_iff_disj)
    next
      case False
      then have "x = e\<lparr>recovery_failures := failures, retry_not_before := Some ?t,
          possible_gap := Some \<lparr>gap_deadline = ?t, gap_updates = beyond\<rparr>\<rparr>" using a ent e by (simp add: Let_def)
      then show ?thesis using False nd channel_retry_delay_le[of now failures] mb_invD(5)[OF inv e]
        by (auto simp: deadline_simps le_max_iff_disj)
    qed
  qed
  then show ?thesis
    using ent nd by (intro timely_one[OF t mb_invD(2)[OF si(1)], of "Channel c"]) (auto simp: cached_def awake_def)
qed

lemma retain_next: "retain_contiguous_held_updates b c p = (b', beyond) \<Longrightarrow> next_deadline b' = next_deadline b"
  by (auto simp: retain_contiguous_held_updates_def Let_def split: prod.splits)

lemma timely_conclude:
  assumes inv: "mb_inv b" and t: "timely now b"
  shows "timely now (conclude_channel now b c diff failures)"
proof (cases "cd_final diff")
  case True
  obtain b1 beyond where r: "retain_contiguous_held_updates b c (cd_pts diff) = (b1, beyond)" by fastforce
  note ri = retain_contiguous_inv[OF inv r]
  have t1: "timely now b1" using t timely_cong[OF ri(5) retain_next[OF r]] by simp
  then show ?thesis
    using True timely_schedule[OF ri(1) t1 u8_saturating_succ_le ri(3,4)] by (simp add: conclude_channel_def r Let_def)
next
  case False
  let ?b = "b\<lparr>getting_diff_for := remove1 (Channel c) (getting_diff_for b) @ [Channel c]\<rparr>"
  have "timely now ?b" using t timely_cong[of ?b b] by simp
  then show ?thesis using False t by (simp add: conclude_channel_def Let_def)
qed

lemma timely_channel_difference:
  assumes inv: "mb_inv b" and t: "timely now b" and a: "apply_channel_difference now b difference = Some (b', res)"
  shows "timely now b'"
proof -
  obtain c where c: "channel_in_diff b = Some c"
    using a by (cases "channel_in_diff b") (auto simp: apply_channel_difference_def)
  obtain diff where d: "adapt_channel_difference difference = Some diff"
    using a c by (cases "adapt_channel_difference difference") (auto simp: apply_channel_difference_def Let_def)
  let ?k = "Channel c"
  obtain e where e: "entry b ?k = Some e" "ready e" by (rule channel_in_diff_ready[OF inv c])
  define b1 where "b1 = b\<lparr>exhausted_channels := exhausted_channels b - {c}\<rparr>"
  define b2 where "b2 = fst (update_entry b1 ?k clear_recovery)"
  note p = channel_difference_prepared[OF inv c, folded b1_def, folded b2_def]
  let ?e = "clear_recovery e"
  have e2: "entry b2 ?k = Some ?e" "recovery_pending ?e" using e p(2) by (simp_all add: ready_def)
  have nd2: "next_deadline b2 = next_deadline b" by (simp add: b2_def b1_def)
  have "awake now nd ?e" for nd using clear_recovery_ok[OF e(2)] by (simp add: awake_def quiet_def none_or_def)
  then have t2: "timely now b2" using t e(1) p(2) by (auto simp: timely_def nd2)
  obtain b3 where b3: "(if cd_final diff then try_end_get_diff now b2 ?k else Some b2) = Some b3" "mb_inv b3"
      "mb_inv (set_pts now b3 ?k (cd_pts diff))"
      "entry (set_pts now b3 ?k (cd_pts diff)) = (entry b3)(?k \<mapsto> (if cd_final diff then ended now ?e else ?e)\<lparr>pts := cd_pts diff\<rparr>)"
    by (rule channel_position_taken[OF p(1) e2(1,2), of "cd_final diff" now "cd_pts diff"]) metis
  have t3: "timely now b3"
  proof (cases "cd_final diff")
    case True
    then show ?thesis using b3(1) e2 by (intro timely_end[OF mb_invD(1)[OF p(1)] t2, of ?k]) auto
  qed (use b3(1) t2 in simp)
  define b4 where "b4 = set_pts now b3 ?k (cd_pts diff)"
  have "entry b3 ?k \<noteq> None"
  proof (cases "cd_final diff")
    case True
    then obtain b3' where "try_end_get_diff now b2 ?k = Some b3'" "entry b3' = (entry b2)(?k := map_option (ended now) (entry b2 ?k))"
      using try_end_mb[OF p(1), of now ?k thesis] by blast
    then show ?thesis using True b3(1) e2(1) by simp
  qed (use b3(1) e2(1) in simp)
  then have t4: "timely now b4" unfolding b4_def by (intro timely_set_pts[OF b3(2) t3]) auto
  let ?us = "retain_valid_updates (cd_other_updates diff)"
  obtain b5 r5 where r: "process_updates_inner now [?k] b4 (unsequenced ?us (cd_users diff) (cd_chats diff)) = Some (b5, r5)" "mb_inv b5"
    by (rule inner_inv[OF b3(3)[folded b4_def]])
  have t5: "timely now b5" by (rule timely_inner[OF b3(3)[folded b4_def] t4 r(1)])
  define b6 where "b6 = reset_timeout now b5 ?k (cd_timeout diff)"
  have t6: "timely now b6" and inv6: "mb_inv b6"
    using timely_reset[OF r(2) t5] reset_timeout_inv(1)[OF r(2)] by (simp_all add: b6_def reset_timeout_def)
  define fl where "fl = (case entry b1 ?k of Some e \<Rightarrow> recovery_failures e | None \<Rightarrow> 0)"
  have "b' = conclude_channel now b6 c diff fl"
    using a unfolding apply_channel_difference_def c d bind.bind_lunit Let_def b1_def[symmetric]
    unfolding b2_def[symmetric] b3(1) bind.bind_lunit
    unfolding b4_def[symmetric] r(1) bind.bind_lunit prod.case
    unfolding b6_def[symmetric] fl_def[symmetric] by (auto split: sum.splits gap.splits)
  then show ?thesis using timely_conclude[OF inv6 t6] by simp
qed

section \<open>Leaving a recovery early\<close>

lemma set_remove_entry: "set (fst (remove_entry es k)) \<subseteq> set es"
  by (auto simp: remove_entry_def dest: in_set_takeD in_set_dropD split: sum.splits)

lemma timely_defer:
  assumes inv: "mb_inv b" and t: "timely now b" and d: "defer_channel_difference now b delay = Some b'"
  shows "timely now b'"
proof -
  obtain c where c: "channel_in_diff b = Some c" using d by (cases "channel_in_diff b") (auto simp: defer_channel_difference_def)
  let ?dl = "now + min delay NO_UPDATES_TIMEOUT"
  show ?thesis
  proof (rule defer_channel_difference_cases[OF inv c, of now delay], goal_cases discarded deferred)
    case (discarded b'')
    then have eq: "b'' = b'" using d by simp
    obtain b1 where "try_end_get_diff now (b\<lparr>exhausted_channels := insert c (exhausted_channels b)\<rparr>) (Channel c) = Some b1"
      "b' = pop_entry b1 (Channel c)"
      using d discarded(1) c by (auto simp: defer_channel_difference_def Let_def bind_eq_Some_conv)
    then have "cached b b'"
      using try_end_cached(1) set_remove_entry by (fastforce simp: cached_def pop_entry_def)
    then show ?thesis
      using discarded(3,4) unfolding eq by (intro timely_one[OF t mb_invD(2), of b' "Channel c"]) auto
  next
    case (deferred b'' e)
    then have eq: "b'' = b'" using d by simp
    have nd: "next_deadline b' = min (next_deadline b) ?dl"
      using d deferred(1) c by (auto simp: defer_channel_difference_def dequeue_ready_def Let_def bind_eq_Some_conv split: if_splits)
    have "awake now (min (next_deadline b) ?dl) (deferred_entry ?dl e)"
      using timely_quiet[OF t deferred(4)] by (auto simp: deferred_entry_def awake_def quiet_def wake_at_def)
    then show ?thesis
      using deferred(3,5) nd unfolding eq
      by (intro timely_one[OF t mb_invD(2), of b' "Channel c"]) (auto simp: cached_def awake_def)
  qed
qed

lemma timely_end_channel:
  assumes inv: "mb_inv b" and t: "timely now b" and d: "end_channel_difference now b reason = Some b'"
  shows "timely now b'"
proof -
  obtain c where c: "channel_in_diff b = Some c" using d by (cases "channel_in_diff b") (auto simp: end_channel_difference_def)
  let ?k = "Channel c"
  obtain e where e: "entry b ?k = Some e" "ready e" by (rule channel_in_diff_ready[OF inv c])
  let ?f = "\<lambda>e::live_entry. e\<lparr>possible_gap := None\<rparr>"
  define b1 where "b1 = fst (update_entry b ?k ?f)"
  have "entry_ok (?f e) \<and> ready (?f e) = ready e" if "entry_ok e" for e
    using that by (simp add: entry_ok_def ready_def none_or_def)
  then have b1: "mb_inv b1" "entry b1 = (entry b)(?k := map_option ?f (entry b ?k))"
    using mb_invD(5)[OF inv] by (auto simp: b1_def intro!: update_entry_inv[OF inv])
  have "awake now nd (?f e)" for nd using e(2) by (simp add: awake_def quiet_def none_or_def ready_def)
  then have t1: "timely now b1" using t e(1) b1(2) by (auto simp: timely_def b1_def)
  obtain b2 where b2: "try_end_get_diff now b1 ?k = Some b2" "mb_inv b2"
      "entry b2 = (entry b1)(?k := map_option (ended now) (entry b1 ?k))" "?k \<notin> set (getting_diff_for b2)"
    by (rule try_end_mb[OF b1(1)])
  have t2: "timely now b2" using b1(2) e(1) by (intro timely_end[OF mb_invD(1)[OF b1(1)] t1 b2(1)]) auto
  have pend: "entry b1 ?k = Some (?f e)" "recovery_pending (?f e)" using b1(2) e by (simp_all add: ready_def)
  have e2: "entry b2 ?k = Some (ended now (?f e))" using b2(3) pend(1) by simp
  define fl where "fl = (case entry b ?k of Some e \<Rightarrow> u8_saturating_succ (recovery_failures e) | None \<Rightarrow> 0)"
  show ?thesis
  proof (cases reason)
    case TemporaryServerIssues
    obtain b3 beyond where r: "retain_contiguous_held_updates b2 c (pts (ended now (?f e))) = (b3, beyond)" by fastforce
    note ri = retain_contiguous_inv[OF b2(2) r]
    have b': "b' = schedule_channel_retry now b3 ?k fl beyond"
      using d unfolding end_channel_difference_def c bind.bind_lunit Let_def b1_def[symmetric] b2(1) fl_def[symmetric]
      using TemporaryServerIssues e2 r by simp
    have nd: "next_deadline b3 = next_deadline b2" by (rule retain_next[OF r])
    have t3: "timely now b3" using t2 timely_cong[OF ri(5) nd] by simp
    have "next_deadline b3 \<le> deadline (ended now (?f e))"
      using try_end_cached(2)[OF b2(1) pend] pend(2) nd by (simp add: ended_def)
    moreover have "possible_gap (ended now (?f e)) = None" by (simp add: ended_def)
    moreover have "fl \<le> 255" by (simp add: fl_def e(1) u8_saturating_succ_le)
    ultimately show ?thesis
      unfolding b' using e2 ri(2) by (intro timely_schedule[OF ri(1) t3 _ ri(3,4)]) auto
  next
    case Banned
    have b': "b' = pop_entry b2 ?k"
      using d unfolding end_channel_difference_def c bind.bind_lunit Let_def b1_def[symmetric] b2(1) using Banned by simp
    then show ?thesis using t2 pop_channel_inv(2)[OF b2(2,4)] by (auto simp: timely_def pop_entry_def)
  qed
qed

lemma timely_pop:
  "sorted_keys entry_key (entries b) \<Longrightarrow> timely T b \<Longrightarrow> timely T (pop_entry b k)"
  by (auto simp: timely_def pop_entry_def entry_def find_remove_entry split: if_splits)

lemma timely_discard:
  assumes inv: "mb_inv b" and t: "timely now b" and d: "discard_account_state now b = Some b'"
  shows "timely now b'"
proof -
  obtain b1 b2 where b: "try_end_get_diff now b Common = Some b1" "try_end_get_diff now (pop_entry b1 Common) Secondary = Some b2"
    "b' = pop_entry b2 Secondary"
    using d by (auto simp: discard_account_state_def bind_eq_Some_conv)
  note tab = mb_invD(1)[OF inv]
  obtain a1 where a1: "try_end_get_diff now b Common = Some a1"
    "table_inv (entries a1) (getting_diff_for a1) (ready_diff_count a1)" "Common \<notin> set (getting_diff_for a1)"
    by (rule try_end_inv[OF tab])
  have tab1: "table_inv (entries b1) (getting_diff_for b1) (ready_diff_count b1)" "Common \<notin> set (getting_diff_for b1)"
    using a1 b(1) by simp_all
  have t1: "timely now b1" by (rule timely_end[OF tab t b(1)]) (rule account_gap[OF tab t], assumption+, simp)
  let ?p = "pop_entry b1 Common"
  have tabp: "table_inv (entries ?p) (getting_diff_for ?p) (ready_diff_count ?p)"
    using table_inv_remove[OF tab1] by (simp add: pop_entry_def)
  have tp: "timely now ?p" by (rule timely_pop[OF table_invD(1)[OF tab1(1)] t1])
  obtain a2 where "try_end_get_diff now ?p Secondary = Some a2"
    "table_inv (entries a2) (getting_diff_for a2) (ready_diff_count a2)"
    by (rule try_end_inv[OF tabp])
  then have "sorted_keys entry_key (entries b2)" using b(2) table_invD(1) by simp
  moreover have "timely now b2" by (rule timely_end[OF tabp tp b(2)]) (rule account_gap[OF tabp tp], assumption+, simp)
  ultimately show ?thesis unfolding b(3) by (rule timely_pop)
qed

lemma timely_exhaust: "timely now b \<Longrightarrow> try_exhaust_channel_grace b = Some (b', x) \<Longrightarrow> timely now b'"
  using timely_cong[of b' b]
  by (auto simp: try_exhaust_channel_grace_def split: option.splits if_splits)

lemma timely_accessible:
  assumes inv: "mb_inv b" and t: "timely now b" and a: "channel_difference_accessible b = Some b'"
  shows "timely now b'"
proof -
  obtain c where c: "channel_in_diff b = Some c" using a by (auto simp: channel_difference_accessible_def split: option.splits)
  let ?b1 = "b\<lparr>exhausted_channels := exhausted_channels b - {c}\<rparr>" and ?f = "\<lambda>e::live_entry. e\<lparr>recovery_deferrals := 0\<rparr>"
  have b': "b' = fst (update_entry ?b1 (Channel c) ?f)" using a c by (simp add: channel_difference_accessible_def)
  have inv1: "mb_inv ?b1" using inv by simp
  have ok: "entry_ok (?f e) \<and> ready (?f e) = ready e" if "entry ?b1 (Channel c) = Some e" for e
    using mb_invD(5)[OF inv1 that] by (auto simp: entry_ok_def ready_def)
  have "entry b' = (entry b)(Channel c := map_option ?f (entry b (Channel c)))"
    unfolding b' using update_entry_inv(2)[OF inv1, of ?f "Channel c"] ok by simp
  moreover have "awake now nd (?f e) = awake now nd e" for nd e
    by (cases "possible_gap e") (auto simp: deadline_simps)
  ultimately show ?thesis using t by (auto simp: timely_def b')
qed

text \<open>
  Retrying a channel at once drops its retry time, and the cached deadline becomes \<open>now\<close> only if
  the channel has a gap; without one the cached deadline must not be after the channel's own.
\<close>

definition room_for_retry :: "message_boxes \<Rightarrow> int \<Rightarrow> bool" where
  "room_for_retry b c \<longleftrightarrow>
     none_or (\<lambda>e. possible_gap e = None \<longrightarrow> next_deadline b \<le> deadline e) (entry b (Channel c))"

lemma timely_retry:
  assumes inv: "mb_inv b" and t: "timely now b" and g: "room_for_retry b c"
  shows "timely now (retry_channel_without_delay now b c)"
proof -
  let ?b = "retry_channel_without_delay now b c"
  let ?f = "\<lambda>e::live_entry. e\<lparr>recovery_failures := recovery_failures e - 1, retry_not_before := None,
                   possible_gap := map_option (\<lambda>gap. gap\<lparr>gap_deadline := now\<rparr>) (possible_gap e)\<rparr>"
  have ok: "entry_ok (?f e) \<and> ready (?f e) = ready e" if "entry_ok e" for e
    using that by (auto simp: entry_ok_def ready_def none_or_def gap_ok_def split: option.splits)
  have "entry ?b = entry (fst (update_entry b (Channel c) ?f))"
    by (simp add: retry_channel_without_delay_def Let_def)
  also have "\<dots> = (entry b)(Channel c := map_option ?f (entry b (Channel c)))"
    using ok mb_invD(5)[OF inv] by (intro update_entry_inv(2)[OF inv]) auto
  finally have ent: "entry ?b = (entry b)(Channel c := map_option ?f (entry b (Channel c)))" .
  show ?thesis
  proof (cases "\<exists>e g. entry b (Channel c) = Some e \<and> possible_gap e = Some g")
    case True
    then have nd: "next_deadline ?b = now" by (auto simp: retry_channel_without_delay_def Let_def)
    have "quiet now e" if q: "entry ?b k = Some e" for k e
    proof (cases "k = Channel c")
      case True
      then obtain e0 where "entry b (Channel c) = Some e0" "e = ?f e0" using ent q by auto
      then show ?thesis using mb_invD(5)[OF inv, of "Channel c" e0]
        by (auto simp: quiet_def none_or_def next_updates_deadline_def split: option.splits)
    next
      case False
      then show ?thesis using timely_quiet[OF t] ent q by simp
    qed
    then show ?thesis by (simp add: timely_def awake_def nd)
  next
    case False
    then have nd: "next_deadline ?b = next_deadline b"
      by (auto simp: retry_channel_without_delay_def Let_def split: option.splits)
    have "awake now (next_deadline b) (?f e)" if "entry b (Channel c) = Some e" for e
      using False that g by (auto simp: room_for_retry_def deadline_simps)
    then show ?thesis using t by (auto simp: timely_def ent nd)
  qed
qed

section \<open>States whose deadlines are met\<close>

text \<open>
  The states of \<open>reachable\<close> under a clock that does not go back, where three operations are made
  only when the cached deadline is early enough for what they add: registering a channel, creating
  the boxes of the account from a difference, and retrying a channel that has no gap.
\<close>

inductive attended :: "instant \<Rightarrow> message_boxes \<Rightarrow> bool" where
  at_creation: "attended now (new_boxes now)"
| at_load: "attended now (load now st)"
| at_later: "attended T b \<Longrightarrow> T \<le> now \<Longrightarrow> attended now b"
| at_check: "attended now b \<Longrightarrow> attended now (fst (check_deadlines now b))"
| at_account: "attended now b \<Longrightarrow> \<not> has_primary_state b \<Longrightarrow> attended now (set_state now b ast)"
| at_channel: "attended now b \<Longrightarrow> entry b (Channel c) \<noteq> None \<or> next_deadline b \<le> next_updates_deadline now \<Longrightarrow>
    attended now (try_set_channel_state now b c p)"
| at_updates: "attended now b \<Longrightarrow> process_updates now b ul = Some (b', r) \<Longrightarrow> attended now b'"
| at_release: "attended now b \<Longrightarrow> take_released_updates now b = Some (b', rel) \<Longrightarrow> attended now b'"
| at_difference: "attended now b \<Longrightarrow> room_for_account now b \<Longrightarrow> apply_difference now b d = Some (b', res) \<Longrightarrow> attended now b'"
| at_channel_difference: "attended now b \<Longrightarrow> apply_channel_difference now b cd = Some (b', res) \<Longrightarrow> attended now b'"
| at_deferral: "attended now b \<Longrightarrow> defer_channel_difference now b delay = Some b' \<Longrightarrow> attended now b'"
| at_exhaustion: "attended now b \<Longrightarrow> try_exhaust_channel_grace b = Some (b', x) \<Longrightarrow> attended now b'"
| at_access: "attended now b \<Longrightarrow> channel_difference_accessible b = Some b' \<Longrightarrow> attended now b'"
| at_retry: "attended now b \<Longrightarrow> room_for_retry b c \<Longrightarrow> attended now (retry_channel_without_delay now b c)"
| at_early_end: "attended now b \<Longrightarrow> end_channel_difference now b reason = Some b' \<Longrightarrow> attended now b'"
| at_discard: "attended now b \<Longrightarrow> discard_account_state now b = Some b' \<Longrightarrow> attended now b'"

lemma attended_reachable: "attended now b \<Longrightarrow> reachable b"
  by (induction rule: attended.induct) (blast intro: reachable.intros)+

lemma attended_timely: "attended now b \<Longrightarrow> timely now b"
proof (induction rule: attended.induct)
  case (at_later T b now)
  then show ?case by (blast intro: timely_mono)
next
  case (at_updates now b ul b' r)
  then show ?case using timely_inner[OF reachable_mb_inv[OF attended_reachable]] by (simp add: process_updates_def)
qed (blast intro: timely_new timely_load timely_check timely_set_state timely_set_channel timely_release timely_difference
    timely_channel_difference timely_defer timely_exhaust timely_accessible timely_retry timely_end_channel timely_discard
    reachable_mb_inv attended_reachable)+

text \<open>What a check does in such a state.\<close>

lemma check_meets_deadlines:
  assumes inv: "mb_inv b" and t: "timely now b" and c: "check_deadlines now b = (b', u)"
  shows "entry b k = Some e \<Longrightarrow> \<not> ready e \<Longrightarrow> wake_at e \<le> now \<Longrightarrow> k \<in> set (getting_diff_for b')"
    and "getting_diff_for b' = [] \<Longrightarrow> entry b' k = Some e \<Longrightarrow> u \<le> max now (wake_at e)"
proof -
  assume e: "entry b k = Some e" "\<not> ready e" "wake_at e \<le> now"
  have n: "next_deadline b \<le> now" using timelyD[OF t e(1)] e(2,3) by (auto simp: awake_def)
  have "effective_deadline e \<le> now \<and> \<not> recovery_pending e \<or> recovery_deferred e \<and> deadline e \<le> now"
    using e(2,3) by (auto simp: wake_at_def ready_def split: if_splits)
  then show "k \<in> set (getting_diff_for b')" by (rule expired_queued[OF inv n c e(1)])
next
  assume q: "getting_diff_for b' = []" and e: "entry b' k = Some e"
  have inv': "mb_inv b'" using check_deadlines_inv[OF inv, of now] c by simp
  have "timely now b'" using timely_check[OF inv t] c by simp
  moreover have "\<not> ready e" using mb_invD(6)[OF inv', of k] q e by simp
  ultimately have "next_deadline b' \<le> max now (wake_at e)" using timelyD[of now b' k e] e by (simp add: awake_def)
  moreover have "u = next_deadline b'"
    using c q table_invD(3)[OF mb_invD(1)[OF inv']] by (auto simp: check_deadlines_def Let_def split: if_splits prod.splits)
  ultimately show "u \<le> max now (wake_at e)" by simp
qed

section \<open>Properties\<close>

text \<open>
  C7: deadlines start recovery and none is overslept, in every state reached with a clock that
  does not go back by operations that found the cached deadline early enough for what they
  added (\<open>attended\<close>; registering a channel, a difference that creates a box of the account and a
  retry without gap are the three that do not lower it). A check queues every box that is not
  queued yet and whose deadline, gap or retry time has passed; if any work is ready, it returns an
  instant that has passed and there is a request to make; otherwise it returns an instant no
  later than the time at which any box has to be looked at next.
\<close>

theorem deadlines_start_recovery:
  assumes "attended now b" and "check_deadlines now b = (b', t)"
  shows "(\<forall>k e. entry b k = Some e \<and> \<not> ready e \<and> wake_at e \<le> now \<longrightarrow> k \<in> set (getting_diff_for b')) \<and>
    (getting_diff_for b' \<noteq> [] \<longrightarrow>
      t \<le> now \<and> (get_difference b' \<noteq> None \<or> (\<exists>r. get_channel_difference b' = Some (Some r)))) \<and>
    (getting_diff_for b' = [] \<longrightarrow> (\<forall>k e. entry b' k = Some e \<longrightarrow> t \<le> max now (wake_at e)))"
proof -
  note inv = reachable_mb_inv[OF attended_reachable[OF assms(1)]]
  note meets = check_meets_deadlines[OF inv attended_timely[OF assms(1)] assms(2)]
  have "mb_inv b'" using check_deadlines_inv[OF inv, of now] assms(2) by simp
  then show ?thesis using meets ready_work_wakes[OF inv assms(2)] work_has_request by blast
qed

theorem deadlines_start_recovery_witness:
  "\<exists>b' t. check_deadlines 900000 (set_state 0 (new_boxes 0) \<lparr>as_pts = 5, as_qts = 1, as_date = 1, as_seq = 1\<rparr>) = (b', t) \<and>
     Common \<in> set (getting_diff_for b') \<and> t \<le> 900000 \<and>
     (get_difference b' \<noteq> None \<or> (\<exists>r. get_channel_difference b' = Some (Some r)))"
proof -
  let ?b = "set_state 0 (new_boxes 0) \<lparr>as_pts = 5, as_qts = 1, as_date = 1, as_seq = 1\<rparr>"
  obtain b' t where c: "check_deadlines 900000 ?b = (b', t)" by fastforce
  have "\<not> has_primary_state (new_boxes 0)"
    by (simp add: has_primary_state_def new_boxes_def entry_def find_entry_def binary_search_by_key_def bsearch_loop.simps)
  then have "attended 0 ?b" by (rule attended.at_account[OF attended.at_creation])
  then have "attended 900000 ?b" by (rule attended.at_later) simp
  note all = deadlines_start_recovery[OF this c]
  have e: "entry ?b Common = Some (mk_entry Common 5 900000 False)"
    by (simp add: set_state_entry[OF new_boxes_inv] next_updates_deadline_def NO_UPDATES_TIMEOUT_def)
  have w: "\<not> ready (mk_entry Common 5 900000 False)" "wake_at (mk_entry Common 5 900000 False) \<le> 900000"
    by (simp_all add: wake_at_def)
  have q: "Common \<in> set (getting_diff_for b')" using conjunct1[OF all] e w by blast
  then have "getting_diff_for b' \<noteq> []" by auto
  with conjunct1[OF conjunct2[OF all]] q c show ?thesis by blast
qed

section \<open>A channel registered when the cache is late\<close>

text \<open>
  The condition on registering a channel is needed: after a final difference of one channel with a
  timeout of an hour the cached deadline is an hour away, and a channel registered then, due after
  fifteen minutes, is not looked at when it is due: the check returns a time long after it.
  First the operations on boxes that hold one channel.
\<close>

definition one_channel :: "live_entry \<Rightarrow> key list \<Rightarrow> bool \<Rightarrow> instant \<Rightarrow> message_boxes" where
  "one_channel e q r t = \<lparr>entries = [e], date = 0, seq = 0, getting_diff_for = q, ready_diff_count = length q,
      exhausted_channels = {}, held_updates = [], held_release_ready = r, held_overflowed = False, next_deadline = t\<rparr>"

lemma one_channel_search:
  "binary_search_by_key entry_key k [e] = (if entry_key e = k then Inr 0 else if entry_key e < k then Inl 1 else Inl 0)"
  by (auto simp: binary_search_by_key_def bsearch_loop.simps)

lemma one_channel_simps:
  "entry_key e = k \<Longrightarrow> entry (one_channel e q r t) k = Some e"
  "entry_key e = k \<Longrightarrow> update_entry (one_channel e q r t) k f = (one_channel (f e) q r t, True)"
  "channel_in_diff (one_channel e (Channel c # q) r t) = Some c"
  "(one_channel e q r t)\<lparr>exhausted_channels := {}\<rparr> = one_channel e q r t" "exhausted_channels (one_channel e q r t) = {}"
  "dequeue_ready (one_channel e [k] r t) k = Some (one_channel e [] r t)"
  "(one_channel e q r t)\<lparr>held_release_ready := h\<rparr> = one_channel e q h t" "held_release_ready (one_channel e q r t) = r"
  "(one_channel e q r t)\<lparr>next_deadline := t'\<rparr> = one_channel e q r t'"
  "next_deadline (one_channel e q r t) = t" "entries (one_channel e q r t) = [e]"
  by (auto simp: one_channel_def entry_def find_entry_def one_channel_search update_entry_def modify_entry_def channel_in_diff_def
      dequeue_ready_def)

lemma one_channel_reset:
  "entry_key e = k \<Longrightarrow> possible_gap e = None \<Longrightarrow> retry_not_before e = None \<Longrightarrow> deadline e = t \<Longrightarrow>
   reset_deadline (one_channel e q r t) k dl = one_channel (e\<lparr>deadline := dl\<rparr>) q r dl"
  by (simp add: reset_deadline_def Let_def one_channel_simps effective_deadline_def)

lemma one_channel_end:
  "entry_key e = Channel c \<Longrightarrow> deadline e = t \<Longrightarrow> recovery_pending e \<Longrightarrow> \<not> recovery_deferred e \<Longrightarrow> possible_gap e = None \<Longrightarrow> retry_not_before e = None \<Longrightarrow>
  try_end_get_diff now (one_channel e [Channel c] r t) (Channel c) = Some (one_channel (ended now e) [] True (next_updates_deadline now))"
  by (simp add: try_end_get_diff_def one_channel_simps one_channel_reset ended_def)

lemma one_channel_pts: "entry_key e = k \<Longrightarrow> set_pts now (one_channel e q r t) k p = one_channel (e\<lparr>pts := p\<rparr>) q r t"
  by (simp add: set_pts_def one_channel_simps)

lemma no_updates: "process_updates_inner now (k # ks) b (unsequenced [] [] []) = Some (b, Inr ([], [], []))"
  by (simp add: process_updates_inner_def Let_def updates_to_combined_def sort_updates_by_key_def)

lemma conclude_nothing_held: "cd_final d \<Longrightarrow> conclude_channel now (one_channel e q r t) c d f = one_channel e q r t"
  by (simp add: conclude_channel_def retain_contiguous_held_updates_def one_channel_def)

lemma hour_long_timeout: "apply_channel_difference 0 (one_channel (mk_entry (Channel 5) 1 900000 True) [Channel 5] False 900000)
   (ChannelDifferenceEmpty True 1 (Some 3600)) = Some (one_channel (mk_entry (Channel 5) 1 3600000 False) [] True 3600000, [], [], [])"
proof -
  have dl: "next_updates_deadline 0 = 900000" by (simp add: next_updates_deadline_def NO_UPDATES_TIMEOUT_def)
  have e: "clear_recovery (mk_entry (Channel 5) 1 900000 True) = mk_entry (Channel 5) 1 900000 True"
    "ended 0 (mk_entry (Channel 5) 1 900000 True) = mk_entry (Channel 5) 1 900000 False"
    "mk_entry (Channel 5) 1 900000 False\<lparr>pts := 1\<rparr> = mk_entry (Channel 5) 1 900000 False"
    "mk_entry (Channel 5) 1 900000 False\<lparr>deadline := 3600000\<rparr> = mk_entry (Channel 5) 1 3600000 False"
    by (simp_all add: clear_recovery_def mk_entry_def ended_def dl)
  have m: "deadline (mk_entry k p d pend) = d" "retry_not_before (mk_entry k p d pend) = None" for k p d pend by (simp_all add: mk_entry_def)
  show ?thesis
    by (simp add: apply_channel_difference_def one_channel_simps Let_def e m one_channel_end dl one_channel_pts
       retain_valid_updates_def no_updates reset_timeout_def one_channel_reset conclude_nothing_held)
qed

lemma registered_channel_overslept:
  "\<exists>b. reachable b \<and> check_deadlines 1000000 b = (b, 3600000) \<and> getting_diff_for b = [] \<and>
     (\<exists>e. entry b (Channel 7) = Some e \<and> \<not> ready e \<and> wake_at e = 900000)"
proof -
  let ?b = "one_channel (mk_entry (Channel 5) 1 3600000 False) [] True 3600000"
  let ?e = "mk_entry (Channel 7) 1 900000 False"
  have dl: "next_updates_deadline 0 = 900000" by (simp add: next_updates_deadline_def NO_UPDATES_TIMEOUT_def)
  have "load 0 \<lparr>us_pts = 0, us_qts = 0, us_date = 0, us_seq = 0, us_channels = [\<lparr>chan_id = 5, chan_pts = 1\<rparr>]\<rparr> =
      one_channel (mk_entry (Channel 5) 1 900000 True) [Channel 5] False 900000"
    by (simp add: one_channel_def load_def repair_state_def saved_entries_def Let_def valid_channel_def dl)
  with reachable.channel_difference[OF _ hour_long_timeout] reachable.loaded have r: "reachable ?b" by metis
  have none: "entry ?b (Channel 7) = None"
    by (simp add: one_channel_def entry_def find_entry_def one_channel_search)
  let ?c = "try_set_channel_state 0 ?b 7 1"
  have c: "?c = set_entry ?b ?e" by (simp add: try_set_channel_state_def none dl)
  have "reachable ?c" using r by (rule reachable.channel)
  moreover have f: "next_deadline ?c = 3600000" "ready_diff_count ?c = 0" "getting_diff_for ?c = []"
    unfolding c by (simp_all add: set_entry_def one_channel_def)
  moreover have "check_deadlines 1000000 ?c = (?c, 3600000)"
    unfolding check_deadlines_def Let_def f by simp
  moreover have "entry ?c (Channel 7) = Some ?e"
    unfolding c using set_entry_inv(2)[OF reachable_mb_inv[OF r], of ?e] none by simp
  moreover have "\<not> ready ?e" "wake_at ?e = 900000" by (simp_all add: wake_at_def)
  ultimately show ?thesis by blast
qed

end
