(* ===== verification/Unbounded_Queue.thy ===== *)
theory Unbounded_Queue
  imports Prelude
begin

text \<open>
  The unbounded channel of \<open>grammers-mtsender/src/queue.rs\<close>: the state behind the lock, one
  definition per critical section, and the system of sending and receiving tasks that interleaves
  them. A waker is what \<open>std::task\<close> makes of it: the task it wakes and the pointer it carries;
  \<open>will_wake\<close> compares both. A waker is called only after the lock is released, so a call that is
  still to be made is part of the state of the system.
\<close>

section \<open>The shared state\<close>

record waker =
  waker_task :: nat
  waker_data :: nat

definition will_wake :: "waker \<Rightarrow> waker \<Rightarrow> bool" where
  "will_wake a b \<longleftrightarrow> a = b"

record 'a queue_state =
  items :: "'a list"
  waker_slot :: "waker option"
  senders :: nat
  closed :: bool

datatype try_recv_error = EmptyQueue | Disconnected

datatype 'a poll = Ready 'a | Pending

definition unbounded_channel :: "'a queue_state" where
  "unbounded_channel = \<lparr>items = [], waker_slot = None, senders = 1, closed = False\<rparr>"

text \<open>
  Each critical section returns the new state and, where the source takes the waker out to call it
  after unlocking, that waker. The error of \<open>send\<close> gives the item back.
\<close>

definition send :: "'a queue_state \<Rightarrow> 'a \<Rightarrow> 'a queue_state \<times> waker option \<times> ('a + unit)" where
  "send q x =
     (if closed q then (q, None, Inl x)
      else (q\<lparr>items := items q @ [x], waker_slot := None\<rparr>, waker_slot q, Inr ()))"

definition is_closed :: "'a queue_state \<Rightarrow> bool" where
  "is_closed q = closed q"

definition clone_sender :: "'a queue_state \<Rightarrow> 'a queue_state" where
  "clone_sender q = q\<lparr>senders := senders q + 1\<rparr>"

definition drop_sender :: "'a queue_state \<Rightarrow> 'a queue_state \<times> waker option" where
  "drop_sender q =
     (let q1 = q\<lparr>senders := senders q - 1\<rparr>
      in if senders q1 = 0 then (q1\<lparr>waker_slot := None\<rparr>, waker_slot q1) else (q1, None))"

definition poll_recv :: "waker \<Rightarrow> 'a queue_state \<Rightarrow> 'a queue_state \<times> 'a option poll" where
  "poll_recv cx q =
     (case items q of
        x # xs \<Rightarrow> (q\<lparr>items := xs\<rparr>, Ready (Some x))
      | [] \<Rightarrow>
          if closed q \<or> senders q = 0 then (q, Ready None)
          else if (case waker_slot q of Some w \<Rightarrow> will_wake w cx | None \<Rightarrow> False) then (q, Pending)
          else (q\<lparr>waker_slot := Some cx\<rparr>, Pending))"

definition try_recv :: "'a queue_state \<Rightarrow> 'a queue_state \<times> (try_recv_error + 'a)" where
  "try_recv q =
     (case items q of
        x # xs \<Rightarrow> (q\<lparr>items := xs\<rparr>, Inr x)
      | [] \<Rightarrow> (q, Inl (if closed q \<or> senders q = 0 then Disconnected else EmptyQueue)))"

definition close :: "'a queue_state \<Rightarrow> 'a queue_state" where
  "close q = q\<lparr>closed := True\<rparr>"

definition drop_receiver :: "'a queue_state \<Rightarrow> 'a queue_state" where
  "drop_receiver q = q\<lparr>closed := True, waker_slot := None, items := []\<rparr>"

section \<open>A first-in first-out channel\<close>

text \<open>
  What a receiver relies on: a channel with contents to which an accepted item is appended and
  from which a received one is taken, oldest first.
\<close>

locale fifo_channel =
  fixes contents :: "'q \<Rightarrow> 'a list"
    and offer :: "'q \<Rightarrow> 'a \<Rightarrow> 'q \<times> bool"
    and get :: "'q \<Rightarrow> 'q \<times> 'a option"
  assumes offer_accepted: "offer q x = (q', True) \<Longrightarrow> contents q' = contents q @ [x]"
    and offer_rejected: "offer q x = (q', False) \<Longrightarrow> contents q' = contents q"
    and get_some: "get q = (q', Some x) \<Longrightarrow> contents q = x # contents q'"
    and get_none: "get q = (q', None) \<Longrightarrow> contents q = [] \<and> contents q' = []"
begin

text \<open>A script of offers (with their item) and receptions, and what it accepted and delivered.\<close>

fun run_script :: "'q \<Rightarrow> 'a option list \<Rightarrow> 'q \<times> 'a list \<times> 'a list" where
  "run_script q [] = (q, [], [])"
| "run_script q (Some x # ops) =
     (case offer q x of (q1, ok) \<Rightarrow>
        case run_script q1 ops of (q2, acc, got) \<Rightarrow> (q2, (if ok then x # acc else acc), got))"
| "run_script q (None # ops) =
     (case get q of (q1, r) \<Rightarrow>
        case run_script q1 ops of (q2, acc, got) \<Rightarrow>
          (q2, acc, (case r of Some x \<Rightarrow> x # got | None \<Rightarrow> got)))"

lemma run_script_fifo:
  "run_script q ops = (q', acc, got) \<Longrightarrow> contents q @ acc = got @ contents q'"
proof (induction q ops arbitrary: q' acc got rule: run_script.induct)
  case (2 q x ops)
  obtain q1 ok where o1: "offer q x = (q1, ok)" by fastforce
  obtain q2 acc2 got2 where r: "run_script q1 ops = (q2, acc2, got2)" by (metis prod_cases3)
  have "contents q1 @ acc2 = got2 @ contents q2" using 2(1)[OF o1[symmetric] r] .
  with 2(2) o1 r offer_accepted[of q x q1] offer_rejected[of q x q1] show ?case by (cases ok) auto
next
  case (3 q ops)
  obtain q1 r where g: "get q = (q1, r)" by fastforce
  obtain q2 acc2 got2 where s: "run_script q1 ops = (q2, acc2, got2)" by (metis prod_cases3)
  have "contents q1 @ acc2 = got2 @ contents q2" using 3(1)[OF g[symmetric] s] .
  with 3(2) g s get_some[of q q1] get_none[of q q1] show ?case by (cases r) auto
qed simp

end

text \<open>The operations of the source as such a channel, received by \<open>try_recv\<close> or by polling.\<close>

definition offer_item :: "'a queue_state \<Rightarrow> 'a \<Rightarrow> 'a queue_state \<times> bool" where
  "offer_item q x = (case send q x of (q', w, Inl _) \<Rightarrow> (q', False) | (q', w, Inr _) \<Rightarrow> (q', True))"

definition try_item :: "'a queue_state \<Rightarrow> 'a queue_state \<times> 'a option" where
  "try_item q = (case try_recv q of (q', Inr x) \<Rightarrow> (q', Some x) | (q', Inl _) \<Rightarrow> (q', None))"

definition poll_item :: "waker \<Rightarrow> 'a queue_state \<Rightarrow> 'a queue_state \<times> 'a option" where
  "poll_item cx q = (case poll_recv cx q of (q', Ready (Some x)) \<Rightarrow> (q', Some x) | (q', _) \<Rightarrow> (q', None))"

lemmas item_defs = offer_item_def try_item_def poll_item_def send_def try_recv_def poll_recv_def

interpretation tried: fifo_channel items offer_item try_item
  by unfold_locales (auto simp: item_defs split: if_splits list.splits)

interpretation polled: fifo_channel items offer_item "poll_item cx" for cx
  by unfold_locales (auto simp: item_defs split: if_splits list.splits option.splits)

section \<open>Tasks that share the channel\<close>

text \<open>
  The receiver is between calls, blocked in \<open>recv\<close> (its last poll returned pending and nobody has
  woken it since), or gone. \<open>handles\<close> are the senders alive, \<open>wakes\<close> the wakers taken out of the
  slot and not called yet; \<open>accepted\<close> and \<open>received\<close> record the history.
\<close>

datatype receiver = Idle | Blocked nat | Gone

record 'a system =
  queue :: "'a queue_state"
  handles :: nat
  receiver :: receiver
  wakes :: "waker list"
  accepted :: "'a list"
  received :: "'a list"

definition system_init :: "'a system" where
  "system_init = \<lparr>queue = unbounded_channel, handles = 1, receiver = Idle, wakes = [], accepted = [], received = []\<rparr>"

inductive step :: "'a system \<Rightarrow> 'a system \<Rightarrow> bool" where
  send: "\<lbrakk>0 < handles s; send (queue s) x = (q, w, r)\<rbrakk> \<Longrightarrow>
    step s (s\<lparr>queue := q, wakes := wakes s @ (case w of Some v \<Rightarrow> [v] | None \<Rightarrow> []),
              accepted := accepted s @ (if r = Inr () then [x] else [])\<rparr>)"
| clone: "0 < handles s \<Longrightarrow> step s (s\<lparr>queue := clone_sender (queue s), handles := handles s + 1\<rparr>)"
| drop_sender: "\<lbrakk>0 < handles s; drop_sender (queue s) = (q, w)\<rbrakk> \<Longrightarrow>
    step s (s\<lparr>queue := q, handles := handles s - 1, wakes := wakes s @ (case w of Some v \<Rightarrow> [v] | None \<Rightarrow> [])\<rparr>)"
| wake: "w \<in> set (wakes s) \<Longrightarrow>
    step s (s\<lparr>wakes := remove1 w (wakes s),
              receiver := (if receiver s = Blocked (waker_task w) then Idle else receiver s)\<rparr>)"
| poll_pending: "\<lbrakk>receiver s \<noteq> Gone; poll_recv cx (queue s) = (q, Pending)\<rbrakk> \<Longrightarrow>
    step s (s\<lparr>queue := q, receiver := Blocked (waker_task cx)\<rparr>)"
| poll_item: "\<lbrakk>receiver s \<noteq> Gone; poll_recv cx (queue s) = (q, Ready (Some x))\<rbrakk> \<Longrightarrow>
    step s (s\<lparr>queue := q, receiver := Idle, received := received s @ [x]\<rparr>)"
| poll_end: "\<lbrakk>receiver s \<noteq> Gone; poll_recv cx (queue s) = (q, Ready None)\<rbrakk> \<Longrightarrow>
    step s (s\<lparr>queue := q, receiver := Idle\<rparr>)"
| cancel: "receiver s \<noteq> Gone \<Longrightarrow> step s (s\<lparr>receiver := Idle\<rparr>)"
| try_item: "\<lbrakk>receiver s = Idle; try_recv (queue s) = (q, Inr x)\<rbrakk> \<Longrightarrow>
    step s (s\<lparr>queue := q, received := received s @ [x]\<rparr>)"
| try_error: "\<lbrakk>receiver s = Idle; try_recv (queue s) = (q, Inl e)\<rbrakk> \<Longrightarrow> step s (s\<lparr>queue := q\<rparr>)"
| close: "receiver s = Idle \<Longrightarrow> step s (s\<lparr>queue := close (queue s)\<rparr>)"
| drop_receiver: "receiver s = Idle \<Longrightarrow>
    step s (s\<lparr>queue := drop_receiver (queue s), receiver := Gone\<rparr>)"

abbreviation reachable_system :: "'a system \<Rightarrow> bool" where
  "reachable_system s \<equiv> step\<^sup>*\<^sup>* system_init s"

text \<open>What holds in every reachable state.\<close>

definition will_notice :: "'a system \<Rightarrow> nat \<Rightarrow> bool" where
  "will_notice s t \<longleftrightarrow> t \<in> waker_task ` set (wakes s) \<or>
     ((\<exists>w. waker_slot (queue s) = Some w \<and> waker_task w = t) \<and>
      items (queue s) = [] \<and> \<not> closed (queue s) \<and> 0 < senders (queue s))"

definition system_inv :: "'a system \<Rightarrow> bool" where
  "system_inv s \<longleftrightarrow> senders (queue s) = handles s \<and>
     (receiver s = Gone \<longrightarrow> closed (queue s) \<and> items (queue s) = [] \<and> waker_slot (queue s) = None) \<and>
     (receiver s \<noteq> Gone \<longrightarrow> accepted s = received s @ items (queue s)) \<and>
     (\<exists>rest. accepted s = received s @ rest) \<and>
     (\<forall>t. receiver s = Blocked t \<longrightarrow> will_notice s t)"

lemma system_inv_init: "system_inv system_init"
  by (simp add: system_inv_def system_init_def unbounded_channel_def)

lemma system_inv_step: "step s s' \<Longrightarrow> system_inv s \<Longrightarrow> system_inv s'"
proof (induction rule: step.induct)
  case (wake w s)
  have notice: "waker_task v \<in> waker_task ` set (remove1 w (wakes s))"
    if "v \<in> set (wakes s)" "waker_task v \<noteq> waker_task w" for v
    using that by (cases "v = w") auto
  from wake show ?case by (auto simp: system_inv_def will_notice_def split: if_splits dest: notice)
qed (auto simp: system_inv_def will_notice_def send_def clone_sender_def drop_sender_def poll_recv_def
    try_recv_def close_def drop_receiver_def will_wake_def Let_def split: if_splits list.splits option.splits)

lemma system_inv_reachable: "reachable_system s \<Longrightarrow> system_inv s"
proof (induction rule: rtranclp_induct)
  case base
  show ?case by (rule system_inv_init)
next
  case (step s s')
  then show ?case by (blast intro: system_inv_step)
qed

section \<open>Properties\<close>

text \<open>
  C39: the channel loses, duplicates and reorders nothing. In every reachable state of the tasks
  sharing it, while the receiver lives, the items accepted are exactly those received followed by
  those still queued, and what was received is always a prefix of what was accepted.
\<close>

theorem queue_delivers_in_order:
  assumes "reachable_system s"
  shows "(receiver s \<noteq> Gone \<longrightarrow> accepted s = received s @ items (queue s)) \<and> (\<exists>rest. accepted s = received s @ rest)"
  using system_inv_reachable[OF assms] by (simp add: system_inv_def)

text \<open>A run: the receiver blocks, an item arrives, its wake-up is still to come.\<close>

definition blocked_system :: "nat system" where
  "blocked_system = system_init\<lparr>queue := unbounded_channel\<lparr>waker_slot := Some \<lparr>waker_task = 4, waker_data = 0\<rparr>\<rparr>, receiver := Blocked 4\<rparr>"

definition notified_system :: "nat system" where
  "notified_system = blocked_system\<lparr>queue := unbounded_channel\<lparr>items := [7]\<rparr>,
     wakes := [\<lparr>waker_task = 4, waker_data = 0\<rparr>], accepted := [7]\<rparr>"

lemma notified_reachable: "reachable_system notified_system"
proof -
  have "step system_init blocked_system"
    using poll_pending[of system_init "\<lparr>waker_task = 4, waker_data = 0\<rparr>"]
    by (simp add: poll_recv_def system_init_def unbounded_channel_def blocked_system_def)
  moreover have "step blocked_system notified_system"
    using step.send[of blocked_system 7]
    by (simp add: send_def system_init_def unbounded_channel_def blocked_system_def notified_system_def)
  ultimately show ?thesis by simp
qed

theorem queue_delivers_in_order_witness:
  "accepted notified_system = received notified_system @ items (queue notified_system)"
  using queue_delivers_in_order[OF notified_reachable] by (simp add: notified_system_def blocked_system_def)

text \<open>
  C40: no wake-up is lost. Whenever the receiver is blocked while an item is queued or the last
  sender is gone, a call of a waker for its task is still to be made, whatever the interleaving.
\<close>

theorem no_lost_wakeup:
  assumes "reachable_system s" and "receiver s = Blocked t" and "items (queue s) \<noteq> [] \<or> senders (queue s) = 0"
  shows "\<exists>w\<in>set (wakes s). waker_task w = t"
  using system_inv_reachable[OF assms(1)] assms(2,3) by (auto simp: system_inv_def will_notice_def)

theorem no_lost_wakeup_witness: "\<exists>w\<in>set (wakes notified_system). waker_task w = 4"
  by (rule no_lost_wakeup[OF notified_reachable]) (simp_all add: notified_system_def blocked_system_def)

text \<open>Receiving until nothing comes: the results of that many calls of \<open>try_recv\<close>.\<close>

fun try_recvs :: "nat \<Rightarrow> 'a queue_state \<Rightarrow> 'a queue_state \<times> (try_recv_error + 'a) list" where
  "try_recvs 0 q = (q, [])"
| "try_recvs (Suc n) q =
     (case try_recv q of (q1, r) \<Rightarrow> case try_recvs n q1 of (q2, rs) \<Rightarrow> (q2, r # rs))"

lemma try_recvs_closed:
  "closed q \<Longrightarrow> try_recvs (length (items q) + n) q =
     (q\<lparr>items := []\<rparr>, map Inr (items q) @ replicate n (Inl Disconnected))"
proof (induction "items q" arbitrary: q)
  case Nil
  then have "q\<lparr>items := []\<rparr> = q" by simp
  with Nil show ?case by (induction n) (simp_all add: try_recv_def)
next
  case (Cons x xs)
  from Cons.hyps(2) Cons.prems Cons.hyps(1)[of "q\<lparr>items := xs\<rparr>"] show ?case
    by (simp add: try_recv_def flip: Cons.hyps(2))
qed

text \<open>
  Closing rejects new items, giving each back with the channel unchanged, and loses none of
  the queued ones: receiving returns them all in order and then reports the disconnection for ever.
\<close>

theorem close_rejects_and_drains:
  "send (close q) x = (close q, None, Inl x) \<and> is_closed (close q) \<and>
   try_recvs (length (items q) + n) (close q) =
     ((close q)\<lparr>items := []\<rparr>, map Inr (items q) @ replicate n (Inl Disconnected))"
  using try_recvs_closed[of "close q" n] by (simp add: close_def send_def is_closed_def)

end
