(* ===== verification/Message_Crypto.thy ===== *)
theory Message_Crypto
  imports Deque_Buffer
begin

text \<open>
  The encryption of messages: IGE mode (\<open>grammers-crypto/src/aes.rs\<close>), the authorization key
  (\<open>auth_key.rs\<close>) and the MTProto 2.0 envelope (\<open>lib.rs\<close>). The block cipher AES-256 and the hashes
  SHA-1 and SHA-256 come from other crates and are parameters. A failed assertion is \<open>None\<close>.
\<close>

unbundle bit_operations_syntax

section \<open>IGE mode\<close>

text \<open>Exclusive or of two 128-bit values, as the bytes they are made of.\<close>

definition xor_block :: "bytes \<Rightarrow> bytes \<Rightarrow> bytes" where
  "xor_block a b = map2 (XOR) a b"

text \<open>The pass over the complete 16-byte chunks: \<open>iv1\<close> is the previous ciphertext, \<open>iv2\<close> the previous plaintext.\<close>

fun ige_encrypt_chunks :: "(bytes \<Rightarrow> bytes) \<Rightarrow> bytes \<Rightarrow> bytes \<Rightarrow> bytes \<Rightarrow> bytes" where
  "ige_encrypt_chunks enc iv1 iv2 buf =
     (if length buf < 16 then buf
      else let plaintext = take 16 buf;
               ciphertext = xor_block (enc (xor_block plaintext iv1)) iv2
           in ciphertext @ ige_encrypt_chunks enc ciphertext plaintext (drop 16 buf))"

fun ige_decrypt_chunks :: "(bytes \<Rightarrow> bytes) \<Rightarrow> bytes \<Rightarrow> bytes \<Rightarrow> bytes \<Rightarrow> bytes" where
  "ige_decrypt_chunks dec iv1 iv2 buf =
     (if length buf < 16 then buf
      else let ciphertext = take 16 buf;
               plaintext = xor_block (dec (xor_block ciphertext iv2)) iv1
           in plaintext @ ige_decrypt_chunks dec ciphertext plaintext (drop 16 buf))"

declare ige_encrypt_chunks.simps [simp del] ige_decrypt_chunks.simps [simp del]

type_synonym block_cipher = "bytes \<Rightarrow> bytes \<Rightarrow> bytes"

definition ige_encrypt :: "block_cipher \<Rightarrow> bytes \<Rightarrow> bytes \<Rightarrow> bytes \<Rightarrow> bytes option" where
  "ige_encrypt enc buf key iv =
     (if length buf mod 16 = 0 then Some (ige_encrypt_chunks (enc key) (take 16 iv) (drop 16 iv) buf) else None)"

definition ige_decrypt :: "block_cipher \<Rightarrow> bytes \<Rightarrow> bytes \<Rightarrow> bytes \<Rightarrow> bytes option" where
  "ige_decrypt dec buf key iv =
     (if length buf mod 16 = 0 then Some (ige_decrypt_chunks (dec key) (take 16 iv) (drop 16 iv) buf) else None)"

section \<open>Authorization keys\<close>

record auth_key =
  ak_data :: bytes
  ak_aux_hash :: bytes
  ak_key_id :: bytes

definition auth_key_from_bytes :: "(bytes \<Rightarrow> bytes) \<Rightarrow> bytes \<Rightarrow> auth_key" where
  "auth_key_from_bytes sha1 dat =
     \<lparr>ak_data = dat, ak_aux_hash = take 8 (sha1 dat), ak_key_id = take 8 (drop 12 (sha1 dat))\<rparr>"

definition auth_key_to_bytes :: "auth_key \<Rightarrow> bytes" where
  "auth_key_to_bytes k = ak_data k"

definition calc_new_nonce_hash :: "(bytes \<Rightarrow> bytes) \<Rightarrow> auth_key \<Rightarrow> bytes \<Rightarrow> u8 \<Rightarrow> bytes" where
  "calc_new_nonce_hash sha1 k new_nonce number = drop 4 (sha1 (new_nonce @ [number] @ ak_aux_hash k))"

section \<open>The envelope\<close>

datatype crypto_error = InvalidBuffer | AuthKeyMismatch | MessageKeyMismatch

datatype side = Client | Server

fun side_x :: "side \<Rightarrow> nat" where
  "side_x Client = 0"
| "side_x Server = 8"

definition calc_key :: "(bytes \<Rightarrow> bytes) \<Rightarrow> auth_key \<Rightarrow> bytes \<Rightarrow> side \<Rightarrow> bytes \<times> bytes" where
  "calc_key sha256 k msg_key s =
     (let x = side_x s;
          sha256_a = sha256 (msg_key @ take 36 (drop x (ak_data k)));
          sha256_b = sha256 (take 36 (drop (40 + x) (ak_data k)) @ msg_key)
      in (take 8 sha256_a @ take 16 (drop 8 sha256_b) @ take 8 (drop 24 sha256_a),
          take 8 sha256_b @ take 16 (drop 8 sha256_a) @ take 8 (drop 24 sha256_b)))"

definition determine_padding_v2_length :: "nat \<Rightarrow> nat" where
  "determine_padding_v2_length n = 12 + (16 - (n + 12) mod 16) mod 16"

text \<open>The message key of a padded plaintext.\<close>

definition msg_key_of :: "(bytes \<Rightarrow> bytes) \<Rightarrow> auth_key \<Rightarrow> side \<Rightarrow> bytes \<Rightarrow> bytes" where
  "msg_key_of sha256 k s padded = take 16 (drop 8 (sha256 (take 32 (drop (88 + side_x s) (ak_data k)) @ padded)))"

definition do_encrypt_data_v2 ::
    "block_cipher \<Rightarrow> (bytes \<Rightarrow> bytes) \<Rightarrow> u8 deque_buffer \<Rightarrow> auth_key \<Rightarrow> bytes \<Rightarrow> u8 deque_buffer option" where
  "do_encrypt_data_v2 enc sha256 buf k random_padding =
     (let padding_len = determine_padding_v2_length (len buf);
          b1 = deque_extend (take padding_len random_padding) buf;
          msg_key = msg_key_of sha256 k Client (as_ref b1);
          (key, iv) = calc_key sha256 k msg_key Client
      in case ige_encrypt enc (as_ref b1) key iv of
           None \<Rightarrow> None
         | Some ciphertext \<Rightarrow>
             Some (extend_front 0 (ak_key_id k) (extend_front 0 msg_key (as_mut_write ciphertext b1))))"

text \<open>The comparison that does not stop at the first difference.\<close>

definition difference_of :: "bytes \<Rightarrow> bytes \<Rightarrow> u8" where
  "difference_of a b = fold (\<lambda>(ours, theirs) d. d OR (ours XOR theirs)) (zip a b) 0"

definition decrypt_data_v2 ::
    "block_cipher \<Rightarrow> (bytes \<Rightarrow> bytes) \<Rightarrow> bytes \<Rightarrow> auth_key \<Rightarrow> (crypto_error + bytes) option" where
  "decrypt_data_v2 dec sha256 buf k =
     (if length buf < 24 \<or> (length buf - 24) mod 16 \<noteq> 0 then Some (Inl InvalidBuffer)
      else if ak_key_id k \<noteq> take 8 buf then Some (Inl AuthKeyMismatch)
      else
        let msg_key = take 16 (drop 8 buf);
            (key, iv) = calc_key sha256 k msg_key Server
        in case ige_decrypt dec (drop 24 buf) key iv of
             None \<Rightarrow> None
           | Some plaintext \<Rightarrow>
               if difference_of msg_key (msg_key_of sha256 k Server plaintext) \<noteq> 0
               then Some (Inl MessageKeyMismatch) else Some (Inr plaintext))"

definition generate_key_data_from_nonce :: "(bytes \<Rightarrow> bytes) \<Rightarrow> bytes \<Rightarrow> bytes \<Rightarrow> bytes \<times> bytes" where
  "generate_key_data_from_nonce sha1 server_nonce new_nonce =
     (let hash1 = sha1 (new_nonce @ server_nonce);
          hash2 = sha1 (server_nonce @ new_nonce);
          hash3 = sha1 (new_nonce @ new_nonce)
      in (hash1 @ take 12 hash2, drop 12 hash2 @ hash3 @ take 4 new_nonce))"

section \<open>Laws of the mode\<close>

lemma length_xor_block [simp]: "length (xor_block a b) = min (length a) (length b)"
  by (simp add: xor_block_def)

lemma xor_block_cancel [simp]: "length a \<le> length b \<Longrightarrow> xor_block (xor_block a b) b = a"
  by (induction a b rule: list_induct2') (simp_all add: xor_block_def xor.assoc)

text \<open>
  The documented behaviour of the crates the envelope is built on: for every key AES-256 is a
  permutation of the 16-byte blocks, which decryption inverts.
\<close>

definition block_pair :: "(bytes \<Rightarrow> bytes) \<Rightarrow> (bytes \<Rightarrow> bytes) \<Rightarrow> bool" where
  "block_pair enc dec \<longleftrightarrow> (\<forall>b. length b = 16 \<longrightarrow>
     length (enc b) = 16 \<and> length (dec b) = 16 \<and> dec (enc b) = b \<and> enc (dec b) = b)"

lemma block_pairD:
  assumes "block_pair enc dec" "length b = 16"
  shows "length (enc b) = 16" "length (dec b) = 16" "dec (enc b) = b" "enc (dec b) = b"
  using assms by (simp_all add: block_pair_def)

lemma ige_encrypt_inverse:
  assumes pair: "block_pair enc dec"
  shows "length iv1 = 16 \<Longrightarrow> length iv2 = 16 \<Longrightarrow>
   length (ige_encrypt_chunks enc iv1 iv2 buf) = length buf \<and>
   ige_decrypt_chunks dec iv1 iv2 (ige_encrypt_chunks enc iv1 iv2 buf) = buf"
proof (induction "length buf" arbitrary: iv1 iv2 buf rule: less_induct)
  case less
  show ?case
  proof (cases "length buf < 16")
    case True
    then show ?thesis by (simp add: ige_encrypt_chunks.simps[of _ _ _ buf] ige_decrypt_chunks.simps[of _ _ _ buf])
  next
    case False
    define p where "p = take 16 buf"
    define c where "c = xor_block (enc (xor_block p iv1)) iv2"
    have p: "length p = 16" using False by (simp add: p_def)
    have e: "length (enc (xor_block p iv1)) = 16" using p less.prems by (intro block_pairD(1)[OF pair]) simp
    then have c: "length c = 16" using less.prems by (simp add: c_def)
    have IH: "length (ige_encrypt_chunks enc c p (drop 16 buf)) = length (drop 16 buf)"
      "ige_decrypt_chunks dec c p (ige_encrypt_chunks enc c p (drop 16 buf)) = drop 16 buf"
      using less.hyps[of "drop 16 buf" c p] False c p by auto
    have enc1: "ige_encrypt_chunks enc iv1 iv2 buf = c @ ige_encrypt_chunks enc c p (drop 16 buf)"
      using False by (simp add: ige_encrypt_chunks.simps[of _ _ _ buf] Let_def p_def c_def)
    have d: "xor_block (dec (xor_block c iv2)) iv1 = p"
      using p e less.prems by (simp add: c_def block_pairD(3)[OF pair])
    have "ige_decrypt_chunks dec iv1 iv2 (c @ ige_encrypt_chunks enc c p (drop 16 buf)) = p @ drop 16 buf"
      using c d IH(2) by (subst ige_decrypt_chunks.simps) (simp add: Let_def)
    then show ?thesis using enc1 IH(1) c False by (simp add: p_def)
  qed
qed

lemma ige_decrypt_inverse:
  assumes pair: "block_pair enc dec"
  shows "length iv1 = 16 \<Longrightarrow> length iv2 = 16 \<Longrightarrow>
   length (ige_decrypt_chunks dec iv1 iv2 buf) = length buf \<and>
   ige_encrypt_chunks enc iv1 iv2 (ige_decrypt_chunks dec iv1 iv2 buf) = buf"
proof (induction "length buf" arbitrary: iv1 iv2 buf rule: less_induct)
  case less
  show ?case
  proof (cases "length buf < 16")
    case True
    then show ?thesis by (simp add: ige_encrypt_chunks.simps[of _ _ _ buf] ige_decrypt_chunks.simps[of _ _ _ buf])
  next
    case False
    define c where "c = take 16 buf"
    define p where "p = xor_block (dec (xor_block c iv2)) iv1"
    have c: "length c = 16" using False by (simp add: c_def)
    have e: "length (dec (xor_block c iv2)) = 16" using c less.prems by (intro block_pairD(2)[OF pair]) simp
    then have p: "length p = 16" using less.prems by (simp add: p_def)
    have IH: "length (ige_decrypt_chunks dec c p (drop 16 buf)) = length (drop 16 buf)"
      "ige_encrypt_chunks enc c p (ige_decrypt_chunks dec c p (drop 16 buf)) = drop 16 buf"
      using less.hyps[of "drop 16 buf" c p] False c p by auto
    have dec1: "ige_decrypt_chunks dec iv1 iv2 buf = p @ ige_decrypt_chunks dec c p (drop 16 buf)"
      using False by (simp add: ige_decrypt_chunks.simps[of _ _ _ buf] Let_def p_def c_def)
    have d: "xor_block (enc (xor_block p iv1)) iv2 = c"
      using c e less.prems by (simp add: p_def block_pairD(4)[OF pair])
    have "ige_encrypt_chunks enc iv1 iv2 (p @ ige_decrypt_chunks dec c p (drop 16 buf)) = c @ drop 16 buf"
      using p d IH(2) by (subst ige_encrypt_chunks.simps) (simp add: Let_def)
    then show ?thesis using dec1 IH(1) p False by (simp add: c_def)
  qed
qed

section \<open>Sealed packets\<close>

text \<open>The envelope of a padded plaintext from either side, as the protocol defines it.\<close>

definition seal :: "block_cipher \<Rightarrow> (bytes \<Rightarrow> bytes) \<Rightarrow> auth_key \<Rightarrow> side \<Rightarrow> bytes \<Rightarrow> bytes" where
  "seal enc sha256 k s padded =
     (let msg_key = msg_key_of sha256 k s padded; (key, iv) = calc_key sha256 k msg_key s
      in ak_key_id k @ msg_key @ ige_encrypt_chunks (enc key) (take 16 iv) (drop 16 iv) padded)"

lemma xor_zero: "(a :: u8) XOR b = 0 \<longleftrightarrow> a = b"
proof
  assume "a XOR b = 0"
  then have "a XOR (a XOR b) = a" by simp
  then show "a = b" by (simp flip: xor.assoc)
qed simp

lemma difference_fold:
  "fold (\<lambda>(ours, theirs) d. d OR (ours XOR theirs)) ps (d :: u8) = 0 \<longleftrightarrow> d = 0 \<and> (\<forall>(a, b)\<in>set ps. a = b)"
proof (induction ps arbitrary: d)
  case (Cons p ps)
  have "d OR (fst p XOR snd p) = 0 \<longleftrightarrow> d = 0 \<and> fst p = snd p"
    by (simp add: or_eq_0_iff xor_zero)
  with Cons show ?case by (auto simp: case_prod_beta)
qed simp

lemma difference_of_eq_0:
  assumes "length a = length b"
  shows "difference_of a b = 0 \<longleftrightarrow> a = b"
  using assms unfolding difference_of_def difference_fold
  by (induction a b rule: list_induct2) simp_all

lemma length_calc_key:
  assumes "\<And>m. length (sha256 m) = 32" "calc_key sha256 k mk s = (key, iv)"
  shows "length (take 16 iv) = 16" "length (drop 16 iv) = 16"
  using assms by (auto simp: calc_key_def Let_def)

lemma length_msg_key: "(\<And>m. length (sha256 m) = 32) \<Longrightarrow> length (msg_key_of sha256 k s p) = 16"
  by (simp add: msg_key_of_def)

lemma length_seal:
  assumes "\<forall>key. block_pair (enc key) (dec key)" "\<forall>m. length (sha256 m) = 32"
  shows "length (seal enc sha256 k s padded) = length (ak_key_id k) + 16 + length padded"
proof -
  have sha: "\<And>m. length (sha256 m) = 32" using assms(2) by simp
  obtain key iv where ki: "calc_key sha256 k (msg_key_of sha256 k s padded) s = (key, iv)" by fastforce
  show ?thesis
    using ige_encrypt_inverse[OF assms(1)[rule_format, of key] length_calc_key[OF sha ki], of padded] length_msg_key[of sha256 k s padded, OF sha]
    by (simp add: seal_def ki)
qed

text \<open>
  C20: exactly the server's packets are accepted. With a block cipher and a hash that keep their
  documented laws, decryption returns a plaintext if and only if the packet is the envelope that
  the server's side of the protocol makes of that plaintext under the same authorization key;
  anything else is an error, and nothing panics.
\<close>

theorem decrypts_exactly_sealed:
  assumes aes: "\<forall>key. block_pair (enc key) (dec key)" and sha: "\<forall>m. length (sha256 m) = 32" and k: "length (ak_key_id k) = 8"
  shows "decrypt_data_v2 dec sha256 buf k \<noteq> None \<and>
    (decrypt_data_v2 dec sha256 buf k = Some (Inr plaintext) \<longleftrightarrow>
       length plaintext mod 16 = 0 \<and> buf = seal enc sha256 k Server plaintext)"
proof -
  define mk where "mk = take 16 (drop 8 buf)"
  obtain key iv where ki: "calc_key sha256 k mk Server = (key, iv)" by fastforce
  define body where "body = ige_decrypt_chunks (dec key) (take 16 iv) (drop 16 iv) (drop 24 buf)"
  have sha': "\<And>m. length (sha256 m) = 32" using sha by simp
  note iv = length_calc_key[OF sha' ki]
  note inverse = ige_decrypt_inverse[OF aes[rule_format, of key] iv, of "drop 24 buf", folded body_def]
  have eq: "difference_of mk (msg_key_of sha256 k Server body) = 0 \<longleftrightarrow> mk = msg_key_of sha256 k Server body" if "24 \<le> length buf"
    using that by (intro difference_of_eq_0) (simp add: mk_def length_msg_key[OF sha'])
  have dec: "decrypt_data_v2 dec sha256 buf k =
      (if length buf < 24 \<or> (length buf - 24) mod 16 \<noteq> 0 then Some (Inl InvalidBuffer)
       else if ak_key_id k \<noteq> take 8 buf then Some (Inl AuthKeyMismatch)
       else if mk \<noteq> msg_key_of sha256 k Server body then Some (Inl MessageKeyMismatch) else Some (Inr body))"
    using eq by (simp add: decrypt_data_v2_def ki ige_decrypt_def Let_def flip: mk_def body_def)
  have sealed: "length plaintext mod 16 = 0 \<and> buf = seal enc sha256 k Server plaintext"
    if "decrypt_data_v2 dec sha256 buf k = Some (Inr plaintext)"
  proof -
    have a: "24 \<le> length buf" "(length buf - 24) mod 16 = 0" "ak_key_id k = take 8 buf" "mk = msg_key_of sha256 k Server body" "plaintext = body"
      using that unfolding dec by (auto split: if_splits)
    have "drop 24 buf = drop 16 (drop 8 buf)" by simp
    then have "take 8 buf @ mk @ drop 24 buf = buf" unfolding mk_def by (simp only: append_take_drop_id)
    then have "buf = seal enc sha256 k Server plaintext"
      using a(3,5) inverse by (simp add: seal_def ki flip: a(4))
    moreover have "length plaintext mod 16 = 0" using a(2,5) inverse by simp
    ultimately show ?thesis by simp
  qed
  have opens: "decrypt_data_v2 dec sha256 buf k = Some (Inr plaintext)"
    if p: "length plaintext mod 16 = 0" and b: "buf = seal enc sha256 k Server plaintext"
  proof -
    let ?mk = "msg_key_of sha256 k Server plaintext"
    obtain key' iv' where ki': "calc_key sha256 k ?mk Server = (key', iv')" by fastforce
    note iv' = length_calc_key[OF sha' ki']
    note inv' = ige_encrypt_inverse[OF aes[rule_format, of key'] iv', of plaintext]
    have buf: "buf = ak_key_id k @ ?mk @ ige_encrypt_chunks (enc key') (take 16 iv') (drop 16 iv') plaintext"
      using b by (simp add: seal_def ki')
    have mk: "mk = ?mk" using k length_msg_key[of sha256 k Server plaintext, OF sha'] by (simp add: mk_def buf)
    then have [simp]: "key' = key" "iv' = iv" using ki ki' by simp_all
    have "drop 24 buf = ige_encrypt_chunks (enc key) (take 16 iv) (drop 16 iv) plaintext"
      using k length_msg_key[of sha256 k Server plaintext, OF sha'] by (simp add: buf)
    then have "body = plaintext" using inv' by (simp add: body_def)
    moreover have "length buf = 24 + length plaintext" using inv' k length_msg_key[of sha256 k Server plaintext, OF sha'] by (simp add: buf)
    moreover have "take 8 buf = ak_key_id k" using k by (simp add: buf)
    ultimately show ?thesis unfolding dec using p mk by simp
  qed
  have "decrypt_data_v2 dec sha256 buf k \<noteq> None" unfolding dec by simp
  moreover have "decrypt_data_v2 dec sha256 buf k = Some (Inr plaintext) \<longleftrightarrow>
      length plaintext mod 16 = 0 \<and> buf = seal enc sha256 k Server plaintext"
    by (rule iffI, erule sealed, elim conjE, erule (1) opens)
  ultimately show ?thesis by (rule conjI)
qed

text \<open>A toy block cipher with the laws, for evaluation: the block is reversed, whatever the key.\<close>

definition toy_block :: block_cipher where
  "toy_block key b = rev b"

definition toy_hash :: "bytes \<Rightarrow> bytes" where
  "toy_hash m = le_bytes 32 (le_nat m)"

definition toy_key :: auth_key where
  "toy_key = \<lparr>ak_data = replicate 256 7, ak_aux_hash = replicate 8 1, ak_key_id = replicate 8 2\<rparr>"

theorem decrypts_exactly_sealed_witness:
  "decrypt_data_v2 toy_block toy_hash (seal toy_block toy_hash toy_key Server (replicate 32 9)) toy_key =
     Some (Inr (replicate 32 9))"
  using decrypts_exactly_sealed[of toy_block toy_block toy_hash toy_key
      "seal toy_block toy_hash toy_key Server (replicate 32 9)" "replicate 32 9"]
  by (simp add: block_pair_def toy_block_def toy_hash_def toy_key_def length_le_bytes)

section \<open>Sending\<close>

lemma padding_bounds:
  "12 \<le> determine_padding_v2_length n" "determine_padding_v2_length n \<le> 27"
  "(n + determine_padding_v2_length n) mod 16 = 0"
proof -
  have "(16 - (n + 12) mod 16) mod 16 < 16" by simp
  then show "12 \<le> determine_padding_v2_length n" "determine_padding_v2_length n \<le> 27"
    unfolding determine_padding_v2_length_def by linarith+
  have "(n + determine_padding_v2_length n) mod 16 = ((n + 12) mod 16 + (16 - (n + 12) mod 16)) mod 16"
    unfolding determine_padding_v2_length_def by (simp only: add.assoc[symmetric] mod_simps)
  then show "(n + determine_padding_v2_length n) mod 16 = 0" by simp
qed

lemma encrypted_sealed:
  assumes buf: "deque_inv buf" and rnd: "length random_padding = 32"
    and aes: "\<forall>key. block_pair (enc key) (dec key)" and sha: "\<forall>m. length (sha256 m) = 32"
  shows "12 \<le> determine_padding_v2_length (len buf) \<and> determine_padding_v2_length (len buf) \<le> 27 \<and>
    length (as_ref buf @ take (determine_padding_v2_length (len buf)) random_padding) mod 16 = 0 \<and>
    (\<exists>buf'. do_encrypt_data_v2 enc sha256 buf k random_padding = Some buf' \<and> deque_inv buf' \<and>
       as_ref buf' = seal enc sha256 k Client (as_ref buf @ take (determine_padding_v2_length (len buf)) random_padding))"
proof -
  define n where "n = determine_padding_v2_length (len buf)"
  note n = padding_bounds[of "len buf", folded n_def]
  define padded where "padded = as_ref buf @ take n random_padding"
  have m: "length padded mod 16 = 0" using buf rnd n by (simp add: padded_def min_absorb2)
  define b1 where "b1 = deque_extend (take n random_padding) buf"
  have b1: "as_ref b1 = padded" "deque_inv b1" using buf by (simp_all add: b1_def padded_def)
  define mk where "mk = msg_key_of sha256 k Client padded"
  obtain key iv where ki: "calc_key sha256 k mk Client = (key, iv)" by fastforce
  have sha': "\<And>m. length (sha256 m) = 32" using sha by simp
  let ?ct = "ige_encrypt_chunks (enc key) (take 16 iv) (drop 16 iv) padded"
  have "length ?ct = length padded"
    using ige_encrypt_inverse[OF aes[rule_format, of key] length_calc_key[OF sha' ki]] by blast
  then have w: "deque_inv (as_mut_write ?ct b1)" using b1 by simp
  have "do_encrypt_data_v2 enc sha256 buf k random_padding =
      Some (extend_front 0 (ak_key_id k) (extend_front 0 mk (as_mut_write ?ct b1)))"
    by (simp add: do_encrypt_data_v2_def Let_def b1 ki ige_encrypt_def m flip: n_def b1_def mk_def)
  moreover have "as_ref (extend_front 0 (ak_key_id k) (extend_front 0 mk (as_mut_write ?ct b1))) = seal enc sha256 k Client padded"
    using w b1 by (simp add: db.fronts seal_def ki flip: mk_def)
  ultimately show ?thesis unfolding n_def[symmetric] padded_def[symmetric] using n(1,2) m w by auto
qed

text \<open>
  What is sent. Encrypting a buffer never panics and leaves in it the client's envelope of the
  plaintext followed by the smallest admissible padding: between 12 and 27 random bytes, such that
  the padded length is a multiple of 16.
\<close>

theorem encrypts_to_sealed:
  assumes buf: "deque_inv buf" and rnd: "length random_padding = 32"
    and aes: "\<forall>key. block_pair (enc key) (dec key)" and sha: "\<forall>m. length (sha256 m) = 32"
  shows "let n = determine_padding_v2_length (len buf); padded = as_ref buf @ take n random_padding in
    12 \<le> n \<and> n \<le> 27 \<and> length padded mod 16 = 0 \<and>
    (\<exists>buf'. do_encrypt_data_v2 enc sha256 buf k random_padding = Some buf' \<and> deque_inv buf' \<and>
       as_ref buf' = seal enc sha256 k Client padded)"
  unfolding Let_def by (rule encrypted_sealed[OF assms])

theorem encrypts_to_sealed_witness:
  "let buf = deque_extend [1, 2, 3] (with_capacity 0 0 0); n = determine_padding_v2_length (len buf);
       padded = as_ref buf @ take n (replicate 32 5) in
    12 \<le> n \<and> n \<le> 27 \<and> length padded mod 16 = 0 \<and>
    (\<exists>buf'. do_encrypt_data_v2 toy_block toy_hash buf toy_key (replicate 32 5) = Some buf' \<and> deque_inv buf' \<and>
       as_ref buf' = seal toy_block toy_hash toy_key Client padded)"
  unfolding Let_def
  by (rule encrypts_to_sealed[unfolded Let_def, of _ _ toy_block toy_block])
     (simp_all add: block_pair_def toy_block_def toy_hash_def)

end
