(* ===== verification/Manual_Tl.thy ===== *)
theory Manual_Tl
  imports Tl_Codec Message_Crypto
begin

text \<open>
  The hand-written TL structures of \<open>grammers-mtproto/src/manual_tl.rs\<close> (messages, RPC results,
  containers, compressed objects) and the error type of \<open>mtp/mod.rs\<close>. Identifiers and sequence
  numbers are the integers their words stand for. The gzip codec (crate \<open>flate2\<close>) is a parameter:
  decoding gives the bytes the decoder hands out and, when the member ends with a valid footer,
  the number of input bytes it consumed.
\<close>

section \<open>Errors\<close>

datatype deserialize_error =
    InvalidEnvelope string
  | ResourceLimit string
  | BadAuthKey int int
  | BadMessageId int
  | NegativeMessageLength int
  | TooLongMessageLength nat nat
  | MessageBufferTooSmall
  | DecompressionFailed
  | UnexpectedConstructorId u32
  | DecryptionError crypto_error

fun from_tl_error :: "tl_error \<Rightarrow> deserialize_error" where
  "from_tl_error UnexpectedEof = MessageBufferTooSmall"
| "from_tl_error DepthLimitExceeded = ResourceLimit ''TL nesting depth''"
| "from_tl_error (UnexpectedConstructor i) = UnexpectedConstructorId i"

section \<open>Messages\<close>

record message =
  msg_id :: int
  seq_no :: int
  body :: bytes

definition SIZE_OVERHEAD :: nat where
  "SIZE_OVERHEAD = 16"

definition serialize_message :: "message \<Rightarrow> bytes" where
  "serialize_message m =
     serialize_i64 (word_of_int (msg_id m)) @ serialize_i32 (word_of_int (seq_no m)) @
     serialize_i32 (of_nat (length (body m))) @ body m"

definition deserialize_message :: "message reader" where
  "deserialize_message =
     and_then deserialize_i64 (\<lambda>mid.
     and_then deserialize_i32 (\<lambda>sq.
     and_then deserialize_i32 (\<lambda>l.
     if sint l < 0 then fail_with UnexpectedEof
     else let n = nat (sint l) in
       if n < 4 \<or> n mod 4 \<noteq> 0 then fail_with UnexpectedEof
       else and_then (read_slice n) (\<lambda>b. done_with \<lparr>msg_id = sint mid, seq_no = sint sq, body = b\<rparr>))))"

definition constructor_id :: "message \<Rightarrow> tl_error + u32" where
  "constructor_id m = from_bytes deserialize_u32 (body m)"

text \<open>The remainder of the source takes the sign of the dividend.\<close>

definition requires_ack :: "message \<Rightarrow> bool" where
  "requires_ack m \<longleftrightarrow> (if seq_no m < 0 then - (- seq_no m mod 2) else seq_no m mod 2) = 1"

section \<open>RPC results\<close>

definition rpc_result_id :: u32 where
  "rpc_result_id = 0xf35c6d01"

definition borrowed_parts :: "bytes \<Rightarrow> tl_error + int \<times> bytes" where
  "borrowed_parts b =
     (case and_then deserialize_u32 (\<lambda>cid. if cid \<noteq> rpc_result_id then fail_with (UnexpectedConstructor cid)
             else deserialize_i64) (from_slice b) of
        (Inl e, _) \<Rightarrow> Inl e
      | (Inr req, c) \<Rightarrow> Inr (sint req, drop (cpos c) b))"

text \<open>The version that reuses the allocation: the result is moved to its start and the rest cut off.\<close>

definition from_owned :: "bytes \<Rightarrow> tl_error + int \<times> bytes" where
  "from_owned b =
     (case borrowed_parts b of
        Inl e \<Rightarrow> Inl e
      | Inr (req, result) \<Rightarrow>
          let start = length b - length result;
              moved = drop start b @ drop (length b - start) b
          in Inr (req, take (length moved - start) moved))"

definition deserialize_rpc_result :: "(int \<times> bytes) reader" where
  "deserialize_rpc_result =
     and_then deserialize_u32 (\<lambda>cid. if cid \<noteq> rpc_result_id then fail_with (UnexpectedConstructor cid)
     else and_then deserialize_i64 (\<lambda>req. and_then (read_to_end []) (\<lambda>(result, _). done_with (sint req, result))))"

section \<open>Containers\<close>

definition container_id :: u32 where
  "container_id = 0x73f1f8dc"

definition CONTAINER_OVERHEAD :: nat where
  "CONTAINER_OVERHEAD = 8"

text \<open>The mask \<open>!3\<close> rounds down to a multiple of four.\<close>

definition MAXIMUM_SIZE :: nat where
  "MAXIMUM_SIZE = (0xff000 - 24 - 16 - 27 - 16 - CONTAINER_OVERHEAD) div 4 * 4"

definition MAXIMUM_LENGTH :: nat where
  "MAXIMUM_LENGTH = 100"

record message_iter =
  iter_cursor :: cursor
  remaining_messages :: nat

definition iter_next :: "message_iter \<Rightarrow> (tl_error + message) option \<times> message_iter" where
  "iter_next it =
     (if remaining_messages it = 0 then (None, it)
      else case deserialize_message (iter_cursor it) of
             (res, c) \<Rightarrow> (Some res, \<lparr>iter_cursor = c, remaining_messages = remaining_messages it - 1\<rparr>))"

definition bad_child :: "int \<Rightarrow> message \<Rightarrow> bool" where
  "bad_child parent_id m \<longleftrightarrow>
     msg_id m \<le> 0 \<or> msg_id m mod 2 \<noteq> 1 \<or> msg_id m \<ge> parent_id \<or> seq_no m < 0"

fun check_children :: "(int \<times> int) option \<Rightarrow> nat \<Rightarrow> cursor \<Rightarrow> deserialize_error + cursor" where
  "check_children parent 0 c = Inr c"
| "check_children parent (Suc n) c =
     (case deserialize_message c of
        (Inl e, _) \<Rightarrow> Inl (from_tl_error e)
      | (Inr inner, c') \<Rightarrow>
          if (case parent of None \<Rightarrow> False | Some (pid, _) \<Rightarrow> bad_child pid inner)
          then Inl (InvalidEnvelope ''invalid message envelope'')
          else check_children parent n c')"

definition borrowed_messages_validated :: "bytes \<Rightarrow> (int \<times> int) option \<Rightarrow> deserialize_error + message_iter" where
  "borrowed_messages_validated bs parent =
     (case deserialize_u32 (from_slice bs) of
        (Inl e, _) \<Rightarrow> Inl (from_tl_error e)
      | (Inr cid, c1) \<Rightarrow>
          if cid \<noteq> container_id then Inl (from_tl_error (UnexpectedConstructor cid))
          else case deserialize_i32 c1 of
            (Inl e, _) \<Rightarrow> Inl (from_tl_error e)
          | (Inr n, c2) \<Rightarrow>
              if sint n < 0 then Inl (InvalidEnvelope ''invalid message envelope'')
              else
                let count = nat (sint n); dat = drop (cpos c2) bs in
                if count > 1024 \<or> count > length dat div SIZE_OVERHEAD
                then Inl (InvalidEnvelope ''invalid message envelope'')
                else case check_children parent count (from_slice dat) of
                  Inl e \<Rightarrow> Inl e
                | Inr c \<Rightarrow>
                    if cpos c \<noteq> length dat then Inl (InvalidEnvelope ''invalid message envelope'')
                    else Inr \<lparr>iter_cursor = from_slice dat, remaining_messages = count\<rparr>)"

section \<open>Compressed objects\<close>

definition gzip_packed_id :: u32 where
  "gzip_packed_id = 0x3072cfa1"

definition msg_copy_id :: u32 where
  "msg_copy_id = 0xe06046b2"

type_synonym inflater = "bytes \<Rightarrow> bytes \<times> nat option"

text \<open>
  \<open>GzipScratch::decode\<close>: at most \<open>limit\<close> bytes are read, then one more as a probe; an error of the
  decoder shows once everything before it has been read.
\<close>

definition gzip_decode :: "inflater \<Rightarrow> bytes \<Rightarrow> nat \<Rightarrow> deserialize_error + bytes" where
  "gzip_decode inflate packed limit =
     (case inflate packed of (out, ending) \<Rightarrow>
        if length out > limit then Inl (ResourceLimit ''gzip output'')
        else case ending of
               None \<Rightarrow> Inl DecompressionFailed
             | Some consumed \<Rightarrow> if consumed \<noteq> length packed then Inl DecompressionFailed else Inr out)"

definition new_prefixed :: "(bytes \<Rightarrow> bytes) \<Rightarrow> bytes \<Rightarrow> bytes \<Rightarrow> bytes" where
  "new_prefixed deflate prefix unpacked_data = deflate (prefix @ unpacked_data)"

definition decompress_from_bytes_limited :: "inflater \<Rightarrow> bytes \<Rightarrow> nat \<Rightarrow> deserialize_error + bytes" where
  "decompress_from_bytes_limited inflate bs limit =
     (case deserialize_u32 (from_slice bs) of
        (Inl e, _) \<Rightarrow> Inl (from_tl_error e)
      | (Inr cid, c1) \<Rightarrow>
          if cid \<noteq> gzip_packed_id then Inl (from_tl_error (UnexpectedConstructor cid))
          else case read_bytes c1 of
            (Inl e, _) \<Rightarrow> Inl (from_tl_error e)
          | (Inr packed, c2) \<Rightarrow>
              if cpos c2 \<noteq> length bs then Inl DecompressionFailed
              else gzip_decode inflate packed limit)"

definition serialize_gzip_packed :: "bytes \<Rightarrow> bytes" where
  "serialize_gzip_packed packed = serialize_u32 gzip_packed_id @ serialize_bytes packed"

definition deserialize_gzip_packed :: "bytes reader" where
  "deserialize_gzip_packed =
     and_then deserialize_u32 (\<lambda>cid. if cid \<noteq> gzip_packed_id then fail_with (UnexpectedConstructor cid)
     else deserialize_bytes)"

section \<open>Round trips\<close>

definition i64_ok :: "int \<Rightarrow> bool" where
  "i64_ok x \<longleftrightarrow> - (2 ^ 63) \<le> x \<and> x < 2 ^ 63"

definition i32_ok :: "int \<Rightarrow> bool" where
  "i32_ok x \<longleftrightarrow> - (2 ^ 31) \<le> x \<and> x < 2 ^ 31"

definition message_ok :: "message \<Rightarrow> bool" where
  "message_ok m \<longleftrightarrow> i64_ok (msg_id m) \<and> i32_ok (seq_no m) \<and>
     4 \<le> length (body m) \<and> length (body m) mod 4 = 0 \<and> length (body m) < 2 ^ 31"

lemma sint_i64 [simp]: "i64_ok x \<Longrightarrow> sint (word_of_int x :: i64) = x"
  by (simp add: i64_ok_def sint_sbintrunc' signed_take_bit_int_eq_self)

lemma sint_i32 [simp]: "i32_ok x \<Longrightarrow> sint (word_of_int x :: i32) = x"
  by (simp add: i32_ok_def sint_sbintrunc' signed_take_bit_int_eq_self)

lemma sint_of_nat32: "n < 2 ^ 31 \<Longrightarrow> sint (of_nat n :: i32) = int n"
  using sint_i32[of "int n"] by (simp add: i32_ok_def)

lemma i64_roundtrip [simp]:
  "deserialize_i64 (at pre (serialize_i64 w @ rest) d) = (Inr w, at (pre @ serialize_i64 w) rest d)"
  "deserialize_i32 (at pre (serialize_i32 v @ rest) d) = (Inr v, at (pre @ serialize_i32 v) rest d)"
  "deserialize_u32 (at pre (serialize_u32 u @ rest) d) = (Inr u, at (pre @ serialize_u32 u) rest d)"
  using i64c.roundtrip i32c.roundtrip u32c.roundtrip by simp_all

interpretation messagec: codec serialize_message deserialize_message message_ok
proof
  fix m pre rest d
  assume ok: "message_ok m"
  then have l: "sint (of_nat (length (body m)) :: i32) = int (length (body m))"
    by (simp add: message_ok_def sint_of_nat32)
  show "deserialize_message (at pre (serialize_message m @ rest) d) = (Inr m, at (pre @ serialize_message m) rest d)"
    using ok l by (simp add: deserialize_message_def serialize_message_def message_ok_def Let_def)
qed

interpretation gzipc: codec serialize_gzip_packed deserialize_gzip_packed "\<lambda>bs. length bs < 2 ^ 24"
  by unfold_locales (simp add: serialize_gzip_packed_def deserialize_gzip_packed_def bytesc.roundtrip)

lemma length_serialize [simp]:
  "length (serialize_i64 w) = 8" "length (serialize_i32 v) = 4" "length (serialize_u32 u) = 4"
  by (simp_all add: serialize_i64_def serialize_i32_def serialize_u32_def)

lemma length_serialize_message [simp]: "length (serialize_message m) = 16 + length (body m)"
  by (simp add: serialize_message_def)

lemma from_slice_at: "from_slice bs = at [] bs 0"
  by (simp add: from_slice_def at_def)

text \<open>Reusing the allocation of the reply gives the same parts.\<close>

lemma from_owned_eq: "from_owned b = borrowed_parts b"
proof -
  have tail: "drop (length b - (length b - k)) b = drop k b" for k by (cases "k \<le> length b") simp_all
  have "\<exists>k. result = drop k b" if "borrowed_parts b = Inr (req, result)" for req result
    using that by (auto simp: borrowed_parts_def split: prod.splits sum.splits)
  then show ?thesis
    by (auto simp: from_owned_def Let_def tail split: sum.split)
qed

end
