(* ===== verification/Encrypted_Mtp.thy ===== *)
theory Encrypted_Mtp
  imports Manual_Tl Replay_Ids
begin

text \<open>
  The encrypted session of \<open>grammers-mtproto/src/mtp/encrypted.rs\<close>: what is written for the
  server (message identifiers, sequence numbers, salts, acknowledgements, containers, encryption)
  and how a packet from the server is taken apart. Identifiers, salts' dates and sequence numbers
  are integers; where the source computes at its width the wrap-around is written out.

  What comes from elsewhere is the record \<open>services\<close>: the cipher and hashes, gzip, and the
  serializers that the build generates from \<open>grammers-tl-types/tl/mtproto.tl\<close>. Constructor
  identifiers are those of that schema. Each operation takes the reading of the monotonic clock;
  an operation that asks the system clock takes one reading per call, as seconds and nanoseconds
  since the epoch.
\<close>

section \<open>Data\<close>

record future_salt =
  valid_since :: int
  valid_until :: int
  salt :: int

record future_salts =
  fs_req_msg_id :: int
  fs_now :: int
  fs_salts :: "future_salt list"

datatype bad_msg_notification =
    Notification (bad_msg_id: int) (bad_msg_seqno: int) (error_code: int)
  | BadServerSalt (bad_msg_id: int) (bad_msg_seqno: int) (error_code: int) (new_server_salt: int)

datatype msg_detailed_info =
    DetailedInfo int (answer_msg_id: int) int int
  | NewDetailedInfo (answer_msg_id: int) int int

record rpc_error =
  rpc_error_code :: int
  rpc_error_message :: bytes

datatype deserialized =
    OwnUpdate int bytes
  | PlainUpdate bytes
  | RpcResult int bytes
  | RpcError int rpc_error
  | BadMessage int int
  | Failure int deserialize_error

record decode_limits =
  gzip_output :: nat
  expanded_bytes :: nat
  limit_depth :: nat
  limit_work :: nat

definition default_limits :: decode_limits where
  "default_limits = \<lparr>gzip_output = 64 * 1024 * 1024, expanded_bytes = 128 * 1024 * 1024,
     limit_depth = 32, limit_work = 4096\<rparr>"

record services =
  aes_encrypt :: block_cipher
  aes_decrypt :: block_cipher
  sha1 :: "bytes \<Rightarrow> bytes"
  sha256 :: "bytes \<Rightarrow> bytes"
  deflate :: "bytes \<Rightarrow> bytes"
  inflate :: inflater
  get_future_salts :: "int \<Rightarrow> bytes"
  parse_msgs_ack :: "bytes \<Rightarrow> tl_error + int list"
  parse_bad_msg :: "bytes \<Rightarrow> tl_error + bad_msg_notification"
  parse_detailed_info :: "bytes \<Rightarrow> tl_error + msg_detailed_info"
  parse_future_salts :: "bytes \<Rightarrow> tl_error + future_salts"
  parse_pong :: "bytes \<Rightarrow> tl_error + int \<times> int"
  parse_new_session :: "bytes \<Rightarrow> tl_error + int \<times> int \<times> int"
  parse_rpc_error :: "bytes \<Rightarrow> tl_error + rpc_error"

record encrypted =
  history :: received
  decode_limits :: decode_limits
  enc_auth_key :: auth_key
  time_offset :: int
  salts :: "future_salt list"
  start_salt_time :: "(int \<times> instant) option"
  salt_request_msg_id :: "int option"
  salt_request_failures :: nat
  session_id :: int
  sequence :: int
  last_msg_id :: int
  pending_ack :: "int list"
  pending_ack_since :: "instant option"
  ack_flush_due :: bool
  request_deferred_by_ack :: bool
  ack_batch :: nat
  compression_threshold :: "nat option"
  deserialization :: "deserialized list"
  receive_updates :: bool
  msg_count :: nat

type_synonym buffer = "u8 deque_buffer"

text \<open>Seconds and nanoseconds since the epoch.\<close>
type_synonym system_time = "nat \<times> nat"

definition NUM_FUTURE_SALTS :: int where "NUM_FUTURE_SALTS = 64"
definition SALT_USE_DELAY :: int where "SALT_USE_DELAY = 60"
definition ACK_MAX_DELAY :: duration where "ACK_MAX_DELAY = 10000"

section \<open>Construction\<close>

record builder =
  bld_decode_limits :: decode_limits
  bld_time_offset :: int
  bld_first_salt :: int
  bld_compression_threshold :: "nat option"
  bld_receive_updates :: bool
  bld_ack_batch :: nat

definition build :: builder where
  "build = \<lparr>bld_decode_limits = default_limits, bld_time_offset = 0, bld_first_salt = 0,
     bld_compression_threshold = Some 512, bld_receive_updates = True, bld_ack_batch = 1\<rparr>"

definition builder_ack_batch :: "nat \<Rightarrow> builder \<Rightarrow> builder" where
  "builder_ack_batch count b = b\<lparr>bld_ack_batch := max count 1\<rparr>"

text \<open>One salt of unknown validity.\<close>

definition single_salt :: "int \<Rightarrow> future_salt list" where
  "single_salt s = [\<lparr>valid_since = 0, valid_until = i32_max, salt = s\<rparr>]"

definition finish_with_rng :: "services \<Rightarrow> builder \<Rightarrow> bytes \<Rightarrow> 'e + bytes \<Rightarrow> 'e + encrypted" where
  "finish_with_rng srv b key fill =
     (case fill of
        Inl e \<Rightarrow> Inl e
      | Inr session \<Rightarrow> Inr
          \<lparr>history = received_new, decode_limits = bld_decode_limits b,
           enc_auth_key = auth_key_from_bytes (sha1 srv) key,
           time_offset = bld_time_offset b, salts = single_salt (bld_first_salt b),
           start_salt_time = None, salt_request_msg_id = None, salt_request_failures = 0,
           session_id = sint (le_word64 session), sequence = 0, last_msg_id = 0,
           pending_ack = [], pending_ack_since = None, ack_flush_due = False,
           request_deferred_by_ack = False, ack_batch = bld_ack_batch b,
           compression_threshold = bld_compression_threshold b, deserialization = [],
           receive_updates = bld_receive_updates b, msg_count = 0\<rparr>)"

definition set_receive_updates :: "bool \<Rightarrow> encrypted \<Rightarrow> encrypted" where
  "set_receive_updates enabled e = e\<lparr>receive_updates := enabled\<rparr>"

definition set_decode_limits :: "decode_limits \<Rightarrow> encrypted \<Rightarrow> encrypted" where
  "set_decode_limits limits e = e\<lparr>decode_limits := limits\<rparr>"

definition set_ack_batch :: "nat \<Rightarrow> encrypted \<Rightarrow> encrypted" where
  "set_ack_batch count e = e\<lparr>ack_batch := max count 1\<rparr>"

section \<open>Identifiers and sequence numbers\<close>

definition saturating_add64 :: "int \<Rightarrow> int \<Rightarrow> int" where
  "saturating_add64 a b = max i64_min (min i64_max (a + b))"

definition wrap32 :: "int \<Rightarrow> int" where
  "wrap32 x = (x + 2 ^ 31) mod 2 ^ 32 - 2 ^ 31"

definition correct_time_offset :: "system_time \<Rightarrow> int \<Rightarrow> encrypted \<Rightarrow> encrypted" where
  "correct_time_offset t mid e =
     (let now = min (int (fst t)) i64_max;
          server_seconds = mid div 2 ^ 32
      in e\<lparr>time_offset := server_seconds - now,
           last_msg_id := if last_msg_id e div 2 ^ 32 > server_seconds + 3 then 0 else last_msg_id e\<rparr>)"

text \<open>
  The seconds are shifted left by 32 bits and the nanoseconds, less than \<open>2 ^ 30\<close>, by two: the two
  parts have no bit in common, and what is shifted out of the 64 bits is lost.
\<close>

definition clock_id :: "system_time \<Rightarrow> encrypted \<Rightarrow> int" where
  "clock_id t e =
     (let seconds = max 0 (saturating_add64 (min (int (fst t)) i64_max) (time_offset e))
      in wrap64 (seconds * 2 ^ 32 + int (snd t) * 4))"

definition get_new_msg_id :: "system_time \<Rightarrow> encrypted \<Rightarrow> int \<times> encrypted" where
  "get_new_msg_id t e =
     (let new_msg_id = (if last_msg_id e \<ge> clock_id t e then wrap64 (last_msg_id e + 4) else clock_id t e)
      in (new_msg_id, e\<lparr>last_msg_id := new_msg_id\<rparr>))"

definition get_seq_no :: "bool \<Rightarrow> encrypted \<Rightarrow> int \<times> encrypted" where
  "get_seq_no content_related e =
     (if content_related
      then let s = wrap32 (sequence e + 2) in (wrap32 (s - 1), e\<lparr>sequence := s\<rparr>)
      else (sequence e, e))"

section \<open>Writing messages\<close>

definition serialize_msg_header ::
    "system_time \<Rightarrow> encrypted \<Rightarrow> buffer \<Rightarrow> nat \<Rightarrow> bool \<Rightarrow> int \<times> encrypted \<times> buffer" where
  "serialize_msg_header t e buf body_len content_related =
     (let (mid, e1) = get_new_msg_id t e;
          b1 = deque_extend (serialize_i64 (word_of_int mid)) buf;
          (sq, e2) = get_seq_no content_related e1;
          b2 = deque_extend (serialize_i32 (word_of_int sq)) b1;
          b3 = deque_extend (serialize_i32 (of_nat body_len)) b2
      in (mid, e2\<lparr>msg_count := msg_count e2 + 1\<rparr>, b3))"

definition serialize_msg ::
    "system_time \<Rightarrow> encrypted \<Rightarrow> buffer \<Rightarrow> bytes \<Rightarrow> bool \<Rightarrow> int \<times> encrypted \<times> buffer" where
  "serialize_msg t e buf bs content_related =
     (case serialize_msg_header t e buf (length bs) content_related of
        (mid, e', buf') \<Rightarrow> (mid, e', deque_extend bs buf'))"

text \<open>The checked additions of the source only fail beyond the address space.\<close>

definition message_fits :: "encrypted \<Rightarrow> buffer \<Rightarrow> nat \<Rightarrow> bool" where
  "message_fits e buf body_len \<longleftrightarrow>
     msg_count e < MAXIMUM_LENGTH \<and> len buf + SIZE_OVERHEAD + body_len \<le> MAXIMUM_SIZE"

definition without_updates_prefix_len :: "bytes \<Rightarrow> bool \<Rightarrow> nat" where
  "without_updates_prefix_len request updates =
     (if updates then 0
      else let constructor = (case from_bytes deserialize_u32 request of Inl _ \<Rightarrow> 0 | Inr c \<Rightarrow> c)
           in if constructor \<in> {0x7abe77ec, 0xf3427b8c, 0xb921bd04, 0x58e4a740, 0xe7512126, 0xbf9459b7}
              then 0 else 4)"

definition request_fits :: "bytes \<Rightarrow> bool \<Rightarrow> bool" where
  "request_fits request updates \<longleftrightarrow>
     (let n = length request; limit = MAXIMUM_SIZE - SIZE_OVERHEAD
      in \<not> (n < 4 \<or> n mod 4 \<noteq> 0) \<and>
         (n \<le> limit - 4 \<or> n \<le> limit - without_updates_prefix_len request updates))"

section \<open>Acknowledgements\<close>

definition queue_ack :: "instant \<Rightarrow> int \<Rightarrow> encrypted \<Rightarrow> (deserialize_error + unit) \<times> encrypted" where
  "queue_ack now mid e =
     (if length (pending_ack e) \<ge> 65536 then (Inl (ResourceLimit ''pending acknowledgements''), e)
      else (Inr (),
        e\<lparr>pending_ack_since := if pending_ack e = [] then Some now else pending_ack_since e,
          pending_ack := pending_ack e @ [mid]\<rparr>))"

definition ack_due :: "instant \<Rightarrow> encrypted \<Rightarrow> bool" where
  "ack_due now e \<longleftrightarrow>
     (let count = length (pending_ack e)
      in count \<noteq> 0 \<and>
         (ack_flush_due e \<or> count \<ge> ack_batch e \<or>
          (case pending_ack_since e of None \<Rightarrow> True | Some since \<Rightarrow> now - since \<ge> ACK_MAX_DELAY)))"

definition msgs_ack_id :: u32 where "msgs_ack_id = 0x62d6b459"

definition serialize_pending_ack :: "system_time \<Rightarrow> encrypted \<Rightarrow> buffer \<Rightarrow> encrypted \<times> buffer" where
  "serialize_pending_ack t e buf =
     (let available = (MAXIMUM_SIZE - (len buf + SIZE_OVERHEAD + 12)) div 8;
          count = min (min (length (pending_ack e)) 8192) available
      in if count = 0 \<or> \<not> message_fits e buf (12 + count * 8) then (e, buf)
         else
           let (mid, e1, b1) = serialize_msg_header t e buf (12 + count * 8) False;
               b2 = deque_extend (serialize_u32 msgs_ack_id) b1;
               b3 = deque_extend (serialize_u32 0x1cb5c415) b2;
               b4 = deque_extend (serialize_i32 (of_nat count)) b3;
               b5 = fold (\<lambda>i. deque_extend (serialize_i64 (word_of_int i))) (take count (pending_ack e1)) b4;
               e2 = e1\<lparr>pending_ack := drop count (pending_ack e1)\<rparr>
           in (if pending_ack e2 = [] then e2\<lparr>pending_ack_since := None, ack_flush_due := False\<rparr> else e2, b5))"

definition service_deadline :: "encrypted \<Rightarrow> instant option" where
  "service_deadline e = map_option (\<lambda>since. since + ACK_MAX_DELAY) (pending_ack_since e)"

definition on_service_timeout :: "encrypted \<Rightarrow> encrypted" where
  "on_service_timeout e = e\<lparr>ack_flush_due := pending_ack e \<noteq> []\<rparr>"

section \<open>Salts\<close>

definition get_current_salt :: "encrypted \<Rightarrow> int" where
  "get_current_salt e = (if salts e = [] then 0 else salt (last (salts e)))"

definition try_request_salts :: "services \<Rightarrow> system_time \<Rightarrow> encrypted \<Rightarrow> buffer \<Rightarrow> encrypted \<times> buffer" where
  "try_request_salts srv t e buf =
     (if is_empty buf \<and> length (salts e) = 1 \<and> salt_request_msg_id e = None \<and>
         salt_request_failures e \<le> 3 \<and> get_current_salt e \<noteq> 0 \<and> message_fits e buf 8
      then case serialize_msg t e buf (get_future_salts srv NUM_FUTURE_SALTS) True of
             (mid, e', buf') \<Rightarrow> (e'\<lparr>salt_request_msg_id := Some mid\<rparr>, buf')
      else (e, buf))"

text \<open>The next salt replaces the current one a minute after it became valid.\<close>

definition advance_salt :: "instant \<Rightarrow> encrypted \<Rightarrow> encrypted" where
  "advance_salt now e =
     (case start_salt_time e of
        Some (start_secs, start_instant) \<Rightarrow>
          if length (salts e) > 1 \<and>
             start_secs + min (int ((now - start_instant) div 1000)) i32_max
               \<ge> valid_since (salts e ! (length (salts e) - 2)) + SALT_USE_DELAY
          then e\<lparr>salts := butlast (salts e)\<rparr> else e
      | None \<Rightarrow> e)"

section \<open>Pushing requests and finishing packets\<close>

definition without_updates_id :: u32 where "without_updates_id = 0xbf9459b7"

text \<open>The prefix and the body that are written for a request: compressed when that makes it smaller.\<close>

definition request_payload :: "services \<Rightarrow> encrypted \<Rightarrow> bytes \<Rightarrow> bytes \<times> bytes" where
  "request_payload srv e request =
     (let prefix = take (without_updates_prefix_len request (receive_updates e)) (serialize_u32 without_updates_id);
          compressed = serialize_gzip_packed (new_prefixed (deflate srv) prefix request)
      in if (case compression_threshold e of None \<Rightarrow> False | Some threshold \<Rightarrow> length prefix + length request \<ge> threshold)
            \<and> length compressed < length prefix + length request
         then ([], compressed) else (prefix, request))"

definition push_request ::
    "services \<Rightarrow> system_time \<Rightarrow> bool \<Rightarrow> encrypted \<Rightarrow> buffer \<Rightarrow> bytes \<Rightarrow> int option \<times> encrypted \<times> buffer" where
  "push_request srv t wrote_ack e buf request =
     (let deferred = e\<lparr>request_deferred_by_ack := request_deferred_by_ack e \<or> wrote_ack\<rparr>;
          (prefix, bd) = request_payload srv e request
      in if msg_count e = MAXIMUM_LENGTH then (None, deferred, buf)
         else if \<not> message_fits e buf (length prefix + length bd) then (None, deferred, buf)
         else case serialize_msg_header t e buf (length prefix + length bd) True of
           (mid, e', buf') \<Rightarrow>
             (Some mid, e'\<lparr>request_deferred_by_ack := False\<rparr>, deque_extend bd (deque_extend prefix buf')))"

definition push ::
    "services \<Rightarrow> instant \<Rightarrow> system_time \<Rightarrow> system_time \<Rightarrow> encrypted \<Rightarrow> buffer \<Rightarrow> bytes \<Rightarrow>
     int option \<times> encrypted \<times> buffer" where
  "push srv now t1 t2 e buf request =
     (if \<not> request_fits request (receive_updates e) then (None, e, buf)
      else
        let e1 = advance_salt now e;
            requesting_salt = (salt_request_msg_id e1 \<noteq> None);
            (e2, b2) = try_request_salts srv t1 e1 buf
        in if \<not> requesting_salt \<and> salt_request_msg_id e2 \<noteq> None then (None, e2, b2)
           else
             let (e3, b3) = (if \<not> request_deferred_by_ack e2 \<and> ack_due now e2
                             then serialize_pending_ack t1 e2 b2 else (e2, b2))
             in push_request srv t2 (msg_count e3 \<noteq> msg_count e2) e3 b3 request)"

definition finalize_plain :: "system_time \<Rightarrow> encrypted \<Rightarrow> buffer \<Rightarrow> encrypted \<times> buffer" where
  "finalize_plain t e buf =
     (if msg_count e = 0 then (e, buf)
      else
        let (e1, b1) =
              (if msg_count e \<noteq> 1 then
                 let (mid, ea) = get_new_msg_id t e;
                     (sq, eb) = get_seq_no False ea
                 in (eb, extend_front 0
                       (serialize_i64 (word_of_int mid) @ serialize_i32 (word_of_int sq) @
                        serialize_i32 (of_nat (len buf + 8)) @
                        serialize_u32 container_id @ serialize_i32 (of_nat (msg_count eb))) buf)
               else (e, buf));
            b2 = extend_front 0
                   (serialize_i64 (word_of_int (get_current_salt e1)) @ serialize_i64 (word_of_int (session_id e1))) b1
        in (e1\<lparr>msg_count := 0\<rparr>, b2))"

definition finalize_acks :: "instant \<Rightarrow> system_time \<Rightarrow> encrypted \<Rightarrow> buffer \<Rightarrow> encrypted \<times> buffer" where
  "finalize_acks now t e buf =
     (let salt_only = (msg_count e = 1 \<and> salt_request_msg_id e = Some (last_msg_id e))
      in if \<not> salt_only \<and> ack_due now e \<and>
            (ack_flush_due e \<or> \<not> is_empty buf \<or> length (pending_ack e) \<ge> 8192 \<or>
             (case pending_ack_since e of None \<Rightarrow> False | Some since \<Rightarrow> now - since \<ge> ACK_MAX_DELAY))
         then serialize_pending_ack t e buf else (e, buf))"

text \<open>\<open>None\<close> is a panic of the encryption.\<close>

definition finalize ::
    "services \<Rightarrow> instant \<Rightarrow> system_time \<Rightarrow> system_time \<Rightarrow> bytes \<Rightarrow> encrypted \<Rightarrow> buffer \<Rightarrow>
     (int option \<times> encrypted \<times> buffer) option" where
  "finalize srv now t1 t2 random_padding e buf =
     (let (e1, b1) = finalize_acks now t1 e buf;
          (e2, b2) = finalize_plain t2 e1 b1
      in if is_empty b2 then Some (None, e2, b2)
         else case do_encrypt_data_v2 (aes_encrypt srv) (sha256 srv) b2 (enc_auth_key e2) random_padding of
                None \<Rightarrow> None
              | Some b3 \<Rightarrow> Some (Some (last_msg_id e2), e2, b3))"

end
