(* ===== verification/Encrypted_Receive.thy ===== *)
theory Encrypted_Receive
  imports Encrypted_Mtp
begin

text \<open>
  The receiving half of \<open>grammers-mtproto/src/mtp/encrypted.rs\<close>: decryption, the envelope, the
  budget of a packet, and one definition per handler of a service message. A handler returns its
  result with the session as it leaves it, since the source keeps the changes made before an
  error. \<open>process_bounded\<close> and \<open>handle_container\<close> call each other, but a container inside a
  container is refused: the handler of containers is an argument of the shared body.
\<close>

section \<open>The budget of a packet\<close>

record budget =
  authenticated :: bool
  replay_floor :: int
  pending_received :: "int list option"
  limits :: decode_limits
  remaining :: nat
  work :: nat

definition budget_new :: "decode_limits \<Rightarrow> budget" where
  "budget_new l = \<lparr>authenticated = False, replay_floor = 0, pending_received = None, limits = l,
     remaining = expanded_bytes l, work = limit_work l\<rparr>"

definition visit :: "nat \<Rightarrow> budget \<Rightarrow> deserialize_error + budget" where
  "visit depth b =
     (if depth > limit_depth (limits b) \<or> work b = 0
      then Inl (ResourceLimit ''wrapper depth or message work'')
      else Inr (b\<lparr>work := work b - 1\<rparr>))"

definition decompress :: "services \<Rightarrow> bytes \<Rightarrow> nat \<Rightarrow> budget \<Rightarrow> (deserialize_error + bytes) \<times> budget" where
  "decompress srv bs depth b =
     (if depth > limit_depth (limits b) then (Inl (ResourceLimit ''wrapper depth''), b)
      else
        let limit = min (gzip_output (limits b)) (remaining b) in
        case decompress_from_bytes_limited (inflate srv) bs limit of
          Inl e \<Rightarrow> (Inl e, b\<lparr>remaining := remaining b - limit\<rparr>)
        | Inr out \<Rightarrow> (Inr out, b\<lparr>remaining := remaining b - length out\<rparr>))"

lemma visit_work: "visit depth b = Inr b' \<Longrightarrow> b' = b\<lparr>work := work b - 1\<rparr> \<and> 0 < work b"
  by (auto simp: visit_def split: if_splits)

lemma decompress_keeps:
  "decompress srv bs depth b = (res, b') \<Longrightarrow> \<exists>r. b' = b\<lparr>remaining := r\<rparr> \<and> r \<le> remaining b"
  by (auto simp: decompress_def Let_def split: if_splits sum.splits)
     (metis budget.surjective budget.update_convs(5) le_refl)

text \<open>The loop that replaces a compressed body by its contents; every round costs one unit of work.\<close>

function unwrap_gzip ::
    "services \<Rightarrow> message \<Rightarrow> budget \<Rightarrow> nat \<Rightarrow> (deserialize_error + message \<times> nat) \<times> budget" where
  "unwrap_gzip srv m b depth =
     (case visit depth b of
        Inl e \<Rightarrow> (Inl e, b)
      | Inr b1 \<Rightarrow>
          case constructor_id m of
            Inl e \<Rightarrow> (Inl (from_tl_error e), b1)
          | Inr cid \<Rightarrow>
              if cid \<noteq> gzip_packed_id then (Inr (m, depth), b1)
              else case decompress srv (body m) (depth + 1) b1 of
                     (Inl e, b2) \<Rightarrow> (Inl e, b2)
                   | (Inr bd, b2) \<Rightarrow> unwrap_gzip srv (m\<lparr>body := bd\<rparr>) b2 (depth + 1))"
  by pat_completeness auto
termination
  by (relation "measure (\<lambda>(srv, m, b, depth). work b)") (auto dest!: visit_work decompress_keeps[OF sym])

declare unwrap_gzip.simps [simp del]

text \<open>The same for the result of a call, until it is not compressed any more or fails.\<close>

function unwrap_result ::
    "services \<Rightarrow> bytes \<Rightarrow> budget \<Rightarrow> nat \<Rightarrow> (deserialize_error + bytes) \<times> budget" where
  "unwrap_result srv result b depth =
     (if from_bytes deserialize_u32 result \<noteq> Inr gzip_packed_id then (Inr result, b)
      else case visit (depth + 1) b of
        Inl e \<Rightarrow> (Inl e, b)
      | Inr b1 \<Rightarrow>
          case decompress srv result (depth + 1) b1 of
            (Inl e, b2) \<Rightarrow> (Inl e, b2)
          | (Inr bd, b2) \<Rightarrow> unwrap_result srv bd b2 (depth + 1))"
  by pat_completeness auto
termination
  by (relation "measure (\<lambda>(srv, result, b, depth). work b)") (auto dest!: visit_work decompress_keeps[OF sym])

declare unwrap_result.simps [simp del]

section \<open>Service messages\<close>

type_synonym handled = "(deserialize_error + unit) \<times> encrypted"

definition emit :: "deserialized \<Rightarrow> encrypted \<Rightarrow> encrypted" where
  "emit d e = e\<lparr>deserialization := deserialization e @ [d]\<rparr>"

definition fail_salt_request :: "int \<Rightarrow> encrypted \<Rightarrow> bool \<times> encrypted" where
  "fail_salt_request mid e =
     (if salt_request_msg_id e \<noteq> Some mid then (False, e)
      else (True, e\<lparr>salt_request_msg_id := None,
                    salt_request_failures := min 255 (salt_request_failures e + 1)\<rparr>))"

text \<open>An error of a call is given to its caller, unless the call was the internal request for salts.\<close>

definition fail_call :: "int \<Rightarrow> deserialize_error \<Rightarrow> encrypted \<Rightarrow> handled" where
  "fail_call mid err e =
     (case fail_salt_request mid e of
        (True, e') \<Rightarrow> (Inr (), e')
      | (False, e') \<Rightarrow> (Inr (), emit (Failure mid err) e'))"

definition update_ids :: "u32 set" where
  "update_ids = {0x313bc7f8, 0x4d6deea5, 0x78d4dec1, 0x725b04c3, 0x74ae4240, 0x9015e101,
     0x84d19185, 0x7f5defa6, 0x445663a7}"

definition store_own_updates :: "int \<Rightarrow> bytes \<Rightarrow> encrypted \<Rightarrow> encrypted" where
  "store_own_updates mid bs e =
     (if \<not> receive_updates e then e
      else case from_bytes deserialize_u32 bs of
             Inl _ \<Rightarrow> e
           | Inr body_id \<Rightarrow> if body_id \<in> update_ids then emit (OwnUpdate mid bs) e else e)"

definition valid_salts :: "future_salts \<Rightarrow> bool" where
  "valid_salts fs \<longleftrightarrow> int (length (fs_salts fs)) \<le> NUM_FUTURE_SALTS \<and>
     list_all (\<lambda>s. valid_since s < valid_until s) (fs_salts fs)"

definition handle_future_salts :: "services \<Rightarrow> instant \<Rightarrow> message \<Rightarrow> bool \<Rightarrow> encrypted \<Rightarrow> handled" where
  "handle_future_salts srv now m apply_service_state e =
     (case parse_future_salts srv (body m) of
        Inl err \<Rightarrow> (Inl (from_tl_error err), e)
      | Inr fs \<Rightarrow>
          if \<not> valid_salts fs then (Inl (InvalidEnvelope ''invalid future salts''), e)
          else
            let is_internal = (salt_request_msg_id e = Some (fs_req_msg_id fs));
                e1 = (if is_internal then e\<lparr>salt_request_msg_id := None\<rparr>
                      else emit (RpcResult (fs_req_msg_id fs) (body m)) e)
            in if \<not> apply_service_state \<or> fs_salts fs = []
               then (Inr (), if is_internal
                             then e1\<lparr>salt_request_failures := min 255 (salt_request_failures e1 + 1)\<rparr> else e1)
               else (Inr (), e1\<lparr>start_salt_time := Some (fs_now fs, now), salt_request_failures := 0,
                                salts := sort_key (\<lambda>s. - valid_since s) (fs_salts fs)\<rparr>))"

definition future_salts_id :: u32 where "future_salts_id = 0xae500895"
definition rpc_error_id :: u32 where "rpc_error_id = 0x2144ca19"

text \<open>The result of a call once it is decompressed and its constructor is known.\<close>

definition conclude_result ::
    "services \<Rightarrow> instant \<Rightarrow> message \<Rightarrow> int \<Rightarrow> bytes \<Rightarrow> u32 \<Rightarrow> bool \<Rightarrow> encrypted \<Rightarrow> handled" where
  "conclude_result srv now m mid result inner emit_own_updates e =
     (if salt_request_msg_id e = Some mid then
        if inner = future_salts_id \<and>
           (case parse_future_salts srv result of
              Inl _ \<Rightarrow> False
            | Inr fs \<Rightarrow> fs_req_msg_id fs = mid \<and> valid_salts fs)
        then handle_future_salts srv now (m\<lparr>body := result\<rparr>) emit_own_updates e
        else (Inr (), snd (fail_salt_request mid e))
      else if inner = rpc_error_id then
        (case parse_rpc_error srv result of
           Inr err \<Rightarrow> (Inr (), emit (RpcError mid err) e)
         | Inl err \<Rightarrow> (Inr (), emit (Failure mid (from_tl_error err)) e))
      else (Inr (), emit (RpcResult mid result)
                      (if emit_own_updates then store_own_updates mid result e else e)))"

definition handle_rpc_result ::
    "services \<Rightarrow> instant \<Rightarrow> message \<Rightarrow> budget \<Rightarrow> nat \<Rightarrow> bool \<Rightarrow> encrypted \<Rightarrow>
     (deserialize_error + unit) \<times> encrypted \<times> budget" where
  "handle_rpc_result srv now m b depth emit_own_updates e =
     (case borrowed_parts (body m) of
        Inl err \<Rightarrow> (Inl (from_tl_error err), e, b)
      | Inr (mid, result) \<Rightarrow>
          case unwrap_result srv result b depth of
            (Inl err, b1) \<Rightarrow> (case fail_call mid err e of (r, e1) \<Rightarrow> (r, e1, b1))
          | (Inr result1, b1) \<Rightarrow>
              (case (case from_bytes deserialize_u32 result1 of
                       Inl err \<Rightarrow> fail_call mid (from_tl_error err) e
                     | Inr inner \<Rightarrow> conclude_result srv now m mid result1 inner emit_own_updates e) of
                 (r, e1) \<Rightarrow> (r, e1, b1)))"

definition handle_ack :: "services \<Rightarrow> message \<Rightarrow> encrypted \<Rightarrow> handled" where
  "handle_ack srv m e =
     (case parse_msgs_ack srv (body m) of Inl err \<Rightarrow> (Inl (from_tl_error err), e) | Inr _ \<Rightarrow> (Inr (), e))"

definition handle_bad_notification ::
    "services \<Rightarrow> system_time \<Rightarrow> message \<Rightarrow> bool \<Rightarrow> encrypted \<Rightarrow> handled" where
  "handle_bad_notification srv t m apply_service_state e =
     (case parse_bad_msg srv (body m) of
        Inl err \<Rightarrow> (Inl (from_tl_error err), e)
      | Inr bad \<Rightarrow>
          let e1 = (case fail_salt_request (bad_msg_id bad) e of
                      (True, e') \<Rightarrow> e'
                    | (False, e') \<Rightarrow> emit (BadMessage (bad_msg_id bad) (error_code bad)) e')
          in if \<not> apply_service_state then (Inr (), e1)
             else case bad of
               BadServerSalt _ _ _ new_salt \<Rightarrow>
                 (Inr (), e1\<lparr>salts := single_salt new_salt, salt_request_msg_id := None\<rparr>)
             | Notification _ _ code \<Rightarrow>
                 if code = 16 \<or> code = 17 then (Inr (), correct_time_offset t (msg_id m) e1)
                 else if code = 32 then
                   if sequence e1 + 64 > i32_max then (Inl (InvalidEnvelope ''sequence overflow''), e1)
                   else (Inr (), e1\<lparr>sequence := sequence e1 + 64\<rparr>)
                 else if code = 33 then (Inr (), e1\<lparr>sequence := max 0 (i32_saturating_sub (sequence e1) 16)\<rparr>)
                 else (Inr (), e1))"

definition handle_detailed_info :: "services \<Rightarrow> instant \<Rightarrow> message \<Rightarrow> encrypted \<Rightarrow> handled" where
  "handle_detailed_info srv now m e =
     (case parse_detailed_info srv (body m) of
        Inl err \<Rightarrow> (Inl (from_tl_error err), e)
      | Inr info \<Rightarrow> queue_ack now (answer_msg_id info) e)"

definition handle_future_salt :: "encrypted \<Rightarrow> handled" where
  "handle_future_salt e = (Inl (InvalidEnvelope ''unsolicited future_salt''), e)"

definition handle_pong :: "services \<Rightarrow> message \<Rightarrow> encrypted \<Rightarrow> handled" where
  "handle_pong srv m e =
     (case parse_pong srv (body m) of
        Inl err \<Rightarrow> (Inl (from_tl_error err), e)
      | Inr (mid, _) \<Rightarrow> (Inr (), emit (RpcResult mid (body m)) e))"

definition handle_new_session_created :: "services \<Rightarrow> message \<Rightarrow> encrypted \<Rightarrow> handled" where
  "handle_new_session_created srv m e =
     (case parse_new_session srv (body m) of
        Inl err \<Rightarrow> (Inl (from_tl_error err), e)
      | Inr (_, _, server_salt) \<Rightarrow> (Inr (), e\<lparr>salts := single_salt server_salt\<rparr>))"

definition handle_msg_copy :: "encrypted \<Rightarrow> handled" where
  "handle_msg_copy e = (Inl (InvalidEnvelope ''unsupported msg_copy''), e)"

text \<open>Status requests, status information, resend requests, session destruction and HTTP waits are ignored.\<close>

definition handle_ignored :: "encrypted \<Rightarrow> handled" where
  "handle_ignored e = (Inr (), e)"

definition handle_update :: "message \<Rightarrow> encrypted \<Rightarrow> handled" where
  "handle_update m e = (Inr (), if receive_updates e then emit (PlainUpdate (body m)) e else e)"

section \<open>Processing a message\<close>

type_synonym outcome = "(deserialize_error + unit) \<times> encrypted \<times> budget"

definition with_budget :: "budget \<Rightarrow> handled \<Rightarrow> outcome" where
  "with_budget b h = (fst h, snd h, b)"

definition pong_id :: u32 where "pong_id = 0x347773c5"
definition bad_msg_ids :: "u32 set" where "bad_msg_ids = {0xa7eff811, 0xedab447b}"

definition ignored_ids :: "u32 set" where
  "ignored_ids = {0xda69fb52, 0x04deb57d, 0x8cc0d131, 0x7d861a08, 0x8610baeb, 0xe22045fc, 0x62d350c9, 0x9299359f}"

text \<open>The constructors whose handlers still run for a message older than the replay history.\<close>

definition handled_when_stale :: "u32 \<Rightarrow> bool" where
  "handled_when_stale cid \<longleftrightarrow>
     cid \<in> {rpc_result_id, container_id, pong_id, future_salts_id} \<union> bad_msg_ids"

definition dispatch ::
    "(message \<Rightarrow> budget \<Rightarrow> nat \<Rightarrow> encrypted \<Rightarrow> outcome) \<Rightarrow> services \<Rightarrow> instant \<Rightarrow> system_time \<Rightarrow>
     u32 \<Rightarrow> bool \<Rightarrow> bool \<Rightarrow> message \<Rightarrow> budget \<Rightarrow> nat \<Rightarrow> encrypted \<Rightarrow> outcome" where
  "dispatch container srv now t cid stale in_container m b depth e =
     (if cid = rpc_result_id then handle_rpc_result srv now m b depth (\<not> stale) e
      else if cid = msgs_ack_id then with_budget b (handle_ack srv m e)
      else if cid \<in> bad_msg_ids then with_budget b (handle_bad_notification srv t m (\<not> stale) e)
      else if cid \<in> ignored_ids then with_budget b (handle_ignored e)
      else if cid = 0x276d3ec6 \<or> cid = 0x809db6df then with_budget b (handle_detailed_info srv now m e)
      else if cid = 0x0949d9dc then with_budget b (handle_future_salt e)
      else if cid = future_salts_id then with_budget b (handle_future_salts srv now m (\<not> stale) e)
      else if cid = pong_id then with_budget b (handle_pong srv m e)
      else if cid = 0x9ec20908 then with_budget b (handle_new_session_created srv m e)
      else if cid = container_id then
        if in_container then (Inl (InvalidEnvelope ''nested simple container''), e, b)
        else container m b depth e
      else if cid = msg_copy_id then with_budget b (handle_msg_copy e)
      else with_budget b (handle_update m e))"

definition invalid_header :: "message \<Rightarrow> bool" where
  "invalid_header m \<longleftrightarrow> msg_id m \<le> 0 \<or> msg_id m mod 2 \<noteq> 1 \<or> seq_no m < 0"

definition pending_has :: "budget \<Rightarrow> int \<Rightarrow> bool" where
  "pending_has b mid \<longleftrightarrow>
     (case pending_received b of
        None \<Rightarrow> False
      | Some seen \<Rightarrow> (case binary_search_by_key (\<lambda>x. x) mid seen of Inr _ \<Rightarrow> True | Inl _ \<Rightarrow> False))"

definition acknowledge :: "instant \<Rightarrow> message \<Rightarrow> encrypted \<Rightarrow> handled" where
  "acknowledge now m e = (if requires_ack m then queue_ack now (msg_id m) e else (Inr (), e))"

text \<open>A processed identifier is recorded, inside a container only when the whole packet is done.\<close>

definition record_received :: "int \<Rightarrow> encrypted \<Rightarrow> budget \<Rightarrow> encrypted \<times> budget" where
  "record_received mid e b =
     (case pending_received b of
        None \<Rightarrow> (e\<lparr>history := remember_received (history e) mid\<rparr>, b)
      | Some seen \<Rightarrow>
          (case binary_search_by_key (\<lambda>x. x) mid seen of
             Inl i \<Rightarrow> (e, b\<lparr>pending_received := Some (take i seen @ mid # drop i seen)\<rparr>)
           | Inr _ \<Rightarrow> (e, b)))"

definition process_with ::
    "(message \<Rightarrow> budget \<Rightarrow> nat \<Rightarrow> encrypted \<Rightarrow> outcome) \<Rightarrow> services \<Rightarrow> instant \<Rightarrow> system_time \<Rightarrow>
     message \<Rightarrow> budget \<Rightarrow> nat \<Rightarrow> bool \<Rightarrow> encrypted \<Rightarrow> outcome" where
  "process_with container srv now t m b depth in_container e =
     (if authenticated b \<and> \<not> in_container \<and> invalid_header m
      then (Inl (InvalidEnvelope ''invalid server message header''), e, b)
      else if authenticated b \<and> (contains (received_ids (history e)) (msg_id m) \<or> pending_has b (msg_id m))
      then with_budget b (acknowledge now m e)
      else
        let stale = (authenticated b \<and> msg_id m \<le> replay_floor b) in
        case unwrap_gzip srv m b depth of
          (Inl err, b1) \<Rightarrow> (Inl err, e, b1)
        | (Inr (m1, depth1), b1) \<Rightarrow>
            case acknowledge now m1 e of
              (Inl err, e1) \<Rightarrow> (Inl err, e1, b1)
            | (Inr _, e1) \<Rightarrow>
                case constructor_id m1 of
                  Inl err \<Rightarrow> (Inl (from_tl_error err), e1, b1)
                | Inr cid \<Rightarrow>
                    if stale \<and> \<not> handled_when_stale cid then (Inr (), e1, b1)
                    else case dispatch container srv now t cid stale in_container m1 b1 depth1 e1 of
                      (Inl err, e2, b2) \<Rightarrow> (Inl err, e2, b2)
                    | (Inr _, e2, b2) \<Rightarrow>
                        if authenticated b2 \<and> \<not> stale
                        then case record_received (msg_id m) e2 b2 of (e3, b3) \<Rightarrow> (Inr (), e3, b3)
                        else (Inr (), e2, b2))"

text \<open>The children of a container: containers are refused before their handler would be called.\<close>

definition process_child ::
    "services \<Rightarrow> instant \<Rightarrow> system_time \<Rightarrow> nat \<Rightarrow> message \<Rightarrow> budget \<Rightarrow> encrypted \<Rightarrow> outcome" where
  "process_child srv now t depth m b e =
     process_with (\<lambda>_ b' _ e'. (Inr (), e', b')) srv now t m b depth True e"

function process_children ::
    "(message \<Rightarrow> budget \<Rightarrow> encrypted \<Rightarrow> outcome) \<Rightarrow> message_iter \<Rightarrow> budget \<Rightarrow> encrypted \<Rightarrow> outcome" where
  "process_children child it b e =
     (case iter_next it of
        (None, _) \<Rightarrow> (Inr (), e, b)
      | (Some (Inl err), _) \<Rightarrow> (Inl (from_tl_error err), e, b)
      | (Some (Inr m), it') \<Rightarrow>
          (case child m b e of
             (Inl err, e', b') \<Rightarrow> (Inl err, e', b')
           | (Inr _, e', b') \<Rightarrow> process_children child it' b' e'))"
  by pat_completeness auto
termination
  by (relation "measure (\<lambda>(child, it, b, e). remaining_messages it)")
     (auto simp: iter_next_def split: if_splits prod.splits)

declare process_children.simps [simp del]

definition handle_container ::
    "services \<Rightarrow> instant \<Rightarrow> system_time \<Rightarrow> message \<Rightarrow> budget \<Rightarrow> nat \<Rightarrow> encrypted \<Rightarrow> outcome" where
  "handle_container srv now t m b depth e =
     (case borrowed_messages_validated (body m)
             (if authenticated b then Some (msg_id m, seq_no m) else None) of
        Inl err \<Rightarrow> (Inl err, e, b)
      | Inr it \<Rightarrow>
          process_children (process_child srv now t (depth + 1)) it
            (if authenticated b \<and> pending_received b = None then b\<lparr>pending_received := Some []\<rparr> else b) e)"

definition process_bounded ::
    "services \<Rightarrow> instant \<Rightarrow> system_time \<Rightarrow> message \<Rightarrow> budget \<Rightarrow> nat \<Rightarrow> encrypted \<Rightarrow> outcome" where
  "process_bounded srv now t m b depth e =
     process_with (handle_container srv now t) srv now t m b depth False e"

section \<open>Packets\<close>

definition process_plaintext ::
    "services \<Rightarrow> instant \<Rightarrow> system_time \<Rightarrow> bytes \<Rightarrow> encrypted \<Rightarrow>
     (deserialize_error + deserialized list) \<times> encrypted" where
  "process_plaintext srv now t plaintext e =
     (case and_then deserialize_i64 (\<lambda>_. deserialize_i64) (from_slice plaintext) of
        (Inl err, _) \<Rightarrow> (Inl (from_tl_error err), e)
      | (Inr session, c1) \<Rightarrow>
          if sint session \<noteq> session_id e then (Inl (InvalidEnvelope ''wrong session id''), e)
          else case deserialize_message c1 of
            (Inl err, _) \<Rightarrow> (Inl (from_tl_error err), e)
          | (Inr m, c2) \<Rightarrow>
              let padding = length plaintext - cpos c2 in
              if \<not> (12 \<le> padding \<and> padding \<le> 1024) then (Inl (InvalidEnvelope ''invalid encrypted padding''), e)
              else
                let b = (budget_new (decode_limits e))
                      \<lparr>authenticated := True, replay_floor := received_floor (history e)\<rparr> in
                case process_bounded srv now t m b 0 e of
                  (Inl err, e1, _) \<Rightarrow> (Inl err, e1\<lparr>deserialization := []\<rparr>)
                | (Inr _, e1, b1) \<Rightarrow>
                    let ids = (case pending_received b1 of None \<Rightarrow> [] | Some seen \<Rightarrow> seen);
                        e2 = e1\<lparr>history := fold (\<lambda>i h. remember_received h i) ids (history e1)\<rparr>
                    in (Inr (deserialization e2), e2\<lparr>deserialization := []\<rparr>))"

definition check_message_buffer :: "bytes \<Rightarrow> deserialize_error + unit" where
  "check_message_buffer bs = (if length bs < 20 then Inl MessageBufferTooSmall else Inr ())"

text \<open>The outer \<open>None\<close> is a panic of the decryption.\<close>

definition deserialize ::
    "services \<Rightarrow> instant \<Rightarrow> system_time \<Rightarrow> bytes \<Rightarrow> encrypted \<Rightarrow>
     ((deserialize_error + deserialized list) \<times> encrypted) option" where
  "deserialize srv now t payload e =
     (case check_message_buffer payload of
        Inl err \<Rightarrow> Some (Inl err, e)
      | Inr _ \<Rightarrow>
          case decrypt_data_v2 (aes_decrypt srv) (sha256 srv) payload (enc_auth_key e) of
            None \<Rightarrow> None
          | Some (Inl err) \<Rightarrow> Some (Inl (DecryptionError err), e)
          | Some (Inr plaintext) \<Rightarrow> Some (process_plaintext srv now t plaintext e))"

end
