(* ===== verification/Encrypted_Effects.thy ===== *)
theory Encrypted_Effects
  imports Encrypted_Receive
begin

text \<open>
  What handling a message may do to the session. \<open>effect\<close> bounds one step: the history and the
  identity of the session stay, a bounded number of results is appended, and a quiet step (one for
  a message older than the replay history) emits no updates and leaves salts, clock and sequence
  alone. The lemmas follow the structure of the source: each handler, one message, the children of
  a container, a packet.
\<close>

section \<open>Effects\<close>

fun is_update :: "deserialized \<Rightarrow> bool" where
  "is_update (OwnUpdate _ _) = True"
| "is_update (PlainUpdate _) = True"
| "is_update _ = False"

text \<open>The state that only fresh messages may change.\<close>

definition service :: "encrypted \<Rightarrow> future_salt list \<times> (int \<times> instant) option \<times> int \<times> int \<times> int" where
  "service e = (salts e, start_salt_time e, time_offset e, sequence e, last_msg_id e)"

definition effect :: "bool \<Rightarrow> nat \<Rightarrow> encrypted \<Rightarrow> encrypted \<Rightarrow> bool" where
  "effect quiet k e e' \<longleftrightarrow>
     history e' = history e \<and> session_id e' = session_id e \<and> decode_limits e' = decode_limits e \<and>
     enc_auth_key e' = enc_auth_key e \<and>
     (\<exists>new. deserialization e' = deserialization e @ new \<and> length new \<le> k \<and>
        (quiet \<longrightarrow> list_all (\<lambda>d. \<not> is_update d) new)) \<and>
     (quiet \<longrightarrow> service e' = service e) \<and>
     (length (pending_ack e) \<le> 65536 \<longrightarrow> length (pending_ack e') \<le> 65536)"

lemma effect_refl [simp]: "effect q k e e"
  by (simp add: effect_def)

lemma effect_trans: "effect q k e e1 \<Longrightarrow> effect q l e1 e2 \<Longrightarrow> effect q (k + l) e e2"
  unfolding effect_def by (elim conjE exE, intro conjI) (auto simp: add_mono)

lemma effect_mono: "effect q k e e' \<Longrightarrow> k \<le> l \<Longrightarrow> effect q l e e'"
  by (auto simp: effect_def)

lemma effect_silent:
  "history e' = history e \<Longrightarrow> session_id e' = session_id e \<Longrightarrow> decode_limits e' = decode_limits e \<Longrightarrow>
   deserialization e' = deserialization e \<Longrightarrow> (q \<Longrightarrow> service e' = service e) \<Longrightarrow>
   pending_ack e' = pending_ack e \<Longrightarrow> enc_auth_key e' = enc_auth_key e \<Longrightarrow> effect q k e e'"
  by (simp add: effect_def)

lemma effect_emit: "(q \<Longrightarrow> \<not> is_update d) \<Longrightarrow> 1 \<le> k \<Longrightarrow> effect q k e (emit d e)"
  by (simp add: effect_def emit_def service_def)

lemma effect_ack: "effect q k e (snd (queue_ack now mid e))"
  by (simp add: effect_def queue_ack_def service_def)

lemma effect_acknowledge: "acknowledge now m e = (r, e') \<Longrightarrow> effect q 0 e e'"
  using effect_ack[of q 0 e now "msg_id m"] by (auto simp: acknowledge_def split: if_splits)

definition budget_effect :: "budget \<Rightarrow> budget \<Rightarrow> bool" where
  "budget_effect b b' \<longleftrightarrow> authenticated b' = authenticated b \<and> replay_floor b' = replay_floor b \<and>
     pending_received b' = pending_received b \<and> limits b' = limits b \<and> work b' \<le> work b \<and> remaining b' \<le> remaining b"

lemma budget_effect_refl [simp]: "budget_effect b b"
  by (simp add: budget_effect_def)

lemma budget_effect_trans: "budget_effect b b1 \<Longrightarrow> budget_effect b1 b2 \<Longrightarrow> budget_effect b b2"
  by (simp add: budget_effect_def)

section \<open>Decompression\<close>

text \<open>No subtraction from the remaining bytes goes below zero, and a result is paid in full.\<close>

lemma gzip_decode_limit: "gzip_decode f p limit = Inr out \<Longrightarrow> length out \<le> limit"
  by (auto simp: gzip_decode_def split: prod.splits if_splits option.splits)

lemma decompress_limit: "decompress_from_bytes_limited f bs limit = Inr out \<Longrightarrow> length out \<le> limit"
  by (auto simp: decompress_from_bytes_limited_def split: prod.splits sum.splits if_splits dest: gzip_decode_limit)

lemma decompress_effect: "decompress srv bs depth b = (r, b') \<Longrightarrow> budget_effect b b' \<and> work b' = work b"
  by (auto simp: decompress_def Let_def budget_effect_def split: if_splits sum.splits)

lemma unwrap_gzip_effect:
  "unwrap_gzip srv m b depth = (r, b') \<Longrightarrow>
   budget_effect b b' \<and> (\<forall>m' d'. r = Inr (m', d') \<longrightarrow> work b' < work b \<and> (\<exists>bd. m' = m\<lparr>body := bd\<rparr>) \<and>
     (\<forall>cid. constructor_id m' = Inr cid \<longrightarrow> cid \<noteq> gzip_packed_id))"
proof (induction srv m b depth arbitrary: r b' rule: unwrap_gzip.induct)
  case (1 srv m b depth)
  show ?case
  proof (cases "visit depth b")
    case (Inl e)
    with "1.prems" show ?thesis by (subst (asm) unwrap_gzip.simps) auto
  next
    case (Inr b1)
    then have b1: "budget_effect b b1" "work b1 < work b" using visit_work[OF Inr] by (auto simp: budget_effect_def)
    show ?thesis
    proof (cases "\<exists>b2 bd. constructor_id m = Inr gzip_packed_id \<and> decompress srv (body m) (depth + 1) b1 = (Inr bd, b2)")
      case True
      then obtain b2 bd where c: "constructor_id m = Inr gzip_packed_id" and d: "decompress srv (body m) (depth + 1) b1 = (Inr bd, b2)" by blast
      have "unwrap_gzip srv (m\<lparr>body := bd\<rparr>) b2 (depth + 1) = (r, b')"
        using "1.prems" Inr c d by (subst (asm) unwrap_gzip.simps) simp
      from "1.IH"[OF Inr c _ d[symmetric] _ this] show ?thesis
        using b1 decompress_effect[OF d] by (auto intro: budget_effect_trans)
    next
      case False
      with "1.prems" Inr b1 show ?thesis
        by (subst (asm) unwrap_gzip.simps)
          (auto split: sum.splits if_splits prod.splits dest!: decompress_effect intro: budget_effect_trans intro!: exI[of _ "body m"])
    qed
  qed
qed

lemma unwrap_result_effect: "unwrap_result srv result b depth = (r, b') \<Longrightarrow> budget_effect b b'"
proof (induction srv result b depth arbitrary: r b' rule: unwrap_result.induct)
  case (1 srv result b depth)
  show ?case
  proof (cases "\<exists>b1 b2 bd. from_bytes deserialize_u32 result = Inr gzip_packed_id \<and> visit (depth + 1) b = Inr b1 \<and>
      decompress srv result (depth + 1) b1 = (Inr bd, b2)")
    case True
    then obtain b1 b2 bd where c: "from_bytes deserialize_u32 result = Inr gzip_packed_id" "visit (depth + 1) b = Inr b1"
      and d: "decompress srv result (depth + 1) b1 = (Inr bd, b2)" by blast
    have "unwrap_result srv bd b2 (depth + 1) = (r, b')"
      using "1.prems" c d by (subst (asm) unwrap_result.simps) simp
    from "1.IH"[OF _ c(2) d[symmetric] _ this] show ?thesis
      using c visit_work[OF c(2)] decompress_effect[OF d] by (auto simp: budget_effect_def)
  next
    case False
    with "1.prems" show ?thesis
      by (subst (asm) unwrap_result.simps)
        (auto split: sum.splits if_splits prod.splits dest!: decompress_effect visit_work simp: budget_effect_def)
  qed
qed

section \<open>Handlers\<close>

lemma fail_salt_request_effect: "effect q k e (snd (fail_salt_request mid e))"
  by (rule effect_silent) (simp_all add: fail_salt_request_def service_def)

lemma fail_call_effect: "fail_call mid err e = (r, e') \<Longrightarrow> effect q 1 e e'"
  by (auto simp: fail_call_def fail_salt_request_def effect_def emit_def service_def split: if_splits)

lemma future_salts_effect: "handle_future_salts srv now m ap e = (r, e') \<Longrightarrow> effect (\<not> ap) 1 e e'"
  by (auto simp: handle_future_salts_def Let_def effect_def emit_def service_def split: sum.splits if_splits)

lemma own_updates_effect: "effect False 1 e (store_own_updates mid bs e)"
  by (simp add: store_own_updates_def effect_emit split: sum.split)

lemma conclude_effect:
  assumes "conclude_result srv now m mid result inner own e = (r, e')"
  shows "effect (\<not> own) 2 e e'"
proof -
  have "effect (\<not> own) 1 e (if own then store_own_updates mid result e else e)"
    using own_updates_effect by simp
  then have "effect (\<not> own) (1 + 1) e (emit (RpcResult mid result) (if own then store_own_updates mid result e else e))"
    by (rule effect_trans) (simp add: effect_emit)
  then show ?thesis
    using assms future_salts_effect[of srv now "m\<lparr>body := result\<rparr>" own e] fail_salt_request_effect
    by (auto simp: conclude_result_def numeral_2_eq_2 effect_emit split: if_splits sum.splits intro: effect_mono)
qed

lemma rpc_result_effect:
  assumes "handle_rpc_result srv now m b depth own e = (r, e', b')"
  shows "effect (\<not> own) 2 e e'" "budget_effect b b'"
proof -
  note defs = handle_rpc_result_def
  show "effect (\<not> own) 2 e e'"
    using assms by (auto simp: defs split: sum.splits prod.splits
        dest!: fail_call_effect[where q = "\<not> own"] conclude_effect intro: effect_mono)
  show "budget_effect b b'"
    using assms by (auto simp: defs split: sum.splits prod.splits dest: unwrap_result_effect)
qed

lemma bad_notification_effect: "handle_bad_notification srv t m ap e = (r, e') \<Longrightarrow> effect (\<not> ap) 1 e e'"
  by (auto simp: handle_bad_notification_def Let_def fail_salt_request_def correct_time_offset_def effect_def emit_def
      service_def split: sum.splits if_splits bad_msg_notification.splits)

text \<open>Every constructor but the container's; a message older than the history is handled quietly.\<close>

lemma dispatch_effect:
  assumes d: "dispatch container srv now t cid stale in_container m b depth e = (r, e', b')"
    and leaf: "cid \<noteq> container_id \<or> in_container" and q: "stale \<Longrightarrow> handled_when_stale cid"
  shows "effect stale 2 e e'" "budget_effect b b'"
proof -
  have quiet: "\<not> stale" if "cid \<notin> {rpc_result_id, container_id, pong_id, future_salts_id} \<union> bad_msg_ids"
    using that q by (auto simp: handled_when_stale_def)
  show "budget_effect b b'"
    using d leaf by (auto simp: dispatch_def with_budget_def split: if_splits dest: rpc_result_effect(2))
  have "effect stale 2 e e'" if "cid = rpc_result_id"
    using d that rpc_result_effect(1)[of srv now m b depth "\<not> stale" e] by (simp add: dispatch_def)
  moreover have "effect stale 2 e e'" if "cid \<in> bad_msg_ids" "cid \<noteq> rpc_result_id" "cid \<noteq> msgs_ack_id"
    using d that bad_notification_effect[of srv t m "\<not> stale" e]
    by (cases "handle_bad_notification srv t m (\<not> stale) e") (auto simp: dispatch_def with_budget_def intro: effect_mono)
  moreover have "effect stale 2 e e'" if "cid = future_salts_id"
    using d that future_salts_effect[of srv now m "\<not> stale" e]
    by (cases "handle_future_salts srv now m (\<not> stale) e")
      (auto simp: dispatch_def with_budget_def future_salts_id_def rpc_result_id_def msgs_ack_id_def bad_msg_ids_def
        ignored_ids_def intro: effect_mono)
  moreover have "effect stale 2 e e'" if "cid = pong_id"
    using d that by (auto simp: dispatch_def with_budget_def pong_id_def future_salts_id_def rpc_result_id_def msgs_ack_id_def
        bad_msg_ids_def ignored_ids_def handle_pong_def split: sum.splits intro!: effect_emit)
  moreover have "effect stale 2 e e'" if "cid \<notin> {rpc_result_id, pong_id, future_salts_id} \<union> bad_msg_ids"
    using d leaf that quiet effect_ack
    by (auto simp: dispatch_def with_budget_def handle_ack_def handle_ignored_def handle_detailed_info_def
        handle_future_salt_def handle_new_session_created_def handle_msg_copy_def handle_update_def container_id_def
        split: if_splits sum.splits intro: effect_emit effect_silent)
  moreover have "effect stale 2 e e'" if "cid = msgs_ack_id"
    using d that by (auto simp: dispatch_def with_budget_def msgs_ack_id_def rpc_result_id_def handle_ack_def split: sum.splits)
  ultimately show "effect stale 2 e e'" by auto
qed

section \<open>One message\<close>

abbreviation known :: "budget \<Rightarrow> encrypted \<Rightarrow> int \<Rightarrow> bool" where
  "known b e mid \<equiv> contains (received_ids (history e)) mid \<or> pending_has b mid"

abbreviation is_stale :: "budget \<Rightarrow> message \<Rightarrow> bool" where
  "is_stale b m \<equiv> authenticated b \<and> msg_id m \<le> replay_floor b"

lemma process_with_cases:
  assumes "process_with container srv now t m b depth ic e = (r, e', b')"
  obtains (header) "e' = e" "b' = b" "r \<noteq> Inr ()"
  | (known) "acknowledge now m e = (r, e')" "b' = b" "authenticated b" "known b e (msg_id m)"
  | (unwrap) err where "r = Inl err" "e' = e" "unwrap_gzip srv m b depth = (Inl err, b')"
  | (stopped) m1 d1 where "unwrap_gzip srv m b depth = (Inr (m1, d1), b')" "acknowledge now m1 e = (fst (acknowledge now m1 e), e')"
      "r \<noteq> Inr () \<or> is_stale b m"
  | (handled) m1 d1 b1 e1 cid r2 e2 b2 where
      "\<not> (authenticated b \<and> known b e (msg_id m))" "unwrap_gzip srv m b depth = (Inr (m1, d1), b1)"
      "acknowledge now m1 e = (Inr (), e1)" "constructor_id m1 = Inr cid" "is_stale b m \<longrightarrow> handled_when_stale cid"
      "dispatch container srv now t cid (is_stale b m) ic m1 b1 d1 e1 = (r2, e2, b2)"
      "(r, e', b') = (if r2 = Inr () \<and> authenticated b2 \<and> \<not> is_stale b m
         then (Inr (), fst (record_received (msg_id m) e2 b2), snd (record_received (msg_id m) e2 b2)) else (r2, e2, b2))"
proof -
  consider (H) "authenticated b \<and> \<not> ic \<and> invalid_header m"
    | (K) "\<not> (authenticated b \<and> \<not> ic \<and> invalid_header m)" "authenticated b \<and> known b e (msg_id m)"
    | (P) "\<not> (authenticated b \<and> \<not> ic \<and> invalid_header m)" "\<not> (authenticated b \<and> known b e (msg_id m))" by blast
  then show thesis
  proof cases
    case H
    with assms header show thesis by (auto simp: process_with_def)
  next
    case K
    with assms known show thesis by (auto simp: process_with_def with_budget_def)
  next
    case P
    obtain u b1 where u: "unwrap_gzip srv m b depth = (u, b1)" by fastforce
    show thesis
    proof (cases u)
      case (Inl err)
      with assms P u show thesis by (intro unwrap[of err]) (simp_all add: process_with_def)
    next
      case (Inr md)
      obtain m1 d1 where md: "md = (m1, d1)" by fastforce
      obtain ra e1 where a: "acknowledge now m1 e = (ra, e1)" by fastforce
      show thesis
      proof (cases "ra = Inr () \<and> (\<exists>cid. constructor_id m1 = Inr cid \<and> (is_stale b m \<longrightarrow> handled_when_stale cid))")
        case True
        then obtain cid where cid: "ra = Inr ()" "constructor_id m1 = Inr cid" "is_stale b m \<longrightarrow> handled_when_stale cid" by blast
        obtain r2 e2 b2 where d: "dispatch container srv now t cid (is_stale b m) ic m1 b1 d1 e1 = (r2, e2, b2)"
          by (metis prod.exhaust)
        show thesis
          by (rule handled[OF P(2), of m1 d1 b1 e1 cid r2 e2 b2])
            (use assms P u Inr md a cid d in \<open>auto simp: process_with_def Let_def split: sum.splits prod.splits if_splits\<close>)
      next
        case False
        with assms P u Inr md a show thesis
          by (intro stopped[of m1 d1]) (auto simp: process_with_def Let_def split: sum.splits if_splits)
      qed
    qed
  qed
qed

abbreviation settled_before :: "budget \<Rightarrow> encrypted \<Rightarrow> message \<Rightarrow> bool" where
  "settled_before b e m \<equiv> authenticated b \<and> (msg_id m \<le> replay_floor b \<or> known b e (msg_id m))"

text \<open>
  A message that is not a container: at most two results for each unit of work, and its identifier
  is recorded exactly when it was new and its handler succeeded.
\<close>

lemma message_effect:
  assumes p: "process_with container srv now t m b depth ic e = (r, e', b')"
    and leaf: "\<And>m1 d1 b1. unwrap_gzip srv m b depth = (Inr (m1, d1), b1) \<Longrightarrow> constructor_id m1 \<noteq> Inr container_id \<or> ic"
  shows "\<exists>e2 b2. effect (settled_before b e m) (2 * (work b - work b2)) e e2 \<and> budget_effect b b2 \<and>
    (if r = Inr () \<and> authenticated b \<and> \<not> settled_before b e m
     then (e', b') = record_received (msg_id m) e2 b2 else (e', b') = (e2, b2))"
  using p
proof (cases rule: process_with_cases)
  case header
  then show ?thesis by (intro exI[of _ e] exI[of _ b]) simp
next
  case known
  then show ?thesis using effect_acknowledge[of now m e r e' True]
    by (intro exI[of _ e'] exI[of _ b]) simp
next
  case (unwrap err)
  then show ?thesis using unwrap_gzip_effect[OF unwrap(3)] by (intro exI[of _ e] exI[of _ b']) simp
next
  case (stopped m1 d1)
  have "effect q (2 * (work b - work b')) e e'" for q
    using effect_acknowledge[OF stopped(2), of q] by (rule effect_mono) simp
  then show ?thesis using unwrap_gzip_effect[OF stopped(1)] stopped(3) by (intro exI[of _ e'] exI[of _ b']) auto
next
  case (handled m1 d1 b1 e1 cid r2 e2 b2)
  have u: "budget_effect b b1" "work b1 < work b" using unwrap_gzip_effect[OF handled(2)] by auto
  have d: "effect (is_stale b m) 2 e1 e2" "budget_effect b1 b2"
    using dispatch_effect[OF handled(6)] leaf[OF handled(2)] handled(4,5) by auto
  have "settled_before b e m = is_stale b m" using handled(1) by blast
  moreover have "effect (is_stale b m) (2 * (work b - work b2)) e e2"
    using effect_trans[OF effect_acknowledge[OF handled(3)] d(1)] u d(2)
    by (rule_tac effect_mono) (auto simp: budget_effect_def)
  moreover have "budget_effect b b2" using u d by (auto intro: budget_effect_trans)
  ultimately show ?thesis using handled(7)
    by (intro exI[of _ e2] exI[of _ b2]) (auto simp: budget_effect_def split: if_splits)
qed

section \<open>Containers\<close>

definition pending_ok :: "budget \<Rightarrow> bool" where
  "pending_ok b \<longleftrightarrow> (case pending_received b of None \<Rightarrow> True | Some seen \<Rightarrow> sorted_wrt (<) seen \<and> list_all in_i64 seen)"

lemma record_pending:
  assumes "pending_received b = Some seen" "pending_ok b" "in_i64 mid"
  shows "\<exists>seen'. record_received mid e b = (e, b\<lparr>pending_received := Some seen'\<rparr>) \<and>
    set seen' = insert mid (set seen) \<and> pending_ok (b\<lparr>pending_received := Some seen'\<rparr>)"
proof -
  have s: "sorted_keys (\<lambda>x. x) seen" "list_all in_i64 seen" using assms by (auto simp: pending_ok_def)
  show ?thesis
  proof (cases "binary_search_by_key (\<lambda>x. x) mid seen")
    case (Inl i)
    have "set (take i seen @ mid # drop i seen) = insert mid (set seen)" by (rule set_insert_at)
    moreover have "sorted_wrt (<) (take i seen @ mid # drop i seen)"
      using sorted_keys_insert_at[OF s(1) Inl] by simp
    ultimately show ?thesis
      using Inl assms s by (intro exI[of _ "take i seen @ mid # drop i seen"])
        (auto simp: record_received_def pending_ok_def list_all_iff)
  next
    case (Inr i)
    then have "mid \<in> set seen" using binary_search_Inr[OF s(1) Inr] by (metis nth_mem)
    moreover have "b = b\<lparr>pending_received := Some seen\<rparr>" using assms(1) by simp
    ultimately show ?thesis using Inr assms(1,2)
      by (intro exI[of _ seen]) (auto simp: record_received_def pending_ok_def)
  qed
qed

lemma message_id_in_i64: "deserialize_message c = (Inr m, c') \<Longrightarrow> in_i64 (msg_id m)"
proof -
  assume "deserialize_message c = (Inr m, c')"
  then obtain w :: i64 where "msg_id m = sint w"
    by (auto simp: deserialize_message_def and_then_def Let_def split: prod.splits sum.splits if_splits)
  then show ?thesis using sint_greater_eq[of w] sint_less[of w] by (simp add: in_i64_def)
qed

fun children_satisfy :: "(message \<Rightarrow> bool) \<Rightarrow> nat \<Rightarrow> cursor \<Rightarrow> bool" where
  "children_satisfy P 0 c = True"
| "children_satisfy P (Suc n) c =
     (case deserialize_message c of (Inl _, _) \<Rightarrow> True | (Inr m, c') \<Rightarrow> P m \<and> children_satisfy P n c')"

lemma children_satisfy_mono:
  "children_satisfy P n c \<Longrightarrow> (\<And>m. P m \<Longrightarrow> Q m) \<Longrightarrow> children_satisfy Q n c"
  by (induction n arbitrary: c) (auto split: prod.splits sum.splits)

lemma checked_children: "check_children (Some (pid, sq)) n c = Inr c' \<Longrightarrow> children_satisfy (\<lambda>m. msg_id m < pid) n c"
  by (induction n arbitrary: c) (auto simp: bad_child_def split: prod.splits sum.splits if_splits)

text \<open>
  The children: nothing is recorded in the history, and when all of them are older than it,
  they are handled quietly and nothing is noted at all.
\<close>

lemma children_effect:
  assumes "process_children (process_child srv now t depth) it b e = (r, e', b')"
    and "authenticated b" "pending_received b = Some seen" "pending_ok b"
    and "q \<Longrightarrow> children_satisfy (\<lambda>m. msg_id m \<le> replay_floor b) (remaining_messages it) (iter_cursor it)"
  shows "effect q (2 * (work b - work b')) e e' \<and> authenticated b' \<and> work b' \<le> work b \<and> pending_ok b' \<and>
    (\<exists>seen'. pending_received b' = Some seen' \<and> (q \<longrightarrow> seen' = seen))"
  using assms
proof (induction "remaining_messages it" arbitrary: it b e seen)
  case 0
  have "process_children (process_child srv now t depth) it b e = (Inr (), e, b)"
    using 0(1) by (subst process_children.simps) (simp add: iter_next_def)
  with 0 show ?case by simp
next
  case (Suc n)
  show ?case
  proof (cases "deserialize_message (iter_cursor it)")
    case (Pair res c)
    define it' where "it' = \<lparr>iter_cursor = c, remaining_messages = n\<rparr>"
    have nx: "iter_next it = (Some res, it')" using Pair Suc.hyps(2) by (simp add: iter_next_def it'_def)
    show ?thesis
    proof (cases res)
      case (Inl err)
      then have "process_children (process_child srv now t depth) it b e = (Inl (from_tl_error err), e, b)"
        using nx by (subst process_children.simps) simp
      with Suc.prems show ?thesis by simp
    next
      case (Inr m)
      note mid = message_id_in_i64[OF Pair[unfolded Inr]]
      obtain r1 e1 b1 where p: "process_child srv now t depth m b e = (r1, e1, b1)" by (metis prod.exhaust)
      obtain e2 b2 where eff: "effect (settled_before b e m) (2 * (work b - work b2)) e e2" "budget_effect b b2"
        and out: "if r1 = Inr () \<and> authenticated b \<and> \<not> settled_before b e m
          then (e1, b1) = record_received (msg_id m) e2 b2 else (e1, b1) = (e2, b2)"
        using message_effect[OF p[unfolded process_child_def]] by blast
      have b2: "pending_received b2 = Some seen" "pending_ok b2" "authenticated b2" "replay_floor b2 = replay_floor b"
        using eff(2) Suc.prems(2-4) by (auto simp: budget_effect_def pending_ok_def)
      obtain seen1 where s1: "e1 = e2" "pending_received b1 = Some seen1" "pending_ok b1" "authenticated b1"
        "work b1 = work b2" "replay_floor b1 = replay_floor b" "settled_before b e m \<longrightarrow> seen1 = seen"
        using out record_pending[OF b2(1,2) mid, of e2] b2 by (auto split: if_splits)
      have q: "settled_before b e m" "children_satisfy (\<lambda>m. msg_id m \<le> replay_floor b) n c" if q
        using Suc.prems(2,5) that Pair Inr by (auto simp: Suc.hyps(2)[symmetric])
      have e1: "effect q (2 * (work b - work b1)) e e1"
        using eff(1) q(1) s1 by (auto simp: effect_def)
      have w1: "work b1 \<le> work b" using eff(2) s1 by (simp add: budget_effect_def)
      show ?thesis
      proof (cases r1)
        case (Inl err)
        then have "e' = e1" "b' = b1" using Suc.prems(1) nx Inr p by (subst (asm) process_children.simps, simp)+
        then show ?thesis using e1 w1 s1 q(1) by auto
      next
        case (Inr u)
        then have "process_children (process_child srv now t depth) it' b1 e1 = (r, e', b')"
          using Suc.prems(1) nx \<open>res = Inr m\<close> p by (subst (asm) process_children.simps) simp
        from Suc.hyps(1)[OF _ this s1(4,2,3)] q(2) s1(6)
        have IH: "effect q (2 * (work b1 - work b')) e1 e' \<and> authenticated b' \<and> work b' \<le> work b1 \<and> pending_ok b' \<and>
            (\<exists>seen'. pending_received b' = Some seen' \<and> (q \<longrightarrow> seen' = seen1))" by (simp add: it'_def)
        then have "effect q (2 * (work b - work b1) + 2 * (work b1 - work b')) e e'" by (blast intro: effect_trans[OF e1])
        moreover have "work b' \<le> work b1" using IH by blast
        then have "2 * (work b - work b1) + 2 * (work b1 - work b') = 2 * (work b - work b')" using w1 by arith
        ultimately show ?thesis using IH w1 s1(7) q(1) by auto
      qed
    qed
  qed
qed

section \<open>Packets\<close>

text \<open>
  The outermost message of a packet. \<open>e2\<close> is the session before its identifier is recorded, and
  inside a container the identifiers wait in the budget.
\<close>

lemma bounded_effect:
  assumes p: "process_bounded srv now t m b depth e = (r, e', b')"
    and b: "authenticated b" "pending_received b = None" and mid: "in_i64 (msg_id m)"
  shows "\<exists>e2. effect (settled_before b e m) (2 * (work b - work b')) e e2 \<and> work b' \<le> work b \<and> pending_ok b' \<and>
    (e' = e2 \<or> (r = Inr () \<and> e' = e2\<lparr>history := remember_received (history e2) (msg_id m)\<rparr>)) \<and>
    (settled_before b e m \<longrightarrow> e' = e2 \<and> pending_received b' \<in> {None, Some []}) \<and>
    (r = Inr () \<and> \<not> settled_before b e m \<longrightarrow>
       e' = e2\<lparr>history := remember_received (history e2) (msg_id m)\<rparr> \<or>
       (\<exists>seen. pending_received b' = Some seen \<and> msg_id m \<in> set seen))"
proof (cases "\<exists>m1 d1 b1. unwrap_gzip srv m b depth = (Inr (m1, d1), b1) \<and> constructor_id m1 = Inr container_id")
  case False
  then obtain e2 b2 where eff: "effect (settled_before b e m) (2 * (work b - work b2)) e e2" "budget_effect b b2"
    and out: "if r = Inr () \<and> authenticated b \<and> \<not> settled_before b e m
      then (e', b') = record_received (msg_id m) e2 b2 else (e', b') = (e2, b2)"
    using message_effect[OF p[unfolded process_bounded_def]] by blast
  have b2: "pending_received b2 = None" "work b2 \<le> work b" using eff(2) b by (simp_all add: budget_effect_def)
  then have "b' = b2" "e' = e2 \<or> (r = Inr () \<and> \<not> settled_before b e m \<and> e' = e2\<lparr>history := remember_received (history e2) (msg_id m)\<rparr>)"
    "r = Inr () \<and> \<not> settled_before b e m \<longrightarrow> e' = e2\<lparr>history := remember_received (history e2) (msg_id m)\<rparr>"
    using out b by (auto simp: record_received_def split: if_splits)
  with eff b2 show ?thesis by (intro exI[of _ e2]) (auto simp: pending_ok_def)
next
  case True
  then obtain m1 d1 b1 where u: "unwrap_gzip srv m b depth = (Inr (m1, d1), b1)" and c: "constructor_id m1 = Inr container_id" by blast
  have b1: "budget_effect b b1" "work b1 < work b" "msg_id m1 = msg_id m" using unwrap_gzip_effect[OF u] by auto
  from p[unfolded process_bounded_def] show ?thesis
  proof (cases rule: process_with_cases)
    case header
    with b show ?thesis by (intro exI[of _ e]) (auto simp: pending_ok_def)
  next
    case known
    with b effect_acknowledge[of now m e r e' True] show ?thesis by (intro exI[of _ e']) (auto simp: pending_ok_def)
  next
    case (unwrap err)
    with u show ?thesis by simp
  next
    case (stopped m1' d1')
    have "effect q (2 * (work b - work b')) e e'" for q
      using effect_acknowledge[OF stopped(2), of q] by (rule effect_mono) simp
    with stopped u b b1 show ?thesis by (intro exI[of _ e']) (auto simp: pending_ok_def budget_effect_def)
  next
    case (handled m1' d1' b1' e1 cid r2 e2 b2)
    have same: "m1' = m1" "d1' = d1" "b1' = b1" "cid = container_id" using handled(2,4) u c by simp_all
    define q where "q = is_stale b m"
    have sb: "settled_before b e m = q" using handled(1) b by (auto simp: q_def)
    have b1s: "authenticated b1" "pending_received b1 = None" "replay_floor b1 = replay_floor b"
      using b1 b by (auto simp: budget_effect_def)
    have hc: "handle_container srv now t m1 b1 d1 e1 = (r2, e2, b2)"
      using handled(6) by (simp add: same dispatch_def container_id_def rpc_result_id_def msgs_ack_id_def bad_msg_ids_def
          ignored_ids_def future_salts_id_def pong_id_def)
    have ack: "effect q 0 e e1" by (rule effect_acknowledge[OF handled(3)])
    have main: "effect q (2 * (work b1 - work b2)) e1 e2 \<and> authenticated b2 \<and> work b2 \<le> work b1 \<and> pending_ok b2 \<and>
        (pending_received b2 = None \<and> r2 \<noteq> Inr () \<or> (\<exists>seen. pending_received b2 = Some seen \<and> (q \<longrightarrow> seen = [])))"
    proof (cases "borrowed_messages_validated (body m1) (Some (msg_id m1, seq_no m1))")
      case (Inl err)
      with hc b1s show ?thesis by (auto simp: handle_container_def pending_ok_def)
    next
      case (Inr it)
      let ?b = "b1\<lparr>pending_received := Some []\<rparr>"
      have run: "process_children (process_child srv now t (d1 + 1)) it ?b e1 = (r2, e2, b2)"
        using hc Inr b1s by (simp add: handle_container_def)
      have "children_satisfy (\<lambda>k. msg_id k < msg_id m) (remaining_messages it) (iter_cursor it)"
        using Inr b1(3) by (auto simp: borrowed_messages_validated_def Let_def dest!: checked_children
            split: prod.splits sum.splits if_splits)
      then have less: "children_satisfy (\<lambda>k. msg_id k \<le> replay_floor ?b) (remaining_messages it) (iter_cursor it)" if q
        using that b1s by (auto simp: q_def elim!: children_satisfy_mono)
      show ?thesis using children_effect[OF run, of "[]" q] less b1s by (auto simp: pending_ok_def)
    qed
    have tot: "effect q (2 * (work b - work b2)) e e2"
      using effect_trans[OF ack, of "2 * (work b1 - work b2)" e2] main b1(2) by (auto elim: effect_mono)
    show ?thesis
    proof (cases "r2 = Inr () \<and> \<not> q")
      case True
      then obtain seen where seen: "pending_received b2 = Some seen" using main by auto
      from record_pending[OF seen _ mid, of e2] main obtain seen' where
        rec: "record_received (msg_id m) e2 b2 = (e2, b2\<lparr>pending_received := Some seen'\<rparr>)" "set seen' = insert (msg_id m) (set seen)"
        "pending_ok (b2\<lparr>pending_received := Some seen'\<rparr>)" by blast
      have "(r, e', b') = (Inr (), e2, b2\<lparr>pending_received := Some seen'\<rparr>)"
        using handled(7) True rec(1) main by (simp add: q_def)
      then show ?thesis using tot rec main b1(2) True sb by (intro exI[of _ e2]) auto
    next
      case False
      then have "(r, e', b') = (r2, e2, b2)" using handled(7) main by (auto simp: q_def split: if_splits)
      then show ?thesis using tot main b1(2) False sb by (intro exI[of _ e2]) auto
    qed
  qed
qed

end
