(* ===== verification/Encrypted_Sending.thy ===== *)
theory Encrypted_Sending
  imports Encrypted_Mtp
begin

text \<open>
  What the encrypted session sends. A packet is described by its letters: messages together with
  where they come from (a pushed request, queued acknowledgements, the session's own request for
  salts). \<open>carries\<close> relates the buffer to the letters written so far; every operation that writes
  extends them, and finishing the packet gives bytes from which the same messages are read back.
\<close>

section \<open>Letters\<close>

datatype origin = FromRequest bytes | FromAcks "int list" | ForSalts

type_synonym letter = "origin \<times> message"

definition request_body :: "services \<Rightarrow> encrypted \<Rightarrow> bytes \<Rightarrow> bytes" where
  "request_body srv e request = (case request_payload srv e request of (prefix, bd) \<Rightarrow> prefix @ bd)"

fun origin_body :: "services \<Rightarrow> encrypted \<Rightarrow> origin \<Rightarrow> bytes" where
  "origin_body srv e (FromRequest request) = request_body srv e request"
| "origin_body srv e (FromAcks acks) =
     serialize_u32 msgs_ack_id @ serialize_vec (\<lambda>i. serialize_i64 (word_of_int i)) acks"
| "origin_body srv e ForSalts = get_future_salts srv NUM_FUTURE_SALTS"

fun content :: "origin \<Rightarrow> bool" where
  "content (FromAcks _) = False"
| "content _ = True"

definition letter_ok :: "services \<Rightarrow> encrypted \<Rightarrow> letter \<Rightarrow> bool" where
  "letter_ok srv e l \<longleftrightarrow>
     (case l of (og, m) \<Rightarrow>
        message_ok m \<and> body m = origin_body srv e og \<and> (odd (seq_no m) \<longleftrightarrow> content og) \<and> 4 dvd msg_id m)"

fun acks_of :: "letter \<Rightarrow> int list" where
  "acks_of (FromAcks acks, _) = acks"
| "acks_of _ = []"

fun request_of :: "letter \<Rightarrow> (int \<times> bytes) list" where
  "request_of (FromRequest request, m) = [(msg_id m, request)]"
| "request_of _ = []"

abbreviation acks_in :: "letter list \<Rightarrow> int list" where
  "acks_in ls \<equiv> concat (map acks_of ls)"

abbreviation requests_in :: "letter list \<Rightarrow> (int \<times> bytes) list" where
  "requests_in ls \<equiv> concat (map request_of ls)"

abbreviation ids_in :: "letter list \<Rightarrow> int list" where
  "ids_in ls \<equiv> map (\<lambda>l. msg_id (snd l)) ls"

text \<open>The part of the session that sending does not change.\<close>

definition same_config :: "encrypted \<Rightarrow> encrypted \<Rightarrow> bool" where
  "same_config e0 e \<longleftrightarrow> receive_updates e = receive_updates e0 \<and>
     compression_threshold e = compression_threshold e0 \<and> session_id e = session_id e0 \<and>
     time_offset e = time_offset e0 \<and> enc_auth_key e = enc_auth_key e0"

definition session_ok :: "encrypted \<Rightarrow> bool" where
  "session_ok e \<longleftrightarrow> 4 dvd last_msg_id e \<and> i64_ok (last_msg_id e) \<and> even (sequence e) \<and> i32_ok (sequence e)"

definition carries :: "services \<Rightarrow> encrypted \<Rightarrow> encrypted \<Rightarrow> buffer \<Rightarrow> letter list \<Rightarrow> bool" where
  "carries srv e0 e buf ls \<longleftrightarrow>
     same_config e0 e \<and> session_ok e \<and> deque_inv buf \<and>
     as_ref buf = concat (map (\<lambda>l. serialize_message (snd l)) ls) \<and>
     msg_count e = length ls \<and> length ls \<le> MAXIMUM_LENGTH \<and> length (as_ref buf) \<le> MAXIMUM_SIZE \<and>
     list_all (letter_ok srv e0) ls \<and> acks_in ls @ pending_ack e = pending_ack e0"

section \<open>Identifiers and sequence numbers\<close>

lemma i64_ok_wrap64 [simp]: "i64_ok (wrap64 x)"
  by (simp add: i64_ok_def wrap64_def)

lemma i32_ok_wrap32 [simp]: "i32_ok (wrap32 x)"
  by (simp add: i32_ok_def wrap32_def)

lemma dvd_wrap64: "4 dvd x \<Longrightarrow> 4 dvd wrap64 x"
  by (simp add: wrap64_def dvd_diff dvd_mod)

lemma even_wrap32 [simp]: "even (wrap32 x) \<longleftrightarrow> even x"
  by (simp add: wrap32_def dvd_mod_iff)

lemma dvd_clock_id: "4 dvd clock_id t e"
  unfolding clock_id_def Let_def by (rule dvd_wrap64) (simp add: dvd_add)

lemma new_msg_id:
  assumes "session_ok e" "get_new_msg_id t e = (mid, e')"
  shows "e' = e\<lparr>last_msg_id := mid\<rparr>" "4 dvd mid" "i64_ok mid"
  using assms dvd_clock_id[of t e]
  by (auto simp: get_new_msg_id_def Let_def session_ok_def clock_id_def intro!: dvd_wrap64 dvd_add)

lemma new_seq_no:
  assumes "session_ok e" "get_seq_no c e = (sq, e')"
  shows "\<exists>s. e' = e\<lparr>sequence := s\<rparr> \<and> even s \<and> i32_ok s" "odd sq \<longleftrightarrow> c" "i32_ok sq"
  using assms by (auto simp: get_seq_no_def Let_def session_ok_def split: if_splits)
     (metis encrypted.surjective encrypted.update_convs(10))

text \<open>Before the clock reaches the sign bit of the identifiers they rise.\<close>

definition ID_LIMIT :: int where
  "ID_LIMIT = (2 ^ 31 - 1) * 2 ^ 32"

definition clock_fine :: "encrypted \<Rightarrow> system_time \<Rightarrow> bool" where
  "clock_fine e t \<longleftrightarrow> int (fst t) + time_offset e < 2 ^ 31 - 1 \<and> int (fst t) \<le> i64_max \<and>
     i64_min \<le> time_offset e \<and> snd t < 10 ^ 9"

lemma clock_id_bound: "clock_fine e t \<Longrightarrow> clock_id t e < ID_LIMIT"
proof -
  assume t: "clock_fine e t"
  define s where "s = max 0 (saturating_add64 (min (int (fst t)) i64_max) (time_offset e))"
  have s: "0 \<le> s" "s \<le> 2 ^ 31 - 2"
    using t unfolding s_def clock_fine_def saturating_add64_def by auto
  have n: "0 \<le> int (snd t)" "int (snd t) * 4 < 2 ^ 32" using t by (simp_all add: clock_fine_def)
  have "s * 2 ^ 32 + int (snd t) * 4 < ID_LIMIT" using s n by (simp add: ID_LIMIT_def)
  moreover have "wrap64 (s * 2 ^ 32 + int (snd t) * 4) = s * 2 ^ 32 + int (snd t) * 4"
    using s n by (intro wrap64_id) (auto simp: )
  ultimately show ?thesis unfolding clock_id_def Let_def s_def[symmetric] by simp
qed

definition rising :: "encrypted \<Rightarrow> encrypted \<Rightarrow> int list \<Rightarrow> bool" where
  "rising e0 e mids \<longleftrightarrow> sorted_wrt (<) (last_msg_id e0 # mids) \<and>
     last (last_msg_id e0 # mids) = last_msg_id e \<and> last_msg_id e < ID_LIMIT + 4 * int (length mids)"

lemma sorted_wrt_less_snoc:
  "sorted_wrt (<) (x # xs) \<Longrightarrow> last (x # xs) < (y :: int) \<Longrightarrow> sorted_wrt (<) (x # xs @ [y])"
proof (induction xs arbitrary: x)
  case (Cons z zs)
  have "sorted_wrt (<) (z # zs @ [y])" using Cons.prems by (intro Cons.IH) auto
  with Cons.prems(1) show ?case by auto
qed simp

lemma rising_new_id:
  assumes "rising e0 e mids" "clock_fine e t" "length mids \<le> 200" "get_new_msg_id t e = (mid, e')"
  shows "rising e0 (e'\<lparr>sequence := s\<rparr>) (mids @ [mid])"
proof -
  have last: "last_msg_id e < ID_LIMIT + 4 * int (length mids)" using assms(1) by (simp add: rising_def)
  have "last_msg_id e < mid \<and> mid < ID_LIMIT + 4 * int (length mids) + 4"
  proof (cases "last_msg_id e \<ge> clock_id t e")
    case True
    have "i64_min \<le> clock_id t e" using i64_ok_wrap64 by (simp add: clock_id_def i64_ok_def Let_def)
    then have "wrap64 (last_msg_id e + 4) = last_msg_id e + 4"
      using True last assms(3) by (intro wrap64_id) (simp_all add: ID_LIMIT_def)
    then show ?thesis using assms(4) True last by (auto simp: get_new_msg_id_def Let_def)
  next
    case False
    then show ?thesis using assms(4) clock_id_bound[OF assms(2)] by (auto simp: get_new_msg_id_def Let_def)
  qed
  moreover have "last_msg_id e' = mid" using assms(4) by (auto simp: get_new_msg_id_def Let_def)
  ultimately show ?thesis using assms(1) by (auto simp: rising_def simp del: sorted_wrt.simps intro!: sorted_wrt_less_snoc)
qed

section \<open>Writing a letter\<close>

lemma msg_header:
  assumes e: "session_ok e" and buf: "deque_inv buf"
    and h: "serialize_msg_header t e buf (length bs) c = (mid, e', buf')"
  obtains sq s where "e' = e\<lparr>last_msg_id := mid, sequence := s, msg_count := msg_count e + 1\<rparr>"
    "session_ok e'" "get_new_msg_id t e = (mid, e\<lparr>last_msg_id := mid\<rparr>)"
    "deque_inv (deque_extend bs buf')"
    "as_ref (deque_extend bs buf') = as_ref buf @ serialize_message \<lparr>msg_id = mid, seq_no = sq, body = bs\<rparr>"
    "odd sq \<longleftrightarrow> c" "i32_ok sq" "4 dvd mid" "i64_ok mid"
proof -
  obtain e1 where g: "get_new_msg_id t e = (mid, e1)"
    using h by (auto simp: serialize_msg_header_def Let_def split: prod.splits)
  note i = new_msg_id[OF e g]
  obtain sq e2 where q: "get_seq_no c e1 = (sq, e2)" by fastforce
  have "session_ok e1" using e i by (simp add: session_ok_def)
  note sq = new_seq_no[OF this q]
  then obtain s where s: "e2 = e1\<lparr>sequence := s\<rparr>" "even s" "i32_ok s" by blast
  have e': "e' = e\<lparr>last_msg_id := mid, sequence := s, msg_count := msg_count e + 1\<rparr>"
    and b': "buf' = deque_extend (serialize_i32 (of_nat (length bs))) (deque_extend (serialize_i32 (word_of_int sq))
      (deque_extend (serialize_i64 (word_of_int mid)) buf))"
    using h g q s i(1) by (simp_all add: serialize_msg_header_def Let_def)
  show thesis
    by (rule that[of s sq]) (use e' b' buf e g i s sq in \<open>simp_all add: serialize_message_def session_ok_def\<close>)
qed

text \<open>One more letter: what is written fits, and its body is that of its origin.\<close>

lemma write_letter:
  assumes c: "carries srv e0 e buf ls" and fits: "message_fits e buf (length bs)"
    and bs: "4 \<le> length bs" "length bs mod 4 = 0" "bs = origin_body srv e0 og"
    and acks: "pending_ack e = acks_of (og, m0) @ rest"
    and h: "serialize_msg_header t e buf (length bs) (content og) = (mid, e', buf')"
  obtains m where "msg_id m = mid"
    "carries srv e0 (e'\<lparr>pending_ack := rest\<rparr>) (deque_extend bs buf') (ls @ [(og, m)])"
    "rising e0 e (ids_in ls) \<longrightarrow> clock_fine e t \<longrightarrow> rising e0 e' (ids_in (ls @ [(og, m)]))"
proof -
  have e: "session_ok e" "deque_inv buf" using c by (simp_all add: carries_def)
  obtain sq s where e': "e' = e\<lparr>last_msg_id := mid, sequence := s, msg_count := msg_count e + 1\<rparr>"
    and ok': "session_ok e'" and g: "get_new_msg_id t e = (mid, e\<lparr>last_msg_id := mid\<rparr>)"
    and b': "deque_inv (deque_extend bs buf')"
      "as_ref (deque_extend bs buf') = as_ref buf @ serialize_message \<lparr>msg_id = mid, seq_no = sq, body = bs\<rparr>"
    and m: "odd sq \<longleftrightarrow> content og" "i32_ok sq" "4 dvd mid" "i64_ok mid"
    using msg_header[OF e h] .
  let ?m = "\<lparr>msg_id = mid, seq_no = sq, body = bs\<rparr>"
  have small: "length (as_ref buf) + 16 + length bs \<le> MAXIMUM_SIZE" "length ls < MAXIMUM_LENGTH"
    using fits c by (simp_all add: message_fits_def carries_def SIZE_OVERHEAD_def)
  then have "length bs < 2 ^ 31" by (simp add: MAXIMUM_SIZE_def CONTAINER_OVERHEAD_def)
  then have l: "letter_ok srv e0 (og, ?m)" using bs m by (simp add: letter_ok_def message_ok_def)
  have same: "acks_of (og, ?m) = acks_of (og, m0)" by (cases og) simp_all
  show thesis
  proof (rule that[of ?m])
    show "carries srv e0 (e'\<lparr>pending_ack := rest\<rparr>) (deque_extend bs buf') (ls @ [(og, ?m)])"
      using c l same acks ok' b' small unfolding carries_def e'
      by (simp add: same_config_def session_ok_def)
    have "rising e0 e' (ids_in (ls @ [(og, ?m)]))" if r: "rising e0 e (ids_in ls)" "clock_fine e t"
      using rising_new_id[OF r _ g, of s] small(2) by (simp add: e' rising_def MAXIMUM_LENGTH_def)
    then show "rising e0 e (ids_in ls) \<longrightarrow> clock_fine e t \<longrightarrow> rising e0 e' (ids_in (ls @ [(og, ?m)]))" by blast
  qed simp
qed

section \<open>The operations that write\<close>

lemma deque_extend_append: "deque_extend b (deque_extend a d) = deque_extend (a @ b) d"
  by (simp add: deque_extend_def)

lemma deque_extend_fold: "fold (\<lambda>i. deque_extend (f i)) xs d = deque_extend (concat (map f xs)) d"
  by (induction xs arbitrary: d) (simp_all add: deque_extend_append, simp add: deque_extend_def)

text \<open>
  The outcome of an operation on a packet: it added letters whose requests are \<open>reqs\<close>, and with a
  sane clock their identifiers rise.
\<close>

definition extended ::
    "services \<Rightarrow> encrypted \<Rightarrow> system_time list \<Rightarrow> encrypted \<Rightarrow> letter list \<Rightarrow> encrypted \<Rightarrow> buffer \<Rightarrow> letter list \<Rightarrow> bool" where
  "extended srv e0 ts e ls e' buf' new \<longleftrightarrow>
     carries srv e0 e' buf' (ls @ new) \<and>
     (rising e0 e (ids_in ls) \<longrightarrow> list_all (clock_fine e0) ts \<longrightarrow> rising e0 e' (ids_in (ls @ new)))"

lemma extended_refl: "carries srv e0 e' buf ls \<Longrightarrow> last_msg_id e' = last_msg_id e \<Longrightarrow> extended srv e0 ts e ls e' buf []"
  by (simp add: extended_def rising_def)

lemma extended_trans:
  "extended srv e0 ts e ls e1 b1 new1 \<Longrightarrow> extended srv e0 us e1 (ls @ new1) e2 b2 new2 \<Longrightarrow>
   extended srv e0 (ts @ us) e ls e2 b2 (new1 @ new2)"
  by (simp add: extended_def)

lemma clock_fine_config: "same_config e0 e \<Longrightarrow> clock_fine e t = clock_fine e0 t"
  by (simp add: same_config_def clock_fine_def)

lemma write_extended:
  assumes "carries srv e0 e buf ls" "message_fits e buf (length bs)"
    and "4 \<le> length bs" "length bs mod 4 = 0" "bs = origin_body srv e0 og"
    and "pending_ack e = acks_of (og, m0) @ rest"
    and "serialize_msg_header t e buf (length bs) (content og) = (mid, e', buf')"
    and "same_config e' e''" "session_ok e' \<Longrightarrow> session_ok e''" "msg_count e'' = msg_count e'"
      "pending_ack e'' = rest" "last_msg_id e'' = last_msg_id e'"
  shows "\<exists>m. msg_id m = mid \<and> extended srv e0 [t] e ls e'' (deque_extend bs buf') [(og, m)]"
proof -
  obtain m where m: "msg_id m = mid"
    "carries srv e0 (e'\<lparr>pending_ack := rest\<rparr>) (deque_extend bs buf') (ls @ [(og, m)])"
    "rising e0 e (ids_in ls) \<longrightarrow> clock_fine e t \<longrightarrow> rising e0 e' (ids_in (ls @ [(og, m)]))"
    using write_letter[OF assms(1-7)] .
  have "carries srv e0 e'' (deque_extend bs buf') (ls @ [(og, m)])"
    using m(2) assms(8-12) by (auto simp: carries_def same_config_def session_ok_def)
  moreover have "clock_fine e t = clock_fine e0 t" using assms(1) by (intro clock_fine_config) (simp add: carries_def)
  moreover have "rising e0 e'' xs = rising e0 e' xs" for xs using assms(12) by (simp add: rising_def)
  ultimately show ?thesis using m(1,3) by (auto simp: extended_def)
qed

lemma header_fields:
  assumes "serialize_msg_header t e buf n c = (mid, e', buf')"
  shows "\<exists>s. e' = e\<lparr>last_msg_id := mid, sequence := s, msg_count := msg_count e + 1\<rparr>"
  using assms
  by (cases c) (auto simp: serialize_msg_header_def get_new_msg_id_def get_seq_no_def Let_def
      intro!: exI[of _ "sequence e'"])

lemma pending_ack_extended:
  assumes c: "carries srv e0 e buf ls" and s: "serialize_pending_ack t e buf = (e', buf')"
  shows "\<exists>new. extended srv e0 [t] e ls e' buf' new \<and> requests_in new = []"
proof -
  define count where "count = min (min (length (pending_ack e)) 8192) ((MAXIMUM_SIZE - (len buf + SIZE_OVERHEAD + 12)) div 8)"
  define acks where "acks = take count (pending_ack e)"
  have [simp]: "length acks = count" by (simp add: acks_def count_def)
  define bs where "bs = origin_body srv e0 (FromAcks acks)"
  have len: "length bs = 12 + count * 8"
    by (simp add: bs_def serialize_vec_def length_concat o_def sum_list_triv mult.commute)
  obtain mid e1 b1 where h: "serialize_msg_header t e buf (12 + count * 8) False = (mid, e1, b1)"
    by (metis prod.exhaust)
  obtain s where e1: "e1 = e\<lparr>last_msg_id := mid, sequence := s, msg_count := msg_count e + 1\<rparr>"
    using header_fields[OF h] by blast
  define e2 where "e2 = e1\<lparr>pending_ack := drop count (pending_ack e1)\<rparr>"
  have step: "serialize_pending_ack t e buf =
      (if count = 0 \<or> \<not> message_fits e buf (12 + count * 8) then (e, buf)
       else (if pending_ack e2 = [] then e2\<lparr>pending_ack_since := None, ack_flush_due := False\<rparr> else e2,
             deque_extend bs b1))"
    unfolding serialize_pending_ack_def Let_def count_def[symmetric]
    by (simp add: h e1 e2_def acks_def[symmetric] deque_extend_append deque_extend_fold bs_def serialize_vec_def)
  show ?thesis
  proof (cases "count = 0 \<or> \<not> message_fits e buf (12 + count * 8)")
    case True
    with s step have "e' = e" "buf' = buf" by simp_all
    with c show ?thesis by (auto intro!: exI[of _ "[]"] extended_refl)
  next
    case False
    then have "(e', buf') = (if pending_ack e2 = [] then e2\<lparr>pending_ack_since := None, ack_flush_due := False\<rparr> else e2, deque_extend bs b1)"
      using s step by simp
    then have e': "e' = (if pending_ack e2 = [] then e2\<lparr>pending_ack_since := None, ack_flush_due := False\<rparr> else e2)"
      and b': "buf' = deque_extend bs b1" by simp_all
    have sent: "\<exists>m. msg_id m = mid \<and> extended srv e0 [t] e ls e' (deque_extend bs b1) [(FromAcks acks, m)]"
    proof (rule write_extended[OF c])
      show "serialize_msg_header t e buf (length bs) (content (FromAcks acks)) = (mid, e1, b1)" using h by (simp add: len)
      show "bs = origin_body srv e0 (FromAcks acks)" by (rule bs_def)
      show "pending_ack e = acks_of (FromAcks acks, undefined) @ drop count (pending_ack e)" by (simp add: acks_def)
      show "message_fits e buf (length bs)" using False by (simp add: len)
      show "length bs mod 4 = 0" unfolding len by presburger
    qed (auto simp: len e' e2_def e1 same_config_def session_ok_def)
    then obtain m where "extended srv e0 [t] e ls e' buf' [(FromAcks acks, m)]" unfolding b' by blast
    then show ?thesis by (intro exI[of _ "[(FromAcks acks, m)]"]) simp
  qed
qed

text \<open>The TL encoding of the request for salts: a constructor and one integer.\<close>

definition salts_request_ok :: "services \<Rightarrow> bool" where
  "salts_request_ok srv \<longleftrightarrow> length (get_future_salts srv NUM_FUTURE_SALTS) = 8"

lemma salts_extended:
  assumes c: "carries srv e0 e buf ls" and srv: "salts_request_ok srv"
    and s: "try_request_salts srv t e buf = (e', buf')"
  shows "\<exists>new. extended srv e0 [t] e ls e' buf' new \<and> requests_in new = []"
proof (cases "(e', buf') = (e, buf)")
  case True
  with c show ?thesis by (auto intro!: exI[of _ "[]"] extended_refl)
next
  case False
  define bs where "bs = get_future_salts srv NUM_FUTURE_SALTS"
  have bs: "length bs = 8" using srv by (simp add: salts_request_ok_def bs_def)
  obtain mid e1 b1 where h: "serialize_msg_header t e buf (length bs) True = (mid, e1, b1)"
    by (metis prod.exhaust)
  obtain s where e1: "e1 = e\<lparr>last_msg_id := mid, sequence := s, msg_count := msg_count e + 1\<rparr>"
    using header_fields[OF h] by blast
  have f: "message_fits e buf (length bs)" and "(e', buf') = (e1\<lparr>salt_request_msg_id := Some mid\<rparr>, deque_extend bs b1)"
    using s False h bs by (auto simp: try_request_salts_def serialize_msg_def bs_def[symmetric] split: if_splits)
  then have e': "e' = e1\<lparr>salt_request_msg_id := Some mid\<rparr>" and b': "buf' = deque_extend bs b1" by simp_all
  have "\<exists>m. msg_id m = mid \<and> extended srv e0 [t] e ls e' (deque_extend bs b1) [(ForSalts, m)]"
  proof (rule write_extended[OF c f])
    show "serialize_msg_header t e buf (length bs) (content ForSalts) = (mid, e1, b1)" using h by simp
    show "pending_ack e = acks_of (ForSalts, undefined) @ pending_ack e" by simp
    show "4 \<le> length bs" "length bs mod 4 = 0" using bs by simp_all
  qed (simp_all add: bs_def e' e1 same_config_def session_ok_def)
  then obtain m where "extended srv e0 [t] e ls e' buf' [(ForSalts, m)]" unfolding b' by blast
  then show ?thesis by (intro exI[of _ "[(ForSalts, m)]"]) simp
qed

lemma length_prefix: "length (take (without_updates_prefix_len r u) (serialize_u32 w)) \<in> {0, 4}"
  by (simp add: without_updates_prefix_len_def Let_def)

lemma request_body_aligned:
  assumes "request_fits request (receive_updates e)"
  shows "4 \<le> length (request_body srv e request)" "length (request_body srv e request) mod 4 = 0"
proof -
  define prefix where "prefix = take (without_updates_prefix_len request (receive_updates e)) (serialize_u32 without_updates_id)"
  have p: "length prefix = 0 \<or> length prefix = 4" using length_prefix unfolding prefix_def by blast
  have r: "4 \<le> length request" "length request mod 4 = 0" using assms by (auto simp: request_fits_def Let_def)
  have g: "length (serialize_gzip_packed z) = 4 + length (serialize_bytes z)" for z
    by (simp add: serialize_gzip_packed_def)
  have "length (prefix @ request) mod 4 = 0" using p r by auto
  moreover have "(4 + length (serialize_bytes z)) mod 4 = 0" for z using serialize_bytes_aligned[of z] by presburger
  ultimately have "4 \<le> length (request_body srv e request) \<and> length (request_body srv e request) mod 4 = 0"
    using r by (simp add: request_body_def request_payload_def prefix_def[symmetric] Let_def g)
  then show "4 \<le> length (request_body srv e request)" "length (request_body srv e request) mod 4 = 0" by auto
qed

lemma request_body_config: "same_config e0 e \<Longrightarrow> request_body srv e r = request_body srv e0 r"
  by (simp add: same_config_def request_body_def request_payload_def)

definition answer :: "int option \<Rightarrow> bytes \<Rightarrow> (int \<times> bytes) list" where
  "answer r request = (case r of None \<Rightarrow> [] | Some mid \<Rightarrow> [(mid, request)])"

lemma request_extended:
  assumes c: "carries srv e0 e buf ls" and fits: "request_fits request (receive_updates e)"
    and s: "push_request srv t wrote e buf request = (r, e', buf')"
  shows "\<exists>new. extended srv e0 [t] e ls e' buf' new \<and> requests_in new = answer r request"
proof -
  obtain prefix bd where p: "request_payload srv e request = (prefix, bd)" by fastforce
  define bs where "bs = prefix @ bd"
  have same: "same_config e0 e" using c by (simp add: carries_def)
  have bs: "bs = request_body srv e0 request" "bs = request_body srv e request"
    using request_body_config[OF same, of srv request] by (simp_all add: bs_def request_body_def p)
  obtain mid e1 b1 where h: "serialize_msg_header t e buf (length bs) True = (mid, e1, b1)"
    by (metis prod.exhaust)
  obtain s where e1: "e1 = e\<lparr>last_msg_id := mid, sequence := s, msg_count := msg_count e + 1\<rparr>"
    using header_fields[OF h] by blast
  define deferred where "deferred = e\<lparr>request_deferred_by_ack := request_deferred_by_ack e \<or> wrote\<rparr>"
  have step: "push_request srv t wrote e buf request =
      (if msg_count e = MAXIMUM_LENGTH \<or> \<not> message_fits e buf (length bs) then (None, deferred, buf)
       else (Some mid, e1\<lparr>request_deferred_by_ack := False\<rparr>, deque_extend bs b1))"
    using h by (simp add: push_request_def Let_def p deferred_def bs_def deque_extend_append)
  show ?thesis
  proof (cases "msg_count e = MAXIMUM_LENGTH \<or> \<not> message_fits e buf (length bs)")
    case True
    with s step have "r = None" "e' = deferred" "buf' = buf" by simp_all
    moreover have "carries srv e0 deferred buf ls" using c
      by (auto simp: deferred_def carries_def same_config_def session_ok_def)
    ultimately show ?thesis by (auto simp: answer_def deferred_def intro!: exI[of _ "[]"] extended_refl)
  next
    case False
    then have "(r, e', buf') = (Some mid, e1\<lparr>request_deferred_by_ack := False\<rparr>, deque_extend bs b1)"
      using s step by simp
    then have r: "r = Some mid" and e': "e' = e1\<lparr>request_deferred_by_ack := False\<rparr>" and b': "buf' = deque_extend bs b1"
      by simp_all
    have "\<exists>m. msg_id m = mid \<and> extended srv e0 [t] e ls e' (deque_extend bs b1) [(FromRequest request, m)]"
    proof (rule write_extended[OF c])
      show "serialize_msg_header t e buf (length bs) (content (FromRequest request)) = (mid, e1, b1)" using h by simp
      show "pending_ack e = acks_of (FromRequest request, undefined) @ pending_ack e" by simp
      show "4 \<le> length bs" "length bs mod 4 = 0" unfolding bs(2) by (rule request_body_aligned[OF fits])+
      show "message_fits e buf (length bs)" using False by simp
    qed (simp_all add: bs(1) e' e1 same_config_def session_ok_def)
    then obtain m where "msg_id m = mid" "extended srv e0 [t] e ls e' buf' [(FromRequest request, m)]" unfolding b' by blast
    then show ?thesis by (intro exI[of _ "[(FromRequest request, m)]"]) (simp add: answer_def r)
  qed
qed

lemma push_extended:
  assumes c: "carries srv e0 e buf ls" and srv: "salts_request_ok srv"
    and s: "push srv now t1 t2 e buf request = (r, e', buf')"
  shows "\<exists>new. extended srv e0 [t1, t1, t2] e ls e' buf' new \<and> requests_in new = answer r request"
proof (cases "request_fits request (receive_updates e)")
  case False
  with s c show ?thesis by (auto simp: push_def answer_def intro!: exI[of _ "[]"] extended_refl)
next
  case fits: True
  define e1 where "e1 = advance_salt now e"
  have e1: "\<exists>xs. e1 = e\<lparr>salts := xs\<rparr>"
    by (intro exI[of _ "salts e1"]) (auto simp: e1_def advance_salt_def split: option.splits)
  then have c1: "carries srv e0 e1 buf ls" using c by (auto simp: carries_def same_config_def session_ok_def)
  obtain e2 b2 where s2: "try_request_salts srv t1 e1 buf = (e2, b2)" by fastforce
  obtain new2 where n2: "extended srv e0 [t1] e1 ls e2 b2 new2" "requests_in new2 = []"
    using salts_extended[OF c1 srv s2] by blast
  have "rising e0 e1 xs = rising e0 e xs" for xs using e1 by (auto simp: rising_def)
  then have n2': "extended srv e0 [t1] e ls e2 b2 new2" using n2(1) by (simp add: extended_def)
  have c2: "carries srv e0 e2 b2 (ls @ new2)" using n2(1) by (simp add: extended_def)
  then have fits2: "request_fits request (receive_updates e2)"
    using fits c by (simp add: carries_def same_config_def)
  show ?thesis
  proof (cases "salt_request_msg_id e1 = None \<and> salt_request_msg_id e2 \<noteq> None")
    case True
    then have "r = None" "e' = e2" "buf' = b2"
      using s fits s2 by (simp_all add: push_def Let_def flip: e1_def)
    with n2' n2(2) show ?thesis by (auto simp: answer_def extended_def)
  next
    case False
    define step3 where "step3 = (if \<not> request_deferred_by_ack e2 \<and> ack_due now e2 then serialize_pending_ack t1 e2 b2 else (e2, b2))"
    obtain e3 b3 where s3: "step3 = (e3, b3)" by fastforce
    have "\<exists>new. extended srv e0 [t1] e2 (ls @ new2) e3 b3 new \<and> requests_in new = []"
      using pending_ack_extended[OF c2, of t1 e3 b3] s3 c2
      by (auto simp: step3_def split: if_splits intro!: exI[of _ "[]"] extended_refl)
    then obtain new3 where n3: "extended srv e0 [t1] e2 (ls @ new2) e3 b3 new3" "requests_in new3 = []" by blast
    then have c3: "carries srv e0 e3 b3 (ls @ new2 @ new3)" by (simp add: extended_def)
    have s4: "push_request srv t2 (msg_count e3 \<noteq> msg_count e2) e3 b3 request = (r, e', buf')"
      using s fits s2 False s3[unfolded step3_def] unfolding push_def Let_def e1_def[symmetric]
      by (auto split: if_splits)
    have "request_fits request (receive_updates e3)"
      using fits2 c2 c3 by (simp add: carries_def same_config_def)
    from request_extended[OF c3 this s4] obtain new4 where
      n4: "extended srv e0 [t2] e3 (ls @ new2 @ new3) e' buf' new4" "requests_in new4 = answer r request" by blast
    have "extended srv e0 ([t1] @ [t1] @ [t2]) e ls e' buf' (new2 @ new3 @ new4)"
      using extended_trans[OF n2' extended_trans[OF n3(1)]] n4(1) by simp
    with n2(2) n3(2) n4(2) show ?thesis by (intro exI[of _ "new2 @ new3 @ new4"]) simp
  qed
qed

section \<open>A packet from the first push to its end\<close>

text \<open>The requests of a packet, each with the clock readings of its call.\<close>

fun push_all ::
    "services \<Rightarrow> encrypted \<Rightarrow> buffer \<Rightarrow> (instant \<times> system_time \<times> system_time \<times> bytes) list \<Rightarrow>
     int option list \<times> encrypted \<times> buffer" where
  "push_all srv e buf [] = ([], e, buf)"
| "push_all srv e buf ((now, t1, t2, request) # ps) =
     (case push srv now t1 t2 e buf request of
        (r, e1, b1) \<Rightarrow> (case push_all srv e1 b1 ps of (rs, e2, b2) \<Rightarrow> (r # rs, e2, b2)))"

definition accepted :: "int option list \<Rightarrow> (instant \<times> system_time \<times> system_time \<times> bytes) list \<Rightarrow> (int \<times> bytes) list" where
  "accepted rs ps = concat (map2 (\<lambda>r (_, _, _, request). answer r request) rs ps)"

definition readings :: "(instant \<times> system_time \<times> system_time \<times> bytes) list \<Rightarrow> system_time list" where
  "readings ps = concat (map (\<lambda>(_, t1, t2, _). [t1, t1, t2]) ps)"

lemma push_all_extended:
  assumes "carries srv e0 e buf ls" "salts_request_ok srv" "push_all srv e buf ps = (rs, e', buf')"
  shows "\<exists>new. extended srv e0 (readings ps) e ls e' buf' new \<and> requests_in new = accepted rs ps"
  using assms
proof (induction ps arbitrary: e buf ls rs)
  case Nil
  then show ?case by (auto simp: accepted_def readings_def intro!: exI[of _ "[]"] extended_refl)
next
  case (Cons p ps)
  obtain now t1 t2 request where p: "p = (now, t1, t2, request)" by (cases p) auto
  obtain r e1 b1 where s: "push srv now t1 t2 e buf request = (r, e1, b1)" by (metis prod.exhaust)
  obtain rs' where s': "push_all srv e1 b1 ps = (rs', e', buf')" "rs = r # rs'"
    using Cons.prems(3) s p by (auto split: prod.splits)
  obtain new1 where n1: "extended srv e0 [t1, t1, t2] e ls e1 b1 new1" "requests_in new1 = answer r request"
    using push_extended[OF Cons.prems(1,2) s] by blast
  then have "carries srv e0 e1 b1 (ls @ new1)" by (simp add: extended_def)
  from Cons.IH[OF this Cons.prems(2) s'(1)] obtain new2 where
    n2: "extended srv e0 (readings ps) e1 (ls @ new1) e' buf' new2" "requests_in new2 = accepted rs' ps" by blast
  show ?case
    using extended_trans[OF n1(1) n2(1)] n1(2) n2(2)
    by (intro exI[of _ "new1 @ new2"]) (simp add: p s' accepted_def readings_def)
qed

lemma finalize_acks_extended:
  assumes c: "carries srv e0 e buf ls" and s: "finalize_acks now t e buf = (e', buf')"
  shows "\<exists>new. extended srv e0 [t] e ls e' buf' new \<and> requests_in new = []"
  using pending_ack_extended[OF c, of t e' buf'] s c
  by (auto simp: finalize_acks_def Let_def split: if_splits intro!: exI[of _ "[]"] extended_refl)

subsection \<open>Reading a packet\<close>

text \<open>The other side of the connection: salt, session and message, read with the session's own readers.\<close>

definition envelope_reader :: "(i64 \<times> i64 \<times> message) reader" where
  "envelope_reader = and_then deserialize_i64 (\<lambda>s. and_then deserialize_i64 (\<lambda>i.
     and_then deserialize_message (\<lambda>m. done_with (s, i, m))))"

definition children_of :: "bytes \<Rightarrow> deserialize_error + message list" where
  "children_of bs =
     (case borrowed_messages_validated bs None of
        Inl e \<Rightarrow> Inl e
      | Inr it \<Rightarrow>
          (case read_times deserialize_message (remaining_messages it) (iter_cursor it) of
             (Inl e, _) \<Rightarrow> Inl (from_tl_error e)
           | (Inr ms, _) \<Rightarrow> Inr ms))"

text \<open>A message alone is the envelope's own; several are the children of a container.\<close>

definition delivers :: "message \<Rightarrow> message list \<Rightarrow> bool" where
  "delivers env ms \<longleftrightarrow> (if length ms = 1 then ms = [env] else children_of (body env) = Inr ms)"

lemma check_children_at:
  "list_all message_ok ms \<Longrightarrow>
   check_children None (length ms) (at pre (concat (map serialize_message ms) @ rest) d) =
     Inr (at (pre @ concat (map serialize_message ms)) rest d)"
  by (induction ms arbitrary: pre) (simp_all add: messagec.roundtrip)

lemma length_messages: "length (concat (map serialize_message ms)) \<ge> 16 * length ms"
  by (induction ms) simp_all

lemma children_of_container:
  assumes ok: "list_all message_ok ms" and n: "length ms \<le> 1024"
  shows "children_of (serialize_u32 container_id @ serialize_i32 (of_nat (length ms)) @ concat (map serialize_message ms)) = Inr ms"
proof -
  let ?dat = "concat (map serialize_message ms)"
  have s: "sint (of_nat (length ms) :: i32) = int (length ms)" using n by (intro sint_of_nat32) simp
  have "length ms \<le> length ?dat div SIZE_OVERHEAD" using length_messages[of ms] by (simp add: SIZE_OVERHEAD_def)
  then have "borrowed_messages_validated (serialize_u32 container_id @ serialize_i32 (of_nat (length ms)) @ ?dat) None =
      Inr \<lparr>iter_cursor = from_slice ?dat, remaining_messages = length ms\<rparr>"
    using n s check_children_at[OF ok, of "[]" "[]" 0]
    by (simp add: borrowed_messages_validated_def from_slice_at i64_roundtrip Let_def) (simp add: at_def from_slice_def)
  then show ?thesis
    using messagec.read_times_roundtrip[OF ok, of "[]" "[]" 0] by (simp add: children_of_def from_slice_at)
qed

text \<open>Finishing a packet in the clear.\<close>

lemma finalize_plain_reads:
  assumes c: "carries srv e0 e buf ls" and ls: "ls \<noteq> []" and s: "finalize_plain t e buf = (e', buf')"
  obtains env where
    "from_bytes envelope_reader (as_ref buf' @ rest) = Inr (word_of_int (get_current_salt e), word_of_int (session_id e0), env)"
    "delivers env (map snd ls)" "deque_inv buf'" "length (as_ref buf') \<le> length (as_ref buf) + 40"
    "length (as_ref buf') \<ge> 16" "enc_auth_key e' = enc_auth_key e0" "pending_ack e' = pending_ack e"
    "msg_count e' = 0" "session_ok e'" "same_config e0 e'"
    "rising e0 e (ids_in ls) \<longrightarrow> clock_fine e0 t \<longrightarrow>
       rising e0 e' (ids_in ls @ (if length ls = 1 then [] else [msg_id env]))"
proof -
  let ?ms = "map snd ls"
  have cc: "deque_inv buf" "as_ref buf = concat (map serialize_message ?ms)" "msg_count e = length ls"
    "length ls \<le> MAXIMUM_LENGTH" "length (as_ref buf) \<le> MAXIMUM_SIZE" "session_ok e" "same_config e0 e"
    using c by (auto simp: carries_def o_def)
  have ok: "list_all message_ok ?ms" using c by (auto simp: carries_def letter_ok_def list_all_iff)
  have cfg: "session_id e = session_id e0" "enc_auth_key e = enc_auth_key e0" using cc(7) by (simp_all add: same_config_def)
  have env_read: "from_bytes envelope_reader (serialize_i64 s @ serialize_i64 i @ serialize_message m @ r) = Inr (s, i, m)"
    if "message_ok m" for s i m r
    using that messagec.roundtrip[OF that, of "serialize_i64 s @ serialize_i64 i" r 0]
    by (simp add: from_bytes_def envelope_reader_def from_slice_at)
  show thesis
  proof (cases "length ls = 1")
    case True
    then obtain l where l: "ls = [l]" by (cases ls) auto
    have out: "e' = e\<lparr>msg_count := 0\<rparr>"
      "as_ref buf' = serialize_i64 (word_of_int (get_current_salt e)) @ serialize_i64 (word_of_int (session_id e0)) @ serialize_message (snd l)"
      "deque_inv buf'"
      using s True cc(1-3) l cfg by (auto simp: finalize_plain_def Let_def)
    show thesis
    proof (rule that[of "snd l"])
      show "from_bytes envelope_reader (as_ref buf' @ rest) =
          Inr (word_of_int (get_current_salt e), word_of_int (session_id e0), snd l)"
        using env_read[of "snd l"] ok l by (simp add: out)
    qed (use out l cfg cc in \<open>auto simp: delivers_def session_ok_def same_config_def rising_def\<close>)
  next
    case False
    obtain mid ea where g: "get_new_msg_id t e = (mid, ea)" by fastforce
    note ids = new_msg_id[OF cc(6) g]
    define bd where "bd = serialize_u32 container_id @ serialize_i32 (of_nat (length ls)) @ as_ref buf"
    define env where "env = \<lparr>msg_id = mid, seq_no = sequence e, body = bd\<rparr>"
    have out: "e' = e\<lparr>last_msg_id := mid, msg_count := 0\<rparr>"
      "as_ref buf' = serialize_i64 (word_of_int (get_current_salt e)) @ serialize_i64 (word_of_int (session_id e0)) @ serialize_message env"
      "deque_inv buf'"
      using s False ls cc(1-3) g ids(1) cfg
      by (auto simp: finalize_plain_def Let_def get_seq_no_def get_current_salt_def serialize_message_def env_def bd_def add.commute)
    have "length (as_ref buf) mod 4 = 0"
      unfolding cc(2) using ok by (induction ls) (auto simp: message_ok_def mod_add_eq[symmetric])
    then have "(8 + length (as_ref buf)) mod 4 = 0" by presburger
    then have "message_ok env"
      using ids(3) cc(5,6) by (simp add: env_def bd_def message_ok_def session_ok_def MAXIMUM_SIZE_def CONTAINER_OVERHEAD_def)
    moreover have "children_of bd = Inr ?ms"
      using children_of_container[OF ok] cc(4) by (simp add: bd_def cc(2) MAXIMUM_LENGTH_def)
    ultimately show thesis
    proof (intro that[of env])
      have fine: "clock_fine e t = clock_fine e0 t" by (rule clock_fine_config[OF cc(7)])
      have "rising e0 e' (ids_in ls @ [mid])" if "rising e0 e (ids_in ls)" "clock_fine e0 t"
        using rising_new_id[OF that(1) _ _ g, of "sequence e"] that(2) fine cc(4)
        by (simp add: ids(1) out rising_def MAXIMUM_LENGTH_def)
      then show "rising e0 e (ids_in ls) \<longrightarrow> clock_fine e0 t \<longrightarrow>
          rising e0 e' (ids_in ls @ (if length ls = 1 then [] else [msg_id env]))" using False by (simp add: env_def)
    qed (use out False cfg cc ids env_read[of env] in
          \<open>auto simp: delivers_def session_ok_def same_config_def env_def bd_def\<close>)
  qed
qed

subsection \<open>The whole packet\<close>

text \<open>What the packet relies on: the documented laws of the cipher, the hash and the TL encoding.\<close>

definition services_ok :: "services \<Rightarrow> bool" where
  "services_ok srv \<longleftrightarrow> salts_request_ok srv \<and> (\<forall>m. length (sha256 srv m) = 32) \<and>
     (\<forall>key. block_pair (aes_encrypt srv key) (aes_decrypt srv key))"

text \<open>A session between two packets: nothing is written yet.\<close>

definition packet_start :: "encrypted \<Rightarrow> buffer \<Rightarrow> bool" where
  "packet_start e buf \<longleftrightarrow> session_ok e \<and> msg_count e = 0 \<and> deque_inv buf \<and> as_ref buf = []"

lemma packet_start_carries: "packet_start e buf \<Longrightarrow> carries srv e e buf []"
  by (simp add: packet_start_def carries_def same_config_def)

text \<open>The bytes are the client's envelope of a packet of these letters, or nothing without letters.\<close>

definition packet_of :: "services \<Rightarrow> encrypted \<Rightarrow> encrypted \<Rightarrow> bytes \<Rightarrow> letter list \<Rightarrow> message \<Rightarrow> bool" where
  "packet_of srv e e2 bs ls env \<longleftrightarrow>
     (if ls = [] then bs = []
      else \<exists>padded. bs = seal (aes_encrypt srv) (sha256 srv) (enc_auth_key e) Client padded \<and>
             from_bytes envelope_reader padded =
               Inr (word_of_int (get_current_salt e2), word_of_int (session_id e), env) \<and>
             delivers env (map snd ls))"

lemma packet_cycle:
  assumes start: "packet_start e buf" and srv: "services_ok srv" and pad: "length padding = 32"
    and ps: "push_all srv e buf ps = (rs, e1, b1)"
  shows "\<exists>ls last_id e2 b2 env. finalize srv now t1 t2 padding e1 b1 = Some (last_id, e2, b2) \<and>
    packet_of srv e e2 (as_ref b2) ls env \<and> requests_in ls = accepted rs ps \<and>
    acks_in ls @ pending_ack e2 = pending_ack e \<and> list_all (letter_ok srv e) ls \<and>
    list_all (\<lambda>l. length (body (snd l)) \<le> MAXIMUM_SIZE) ls \<and> length ls \<le> MAXIMUM_LENGTH \<and> length (as_ref b2) \<le> length (ak_key_id (enc_auth_key e)) + 16 + MAXIMUM_SIZE + 67 \<and>
    packet_start e2 (clear 0 b2) \<and> last_id = (if ls = [] then None else Some (last_msg_id e2)) \<and>
    (last_msg_id e < ID_LIMIT \<longrightarrow> list_all (clock_fine e) (readings ps @ [t1, t2]) \<longrightarrow>
       rising e e2 (ids_in ls @ (if length ls \<le> 1 then [] else [msg_id env])))"
proof -
  have sr: "salts_request_ok srv" using srv by (simp add: services_ok_def)
  obtain new1 where n1: "extended srv e (readings ps) e [] e1 b1 new1" "requests_in new1 = accepted rs ps"
    using push_all_extended[OF packet_start_carries[OF start] sr ps] by blast
  then have c1: "carries srv e e1 b1 new1" by (simp add: extended_def)
  obtain ea ba where fa: "finalize_acks now t1 e1 b1 = (ea, ba)" by fastforce
  obtain new2 where n2: "extended srv e [t1] e1 new1 ea ba new2" "requests_in new2 = []"
    using finalize_acks_extended[OF c1 fa] by blast
  define ls where "ls = new1 @ new2"
  have ext: "extended srv e (readings ps @ [t1]) e [] ea ba ls"
    using extended_trans[OF n1(1), of "[t1]" ea ba new2] n2(1) by (simp add: ls_def)
  have ca: "carries srv e ea ba ls" using n2(1) by (simp add: extended_def ls_def)
  have start_rise: "last_msg_id e < ID_LIMIT \<Longrightarrow> rising e e []" by (simp add: rising_def)
  have common: "requests_in ls = accepted rs ps" "acks_in ls @ pending_ack ea = pending_ack e"
    "list_all (letter_ok srv e) ls" "length ls \<le> MAXIMUM_LENGTH" "length (as_ref ba) \<le> MAXIMUM_SIZE"
    "session_ok ea" "msg_count ea = length ls" "deque_inv ba"
    using n1(2) n2(2) ca by (auto simp: ls_def carries_def)
  have "length (body (snd l)) \<le> MAXIMUM_SIZE" if "l \<in> set ls" for l
  proof -
    have "length (serialize_message (snd l)) \<le> length (concat (map (\<lambda>l. serialize_message (snd l)) ls))"
      using that by (induction ls) auto
    moreover have "as_ref ba = concat (map (\<lambda>l. serialize_message (snd l)) ls)" using ca by (simp add: carries_def)
    ultimately show ?thesis using common(5) by (simp add: serialize_message_def)
  qed
  then have small: "list_all (\<lambda>l. length (body (snd l)) \<le> MAXIMUM_SIZE) ls" by (simp add: list_all_iff)
  show ?thesis
  proof (cases "ls = []")
    case True
    then have "as_ref ba = []" "msg_count ea = 0" using ca by (simp_all add: carries_def)
    then have "finalize srv now t1 t2 padding e1 b1 = Some (None, ea, ba)" "as_ref ba = []"
      using common(8) by (simp_all add: finalize_def fa finalize_plain_def is_empty_as_ref)
    then show ?thesis
      using common True ext start_rise
      by (intro exI[of _ "[]"] exI[of _ None] exI[of _ ea] exI[of _ ba] exI[of _ undefined])
        (auto simp: extended_def packet_of_def packet_start_def as_ref_clear)
  next
    case False
    obtain ef bf where ff: "finalize_plain t2 ea ba = (ef, bf)" by fastforce
    define n where "n = determine_padding_v2_length (len bf)"
    obtain env where env:
      "from_bytes envelope_reader (as_ref bf @ take n padding) = Inr (word_of_int (get_current_salt ea), word_of_int (session_id e), env)"
      "delivers env (map snd ls)" "deque_inv bf" "length (as_ref bf) \<le> length (as_ref ba) + 40"
      "length (as_ref bf) \<ge> 16" "enc_auth_key ef = enc_auth_key e" "pending_ack ef = pending_ack ea"
      "msg_count ef = 0" "session_ok ef" "same_config e ef"
      "rising e ea (ids_in ls) \<longrightarrow> clock_fine e t2 \<longrightarrow>
         rising e ef (ids_in ls @ (if length ls = 1 then [] else [msg_id env]))"
      using finalize_plain_reads[OF ca False ff] .
    have salt: "get_current_salt ef = get_current_salt ea"
      using ff by (auto simp: finalize_plain_def get_new_msg_id_def get_seq_no_def get_current_salt_def Let_def split: if_splits)
    have "\<forall>key. block_pair (aes_encrypt srv key) (aes_decrypt srv key)" "\<forall>m. length (sha256 srv m) = 32"
      using srv by (simp_all add: services_ok_def)
    note laws = this
    from encrypted_sealed[OF env(3) pad laws] obtain b2 where b2: "n \<le> 27"
      "do_encrypt_data_v2 (aes_encrypt srv) (sha256 srv) bf (enc_auth_key e) padding = Some b2" "deque_inv b2"
      "as_ref b2 = seal (aes_encrypt srv) (sha256 srv) (enc_auth_key e) Client (as_ref bf @ take n padding)"
      unfolding n_def by blast
    have "as_ref bf \<noteq> []" using env(5) by auto
    then have fin: "finalize srv now t1 t2 padding e1 b1 = Some (Some (last_msg_id ef), ef, b2)"
      using env(3,6) b2(2) by (simp add: finalize_def fa ff is_empty_as_ref)
    have rise: "rising e ef (ids_in ls @ (if length ls \<le> 1 then [] else [msg_id env]))"
      if "last_msg_id e < ID_LIMIT" "list_all (clock_fine e) (readings ps @ [t1, t2])"
      using ext start_rise[OF that(1)] that(2) env(11) False by (cases ls) (auto simp: extended_def)
    have packet: "packet_of srv e ef (as_ref b2) ls env"
      using env(1,2) b2(4) False by (auto simp: packet_of_def salt)
    have "length (as_ref b2) \<le> length (ak_key_id (enc_auth_key e)) + 16 + MAXIMUM_SIZE + 67"
      unfolding b2(4) length_seal[OF laws] using env(4) common(5) b2(1) by simp
    then show ?thesis
      using fin packet rise common small env(7-9) b2(3) False
      by (intro exI[of _ ls] exI[of _ "Some (last_msg_id ef)"] exI[of _ ef] exI[of _ b2] exI[of _ env])
        (auto simp: packet_start_def as_ref_clear)
  qed
qed

end
