(* ===== verification/Encrypted_Packets.thy ===== *)
theory Encrypted_Packets
  imports Encrypted_Sending Encrypted_Receive
begin

text \<open>
  Properties of the packets that the encrypted session sends, from the first push to the encrypted
  bytes, and a sample session with services that keep their laws, for evaluation.
\<close>

section \<open>A sample session\<close>

definition parse_salt :: "future_salt reader" where
  "parse_salt = and_then deserialize_i32 (\<lambda>a. and_then deserialize_i32 (\<lambda>b. and_then deserialize_i64 (\<lambda>s.
     done_with \<lparr>valid_since = sint a, valid_until = sint b, salt = sint s\<rparr>)))"

text \<open>Skip a constructor, then read fields in the order of the schema.\<close>

definition after_id :: "'a reader \<Rightarrow> bytes \<Rightarrow> tl_error + 'a" where
  "after_id r = from_bytes (and_then deserialize_u32 (\<lambda>_. r))"

definition sample_services :: services where
  "sample_services = \<lparr>aes_encrypt = toy_block, aes_decrypt = toy_block, sha1 = (\<lambda>_. replicate 20 4), sha256 = toy_hash,
     deflate = (\<lambda>m. m), inflate = (\<lambda>m. (m, Some (length m))),
     get_future_salts = (\<lambda>n. serialize_u32 0xb921bd04 @ serialize_i32 (word_of_int n)),
     parse_msgs_ack = (\<lambda>_. Inr []),
     parse_bad_msg = after_id (and_then deserialize_i64 (\<lambda>i. and_then deserialize_i32 (\<lambda>s. and_then deserialize_i32 (\<lambda>c.
       done_with (Notification (sint i) (sint s) (sint c)))))),
     parse_detailed_info = after_id (and_then deserialize_i64 (\<lambda>i. done_with (NewDetailedInfo (sint i) 0 0))),
     parse_future_salts = after_id (and_then deserialize_i64 (\<lambda>i. and_then deserialize_i32 (\<lambda>n.
       and_then (deserialize_raw_vec parse_salt) (\<lambda>ss. done_with \<lparr>fs_req_msg_id = sint i, fs_now = sint n, fs_salts = ss\<rparr>)))),
     parse_pong = after_id (and_then deserialize_i64 (\<lambda>i. and_then deserialize_i64 (\<lambda>p. done_with (sint i, sint p)))),
     parse_new_session = after_id (and_then deserialize_i64 (\<lambda>f. and_then deserialize_i64 (\<lambda>u. and_then deserialize_i64 (\<lambda>s.
       done_with (sint f, sint u, sint s))))),
     parse_rpc_error = after_id (and_then deserialize_i32 (\<lambda>c. and_then read_bytes (\<lambda>t.
       done_with \<lparr>rpc_error_code = sint c, rpc_error_message = t\<rparr>)))\<rparr>"

definition sample_session :: encrypted where
  "sample_session =
     (case finish_with_rng sample_services build (replicate 256 7) (Inr (replicate 8 1) :: unit + bytes) of
        Inr e \<Rightarrow> snd (queue_ack 0 5 e))"

definition sample_buffer :: buffer where
  "sample_buffer = with_capacity 0 0 64"

definition sample_requests :: "(instant \<times> system_time \<times> system_time \<times> bytes) list" where
  "sample_requests = [(9, (1700000000, 5), (1700000000, 6), replicate 8 7), (9, (1700000000, 7), (1700000000, 8), replicate 12 8)]"

lemma services_ok_sample: "services_ok sample_services"
  by (simp add: services_ok_def salts_request_ok_def sample_services_def block_pair_def toy_block_def toy_hash_def)

lemma packet_start_sample: "packet_start sample_session sample_buffer"
  by (simp add: packet_start_def sample_session_def finish_with_rng_def queue_ack_def sample_buffer_def
      session_ok_def i64_ok_def i32_ok_def)

lemma key_id_sample: "length (ak_key_id (enc_auth_key sample_session)) = 8"
  by (simp add: sample_session_def finish_with_rng_def queue_ack_def auth_key_from_bytes_def sample_services_def)

section \<open>What a packet contains\<close>

text \<open>
  How the other side reads a message, stated without the functions that write one: a compressed
  object is inflated, and the call is the request itself or the request behind the constructor of
  \<open>invokeWithoutUpdates\<close>. A session that wants no updates asks for that with every request except
  the calls of the protocol itself and requests that ask for it already.
\<close>

definition starts_with :: "u32 \<Rightarrow> bytes \<Rightarrow> bool" where
  "starts_with cid bs \<longleftrightarrow> take 4 bs = serialize_u32 cid"

definition read_call :: "inflater \<Rightarrow> bytes \<Rightarrow> bytes option" where
  "read_call unzip bs =
     (if starts_with gzip_packed_id bs then
        (case from_bytes deserialize_gzip_packed bs of
           Inl _ \<Rightarrow> None
         | Inr packed \<Rightarrow>
             (case unzip packed of (out, ending) \<Rightarrow> if ending = Some (length packed) then Some out else None))
      else Some bs)"

definition unwrapped_calls :: "u32 list" where
  "unwrapped_calls = [0x7abe77ec, 0xf3427b8c, 0xb921bd04, 0x58e4a740, 0xe7512126, without_updates_id]"

definition call_for :: "bool \<Rightarrow> bytes \<Rightarrow> bytes" where
  "call_for updates request =
     (if updates \<or> list_ex (\<lambda>cid. starts_with cid request) unwrapped_calls then request
      else serialize_u32 without_updates_id @ request)"

definition letter_read :: "services \<Rightarrow> bool \<Rightarrow> letter \<Rightarrow> bool" where
  "letter_read srv updates l \<longleftrightarrow>
     (case l of (og, m) \<Rightarrow> (odd (seq_no m) \<longleftrightarrow> content og) \<and> 4 dvd msg_id m \<and>
        (case og of
           FromRequest request \<Rightarrow> read_call (inflate srv) (body m) = Some (call_for updates request)
         | FromAcks acks \<Rightarrow>
             from_bytes (and_then deserialize_u32 (\<lambda>cid. if cid \<noteq> msgs_ack_id then fail_with (UnexpectedConstructor cid)
               else deserialize_vec deserialize_i64)) (body m) = Inr (map word_of_int acks)
         | ForSalts \<Rightarrow> body m = get_future_salts srv NUM_FUTURE_SALTS))"

text \<open>
  What reading relies on: the decompressor gives back what the compressor got and consumes all of
  it, and no request starts with the constructor of a compressed object.
\<close>

definition gzip_ok :: "services \<Rightarrow> bool" where
  "gzip_ok srv \<longleftrightarrow> (\<forall>bs. inflate srv (deflate srv bs) = (bs, Some (length (deflate srv bs))))"

lemma starts_with_serialize [simp]: "starts_with cid (serialize_u32 c @ bs) \<longleftrightarrow> cid = c"
  using u32c.ser_prefix_free[where x = cid and y = c and ?r1.0 = "[]" and ?r2.0 = "[]"] by (auto simp: starts_with_def)

lemma constructor_starts: "from_bytes deserialize_u32 bs = Inr c \<longleftrightarrow> starts_with c bs"
proof (cases "4 \<le> length bs")
  case True
  define w where "w = le_word32 (take 4 bs)"
  have "take 4 bs = serialize_u32 w" using True by (simp add: w_def serialize_u32_def le_bytes32_le_word32)
  then have bs: "bs = serialize_u32 w @ drop 4 bs" by (metis append_take_drop_id)
  have "from_bytes deserialize_u32 bs = Inr w" by (subst bs, rule u32c.from_bytes_ser) simp
  moreover have "starts_with c bs \<longleftrightarrow> c = w" by (subst bs) simp
  ultimately show ?thesis by auto
next
  case False
  then have "length (take 4 bs) \<noteq> length (serialize_u32 c)" by simp
  then have "\<not> starts_with c bs" unfolding starts_with_def by (rule contrapos_nn) simp
  moreover have "from_bytes deserialize_u32 bs \<noteq> Inr c"
    using False by (auto simp: from_bytes_def deserialize_u32_def and_then_def read_exact_def from_slice_def split: if_splits)
  ultimately show ?thesis by simp
qed

lemma prefix_call:
  "take (without_updates_prefix_len request updates) (serialize_u32 without_updates_id) @ request = call_for updates request"
proof (cases "from_bytes deserialize_u32 request")
  case (Inl x)
  then have "\<not> starts_with c request" for c using constructor_starts[of request c] by simp
  then show ?thesis using Inl by (simp add: without_updates_prefix_len_def call_for_def Let_def list_ex_iff)
next
  case (Inr c)
  then have "starts_with d request \<longleftrightarrow> d = c" for d using constructor_starts[of request d] by auto
  then show ?thesis
    using Inr by (simp add: without_updates_prefix_len_def call_for_def Let_def unwrapped_calls_def without_updates_id_def)
qed

lemma request_read:
  assumes g: "gzip_ok srv" and r: "\<not> starts_with gzip_packed_id request"
    and l: "length (request_body srv e request) \<le> MAXIMUM_SIZE"
  shows "read_call (inflate srv) (request_body srv e request) = Some (call_for (receive_updates e) request)"
proof -
  define prefix where "prefix = take (without_updates_prefix_len request (receive_updates e)) (serialize_u32 without_updates_id)"
  define z where "z = deflate srv (prefix @ request)"
  have call: "prefix @ request = call_for (receive_updates e) request" by (simp add: prefix_def prefix_call)
  consider (zip) "request_body srv e request = serialize_gzip_packed z" | (raw) "request_body srv e request = prefix @ request"
    unfolding request_body_def request_payload_def prefix_def[symmetric] new_prefixed_def z_def[symmetric] Let_def
    by (cases "(case compression_threshold e of None \<Rightarrow> False | Some threshold \<Rightarrow> threshold \<le> length prefix + length request) \<and>
        length (serialize_gzip_packed z) < length prefix + length request") simp_all
  then show ?thesis
  proof cases
    case zip
    have "length z \<le> length (serialize_gzip_packed z)"
      by (simp add: serialize_gzip_packed_def serialize_bytes_def Let_def)
    then have "length z < 2 ^ 24" using l unfolding zip by (simp add: MAXIMUM_SIZE_def CONTAINER_OVERHEAD_def)
    then have "from_bytes deserialize_gzip_packed (serialize_gzip_packed z) = Inr z"
      using gzipc.from_bytes_ser[of z "[]"] by simp
    moreover have "starts_with gzip_packed_id (serialize_gzip_packed z)" by (simp add: serialize_gzip_packed_def)
    moreover have "inflate srv z = (prefix @ request, Some (length z))" using g by (simp add: gzip_ok_def z_def)
    ultimately show ?thesis by (simp add: zip read_call_def call)
  next
    case raw
    have "\<not> starts_with gzip_packed_id (call_for (receive_updates e) request)"
      using r by (simp add: call_for_def without_updates_id_def gzip_packed_id_def)
    then show ?thesis by (simp add: raw read_call_def call)
  qed
qed

lemma acks_read:
  assumes "length acks < 2 ^ 32"
  shows "from_bytes (and_then deserialize_u32 (\<lambda>cid. if cid \<noteq> msgs_ack_id then fail_with (UnexpectedConstructor cid)
           else deserialize_vec deserialize_i64)) (serialize_u32 msgs_ack_id @ serialize_vec (\<lambda>i. serialize_i64 (word_of_int i)) acks) =
         Inr (map word_of_int acks)"
proof -
  have v: "serialize_vec (\<lambda>i. serialize_i64 (word_of_int i)) acks = serialize_vec serialize_i64 (map word_of_int acks)"
    by (simp add: serialize_vec_def comp_def)
  have slice: "from_slice bs = at [] bs 0" for bs by (simp add: from_slice_def at_def)
  have "deserialize_vec deserialize_i64 (at (serialize_u32 msgs_ack_id) (serialize_vec serialize_i64 (map word_of_int acks)) 0) =
      (Inr (map word_of_int acks), at (serialize_u32 msgs_ack_id @ serialize_vec serialize_i64 (map word_of_int acks)) [] 0)"
    using vi64.roundtrip[of "map word_of_int acks" "serialize_u32 msgs_ack_id" "[]" 0] assms by (simp add: list_all_iff)
  then show ?thesis
    unfolding v from_bytes_def slice using u32c.roundtrip[where x = msgs_ack_id and pre = "[]" and d = 0] by (simp add: and_then_def)
qed

lemma acks_length: "length acks \<le> length (serialize_vec (\<lambda>i. serialize_i64 (word_of_int i)) acks)"
  by (induction acks) (simp_all add: serialize_vec_def serialize_raw_vec_def)

lemma letters_read:
  assumes g: "gzip_ok srv" and p: "\<forall>(_, _, _, request)\<in>set ps. \<not> starts_with gzip_packed_id request"
    and ls: "list_all (letter_ok srv e) ls" "list_all (\<lambda>l. length (body (snd l)) \<le> MAXIMUM_SIZE) ls"
      "requests_in ls = accepted rs ps"
  shows "list_all (letter_read srv (receive_updates e)) ls"
proof -
  have "letter_read srv (receive_updates e) (og, m)" if l: "(og, m) \<in> set ls" for og m
  proof -
    have ok: "letter_ok srv e (og, m)" "length (body m) \<le> MAXIMUM_SIZE" using l ls(1,2) by (auto simp: list_all_iff)
    show ?thesis
    proof (cases og)
      case (FromRequest request)
      then have "(msg_id m, request) \<in> set (requests_in ls)" using l by force
      then have "(msg_id m, request) \<in> set (accepted rs ps)" by (simp only: ls(3))
      then have "\<not> starts_with gzip_packed_id request"
        using p by (auto simp: accepted_def answer_def dest!: set_zip_rightD split: option.splits)
      then show ?thesis
        using ok FromRequest request_read[OF g] by (auto simp: letter_ok_def letter_read_def)
    next
      case (FromAcks acks)
      have "length acks \<le> length (body m)"
        using ok(1) FromAcks acks_length[of acks] by (simp add: letter_ok_def)
      then show ?thesis
        using ok FromAcks acks_read[of acks] by (auto simp: letter_ok_def letter_read_def MAXIMUM_SIZE_def CONTAINER_OVERHEAD_def)
    next
      case ForSalts
      then show ?thesis using ok by (simp add: letter_ok_def letter_read_def)
    qed
  qed
  then show ?thesis by (auto simp: list_all_iff)
qed

text \<open>
  C10: a packet carries exactly what was pushed. Whatever requests are pushed into a fresh packet,
  finishing it never panics, and what is left in the buffer is the encrypted envelope of a packet
  that the other side reads back as these messages: one per accepted request, in order, with the
  identifier that the push returned, one per batch of acknowledgements, and possibly the session's
  request for salts. The other side reads a message without knowing what was pushed: it inflates a
  compressed object and takes anything else as it stands, and it gets the request, behind
  \<open>invokeWithoutUpdates\<close> when the session wants no updates and the request is not one that goes
  unwrapped; it parses the acknowledgements from their message. Content-related messages have odd
  sequence numbers and acknowledgements even ones; identifiers are divisible by four; and the
  acknowledgements in the packet followed by those still pending are those that were pending. The
  decompressor is assumed to undo the compressor, and requests are not themselves compressed
  objects, which a reader could not tell from what the session compresses.
\<close>

theorem packet_read_back:
  assumes "packet_start e buf" and "services_ok srv" and "gzip_ok srv" and "length padding = 32"
    and "\<forall>(_, _, _, request)\<in>set ps. \<not> starts_with gzip_packed_id request"
    and "push_all srv e buf ps = (rs, e1, b1)"
  shows "\<exists>ls last_id e2 b2 env. finalize srv now t1 t2 padding e1 b1 = Some (last_id, e2, b2) \<and>
    packet_of srv e e2 (as_ref b2) ls env \<and> list_all (letter_read srv (receive_updates e)) ls \<and>
    requests_in ls = accepted rs ps \<and> acks_in ls @ pending_ack e2 = pending_ack e"
proof -
  obtain ls last_id e2 b2 env where c: "finalize srv now t1 t2 padding e1 b1 = Some (last_id, e2, b2)"
    "packet_of srv e e2 (as_ref b2) ls env" "list_all (letter_ok srv e) ls"
    "list_all (\<lambda>l. length (body (snd l)) \<le> MAXIMUM_SIZE) ls"
    "requests_in ls = accepted rs ps" "acks_in ls @ pending_ack e2 = pending_ack e"
    using packet_cycle[OF assms(1,2,4,6), of now t1 t2] by blast
  show ?thesis
    by (intro exI conjI) (rule c(1) c(2) letters_read[OF assms(3,5) c(3,4,5)] c(5) c(6))+
qed

lemma sample_pushes:
  "push_all sample_services sample_session sample_buffer sample_requests =
     (fst (push_all sample_services sample_session sample_buffer sample_requests),
      fst (snd (push_all sample_services sample_session sample_buffer sample_requests)),
      snd (snd (push_all sample_services sample_session sample_buffer sample_requests)))"
  by simp

lemma gzip_ok_sample: "gzip_ok sample_services"
  by (simp add: gzip_ok_def sample_services_def)

theorem packet_read_back_witness:
  "\<exists>ls last_id e2 b2 env.
    finalize sample_services 9 (1700000000, 9) (1700000000, 10) (replicate 32 3)
      (fst (snd (push_all sample_services sample_session sample_buffer sample_requests)))
      (snd (snd (push_all sample_services sample_session sample_buffer sample_requests))) = Some (last_id, e2, b2) \<and>
    packet_of sample_services sample_session e2 (as_ref b2) ls env \<and>
    list_all (letter_read sample_services (receive_updates sample_session)) ls \<and>
    requests_in ls = accepted (fst (push_all sample_services sample_session sample_buffer sample_requests)) sample_requests \<and>
    acks_in ls @ pending_ack e2 = [5]"
proof -
  have p: "pending_ack sample_session = [5]"
    by (simp add: sample_session_def finish_with_rng_def queue_ack_def)
  have q: "\<forall>(_, _, _, request)\<in>set sample_requests. \<not> starts_with gzip_packed_id request"
  proof -
    have four: "(4 :: nat) = Suc (Suc (Suc (Suc 0)))" by simp
    have "serialize_u32 gzip_packed_id = [0xa1, 0xcf, 0x72, 0x30]"
      unfolding serialize_u32_def le_bytes32_def gzip_packed_id_def four by simp
    moreover have "replicate 4 b = [b, b, b, b]" for b :: u8 by (simp add: four)
    ultimately show ?thesis by (simp add: sample_requests_def starts_with_def)
  qed
  show ?thesis
    using packet_read_back[OF packet_start_sample services_ok_sample gzip_ok_sample _ q sample_pushes,
        of "replicate 32 3" 9 "(1700000000, 9)" "(1700000000, 10)"] unfolding p by simp
qed

text \<open>
  C15: the limits of the protocol are kept. However many requests are pushed, and however large the
  admissible ones are, at most one hundred are accepted into a packet and the encrypted packet has
  at most 0xff000 bytes.
\<close>

theorem packet_limits:
  assumes "packet_start e buf" and "services_ok srv" and "length padding = 32"
    and "push_all srv e buf ps = (rs, e1, b1)" and "length (ak_key_id (enc_auth_key e)) = 8"
    and "finalize srv now t1 t2 padding e1 b1 = Some (last_id, e2, b2)"
  shows "length (accepted rs ps) \<le> 100 \<and> length (as_ref b2) \<le> 0xff000"
proof -
  have reqs: "length (requests_in ls) \<le> length ls" for ls
  proof (induction ls)
    case (Cons l ls)
    have "length (request_of l) \<le> 1" by (cases l rule: request_of.cases) simp_all
    with Cons show ?case by simp
  qed simp
  from packet_cycle[OF assms(1-4), of now t1 t2] assms(5,6) obtain ls where
    "requests_in ls = accepted rs ps" "length ls \<le> MAXIMUM_LENGTH" "length (as_ref b2) \<le> 8 + 16 + MAXIMUM_SIZE + 67"
    by auto
  with reqs[of ls] show ?thesis by (simp add: MAXIMUM_LENGTH_def MAXIMUM_SIZE_def CONTAINER_OVERHEAD_def)
qed

theorem packet_limits_witness:
  "\<exists>last_id e2 b2.
    finalize sample_services 9 (1700000000, 9) (1700000000, 10) (replicate 32 3)
      (fst (snd (push_all sample_services sample_session sample_buffer sample_requests)))
      (snd (snd (push_all sample_services sample_session sample_buffer sample_requests))) = Some (last_id, e2, b2) \<and>
    length (accepted (fst (push_all sample_services sample_session sample_buffer sample_requests)) sample_requests) \<le> 100 \<and>
    length (as_ref b2) \<le> 0xff000"
proof -
  obtain last_id e2 b2 where f: "finalize sample_services 9 (1700000000, 9) (1700000000, 10) (replicate 32 3)
      (fst (snd (push_all sample_services sample_session sample_buffer sample_requests)))
      (snd (snd (push_all sample_services sample_session sample_buffer sample_requests))) = Some (last_id, e2, b2)"
    using packet_cycle[OF packet_start_sample services_ok_sample _ sample_pushes,
        of "replicate 32 3" 9 "(1700000000, 9)" "(1700000000, 10)"] by auto
  show ?thesis
    using packet_limits[OF packet_start_sample services_ok_sample _ sample_pushes key_id_sample f] f by simp
qed

text \<open>
  C12: identifiers rise. As long as the clock, with the offset to the server's, is before the year
  2038, where identifiers would reach their sign bit, the messages of a packet have identifiers
  that are larger than every one used before, strictly increasing in the order in which they were
  written, divisible by four, and smaller than that of the container around them; the next packet
  starts after the last of them. The clock may go backwards between any two readings.
\<close>

theorem identifiers_rise:
  assumes "packet_start e buf" and "services_ok srv" and "length padding = 32"
    and "push_all srv e buf ps = (rs, e1, b1)"
    and "last_msg_id e < ID_LIMIT" and "list_all (clock_fine e) (readings ps @ [t1, t2])"
  shows "\<exists>ls last_id e2 b2 env sent. finalize srv now t1 t2 padding e1 b1 = Some (last_id, e2, b2) \<and>
    packet_of srv e e2 (as_ref b2) ls env \<and> sent = ids_in ls @ (if length ls \<le> 1 then [] else [msg_id env]) \<and>
    sorted_wrt (<) (last_msg_id e # sent) \<and> last (last_msg_id e # sent) = last_msg_id e2 \<and>
    list_all (\<lambda>i. 4 dvd i) (ids_in ls) \<and> last_id = (if sent = [] then None else Some (last_msg_id e2))"
proof -
  obtain ls last_id e2 b2 env where c: "finalize srv now t1 t2 padding e1 b1 = Some (last_id, e2, b2)"
    "packet_of srv e e2 (as_ref b2) ls env" "list_all (letter_ok srv e) ls"
    "last_id = (if ls = [] then None else Some (last_msg_id e2))"
    "rising e e2 (ids_in ls @ (if length ls \<le> 1 then [] else [msg_id env]))"
    using packet_cycle[OF assms(1-4), of now t1 t2] assms(5,6) by blast
  have d: "list_all (\<lambda>i. 4 dvd i) (ids_in ls)" using c(3) by (auto simp: list_all_iff letter_ok_def)
  define sent where "sent = ids_in ls @ (if length ls \<le> 1 then [] else [msg_id env])"
  have "ls = [] \<longleftrightarrow> sent = []" by (auto simp: sent_def)
  then have l: "last_id = (if sent = [] then None else Some (last_msg_id e2))" using c(4) by simp
  have r: "sorted_wrt (<) (last_msg_id e # sent)" "last (last_msg_id e # sent) = last_msg_id e2"
    using c(5) unfolding rising_def sent_def[symmetric] by blast+
  show ?thesis by (intro exI conjI) (rule c(1) c(2) sent_def r d l)+
qed

theorem identifiers_rise_witness:
  "\<exists>ls last_id e2 b2 env sent.
    finalize sample_services 9 (1700000000, 9) (1600000000, 10) (replicate 32 3)
      (fst (snd (push_all sample_services sample_session sample_buffer sample_requests)))
      (snd (snd (push_all sample_services sample_session sample_buffer sample_requests))) = Some (last_id, e2, b2) \<and>
    packet_of sample_services sample_session e2 (as_ref b2) ls env \<and>
    sent = ids_in ls @ (if length ls \<le> 1 then [] else [msg_id env]) \<and>
    sorted_wrt (<) (0 # sent) \<and> last (0 # sent) = last_msg_id e2 \<and>
    list_all (\<lambda>i. 4 dvd i) (ids_in ls) \<and> last_id = (if sent = [] then None else Some (last_msg_id e2))"
proof -
  have s: "last_msg_id sample_session = 0" "time_offset sample_session = 0"
    by (simp_all add: sample_session_def finish_with_rng_def queue_ack_def build_def)
  show ?thesis
    using identifiers_rise[OF packet_start_sample services_ok_sample _ sample_pushes,
        of "replicate 32 3" "(1700000000, 9)" "(1600000000, 10)" 9]
    by (simp add: s ID_LIMIT_def readings_def sample_requests_def clock_fine_def)
qed

end
