(* ===== verification/Encrypted_Safety.thy ===== *)
theory Encrypted_Safety
  imports Encrypted_Effects Encrypted_Packets
begin

text \<open>
  Properties of the receiving half of the encrypted session: replayed packets are inert, failed
  packets leave no trace in the replay history, the results of a packet are bounded, and every RPC
  result completes exactly its own request.
\<close>

section \<open>One packet\<close>

definition outer_message :: "bytes \<Rightarrow> message option" where
  "outer_message bs = (case from_bytes envelope_reader bs of Inl _ \<Rightarrow> None | Inr (_, _, m) \<Rightarrow> Some m)"

text \<open>A session between packets: no results waiting, and a well-formed history.\<close>

definition receiving :: "encrypted \<Rightarrow> bool" where
  "receiving e \<longleftrightarrow> deserialization e = [] \<and> replay_inv (received_ids (history e)) \<and> length (pending_ack e) \<le> 65536"

lemma settle_all:
  assumes "replay_inv (received_ids h)" "list_all in_i64 mids"
  shows "replay_inv (received_ids (fold (\<lambda>i h. remember_received h i) mids h)) \<and>
    (\<forall>x. settled h x \<or> x \<in> set mids \<longrightarrow> settled (fold (\<lambda>i h. remember_received h i) mids h) x)"
  using assms
proof (induction mids arbitrary: h)
  case (Cons i mids)
  then have i: "in_i64 i" by simp
  note s = remember_received_settles[OF Cons.prems(1) i]
  from Cons.IH[OF s(1)] Cons.prems(2) s(2) show ?case by auto
qed simp

text \<open>The state after the outer message and after its identifiers are committed.\<close>

lemma plaintext_cases:
  assumes "process_plaintext srv now t bs e = (r, e')"
  obtains (refused) err where "r = Inl err" "e' = e"
  | (processed) m r1 e1 b1 where "outer_message bs = Some m" "in_i64 (msg_id m)"
      "process_bounded srv now t m ((budget_new (decode_limits e))\<lparr>authenticated := True, replay_floor := received_floor (history e)\<rparr>) 0 e
         = (r1, e1, b1)"
      "case r1 of Inl err \<Rightarrow> r = Inl err \<and> e' = e1\<lparr>deserialization := []\<rparr>
       | Inr _ \<Rightarrow> r = Inr (deserialization e1) \<and>
           e' = e1\<lparr>history := fold (\<lambda>i h. remember_received h i) (case pending_received b1 of None \<Rightarrow> [] | Some seen \<Rightarrow> seen) (history e1),
                   deserialization := []\<rparr>"
proof (cases "\<exists>m. outer_message bs = Some m \<and>
    (\<exists>c s c2. and_then deserialize_i64 (\<lambda>_. deserialize_i64) (from_slice bs) = (Inr s, c) \<and> sint s = session_id e \<and>
      deserialize_message c = (Inr m, c2) \<and> 12 \<le> length bs - cpos c2 \<and> length bs - cpos c2 \<le> 1024)")
  case True
  then obtain m c s c2 where m: "outer_message bs = Some m" and c: "and_then deserialize_i64 (\<lambda>_. deserialize_i64) (from_slice bs) = (Inr s, c)"
    "sint s = session_id e" "deserialize_message c = (Inr m, c2)" "12 \<le> length bs - cpos c2" "length bs - cpos c2 \<le> 1024" by blast
  let ?b = "(budget_new (decode_limits e))\<lparr>authenticated := True, replay_floor := received_floor (history e)\<rparr>"
  obtain r1 e1 b1 where p: "process_bounded srv now t m ?b 0 e = (r1, e1, b1)" by (metis prod.exhaust)
  show thesis
    by (rule processed[OF m message_id_in_i64[OF c(3)] p])
      (use assms c p in \<open>auto simp: process_plaintext_def Let_def split: sum.splits option.splits\<close>)
next
  case False
  have om: "outer_message bs = Some m"
    if "and_then deserialize_i64 (\<lambda>_. deserialize_i64) (from_slice bs) = (Inr s, c)" "deserialize_message c = (Inr m, c2)" for s c m c2
    using that by (auto simp: outer_message_def from_bytes_def envelope_reader_def and_then_def done_with_def split: prod.splits sum.splits)
  have "r \<noteq> Inr x" for x
    using assms False om by (auto simp: process_plaintext_def Let_def split: prod.splits sum.splits if_splits)
  moreover have "e' = e"
    using assms False om by (auto simp: process_plaintext_def Let_def split: prod.splits sum.splits if_splits)
  ultimately show thesis using refused by (cases r) auto
qed

lemma process_plaintext_key:
  assumes "process_plaintext srv now t bs e = (r, e')"
  shows "enc_auth_key e' = enc_auth_key e"
  using assms
proof (cases rule: plaintext_cases)
  case (processed m r1 e1 b1)
  have "authenticated ((budget_new (decode_limits e))\<lparr>authenticated := True, replay_floor := received_floor (history e)\<rparr>)"
    "pending_received ((budget_new (decode_limits e))\<lparr>authenticated := True, replay_floor := received_floor (history e)\<rparr>) = None"
    by (simp_all add: budget_new_def)
  from bounded_effect[OF processed(3) this processed(2)]
  obtain q k e2 where "effect q k e e2"
    "e1 = e2 \<or> (r1 = Inr () \<and> e1 = e2\<lparr>history := remember_received (history e2) (msg_id m)\<rparr>)" by blast
  moreover from this(1) have "enc_auth_key e2 = enc_auth_key e" by (simp add: effect_def)
  ultimately have "enc_auth_key e1 = enc_auth_key e" by (elim disjE conjE) simp_all
  with processed(4) show ?thesis by (cases r1) (simp_all del: effect_refl)
qed simp

text \<open>The summary of a packet: what stays, what is settled, and how much comes out.\<close>

definition packet_summary :: "bytes \<Rightarrow> encrypted \<Rightarrow> deserialize_error + deserialized list \<Rightarrow> encrypted \<Rightarrow> bool" where
  "packet_summary bs e r e' \<longleftrightarrow>
     receiving e' \<and> session_id e' = session_id e \<and> decode_limits e' = decode_limits e \<and>
     (\<forall>x. settled (history e) x \<longrightarrow> settled (history e') x) \<and>
     (\<forall>err. r = Inl err \<longrightarrow> history e' = history e) \<and>
     (\<forall>res. r = Inr res \<longrightarrow> length res \<le> 2 * limit_work (decode_limits e) \<and>
        (\<exists>m. outer_message bs = Some m \<and> settled (history e') (msg_id m))) \<and>
     (\<forall>m. outer_message bs = Some m \<and> settled (history e) (msg_id m) \<longrightarrow>
        service e' = service e \<and> history e' = history e \<and>
        (\<forall>res. r = Inr res \<longrightarrow> list_all (\<lambda>d. \<not> is_update d) res))"

lemma packet_summary:
  assumes p: "process_plaintext srv now t bs e = (r, e')" and e: "receiving e"
  shows "packet_summary bs e r e'"
  using p
proof (cases rule: plaintext_cases)
  case (refused err)
  with e show ?thesis by (simp add: packet_summary_def)
next
  case (processed m r1 e1 b1)
  define b where "b = (budget_new (decode_limits e))\<lparr>authenticated := True, replay_floor := received_floor (history e)\<rparr>"
  have b: "authenticated b" "pending_received b = None" "work b = limit_work (decode_limits e)" "replay_floor b = received_floor (history e)"
    by (simp_all add: b_def budget_new_def)
  define q where "q = settled_before b e m"
  have inv: "replay_inv (received_ids (history e))" using e by (simp add: receiving_def)
  have q: "q \<longleftrightarrow> settled (history e) (msg_id m)"
    using b contains_iff[OF inv processed(2)] by (auto simp: q_def settled_def pending_has_def)
  obtain e2 where s: "effect q (2 * (work b - work b1)) e e2" "work b1 \<le> work b" "pending_ok b1"
    "e1 = e2 \<or> (r1 = Inr () \<and> e1 = e2\<lparr>history := remember_received (history e2) (msg_id m)\<rparr>)"
    "q \<longrightarrow> e1 = e2 \<and> pending_received b1 \<in> {None, Some []}"
    "r1 = Inr () \<and> \<not> q \<longrightarrow> e1 = e2\<lparr>history := remember_received (history e2) (msg_id m)\<rparr> \<or>
       (\<exists>seen. pending_received b1 = Some seen \<and> msg_id m \<in> set seen)"
    using bounded_effect[OF processed(3)[folded b_def] b(1,2) processed(2)] unfolding q_def by blast
  obtain new where new: "deserialization e2 = new" "length new \<le> 2 * limit_work (decode_limits e)" "q \<longrightarrow> list_all (\<lambda>d. \<not> is_update d) new"
    using s(1) e b(3) by (auto simp: effect_def receiving_def)
  have e2: "history e2 = history e" "session_id e2 = session_id e" "decode_limits e2 = decode_limits e"
    "q \<longrightarrow> service e2 = service e" "length (pending_ack e2) \<le> 65536"
    using s(1) e by (auto simp: effect_def receiving_def)
  note rr = remember_received_settles[OF inv processed(2)]
  have h1: "replay_inv (received_ids (history e1)) \<and> (\<forall>x. settled (history e) x \<longrightarrow> settled (history e1) x)"
    using s(4) e2(1) inv rr by auto
  show ?thesis
  proof (cases r1)
    case (Inl err)
    then have "r = Inl err" "e' = e2\<lparr>deserialization := []\<rparr>" using processed(4) s(4) by auto
    with e2 inv q processed(1) show ?thesis by (auto simp: packet_summary_def receiving_def service_def)
  next
    case (Inr u)
    define mids where "mids = (case pending_received b1 of None \<Rightarrow> [] | Some seen \<Rightarrow> seen)"
    have "list_all in_i64 mids" using s(3) by (auto simp: mids_def pending_ok_def split: option.splits)
    note fin = settle_all[OF conjunct1[OF h1] this]
    have out: "r = Inr (deserialization e1)" "e' = e1\<lparr>history := fold (\<lambda>i h. remember_received h i) mids (history e1), deserialization := []\<rparr>"
      using processed(4) Inr by (auto simp: mids_def)
    have e1: "deserialization e1 = new" "session_id e1 = session_id e" "decode_limits e1 = decode_limits e"
      "pending_ack e1 = pending_ack e2" "service e1 = service e2"
      using s(4) new(1) e2 by (auto simp: service_def)
    have "settled (history e') (msg_id m)"
      using s(6) Inr q h1 fin rr(2) e2(1) by (auto simp: out mids_def)
    moreover have "q \<longrightarrow> history e' = history e \<and> service e' = service e"
      using s(5) e1(5) e2 by (auto simp: out mids_def service_def)
    ultimately show ?thesis
      using e1 e2 new fin h1 q processed(1) by (auto simp: packet_summary_def receiving_def out)
  qed
qed

section \<open>Replays\<close>

text \<open>Further packets, each with the clock readings of its call.\<close>

fun receive_packets :: "services \<Rightarrow> encrypted \<Rightarrow> (instant \<times> system_time \<times> bytes) list \<Rightarrow> encrypted" where
  "receive_packets srv e [] = e"
| "receive_packets srv e ((now, t, bs) # ps) = receive_packets srv (snd (process_plaintext srv now t bs e)) ps"

lemma receive_packets_settled:
  "receiving e \<Longrightarrow> receiving (receive_packets srv e ps) \<and> (\<forall>x. settled (history e) x \<longrightarrow> settled (history (receive_packets srv e ps)) x)"
proof (induction srv e ps rule: receive_packets.induct)
  case (2 srv e now t bs ps)
  obtain r e' where p: "process_plaintext srv now t bs e = (r, e')" by fastforce
  with packet_summary[OF p "2.prems"] "2.IH" show ?case by (auto simp: packet_summary_def)
qed simp

definition sample_message :: message where
  "sample_message = \<lparr>msg_id = 5, seq_no = 1, body = [1, 2, 3, 4, 5, 6, 7, 8]\<rparr>"

definition sample_packet :: bytes where
  "sample_packet = serialize_i64 0 @ serialize_i64 (word_of_int (session_id sample_session)) @
     serialize_message sample_message @ replicate 12 0"

lemma receiving_sample: "receiving sample_session"
  using replay_inv_new by (simp add: receiving_def sample_session_def finish_with_rng_def queue_ack_def)

lemma sample_fields:
  "history sample_session = received_new" "receive_updates sample_session" "deserialization sample_session = []"
  "decode_limits sample_session = default_limits" "pending_ack sample_session = [5]" "i64_ok (session_id sample_session)"
  using sint_greater_eq[of "le_word64 (replicate 8 1)"] sint_less[of "le_word64 (replicate 8 1)"]
  by (simp_all add: sample_session_def finish_with_rng_def queue_ack_def build_def i64_ok_def)

lemma sample_constructor: "constructor_id sample_message = Inr 0x04030201"
  by (simp add: constructor_id_def sample_message_def from_bytes_def deserialize_u32_def read_exact_def and_then_def
      done_with_def from_slice_def le_word32_def)

lemma sample_packet_accepted:
  "fst (process_plaintext sample_services 0 (0, 0) sample_packet sample_session) = Inr [PlainUpdate [1, 2, 3, 4, 5, 6, 7, 8]]"
proof -
  let ?b = "(budget_new default_limits)\<lparr>authenticated := True, replay_floor := 0\<rparr>"
  have ok: "message_ok sample_message" by (simp add: message_ok_def sample_message_def i64_ok_def i32_ok_def)
  have "unwrap_gzip sample_services sample_message ?b 0 = (Inr (sample_message, 0), ?b\<lparr>work := 4095\<rparr>)"
    by (subst unwrap_gzip.simps) (simp add: visit_def budget_new_def default_limits_def sample_constructor gzip_packed_id_def)
  then have p: "\<exists>e1 b1. process_bounded sample_services 0 (0, 0) sample_message ?b 0 sample_session = (Inr (), e1, b1) \<and>
      deserialization e1 = [PlainUpdate [1, 2, 3, 4, 5, 6, 7, 8]]"
    by (simp add: process_bounded_def process_with_def sample_fields invalid_header_def contains_def received_new_def
        replay_new_def offset_of_def offset_limit_def pending_has_def budget_new_def acknowledge_def requires_ack_def queue_ack_def
        sample_constructor handled_when_stale_def dispatch_def with_budget_def handle_update_def emit_def record_received_def
        rpc_result_id_def msgs_ack_id_def bad_msg_ids_def ignored_ids_def future_salts_id_def pong_id_def container_id_def msg_copy_id_def)
      (simp add: sample_message_def)
  have read: "and_then deserialize_i64 (\<lambda>_. deserialize_i64) (from_slice sample_packet) =
      (Inr (word_of_int (session_id sample_session)),
       at (serialize_i64 0 @ serialize_i64 (word_of_int (session_id sample_session))) (serialize_message sample_message @ replicate 12 0) 0)"
    by (simp add: sample_packet_def from_slice_at)
  have l: "length sample_packet = 52" by (simp add: sample_packet_def sample_message_def)
  have cpos: "cpos (at pre rest d) = length pre" for pre rest d by (simp add: at_def)
  have "length (serialize_message sample_message) = 24" by (simp add: sample_message_def)
  then show ?thesis
    using p by (auto simp: process_plaintext_def read messagec.roundtrip[OF ok] sample_fields received_new_def Let_def cpos l)
qed

text \<open>
  C11: replayed packets are inert. When an authenticated packet was accepted once, then whatever
  packets follow, presenting it again changes neither the salts, the clock offset, the sequence
  number, the last identifier nor the replay history, and delivers no updates; at most it repeats
  acknowledgements and completions of requests.
\<close>

theorem replayed_packet_inert:
  assumes "receiving e" and "process_plaintext srv now t bs e = (Inr res, e1)"
    and "process_plaintext srv now' t' bs (receive_packets srv e1 ps) = (r, e3)"
  shows "service e3 = service (receive_packets srv e1 ps) \<and> history e3 = history (receive_packets srv e1 ps) \<and>
    (case r of Inl _ \<Rightarrow> True | Inr res' \<Rightarrow> list_all (\<lambda>d. \<not> is_update d) res')"
proof -
  obtain m where m: "outer_message bs = Some m" "settled (history e1) (msg_id m)" and e1: "receiving e1"
    using packet_summary[OF assms(2,1)] by (auto simp: packet_summary_def)
  note later = receive_packets_settled[OF e1, of srv ps]
  then show ?thesis
    using packet_summary[OF assms(3)] m by (auto simp: packet_summary_def split: sum.split)
qed

definition sample_later :: encrypted where
  "sample_later = receive_packets sample_services
     (snd (process_plaintext sample_services 0 (0, 0) sample_packet sample_session)) [(7, (0, 0), replicate 60 0)]"

theorem replayed_packet_inert_witness:
  "service (snd (process_plaintext sample_services 9 (0, 0) sample_packet sample_later)) = service sample_later \<and>
   history (snd (process_plaintext sample_services 9 (0, 0) sample_packet sample_later)) = history sample_later \<and>
   (case fst (process_plaintext sample_services 9 (0, 0) sample_packet sample_later) of
      Inl _ \<Rightarrow> True | Inr res' \<Rightarrow> list_all (\<lambda>d. \<not> is_update d) res')"
  unfolding sample_later_def
  by (rule replayed_packet_inert[OF receiving_sample, of sample_services 0 "(0, 0)" sample_packet "[PlainUpdate [1, 2, 3, 4, 5, 6, 7, 8]]" _ 9 "(0, 0)"])
     (simp_all add: prod_eq_iff sample_packet_accepted)

text \<open>
  C13: failed packets leave no trace. A packet that ends in an error delivers nothing and records no
  identifier, not even those of the messages of a container that were handled before the failing
  one, so that the server's repetition of it is not mistaken for a replay; and whatever a packet
  contains, the number of results is at most twice the configured work, the history stays
  well-formed and the queue of acknowledgements within its limit.
\<close>

theorem packets_bounded_and_atomic:
  assumes "receiving e" and "process_plaintext srv now t bs e = (r, e')"
  shows "receiving e' \<and>
    (case r of Inl _ \<Rightarrow> history e' = history e | Inr res \<Rightarrow> length res \<le> 2 * limit_work (decode_limits e))"
  using packet_summary[OF assms(2,1)] by (auto simp: packet_summary_def split: sum.split)

theorem packets_bounded_and_atomic_witness:
  "receiving (snd (process_plaintext sample_services 0 (0, 0) sample_packet sample_session)) \<and>
   (case fst (process_plaintext sample_services 0 (0, 0) sample_packet sample_session) of
      Inl _ \<Rightarrow> history (snd (process_plaintext sample_services 0 (0, 0) sample_packet sample_session)) = history sample_session
    | Inr res \<Rightarrow> length res \<le> 2 * limit_work (decode_limits sample_session))"
  by (rule packets_bounded_and_atomic[OF receiving_sample]) simp

section \<open>Results of calls\<close>

text \<open>What completes a request.\<close>

fun completes :: "int \<Rightarrow> deserialized \<Rightarrow> bool" where
  "completes mid (RpcResult i _) = (i = mid)"
| "completes mid (RpcError i _) = (i = mid)"
| "completes mid (Failure i _) = (i = mid)"
| "completes mid _ = False"

text \<open>
  C14: every RPC result completes its request, once. Whatever the result contains (an error, data,
  compressed data however deeply nested, or garbage), handling it succeeds, and either it answers
  the session's own request for salts, which is retired without a result, or exactly one completion
  is delivered, for the request the result names and after at most one copy of it as an update.
\<close>

theorem rpc_result_completes:
  assumes "borrowed_parts (body m) = Inr (mid, result)"
    and "handle_rpc_result srv now m b depth own e = (r, e', b')"
  shows "r = Inr () \<and>
    (if salt_request_msg_id e = Some mid
     then salt_request_msg_id e' = None \<and> deserialization e' = deserialization e
     else \<exists>copy d. deserialization e' = deserialization e @ copy @ [d] \<and> completes mid d \<and>
            copy \<in> {[]} \<union> range (\<lambda>bs. [OwnUpdate mid bs]))"
proof -
  obtain u b1 where u: "unwrap_result srv result b depth = (u, b1)" by fastforce
  have fc: "fail_call mid err e = (r, e') \<Longrightarrow> ?thesis" for err
    by (auto simp: fail_call_def fail_salt_request_def emit_def split: if_splits)
  have cr: "conclude_result srv now m mid result1 inner own e = (r, e') \<Longrightarrow> ?thesis" for result1 inner
    by (auto simp: conclude_result_def fail_salt_request_def emit_def handle_future_salts_def store_own_updates_def Let_def
        split: if_splits sum.splits)
  from assms u fc cr show ?thesis
    by (auto simp: handle_rpc_result_def split: sum.splits prod.splits)
qed

definition sample_reply :: message where
  "sample_reply = \<lparr>msg_id = 7, seq_no = 1, body = serialize_u32 rpc_result_id @ serialize_i64 9 @ [1, 2, 3, 4]\<rparr>"

theorem rpc_result_completes_witness:
  "\<exists>copy d. deserialization (fst (snd (handle_rpc_result sample_services 0 sample_reply (budget_new default_limits) 0 True sample_session)))
       = copy @ [d] \<and> completes 9 d \<and> copy \<in> {[]} \<union> range (\<lambda>bs. [OwnUpdate 9 bs])"
proof -
  have parts: "borrowed_parts (body sample_reply) = Inr (9, [1, 2, 3, 4])"
    by (simp add: borrowed_parts_def sample_reply_def from_slice_at) (simp add: at_def)
  have "salt_request_msg_id sample_session = None"
    by (simp add: sample_session_def finish_with_rng_def queue_ack_def)
  then show ?thesis
    using rpc_result_completes[OF parts, of sample_services 0 "budget_new default_limits" 0 True sample_session] sample_fields(3)
    by (cases "handle_rpc_result sample_services 0 sample_reply (budget_new default_limits) 0 True sample_session") auto
qed

end
