(* ===== verification/Plain_Mtp.thy ===== *)
theory Plain_Mtp
  imports Encrypted_Receive
begin

text \<open>
  The unencrypted messages of the key exchange, \<open>grammers-mtproto/src/mtp/plain.rs\<close>. The structure
  has no fields, so an operation takes and returns the buffer alone.
\<close>

section \<open>Operations\<close>

definition request_is_valid :: "bytes \<Rightarrow> bool" where
  "request_is_valid request = request_fits request True"

definition plain_push :: "buffer \<Rightarrow> bytes \<Rightarrow> int option \<times> buffer" where
  "plain_push buf request =
     (if \<not> is_empty buf \<or> \<not> request_is_valid request then (None, buf)
      else
        let b1 = deque_extend (serialize_i64 0) buf;
            b2 = deque_extend (serialize_i64 0) b1;
            b3 = deque_extend (serialize_i32 (of_nat (length request))) b2
        in (Some 0, deque_extend request b3))"

definition plain_finalize :: "buffer \<Rightarrow> int option \<times> buffer" where
  "plain_finalize buf = ((if is_empty buf then None else Some 0), buf)"

definition plain_deserialize :: "bytes \<Rightarrow> deserialize_error + deserialized list" where
  "plain_deserialize payload =
     (case check_message_buffer payload of
        Inl e \<Rightarrow> Inl e
      | Inr _ \<Rightarrow>
          case deserialize_i64 (from_slice payload) of
            (Inl e, _) \<Rightarrow> Inl (from_tl_error e)
          | (Inr auth_key_id, c1) \<Rightarrow>
              if auth_key_id \<noteq> 0 then Inl (BadAuthKey (sint auth_key_id) 0)
              else case deserialize_i64 c1 of
                (Inl e, _) \<Rightarrow> Inl (from_tl_error e)
              | (Inr mid, c2) \<Rightarrow>
                  if sint mid \<le> 0 \<or> sint mid mod 4 \<noteq> 1 then Inl (BadMessageId (sint mid))
                  else case deserialize_i32 c2 of
                    (Inl e, _) \<Rightarrow> Inl (from_tl_error e)
                  | (Inr n, _) \<Rightarrow>
                      if sint n \<le> 0 then Inl (NegativeMessageLength (sint n))
                      else if sint n mod 4 \<noteq> 0 then Inl (InvalidEnvelope ''invalid message envelope'')
                      else if nat (sint n) > length payload - 20
                      then Inl (TooLongMessageLength (nat (sint n)) (length payload - 20))
                      else Inr [RpcResult 0 (take (nat (sint n)) (drop 20 payload))])"

section \<open>The wire format\<close>

definition plain_message :: "i64 \<Rightarrow> i64 \<Rightarrow> i32 \<Rightarrow> bytes \<Rightarrow> bytes" where
  "plain_message auth_key_id mid n rest = serialize_i64 auth_key_id @ serialize_i64 mid @ serialize_i32 n @ rest"

lemma le_bytes64_le_word64: "length bs = 8 \<Longrightarrow> le_bytes64 (le_word64 bs) = bs"
proof -
  assume l: "length bs = 8"
  then have "unat (le_word64 bs) = le_nat bs" using le_nat_bound[of bs] by (simp add: le_word64_def unat_of_nat)
  then show ?thesis using le_bytes_le_nat[of bs] l by (simp add: le_bytes64_def)
qed

text \<open>Every buffer with room for the header has the form of a message.\<close>

lemma plain_message_exists:
  assumes "20 \<le> length payload"
  obtains k m n rest where "payload = plain_message k m n rest" "length payload = 20 + length rest"
proof -
  let ?k = "le_word64 (take 8 payload)" and ?m = "le_word64 (take 8 (drop 8 payload))"
  let ?n = "le_word32 (take 4 (drop 16 payload))"
  have "payload = take 8 payload @ take 8 (drop 8 payload) @ take 4 (drop 16 payload) @ drop 20 payload"
    using append_take_drop_id[of 8 payload] append_take_drop_id[of 8 "drop 8 payload"]
      append_take_drop_id[of 4 "drop 16 payload"] by simp
  moreover have "serialize_i64 ?k = take 8 payload" "serialize_i64 ?m = take 8 (drop 8 payload)"
    "serialize_i32 ?n = take 4 (drop 16 payload)"
    using assms by (simp_all add: serialize_i64_def serialize_i32_def le_bytes64_le_word64 le_bytes32_le_word32)
  ultimately have "payload = plain_message ?k ?m ?n (drop 20 payload)" by (simp only: plain_message_def append_assoc)
  moreover have "length payload = 20 + length (drop 20 payload)" using assms by simp
  ultimately show thesis by (rule that)
qed

lemma plain_deserialize_message:
  "plain_deserialize (plain_message k m n rest) =
     (if k \<noteq> 0 then Inl (BadAuthKey (sint k) 0)
      else if sint m \<le> 0 \<or> sint m mod 4 \<noteq> 1 then Inl (BadMessageId (sint m))
      else if sint n \<le> 0 then Inl (NegativeMessageLength (sint n))
      else if sint n mod 4 \<noteq> 0 then Inl (InvalidEnvelope ''invalid message envelope'')
      else if nat (sint n) > length rest then Inl (TooLongMessageLength (nat (sint n)) (length rest))
      else Inr [RpcResult 0 (take (nat (sint n)) rest)])"
  by (simp add: plain_deserialize_def plain_message_def check_message_buffer_def from_slice_at)

text \<open>
  Plain messages mean exactly what their bytes say. Pushing a valid request into an empty buffer
  writes the message with a zero key identifier, a zero message identifier and the length of the
  request, and nothing can be pushed after it. A received buffer is accepted if and only if it
  starts with a zero key identifier, a positive identifier that leaves one modulo four, and a
  positive length that is a multiple of four and within the buffer; the result is that many bytes.
\<close>

theorem plain_messages_exact:
  assumes buf: "deque_inv buf" "as_ref buf = []" and request: "request_is_valid request"
  shows "(\<exists>b. plain_push buf request = (Some 0, b) \<and> deque_inv b \<and>
           as_ref b = plain_message 0 0 (of_nat (length request)) request \<and>
           plain_push b request = (None, b) \<and> plain_finalize b = (Some 0, b))
    \<and> (plain_deserialize payload = Inr rs \<longleftrightarrow>
        (\<exists>m body rest. payload = plain_message 0 m (of_nat (length body)) (body @ rest) \<and>
           0 < sint m \<and> sint m mod 4 = 1 \<and> body \<noteq> [] \<and> length body mod 4 = 0 \<and> length body < 2 ^ 31 \<and>
           rs = [RpcResult 0 body]))"
proof (intro conjI)
  have e: "is_empty buf" using buf by (simp add: is_empty_def as_ref_def deque_inv_def)
  define b where "b = snd (plain_push buf request)"
  have b: "plain_push buf request = (Some 0, b)" using e request by (simp add: plain_push_def b_def Let_def)
  have r: "as_ref b = plain_message 0 0 (of_nat (length request)) request" "deque_inv b"
    using e request buf by (simp_all add: b_def plain_push_def Let_def plain_message_def)
  then have "\<not> is_empty b" by (auto simp: is_empty_def as_ref_def plain_message_def serialize_i64_def le_bytes64_def codec_simps)
  with b r show "\<exists>b. plain_push buf request = (Some 0, b) \<and> deque_inv b \<and>
      as_ref b = plain_message 0 0 (of_nat (length request)) request \<and>
      plain_push b request = (None, b) \<and> plain_finalize b = (Some 0, b)"
    by (intro exI[of _ b]) (simp add: plain_push_def[of b] plain_finalize_def)
  show "plain_deserialize payload = Inr rs \<longleftrightarrow>
        (\<exists>m body rest. payload = plain_message 0 m (of_nat (length body)) (body @ rest) \<and>
           0 < sint m \<and> sint m mod 4 = 1 \<and> body \<noteq> [] \<and> length body mod 4 = 0 \<and> length body < 2 ^ 31 \<and>
           rs = [RpcResult 0 body])" (is "?L \<longleftrightarrow> ?R")
  proof
    assume L: ?L
    then have "20 \<le> length payload" by (auto simp: plain_deserialize_def check_message_buffer_def split: if_splits)
    then obtain k m n rest where p: "payload = plain_message k m n rest" by (rule plain_message_exists)
    define body where "body = take (nat (sint n)) rest"
    from L have c: "k = 0" "0 < sint m" "sint m mod 4 = 1" "0 < sint n" "sint n mod 4 = 0" "nat (sint n) \<le> length rest"
      "rs = [RpcResult 0 body]"
      unfolding p plain_deserialize_message by (auto split: if_splits simp: body_def)
    have l: "int (length body) = sint n" using c by (simp add: body_def)
    have "n = word_of_int (int (length body))" unfolding l by simp
    then have "n = of_nat (length body)" by simp
    moreover have "rest = body @ drop (nat (sint n)) rest" by (simp add: body_def)
    moreover have "length body < 2 ^ 31" using l sint_less[of n] by simp
    moreover have "length body mod 4 = 0" using l c(5) by presburger
    moreover have "body \<noteq> []" using l c(4) by auto
    ultimately show ?R using c p by (intro exI[of _ m] exI[of _ body] exI[of _ "drop (nat (sint n)) rest"]) simp
  next
    assume ?R
    then obtain m body rest where p: "payload = plain_message 0 m (of_nat (length body)) (body @ rest)"
      and c: "0 < sint m" "sint m mod 4 = 1" "body \<noteq> []" "length body mod 4 = 0" "length body < 2 ^ 31" "rs = [RpcResult 0 body]"
      by (elim exE conjE)
    have "int (length body) mod 4 = 0" using c(4) by presburger
    then show ?L unfolding p plain_deserialize_message using c sint_of_nat32[OF c(5)] by simp
  qed
qed

theorem plain_messages_exact_witness:
  "plain_deserialize (plain_message 0 5 4 [1, 2, 3, 4, 0, 0]) = Inr [RpcResult 0 [1, 2, 3, 4]] \<and>
   (\<exists>b. plain_push (with_capacity 0 0 0) [1, 2, 3, 4] = (Some 0, b))"
proof -
  have v: "request_is_valid [1, 2, 3, 4]"
    by (simp add: request_is_valid_def request_fits_def MAXIMUM_SIZE_def SIZE_OVERHEAD_def CONTAINER_OVERHEAD_def Let_def)
  note law = plain_messages_exact[OF _ _ v, of "with_capacity 0 0 0" "plain_message 0 5 4 [1, 2, 3, 4, 0, 0]" "[RpcResult 0 [1, 2, 3, 4]]"]
  show ?thesis
    using law by (auto intro!: exI[of _ "5 :: i64"] exI[of _ "[1, 2, 3, 4 :: u8]"] exI[of _ "[0, 0 :: u8]"])
qed

end
