(* ===== verification/Big_Numbers.thy ===== *)
theory Big_Numbers
  imports Prelude
begin

text \<open>
  Big-endian numbers and the operations of the big-number crate that the key exchange and the
  password check call. A \<open>BigUint\<close> is a natural number; the crate's conversions, modular power and
  decimal parser are parameters, collected in a record, with their documented behaviour as laws.
\<close>

section \<open>Big-endian bytes\<close>

definition be_nat :: "bytes \<Rightarrow> nat" where
  "be_nat bs = le_nat (rev bs)"

text \<open>The fixed-width conversions \<open>to_be_bytes\<close> of the integer types.\<close>

definition be_bytes :: "nat \<Rightarrow> nat \<Rightarrow> bytes" where
  "be_bytes n v = rev (le_bytes n v)"

lemma length_be_bytes [simp]: "length (be_bytes n v) = n"
  by (simp add: be_bytes_def)

lemma be_nat_be_bytes [simp]: "v < 256 ^ n \<Longrightarrow> be_nat (be_bytes n v) = v"
  by (simp add: be_nat_def be_bytes_def)

lemma be_bytes_be_nat [simp]: "be_bytes (length bs) (be_nat bs) = bs"
  using le_bytes_le_nat[of "rev bs"] by (simp add: be_nat_def be_bytes_def)

lemma be_nat_bound: "be_nat bs < 256 ^ length bs"
  using le_nat_bound[of "rev bs"] by (simp add: be_nat_def)

lemma be_nat_inject: "length a = length b \<Longrightarrow> be_nat a = be_nat b \<Longrightarrow> a = b"
  by (metis be_bytes_be_nat)

lemma be_nat_append: "be_nat (a @ b) = be_nat b + 256 ^ length b * be_nat a"
  by (simp add: be_nat_def le_nat_append)

lemma be_nat_Nil [simp]: "be_nat [] = 0"
  by (simp add: be_nat_def)

lemma be_nat_Cons: "be_nat (b # bs) = 256 ^ length bs * unat b + be_nat bs"
  using be_nat_append[of "[b]" bs] by (simp add: be_nat_def)

lemma be_nat_zeros [simp]: "be_nat (replicate k 0 @ bs) = be_nat bs"
  by (induction k) (simp_all add: be_nat_Cons)

text \<open>Left-padding with zeros to a width.\<close>

definition pad_zeros :: "nat \<Rightarrow> bytes \<Rightarrow> bytes" where
  "pad_zeros n bs = replicate (n - length bs) 0 @ bs"

lemma length_pad_zeros [simp]: "length bs \<le> n \<Longrightarrow> length (pad_zeros n bs) = n"
  by (simp add: pad_zeros_def)

lemma be_nat_pad_zeros [simp]: "be_nat (pad_zeros n bs) = be_nat bs"
  by (simp add: pad_zeros_def)

lemma pad_zeros_eq: "length bs \<le> n \<Longrightarrow> pad_zeros n bs = be_bytes n (be_nat bs)"
  by (metis be_bytes_be_nat be_nat_pad_zeros length_pad_zeros)

section \<open>The big-number crate\<close>

text \<open>\<open>modpow\<close> panics on a zero modulus, \<open>parse_bytes\<close> in radix ten refuses what is not a number.\<close>

record bignum =
  from_bytes_be :: "bytes \<Rightarrow> nat"
  to_bytes_be :: "nat \<Rightarrow> bytes"
  big_modpow :: "nat \<Rightarrow> nat \<Rightarrow> nat \<Rightarrow> nat option"
  parse_decimal :: "string \<Rightarrow> nat option"

definition decimal_digit :: "char \<Rightarrow> bool" where
  "decimal_digit c \<longleftrightarrow> 48 \<le> (of_char c :: nat) \<and> (of_char c :: nat) \<le> 57"

definition decimal_value :: "string \<Rightarrow> nat" where
  "decimal_value s = foldl (\<lambda>v c. 10 * v + ((of_char c :: nat) - 48)) 0 s"

definition bignum_laws :: "bignum \<Rightarrow> bool" where
  "bignum_laws N \<longleftrightarrow>
     (\<forall>bs. from_bytes_be N bs = be_nat bs) \<and>
     (\<forall>n. be_nat (to_bytes_be N n) = n \<and> (if n = 0 then to_bytes_be N n = [0]
            else to_bytes_be N n \<noteq> [] \<and> hd (to_bytes_be N n) \<noteq> 0)) \<and>
     (\<forall>b e m. big_modpow N b e m = (if m = 0 then None else Some (b ^ e mod m))) \<and>
     (\<forall>s. s \<noteq> [] \<and> list_all decimal_digit s \<longrightarrow> parse_decimal N s = Some (decimal_value s))"

lemma bignum_lawsD:
  assumes "bignum_laws N"
  shows "from_bytes_be N bs = be_nat bs" "be_nat (to_bytes_be N n) = n"
    "big_modpow N b e m = (if m = 0 then None else Some (b ^ e mod m))"
    "s \<noteq> [] \<Longrightarrow> list_all decimal_digit s \<Longrightarrow> parse_decimal N s = Some (decimal_value s)"
  using assms by (simp_all add: bignum_laws_def)

lemma length_to_bytes_be:
  assumes N: "bignum_laws N" and n: "n < 256 ^ k" "0 < k"
  shows "length (to_bytes_be N n) \<le> k"
proof (cases "n = 0")
  case True
  then show ?thesis using N n by (simp add: bignum_laws_def)
next
  case False
  then obtain b bs where bs: "to_bytes_be N n = b # bs" "b \<noteq> 0"
    using N unfolding bignum_laws_def by (metis list.exhaust_sel)
  have "0 < unat b" using bs(2) by (simp add: unat_gt_0)
  then have "256 ^ length bs \<le> be_nat (b # bs)" by (simp add: be_nat_Cons trans_le_add1)
  also have "be_nat (b # bs) = n" using bignum_lawsD(2)[OF N, of n] bs by simp
  finally have "(256 :: nat) ^ length bs < 256 ^ k" using n(1) by (rule le_less_trans)
  then have "length bs < k" by (rule power_less_imp_less_exp[rotated]) simp
  then show ?thesis using bs by simp
qed

text \<open>Padding what the crate prints gives the fixed-width representation.\<close>

lemma pad_to_bytes_be:
  "bignum_laws N \<Longrightarrow> n < 256 ^ k \<Longrightarrow> 0 < k \<Longrightarrow> pad_zeros k (to_bytes_be N n) = be_bytes k n"
  by (simp add: pad_zeros_eq length_to_bytes_be bignum_lawsD)

section \<open>An implementation for evaluation\<close>

function digits256 :: "nat \<Rightarrow> bytes" where
  "digits256 n = (if n < 256 then [of_nat n] else digits256 (n div 256) @ [of_nat (n mod 256)])"
  by auto
termination by (relation "measure id") auto

declare digits256.simps [simp del]

definition model_bignum :: bignum where
  "model_bignum =
     \<lparr>from_bytes_be = be_nat, to_bytes_be = digits256,
      big_modpow = (\<lambda>b e m. if m = 0 then None else Some (b ^ e mod m)),
      parse_decimal = (\<lambda>s. if s \<noteq> [] \<and> list_all decimal_digit s then Some (decimal_value s) else None)\<rparr>"

lemma digits256_value: "be_nat (digits256 n) = n"
proof (induction n rule: digits256.induct)
  case (1 n)
  show ?case
  proof (cases "n < 256")
    case True
    then show ?thesis by (subst digits256.simps) (simp add: be_nat_Cons unat_of_nat)
  next
    case False
    then show ?thesis using 1 by (subst digits256.simps) (simp add: be_nat_append be_nat_Cons)
  qed
qed

lemma digits256_head: "digits256 n \<noteq> [] \<and> (n \<noteq> 0 \<longrightarrow> hd (digits256 n) \<noteq> 0)"
proof (induction n rule: digits256.induct)
  case (1 n)
  show ?case
  proof (cases "n < 256")
    case True
    then have "n \<noteq> 0 \<Longrightarrow> (of_nat n :: u8) \<noteq> 0" by (simp add: word_of_nat_eq_0_iff nat_dvd_not_less)
    with True show ?thesis by (subst (1 2) digits256.simps) simp
  next
    case False
    then show ?thesis using 1 by (subst (1 2) digits256.simps) auto
  qed
qed

lemma model_bignum_laws: "bignum_laws model_bignum"
  using digits256_head digits256_value
  by (auto simp: bignum_laws_def model_bignum_def digits256.simps[of 0])

end
