(* ===== verification/Factorize.thy ===== *)
theory Factorize
  imports Prelude Complex_Main
begin

text \<open>
  The factorization of the key exchange, \<open>grammers-crypto/src/factorize.rs\<close>: Brent's variant of
  Pollard's rho algorithm with a bounded amount of work, and a deterministic Miller-Rabin test. The
  source computes in 128 bits on numbers below \<open>2 ^ 64\<close>; no intermediate value overflows, so the
  numbers are natural numbers.
\<close>

section \<open>Arithmetic\<close>

definition WORK_LIMIT :: nat where
  "WORK_LIMIT = 1250000"

function gcd_loop :: "nat \<Rightarrow> nat \<Rightarrow> nat" where
  "gcd_loop a b = (if b = 0 then a else gcd_loop b (a mod b))"
  by auto
termination by (relation "measure snd") auto

declare gcd_loop.simps [simp del]

fun modpow_loop :: "nat \<Rightarrow> nat \<Rightarrow> nat \<Rightarrow> nat \<Rightarrow> nat" where
  "modpow_loop result n e m =
     (if e = 0 then result
      else modpow_loop (if e mod 2 = 1 then result * n mod m else result) (n * n mod m) (e div 2) m)"

declare modpow_loop.simps [simp del]

definition modpow :: "nat \<Rightarrow> nat \<Rightarrow> nat \<Rightarrow> nat" where
  "modpow n e m = (if m = 1 then 0 else modpow_loop 1 (n mod m) e m)"

section \<open>The primality test\<close>

function trailing_zeros :: "nat \<Rightarrow> nat" where
  "trailing_zeros n = (if n = 0 \<or> odd n then 0 else Suc (trailing_zeros (n div 2)))"
  by auto
termination by (relation "measure id") auto

declare trailing_zeros.simps [simp del]

text \<open>Whether no square in the given number of rounds reaches \<open>n - 1\<close>.\<close>

fun squares_witness :: "nat \<Rightarrow> nat \<Rightarrow> nat \<Rightarrow> bool" where
  "squares_witness n x 0 = True"
| "squares_witness n x (Suc k) = (let x' = x * x mod n in if x' = n - 1 then False else squares_witness n x' k)"

definition base_rejects :: "nat \<Rightarrow> nat \<Rightarrow> nat \<Rightarrow> nat \<Rightarrow> bool" where
  "base_rejects n s d a \<longleftrightarrow>
     (if a mod n = 0 then False
      else let x = modpow a d n in if x = 1 \<or> x = n - 1 then False else squares_witness n x (s - 1))"

definition is_prime :: "nat \<Rightarrow> bool" where
  "is_prime n =
     (if n < 2 \<or> n mod 2 = 0 then n = 2
      else let s = trailing_zeros (n - 1); d = (n - 1) div 2 ^ s
           in list_all (\<lambda>a. \<not> base_rejects n s d a) [2, 325, 9375, 28178, 450775, 9780504, 1795265022])"

section \<open>Brent's algorithm\<close>

definition next_y :: "nat \<Rightarrow> nat \<Rightarrow> nat \<Rightarrow> nat" where
  "next_y pq c y = (modpow y 2 pq + c) mod pq"

definition abs_sub :: "nat \<Rightarrow> nat \<Rightarrow> nat" where
  "abs_sub a b = max a b - min a b"

text \<open>The loops take the work that is left and give up with \<open>None\<close> when it is used up.\<close>

fun advance :: "nat \<Rightarrow> nat \<Rightarrow> nat \<Rightarrow> nat \<Rightarrow> nat \<Rightarrow> (nat \<times> nat) option" where
  "advance pq c k work y =
     (if k = 0 then Some (y, work)
      else if work = 0 then None
      else advance pq c (k - 1) (work - 1) (next_y pq c y))"

declare advance.simps [simp del]

fun gather :: "nat \<Rightarrow> nat \<Rightarrow> nat \<Rightarrow> nat \<Rightarrow> nat \<Rightarrow> nat \<Rightarrow> nat \<Rightarrow> (nat \<times> nat \<times> nat) option" where
  "gather pq c x k work y q =
     (if k = 0 then Some (y, q, work)
      else if work = 0 then None
      else let y' = next_y pq c y in gather pq c x (k - 1) (work - 1) y' (q * abs_sub x y' mod pq))"

declare gather.simps [simp del]

function batches ::
    "nat \<Rightarrow> nat \<Rightarrow> nat \<Rightarrow> nat \<Rightarrow> nat \<Rightarrow> nat \<Rightarrow> nat \<Rightarrow> nat \<Rightarrow> nat \<Rightarrow> nat \<Rightarrow> (nat \<times> nat \<times> nat \<times> nat \<times> nat) option" where
  "batches pq c x r k work y ys q g =
     (if k < r \<and> g = 1 then
        (case gather pq c x (min 128 (r - k)) work y q of
           None \<Rightarrow> None
         | Some (y', q', work') \<Rightarrow> batches pq c x r (k + 128) work' y' y q' (gcd_loop q' pq))
      else Some (y, ys, q, g, work))"
  by auto
termination by (relation "measure (\<lambda>(pq, c, x, r, k, _). r - k)") auto

declare batches.simps [simp del]

lemma advance_work: "advance pq c k work y = Some (y', work') \<Longrightarrow> work' + k = work"
  by (induction pq c k work y rule: advance.induct) (subst (asm) (2) advance.simps, auto split: if_splits)

lemma gather_work: "gather pq c x k work y q = Some (y', q', work') \<Longrightarrow> work' + k = work"
  by (induction pq c x k work y q rule: gather.induct)
    (subst (asm) (2) gather.simps, auto simp: Let_def split: if_splits)

lemma batches_work: "batches pq c x r k work y ys q g = Some (y', ys', q', g', work') \<Longrightarrow> work' \<le> work"
proof (induction pq c x r k work y ys q g rule: batches.induct)
  case (1 pq c x r k work y ys q g)
  show ?case
  proof (cases "k < r \<and> g = 1")
    case True
    with "1.prems" obtain y1 q1 w1 where g: "gather pq c x (min 128 (r - k)) work y q = Some (y1, q1, w1)"
      and b: "batches pq c x r (k + 128) w1 y1 y q1 (gcd_loop q1 pq) = Some (y', ys', q', g', work')"
      by (subst (asm) batches.simps) (auto split: option.splits)
    have "work' \<le> w1" using "1.IH"[OF True g refl refl] b by blast
    with gather_work[OF g] show ?thesis by simp
  next
    case False
    with "1.prems" show ?thesis by (subst (asm) batches.simps) auto
  qed
qed

function rho ::
    "nat \<Rightarrow> nat \<Rightarrow> nat \<Rightarrow> nat \<Rightarrow> nat \<Rightarrow> nat \<Rightarrow> nat \<Rightarrow> nat \<Rightarrow> nat \<Rightarrow> (nat \<times> nat \<times> nat \<times> nat) option" where
  "rho pq c r work y x ys q g =
     (if g \<noteq> 1 then Some (x, ys, g, work)
      else if r = 0 then None
      else
        (case advance pq c r work y of
           None \<Rightarrow> None
         | Some (y1, work1) \<Rightarrow>
             (case batches pq c y r 0 work1 y1 ys q 1 of
                None \<Rightarrow> None
              | Some (y2, ys2, q2, g2, work2) \<Rightarrow> rho pq c (2 * r) work2 y2 y ys2 q2 g2)))"
  by auto
termination
  by (relation "measure (\<lambda>(pq, c, r, work, _). work)") (auto dest!: advance_work batches_work)

declare rho.simps [simp del]

fun fallback :: "nat \<Rightarrow> nat \<Rightarrow> nat \<Rightarrow> nat \<Rightarrow> nat \<Rightarrow> (nat \<times> nat) option" where
  "fallback pq c x work ys =
     (if work = 0 then None
      else let ys' = next_y pq c ys; g = gcd_loop (abs_sub x ys') pq
           in if g > 1 then Some (g, work - 1) else fallback pq c x (work - 1) ys')"

declare fallback.simps [simp del]

definition factorize_with_param :: "nat \<Rightarrow> nat \<Rightarrow> nat \<Rightarrow> ((nat \<times> nat) \<times> nat) option" where
  "factorize_with_param pq c work =
     (if pq mod 2 = 0 then Some ((2, pq div 2), work)
      else
        (case rho pq c 1 work (3 * (pq div 7)) 0 0 1 1 of
           None \<Rightarrow> None
         | Some (x, ys, g, work') \<Rightarrow>
             (case (if g = pq then fallback pq c x work' ys else Some (g, work')) of
                None \<Rightarrow> None
              | Some (g', work'') \<Rightarrow> Some ((min g' (pq div g'), max g' (pq div g')), work''))))"

section \<open>The bounded factorization\<close>

text \<open>The integer square root of the standard library, one binary digit pair at a time.\<close>

function isqrt :: "nat \<Rightarrow> nat" where
  "isqrt n =
     (if n = 0 then 0
      else let r = 2 * isqrt (n div 4) in if (r + 1) * (r + 1) \<le> n then r + 1 else r)"
  by auto
termination by (relation "measure id") auto

declare isqrt.simps [simp del]

definition small_primes :: "nat list" where
  "small_primes = [2, 3, 5, 7, 11, 13, 17, 19, 23, 29, 31, 37, 41, 43, 47, 53, 59, 61, 67, 71, 73, 79, 83, 89, 97]"

text \<open>The tries share the budget: one that gives up has left nothing of it.\<close>

fun attempts :: "nat \<Rightarrow> nat list \<Rightarrow> nat \<Rightarrow> (nat \<times> nat) option" where
  "attempts pq [] work = None"
| "attempts pq (attempt # rest) work =
     (case factorize_with_param pq (max (attempt * (pq div 103)) 1) work of
        None \<Rightarrow> attempts pq rest 0
      | Some ((p, q), work') \<Rightarrow>
          if p > 1 \<and> q > 1 \<and> p * q = pq then (if is_prime p \<and> is_prime q then Some (p, q) else None)
          else attempts pq rest work')"

definition try_factorize :: "nat \<Rightarrow> (nat \<times> nat) option" where
  "try_factorize pq =
     (case find (\<lambda>p. p * p \<le> pq \<and> pq mod p = 0) small_primes of
        Some p \<Rightarrow> (let q = pq div p in if is_prime q then Some (p, q) else None)
      | None \<Rightarrow>
          if pq < 4 \<or> is_prime pq then None
          else let root = isqrt pq
               in if root * root = pq then (if is_prime root then Some (root, root) else None)
                  else attempts pq [43, 47, 53, 59, 61] WORK_LIMIT)"

section \<open>The arithmetic computes what it means to\<close>

lemma gcd_loop_gcd: "gcd_loop a b = gcd a b"
  by (induction a b rule: gcd_loop.induct) (subst gcd_loop.simps, simp add: gcd_red_nat[symmetric] gcd.commute)

lemma modpow_loop_power: "modpow_loop result n e m mod m = result * n ^ e mod m"
proof (induction result n e m rule: modpow_loop.induct)
  case (1 result n e m)
  show ?case
  proof (cases "e = 0")
    case False
    define k where "k = e div 2"
    have e: "e = (if e mod 2 = 1 then Suc (2 * k) else 2 * k)" unfolding k_def by presburger
    have pw: "n ^ e = (if e mod 2 = 1 then n else 1) * (n * n) ^ k"
      by (subst e) (auto simp: power_mult power2_eq_square)
    have "modpow_loop result n e m mod m =
        (if e mod 2 = 1 then result * n mod m else result) * (n * n mod m) ^ k mod m"
      using "1.IH"[OF False] False by (subst modpow_loop.simps) (simp add: k_def)
    also have "\<dots> = (if e mod 2 = 1 then result * n else result) * (n * n) ^ k mod m"
    proof -
      have m: "a mod m * (n * n mod m) ^ k mod m = a * (n * n) ^ k mod m" for a
        by (subst mod_mult_eq[symmetric]) (simp only: power_mod mod_mod_trivial mod_mult_eq)
      have "result * (n * n mod m) ^ k mod m = result * (n * n) ^ k mod m"
        by (subst mod_mult_right_eq[symmetric]) (simp only: power_mod mod_mult_right_eq)
      with m show ?thesis by simp
    qed
    also have "\<dots> = result * n ^ e mod m"
      unfolding pw by (simp add: mult.assoc)
    finally show ?thesis .
  qed (subst modpow_loop.simps, simp)
qed

lemma modpow_loop_less: "result < m \<Longrightarrow> modpow_loop result n e m < m"
  by (induction result n e m rule: modpow_loop.induct) (subst modpow_loop.simps, auto)

lemma modpow_power: "0 < m \<Longrightarrow> modpow n e m = n ^ e mod m"
  using modpow_loop_power[of 1 "n mod m" e m] modpow_loop_less[of 1 m "n mod m" e]
  by (auto simp: modpow_def mod_simps)

lemma isqrt_bounds: "isqrt n * isqrt n \<le> n \<and> n < (isqrt n + 1) * (isqrt n + 1)"
proof (induction n rule: isqrt.induct)
  case (1 n)
  show ?case
  proof (cases "n = 0")
    case False
    define s where "s = isqrt (n div 4)"
    have s: "s * s \<le> n div 4" "n div 4 < (s + 1) * (s + 1)" using "1.IH"[OF False] by (simp_all add: s_def)
    have lo: "2 * s * (2 * s) \<le> n" using s(1) by (simp add: algebra_simps)
    have "n div 4 + 1 \<le> (s + 1) * (s + 1)" using s(2) by simp
    hence "4 * (n div 4 + 1) \<le> 4 * ((s + 1) * (s + 1))" by (rule mult_le_mono2)
    hence hi: "n < (2 * s + 2) * (2 * s + 2)" by (simp add: algebra_simps)
    show ?thesis
      using False lo hi by (subst (1 2 3 4) isqrt.simps) (auto simp: Let_def s_def[symmetric] algebra_simps)
  qed (simp add: isqrt.simps)
qed

lemma isqrt_square: "isqrt (r * r) = r"
proof (rule antisym)
  show "isqrt (r * r) \<le> r"
  proof (rule ccontr)
    assume "\<not> isqrt (r * r) \<le> r"
    hence "r * r < isqrt (r * r) * isqrt (r * r)" by (intro mult_strict_mono) auto
    with isqrt_bounds[of "r * r"] show False by simp
  qed
  show "r \<le> isqrt (r * r)"
  proof (rule ccontr)
    assume "\<not> r \<le> isqrt (r * r)"
    hence "(isqrt (r * r) + 1) * (isqrt (r * r) + 1) \<le> r * r" by (intro mult_le_mono) auto
    with isqrt_bounds[of "r * r"] show False by simp
  qed
qed

section \<open>Prime numbers\<close>

definition prime_number :: "nat \<Rightarrow> bool" where
  "prime_number n \<longleftrightarrow> 2 \<le> n \<and> (\<forall>d \<in> {2..<n}. \<not> d dvd n)"

lemma prime_number_dvd: "prime_number n \<Longrightarrow> d dvd n \<Longrightarrow> d = 1 \<or> d = n"
proof -
  assume p: "prime_number n" and d: "d dvd n"
  have "0 < n" using p by (simp add: prime_number_def)
  hence "0 < d \<and> d \<le> n" using d by (auto simp: dvd_imp_le intro: Nat.gr0I)
  thus ?thesis using p d by (force simp: prime_number_def)
qed

lemma prime_number_coprime: "prime_number p \<Longrightarrow> \<not> p dvd a \<Longrightarrow> coprime p a"
  by (metis coprime_iff_gcd_eq_1 gcd_dvd1 gcd_dvd2 prime_number_dvd)

lemma prime_number_euclid: "prime_number p \<Longrightarrow> p dvd a * b \<Longrightarrow> p dvd a \<or> p dvd b"
  using prime_number_coprime coprime_dvd_mult_right_iff by blast

lemma prime_dvd_choose:
  assumes p: "prime_number p" and k: "0 < k" "k < p"
  shows "p dvd (p choose k)"
proof -
  have "k * (p choose k) = p * ((p - 1) choose (k - 1))"
    using k by (simp add: times_binomial_minus1_eq)
  hence "p dvd k * (p choose k)" by simp
  moreover have "\<not> p dvd k" using k by (auto dest: dvd_imp_le)
  ultimately show ?thesis using prime_number_euclid[OF p] by blast
qed

lemma freshman:
  assumes p: "prime_number p"
  shows "(a + 1) ^ p mod p = (a ^ p + 1) mod (p :: nat)"
proof -
  have p2: "2 \<le> p" using p by (simp add: prime_number_def)
  have "(a + 1) ^ p = (\<Sum>k\<le>p. (p choose k) * a ^ k)"
    using binomial_ring[of a 1 p] by simp
  also have "{..p} = insert 0 (insert p {0<..<p})" using p2 by auto
  also have "(\<Sum>k\<in>\<dots>. (p choose k) * a ^ k) = 1 + a ^ p + (\<Sum>k\<in>{0<..<p}. (p choose k) * a ^ k)"
    using p2 by simp
  finally have "(a + 1) ^ p = 1 + a ^ p + (\<Sum>k\<in>{0<..<p}. (p choose k) * a ^ k)" .
  moreover obtain c where "(\<Sum>k\<in>{0<..<p}. (p choose k) * a ^ k) = p * c"
  proof -
    have "p dvd (\<Sum>k\<in>{0<..<p}. (p choose k) * a ^ k)"
      by (rule dvd_sum) (auto intro!: dvd_mult2 prime_dvd_choose[OF p])
    thus ?thesis using that by (auto elim: dvdE)
  qed
  ultimately show ?thesis by (simp add: add.commute)
qed

lemma fermat_power: "prime_number p \<Longrightarrow> a ^ p mod p = a mod (p :: nat)"
proof (induction a)
  case 0
  thus ?case by (simp add: prime_number_def power_0_left)
next
  case (Suc a)
  thus ?case using freshman[OF Suc.prems, of a] by (metis Suc_eq_plus1 mod_add_left_eq)
qed

lemma fermat_little:
  assumes p: "prime_number p" and a: "\<not> p dvd a"
  shows "a ^ (p - 1) mod p = 1"
proof -
  have p2: "2 \<le> p" using p by (simp add: prime_number_def)
  have a0: "0 < a" using a by (auto intro: Nat.gr0I)
  have "a ^ p = a * a ^ (p - 1)" using p2 by (simp add: power_eq_if)
  hence "(a * a ^ (p - 1)) mod p = a mod p" using fermat_power[OF p, of a] by simp
  hence "p dvd a * a ^ (p - 1) - a" using a0 by (metis mod_eq_dvd_iff_nat le_add1 mult.comm_neutral mult_le_mono2 one_le_power Suc_leI One_nat_def)
  moreover have "a * a ^ (p - 1) - a = a * (a ^ (p - 1) - 1)" by (simp add: diff_mult_distrib2)
  ultimately have "p dvd a ^ (p - 1) - 1" using prime_number_euclid[OF p] a by auto
  moreover have "1 \<le> a ^ (p - 1)" using a0 by simp
  ultimately show ?thesis using p2 mod_eq_dvd_iff_nat[of 1 "a ^ (p - 1)" p] by simp
qed

section \<open>The primality test accepts every prime\<close>

lemma square_roots_of_one:
  assumes n: "prime_number n" and x: "x < n" "x * x mod n = 1"
  shows "x = 1 \<or> x = n - 1"
proof -
  have x0: "0 < x" using x by (auto intro: Nat.gr0I)
  have "n dvd x * x - 1"
    using x x0 mod_eq_dvd_iff_nat[of 1 "x * x" n] by (metis One_nat_def Suc_leI mod_mod_trivial nat_0_less_mult_iff)
  moreover have "x * x - 1 = (x - 1) * (x + 1)" using x0 by (cases x) simp_all
  ultimately consider "n dvd x - 1" | "n dvd x + 1" using prime_number_euclid[OF n] by metis
  thus ?thesis
  proof cases
    case 1
    hence "x - 1 = 0" using x by (metis dvd_imp_le less_imp_diff_less not_le zero_less_iff_neq_zero)
    thus ?thesis using x0 by simp
  next
    case 2
    hence "n \<le> x + 1" by (auto dest: dvd_imp_le)
    thus ?thesis using x(1) by linarith
  qed
qed

lemma squares_reach_minus_one:
  assumes n: "prime_number n"
  shows "x < n \<Longrightarrow> x ^ 2 ^ Suc k mod n = 1 \<Longrightarrow> x \<noteq> 1 \<Longrightarrow> x \<noteq> n - 1 \<Longrightarrow> \<not> squares_witness n x k"
proof (induction k arbitrary: x)
  case 0
  thus ?case using square_roots_of_one[OF n, of x] by (simp add: power2_eq_square)
next
  case (Suc k)
  define y where "y = x * x mod n"
  have "x ^ 2 ^ Suc (Suc k) = (x * x) ^ 2 ^ Suc k"
    by (simp add: power_mult[symmetric] power2_eq_square[symmetric] mult.commute)
  hence "y ^ 2 ^ Suc k mod n = 1" using Suc.prems(2) by (simp add: y_def power_mod)
  moreover have "y < n" using Suc.prems(1) by (simp add: y_def)
  moreover have "y \<noteq> 1" using square_roots_of_one[OF n Suc.prems(1)] Suc.prems by (auto simp: y_def)
  ultimately show ?case using Suc.IH[of y] by (auto simp: Let_def y_def)
qed

lemma trailing_zeros_dvd: "2 ^ trailing_zeros n dvd n"
proof (induction n rule: trailing_zeros.induct)
  case (1 n)
  show ?case
  proof (cases "n = 0 \<or> odd n")
    case False
    have "2 * 2 ^ trailing_zeros (n div 2) dvd 2 * (n div 2)" using "1.IH"[OF False] by (intro mult_dvd_mono) auto
    also have "2 * (n div 2) = n" using False by simp
    finally show ?thesis using False by (subst trailing_zeros.simps) simp
  qed (subst trailing_zeros.simps, auto)
qed

lemma prime_not_rejected:
  assumes n: "prime_number n" "n \<noteq> 2"
  defines "s \<equiv> trailing_zeros (n - 1)"
  shows "\<not> base_rejects n s ((n - 1) div 2 ^ s) a"
proof (cases "a mod n = 0")
  case False
  define d where "d = (n - 1) div 2 ^ s"
  define x where "x = modpow a d n"
  have n2: "2 < n" using n by (simp add: prime_number_def)
  have "odd n" using n prime_number_dvd[of n 2] by auto
  hence "s = Suc (trailing_zeros ((n - 1) div 2))" using n2 unfolding s_def by (subst trailing_zeros.simps) auto
  then obtain k where k: "s = Suc k" by blast
  have ds: "d * 2 ^ s = n - 1" unfolding d_def s_def by (rule dvd_div_mult_self[OF trailing_zeros_dvd])
  have x: "x = a ^ d mod n" using n2 by (simp add: x_def modpow_power)
  have "x ^ 2 ^ Suc k mod n = (a ^ d) ^ 2 ^ Suc k mod n" by (simp only: x power_mod)
  also have "\<dots> = a ^ (n - 1) mod n" by (simp only: power_mult[symmetric] k[symmetric] ds)
  also have "\<dots> = 1" using False by (intro fermat_little n) (simp add: dvd_eq_mod_eq_0)
  finally have one: "x ^ 2 ^ Suc k mod n = 1" .
  have "x < n" using n2 by (simp add: x)
  from squares_reach_minus_one[OF n(1) this one] show ?thesis
    using False by (auto simp: base_rejects_def Let_def d_def x_def k)
qed (simp add: base_rejects_def)

lemma prime_passes: "prime_number n \<Longrightarrow> is_prime n"
proof (cases "n = 2")
  case False
  assume n: "prime_number n"
  have "\<not> 2 dvd n" using prime_number_dvd[OF n, of 2] False by auto
  with n have "2 \<le> n" "n mod 2 \<noteq> 0" by (auto simp: prime_number_def odd_iff_mod_2_eq_one)
  with prime_not_rejected[OF n False] show ?thesis by (simp add: is_prime_def Let_def)
qed (simp add: is_prime_def)

section \<open>The factors\<close>

lemma batches_divisor:
  "batches pq c x r k work y ys q g = Some (y', ys', q', g', work') \<Longrightarrow> g dvd pq \<Longrightarrow> g' dvd pq"
proof (induction pq c x r k work y ys q g rule: batches.induct)
  case (1 pq c x r k work y ys q g)
  show ?case
  proof (cases "k < r \<and> g = 1")
    case True
    with "1.prems" obtain y1 q1 w1 where g: "gather pq c x (min 128 (r - k)) work y q = Some (y1, q1, w1)"
      and b: "batches pq c x r (k + 128) w1 y1 y q1 (gcd_loop q1 pq) = Some (y', ys', q', g', work')"
      by (subst (asm) batches.simps) (auto split: option.splits)
    from "1.IH"[OF True g refl refl b] show ?thesis by (simp add: gcd_loop_gcd)
  next
    case False
    with "1.prems" show ?thesis by (subst (asm) batches.simps) auto
  qed
qed

lemma rho_divisor: "rho pq c r work y x ys q g = Some (x', ys', g', work') \<Longrightarrow> g dvd pq \<Longrightarrow> g' dvd pq"
proof (induction pq c r work y x ys q g rule: rho.induct)
  case (1 pq c r work y x ys q g)
  show ?case
  proof (cases "g \<noteq> 1")
    case False
    with "1.prems" obtain y1 w1 y2 ys2 q2 g2 w2 where r: "r \<noteq> 0"
      and a: "advance pq c r work y = Some (y1, w1)"
      and b: "batches pq c y r 0 w1 y1 ys q 1 = Some (y2, ys2, q2, g2, w2)"
      and n: "rho pq c (2 * r) w2 y2 y ys2 q2 g2 = Some (x', ys', g', work')"
      by (subst (asm) rho.simps) (auto split: option.splits if_splits)
    have "g2 dvd pq" by (rule batches_divisor[OF b]) simp
    with "1.IH"[OF False r a refl b refl refl refl refl n] show ?thesis by blast
  next
    case True
    with "1.prems" show ?thesis by (subst (asm) rho.simps) auto
  qed
qed

lemma fallback_divisor: "fallback pq c x work ys = Some (g, work') \<Longrightarrow> g dvd pq"
proof (induction pq c x work ys rule: fallback.induct)
  case (1 pq c x work ys)
  from "1.prems" show ?case
    using "1.IH"[OF _ refl refl]
    by (subst (asm) (1) fallback.simps) (auto simp: Let_def gcd_loop_gcd split: if_splits)
qed

lemma factorize_with_param_product:
  assumes f: "factorize_with_param pq c work = Some ((p, q), work')" and q: "Suc 0 < q"
  shows "p \<le> q \<and> p * q = pq"
proof (cases "pq mod 2 = 0")
  case True
  with f q show ?thesis by (auto simp: factorize_with_param_def)
next
  case False
  with f obtain x ys g w g' where r: "rho pq c 1 work (3 * (pq div 7)) 0 0 1 1 = Some (x, ys, g, w)"
    and g': "(if g = pq then fallback pq c x w ys else Some (g, w)) = Some (g', work')"
    and pq: "p = min g' (pq div g')" "q = max g' (pq div g')"
    by (auto simp: factorize_with_param_def split: option.splits)
  have "g' dvd pq"
    using g' rho_divisor[OF r] by (auto split: if_splits dest: fallback_divisor)
  thus ?thesis by (auto simp: pq min_def max_def)
qed

lemma attempts_sound:
  "attempts pq as work = Some (p, q) \<Longrightarrow> p * q = pq \<and> 1 < p \<and> p \<le> q \<and> is_prime p \<and> is_prime q"
  by (induction pq as work rule: attempts.induct)
    (auto split: option.splits if_splits dest: factorize_with_param_product)

lemma small_primes_prime: "p \<in> set small_primes \<Longrightarrow> prime_number p"
proof -
  have "list_all prime_number small_primes" by code_simp
  thus "p \<in> set small_primes \<Longrightarrow> prime_number p" by (simp add: list_all_iff)
qed

lemma prime_below_100:
  assumes p: "prime_number p" "p < 100"
  shows "p \<in> set small_primes"
proof (rule ccontr)
  assume n: "p \<notin> set small_primes"
  have "list_all (\<lambda>n. n < 2 \<or> n \<in> set small_primes \<or> list_ex (\<lambda>d. n mod d = 0) [2, 3, 5, 7]) [0..<100]" by code_simp
  then have "p < 2 \<or> p \<in> set small_primes \<or> list_ex (\<lambda>d. p mod d = 0) [2, 3, 5, 7]"
    unfolding list_all_iff using p(2) by (metis atLeastLessThan_iff le0 set_upt)
  moreover have "2 \<le> p" using p(1) by (simp add: prime_number_def)
  ultimately obtain d where d: "d \<in> {2, 3, 5, 7}" "d dvd p" using n by (auto simp: mod_0_imp_dvd)
  then have "p = d" using prime_number_dvd[OF p(1) d(2)] by auto
  with d n show False by (auto simp: small_primes_def)
qed

lemma semiprime_unique:
  assumes a: "prime_number a" and b: "prime_number b" and ab: "a \<le> b"
    and pq: "p * q = a * b" "1 < p" "p \<le> q"
  shows "p = a \<and> q = b"
proof -
  have a0: "0 < a" using a by (simp add: prime_number_def)
  have "a dvd p * q" by (simp add: pq)
  then consider "a dvd p" | "a dvd q" using prime_number_euclid[OF a] by blast
  thus ?thesis
  proof cases
    case 1
    then obtain k where k: "p = a * k" by (elim dvdE)
    with pq a0 have "k * q = b" by simp
    hence "q = 1 \<or> q = b" using prime_number_dvd[OF b, of q] by (metis dvd_triv_right)
    with pq \<open>k * q = b\<close> b k show ?thesis by (auto simp: prime_number_def)
  next
    case 2
    then obtain k where k: "q = a * k" by (elim dvdE)
    with pq a0 have "p * k = b" by simp
    hence "p = b" using prime_number_dvd[OF b, of p] pq by (metis dvd_triv_left less_irrefl)
    with pq \<open>p * k = b\<close> b k ab show ?thesis by (auto simp: prime_number_def)
  qed
qed

lemma small_factor_found:
  assumes p: "find (\<lambda>p. p * p \<le> pq \<and> pq mod p = 0) small_primes = Some p"
  shows "prime_number p \<and> p * (pq div p) = pq \<and> p \<le> pq div p"
proof -
  from p have "p \<in> set small_primes" and c: "p * p \<le> pq" "pq mod p = 0"
    by (auto simp: find_Some_iff in_set_conv_nth)
  hence pr: "prime_number p" by (intro small_primes_prime)
  hence "0 < p" by (simp add: prime_number_def)
  hence "p \<le> pq div p" using c(1) by (simp add: less_eq_div_iff_mult_less_eq)
  moreover have "p * (pq div p) = pq" using c(2) by (simp add: mod_0_imp_dvd)
  ultimately show ?thesis using pr by blast
qed

lemma factors_sound:
  assumes f: "try_factorize pq = Some (p, q)"
  shows "p * q = pq \<and> 1 < p \<and> p \<le> q \<and> is_prime p \<and> is_prime q"
proof (cases "find (\<lambda>p. p * p \<le> pq \<and> pq mod p = 0) small_primes")
  case (Some s)
  with f small_factor_found[OF Some] show ?thesis
    by (auto simp: try_factorize_def Let_def prime_passes prime_number_def split: if_splits)
next
  case None
  show ?thesis
  proof (cases "isqrt pq * isqrt pq = pq")
    case True
    with f None have e: "p = isqrt pq" "q = isqrt pq" "is_prime p" "\<not> pq < 4"
      by (auto simp: try_factorize_def Let_def split: if_splits)
    moreover have "1 < p" using e True by (metis is_prime_def less_2_cases_iff less_one linorder_neqE_nat not_numeral_less_one zero_neq_numeral one_less_numeral_iff semiring_norm(76))
    ultimately show ?thesis using True by simp
  next
    case False
    with f None have "attempts pq [43, 47, 53, 59, 61] WORK_LIMIT = Some (p, q)"
      by (auto simp: try_factorize_def Let_def split: if_splits)
    thus ?thesis by (rule attempts_sound)
  qed
qed

lemma small_factor_of_semiprime:
  assumes a: "prime_number a" and b: "prime_number b" and ab: "a \<le> b" "a < 100"
  shows "find (\<lambda>p. p * p \<le> a * b \<and> (a * b) mod p = 0) small_primes = Some a"
proof -
  have "\<exists>p. find (\<lambda>p. p * p \<le> a * b \<and> (a * b) mod p = 0) small_primes = Some p"
    using prime_below_100[OF a ab(2)] ab
    by (auto simp: find_None_iff simp flip: not_None_eq intro!: exI[of _ a] mult_le_mono2)
  then obtain p where p: "find (\<lambda>p. p * p \<le> a * b \<and> (a * b) mod p = 0) small_primes = Some p" ..
  from small_factor_found[OF this] have "p = a"
    using semiprime_unique[OF a b ab(1)] by (auto simp: prime_number_def)
  with p show ?thesis by simp
qed

lemma prime_has_no_small_factor:
  assumes n: "prime_number n"
  shows "find (\<lambda>p. p * p \<le> n \<and> n mod p = 0) small_primes = None"
proof (rule ccontr)
  assume "find (\<lambda>p. p * p \<le> n \<and> n mod p = 0) small_primes \<noteq> None"
  then obtain p where p: "prime_number p" "p * (n div p) = n" "p \<le> n div p" using small_factor_found by blast
  hence "p dvd n" by (metis dvd_triv_left)
  with prime_number_dvd[OF n this] have "p = n" using p(1) by (auto simp: prime_number_def)
  with p show False by (auto simp: prime_number_def)
qed

text \<open>
  C32: The factorization of the server's number is right whenever it succeeds: the two numbers it
  returns multiply to the input, the smaller comes first, neither is one and both pass the primality
  test; for a product of two primes they are those primes, and they are always found when the smaller
  is below one hundred; a prime number, one and zero are refused.
\<close>

theorem factorization_correct:
  assumes a: "prime_number a" and b: "prime_number b" and ab: "a \<le> b"
  shows "(try_factorize pq = Some (p, q) \<longrightarrow> p * q = pq \<and> 1 < p \<and> p \<le> q \<and> is_prime p \<and> is_prime q)
    \<and> try_factorize (a * b) \<in> {None, Some (a, b)}
    \<and> (a < 100 \<longrightarrow> try_factorize (a * b) = Some (a, b))
    \<and> try_factorize a = None \<and> try_factorize 1 = None \<and> try_factorize 0 = None"
proof (intro conjI)
  show "try_factorize pq = Some (p, q) \<longrightarrow> p * q = pq \<and> 1 < p \<and> p \<le> q \<and> is_prime p \<and> is_prime q"
    using factors_sound by blast
  show "try_factorize (a * b) \<in> {None, Some (a, b)}"
    using semiprime_unique[OF a b ab] factors_sound[of "a * b"]
    by (cases "try_factorize (a * b)") auto
  show "a < 100 \<longrightarrow> try_factorize (a * b) = Some (a, b)"
    using small_factor_of_semiprime[OF a b ab] a prime_passes[OF b]
    by (auto simp: try_factorize_def Let_def prime_number_def)
  show "try_factorize a = None"
    using prime_has_no_small_factor[OF a] prime_passes[OF a] by (simp add: try_factorize_def)
  show "try_factorize 1 = None" "try_factorize 0 = None" by (simp_all add: try_factorize_def small_primes_def)
qed

theorem factorization_correct_witness:
  "try_factorize (3 * 5) = Some (3, 5) \<and> try_factorize 10403 = Some (101, 103) \<and> is_prime 103"
proof -
  have p: "prime_number 3" "prime_number 5" "(3 :: nat) \<le> 5" "(3 :: nat) < 100" by code_simp+
  have small: "find (\<lambda>p. p * p \<le> (10403 :: nat) \<and> 10403 mod p = 0) small_primes = None"
    by (simp add: small_primes_def)
  have "prime_number 101" "prime_number 103" by code_simp+
  then have prime: "is_prime 101" "is_prime 103" by (simp_all add: prime_passes)
  have "trailing_zeros 10402 = 1" "base_rejects 10403 1 5201 2"
    by (simp_all add: base_rejects_def modpow_def modpow_loop.simps trailing_zeros.simps Let_def)
  then have composite: "\<not> is_prime 10403" by (simp add: is_prime_def Let_def)
  have root: "isqrt 10403 = 101" by (simp add: isqrt.simps)
  have "factorize_with_param 10403 4343 1250000 = Some ((101, 103), 1249994)"
    by (simp add: factorize_with_param_def rho.simps advance.simps batches.simps gather.simps
        next_y_def abs_sub_def modpow_def modpow_loop.simps gcd_loop.simps Let_def)
  hence f: "try_factorize 10403 = Some (101, 103)"
    using small prime composite root by (simp add: try_factorize_def Let_def WORK_LIMIT_def)
  show ?thesis using factorization_correct[OF p(1-3), of 10403 101 103] p f by blast
qed

end
