(* ===== verification/Rsa.thy ===== *)
theory Rsa
  imports Message_Crypto Big_Numbers Factorize
begin

text \<open>
  The RSA encryption of the key exchange, \<open>grammers-crypto/src/rsa.rs\<close>: the data is padded, hashed
  and encrypted under a temporary key until the result is below the modulus. The block cipher, the
  hash and the big-number crate are parameters. \<open>None\<close> is a failed assertion, or a loop that never
  ends because no temporary key fits.
\<close>

section \<open>Encryption\<close>

record rsa_key =
  rk_n :: nat
  rk_e :: nat

definition rsa_key_new :: "bignum \<Rightarrow> string \<Rightarrow> string \<Rightarrow> rsa_key option" where
  "rsa_key_new N n e =
     do { n' \<leftarrow> parse_decimal N n; e' \<leftarrow> parse_decimal N e; Some \<lparr>rk_n = n', rk_e = e'\<rparr> }"

text \<open>
  The increment of a big-endian number in place: a byte that overflows becomes zero and the carry
  moves to the left, from the first byte to the last. Every step of the loop but the last turns a
  byte 255 into zero.
\<close>

lemma count_overflow:
  assumes "i < length dat" "(dat ! i :: u8) + 1 = 0"
  shows "length (filter (\<lambda>b. b = 255) (dat[i := 0])) < length (filter (\<lambda>b. b = 255) dat)"
proof -
  have m1: "(- 1 :: u8) = 255" by simp
  have ff: "dat ! i = 255" using assms(2) by (simp only: add_eq_0_iff2 m1)
  have split: "dat = take i dat @ dat ! i # drop (Suc i) dat" by (rule id_take_nth_drop[OF assms(1)])
  have upd: "dat[i := 0] = take i dat @ 0 # drop (Suc i) dat"
    using assms by (simp add: upd_conv_take_nth_drop)
  show ?thesis unfolding upd by (subst (3) split) (simp add: ff)
qed

function increment_loop :: "bytes \<Rightarrow> nat \<Rightarrow> bytes option" where
  "increment_loop dat i =
     (if length dat \<le> i then None
      else let n = dat ! i + 1; dat' = dat[i := n]
           in if n = 0 then increment_loop dat' (if i = 0 then length dat' - 1 else i - 1) else Some dat')"
  by auto
termination
  by (relation "measure (\<lambda>(dat, i). length (filter (\<lambda>b. b = 255) dat))") (auto simp: count_overflow)

declare increment_loop.simps [simp del]

definition increment :: "bytes \<Rightarrow> bytes option" where
  "increment dat = (if dat = [] then None else increment_loop dat (length dat - 1))"

text \<open>One pass of the loop: the value that is compared with the modulus.\<close>

definition key_aes_encrypted :: "block_cipher \<Rightarrow> (bytes \<Rightarrow> bytes) \<Rightarrow> bytes \<Rightarrow> bytes \<Rightarrow> bytes option" where
  "key_aes_encrypted enc sha256 data_with_padding temp_key =
     do {
       aes_encrypted \<leftarrow> ige_encrypt enc (rev data_with_padding @ sha256 (temp_key @ data_with_padding))
                          temp_key (replicate 32 0);
       Some (xor_block temp_key (sha256 aes_encrypted) @ aes_encrypted)
     }"

partial_function (option) fitting_key ::
    "bignum \<Rightarrow> block_cipher \<Rightarrow> (bytes \<Rightarrow> bytes) \<Rightarrow> rsa_key \<Rightarrow> bytes \<Rightarrow> bytes \<Rightarrow> bytes option" where
  "fitting_key N enc sha256 key data_with_padding temp_key =
     do {
       k \<leftarrow> key_aes_encrypted enc sha256 data_with_padding temp_key;
       if rk_n key \<le> from_bytes_be N k then
         do { t \<leftarrow> increment temp_key; fitting_key N enc sha256 key data_with_padding t }
       else Some k
     }"

definition encrypt_hashed ::
    "bignum \<Rightarrow> block_cipher \<Rightarrow> (bytes \<Rightarrow> bytes) \<Rightarrow> bytes \<Rightarrow> rsa_key \<Rightarrow> bytes \<Rightarrow> bytes option" where
  "encrypt_hashed N enc sha256 dat key random_bytes =
     (if length dat \<le> 144 then
        do {
          k \<leftarrow> fitting_key N enc sha256 key (dat @ take (192 - length dat) random_bytes) (take 32 (drop 192 random_bytes));
          encrypted \<leftarrow> big_modpow N (from_bytes_be N k) (rk_e key) (rk_n key);
          Some (pad_zeros 256 (to_bytes_be N encrypted))
        }
      else None)"

section \<open>The owner of the private key\<close>

text \<open>
  What the protocol prescribes for the server: decrypt with the private exponent, undo the masking
  of the temporary key, decrypt, reverse, and compare the hash.
\<close>

definition rsa_open :: "block_cipher \<Rightarrow> (bytes \<Rightarrow> bytes) \<Rightarrow> nat \<Rightarrow> nat \<Rightarrow> bytes \<Rightarrow> bytes option" where
  "rsa_open dec sha256 n d block =
     (let k = be_bytes 256 (be_nat block ^ d mod n);
          temp_key = xor_block (take 32 k) (sha256 (drop 32 k))
      in case ige_decrypt dec (drop 32 k) temp_key (replicate 32 0) of
           None \<Rightarrow> None
         | Some data_with_hash \<Rightarrow>
             let data_with_padding = rev (take 192 data_with_hash)
             in if drop 192 data_with_hash = sha256 (temp_key @ data_with_padding) then Some data_with_padding else None)"

definition private_exponent :: "rsa_key \<Rightarrow> nat \<Rightarrow> bool" where
  "private_exponent key d \<longleftrightarrow> (\<forall>m < rk_n key. (m ^ rk_e key mod rk_n key) ^ d mod rk_n key = m)"

text \<open>Every RSA key has one: the inverse of the public exponent for the product of the primes less one.\<close>

lemma power_pred_mod:
  assumes p: "prime_number p" shows "m * m ^ (k * (p - 1)) mod p = m mod p"
proof (cases "p dvd m")
  case True
  then show ?thesis by (metis dvd_imp_mod_0 dvd_mult2)
next
  case False
  have "m ^ (k * (p - 1)) mod p = (m ^ (p - 1)) ^ k mod p" by (simp add: power_mult[symmetric] mult.commute)
  also have "\<dots> = (m ^ (p - 1) mod p) ^ k mod p" by (simp only: power_mod)
  also have "\<dots> = 1" using fermat_little[OF p False] p by (simp add: prime_number_def)
  finally have "m ^ (k * (p - 1)) mod p = 1" .
  then show ?thesis by (metis mod_mult_right_eq mult.right_neutral)
qed

lemma primes_product_mod:
  assumes "prime_number p" "prime_number q" "p \<noteq> q" and "a mod p = b mod p" "a mod q = b mod q"
  shows "a mod (p * q) = b mod (p * q :: nat)"
proof -
  have pq: "\<not> p dvd q" using assms prime_number_dvd[of q p] by (auto simp: prime_number_def)
  have "p * q dvd y - x" if "x \<le> y" "x mod p = y mod p" "x mod q = y mod q" for x y :: nat
  proof -
    have "p dvd y - x" "q dvd y - x"
      using that mod_eq_dvd_iff_nat[of x y] by (metis (no_types))+
    then show ?thesis using prime_number_coprime[OF assms(1) pq] by (simp add: divides_mult)
  qed
  from this[of a b] this[of b a] assms(4,5) show ?thesis
    by (metis mod_eq_dvd_iff_nat nat_le_linear)
qed

lemma rsa_private_exponent:
  assumes p: "prime_number p" and q: "prime_number q" "p \<noteq> q" and n: "rk_n key = p * q"
    and d: "rk_e key * d mod ((p - 1) * (q - 1)) = 1"
  shows "private_exponent key d"
  unfolding private_exponent_def
proof (intro allI impI)
  fix m assume m: "m < rk_n key"
  let ?f = "(p - 1) * (q - 1)"
  define j where "j = rk_e key * d div ?f"
  have ed: "rk_e key * d = Suc (j * ?f)" using d div_mult_mod_eq[of "rk_e key * d" ?f] by (simp add: j_def)
  have "m ^ (rk_e key * d) mod p = m mod p"
    unfolding ed using power_pred_mod[OF p, of m "j * (q - 1)"] by (simp add: mult_ac)
  moreover have "m ^ (rk_e key * d) mod q = m mod q"
    unfolding ed using power_pred_mod[OF q(1), of m "j * (p - 1)"] by (simp add: mult_ac)
  ultimately have "m ^ (rk_e key * d) mod rk_n key = m mod rk_n key"
    unfolding n by (rule primes_product_mod[OF p q])
  then show "(m ^ rk_e key mod rk_n key) ^ d mod rk_n key = m"
    using m by (simp add: power_mod power_mult)
qed

section \<open>The data arrives\<close>

lemma increment_loop_length: "increment_loop dat i = Some dat' \<Longrightarrow> length dat' = length dat"
proof (induction dat i rule: increment_loop.induct)
  case (1 dat i)
  from "1.prems" show ?case
    using "1.IH"[OF _ refl refl] by (subst (asm) (1) increment_loop.simps) (auto simp: Let_def split: if_splits)
qed

lemma increment_length: "increment dat = Some dat' \<Longrightarrow> length dat' = length dat"
  by (auto simp: increment_def increment_loop_length split: if_splits)

text \<open>The temporary keys the loop tries one after the other.\<close>

fun nth_temp_key :: "nat \<Rightarrow> bytes \<Rightarrow> bytes option" where
  "nth_temp_key 0 t = Some t"
| "nth_temp_key (Suc j) t = do { t' \<leftarrow> increment t; nth_temp_key j t' }"

lemma nth_temp_key_length: "nth_temp_key j t = Some t' \<Longrightarrow> length t' = length t"
  by (induction j arbitrary: t) (auto simp: bind_eq_Some_conv increment_length)

definition fits :: "bignum \<Rightarrow> block_cipher \<Rightarrow> (bytes \<Rightarrow> bytes) \<Rightarrow> rsa_key \<Rightarrow> bytes \<Rightarrow> bytes \<Rightarrow> bytes \<Rightarrow> bool" where
  "fits N enc sha256 key p t k \<longleftrightarrow> key_aes_encrypted enc sha256 p t = Some k \<and> from_bytes_be N k < rk_n key"

lemma fitting_key_sound:
  assumes "fitting_key N enc sha256 key p t = Some k"
  shows "\<exists>j t'. nth_temp_key j t = Some t' \<and> fits N enc sha256 key p t' k"
proof (rule fitting_key.raw_induct[of "\<lambda>N enc sha256 key p t k. \<exists>j t'. nth_temp_key j t = Some t' \<and> fits N enc sha256 key p t' k",
      OF _ assms])
  fix "rec" :: "bignum \<Rightarrow> block_cipher \<Rightarrow> (bytes \<Rightarrow> bytes) \<Rightarrow> rsa_key \<Rightarrow> bytes \<Rightarrow> bytes \<Rightarrow> bytes option"
    and N enc sha256 key p t k
  assume IH: "\<And>N enc sha256 key p t k. rec N enc sha256 key p t = Some k \<Longrightarrow>
      \<exists>j t'. nth_temp_key j t = Some t' \<and> fits N enc sha256 key p t' k"
    and body: "do { k \<leftarrow> key_aes_encrypted enc sha256 p t;
       if rk_n key \<le> from_bytes_be N k then do { t \<leftarrow> increment t; rec N enc sha256 key p t } else Some k } = Some k"
  from body obtain k' where k': "key_aes_encrypted enc sha256 p t = Some k'" by (auto simp: bind_eq_Some_conv)
  show "\<exists>j t'. nth_temp_key j t = Some t' \<and> fits N enc sha256 key p t' k"
  proof (cases "rk_n key \<le> from_bytes_be N k'")
    case True
    with body k' obtain u where u: "increment t = Some u" "rec N enc sha256 key p u = Some k"
      by (auto simp: bind_eq_Some_conv)
    from IH[OF u(2)] obtain j t' where "nth_temp_key j u = Some t' \<and> fits N enc sha256 key p t' k" by blast
    with u(1) show ?thesis by (intro exI[of _ "Suc j"] exI[of _ t']) simp
  next
    case False
    with body k' show ?thesis by (intro exI[of _ 0] exI[of _ t]) (auto simp: fits_def)
  qed
qed

lemma fitting_key_complete:
  assumes total: "\<And>t. length t = 32 \<Longrightarrow> key_aes_encrypted enc sha256 p t \<noteq> None"
  shows "nth_temp_key j t = Some t' \<Longrightarrow> length t = 32 \<Longrightarrow> fits N enc sha256 key p t' k \<Longrightarrow>
     \<exists>k'. fitting_key N enc sha256 key p t = Some k'"
proof (induction j arbitrary: t)
  case 0
  then show ?case by (subst fitting_key.simps) (simp add: fits_def)
next
  case (Suc j)
  then obtain u where u: "increment t = Some u" "nth_temp_key j u = Some t'" by (auto simp: bind_eq_Some_conv)
  with Suc obtain k' where "fitting_key N enc sha256 key p u = Some k'" using increment_length by metis
  with u total[OF Suc.prems(2)] show ?case by (subst fitting_key.simps) auto
qed

lemma key_aes_encrypted_opens:
  assumes aes: "\<forall>key. block_pair (enc key) (dec key)" and sha: "\<forall>m. length (sha256 m) = 32"
    and p: "length p = 192" and t: "length t = 32"
  obtains k where "key_aes_encrypted enc sha256 p t = Some k" "length k = 256"
    "xor_block (take 32 k) (sha256 (drop 32 k)) = t"
    "ige_decrypt dec (drop 32 k) t (replicate 32 0) = Some (rev p @ sha256 (t @ p))"
proof -
  define h where "h = rev p @ sha256 (t @ p)"
  define a where "a = ige_encrypt_chunks (enc t) (replicate 16 0) (replicate 16 0) h"
  have h: "length h = 224" using p sha by (simp add: h_def)
  have inv: "length a = length h" "ige_decrypt_chunks (dec t) (replicate 16 0) (replicate 16 0) a = h"
    using ige_encrypt_inverse[OF aes[rule_format, of t], of "replicate 16 0" "replicate 16 0" h] by (simp_all add: a_def)
  let ?k = "xor_block t (sha256 a) @ a"
  have x: "length (xor_block t (sha256 a)) = 32" using t sha by simp
  have "key_aes_encrypted enc sha256 p t = Some ?k"
    using h by (simp add: key_aes_encrypted_def ige_encrypt_def h_def[symmetric] a_def)
  moreover have "length ?k = 256" using x inv h by simp
  moreover have "xor_block (take 32 ?k) (sha256 (drop 32 ?k)) = t" using x t sha by simp
  moreover have "ige_decrypt dec (drop 32 ?k) t (replicate 32 0) = Some (rev p @ sha256 (t @ p))"
    using x inv h by (simp add: ige_decrypt_def h_def)
  ultimately show thesis by (rule that)
qed

lemma encrypted_recovered:
  assumes N: "bignum_laws N" and aes: "\<forall>key. block_pair (enc key) (dec key)" and sha: "\<forall>m. length (sha256 m) = 32"
    and dat: "length dat \<le> 144" and rnd: "length random_bytes = 224"
    and d: "private_exponent key d" and n: "rk_n key \<le> 256 ^ 256"
  defines "p \<equiv> dat @ take (192 - length dat) random_bytes" and "t \<equiv> take 32 (drop 192 random_bytes)"
  shows "(\<forall>block. encrypt_hashed N enc sha256 dat key random_bytes = Some block \<longrightarrow>
            length block = 256 \<and> rsa_open dec sha256 (rk_n key) d block = Some p)
    \<and> (encrypt_hashed N enc sha256 dat key random_bytes \<noteq> None \<longleftrightarrow>
         (\<exists>j t' k. nth_temp_key j t = Some t' \<and> fits N enc sha256 key p t' k))"
proof -
  have p: "length p = 192" using dat rnd by (simp add: p_def)
  have t: "length t = 32" using rnd by (simp add: t_def)
  have eh: "encrypt_hashed N enc sha256 dat key random_bytes =
      do { k \<leftarrow> fitting_key N enc sha256 key p t; encrypted \<leftarrow> big_modpow N (from_bytes_be N k) (rk_e key) (rk_n key);
           Some (pad_zeros 256 (to_bytes_be N encrypted)) }"
    using dat by (simp add: encrypt_hashed_def p_def t_def)
  have total: "key_aes_encrypted enc sha256 p u \<noteq> None" if "length u = 32" for u
    using key_aes_encrypted_opens[OF aes sha p that] by (metis option.distinct(1))
  have good: "\<exists>block. encrypt_hashed N enc sha256 dat key random_bytes = Some block \<and> length block = 256 \<and>
      rsa_open dec sha256 (rk_n key) d block = Some p" if k: "fitting_key N enc sha256 key p t = Some k" for k
  proof -
    from fitting_key_sound[OF k] obtain j u where u: "nth_temp_key j t = Some u" and f: "fits N enc sha256 key p u k" by blast
    have lu: "length u = 32" using nth_temp_key_length[OF u] t by simp
    obtain k' where k': "key_aes_encrypted enc sha256 p u = Some k'" "length k' = 256"
      "xor_block (take 32 k') (sha256 (drop 32 k')) = u"
      "ige_decrypt dec (drop 32 k') u (replicate 32 0) = Some (rev p @ sha256 (u @ p))"
      by (rule key_aes_encrypted_opens[OF aes sha p lu])
    have kk: "k' = k" and below: "be_nat k < rk_n key"
      using f k'(1) by (simp_all add: fits_def bignum_lawsD(1)[OF N])
    define c where "c = be_nat k ^ rk_e key mod rk_n key"
    have n0: "rk_n key \<noteq> 0" using below by simp
    then have "c < rk_n key" by (simp add: c_def)
    then have cn: "c < 256 ^ 256" using n by (rule less_le_trans)
    have e: "encrypt_hashed N enc sha256 dat key random_bytes = Some (be_bytes 256 c)"
      unfolding eh k using n0 cn by (simp add: bignum_lawsD[OF N] pad_to_bytes_be[OF N] flip: c_def)
    have "be_nat (be_bytes 256 c) ^ d mod rk_n key = be_nat k"
      using cn d below by (simp add: c_def private_exponent_def)
    moreover have "be_bytes 256 (be_nat k) = k" by (metis be_bytes_be_nat k'(2) kk)
    ultimately have "rsa_open dec sha256 (rk_n key) d (be_bytes 256 c) = Some p"
      using k'(3,4) p by (simp add: rsa_open_def Let_def kk)
    with e show ?thesis by simp
  qed
  have iff: "encrypt_hashed N enc sha256 dat key random_bytes \<noteq> None \<longleftrightarrow> fitting_key N enc sha256 key p t \<noteq> None"
    using good by (cases "fitting_key N enc sha256 key p t") (simp add: eh, metis option.distinct(1))
  show ?thesis
  proof (intro conjI)
    show "\<forall>block. encrypt_hashed N enc sha256 dat key random_bytes = Some block \<longrightarrow>
        length block = 256 \<and> rsa_open dec sha256 (rk_n key) d block = Some p"
      using good iff by (metis not_None_eq option.inject)
    show "encrypt_hashed N enc sha256 dat key random_bytes \<noteq> None \<longleftrightarrow>
        (\<exists>j t' k. nth_temp_key j t = Some t' \<and> fits N enc sha256 key p t' k)"
      unfolding iff using fitting_key_sound fitting_key_complete[OF total _ t] by (metis not_None_eq)
  qed
qed

text \<open>
  C33: What the client encrypts for the server arrives. Whenever the encryption returns, it returns
  256 bytes from which the owner of the private key recovers the data with its random padding, and
  the hash it checks is right. It returns exactly when one of the temporary keys counted up from the
  random one gives a number below the modulus.
\<close>

theorem rsa_data_recovered:
  assumes N: "bignum_laws N" and aes: "\<forall>key. block_pair (enc key) (dec key)" and sha: "\<forall>m. length (sha256 m) = 32"
    and dat: "length dat \<le> 144" and rnd: "length random_bytes = 224"
    and d: "private_exponent key d" and n: "rk_n key \<le> 256 ^ 256"
  defines "p \<equiv> dat @ take (192 - length dat) random_bytes" and "t \<equiv> take 32 (drop 192 random_bytes)"
  shows "(\<forall>block. encrypt_hashed N enc sha256 dat key random_bytes = Some block \<longrightarrow>
            length block = 256 \<and> rsa_open dec sha256 (rk_n key) d block = Some p)
    \<and> (encrypt_hashed N enc sha256 dat key random_bytes \<noteq> None \<longleftrightarrow>
         (\<exists>j t' k. nth_temp_key j t = Some t' \<and> fits N enc sha256 key p t' k))"
  unfolding p_def t_def by (rule encrypted_recovered[OF N aes sha dat rnd d n])

theorem rsa_data_recovered_witness:
  "\<exists>block. encrypt_hashed model_bignum toy_block (\<lambda>m. replicate 32 0) [1, 2, 3] \<lparr>rk_n = 256 ^ 256, rk_e = 1\<rparr> (replicate 224 7) = Some block \<and>
     rsa_open toy_block (\<lambda>m. replicate 32 0) (256 ^ 256) 1 block = Some ([1, 2, 3] @ replicate 189 7)"
proof -
  let ?key = "\<lparr>rk_n = 256 ^ 256, rk_e = 1\<rparr>" and ?sha = "\<lambda>m :: bytes. replicate 32 (0 :: u8)"
  have pair: "\<forall>key. block_pair (toy_block key) (toy_block key)" by (simp add: block_pair_def toy_block_def)
  have d: "private_exponent ?key 1" by (simp add: private_exponent_def)
  note law = rsa_data_recovered[OF model_bignum_laws pair _ _ _ d, of ?sha "[1, 2, 3]" "replicate 224 7"]
  obtain k where k: "key_aes_encrypted toy_block ?sha ([1, 2, 3] @ replicate 189 7) (replicate 32 7) = Some k" "length k = 256"
    by (rule key_aes_encrypted_opens[OF pair, of ?sha "[1, 2, 3] @ replicate 189 7" "replicate 32 7"]) auto
  then have "fits model_bignum toy_block ?sha ?key ([1, 2, 3] @ replicate 189 7) (replicate 32 7) k"
    using be_nat_bound[of k] by (simp add: fits_def model_bignum_def)
  then have "encrypt_hashed model_bignum toy_block ?sha [1, 2, 3] ?key (replicate 224 7) \<noteq> None"
    using law by (auto intro!: exI[of _ "0 :: nat"])
  with law show ?thesis by auto
qed

end
