(* ===== verification/Two_Factor.thy ===== *)
theory Two_Factor
  imports Message_Crypto Big_Numbers
begin

text \<open>
  Two-factor authentication, \<open>grammers-crypto/src/two_factor_auth.rs\<close>: the checks on the group
  parameters that the key exchange shares, and the answer to the password challenge. SHA-256, the
  key derivation, the safe-prime test and the big-number crate are parameters; \<open>None\<close> is a panic.
\<close>

section \<open>The group parameters\<close>

definition TELEGRAM_DH_PRIME :: bytes where
  "TELEGRAM_DH_PRIME =
    [
     0xc7, 0x1c, 0xae, 0xb9, 0xc6, 0xb1, 0xc9, 0x04, 0x8e, 0x6c, 0x52, 0x2f, 0x70, 0xf1, 0x3f, 0x73,
     0x98, 0x0d, 0x40, 0x23, 0x8e, 0x3e, 0x21, 0xc1, 0x49, 0x34, 0xd0, 0x37, 0x56, 0x3d, 0x93, 0x0f,
     0x48, 0x19, 0x8a, 0x0a, 0xa7, 0xc1, 0x40, 0x58, 0x22, 0x94, 0x93, 0xd2, 0x25, 0x30, 0xf4, 0xdb,
     0xfa, 0x33, 0x6f, 0x6e, 0x0a, 0xc9, 0x25, 0x13, 0x95, 0x43, 0xae, 0xd4, 0x4c, 0xce, 0x7c, 0x37,
     0x20, 0xfd, 0x51, 0xf6, 0x94, 0x58, 0x70, 0x5a, 0xc6, 0x8c, 0xd4, 0xfe, 0x6b, 0x6b, 0x13, 0xab,
     0xdc, 0x97, 0x46, 0x51, 0x29, 0x69, 0x32, 0x84, 0x54, 0xf1, 0x8f, 0xaf, 0x8c, 0x59, 0x5f, 0x64,
     0x24, 0x77, 0xfe, 0x96, 0xbb, 0x2a, 0x94, 0x1d, 0x5b, 0xcd, 0x1d, 0x4a, 0xc8, 0xcc, 0x49, 0x88,
     0x07, 0x08, 0xfa, 0x9b, 0x37, 0x8e, 0x3c, 0x4f, 0x3a, 0x90, 0x60, 0xbe, 0xe6, 0x7c, 0xf9, 0xa4,
     0xa4, 0xa6, 0x95, 0x81, 0x10, 0x51, 0x90, 0x7e, 0x16, 0x27, 0x53, 0xb5, 0x6b, 0x0f, 0x6b, 0x41,
     0x0d, 0xba, 0x74, 0xd8, 0xa8, 0x4b, 0x2a, 0x14, 0xb3, 0x14, 0x4e, 0x0e, 0xf1, 0x28, 0x47, 0x54,
     0xfd, 0x17, 0xed, 0x95, 0x0d, 0x59, 0x65, 0xb4, 0xb9, 0xdd, 0x46, 0x58, 0x2d, 0xb1, 0x17, 0x8d,
     0x16, 0x9c, 0x6b, 0xc4, 0x65, 0xb0, 0xd6, 0xff, 0x9c, 0xa3, 0x92, 0x8f, 0xef, 0x5b, 0x9a, 0xe4,
     0xe4, 0x18, 0xfc, 0x15, 0xe8, 0x3e, 0xbe, 0xa0, 0xf8, 0x7f, 0xa9, 0xff, 0x5e, 0xed, 0x70, 0x05,
     0x0d, 0xed, 0x28, 0x49, 0xf4, 0x7b, 0xf9, 0x59, 0xd9, 0x56, 0x85, 0x0c, 0xe9, 0x29, 0x85, 0x1f,
     0x0d, 0x81, 0x15, 0xf6, 0x35, 0xb1, 0x05, 0xee, 0x2e, 0x4e, 0x15, 0xd0, 0x4b, 0x24, 0x54, 0xbf,
     0x6f, 0x4f, 0xad, 0xf0, 0x34, 0xb1, 0x04, 0x03, 0x11, 0x9c, 0xd8, 0xe3, 0xb9, 0x2f, 0xcc, 0x5b]"

definition check_p_len :: "bytes \<Rightarrow> bool" where
  "check_p_len p \<longleftrightarrow> length p = 256"

definition valid_subgroup :: "nat \<Rightarrow> int \<Rightarrow> bool" where
  "valid_subgroup p g \<longleftrightarrow>
     (if g = 2 then p mod 8 = 7
      else if g = 3 then p mod 3 = 2
      else if g = 4 then True
      else if g = 5 then p mod 5 = 1 \<or> p mod 5 = 4
      else if g = 6 then p mod 24 = 19 \<or> p mod 24 = 23
      else if g = 7 then p mod 7 = 3 \<or> p mod 7 = 5 \<or> p mod 7 = 6
      else False)"

text \<open>The prime test may fail for want of randomness; then the prime is refused.\<close>

definition check_p_prime_and_subgroup :: "bignum \<Rightarrow> (nat \<Rightarrow> bool option) \<Rightarrow> bytes \<Rightarrow> int \<Rightarrow> bool" where
  "check_p_prime_and_subgroup N safe_prime p g \<longleftrightarrow>
     valid_subgroup (from_bytes_be N p) g \<and>
     (p = TELEGRAM_DH_PRIME \<or> (case safe_prime (from_bytes_be N p) of Some r \<Rightarrow> r | None \<Rightarrow> False))"

definition check_p_and_g :: "bignum \<Rightarrow> (nat \<Rightarrow> bool option) \<Rightarrow> bytes \<Rightarrow> int \<Rightarrow> bool" where
  "check_p_and_g N safe_prime p g \<longleftrightarrow>
     (if \<not> check_p_len p \<or> (p ! 0) AND 0x80 = 0 \<or> \<not> (2 \<le> g \<and> g \<le> 7) then False
      else check_p_prime_and_subgroup N safe_prime p g)"

section \<open>The password\<close>

definition sh :: "(bytes \<Rightarrow> bytes) \<Rightarrow> bytes \<Rightarrow> bytes \<Rightarrow> bytes" where
  "sh sha256 dat salt = sha256 (salt @ dat @ salt)"

definition ph1 :: "(bytes \<Rightarrow> bytes) \<Rightarrow> bytes \<Rightarrow> bytes \<Rightarrow> bytes \<Rightarrow> bytes" where
  "ph1 sha256 password salt1 salt2 = sh sha256 (sh sha256 password salt1) salt2"

text \<open>The key derivation takes the password, the salt, the rounds and the length of the key.\<close>

type_synonym key_derivation = "bytes \<Rightarrow> bytes \<Rightarrow> nat \<Rightarrow> nat \<Rightarrow> bytes option"

definition ph2 :: "(bytes \<Rightarrow> bytes) \<Rightarrow> key_derivation \<Rightarrow> bytes \<Rightarrow> bytes \<Rightarrow> bytes \<Rightarrow> bytes option" where
  "ph2 sha256 pbkdf2 password salt1 salt2 =
     do { dk \<leftarrow> pbkdf2 (ph1 sha256 password salt1 salt2) salt1 100000 64; Some (sh sha256 dk salt2) }"

definition pad_to_256 :: "bytes \<Rightarrow> bytes option" where
  "pad_to_256 dat = (if length dat \<le> 256 then Some (pad_zeros 256 dat) else None)"

text \<open>The proof that the password is known, from the shared secret.\<close>

definition m1_of :: "(bytes \<Rightarrow> bytes) \<Rightarrow> bytes \<Rightarrow> bytes \<Rightarrow> bytes \<Rightarrow> bytes \<Rightarrow> bytes \<Rightarrow> bytes \<Rightarrow> bytes \<Rightarrow> bytes" where
  "m1_of sha256 salt1 salt2 p g_for_hash g_a g_b s =
     sha256 (xor_block (sha256 p) (sha256 g_for_hash) @ sha256 salt1 @ sha256 salt2 @ g_a @ g_b @ sha256 s)"

definition calculate_2fa ::
    "bignum \<Rightarrow> (bytes \<Rightarrow> bytes) \<Rightarrow> key_derivation \<Rightarrow> bytes \<Rightarrow> bytes \<Rightarrow> bytes \<Rightarrow> int \<Rightarrow> bytes \<Rightarrow> bytes \<Rightarrow> bytes \<Rightarrow> (bytes \<times> bytes) option" where
  "calculate_2fa N sha256 pbkdf2 salt1 salt2 p g g_b0 a0 password =
     do {
       let big_p = from_bytes_be N p;
       g_b \<leftarrow> pad_to_256 g_b0;
       a \<leftarrow> pad_to_256 a0;
       g_for_hash \<leftarrow> pad_to_256 [word_of_int g];
       let big_g_b = from_bytes_be N g_b;
       let big_g = nat (g mod 2 ^ 32);
       let big_a = from_bytes_be N a;
       let big_k = from_bytes_be N (sha256 (p @ g_for_hash));
       g_a_power \<leftarrow> big_modpow N big_g big_a big_p;
       g_a \<leftarrow> pad_to_256 (to_bytes_be N g_a_power);
       let u = from_bytes_be N (sha256 (g_a @ g_b));
       x_bytes \<leftarrow> ph2 sha256 pbkdf2 password salt1 salt2;
       let x = from_bytes_be N x_bytes;
       big_v \<leftarrow> big_modpow N big_g x big_p;
       let k_v = big_k * big_v mod big_p;
       let big_t = nat ((int big_g_b - int k_v) mod int big_p);
       big_s_a \<leftarrow> big_modpow N big_t (big_a + u * x) big_p;
       s_a \<leftarrow> pad_to_256 (to_bytes_be N big_s_a);
       Some (m1_of sha256 salt1 salt2 p g_for_hash g_a g_b s_a, g_a)
     }"

section \<open>The server\<close>

text \<open>
  The server's side of the protocol: it keeps the verifier of the password, sends the blinded power
  of its secret, and computes the proof it expects from what the client sent.
\<close>

definition srp_verifier :: "nat \<Rightarrow> int \<Rightarrow> bytes \<Rightarrow> nat" where
  "srp_verifier p g x = nat g ^ be_nat x mod p"

definition srp_challenge :: "(bytes \<Rightarrow> bytes) \<Rightarrow> bytes \<Rightarrow> int \<Rightarrow> nat \<Rightarrow> nat \<Rightarrow> nat" where
  "srp_challenge sha256 p g v b =
     (be_nat (sha256 (p @ pad_zeros 256 [word_of_int g])) * v + nat g ^ b) mod be_nat p"

definition srp_expected_m1 ::
    "(bytes \<Rightarrow> bytes) \<Rightarrow> bytes \<Rightarrow> bytes \<Rightarrow> bytes \<Rightarrow> int \<Rightarrow> nat \<Rightarrow> nat \<Rightarrow> bytes \<Rightarrow> bytes" where
  "srp_expected_m1 sha256 salt1 salt2 p g v b g_a =
     (let g_b = be_bytes 256 (srp_challenge sha256 p g v b);
          u = be_nat (sha256 (g_a @ g_b));
          s = (be_nat g_a * v ^ u) ^ b mod be_nat p
      in m1_of sha256 salt1 salt2 p (pad_zeros 256 [word_of_int g]) g_a g_b (be_bytes 256 s))"

lemma unblinded:
  assumes "0 < p"
  shows "nat ((int ((k * v + w) mod p) - int (k * v mod p)) mod int p) = w mod p"
proof -
  have "(int ((k * v + w) mod p) - int (k * v mod p)) mod int p = int w mod int p"
    by (simp add: zmod_int mod_diff_eq)
  also have "\<dots> = int (w mod p)" by (simp add: zmod_int)
  finally show ?thesis by simp
qed

lemma shared_secret:
  "((g :: nat) ^ b mod p) ^ (a + u * x) mod p = ((g ^ a mod p) * (g ^ x mod p) ^ u) ^ b mod p"
proof -
  have "((g ^ a mod p) * (g ^ x mod p) ^ u) ^ b mod p = ((g ^ a mod p) * (g ^ x mod p) ^ u mod p) ^ b mod p"
    by (simp only: power_mod)
  also have "(g ^ a mod p) * (g ^ x mod p) ^ u mod p = g ^ a * (g ^ x) ^ u mod p"
    by (subst mod_mult_eq[symmetric]) (simp only: mod_mod_trivial power_mod mod_mult_eq)
  also have "(g ^ a * (g ^ x) ^ u mod p) ^ b mod p = (g ^ a * (g ^ x) ^ u) ^ b mod p"
    by (simp only: power_mod)
  also have "(g ^ a * (g ^ x) ^ u) ^ b = (g ^ b) ^ (a + u * x)"
    by (simp only: power_mult[symmetric] power_add[symmetric] mult.commute)
  finally show ?thesis by (simp only: power_mod)
qed

text \<open>
  C34: The password proof agrees with the server. When the server holds the verifier of the same
  password and answers with its challenge, the client's calculation does not panic, the value it
  sends is the power of its secret in 256 bytes, and its proof is the one that the server computes
  from that value, from the verifier and from its own secret.
\<close>

theorem password_proof_agrees:
  assumes N: "bignum_laws N" and p: "length p = 256" "0 < be_nat p" and g: "0 \<le> g" "g < 2 ^ 31" and a: "length a \<le> 256"
    and x: "ph2 sha256 pbkdf2 password salt1 salt2 = Some x"
    and v: "v = srp_verifier (be_nat p) g x"
    and g_b: "g_b = to_bytes_be N (srp_challenge sha256 p g v b)"
  shows "\<exists>m1 g_a. calculate_2fa N sha256 pbkdf2 salt1 salt2 p g g_b a password = Some (m1, g_a) \<and>
    g_a = be_bytes 256 (nat g ^ be_nat a mod be_nat p) \<and>
    m1 = srp_expected_m1 sha256 salt1 salt2 p g v b g_a"
proof -
  define P where "P = be_nat p"
  define G where "G = nat g"
  define k where "k = be_nat (sha256 (p @ pad_zeros 256 [word_of_int g]))"
  have P: "P < 256 ^ 256" "0 < P" using be_nat_bound[of p] p by (simp_all add: P_def)
  have small: "y mod P < 256 ^ 256" for y using P by (meson less_trans mod_less_divisor)
  have G: "nat (g mod 2 ^ 32) = G" using g by (simp add: G_def)
  have pad: "pad_to_256 (to_bytes_be N (y mod P)) = Some (be_bytes 256 (y mod P))" for y
    using pad_to_bytes_be[OF N small, of y] length_to_bytes_be[OF N small, of y] by (simp add: pad_to_256_def)
  define c where "c = srp_challenge sha256 p g v b"
  have c: "c = (k * v + G ^ b) mod P" by (simp add: c_def srp_challenge_def k_def G_def P_def)
  have gb: "pad_to_256 g_b = Some (be_bytes 256 c)" unfolding g_b c_def[symmetric] c by (rule pad)
  have cn: "be_nat (be_bytes 256 c) = c" unfolding c using small by simp
  have pa: "pad_to_256 a = Some (pad_zeros 256 a)" using a by (simp add: pad_to_256_def)
  have pg: "pad_to_256 [word_of_int g] = Some (pad_zeros 256 [word_of_int g])" by (simp add: pad_to_256_def)
  define ga where "ga = G ^ be_nat a mod P"
  have gan: "be_nat (be_bytes 256 ga) = ga" unfolding ga_def using small by simp
  have pga: "pad_to_256 (to_bytes_be N ga) = Some (be_bytes 256 ga)" unfolding ga_def by (rule pad)
  define u where "u = be_nat (sha256 (be_bytes 256 ga @ be_bytes 256 c))"
  have v': "v = G ^ be_nat x mod P" by (simp add: v srp_verifier_def G_def P_def)
  define s where "s = (G ^ b mod P) ^ (be_nat a + u * be_nat x) mod P"
  have t: "nat ((int c - int (k * v mod P)) mod int P) = G ^ b mod P" unfolding c by (rule unblinded[OF P(2)])
  have ps: "pad_to_256 (to_bytes_be N s) = Some (be_bytes 256 s)" unfolding s_def by (rule pad)
  have "calculate_2fa N sha256 pbkdf2 salt1 salt2 p g g_b a password =
      Some (m1_of sha256 salt1 salt2 p (pad_zeros 256 [word_of_int g]) (be_bytes 256 ga) (be_bytes 256 c) (be_bytes 256 s), be_bytes 256 ga)"
    using P(2) pga ps t
    by (simp add: calculate_2fa_def gb pa pg G[simplified] bignum_lawsD[OF N] x cn Let_def flip: P_def k_def ga_def u_def v' s_def)
  moreover have "s = (ga * v ^ u) ^ b mod P" unfolding s_def ga_def v' by (rule shared_secret)
  then have "srp_expected_m1 sha256 salt1 salt2 p g v b (be_bytes 256 ga) =
      m1_of sha256 salt1 salt2 p (pad_zeros 256 [word_of_int g]) (be_bytes 256 ga) (be_bytes 256 c) (be_bytes 256 s)"
    by (simp add: srp_expected_m1_def Let_def gan flip: c_def u_def P_def)
  ultimately show ?thesis unfolding ga_def G_def P_def by auto
qed

theorem password_proof_agrees_witness:
  "\<exists>m1 g_a. calculate_2fa model_bignum toy_hash (\<lambda>pw salt rounds n. Some (replicate n 3)) [1] [2] (pad_zeros 256 [47]) 3
      (to_bytes_be model_bignum (srp_challenge toy_hash (pad_zeros 256 [47]) 3
        (srp_verifier 47 3 (sh toy_hash (replicate 64 3) [2])) 5)) [6] [7] = Some (m1, g_a) \<and>
    g_a = be_bytes 256 24 \<and>
    m1 = srp_expected_m1 toy_hash [1] [2] (pad_zeros 256 [47]) 3 (srp_verifier 47 3 (sh toy_hash (replicate 64 3) [2])) 5 g_a"
proof -
  have b: "be_nat (pad_zeros 256 [47]) = 47" "be_nat [6] = 6" by (simp_all add: be_nat_Cons)
  show ?thesis
    using password_proof_agrees[OF model_bignum_laws, of "pad_zeros 256 [47]" 3 "[6]" toy_hash "\<lambda>pw salt rounds n. Some (replicate n 3)" "[7]" "[1]" "[2]"
        "sh toy_hash (replicate 64 3) [2]" "srp_verifier 47 3 (sh toy_hash (replicate 64 3) [2])"] b
    by (simp add: ph2_def)
qed

end
