(* ===== verification/Key_Exchange.thy ===== *)
theory Key_Exchange
  imports Rsa Two_Factor Tl_Codec
begin

text \<open>
  The generation of an authorization key, \<open>grammers-mtproto/src/authentication.rs\<close>: the three
  requests of the client, the checks on the three answers, and the key. An error is \<open>Inl\<close>; the
  outer \<open>None\<close> is a panic (or, in the second step, a search for a temporary RSA key without end).
\<close>

section \<open>Data\<close>

datatype auth_error =
    RandomnessUnavailable
  | InvalidPq
  | InvalidDhParameters
  | InvalidNonce bytes bytes
  | InvalidPqSize nat
  | UnknownFingerprints "int list"
  | DhParamsFail
  | InvalidServerNonce bytes bytes
  | EncryptedResponseNotPadded nat
  | InvalidDhInnerData tl_error
  | GParameterOutOfRange nat nat nat
  | DhGenRetryError
  | DhGenFailError
  | InvalidAnswerHash bytes bytes
  | InvalidNewNonceHash bytes bytes

text \<open>The schema's types, as far as the exchange uses them.\<close>

record res_pq =
  rp_nonce :: bytes
  rp_server_nonce :: bytes
  rp_pq :: bytes
  rp_fingerprints :: "int list"

record pq_inner_data =
  pi_pq :: bytes
  pi_p :: bytes
  pi_q :: bytes
  pi_nonce :: bytes
  pi_server_nonce :: bytes
  pi_new_nonce :: bytes

record req_dh_params =
  rd_nonce :: bytes
  rd_server_nonce :: bytes
  rd_p :: bytes
  rd_q :: bytes
  rd_fingerprint :: int
  rd_encrypted_data :: bytes

text \<open>Nonce and server nonce, then the hash of the new nonce or the encrypted answer.\<close>

datatype server_dh_params = ServerDhParamsFail bytes bytes bytes | ServerDhParamsOk bytes bytes bytes

record server_dh_inner =
  sd_nonce :: bytes
  sd_server_nonce :: bytes
  sd_g :: int
  sd_dh_prime :: bytes
  sd_g_a :: bytes
  sd_server_time :: int

record client_dh_inner =
  cd_nonce :: bytes
  cd_server_nonce :: bytes
  cd_retry_id :: int
  cd_g_b :: bytes

record set_client_dh_params =
  sc_nonce :: bytes
  sc_server_nonce :: bytes
  sc_encrypted_data :: bytes

text \<open>Nonce, server nonce and the hash of the new nonce.\<close>

datatype dh_gen_answer = DhGenOk bytes bytes bytes | DhGenRetry bytes bytes bytes | DhGenFail bytes bytes bytes

text \<open>What each step keeps for the next one.\<close>

record step1_data =
  s1_nonce :: bytes

record step2_data =
  s2_nonce :: bytes
  s2_server_nonce :: bytes
  s2_new_nonce :: bytes

record step3_data =
  s3_nonce :: bytes
  s3_server_nonce :: bytes
  s3_new_nonce :: bytes
  s3_gab :: nat
  s3_time_offset :: int

record finished =
  fin_auth_key :: bytes
  fin_time_offset :: int
  fin_first_salt :: int

text \<open>
  What comes from other crates and from the code generated from the schema. The reader of the
  server's inner data returns the position where it stopped.
\<close>

record exchange =
  kx_num :: bignum
  kx_encrypt :: block_cipher
  kx_decrypt :: block_cipher
  kx_sha1 :: "bytes \<Rightarrow> bytes"
  kx_sha256 :: "bytes \<Rightarrow> bytes"
  kx_safe_prime :: "nat \<Rightarrow> bool option"
  kx_pq_inner :: "pq_inner_data \<Rightarrow> bytes"
  kx_client_dh :: "client_dh_inner \<Rightarrow> bytes"
  kx_server_dh :: "bytes \<Rightarrow> tl_error + server_dh_inner \<times> nat"

section \<open>Checks\<close>

type_synonym 'a attempt = "(auth_error + 'a) option"

text \<open>The operator \<open>?\<close>.\<close>

definition question :: "auth_error + 'a \<Rightarrow> ('a \<Rightarrow> 'b attempt) \<Rightarrow> 'b attempt" where
  "question r k = (case r of Inl e \<Rightarrow> Some (Inl e) | Inr x \<Rightarrow> k x)"

definition check_nonce :: "bytes \<Rightarrow> bytes \<Rightarrow> auth_error + unit" where
  "check_nonce got expected = (if got = expected then Inr () else Inl (InvalidNonce got expected))"

definition check_server_nonce :: "bytes \<Rightarrow> bytes \<Rightarrow> auth_error + unit" where
  "check_server_nonce got expected = (if got = expected then Inr () else Inl (InvalidServerNonce got expected))"

definition check_new_nonce_hash :: "bytes \<Rightarrow> bytes \<Rightarrow> auth_error + unit" where
  "check_new_nonce_hash got expected = (if got = expected then Inr () else Inl (InvalidNewNonceHash got expected))"

definition check_g_in_range :: "nat \<Rightarrow> nat \<Rightarrow> nat \<Rightarrow> auth_error + unit" where
  "check_g_in_range val low high =
     (if low < val \<and> val < high then Inr () else Inl (GParameterOutOfRange val low high))"

text \<open>The subtraction of the big-number crate panics when the result would be negative.\<close>

definition big_sub :: "nat \<Rightarrow> nat \<Rightarrow> nat option" where
  "big_sub a b = (if b \<le> a then Some (a - b) else None)"

definition production_n :: string where
  "production_n =
      ''2937959817066933702298617714945612856538843112005886376816255642404751219133084745514657634448776440'' @
      ''8661701890505066208632169112269581063774293102577308490531282748465986139880977280302242772832972539'' @
      ''4035313160108704012876427630091361567343395380424193887227773571344877461690935390938502512438971889'' @
      ''2873590338945177273024525306296338410881284207988753897636046529094613963869149149606209957083647645'' @
      ''4855996319192747663615955633778034897140982517446405334423701359108810182097749467210509584293428076'' @
      ''6545733848288095742170799443883012394313091150138433313178773744358684687799720144863255578077838255'' @
      ''02498215169806323''"

definition test_n :: string where
  "test_n =
      ''2534288944884041556497168959071347320689884775908477905258202659454602246385394058588521595116849196'' @
      ''5708222649399180603818074200620463776135424884632162512403163793083921641631564740959529419359595852'' @
      ''9411668489405859523376133330223960965841179548922160312292373029437018775884567383353986024616752250'' @
      ''8179182039315375750495263623495132323782003654358104782690612092797248736680529211579223142368426126'' @
      ''2330394324750785450942589751755390156647751460719351439969059949569615302809050721500330239005077889'' @
      ''8553239175099482557220816446894421272976054225797071426466607688253028322019083022955732574278960318'' @
      ''30742328565032949''"

text \<open>The outer \<open>None\<close> is the \<open>unwrap\<close> of a modulus that does not parse.\<close>

definition key_for_fingerprint :: "bignum \<Rightarrow> int \<Rightarrow> rsa_key option option" where
  "key_for_fingerprint N fingerprint =
     (if fingerprint = -3414540481677951611 then map_option Some (rsa_key_new N production_n ''65537'')
      else if fingerprint = -5595554452916591101 then map_option Some (rsa_key_new N test_n ''65537'')
      else Some None)"

fun find_fingerprint :: "bignum \<Rightarrow> int list \<Rightarrow> int option option" where
  "find_fingerprint N [] = Some None"
| "find_fingerprint N (f # fs) =
     (case key_for_fingerprint N f of
        None \<Rightarrow> None
      | Some None \<Rightarrow> find_fingerprint N fs
      | Some (Some _) \<Rightarrow> Some (Some f))"

section \<open>The first two steps\<close>

text \<open>The request of the first step is the nonce itself.\<close>

definition do_step1 :: "bytes \<Rightarrow> auth_error + bytes \<times> step1_data" where
  "do_step1 random_bytes = Inr (random_bytes, \<lparr>s1_nonce = random_bytes\<rparr>)"

definition step1_with_rng :: "'e + bytes \<Rightarrow> auth_error + bytes \<times> step1_data" where
  "step1_with_rng fill = (case fill of Inl _ \<Rightarrow> Inl RandomnessUnavailable | Inr r \<Rightarrow> do_step1 r)"

text \<open>A number in as few bytes as possible.\<close>

definition trimmed_bytes :: "nat \<Rightarrow> bytes" where
  "trimmed_bytes v =
     (let buf = be_bytes 8 v in if list_all (\<lambda>b. b = 0) buf then buf else dropWhile (\<lambda>b. b = 0) buf)"

definition do_step2 :: "exchange \<Rightarrow> step1_data \<Rightarrow> res_pq \<Rightarrow> bytes \<Rightarrow> (req_dh_params \<times> step2_data) attempt" where
  "do_step2 K dat res random_bytes =
     question (check_nonce (rp_nonce res) (s1_nonce dat)) (\<lambda>_.
       if length (rp_pq res) \<noteq> 8 then Some (Inl (InvalidPqSize (length (rp_pq res))))
       else let pq = be_nat (rp_pq res) in
         case try_factorize pq of
           None \<Rightarrow> Some (Inl InvalidPq)
         | Some (p, q) \<Rightarrow>
             if p \<ge> q \<or> q > 2 ^ 32 - 1 then Some (Inl InvalidPq)
             else
               let new_nonce = take 32 random_bytes;
                   p_bytes = trimmed_bytes p;
                   q_bytes = trimmed_bytes q;
                   inner = kx_pq_inner K \<lparr>pi_pq = be_bytes 8 pq, pi_p = p_bytes, pi_q = q_bytes, pi_nonce = s1_nonce dat,
                             pi_server_nonce = rp_server_nonce res, pi_new_nonce = new_nonce\<rparr>
               in do {
                 found \<leftarrow> find_fingerprint (kx_num K) (rp_fingerprints res);
                 case found of
                   None \<Rightarrow> Some (Inl (UnknownFingerprints (rp_fingerprints res)))
                 | Some fingerprint \<Rightarrow>
                     do {
                       known \<leftarrow> key_for_fingerprint (kx_num K) fingerprint;
                       key \<leftarrow> known;
                       ciphertext \<leftarrow> encrypt_hashed (kx_num K) (kx_encrypt K) (kx_sha256 K) inner key (drop 32 random_bytes);
                       Some (Inr (\<lparr>rd_nonce = s1_nonce dat, rd_server_nonce = rp_server_nonce res, rd_p = p_bytes, rd_q = q_bytes,
                                   rd_fingerprint = fingerprint, rd_encrypted_data = ciphertext\<rparr>,
                                  \<lparr>s2_nonce = s1_nonce dat, s2_server_nonce = rp_server_nonce res, s2_new_nonce = new_nonce\<rparr>))
                     }
               })"

definition step2 :: "exchange \<Rightarrow> step1_data \<Rightarrow> res_pq \<Rightarrow> 'e + bytes \<Rightarrow> (req_dh_params \<times> step2_data) attempt" where
  "step2 K dat res rng = (case rng of Inl _ \<Rightarrow> Some (Inl RandomnessUnavailable) | Inr r \<Rightarrow> do_step2 K dat res r)"

section \<open>The third step\<close>

definition safety_range :: nat where
  "safety_range = 2 ^ (2048 - 64)"

text \<open>The part of the third step that opens and checks the server's answer.\<close>

definition open_answer :: "exchange \<Rightarrow> step2_data \<Rightarrow> bytes \<Rightarrow> server_dh_inner attempt" where
  "open_answer K dat encrypted_answer =
     (let (key, iv) = generate_key_data_from_nonce (kx_sha1 K) (s2_server_nonce dat) (s2_new_nonce dat)
      in do {
        plain \<leftarrow> ige_decrypt (kx_decrypt K) encrypted_answer key iv;
        let got = take 20 plain;
        case kx_server_dh K (drop 20 plain) of
          Inl error \<Rightarrow> Some (Inl (InvalidDhInnerData error))
        | Inr (inner, pos) \<Rightarrow>
            if length plain < 20 + pos then None
            else if length plain - 20 - pos \<ge> 16 then Some (Inl InvalidDhParameters)
            else
              let expected = kx_sha1 K (take pos (drop 20 plain))
              in if got \<noteq> expected then Some (Inl (InvalidAnswerHash got expected))
                 else
                   question (check_nonce (sd_nonce inner) (s2_nonce dat)) (\<lambda>_.
                   question (check_server_nonce (sd_server_nonce inner) (s2_server_nonce dat)) (\<lambda>_.
                     if \<not> check_p_and_g (kx_num K) (kx_safe_prime K) (sd_dh_prime inner) (sd_g inner) \<or> length (sd_g_a inner) > 256
                     then Some (Inl InvalidDhParameters)
                     else Some (Inr inner)))
      })"

text \<open>The part that encrypts the client's share for the server.\<close>

definition client_answer :: "exchange \<Rightarrow> step2_data \<Rightarrow> nat \<Rightarrow> bytes \<Rightarrow> bytes option" where
  "client_answer K dat g_b random_bytes =
     (let (key, iv) = generate_key_data_from_nonce (kx_sha1 K) (s2_server_nonce dat) (s2_new_nonce dat);
          inner = kx_client_dh K \<lparr>cd_nonce = s2_nonce dat, cd_server_nonce = s2_server_nonce dat, cd_retry_id = 0,
                    cd_g_b = to_bytes_be (kx_num K) g_b\<rparr>;
          hashed = kx_sha1 K inner @ inner;
          pad_len = (16 - length hashed mod 16) mod 16
      in ige_encrypt (kx_encrypt K) (hashed @ take pad_len random_bytes) key iv)"

text \<open>The part in between: the ranges, both powers, and the request.\<close>

definition agree :: "exchange \<Rightarrow> step2_data \<Rightarrow> server_dh_inner \<Rightarrow> bytes \<Rightarrow> int \<Rightarrow> (set_client_dh_params \<times> step3_data) attempt" where
  "agree K dat inner random_bytes now =
     (let dh_prime = from_bytes_be (kx_num K) (sd_dh_prime inner);
          g = nat (sd_g inner mod 2 ^ 32);
          g_a = from_bytes_be (kx_num K) (sd_g_a inner);
          time_offset = sd_server_time inner - now
      in if \<not> (i32_min \<le> time_offset \<and> time_offset \<le> i32_max) then Some (Inl InvalidDhParameters)
         else do {
           high \<leftarrow> big_sub dh_prime safety_range;
           question (check_g_in_range g_a safety_range high) (\<lambda>_. do {
             let b = from_bytes_be (kx_num K) (take 256 random_bytes);
             g_b \<leftarrow> big_modpow (kx_num K) g b dh_prime;
             gab \<leftarrow> big_modpow (kx_num K) g_a b dh_prime;
             top \<leftarrow> big_sub dh_prime 1;
             question (check_g_in_range g 1 top) (\<lambda>_.
             question (check_g_in_range g_a 1 top) (\<lambda>_.
             question (check_g_in_range g_b 1 top) (\<lambda>_.
             question (check_g_in_range g_b safety_range high) (\<lambda>_. do {
               encrypted \<leftarrow> client_answer K dat g_b (drop 256 random_bytes);
               Some (Inr (\<lparr>sc_nonce = s2_nonce dat, sc_server_nonce = s2_server_nonce dat, sc_encrypted_data = encrypted\<rparr>,
                          \<lparr>s3_nonce = s2_nonce dat, s3_server_nonce = s2_server_nonce dat, s3_new_nonce = s2_new_nonce dat,
                           s3_gab = gab, s3_time_offset = time_offset\<rparr>))
             }))))
           })
         })"

definition do_step3 ::
    "exchange \<Rightarrow> step2_data \<Rightarrow> server_dh_params \<Rightarrow> bytes \<Rightarrow> int \<Rightarrow> (set_client_dh_params \<times> step3_data) attempt" where
  "do_step3 K dat response random_bytes now =
     (case response of
        ServerDhParamsFail nonce server_nonce hash \<Rightarrow>
          question (check_nonce nonce (s2_nonce dat)) (\<lambda>_.
          question (check_server_nonce server_nonce (s2_server_nonce dat)) (\<lambda>_.
          question (check_new_nonce_hash hash (take 16 (drop 4 (kx_sha1 K (s2_new_nonce dat))))) (\<lambda>_.
            Some (Inl DhParamsFail))))
      | ServerDhParamsOk nonce server_nonce encrypted_answer \<Rightarrow>
          question (check_nonce nonce (s2_nonce dat)) (\<lambda>_.
          question (check_server_nonce server_nonce (s2_server_nonce dat)) (\<lambda>_.
            if \<not> (32 \<le> length encrypted_answer \<and> length encrypted_answer \<le> 1024) then Some (Inl InvalidDhParameters)
            else if length encrypted_answer mod 16 \<noteq> 0
            then Some (Inl (EncryptedResponseNotPadded (length encrypted_answer)))
            else do {
              opened \<leftarrow> open_answer K dat encrypted_answer;
              question opened (\<lambda>inner. agree K dat inner random_bytes now)
            })))"

definition step3 ::
    "exchange \<Rightarrow> step2_data \<Rightarrow> server_dh_params \<Rightarrow> 'e + bytes \<Rightarrow> int \<Rightarrow> (set_client_dh_params \<times> step3_data) attempt" where
  "step3 K dat response rng now =
     (case rng of Inl _ \<Rightarrow> Some (Inl RandomnessUnavailable) | Inr r \<Rightarrow> do_step3 K dat response r now)"

section \<open>The key\<close>

fun dh_gen_data :: "dh_gen_answer \<Rightarrow> bytes \<times> bytes \<times> bytes \<times> u8" where
  "dh_gen_data (DhGenOk nonce server_nonce hash) = (nonce, server_nonce, hash, 1)"
| "dh_gen_data (DhGenRetry nonce server_nonce hash) = (nonce, server_nonce, hash, 2)"
| "dh_gen_data (DhGenFail nonce server_nonce hash) = (nonce, server_nonce, hash, 3)"

definition first_salt :: "bytes \<Rightarrow> bytes \<Rightarrow> int" where
  "first_salt new_nonce server_nonce = sint (le_word64 (map2 (XOR) (take 8 new_nonce) (take 8 server_nonce)))"

definition create_key :: "exchange \<Rightarrow> step3_data \<Rightarrow> dh_gen_answer \<Rightarrow> finished attempt" where
  "create_key K dat response =
     (let (nonce, server_nonce, hash, nonce_number) = dh_gen_data response
      in question (check_nonce nonce (s3_nonce dat)) (\<lambda>_.
         question (check_server_nonce server_nonce (s3_server_nonce dat)) (\<lambda>_. do {
           gab_bytes \<leftarrow> pad_to_256 (to_bytes_be (kx_num K) (s3_gab dat));
           let auth_key = auth_key_from_bytes (kx_sha1 K) gab_bytes;
           question (check_new_nonce_hash hash (calc_new_nonce_hash (kx_sha1 K) auth_key (s3_new_nonce dat) nonce_number)) (\<lambda>_.
             if nonce_number = 1
             then Some (Inr \<lparr>fin_auth_key = auth_key_to_bytes auth_key, fin_time_offset = s3_time_offset dat,
                             fin_first_salt = first_salt (s3_new_nonce dat) (s3_server_nonce dat)\<rparr>)
             else if nonce_number = 2 then Some (Inl DhGenRetryError)
             else Some (Inl DhGenFailError))
         })))"

end
