(* ===== verification/Key_Agreement.thy ===== *)
theory Key_Agreement
  imports Key_Exchange
begin

text \<open>
  The third step of the key exchange and the key: exactly the answers that pass every check are
  accepted, no answer makes the client panic, and an honest server derives the same key.
\<close>

section \<open>Laws of the parameters\<close>

text \<open>
  The documented behaviour of the crates, and of the code generated from the schema: a reader stops
  inside its input, and the inner data of the second step is short.
\<close>

definition exchange_laws :: "exchange \<Rightarrow> bool" where
  "exchange_laws K \<longleftrightarrow>
     bignum_laws (kx_num K) \<and>
     (\<forall>key. block_pair (kx_encrypt K key) (kx_decrypt K key)) \<and>
     (\<forall>m. length (kx_sha1 K m) = 20) \<and> (\<forall>m. length (kx_sha256 K m) = 32) \<and>
     (\<forall>bs inner n. kx_server_dh K bs = Inr (inner, n) \<longrightarrow> n \<le> length bs) \<and>
     (\<forall>d :: pq_inner_data. length (pi_pq d) = 8 \<and> length (pi_p d) \<le> 8 \<and> length (pi_q d) \<le> 8 \<and> length (pi_nonce d) = 16 \<and>
          length (pi_server_nonce d) = 16 \<and> length (pi_new_nonce d) = 32 \<longrightarrow> length (kx_pq_inner K d) \<le> 144)"

lemma exchange_lawsD:
  assumes "exchange_laws K"
  shows "bignum_laws (kx_num K)" "\<forall>key. block_pair (kx_encrypt K key) (kx_decrypt K key)"
    "length (kx_sha1 K m) = 20" "\<forall>m. length (kx_sha256 K m) = 32"
    "kx_server_dh K bs = Inr (inner, n) \<Longrightarrow> n \<le> length bs"
  using assms by (simp_all add: exchange_laws_def)

lemma question_simps [simp]:
  "question (Inl e) k = Some (Inl e)" "question (Inr x) k = k x"
  by (simp_all add: question_def)

lemma checks_simps [simp]:
  "check_nonce a a = Inr ()" "check_server_nonce a a = Inr ()" "check_new_nonce_hash a a = Inr ()"
  "a \<noteq> b \<Longrightarrow> check_nonce a b = Inl (InvalidNonce a b)"
  "a \<noteq> b \<Longrightarrow> check_server_nonce a b = Inl (InvalidServerNonce a b)"
  "a \<noteq> b \<Longrightarrow> check_new_nonce_hash a b = Inl (InvalidNewNonceHash a b)"
  by (simp_all add: check_nonce_def check_server_nonce_def check_new_nonce_hash_def)

section \<open>The group\<close>

lemma top_bit: "(w :: u8) AND 0x80 \<noteq> 0 \<Longrightarrow> 128 \<le> unat w"
proof (rule ccontr)
  assume w: "w AND 0x80 \<noteq> 0" and "\<not> 128 \<le> unat w"
  then have n: "unat w \<in> set [0..<128]" by simp
  have "list_all (\<lambda>n. (of_nat n :: u8) AND 0x80 = 0) [0..<128]" by code_simp
  with n have "(of_nat (unat w) :: u8) AND 0x80 = 0" unfolding list_all_iff by blast
  with w show False by simp
qed

lemma top_bit_bound:
  assumes c: "length p = 256" "(p ! 0) AND 0x80 \<noteq> 0"
  shows "2 ^ 2047 \<le> be_nat p"
proof -
  from c obtain b bs where p: "p = b # bs" by (cases p) auto
  have "128 \<le> unat b" using top_bit[of b] c(2) p by simp
  then have "256 ^ 255 * 128 \<le> 256 ^ length bs * unat b" using c(1) p by simp
  then have "256 ^ 255 * 128 \<le> be_nat p" unfolding p be_nat_Cons by linarith
  moreover have "(256 :: nat) ^ 255 * 128 = 2 ^ 2047" by simp
  ultimately show ?thesis by simp
qed

lemma group_bounds:
  assumes "check_p_and_g N safe_prime p g"
  shows "length p = 256" "2 ^ 2047 \<le> be_nat p" "be_nat p < 2 ^ 2048" "2 \<le> g" "g \<le> 7"
proof -
  have c: "length p = 256" "(p ! 0) AND 0x80 \<noteq> 0" "2 \<le> g \<and> g \<le> 7"
    using assms by (auto simp: check_p_and_g_def check_p_len_def split: if_splits)
  show "2 ^ 2047 \<le> be_nat p" by (rule top_bit_bound[OF c(1,2)])
  have "be_nat p < 256 ^ 256" using be_nat_bound[of p] c(1) by simp
  then show "be_nat p < 2 ^ 2048" by simp
qed (use assms in \<open>auto simp: check_p_and_g_def check_p_len_def split: if_splits\<close>)

section \<open>The server's answer\<close>

text \<open>What the protocol prescribes for the server: hash, inner data and padding, encrypted under the nonces.\<close>

definition exchange_key :: "exchange \<Rightarrow> step2_data \<Rightarrow> bytes \<times> bytes" where
  "exchange_key K dat = generate_key_data_from_nonce (kx_sha1 K) (s2_server_nonce dat) (s2_new_nonce dat)"

definition server_answer :: "exchange \<Rightarrow> step2_data \<Rightarrow> bytes \<Rightarrow> bytes \<Rightarrow> bytes" where
  "server_answer K dat inner_bytes pad =
     (let (key, iv) = exchange_key K dat
      in ige_encrypt_chunks (kx_encrypt K key) (take 16 iv) (drop 16 iv) (kx_sha1 K inner_bytes @ inner_bytes @ pad))"

text \<open>The checks on the inner data.\<close>

definition inner_ok :: "exchange \<Rightarrow> step2_data \<Rightarrow> server_dh_inner \<Rightarrow> bool" where
  "inner_ok K dat inner \<longleftrightarrow>
     sd_nonce inner = s2_nonce dat \<and> sd_server_nonce inner = s2_server_nonce dat \<and>
     check_p_and_g (kx_num K) (kx_safe_prime K) (sd_dh_prime inner) (sd_g inner) \<and> length (sd_g_a inner) \<le> 256"

lemma exchange_iv:
  assumes K: "exchange_laws K" and n: "length (s2_new_nonce dat) = 32" and k: "exchange_key K dat = (key, iv)"
  shows "length (take 16 iv) = 16" "length (drop 16 iv) = 16"
  using n k exchange_lawsD(3)[OF K] by (auto simp: exchange_key_def generate_key_data_from_nonce_def Let_def)

lemma length_server_answer:
  assumes K: "exchange_laws K" and n: "length (s2_new_nonce dat) = 32"
  shows "length (server_answer K dat body pad) = 20 + length body + length pad"
proof -
  obtain key iv where k: "exchange_key K dat = (key, iv)" by fastforce
  show ?thesis
    using ige_encrypt_inverse[OF exchange_lawsD(2)[OF K, rule_format, of key] exchange_iv[OF K n k]] exchange_lawsD(3)[OF K]
    by (simp add: server_answer_def k)
qed

lemma open_answer_exact:
  assumes K: "exchange_laws K" and n: "length (s2_new_nonce dat) = 32" and e: "length encrypted mod 16 = 0" "32 \<le> length encrypted"
  shows "open_answer K dat encrypted \<noteq> None \<and>
    (open_answer K dat encrypted = Some (Inr inner) \<longleftrightarrow>
      (\<exists>body pad. encrypted = server_answer K dat body pad \<and> length pad < 16 \<and>
         kx_server_dh K (body @ pad) = Inr (inner, length body) \<and> inner_ok K dat inner))"
proof -
  obtain key iv where k: "exchange_key K dat = (key, iv)" by fastforce
  note iv = exchange_iv[OF K n k]
  note pair = exchange_lawsD(2)[OF K, rule_format, of key]
  define plain where "plain = ige_decrypt_chunks (kx_decrypt K key) (take 16 iv) (drop 16 iv) encrypted"
  note inv = ige_decrypt_inverse[OF pair iv, of encrypted, folded plain_def]
  have open_plain: "open_answer K dat encrypted =
      (case kx_server_dh K (drop 20 plain) of
         Inl error \<Rightarrow> Some (Inl (InvalidDhInnerData error))
       | Inr (inner, pos) \<Rightarrow>
           if length plain < 20 + pos then None
           else if length plain - 20 - pos \<ge> 16 then Some (Inl InvalidDhParameters)
           else let expected = kx_sha1 K (take pos (drop 20 plain))
             in if take 20 plain \<noteq> expected then Some (Inl (InvalidAnswerHash (take 20 plain) expected))
                else if sd_nonce inner \<noteq> s2_nonce dat then Some (Inl (InvalidNonce (sd_nonce inner) (s2_nonce dat)))
                else if sd_server_nonce inner \<noteq> s2_server_nonce dat
                then Some (Inl (InvalidServerNonce (sd_server_nonce inner) (s2_server_nonce dat)))
                else if inner_ok K dat inner then Some (Inr inner) else Some (Inl InvalidDhParameters))"
    using e k unfolding open_answer_def exchange_key_def[symmetric] k
    by (auto simp: ige_decrypt_def plain_def[symmetric] Let_def inner_ok_def check_nonce_def check_server_nonce_def
        split: sum.split prod.split)
  have l: "32 \<le> length plain" using inv e by simp
  have total: "open_answer K dat encrypted \<noteq> None"
    using l exchange_lawsD(5)[OF K, of "drop 20 plain"]
    by (auto simp: open_plain Let_def split: sum.split prod.split)
  have "\<exists>body pad. encrypted = server_answer K dat body pad \<and> length pad < 16 \<and>
      kx_server_dh K (body @ pad) = Inr (inner, length body) \<and> inner_ok K dat inner"
    if o: "open_answer K dat encrypted = Some (Inr inner)"
  proof -
    from o obtain pos where r: "kx_server_dh K (drop 20 plain) = Inr (inner, pos)" and pos: "20 + pos \<le> length plain"
      "length plain - 20 - pos < 16" and h: "take 20 plain = kx_sha1 K (take pos (drop 20 plain))" and ok: "inner_ok K dat inner"
      by (auto simp: open_plain Let_def not_less not_le split: sum.splits prod.splits if_splits)
    let ?body = "take pos (drop 20 plain)" and ?pad = "drop pos (drop 20 plain)"
    have "kx_sha1 K ?body @ ?body @ ?pad = plain" unfolding h[symmetric] by (simp only: append_take_drop_id)
    then have "encrypted = server_answer K dat ?body ?pad" using inv by (simp add: server_answer_def k)
    moreover have "kx_server_dh K (?body @ ?pad) = Inr (inner, length ?body)"
      unfolding append_take_drop_id using r pos by simp
    moreover have "length ?pad < 16" using pos by simp
    ultimately show ?thesis using ok by blast
  qed
  moreover have "open_answer K dat encrypted = Some (Inr inner)"
    if a: "encrypted = server_answer K dat body pad" and pad: "length pad < 16"
      and r: "kx_server_dh K (body @ pad) = Inr (inner, length body)" and ok: "inner_ok K dat inner" for body pad
  proof -
    have p: "plain = kx_sha1 K body @ body @ pad"
      using ige_encrypt_inverse[OF pair iv] by (simp add: plain_def a server_answer_def k)
    show ?thesis using r ok pad exchange_lawsD(3)[OF K] by (simp add: open_plain p Let_def) (simp add: inner_ok_def)
  qed
  ultimately show ?thesis using total by blast
qed

section \<open>The client's answer\<close>

text \<open>What the server reads in the request of the third step.\<close>

definition server_reads :: "exchange \<Rightarrow> step2_data \<Rightarrow> bytes \<Rightarrow> bytes" where
  "server_reads K dat encrypted =
     (let (key, iv) = exchange_key K dat in ige_decrypt_chunks (kx_decrypt K key) (take 16 iv) (drop 16 iv) encrypted)"

definition client_inner :: "exchange \<Rightarrow> step2_data \<Rightarrow> nat \<Rightarrow> bytes" where
  "client_inner K dat g_b = kx_client_dh K \<lparr>cd_nonce = s2_nonce dat, cd_server_nonce = s2_server_nonce dat, cd_retry_id = 0,
     cd_g_b = to_bytes_be (kx_num K) g_b\<rparr>"

lemma client_answer_read:
  assumes K: "exchange_laws K" and n: "length (s2_new_nonce dat) = 32" and r: "length rnd = 16"
  obtains encrypted pad where "client_answer K dat g_b rnd = Some encrypted" "length pad < 16" "length encrypted mod 16 = 0"
    "server_reads K dat encrypted = kx_sha1 K (client_inner K dat g_b) @ client_inner K dat g_b @ pad"
proof -
  obtain key iv where k: "exchange_key K dat = (key, iv)" by fastforce
  note iv = exchange_iv[OF K n k]
  note pair = exchange_lawsD(2)[OF K, rule_format, of key]
  define h where "h = kx_sha1 K (client_inner K dat g_b) @ client_inner K dat g_b"
  define pad_len where "pad_len = (16 - length h mod 16) mod 16"
  have pl: "pad_len < 16" by (simp add: pad_len_def)
  have m: "length (h @ take pad_len rnd) mod 16 = 0"
  proof -
    have "(length h + pad_len) mod 16 = (length h mod 16 + (16 - length h mod 16)) mod 16"
      unfolding pad_len_def by (simp only: mod_add_left_eq mod_add_right_eq)
    also have "\<dots> = 0" by simp
    finally show ?thesis using pl r by (simp add: min_def)
  qed
  define c where "c = ige_encrypt_chunks (kx_encrypt K key) (take 16 iv) (drop 16 iv) (h @ take pad_len rnd)"
  have "client_answer K dat g_b rnd = Some c"
    unfolding client_answer_def exchange_key_def[symmetric] k Let_def client_inner_def[symmetric] case_prod_conv
      h_def[symmetric] pad_len_def[symmetric] ige_encrypt_def c_def using m by simp
  moreover have "server_reads K dat c = h @ take pad_len rnd" "length c mod 16 = 0"
    using ige_encrypt_inverse[OF pair iv, of "h @ take pad_len rnd"] m by (simp_all add: server_reads_def k c_def)
  ultimately show thesis using that[of c "take pad_len rnd"] pl r by (simp add: h_def)
qed

section \<open>The agreement\<close>

definition group_of :: "server_dh_inner \<Rightarrow> nat" where
  "group_of inner = be_nat (sd_dh_prime inner)"

text \<open>The client's secret exponent and its share.\<close>

definition client_secret :: "bytes \<Rightarrow> nat" where
  "client_secret random_bytes = be_nat (take 256 random_bytes)"

definition client_share :: "server_dh_inner \<Rightarrow> bytes \<Rightarrow> nat" where
  "client_share inner random_bytes = nat (sd_g inner) ^ client_secret random_bytes mod group_of inner"

definition in_safe_range :: "nat \<Rightarrow> nat \<Rightarrow> bool" where
  "in_safe_range p v \<longleftrightarrow> 2 ^ 1984 < v \<and> v < p - 2 ^ 1984"

text \<open>The checks of the third step on a server's data that is authentic.\<close>

definition shares_ok :: "server_dh_inner \<Rightarrow> bytes \<Rightarrow> int \<Rightarrow> bool" where
  "shares_ok inner random_bytes now \<longleftrightarrow>
     i32_min \<le> sd_server_time inner - now \<and> sd_server_time inner - now \<le> i32_max \<and>
     in_safe_range (group_of inner) (be_nat (sd_g_a inner)) \<and>
     in_safe_range (group_of inner) (client_share inner random_bytes)"

definition agreed :: "step2_data \<Rightarrow> server_dh_inner \<Rightarrow> bytes \<Rightarrow> int \<Rightarrow> step3_data" where
  "agreed dat inner random_bytes now =
     \<lparr>s3_nonce = s2_nonce dat, s3_server_nonce = s2_server_nonce dat, s3_new_nonce = s2_new_nonce dat,
      s3_gab = be_nat (sd_g_a inner) ^ client_secret random_bytes mod group_of inner,
      s3_time_offset = sd_server_time inner - now\<rparr>"

lemma agreed_fields [simp]:
  "s3_nonce (agreed dat inner rnd now) = s2_nonce dat" "s3_server_nonce (agreed dat inner rnd now) = s2_server_nonce dat"
  "s3_new_nonce (agreed dat inner rnd now) = s2_new_nonce dat" "s3_time_offset (agreed dat inner rnd now) = sd_server_time inner - now"
  by (simp_all add: agreed_def)

lemma agree_exact:
  assumes K: "exchange_laws K" and n: "length (s2_new_nonce dat) = 32" and r: "length rnd = 272" and i: "inner_ok K dat inner"
  shows "agree K dat inner rnd now \<noteq> None \<and>
    (agree K dat inner rnd now = Some (Inr (req, s3)) \<longleftrightarrow>
       shares_ok inner rnd now \<and> s3 = agreed dat inner rnd now \<and>
       (\<exists>encrypted. client_answer K dat (client_share inner rnd) (drop 256 rnd) = Some encrypted \<and>
          req = \<lparr>sc_nonce = s2_nonce dat, sc_server_nonce = s2_server_nonce dat, sc_encrypted_data = encrypted\<rparr>))"
proof -
  note N = exchange_lawsD(1)[OF K]
  have c: "check_p_and_g (kx_num K) (kx_safe_prime K) (sd_dh_prime inner) (sd_g inner)" using i by (simp add: inner_ok_def)
  define p where "p = group_of inner"
  define ga where "ga = be_nat (sd_g_a inner)"
  define b where "b = client_secret rnd"
  define gb where "gb = client_share inner rnd"
  define S :: nat where "S = 2 ^ 1984"
  have S1: "1 < S" by (simp add: S_def)
  have "S \<le> 2 ^ 2047" unfolding S_def by (rule power_increasing) simp_all
  also have "2 ^ 2047 \<le> p" using group_bounds(2)[OF c] by (simp add: p_def group_of_def)
  finally have Sp: "S \<le> p" .
  have "(8 :: nat) < 2 ^ 2047" by (rule less_le_trans[of _ "2 ^ 4"]) (simp, rule power_increasing, simp_all)
  then have p8: "8 < p" using group_bounds(2)[OF c] by (simp add: p_def group_of_def)
  have g: "nat (sd_g inner mod 2 ^ 32) = nat (sd_g inner)" "1 < nat (sd_g inner)" "nat (sd_g inner) < p - 1"
    using group_bounds(4,5)[OF c] p8 by auto
  have gbn: "nat (sd_g inner) ^ b mod p = gb" by (simp add: gb_def client_share_def b_def p_def)
  obtain enc pad where enc: "client_answer K dat gb (drop 256 rnd) = Some enc"
    by (rule client_answer_read[OF K n, of "drop 256 rnd" gb]) (use r in auto)
  have inr: "in_safe_range p v \<longleftrightarrow> S < v \<and> v < p - S" for v by (simp add: in_safe_range_def S_def)
  have "agree K dat inner rnd now =
      (if \<not> (i32_min \<le> sd_server_time inner - now \<and> sd_server_time inner - now \<le> i32_max) then Some (Inl InvalidDhParameters)
       else if \<not> in_safe_range p ga then Some (Inl (GParameterOutOfRange ga S (p - S)))
       else if \<not> (1 < gb \<and> gb < p - 1) then Some (Inl (GParameterOutOfRange gb 1 (p - 1)))
       else if \<not> in_safe_range p gb then Some (Inl (GParameterOutOfRange gb S (p - S)))
       else Some (Inr (\<lparr>sc_nonce = s2_nonce dat, sc_server_nonce = s2_server_nonce dat, sc_encrypted_data = enc\<rparr>,
               agreed dat inner rnd now)))"
  proof -
    have sr: "safety_range = S" by (simp add: safety_range_def S_def)
    have nums: "from_bytes_be (kx_num K) (sd_dh_prime inner) = p" "from_bytes_be (kx_num K) (sd_g_a inner) = ga"
      "from_bytes_be (kx_num K) (take 256 rnd) = b"
      by (simp_all add: bignum_lawsD(1)[OF N] p_def group_of_def ga_def b_def client_secret_def)
    have top: "big_sub p 1 = Some (p - 1)" "big_sub p S = Some (p - S)" using p8 Sp by (simp_all add: big_sub_def)
    have pow: "big_modpow (kx_num K) x b p = Some (x ^ b mod p)" for x using p8 by (simp add: bignum_lawsD(3)[OF N])
    have ag: "agreed dat inner rnd now = \<lparr>s3_nonce = s2_nonce dat, s3_server_nonce = s2_server_nonce dat,
        s3_new_nonce = s2_new_nonce dat, s3_gab = ga ^ b mod p, s3_time_offset = sd_server_time inner - now\<rparr>"
      by (simp add: agreed_def ga_def b_def p_def)
    have chk: "check_g_in_range v S (p - S) = (if in_safe_range p v then Inr () else Inl (GParameterOutOfRange v S (p - S)))" for v
      by (simp add: check_g_in_range_def inr)
    have one: "in_safe_range p v \<Longrightarrow> check_g_in_range v 1 (p - 1) = Inr ()" for v
      using S1 unfolding check_g_in_range_def inr by (simp, linarith)
    have gg: "check_g_in_range (nat (sd_g inner)) 1 (p - 1) = Inr ()" using g by (simp add: check_g_in_range_def)
    have gb1: "check_g_in_range gb 1 (p - 1) = (if 1 < gb \<and> gb < p - 1 then Inr () else Inl (GParameterOutOfRange gb 1 (p - 1)))"
      by (simp add: check_g_in_range_def)
    show ?thesis
      unfolding agree_def Let_def nums sr top g(1) pow gbn bind.bind_lunit chk gb1 gg enc ag
      by (intro if_cong refl, cases "in_safe_range p ga"; cases "1 < gb \<and> gb < p - 1"; cases "in_safe_range p gb")
        (simp_all only: question_simps one if_True if_False not_not simp_thms)
  qed
  moreover have "in_safe_range p gb \<Longrightarrow> 1 < gb \<and> gb < p - 1" using S1 by (auto simp: inr)
  ultimately show ?thesis
    using enc by (auto simp: shares_ok_def p_def[symmetric] ga_def[symmetric] gb_def[symmetric])
qed

section \<open>The third step\<close>

definition answer_ok :: "exchange \<Rightarrow> step2_data \<Rightarrow> bytes \<Rightarrow> server_dh_inner \<Rightarrow> bool" where
  "answer_ok K dat encrypted inner \<longleftrightarrow>
     32 \<le> length encrypted \<and> length encrypted \<le> 1024 \<and> length encrypted mod 16 = 0 \<and> inner_ok K dat inner \<and>
     (\<exists>body pad. encrypted = server_answer K dat body pad \<and> length pad < 16 \<and>
        kx_server_dh K (body @ pad) = Inr (inner, length body))"

lemma do_step3_exact:
  assumes K: "exchange_laws K" and n: "length (s2_new_nonce dat) = 32" and r: "length rnd = 272"
  shows "do_step3 K dat response rnd now \<noteq> None \<and>
    (do_step3 K dat response rnd now = Some (Inr (req, s3)) \<longleftrightarrow>
       (\<exists>encrypted inner answer. response = ServerDhParamsOk (s2_nonce dat) (s2_server_nonce dat) encrypted \<and>
          answer_ok K dat encrypted inner \<and> shares_ok inner rnd now \<and> s3 = agreed dat inner rnd now \<and>
          client_answer K dat (client_share inner rnd) (drop 256 rnd) = Some answer \<and>
          req = \<lparr>sc_nonce = s2_nonce dat, sc_server_nonce = s2_server_nonce dat, sc_encrypted_data = answer\<rparr>))"
proof (cases response)
  case (ServerDhParamsFail a b c)
  then show ?thesis
    by (auto simp: do_step3_def check_nonce_def check_server_nonce_def check_new_nonce_hash_def)
next
  case (ServerDhParamsOk nonce server_nonce encrypted)
  show ?thesis
  proof (cases "nonce = s2_nonce dat \<and> server_nonce = s2_server_nonce dat \<and> 32 \<le> length encrypted \<and> length encrypted \<le> 1024 \<and>
      length encrypted mod 16 = 0")
    case False
    then show ?thesis
      by (auto simp: ServerDhParamsOk do_step3_def check_nonce_def check_server_nonce_def answer_ok_def)
  next
    case True
    then have e: "length encrypted mod 16 = 0" "32 \<le> length encrypted" by simp_all
    note opens = open_answer_exact[OF K n e]
    obtain o1 where o1: "open_answer K dat encrypted = Some o1" using opens by blast
    have step: "do_step3 K dat response rnd now = question o1 (\<lambda>inner. agree K dat inner rnd now)"
      using True by (simp add: do_step3_def ServerDhParamsOk o1)
    show ?thesis
    proof (cases o1)
      case (Inl err)
      then have "\<not> answer_ok K dat encrypted inner" for inner using opens[of inner] o1 by (auto simp: answer_ok_def)
      then show ?thesis unfolding step by (simp add: Inl ServerDhParamsOk)
    next
      case (Inr inner)
      then have i: "inner_ok K dat inner" using opens[of inner] o1 by blast
      have ans: "answer_ok K dat encrypted inner' \<longleftrightarrow> inner' = inner" for inner'
        using opens[of inner'] o1 Inr True by (auto simp: answer_ok_def)
      show ?thesis
        using agree_exact[OF K n r i, of now req s3] True unfolding step
        by (auto simp: Inr ServerDhParamsOk ans)
    qed
  qed
qed

section \<open>The key\<close>

lemma gab_fits:
  assumes "inner_ok K dat inner" shows "s3_gab (agreed dat inner rnd now) < 256 ^ 256"
proof -
  have c: "check_p_and_g (kx_num K) (kx_safe_prime K) (sd_dh_prime inner) (sd_g inner)" using assms by (simp add: inner_ok_def)
  have "be_nat (sd_dh_prime inner) < 256 ^ 256" using be_nat_bound[of "sd_dh_prime inner"] group_bounds(1)[OF c] by simp
  moreover have "0 < be_nat (sd_dh_prime inner)" using group_bounds(2)[OF c] by (rule less_le_trans[rotated]) simp
  ultimately show ?thesis unfolding agreed_def group_of_def by (simp add: order.strict_trans[OF mod_less_divisor])
qed

definition key_hash :: "exchange \<Rightarrow> bytes \<Rightarrow> bytes \<Rightarrow> u8 \<Rightarrow> bytes" where
  "key_hash K auth_key new_nonce number = drop 4 (kx_sha1 K (new_nonce @ [number] @ take 8 (kx_sha1 K auth_key)))"

lemma create_key_exact:
  assumes K: "exchange_laws K" and g: "s3_gab s3 < 256 ^ 256"
  shows "create_key K s3 answer \<noteq> None \<and>
    (create_key K s3 answer = Some (Inr fin) \<longleftrightarrow>
       answer = DhGenOk (s3_nonce s3) (s3_server_nonce s3) (key_hash K (be_bytes 256 (s3_gab s3)) (s3_new_nonce s3) 1) \<and>
       fin = \<lparr>fin_auth_key = be_bytes 256 (s3_gab s3), fin_time_offset = s3_time_offset s3,
              fin_first_salt = first_salt (s3_new_nonce s3) (s3_server_nonce s3)\<rparr>)"
proof -
  have pad: "pad_to_256 (to_bytes_be (kx_num K) (s3_gab s3)) = Some (be_bytes 256 (s3_gab s3))"
    using length_to_bytes_be[OF exchange_lawsD(1)[OF K] g] pad_to_bytes_be[OF exchange_lawsD(1)[OF K] g] by (simp add: pad_to_256_def)
  show ?thesis
    by (cases answer)
      (auto simp: create_key_def pad check_nonce_def check_server_nonce_def check_new_nonce_hash_def key_hash_def
        calc_new_nonce_hash_def auth_key_from_bytes_def auth_key_to_bytes_def Let_def)
qed

text \<open>
  C18: The third step and the key are safe against any server. Whatever the answers are, the client
  does not panic. It goes on only when the nonces are its own, the answer is authentic under the key
  derived from them, group and shares pass the checks (a 2048-bit group, both shares at least
  \<open>2 ^ 1984\<close> away from its ends), and it ends with a key only on a confirmation that hashes that key:
  the power of the server's share to the client's secret, in 256 bytes.
\<close>

theorem answers_checked:
  assumes K: "exchange_laws K" and n: "length (s2_new_nonce dat) = 32" and r: "length rnd = 272"
  shows "do_step3 K dat response rnd now \<noteq> None \<and>
    (do_step3 K dat response rnd now = Some (Inr (req, s3)) \<longrightarrow>
       (\<exists>encrypted inner. response = ServerDhParamsOk (s2_nonce dat) (s2_server_nonce dat) encrypted \<and>
          answer_ok K dat encrypted inner \<and> shares_ok inner rnd now \<and>
          2 ^ 2047 \<le> group_of inner \<and> group_of inner < 2 ^ 2048 \<and>
          create_key K s3 answer \<noteq> None \<and>
          (create_key K s3 answer = Some (Inr fin) \<longrightarrow>
             fin_auth_key fin = be_bytes 256 (be_nat (sd_g_a inner) ^ client_secret rnd mod group_of inner) \<and>
             answer = DhGenOk (s2_nonce dat) (s2_server_nonce dat) (key_hash K (fin_auth_key fin) (s2_new_nonce dat) 1))))"
proof (intro conjI impI)
  note exact = do_step3_exact[OF K n r, of response now req s3]
  show "do_step3 K dat response rnd now \<noteq> None" using exact by blast
  assume "do_step3 K dat response rnd now = Some (Inr (req, s3))"
  then obtain encrypted inner where e: "response = ServerDhParamsOk (s2_nonce dat) (s2_server_nonce dat) encrypted"
    "answer_ok K dat encrypted inner" "shares_ok inner rnd now" and s3: "s3 = agreed dat inner rnd now" using exact by blast
  from e(2) have i: "inner_ok K dat inner" by (simp add: answer_ok_def)
  then have "check_p_and_g (kx_num K) (kx_safe_prime K) (sd_dh_prime inner) (sd_g inner)" by (simp add: inner_ok_def)
  from group_bounds(2,3)[OF this] have "2 ^ 2047 \<le> group_of inner" "group_of inner < 2 ^ 2048" by (simp_all only: group_of_def)
  moreover have "create_key K s3 answer \<noteq> None \<and> (create_key K s3 answer = Some (Inr fin) \<longrightarrow>
      fin_auth_key fin = be_bytes 256 (be_nat (sd_g_a inner) ^ client_secret rnd mod group_of inner) \<and>
      answer = DhGenOk (s2_nonce dat) (s2_server_nonce dat) (key_hash K (fin_auth_key fin) (s2_new_nonce dat) 1))"
    using create_key_exact[OF K, of s3 answer fin] gab_fits[OF i, of rnd now] by (simp add: s3 agreed_def)
  ultimately show "\<exists>encrypted inner. response = ServerDhParamsOk (s2_nonce dat) (s2_server_nonce dat) encrypted \<and>
      answer_ok K dat encrypted inner \<and> shares_ok inner rnd now \<and> 2 ^ 2047 \<le> group_of inner \<and> group_of inner < 2 ^ 2048 \<and>
      create_key K s3 answer \<noteq> None \<and>
      (create_key K s3 answer = Some (Inr fin) \<longrightarrow>
         fin_auth_key fin = be_bytes 256 (be_nat (sd_g_a inner) ^ client_secret rnd mod group_of inner) \<and>
         answer = DhGenOk (s2_nonce dat) (s2_server_nonce dat) (key_hash K (fin_auth_key fin) (s2_new_nonce dat) 1))"
    using e by (intro exI[of _ encrypted] exI[of _ inner]) blast
qed

text \<open>
  C17: Both sides derive the same key. When the server answers with its share \<open>g ^ a\<close> and the checks
  pass, the third step succeeds, the server reads the client's share in the request, and the client
  accepts the confirmation made with the key that the server computes from that share: the client's
  key is the server's.
\<close>

theorem both_sides_agree:
  assumes K: "exchange_laws K" and n: "length (s2_new_nonce dat) = 32" and r: "length rnd = 272"
    and server: "kx_server_dh K (body @ pad) = Inr (inner, length body)" "length pad < 16"
      "(20 + length body + length pad) mod 16 = 0" "32 \<le> 20 + length body + length pad" "20 + length body + length pad \<le> 1024"
    and ok: "inner_ok K dat inner" "shares_ok inner rnd now"
    and share: "be_nat (sd_g_a inner) = nat (sd_g inner) ^ a mod group_of inner"
  defines "auth_key \<equiv> be_bytes 256 (client_share inner rnd ^ a mod group_of inner)"
  shows "\<exists>req s3 pad'.
    do_step3 K dat (ServerDhParamsOk (s2_nonce dat) (s2_server_nonce dat) (server_answer K dat body pad)) rnd now = Some (Inr (req, s3)) \<and>
    server_reads K dat (sc_encrypted_data req) =
      kx_sha1 K (client_inner K dat (client_share inner rnd)) @ client_inner K dat (client_share inner rnd) @ pad' \<and>
    create_key K s3 (DhGenOk (s2_nonce dat) (s2_server_nonce dat) (key_hash K auth_key (s2_new_nonce dat) 1)) =
      Some (Inr \<lparr>fin_auth_key = auth_key, fin_time_offset = sd_server_time inner - now,
                 fin_first_salt = first_salt (s2_new_nonce dat) (s2_server_nonce dat)\<rparr>)"
proof -
  note len = length_server_answer[OF K n, of body pad]
  have ans: "answer_ok K dat (server_answer K dat body pad) inner"
    unfolding answer_ok_def len using server ok(1) by blast
  obtain enc pad' where enc: "client_answer K dat (client_share inner rnd) (drop 256 rnd) = Some enc"
    "server_reads K dat enc = kx_sha1 K (client_inner K dat (client_share inner rnd)) @ client_inner K dat (client_share inner rnd) @ pad'"
    by (rule client_answer_read[OF K n, of "drop 256 rnd" "client_share inner rnd"]) (use r in auto)
  have gab: "s3_gab (agreed dat inner rnd now) = client_share inner rnd ^ a mod group_of inner"
    by (simp add: agreed_def share client_share_def power_mod power_mult[symmetric] mult.commute)
  let ?req = "\<lparr>sc_nonce = s2_nonce dat, sc_server_nonce = s2_server_nonce dat, sc_encrypted_data = enc\<rparr>"
  have "do_step3 K dat (ServerDhParamsOk (s2_nonce dat) (s2_server_nonce dat) (server_answer K dat body pad)) rnd now =
      Some (Inr (?req, agreed dat inner rnd now))"
    using do_step3_exact[OF K n r] ans ok(2) enc(1) by blast
  moreover have "create_key K (agreed dat inner rnd now) (DhGenOk (s2_nonce dat) (s2_server_nonce dat) (key_hash K auth_key (s2_new_nonce dat) 1)) =
      Some (Inr \<lparr>fin_auth_key = auth_key, fin_time_offset = sd_server_time inner - now,
                 fin_first_salt = first_salt (s2_new_nonce dat) (s2_server_nonce dat)\<rparr>)"
    using create_key_exact[OF K gab_fits[OF ok(1)], of rnd now] by (simp add: gab auth_key_def)
  ultimately show ?thesis using enc(2) by (intro exI[of _ ?req] exI[of _ "agreed dat inner rnd now"] exI[of _ pad']) simp
qed

section \<open>A run with the published prime\<close>

text \<open>Both sides choose the exponent 1260.\<close>

definition sample_power :: nat where
  "sample_power = 3 ^ 1260"

definition sample_inner :: server_dh_inner where
  "sample_inner = \<lparr>sd_nonce = replicate 16 1, sd_server_nonce = replicate 16 2, sd_g = 3, sd_dh_prime = TELEGRAM_DH_PRIME,
     sd_g_a = digits256 sample_power, sd_server_time = 100\<rparr>"

definition sample_exchange :: exchange where
  "sample_exchange = \<lparr>kx_num = model_bignum, kx_encrypt = toy_block, kx_decrypt = toy_block,
     kx_sha1 = (\<lambda>m. le_bytes 20 (le_nat m)), kx_sha256 = toy_hash, kx_safe_prime = (\<lambda>_. None),
     kx_pq_inner = (\<lambda>d. pi_p d @ pi_q d), kx_client_dh = cd_g_b,
     kx_server_dh = (\<lambda>bs. if length bs < 12 then Inl UnexpectedEof else Inr (sample_inner, 12))\<rparr>"

definition sample_step2 :: step2_data where
  "sample_step2 = \<lparr>s2_nonce = replicate 16 1, s2_server_nonce = replicate 16 2, s2_new_nonce = replicate 32 3\<rparr>"

definition sample_random :: bytes where
  "sample_random = be_bytes 256 1260 @ replicate 16 0"

lemma sample_exchange_laws: "exchange_laws sample_exchange"
  unfolding exchange_laws_def
proof (intro conjI allI impI)
  fix bs inner n
  assume "kx_server_dh sample_exchange bs = Inr (inner, n)"
  then show "n \<le> length bs" by (simp add: sample_exchange_def split: if_splits)
next
  fix d :: pq_inner_data
  assume "length (pi_pq d) = 8 \<and> length (pi_p d) \<le> 8 \<and> length (pi_q d) \<le> 8 \<and> length (pi_nonce d) = 16 \<and>
    length (pi_server_nonce d) = 16 \<and> length (pi_new_nonce d) = 32"
  then show "length (kx_pq_inner sample_exchange d) \<le> 144" by (simp add: sample_exchange_def)
qed (simp_all add: sample_exchange_def model_bignum_laws block_pair_def toy_block_def toy_hash_def)

text \<open>Modulo three a number is the sum of its bytes.\<close>

lemma be_nat_mod_3: "be_nat bs mod 3 = sum_list (map unat bs) mod 3"
proof (induction bs)
  case (Cons b bs)
  have "(256 ^ length bs * unat b) mod 3 = ((256 mod 3) ^ length bs * unat b) mod (3 :: nat)"
    by (metis mod_mult_left_eq power_mod)
  then have m: "(256 ^ length bs * unat b) mod 3 = unat b mod (3 :: nat)" by simp
  have "be_nat (b # bs) mod 3 = ((256 ^ length bs * unat b) mod 3 + be_nat bs mod 3) mod 3"
    by (simp only: be_nat_Cons mod_add_eq)
  also have "\<dots> = sum_list (map unat (b # bs)) mod 3" by (simp only: m Cons.IH mod_add_eq list.map sum_list.Cons)
  finally show ?case .
qed simp

lemma sample_prime: "be_nat TELEGRAM_DH_PRIME mod 3 = 2" "2 ^ 2047 \<le> be_nat TELEGRAM_DH_PRIME"
  "length TELEGRAM_DH_PRIME = 256" "TELEGRAM_DH_PRIME ! 0 = 0xc7"
proof -
  have s: "sum_list (map unat TELEGRAM_DH_PRIME) mod 3 = 2" unfolding TELEGRAM_DH_PRIME_def by simp
  show "be_nat TELEGRAM_DH_PRIME mod 3 = 2" using s by (simp only: be_nat_mod_3)
  show l: "length TELEGRAM_DH_PRIME = 256" and h: "TELEGRAM_DH_PRIME ! 0 = 0xc7" by (simp_all add: TELEGRAM_DH_PRIME_def)
  have "(0xc7 :: u8) AND 0x80 \<noteq> 0" by code_simp
  with l h show "2 ^ 2047 \<le> be_nat TELEGRAM_DH_PRIME" by (intro top_bit_bound) simp_all
qed

lemma power_split: "n = k * m \<Longrightarrow> (a :: nat) ^ n = (a ^ k) ^ m"
  by (simp only: power_mult)

lemma sample_range: "2 ^ 1984 < sample_power" "sample_power < 2 ^ 2047 - 2 ^ 1984"
proof -
  have p: "(3 :: nat) ^ 1260 = (3 ^ 12) ^ 105" "(3 :: nat) ^ 1260 = (3 ^ 5) ^ 252" "(2 :: nat) ^ 1995 = (2 ^ 19) ^ 105" "(2 :: nat) ^ 2016 = (2 ^ 8) ^ 252"
    by (rule power_split; simp)+
  have "(2 :: nat) ^ 1984 \<le> 2 ^ 1995" by (rule power_increasing) simp_all
  also have "\<dots> < 3 ^ 1260" unfolding p(1,3) by (rule power_strict_mono) simp_all
  finally show "2 ^ 1984 < sample_power" unfolding sample_power_def .
  have "(3 :: nat) ^ 1260 < 2 ^ 2016" unfolding p(2,4) by (rule power_strict_mono) simp_all
  moreover have "(2 :: nat) ^ 2016 + 2 ^ 1984 \<le> 2 ^ 2047"
  proof -
    have "(2 :: nat) ^ 1984 \<le> 2 ^ 2016" by (rule power_increasing) simp_all
    then have "(2 :: nat) ^ 2016 + 2 ^ 1984 \<le> 2 * 2 ^ 2016" by linarith
    also have "\<dots> = 2 ^ Suc 2016" by (rule power_Suc[symmetric])
    also have "\<dots> \<le> 2 ^ 2047" by (rule power_increasing) simp_all
    finally show ?thesis .
  qed
  ultimately show "sample_power < 2 ^ 2047 - 2 ^ 1984" unfolding sample_power_def by linarith
qed

lemma sample_inner_ok: "inner_ok sample_exchange sample_step2 sample_inner"
proof -
  have "sample_power < 256 ^ 256"
    by (rule less_trans[OF sample_range(2)]) simp
  then have "length (digits256 sample_power) \<le> 256"
    using length_to_bytes_be[OF model_bignum_laws, of sample_power 256] by (simp add: model_bignum_def)
  moreover have "check_p_and_g model_bignum (\<lambda>_. None) TELEGRAM_DH_PRIME 3"
  proof -
    have "(0xc7 :: u8) AND 0x80 \<noteq> 0" by code_simp
    then show ?thesis using sample_prime
      by (simp add: check_p_and_g_def check_p_len_def check_p_prime_and_subgroup_def valid_subgroup_def model_bignum_def)
  qed
  ultimately show ?thesis by (simp add: inner_ok_def sample_step2_def sample_inner_def sample_exchange_def)
qed

lemma sample_share: "sample_power < be_nat TELEGRAM_DH_PRIME" "in_safe_range (be_nat TELEGRAM_DH_PRIME) sample_power"
proof -
  have "sample_power < 2 ^ 2047 - 2 ^ 1984" by (rule sample_range)
  also have "\<dots> \<le> be_nat TELEGRAM_DH_PRIME - 2 ^ 1984" by (rule diff_le_mono[OF sample_prime(2)])
  finally have l: "sample_power < be_nat TELEGRAM_DH_PRIME - 2 ^ 1984" .
  then show "in_safe_range (be_nat TELEGRAM_DH_PRIME) sample_power"
    unfolding in_safe_range_def by (intro conjI sample_range(1))
  from l diff_le_self show "sample_power < be_nat TELEGRAM_DH_PRIME" by (rule less_le_trans)
qed

lemma sample_inner_fields:
  "client_secret sample_random = 1260" "group_of sample_inner = be_nat TELEGRAM_DH_PRIME"
  "nat (sd_g sample_inner) = 3" "be_nat (sd_g_a sample_inner) = sample_power" "sd_server_time sample_inner = 100"
proof -
  have "(1260 :: nat) < 256 ^ 256" by simp
  then have "be_nat (be_bytes 256 1260) = 1260" by (rule be_nat_be_bytes)
  then show "client_secret sample_random = 1260" by (simp add: client_secret_def sample_random_def)
qed (simp_all add: group_of_def sample_inner_def digits256_value)

lemma sample_shares: "client_share sample_inner sample_random = sample_power" "shares_ok sample_inner sample_random 90"
proof -
  have "3 ^ 1260 mod be_nat TELEGRAM_DH_PRIME = sample_power"
    using sample_share(1) unfolding sample_power_def by (rule mod_less)
  then show c: "client_share sample_inner sample_random = sample_power"
    unfolding client_share_def sample_inner_fields .
  show "shares_ok sample_inner sample_random 90"
    unfolding shares_ok_def c sample_inner_fields by (intro conjI sample_share(2)) simp_all
qed

lemma sample_parts:
  "length (s2_new_nonce sample_step2) = 32" "length sample_random = 272"
  "kx_server_dh sample_exchange (replicate 12 0 @ []) = Inr (sample_inner, length (replicate 12 (0 :: u8)))"
  by (simp_all add: sample_step2_def sample_random_def sample_exchange_def)

lemma sample_power_share: "be_nat (sd_g_a sample_inner) = nat (sd_g sample_inner) ^ 1260 mod group_of sample_inner"
  using sample_shares(1) unfolding client_share_def sample_inner_fields by (rule sym)

theorem both_sides_agree_witness:
  "\<exists>req s3 pad'.
    do_step3 sample_exchange sample_step2 (ServerDhParamsOk (s2_nonce sample_step2) (s2_server_nonce sample_step2)
      (server_answer sample_exchange sample_step2 (replicate 12 0) [])) sample_random 90 = Some (Inr (req, s3)) \<and>
    server_reads sample_exchange sample_step2 (sc_encrypted_data req) =
      kx_sha1 sample_exchange (client_inner sample_exchange sample_step2 (client_share sample_inner sample_random)) @
      client_inner sample_exchange sample_step2 (client_share sample_inner sample_random) @ pad' \<and>
    create_key sample_exchange s3 (DhGenOk (s2_nonce sample_step2) (s2_server_nonce sample_step2)
      (key_hash sample_exchange (be_bytes 256 (client_share sample_inner sample_random ^ 1260 mod group_of sample_inner)) (s2_new_nonce sample_step2) 1)) =
      Some (Inr \<lparr>fin_auth_key = be_bytes 256 (client_share sample_inner sample_random ^ 1260 mod group_of sample_inner),
                 fin_time_offset = sd_server_time sample_inner - 90,
                 fin_first_salt = first_salt (s2_new_nonce sample_step2) (s2_server_nonce sample_step2)\<rparr>)"
  by (rule both_sides_agree[OF sample_exchange_laws sample_parts _ _ _ _ sample_inner_ok sample_shares(2) sample_power_share]) simp_all

theorem answers_checked_witness:
  "\<exists>req s3 encrypted inner.
    do_step3 sample_exchange sample_step2 (ServerDhParamsOk (s2_nonce sample_step2) (s2_server_nonce sample_step2)
      (server_answer sample_exchange sample_step2 (replicate 12 0) [])) sample_random 90 = Some (Inr (req, s3)) \<and>
    answer_ok sample_exchange sample_step2 encrypted inner \<and> 2 ^ 2047 \<le> group_of inner \<and>
    create_key sample_exchange s3 (DhGenFail [] [] []) \<noteq> None"
proof -
  let ?K = sample_exchange and ?dat = sample_step2 and ?a = "server_answer sample_exchange sample_step2 (replicate 12 0) []"
  let ?response = "ServerDhParamsOk (s2_nonce ?dat) (s2_server_nonce ?dat) ?a"
  have len: "length ?a = 32" by (simp add: length_server_answer[OF sample_exchange_laws sample_parts(1)])
  have ans: "answer_ok ?K ?dat ?a sample_inner"
    unfolding answer_ok_def len using sample_inner_ok sample_parts(3) by (simp, rule_tac x = "replicate 12 0" in exI, rule_tac x = "[]" in exI, simp)
  obtain enc where enc: "client_answer ?K ?dat (client_share sample_inner sample_random) (drop 256 sample_random) = Some enc"
    by (rule client_answer_read[OF sample_exchange_laws sample_parts(1), of "drop 256 sample_random"]) (use sample_parts(2) in auto)
  obtain req s3 where run: "do_step3 ?K ?dat ?response sample_random 90 = Some (Inr (req, s3))"
    using do_step3_exact[OF sample_exchange_laws sample_parts(1,2)] ans sample_shares(2) enc by blast
  show ?thesis
    using answers_checked[OF sample_exchange_laws sample_parts(1,2), of ?response 90 req s3 "DhGenFail [] [] []"] run by blast
qed

end
