(* ===== verification/Key_Request.thy ===== *)
theory Key_Request
  imports Key_Agreement
begin

text \<open>
  The second step of the key exchange: the request names the two factors of the server's number and
  one of the server's known keys, and carries the new nonce where only the owner of that key can
  read it.
\<close>

section \<open>The second step\<close>

lemma be_nat_dropWhile: "be_nat (dropWhile (\<lambda>b. b = 0) bs) = be_nat bs"
  by (induction bs) (simp_all add: be_nat_Cons)

lemma trimmed_bytes_value: "v < 2 ^ 64 \<Longrightarrow> be_nat (trimmed_bytes v) = v"
  by (simp add: trimmed_bytes_def Let_def be_nat_dropWhile)

lemma length_trimmed_bytes: "length (trimmed_bytes v) \<le> 8"
  using length_dropWhile_le[of "\<lambda>b. b = 0" "be_bytes 8 v"] by (simp add: trimmed_bytes_def Let_def)

lemma decimal_value_bound:
  "list_all decimal_digit s \<Longrightarrow> foldl (\<lambda>v c. 10 * v + ((of_char c :: nat) - 48)) v s < (v + 1) * 10 ^ length s"
proof (induction s arbitrary: v)
  case (Cons c s)
  define d :: nat where "d = of_char c - 48"
  have "(of_char c :: nat) \<le> 57" using Cons.prems by (simp add: decimal_digit_def)
  then have "10 * v + d + 1 \<le> 10 * (v + 1)" by (simp add: d_def)
  then have "(10 * v + d + 1) * 10 ^ length s \<le> 10 * (v + 1) * 10 ^ length s" by (rule mult_le_mono1)
  moreover have "foldl (\<lambda>v c. 10 * v + ((of_char c :: nat) - 48)) (10 * v + d) s < (10 * v + d + 1) * 10 ^ length s"
    using Cons by simp
  ultimately have "foldl (\<lambda>v c. 10 * v + ((of_char c :: nat) - 48)) (10 * v + d) s < 10 * (v + 1) * 10 ^ length s"
    by (rule less_le_trans[rotated])
  then show ?case by (simp add: d_def algebra_simps)
qed simp

lemma decimal_value_two: "decimal_value (CHR ''2'' # t) = foldl (\<lambda>v c. 10 * v + ((of_char c :: nat) - 48)) 2 t"
proof -
  have "10 * 0 + ((of_char CHR ''2'' :: nat) - 48) = 2" by simp
  then show ?thesis unfolding decimal_value_def foldl_Cons by (simp only:)
qed

lemma decimal_top: "3 * 10 ^ 616 \<le> (256 ^ 256 :: nat)"
proof -
  have "(10 :: nat) ^ 616 = (10 ^ 59) ^ 10 * 10 ^ 26" by (simp only: power_mult[symmetric] power_add[symmetric]) simp
  then have "3 * (10 :: nat) ^ 616 = (10 ^ 59) ^ 10 * (3 * 10 ^ 26)" by (simp only: mult.left_commute)
  also have "\<dots> \<le> (2 ^ 196) ^ 10 * 2 ^ 88" by (intro mult_le_mono power_mono) simp_all
  also have "\<dots> = 2 ^ (8 * 256)" by (simp only: power_mult[symmetric] power_add[symmetric]) simp
  also have "\<dots> = (256 ^ 256 :: nat)" by (simp only: power_mult) simp
  finally show ?thesis .
qed

lemma decimal_low: "256 ^ 224 < (2 * 10 ^ 616 :: nat)"
proof -
  have "(256 :: nat) ^ 224 = 2 ^ (8 * 224)" by (simp only: power_mult) simp
  also have "\<dots> \<le> 2 ^ (3 * 616)" by (rule power_increasing) simp_all
  also have "\<dots> = (8 :: nat) ^ 616" by (simp only: power_mult) simp
  also have "\<dots> \<le> 10 ^ 616" by (rule power_mono) simp_all
  also have "\<dots> < 2 * (10 :: nat) ^ 616"
  proof (rule n_less_m_mult_n)
    show "(0 :: nat) < 10 ^ 616" by (rule zero_less_power) simp
  qed simp
  finally show ?thesis .
qed

text \<open>The two keys parse, and their moduli fit in 256 bytes.\<close>

lemma known_keys:
  assumes N: "bignum_laws N"
  shows "rsa_key_new N production_n ''65537'' = Some \<lparr>rk_n = decimal_value production_n, rk_e = 65537\<rparr>"
    "rsa_key_new N test_n ''65537'' = Some \<lparr>rk_n = decimal_value test_n, rk_e = 65537\<rparr>"
    "decimal_value production_n \<le> 256 ^ 256" "decimal_value test_n \<le> 256 ^ 256"
proof -
  have d: "list_all decimal_digit production_n" "list_all decimal_digit test_n" "list_all decimal_digit ''65537''"
    by (simp_all add: production_n_def test_n_def decimal_digit_def)
  have ne: "production_n \<noteq> []" "test_n \<noteq> []" by (simp_all add: production_n_def test_n_def)
  have e: "decimal_value ''65537'' = 65537" by (simp add: decimal_value_def)
  show "rsa_key_new N production_n ''65537'' = Some \<lparr>rk_n = decimal_value production_n, rk_e = 65537\<rparr>"
    "rsa_key_new N test_n ''65537'' = Some \<lparr>rk_n = decimal_value test_n, rk_e = 65537\<rparr>"
    using d ne e by (simp_all add: rsa_key_new_def bignum_lawsD(4)[OF N])
  have top: "decimal_value s \<le> 256 ^ 256" if s: "list_all decimal_digit s" "hd s = CHR ''2''" "length s = 617" for s
  proof -
    obtain t where t: "s = CHR ''2'' # t" using s(2,3) by (cases s) auto
    have l: "list_all decimal_digit t" "length t = 616" using s t by simp_all
    have "2 + 1 = (3 :: nat)" by simp
    then have "decimal_value s < 3 * 10 ^ 616"
      unfolding t decimal_value_two using decimal_value_bound[OF l(1), of 2, unfolded l(2)] by (simp only:)
    also note decimal_top
    finally show ?thesis by (rule less_imp_le)
  qed
  show "decimal_value production_n \<le> 256 ^ 256" by (rule top[OF d(1)]) (simp_all add: production_n_def)
  show "decimal_value test_n \<le> 256 ^ 256" by (rule top[OF d(2)]) (simp_all add: test_n_def)
qed

lemma fingerprint_known:
  assumes N: "bignum_laws N"
  shows "find_fingerprint N fs \<noteq> None"
    "find_fingerprint N fs = Some (Some f) \<Longrightarrow> f \<in> set fs \<and> (\<exists>key. key_for_fingerprint N f = Some (Some key) \<and> rk_n key \<le> 256 ^ 256)"
proof -
  have k: "key_for_fingerprint N f \<noteq> None" for f by (simp add: key_for_fingerprint_def known_keys[OF N])
  then show "find_fingerprint N fs \<noteq> None" by (induction fs) (auto split: option.split)
  have n: "rk_n key \<le> 256 ^ 256" if "key_for_fingerprint N f = Some (Some key)" for f key
    using that known_keys[OF N] by (auto simp: key_for_fingerprint_def split: if_splits)
  show "find_fingerprint N fs = Some (Some f) \<Longrightarrow> f \<in> set fs \<and> (\<exists>key. key_for_fingerprint N f = Some (Some key) \<and> rk_n key \<le> 256 ^ 256)"
    using n by (induction fs) (auto split: option.splits)
qed

text \<open>The inner data of the second step.\<close>

definition inner_of :: "step1_data \<Rightarrow> res_pq \<Rightarrow> nat \<Rightarrow> nat \<Rightarrow> bytes \<Rightarrow> pq_inner_data" where
  "inner_of dat res p q new_nonce = \<lparr>pi_pq = rp_pq res, pi_p = trimmed_bytes p, pi_q = trimmed_bytes q, pi_nonce = s1_nonce dat,
     pi_server_nonce = rp_server_nonce res, pi_new_nonce = new_nonce\<rparr>"

text \<open>
  C19: The second step asks for what the server can check. The request is made only for the client's
  own nonce and a number of eight bytes that is the product of two different factors that fit in 32
  bits and pass the primality test; it carries exactly these factors and a fingerprint from the
  server's list, and the owner of the private key recovers from it the inner data with both nonces
  and the fresh secret nonce. The only way not to return is the search for a temporary RSA key.
\<close>

theorem request_recovered:
  assumes K: "exchange_laws K" and len: "length (s1_nonce dat) = 16" "length (rp_server_nonce res) = 16" "length rnd = 256"
  shows "(do_step2 K dat res rnd = Some (Inr (req, s2)) \<longrightarrow>
      rp_nonce res = s1_nonce dat \<and> rd_nonce req = s1_nonce dat \<and> rd_server_nonce req = rp_server_nonce res \<and>
      s2 = \<lparr>s2_nonce = s1_nonce dat, s2_server_nonce = rp_server_nonce res, s2_new_nonce = take 32 rnd\<rparr> \<and>
      rd_fingerprint req \<in> set (rp_fingerprints res) \<and>
      (\<exists>p q key. be_nat (rd_p req) = p \<and> be_nat (rd_q req) = q \<and> p * q = be_nat (rp_pq res) \<and> 1 < p \<and> p < q \<and> q < 2 ^ 32 \<and>
         is_prime p \<and> is_prime q \<and> key_for_fingerprint (kx_num K) (rd_fingerprint req) = Some (Some key) \<and>
         (\<forall>d. private_exponent key d \<longrightarrow>
            (\<exists>padding. rsa_open (kx_decrypt K) (kx_sha256 K) (rk_n key) d (rd_encrypted_data req) =
               Some (kx_pq_inner K (inner_of dat res p q (take 32 rnd)) @ padding)))))
    \<and> (do_step2 K dat res rnd = None \<longrightarrow>
        (\<exists>key inner. encrypt_hashed (kx_num K) (kx_encrypt K) (kx_sha256 K) inner key (drop 32 rnd) = None \<and> length inner \<le> 144))"
proof (cases "rp_nonce res = s1_nonce dat \<and> length (rp_pq res) = 8")
  case False
  then show ?thesis by (auto simp: do_step2_def check_nonce_def)
next
  case True
  note N = exchange_lawsD(1)[OF K]
  show ?thesis
  proof (cases "try_factorize (be_nat (rp_pq res))")
    case None
    then show ?thesis using True by (simp add: do_step2_def)
  next
    case (Some pq)
    then obtain p q where f: "try_factorize (be_nat (rp_pq res)) = Some (p, q)" by (cases pq) auto
    note sound = factors_sound[OF f]
    show ?thesis
    proof (cases "p < q \<and> q \<le> 2 ^ 32 - 1")
      case False
      then show ?thesis using True f by (auto simp: do_step2_def)
    next
      case small: True
      define inner where "inner = kx_pq_inner K (inner_of dat res p q (take 32 rnd))"
      have q64: "q < 2 ^ 64" "p < 2 ^ 64" using small by auto
      have il: "length inner \<le> 144"
        using K len True length_trimmed_bytes[of p] length_trimmed_bytes[of q]
        by (simp add: inner_def exchange_laws_def inner_of_def)
      have pqb: "be_bytes 8 (be_nat (rp_pq res)) = rp_pq res" using True by (metis be_bytes_be_nat)
      have step: "do_step2 K dat res rnd =
         do { found \<leftarrow> find_fingerprint (kx_num K) (rp_fingerprints res);
              case found of
                None \<Rightarrow> Some (Inl (UnknownFingerprints (rp_fingerprints res)))
              | Some fingerprint \<Rightarrow>
                  do { known \<leftarrow> key_for_fingerprint (kx_num K) fingerprint; key \<leftarrow> known;
                       ciphertext \<leftarrow> encrypt_hashed (kx_num K) (kx_encrypt K) (kx_sha256 K) inner key (drop 32 rnd);
                       Some (Inr (\<lparr>rd_nonce = s1_nonce dat, rd_server_nonce = rp_server_nonce res, rd_p = trimmed_bytes p, rd_q = trimmed_bytes q,
                              rd_fingerprint = fingerprint, rd_encrypted_data = ciphertext\<rparr>,
                            \<lparr>s2_nonce = s1_nonce dat, s2_server_nonce = rp_server_nonce res, s2_new_nonce = take 32 rnd\<rparr>)) } }"
        using True f small unfolding inner_def inner_of_def by (simp add: do_step2_def pqb Let_def cong: option.case_cong)
      obtain found where fd: "find_fingerprint (kx_num K) (rp_fingerprints res) = Some found"
        using fingerprint_known(1)[OF N] by blast
      show ?thesis
      proof (cases found)
        case None
        then show ?thesis by (simp add: step fd)
      next
        case (Some fp)
        obtain key where kf: "key_for_fingerprint (kx_num K) fp = Some (Some key)" and n: "rk_n key \<le> 256 ^ 256"
          and fpin: "fp \<in> set (rp_fingerprints res)"
          using fingerprint_known(2)[OF N, of "rp_fingerprints res" fp] fd Some by blast
        note rsa = encrypted_recovered[OF N exchange_lawsD(2,4)[OF K] il, of "drop 32 rnd" key]
        show ?thesis
        proof (cases "encrypt_hashed (kx_num K) (kx_encrypt K) (kx_sha256 K) inner key (drop 32 rnd)")
          case None
          then show ?thesis using il by (auto simp: step fd Some kf)
        next
          case (Some c)
          have "\<exists>padding. rsa_open (kx_decrypt K) (kx_sha256 K) (rk_n key) d c = Some (inner @ padding)" if "private_exponent key d" for d
            using rsa[OF _ that n] len(3) Some by auto
          then show ?thesis
            using True sound small fpin kf q64 Some
            by (auto simp: step fd \<open>found = Some fp\<close> trimmed_bytes_value inner_def[symmetric])
        qed
      qed
    qed
  qed
qed

lemma decimal_value_lower: "v * 10 ^ length s \<le> foldl (\<lambda>v c. 10 * v + ((of_char c :: nat) - 48)) v s"
proof (induction s arbitrary: v)
  case (Cons c s)
  have "v * 10 ^ length (c # s) \<le> (10 * v + ((of_char c :: nat) - 48)) * 10 ^ length s" by (simp add: algebra_simps)
  also note Cons.IH[of "10 * v + ((of_char c :: nat) - 48)"]
  finally show ?case by simp
qed simp

lemma production_n_large: "256 ^ 224 < decimal_value production_n"
proof -
  have h: "hd production_n = CHR ''2''" "length production_n = 617" by (simp_all add: production_n_def)
  obtain c t where ct: "production_n = c # t" by (cases production_n) (use h(2) in auto)
  have "c = CHR ''2''" "length t = 616" using h unfolding ct by simp_all
  then have t: "production_n = CHR ''2'' # t" "length t = 616" using ct by simp_all
  have "2 * 10 ^ 616 \<le> decimal_value production_n"
    unfolding t(1) decimal_value_two by (rule decimal_value_lower[of 2 t, unfolded t(2)])
  then show ?thesis by (rule less_le_trans[OF decimal_low])
qed

text \<open>A run with a constant hash, a temporary key of zeros and the number fifteen.\<close>

definition zero_exchange :: exchange where
  "zero_exchange = sample_exchange\<lparr>kx_sha256 := (\<lambda>m. replicate 32 0)\<rparr>"

definition sample_res :: res_pq where
  "sample_res = \<lparr>rp_nonce = replicate 16 1, rp_server_nonce = replicate 16 2, rp_pq = be_bytes 8 15,
     rp_fingerprints = [5, -3414540481677951611]\<rparr>"

lemma zero_exchange_laws: "exchange_laws zero_exchange"
  using sample_exchange_laws by (simp add: exchange_laws_def zero_exchange_def)

lemma factor_fifteen: "try_factorize 15 = Some (3, 5)"
  by (simp add: try_factorize_def small_primes_def is_prime_def base_rejects_def modpow_def modpow_loop.simps trailing_zeros.simps Let_def)

lemma zero_key_fits:
  assumes "length inner \<le> 144"
  shows "encrypt_hashed model_bignum toy_block (\<lambda>m. replicate 32 0) inner \<lparr>rk_n = decimal_value production_n, rk_e = 65537\<rparr> (replicate 224 0) \<noteq> None"
proof -
  let ?p = "inner @ take (192 - length inner) (replicate 224 0)" and ?sha = "\<lambda>m :: bytes. replicate 32 (0 :: u8)"
  have pair: "\<forall>key. block_pair (toy_block key) (toy_block key)" by (simp add: block_pair_def toy_block_def)
  obtain k where k: "key_aes_encrypted toy_block ?sha ?p (replicate 32 0) = Some k" "length k = 256"
    and x: "xor_block (take 32 k) (?sha (drop 32 k)) = replicate 32 0"
    by (rule key_aes_encrypted_opens[OF pair, of ?sha ?p "replicate 32 0"]) (use assms in auto)
  have "xor_block (xor_block (take 32 k) (replicate 32 0)) (replicate 32 0) = take 32 k"
    by (rule xor_block_cancel) simp
  then have "take 32 k = xor_block (replicate 32 0) (replicate 32 0)" using x by simp
  also have "\<dots> = replicate 32 0" by (simp add: xor_block_def zip_replicate)
  finally have "k = replicate 32 0 @ drop 32 k" by (metis append_take_drop_id)
  then have "be_nat k = be_nat (drop 32 k)" by (metis be_nat_zeros)
  also have "\<dots> < 256 ^ 224" using be_nat_bound[of "drop 32 k"] k(2) by simp
  also note production_n_large
  finally have "rk_n \<lparr>rk_n = decimal_value production_n, rk_e = 65537\<rparr> > from_bytes_be model_bignum k" by (simp add: model_bignum_def)
  then have "\<exists>k'. fitting_key model_bignum toy_block ?sha \<lparr>rk_n = decimal_value production_n, rk_e = 65537\<rparr> ?p (replicate 32 0) = Some k'"
    using k(1) by (subst fitting_key.simps) (simp add: not_le)
  moreover have "decimal_value production_n \<noteq> 0" using production_n_large by (rule gr_implies_not0)
  ultimately show ?thesis using assms by (auto simp: encrypt_hashed_def model_bignum_def)
qed

theorem request_recovered_witness:
  "\<exists>req s2. do_step2 zero_exchange \<lparr>s1_nonce = replicate 16 1\<rparr> sample_res (replicate 256 0) = Some (Inr (req, s2)) \<and>
     rd_fingerprint req \<in> set (rp_fingerprints sample_res) \<and> be_nat (rd_p req) * be_nat (rd_q req) = 15"
proof -
  let ?run = "do_step2 zero_exchange \<lparr>s1_nonce = replicate 16 1\<rparr> sample_res (replicate 256 0)"
  have n: "be_nat (be_bytes 8 15) = 15" by simp
  have N: "kx_num zero_exchange = model_bignum" "kx_encrypt zero_exchange = toy_block" "kx_sha256 zero_exchange = (\<lambda>m. replicate 32 0)"
    "kx_pq_inner zero_exchange = (\<lambda>d. pi_p d @ pi_q d)" by (simp_all add: zero_exchange_def sample_exchange_def)
  have fp: "find_fingerprint model_bignum (rp_fingerprints sample_res) = Some (Some (-3414540481677951611))"
    "key_for_fingerprint model_bignum (-3414540481677951611) = Some (Some \<lparr>rk_n = decimal_value production_n, rk_e = 65537\<rparr>)"
    using known_keys[OF model_bignum_laws] by (simp_all add: key_for_fingerprint_def sample_res_def)
  have l: "length (trimmed_bytes 3 @ trimmed_bytes 5) \<le> 144" using length_trimmed_bytes[of 3] length_trimmed_bytes[of 5] by simp
  obtain c where "encrypt_hashed model_bignum toy_block (\<lambda>m. replicate 32 0) (trimmed_bytes 3 @ trimmed_bytes 5)
      \<lparr>rk_n = decimal_value production_n, rk_e = 65537\<rparr> (replicate 224 0) = Some c" using zero_key_fits[OF l] by blast
  then obtain req s2 where run: "?run = Some (Inr (req, s2))"
    using fp by (auto simp: do_step2_def N sample_res_def n factor_fifteen Let_def)
  have len: "length (s1_nonce \<lparr>s1_nonce = replicate 16 (1 :: u8)\<rparr>) = 16" "length (rp_server_nonce sample_res) = 16" "length (replicate 256 (0 :: u8)) = 256"
    by (simp_all add: sample_res_def)
  show ?thesis
    using request_recovered[OF zero_exchange_laws len, of req s2] run n by (auto simp: sample_res_def)
qed

end
