(* ===== verification/Hex.thy ===== *)
theory Hex
  imports Prelude
begin

text \<open>
  Hexadecimal text, \<open>grammers-crypto/src/hex.rs\<close>. A string is the list of its UTF-8 bytes.
\<close>

section \<open>Conversions\<close>

text \<open>The format \<open>{b:02x}\<close> of the standard library: two lower-case digits.\<close>

definition hex_digit :: "nat \<Rightarrow> u8" where
  "hex_digit n = (if n < 10 then of_nat (48 + n) else of_nat (87 + n))"

definition to_hex :: "bytes \<Rightarrow> bytes" where
  "to_hex bs = concat (map (\<lambda>b. [hex_digit (unat b div 16), hex_digit (unat b mod 16)]) bs)"

definition hex_to_decimal :: "u8 \<Rightarrow> u8 option" where
  "hex_to_decimal d =
     (if 48 \<le> d \<and> d \<le> 57 then Some (d - 48)
      else if 97 \<le> d \<and> d \<le> 102 then Some (d - 97 + 10)
      else if 65 \<le> d \<and> d \<le> 70 then Some (d - 65 + 10)
      else None)"

fun hex_pairs :: "bytes \<Rightarrow> bytes option" where
  "hex_pairs (a # b # rest) =
     (case (hex_to_decimal a, hex_to_decimal b) of
        (Some h, Some l) \<Rightarrow> map_option ((#) (h * 0x10 + l)) (hex_pairs rest)
      | _ \<Rightarrow> None)"
| "hex_pairs _ = Some []"

definition opt_from_hex :: "bytes \<Rightarrow> bytes option" where
  "opt_from_hex hex = (if length hex mod 2 \<noteq> 0 then None else hex_pairs hex)"

text \<open>\<open>from_hex\<close> panics on what \<open>opt_from_hex\<close> refuses, so the model is the same function.\<close>

definition from_hex :: "bytes \<Rightarrow> bytes option" where
  "from_hex hex = opt_from_hex hex"

section \<open>Round trip\<close>

text \<open>The letters \<open>A\<close> to \<open>F\<close> in lower case.\<close>

definition lower_hex :: "u8 \<Rightarrow> u8" where
  "lower_hex d = (if 65 \<le> d \<and> d \<le> 70 then d + 32 else d)"

lemma digit_value: "n < 16 \<Longrightarrow> hex_to_decimal (hex_digit n) = Some (of_nat n)"
proof -
  have "list_all (\<lambda>n. hex_to_decimal (hex_digit n) = Some (of_nat n)) [0..<16]" by code_simp
  then show "n < 16 \<Longrightarrow> hex_to_decimal (hex_digit n) = Some (of_nat n)" by (simp add: list_all_iff)
qed

lemma byte_digits:
  "hex_to_decimal (hex_digit (unat b div 16)) = Some (b div 16)"
  "hex_to_decimal (hex_digit (unat b mod 16)) = Some (b mod 16)"
proof -
  have "unat b div 16 < 16" by (simp add: less_mult_imp_div_less)
  then show "hex_to_decimal (hex_digit (unat b div 16)) = Some (b div 16)"
    by (simp add: digit_value word_unat_eq_iff unat_div unat_of_nat)
  show "hex_to_decimal (hex_digit (unat b mod 16)) = Some (b mod 16)"
    by (simp add: digit_value word_unat_eq_iff unat_mod unat_of_nat)
qed

lemma hex_digits: "hex_to_decimal a \<noteq> None \<Longrightarrow> unat a \<in> set ([48..<58] @ [65..<71] @ [97..<103])"
  unfolding set_append set_upt by (auto simp: hex_to_decimal_def word_le_nat_alt split: if_splits)

lemma digit_back:
  assumes "hex_to_decimal a = Some h"
  shows "hex_digit (unat h) = lower_hex a" "unat h < 16"
proof -
  have "list_all (\<lambda>n. case hex_to_decimal (of_nat n) of None \<Rightarrow> True | Some h \<Rightarrow> hex_digit (unat h) = lower_hex (of_nat n) \<and> unat h < 16)
      ([48..<58] @ [65..<71] @ [97..<103])" by code_simp
  moreover have "unat a \<in> set ([48..<58] @ [65..<71] @ [97..<103])" by (rule hex_digits) (simp add: assms)
  ultimately have "case hex_to_decimal (of_nat (unat a)) of None \<Rightarrow> True | Some h \<Rightarrow> hex_digit (unat h) = lower_hex (of_nat (unat a)) \<and> unat h < 16"
    unfolding list_all_iff by blast
  then show "hex_digit (unat h) = lower_hex a" "unat h < 16" using assms by simp_all
qed

lemma hex_pairs_to_hex: "hex_pairs (to_hex bs) = Some bs"
proof (induction bs)
  case (Cons b bs)
  have "b div 16 * 16 + b mod 16 = b" by (rule div_mult_mod_eq)
  with Cons show ?case by (simp add: to_hex_def byte_digits)
qed (simp add: to_hex_def)

lemma length_to_hex: "length (to_hex bs) = 2 * length bs"
  by (induction bs) (simp_all add: to_hex_def)

lemma hex_pairs_lower: "hex_pairs hex = Some bs \<Longrightarrow> length hex mod 2 = 0 \<Longrightarrow> to_hex bs = map lower_hex hex"
proof (induction hex arbitrary: bs rule: hex_pairs.induct)
  case (1 a b rest)
  then obtain h l bs' where d: "hex_to_decimal a = Some h" "hex_to_decimal b = Some l" and r: "hex_pairs rest = Some bs'"
    and bs: "bs = (h * 16 + l) # bs'"
    by (auto split: option.splits)
  have u: "unat (h * 16 + l) = unat h * 16 + unat l"
    using digit_back(2)[OF d(1)] digit_back(2)[OF d(2)] by (simp add: unat_word_ariths)
  have q: "unat (h * 16 + l) div 16 = unat h" "unat (h * 16 + l) mod 16 = unat l"
    unfolding u using digit_back(2)[OF d(2)] by simp_all
  have "to_hex bs' = map lower_hex rest" using 1 d r by simp
  then show ?case
    using digit_back(1)[OF d(1)] digit_back(1)[OF d(2)] by (simp add: bs to_hex_def q)
qed (auto simp: to_hex_def)

lemma hex_to_decimal_lower: "hex_to_decimal (lower_hex d) = hex_to_decimal d"
proof (cases "65 \<le> d \<and> d \<le> 70")
  case True
  then have "unat d \<in> set [65..<71]" unfolding set_upt by (auto simp: word_le_nat_alt)
  moreover have "list_all (\<lambda>n. hex_to_decimal (lower_hex (of_nat n)) = hex_to_decimal (of_nat n)) [65..<71]" by code_simp
  ultimately have "hex_to_decimal (lower_hex (of_nat (unat d))) = hex_to_decimal (of_nat (unat d))"
    unfolding list_all_iff by blast
  then show ?thesis by simp
qed (auto simp: lower_hex_def)

lemma hex_pairs_map_lower: "hex_pairs (map lower_hex hex) = hex_pairs hex"
  by (induction hex rule: hex_pairs.induct) (simp_all add: hex_to_decimal_lower split: option.split)

text \<open>
  Hexadecimal text and bytes correspond. Bytes survive printing and reading, and a text is read as
  some bytes exactly when it is their printed form, up to the case of the letters.
\<close>

theorem hex_roundtrip: "opt_from_hex hex = Some bs \<longleftrightarrow> to_hex bs = map lower_hex hex"
proof
  assume "opt_from_hex hex = Some bs"
  then show "to_hex bs = map lower_hex hex" by (auto simp: opt_from_hex_def hex_pairs_lower split: if_splits)
next
  assume r: "to_hex bs = map lower_hex hex"
  then have "length hex = 2 * length bs" by (metis length_map length_to_hex)
  moreover have "hex_pairs hex = Some bs" by (metis r hex_pairs_map_lower hex_pairs_to_hex)
  ultimately show "opt_from_hex hex = Some bs" by (simp add: opt_from_hex_def)
qed

end
