(* ===== verification/Peers.thy ===== *)
theory Peers
  imports Mb_Defs
begin

text \<open>
  Peer identifiers and what a session knows of a peer, \<open>grammers-session/src/peer.rs\<close>: the
  packed identifier \<open>PeerId\<close> with its ranges, the authority \<open>PeerAuth\<close>, the cached \<open>PeerInfo\<close>
  and its merge, and the conversions between them and the types of the schema. Identifiers are
  \<open>i64\<close> values written as integers; the two computations that may leave the range wrap around
  explicitly. A panic is \<open>None\<close>. A \<open>debug_assert!\<close> panics only in a build with debug
  assertions, which the flag \<open>dbg\<close> says. Of the schema's users, chats and channels only the
  fields these conversions read are kept.
\<close>

section \<open>Identifiers\<close>

type_synonym peer_id = int
type_synonym peer_auth = int

datatype peer_kind = KUser | KChat | KChannel

record peer_ref =
  ref_id :: peer_id
  ref_auth :: peer_auth

definition SELF_USER_ID :: peer_id where
  "SELF_USER_ID = 1099511627776"

definition EMPTY_CHAT_ID :: int where
  "EMPTY_CHAT_ID = - 1000000000000"

definition USER_ID_RANGE :: "int \<Rightarrow> bool" where
  "USER_ID_RANGE x \<longleftrightarrow> 1 \<le> x \<and> x \<le> 0xffffffffff"

definition CHAT_ID_RANGE :: "int \<Rightarrow> bool" where
  "CHAT_ID_RANGE x \<longleftrightarrow> 1 \<le> x \<and> x \<le> 999999999999"

definition SUPERGROUP_AND_CHANNEL_ID_RANGE :: "int \<Rightarrow> bool" where
  "SUPERGROUP_AND_CHANNEL_ID_RANGE x \<longleftrightarrow> 1 \<le> x \<and> x \<le> 997852516352"

definition MONOFORUM_ID_RANGE :: "int \<Rightarrow> bool" where
  "MONOFORUM_ID_RANGE x \<longleftrightarrow> 1002147483649 \<le> x \<and> x \<le> 3000000000000"

text \<open>The value an \<open>i64\<close> computation leaves when overflow is not checked.\<close>
definition wrap_i64 :: "int \<Rightarrow> int" where
  "wrap_i64 x = (x + 2 ^ 63) mod 2 ^ 64 - 2 ^ 63"

definition pid_self_user :: peer_id where
  "pid_self_user = SELF_USER_ID"

definition pid_user :: "int \<Rightarrow> peer_id option" where
  "pid_user b = (if USER_ID_RANGE b then Some b else None)"

definition pid_chat :: "int \<Rightarrow> peer_id option" where
  "pid_chat b = (if CHAT_ID_RANGE b then Some (- b) else None)"

definition pid_channel :: "int \<Rightarrow> peer_id option" where
  "pid_channel b =
     (if SUPERGROUP_AND_CHANNEL_ID_RANGE b \<or> MONOFORUM_ID_RANGE b
      then Some (- (1000000000000 + b)) else None)"

definition pid_from_bot_api_dialog_id :: "int \<Rightarrow> peer_id option" where
  "pid_from_bot_api_dialog_id d =
     (if (1 \<le> d \<and> d \<le> 0xffffffffff)
       \<or> (- 999999999999 \<le> d \<and> d \<le> - 1)
       \<or> (- 1997852516352 \<le> d \<and> d \<le> - 1000000000001)
       \<or> (- 4000000000000 \<le> d \<and> d \<le> - 2002147483649)
      then Some d else None)"

definition pid_user_unchecked :: "bool \<Rightarrow> int \<Rightarrow> peer_id option" where
  "pid_user_unchecked dbg b = (if dbg \<and> \<not> USER_ID_RANGE b then None else Some b)"

definition pid_chat_unchecked :: "bool \<Rightarrow> int \<Rightarrow> peer_id option" where
  "pid_chat_unchecked dbg b =
     (if dbg \<and> \<not> CHAT_ID_RANGE b then None else Some (wrap_i64 (- b)))"

definition pid_channel_unchecked :: "bool \<Rightarrow> int \<Rightarrow> peer_id option" where
  "pid_channel_unchecked dbg b =
     (if dbg \<and> \<not> (SUPERGROUP_AND_CHANNEL_ID_RANGE b \<or> MONOFORUM_ID_RANGE b) then None
      else Some (wrap_i64 (- wrap_i64 (1000000000000 + b))))"

definition pid_kind :: "peer_id \<Rightarrow> peer_kind option" where
  "pid_kind p =
     (if 1 \<le> p \<and> p \<le> 0xffffffffff \<or> p = SELF_USER_ID then Some KUser
      else if - 999999999999 \<le> p \<and> p \<le> - 1 then Some KChat
      else if (- 1997852516352 \<le> p \<and> p \<le> - 1000000000001)
              \<or> (- 4000000000000 \<le> p \<and> p \<le> - 2002147483649) then Some KChannel
      else None)"

definition pid_bot_api_dialog_id :: "peer_id \<Rightarrow> int option" where
  "pid_bot_api_dialog_id p = (if p \<noteq> SELF_USER_ID then Some p else None)"

definition pid_bot_api_dialog_id_unchecked :: "bool \<Rightarrow> peer_id \<Rightarrow> int option" where
  "pid_bot_api_dialog_id_unchecked dbg p = (if dbg \<and> p = SELF_USER_ID then None else Some p)"

fun bare_of_kind :: "peer_kind \<Rightarrow> peer_id \<Rightarrow> int" where
  "bare_of_kind KUser p = p"
| "bare_of_kind KChat p = - p"
| "bare_of_kind KChannel p = - p - 1000000000000"

text \<open>The outer option is the panic of \<open>kind\<close>, the inner one the result.\<close>
definition pid_bare_id :: "peer_id \<Rightarrow> int option option" where
  "pid_bare_id p =
     (if p = SELF_USER_ID then Some None
      else do { k \<leftarrow> pid_kind p; Some (Some (bare_of_kind k p)) })"

definition pid_bare_id_unchecked :: "bool \<Rightarrow> peer_id \<Rightarrow> int option" where
  "pid_bare_id_unchecked dbg p =
     (if dbg \<and> p = SELF_USER_ID then None
      else do { k \<leftarrow> pid_kind p; Some (bare_of_kind k p) })"

definition auth_default :: peer_auth where
  "auth_default = 0"

definition to_ambient_ref :: "peer_id \<Rightarrow> peer_ref" where
  "to_ambient_ref p = \<lparr>ref_id = p, ref_auth = auth_default\<rparr>"

section \<open>What is known of a peer\<close>

datatype channel_kind = Broadcast | Megagroup | Gigagroup | Community

datatype peer_info =
    InfoUser int "peer_auth option" "bool option" "bool option"
  | InfoChat int
  | InfoChannel int "peer_auth option" "channel_kind option"

fun info_id :: "bool \<Rightarrow> peer_info \<Rightarrow> peer_id option" where
  "info_id dbg (InfoUser i a b s) = pid_user_unchecked dbg i"
| "info_id dbg (InfoChat i) = pid_chat_unchecked dbg i"
| "info_id dbg (InfoChannel i a k) = pid_channel_unchecked dbg i"

fun info_auth :: "peer_info \<Rightarrow> peer_auth option" where
  "info_auth (InfoUser i a b s) = a"
| "info_auth (InfoChat i) = Some auth_default"
| "info_auth (InfoChannel i a k) = a"

text \<open>\<open>Option::or\<close>.\<close>
fun opt_or :: "'a option \<Rightarrow> 'a option \<Rightarrow> 'a option" where
  "opt_or (Some x) y = Some x"
| "opt_or None y = y"

text \<open>The flag returned, and the receiver afterwards.\<close>
fun extend_info :: "peer_info \<Rightarrow> peer_info \<Rightarrow> bool \<times> peer_info" where
  "extend_info (InfoUser i a b s) (InfoUser i' a' b' s') =
     (if i = i' then (True, InfoUser i (opt_or a' a) (opt_or b' b) (opt_or s' s))
      else (False, InfoUser i a b s))"
| "extend_info (InfoChat i) (InfoChat i') = (i = i', InfoChat i)"
| "extend_info (InfoChannel i a k) (InfoChannel i' a' k') =
     (if i = i' then (True, InfoChannel i (opt_or a' a) (opt_or k' k))
      else (False, InfoChannel i a k))"
| "extend_info p q = (False, p)"

text \<open>The receiver after \<open>extend_info\<close>, the way the storages use it.\<close>
abbreviation merge_info :: "peer_info \<Rightarrow> peer_info \<Rightarrow> peer_info" where
  "merge_info p q \<equiv> snd (extend_info p q)"

section \<open>Conversions\<close>

fun pid_of_peer :: "bool \<Rightarrow> peer \<Rightarrow> peer_id option" where
  "pid_of_peer dbg (PeerUser u) = pid_user_unchecked dbg u"
| "pid_of_peer dbg (PeerChat c) = pid_chat_unchecked dbg c"
| "pid_of_peer dbg (PeerChannel c) = pid_channel_unchecked dbg c"

definition mk_ref :: "peer_id option \<Rightarrow> peer_auth \<Rightarrow> peer_ref option" where
  "mk_ref p a = map_option (\<lambda>i. \<lparr>ref_id = i, ref_auth = a\<rparr>) p"

fun ref_of_input_peer :: "bool \<Rightarrow> input_peer \<Rightarrow> peer_ref option" where
  "ref_of_input_peer dbg InputPeerEmpty = None"
| "ref_of_input_peer dbg InputPeerSelf = Some \<lparr>ref_id = SELF_USER_ID, ref_auth = auth_default\<rparr>"
| "ref_of_input_peer dbg (InputPeerUser u h) = mk_ref (pid_user_unchecked dbg u) h"
| "ref_of_input_peer dbg (InputPeerChat c) = mk_ref (pid_chat_unchecked dbg c) auth_default"
| "ref_of_input_peer dbg (InputPeerChannel c h) = mk_ref (pid_channel_unchecked dbg c) h"
| "ref_of_input_peer dbg (InputPeerUserFromMessage p m u) = mk_ref (pid_user_unchecked dbg u) auth_default"
| "ref_of_input_peer dbg (InputPeerChannelFromMessage p m c) = mk_ref (pid_channel_unchecked dbg c) auth_default"

record tl_user_full =
  user_id :: int
  user_access_hash :: "int option"
  user_min :: bool
  user_bot :: bool
  user_is_self :: bool

datatype tl_user = UserEmpty int | User tl_user_full

record tl_channel =
  channel_id :: int
  channel_access_hash :: "int option"
  channel_min :: bool
  channel_broadcast :: bool
  channel_megagroup :: bool
  channel_gigagroup :: bool

record tl_channel_forbidden =
  forbidden_id :: int
  forbidden_access_hash :: int
  forbidden_broadcast :: bool
  forbidden_megagroup :: bool

record tl_community =
  community_id :: int
  community_access_hash :: "int option"
  community_min :: bool

datatype tl_chat =
    ChatEmpty int
  | Chat int
  | ChatForbidden int
  | ChatChannel tl_channel
  | ChatChannelForbidden tl_channel_forbidden
  | ChatCommunityForbidden int "int option"
  | ChatCommunity tl_community

fun unwrap_or_default :: "peer_auth option \<Rightarrow> peer_auth" where
  "unwrap_or_default (Some h) = h"
| "unwrap_or_default None = auth_default"

fun ref_of_user :: "bool \<Rightarrow> tl_user \<Rightarrow> peer_ref option" where
  "ref_of_user dbg (UserEmpty i) = mk_ref (pid_user_unchecked dbg i) auth_default"
| "ref_of_user dbg (User u) =
     mk_ref (pid_user_unchecked dbg (user_id u)) (unwrap_or_default (user_access_hash u))"

fun ref_of_chat :: "bool \<Rightarrow> tl_chat \<Rightarrow> peer_ref option" where
  "ref_of_chat dbg (ChatEmpty i) = mk_ref (pid_chat_unchecked dbg i) auth_default"
| "ref_of_chat dbg (Chat i) = mk_ref (pid_chat_unchecked dbg i) auth_default"
| "ref_of_chat dbg (ChatForbidden i) = mk_ref (pid_chat_unchecked dbg i) auth_default"
| "ref_of_chat dbg (ChatChannel c) =
     mk_ref (pid_channel_unchecked dbg (channel_id c)) (unwrap_or_default (channel_access_hash c))"
| "ref_of_chat dbg (ChatChannelForbidden c) =
     mk_ref (pid_channel_unchecked dbg (forbidden_id c)) (forbidden_access_hash c)"
| "ref_of_chat dbg (ChatCommunityForbidden i h) =
     mk_ref (pid_channel_unchecked dbg i) (unwrap_or_default h)"
| "ref_of_chat dbg (ChatCommunity c) =
     mk_ref (pid_channel_unchecked dbg (community_id c)) (unwrap_or_default (community_access_hash c))"

definition peer_of_pid :: "bool \<Rightarrow> peer_id \<Rightarrow> peer option" where
  "peer_of_pid dbg p = do {
     k \<leftarrow> pid_kind p;
     b \<leftarrow> pid_bare_id_unchecked dbg p;
     Some (case k of KUser \<Rightarrow> PeerUser b | KChat \<Rightarrow> PeerChat b | KChannel \<Rightarrow> PeerChannel b)
   }"

definition input_peer_of_ref :: "bool \<Rightarrow> peer_ref \<Rightarrow> input_peer option" where
  "input_peer_of_ref dbg r = do {
     k \<leftarrow> pid_kind (ref_id r);
     case k of
       KUser \<Rightarrow> do {
         b \<leftarrow> pid_bare_id (ref_id r);
         Some (case b of Some u \<Rightarrow> InputPeerUser u (ref_auth r) | None \<Rightarrow> InputPeerSelf)
       }
     | KChat \<Rightarrow> map_option InputPeerChat (pid_bare_id_unchecked dbg (ref_id r))
     | KChannel \<Rightarrow> map_option (\<lambda>c. InputPeerChannel c (ref_auth r)) (pid_bare_id_unchecked dbg (ref_id r))
   }"

datatype input_user = InputUserEmpty | InputUserSelf | InputUser int int

definition input_user_of_ref :: "peer_ref \<Rightarrow> input_user option" where
  "input_user_of_ref r = do {
     k \<leftarrow> pid_kind (ref_id r);
     case k of
       KUser \<Rightarrow> do {
         b \<leftarrow> pid_bare_id (ref_id r);
         Some (case b of Some u \<Rightarrow> InputUser u (ref_auth r) | None \<Rightarrow> InputUserSelf)
       }
     | KChat \<Rightarrow> Some InputUserEmpty
     | KChannel \<Rightarrow> Some InputUserEmpty
   }"

definition chat_id_of_ref :: "bool \<Rightarrow> peer_ref \<Rightarrow> int option" where
  "chat_id_of_ref dbg r = do {
     k \<leftarrow> pid_kind (ref_id r);
     case k of
       KUser \<Rightarrow> Some EMPTY_CHAT_ID
     | KChat \<Rightarrow> pid_bare_id_unchecked dbg (ref_id r)
     | KChannel \<Rightarrow> Some EMPTY_CHAT_ID
   }"

datatype input_channel = InputChannelEmpty | InputChannel int int

definition input_channel_of_ref :: "bool \<Rightarrow> peer_ref \<Rightarrow> input_channel option" where
  "input_channel_of_ref dbg r = do {
     k \<leftarrow> pid_kind (ref_id r);
     case k of
       KUser \<Rightarrow> Some InputChannelEmpty
     | KChat \<Rightarrow> Some InputChannelEmpty
     | KChannel \<Rightarrow> map_option (\<lambda>c. InputChannel c (ref_auth r)) (pid_bare_id_unchecked dbg (ref_id r))
   }"

definition kind_of_channel :: "tl_channel \<Rightarrow> channel_kind option" where
  "kind_of_channel c =
     (if channel_gigagroup c then Some Gigagroup
      else if channel_broadcast c then Some Broadcast
      else if channel_megagroup c then Some Megagroup
      else None)"

definition kind_of_forbidden :: "tl_channel_forbidden \<Rightarrow> channel_kind option" where
  "kind_of_forbidden c =
     (if forbidden_broadcast c then Some Broadcast
      else if forbidden_megagroup c then Some Megagroup
      else None)"

text \<open>\<open>access_hash.map(PeerAuth).filter(|_| !min)\<close>: a minimal constructor carries no authority.\<close>
definition full_auth :: "int option \<Rightarrow> bool \<Rightarrow> peer_auth option" where
  "full_auth h minimal = (if minimal then None else h)"

fun info_of_user :: "tl_user \<Rightarrow> peer_info" where
  "info_of_user (User u) =
     InfoUser (user_id u) (full_auth (user_access_hash u) (user_min u))
       (Some (user_bot u)) (Some (user_is_self u))"
| "info_of_user (UserEmpty i) = InfoUser i None None None"

fun info_of_chat :: "tl_chat \<Rightarrow> peer_info" where
  "info_of_chat (Chat i) = InfoChat i"
| "info_of_chat (ChatEmpty i) = InfoChat i"
| "info_of_chat (ChatForbidden i) = InfoChat i"
| "info_of_chat (ChatChannel c) =
     InfoChannel (channel_id c) (full_auth (channel_access_hash c) (channel_min c)) (kind_of_channel c)"
| "info_of_chat (ChatChannelForbidden c) =
     InfoChannel (forbidden_id c) (Some (forbidden_access_hash c)) (kind_of_forbidden c)"
| "info_of_chat (ChatCommunityForbidden i h) = InfoChannel i h (Some Community)"
| "info_of_chat (ChatCommunity c) =
     InfoChannel (community_id c) (full_auth (community_access_hash c) (community_min c)) (Some Community)"

section \<open>Identifiers are typed\<close>

lemmas pid_defs =
  pid_user_def pid_chat_def pid_channel_def pid_kind_def pid_bare_id_def
  pid_bot_api_dialog_id_def pid_from_bot_api_dialog_id_def SELF_USER_ID_def USER_ID_RANGE_def
  CHAT_ID_RANGE_def SUPERGROUP_AND_CHANNEL_ID_RANGE_def MONOFORUM_ID_RANGE_def

text \<open>The checked constructor of each kind.\<close>
fun pid_of_kind :: "peer_kind \<Rightarrow> int \<Rightarrow> peer_id option" where
  "pid_of_kind KUser b = pid_user b"
| "pid_of_kind KChat b = pid_chat b"
| "pid_of_kind KChannel b = pid_channel b"

lemma wrap_i64_exact [simp]: "- (2 ^ 63) \<le> x \<Longrightarrow> x < 2 ^ 63 \<Longrightarrow> wrap_i64 x = x"
  by (simp add: wrap_i64_def)

lemma pid_kind_total: "pid_kind p \<noteq> None \<longleftrightarrow> p = SELF_USER_ID \<or> pid_from_bot_api_dialog_id p = Some p"
  by (auto simp: pid_defs)

lemma pid_kind_self [simp]: "pid_kind SELF_USER_ID = Some KUser"
  by (simp add: pid_kind_def)

lemma pid_of_kind_iff:
  "pid_of_kind k b = Some p \<longleftrightarrow> p \<noteq> SELF_USER_ID \<and> pid_kind p = Some k \<and> b = bare_of_kind k p"
  by (cases k) (auto simp: pid_defs split: if_splits)

lemma pid_of_kind_not_self [simp]: "pid_of_kind k b \<noteq> Some SELF_USER_ID"
  by (simp add: pid_of_kind_iff)

lemma pid_unchecked_agree:
  "pid_user b = Some p \<Longrightarrow> pid_user_unchecked dbg b = Some p"
  "pid_chat b = Some p \<Longrightarrow> pid_chat_unchecked dbg b = Some p"
  "pid_channel b = Some p \<Longrightarrow> pid_channel_unchecked dbg b = Some p"
  by (auto simp: pid_defs pid_user_unchecked_def pid_chat_unchecked_def pid_channel_unchecked_def
      split: if_splits)

lemma pid_debug_checks:
  "pid_user_unchecked True b = pid_user b"
  "pid_chat_unchecked True b = pid_chat b"
  "pid_channel_unchecked True b = pid_channel b"
  by (auto simp: pid_defs pid_user_unchecked_def pid_chat_unchecked_def pid_channel_unchecked_def
      split: if_splits)

text \<open>
  C26: the packed identifier is a bijection: the checked constructor of a kind returns \<open>p\<close> for a
  bare identifier exactly when \<open>p\<close> is an identifier the dialog constructor accepts, of that kind
  and with that bare identifier. So \<open>kind\<close> and \<open>bare_id\<close> never reach their \<open>unreachable!\<close> on
  a constructed identifier, no two peers share one, and none collides with the self user's.
\<close>
theorem peer_id_typed:
  "pid_of_kind k b = Some p \<longleftrightarrow>
     pid_from_bot_api_dialog_id p = Some p \<and> pid_bot_api_dialog_id p = Some p \<and>
     pid_kind p = Some k \<and> pid_bare_id p = Some (Some b)"
proof -
  have "pid_from_bot_api_dialog_id p = Some p" if "pid_kind p = Some k" "p \<noteq> SELF_USER_ID"
    using that pid_kind_total[of p] by simp
  then show ?thesis
    unfolding pid_of_kind_iff
    by (auto simp: pid_bare_id_def pid_bot_api_dialog_id_def split: if_splits Option.bind_splits)
qed

text \<open>The message boxes track exactly the channels that have an identifier.\<close>
lemma valid_channel_pid: "valid_channel c \<longleftrightarrow> pid_channel c \<noteq> None"
  by (auto simp: valid_channel_def pid_defs)

section \<open>Conversions to the schema and back\<close>

text \<open>References whose authority is one the schema's type of the peer can carry.\<close>
definition ref_ok :: "peer_ref \<Rightarrow> bool" where
  "ref_ok r \<longleftrightarrow> pid_kind (ref_id r) \<noteq> None \<and>
     (ref_id r = SELF_USER_ID \<or> pid_kind (ref_id r) = Some KChat \<longrightarrow> ref_auth r = auth_default)"

fun peer_bare :: "peer \<Rightarrow> peer_kind \<times> int" where
  "peer_bare (PeerUser u) = (KUser, u)"
| "peer_bare (PeerChat c) = (KChat, c)"
| "peer_bare (PeerChannel c) = (KChannel, c)"

lemma pid_of_peer_checked: "pid_of_peer True q = (case peer_bare q of (k, b) \<Rightarrow> pid_of_kind k b)"
  by (cases q) (simp_all add: pid_debug_checks)

lemma pid_bare_unchecked_of_kind:
  "pid_of_kind k b = Some p \<Longrightarrow> pid_bare_id_unchecked dbg p = Some b"
  by (simp add: pid_of_kind_iff pid_bare_id_unchecked_def)

lemma pid_kind_cases:
  assumes "pid_kind p = Some k"
  obtains "p = SELF_USER_ID" "k = KUser" | b where "pid_of_kind k b = Some p"
  using assms by (cases "p = SELF_USER_ID") (auto simp: pid_of_kind_iff)

lemma unchecked_of_kind:
  "pid_of_kind k b = Some p \<Longrightarrow>
     (case k of KUser \<Rightarrow> pid_user_unchecked dbg b | KChat \<Rightarrow> pid_chat_unchecked dbg b
              | KChannel \<Rightarrow> pid_channel_unchecked dbg b) = Some p"
  by (cases k) (simp_all add: pid_unchecked_agree)

lemma peer_of_pid_roundtrip:
  assumes "pid_of_peer True q = Some p"
  shows "peer_of_pid dbg p = Some q" "pid_of_peer dbg q = Some p"
proof -
  obtain k b where q: "peer_bare q = (k, b)" by fastforce
  with assms have k: "pid_of_kind k b = Some p" by (simp add: pid_of_peer_checked)
  then have kind: "pid_kind p = Some k" by (simp add: pid_of_kind_iff)
  show "peer_of_pid dbg p = Some q"
    using q kind pid_bare_unchecked_of_kind[OF k] by (cases q) (auto simp: peer_of_pid_def)
  show "pid_of_peer dbg q = Some p"
    using q unchecked_of_kind[OF k, of dbg] by (cases q) auto
qed

text \<open>
  A reference converted to an \<open>InputPeer\<close> and back is the same reference, in every build,
  whenever its identifier is valid and its authority is one the schema can express (chats and
  the self user have none).
\<close>
theorem input_peer_roundtrip:
  assumes "ref_ok r"
  shows "Option.bind (input_peer_of_ref dbg r) (ref_of_input_peer dbg') = Some r"
proof -
  from assms obtain k where k: "pid_kind (ref_id r) = Some k" by (auto simp: ref_ok_def)
  then show ?thesis
  proof (cases rule: pid_kind_cases)
    case 1
    with assms show ?thesis
      by (auto simp: input_peer_of_ref_def ref_ok_def pid_bare_id_def)
  next
    case (2 b)
    note u = unchecked_of_kind[OF 2, of dbg'] pid_bare_unchecked_of_kind[OF 2, of dbg]
    have "pid_bare_id (ref_id r) = Some (Some b)" using 2 by (simp add: pid_bare_id_def pid_of_kind_iff)
    with u k assms show ?thesis
      by (cases k) (auto simp: input_peer_of_ref_def mk_ref_def ref_ok_def)
  qed
qed

theorem input_peer_roundtrip_witness:
  "Option.bind (input_peer_of_ref False \<lparr>ref_id = - 1000000000007, ref_auth = 99\<rparr>) (ref_of_input_peer True)
     = Some \<lparr>ref_id = - 1000000000007, ref_auth = 99\<rparr>"
  by (rule input_peer_roundtrip) (simp add: ref_ok_def pid_kind_def SELF_USER_ID_def)

section \<open>Merging what is known\<close>

text \<open>
  The facts a record of a peer carries, as a partial map: merging is then map override, which is
  the contract the storages rely on.
\<close>

datatype fact = FAuth | FBot | FSelf | FKind

datatype fact_value = VAuth peer_auth | VFlag bool | VKind channel_kind

fun facts :: "peer_info \<Rightarrow> fact \<Rightarrow> fact_value option" where
  "facts (InfoUser i a b s) f =
     (case f of FAuth \<Rightarrow> map_option VAuth a | FBot \<Rightarrow> map_option VFlag b
              | FSelf \<Rightarrow> map_option VFlag s | FKind \<Rightarrow> None)"
| "facts (InfoChat i) f = None"
| "facts (InfoChannel i a k) f =
     (case f of FAuth \<Rightarrow> map_option VAuth a | FKind \<Rightarrow> map_option VKind k | _ \<Rightarrow> None)"

fun bare_info :: "peer_info \<Rightarrow> peer_kind \<times> int" where
  "bare_info (InfoUser i a b s) = (KUser, i)"
| "bare_info (InfoChat i) = (KChat, i)"
| "bare_info (InfoChannel i a k) = (KChannel, i)"

lemma opt_or_map: "map_option g (opt_or x y) = opt_or (map_option g x) (map_option g y)"
  by (cases x) auto

lemma map_add_opt_or: "(m ++ n) f = opt_or (n f) (m f)"
  by (cases "n f") (auto simp: map_add_def)

lemma info_ext: "bare_info p = bare_info q \<Longrightarrow> facts p = facts q \<Longrightarrow> p = q"
proof -
  assume b: "bare_info p = bare_info q" and "facts p = facts q"
  then have "facts p f = facts q f" for f by simp
  note f = this[of FAuth] this[of FBot] this[of FSelf] this[of FKind]
  have inj: "map_option VAuth x = map_option VAuth y \<longleftrightarrow> x = y" "map_option VFlag u = map_option VFlag v \<longleftrightarrow> u = v"
    "map_option VKind c = map_option VKind d \<longleftrightarrow> c = d" for x y u v c d
    by (auto elim: option.inj_map_strong[rotated])
  show "p = q" using b f by (cases p; cases q) (auto simp: inj)
qed

lemma extend_flag: "fst (extend_info p q) \<longleftrightarrow> bare_info p = bare_info q"
  by (cases p; cases q) auto

lemma merge_bare [simp]: "bare_info (merge_info p q) = bare_info p"
  by (cases p; cases q) auto

lemma merge_other: "bare_info p \<noteq> bare_info q \<Longrightarrow> merge_info p q = p"
  by (cases p; cases q) auto

lemma merge_facts: "bare_info p = bare_info q \<Longrightarrow> facts (merge_info p q) = facts p ++ facts q"
proof (rule ext)
  fix f
  assume "bare_info p = bare_info q"
  then show "facts (merge_info p q) f = (facts p ++ facts q) f"
    by (cases p; cases q; cases f) (auto simp: opt_or_map map_add_opt_or)
qed

lemma map_add_self [simp]: "m ++ m = m"
  by (rule ext) (simp add: map_add_def split: option.splits)

lemma merge_idem: "merge_info p p = p"
  by (rule info_ext) (simp_all add: merge_facts)

lemma merge_assoc:
  "bare_info q = bare_info r \<Longrightarrow> merge_info (merge_info p q) r = merge_info p (merge_info q r)"
proof (cases "bare_info p = bare_info q")
  case True
  assume "bare_info q = bare_info r"
  with True show ?thesis by (intro info_ext) (simp_all add: merge_facts)
next
  case False
  assume "bare_info q = bare_info r"
  with False show ?thesis by (simp add: merge_other)
qed

lemma info_id_bare:
  "info_id dbg p = (case bare_info p of (KUser, b) \<Rightarrow> pid_user_unchecked dbg b
     | (KChat, b) \<Rightarrow> pid_chat_unchecked dbg b | (KChannel, b) \<Rightarrow> pid_channel_unchecked dbg b)"
  by (cases p) simp_all

lemma info_id_merge [simp]: "info_id dbg (merge_info p q) = info_id dbg p"
  by (simp add: info_id_bare)

lemma info_id_checked: "info_id True p = (case bare_info p of (k, b) \<Rightarrow> pid_of_kind k b)"
  by (cases p) (simp_all add: pid_debug_checks)

text \<open>A record whose identifier passes the debug assertions.\<close>
definition info_ok :: "peer_info \<Rightarrow> bool" where
  "info_ok p \<longleftrightarrow> info_id True p \<noteq> None"

definition the_id :: "peer_info \<Rightarrow> peer_id" where
  "the_id p = (case info_id True p of Some i \<Rightarrow> i | None \<Rightarrow> 0)"

lemma info_ok_id: "info_ok p \<Longrightarrow> info_id dbg p = Some (the_id p)"
proof -
  assume "info_ok p"
  then obtain k b where b: "bare_info p = (k, b)" and k: "pid_of_kind k b = Some (the_id p)"
    by (cases "bare_info p") (auto simp: info_ok_def the_id_def info_id_checked)
  show ?thesis using unchecked_of_kind[OF k, of dbg] b by (cases k) (auto simp: info_id_bare)
qed

lemma info_ok_of_kind: "info_ok p \<Longrightarrow> pid_of_kind (fst (bare_info p)) (snd (bare_info p)) = Some (the_id p)"
  by (auto simp: info_ok_def the_id_def info_id_checked split_beta)

lemma info_ok_kind:
  assumes "info_ok p"
  shows "the_id p \<noteq> SELF_USER_ID" "pid_kind (the_id p) = Some (fst (bare_info p))"
    "bare_of_kind (fst (bare_info p)) (the_id p) = snd (bare_info p)"
  using info_ok_of_kind[OF assms] by (simp_all add: pid_of_kind_iff)

lemma the_id_eq: "info_ok p \<Longrightarrow> info_ok q \<Longrightarrow> the_id p = the_id q \<longleftrightarrow> bare_info p = bare_info q"
proof -
  assume "info_ok p" "info_ok q"
  note k = info_ok_kind[OF \<open>info_ok p\<close>] info_ok_kind[OF \<open>info_ok q\<close>]
  have "bare_info p = bare_info q" if "the_id p = the_id q"
    using k that by (simp add: prod_eq_iff)
  then show ?thesis by (auto simp: the_id_def info_id_checked)
qed

lemma merge_ok [simp]: "info_ok (merge_info p q) = info_ok p" "the_id (merge_info p q) = the_id p"
  by (simp_all add: info_ok_def the_id_def)

text \<open>
  C27: merging what a session knows of a peer with newer information. The flag says whether both
  describe the same peer (type and bare identifier); if not, nothing changes; if so, the facts
  afterwards are the old ones overridden by the new, so no known fact is erased by a missing one,
  and the identity stays. Merging the same information again
  changes nothing.
\<close>
theorem extend_info_overrides:
  "(case extend_info p q of (same, p') \<Rightarrow>
      (same \<longleftrightarrow> bare_info p = bare_info q)
      \<and> bare_info p' = bare_info p
      \<and> facts p' = (if same then facts p ++ facts q else facts p)
      \<and> extend_info p' q = (same, p'))"
proof -
  have "merge_info (merge_info p q) q = merge_info p q" by (simp add: merge_assoc merge_idem)
  then have "extend_info (merge_info p q) q = (fst (extend_info p q), merge_info p q)"
    by (simp add: prod_eq_iff extend_flag)
  moreover have "facts (merge_info p q) = (if fst (extend_info p q) then facts p ++ facts q else facts p)"
    by (simp add: extend_flag merge_facts merge_other)
  ultimately show ?thesis
    using extend_flag[of p q] merge_bare[of p q] by (simp add: split_beta)
qed

text \<open>
  A minimal constructor never replaces an authority a session already has, whatever hash it
  carries.
\<close>
lemma min_user_keeps_auth:
  assumes "user_min u" "bare_info p = (KUser, user_id u)"
  shows "info_auth (merge_info p (info_of_user (User u))) = info_auth p"
  using assms by (cases p) (auto simp: full_auth_def)

end
