(* ===== verification/Sessions.thy ===== *)
theory Sessions
  imports Peers Big_Numbers
begin

text \<open>
  The interface of the session storages: the data they keep (\<open>types.rs\<close>, \<open>dc_options.rs\<close>,
  \<open>session_data.rs\<close> of \<open>grammers-session/src\<close>), the trait \<open>Session\<close> of \<open>session.rs\<close> as a
  record of operations with its default methods, the type-erased wrapper of
  \<open>storages/erased.rs\<close>, and the import of session data into any storage. The locale
  \<open>session_contract\<close> states what the documentation of the trait promises, as operations on an
  abstract view; a storage interprets it.
\<close>

section \<open>Datacenter options\<close>

text \<open>Addresses are their numeric value, whose big-endian bytes are the octets.\<close>

type_synonym u16 = "16 word"

record sock4 =
  ip4 :: "32 word"
  port4 :: u16

record sock6 =
  ip6 :: "128 word"
  port6 :: u16
  flowinfo :: u32
  scope_id :: u32

record dc_option =
  dc_id :: int
  dc_ipv4 :: sock4
  dc_ipv6 :: sock6
  dc_auth_key :: "bytes option"

definition DEFAULT_DC :: int where
  "DEFAULT_DC = 2"

definition ip4_of :: "bytes \<Rightarrow> 32 word" where
  "ip4_of octets = of_nat (be_nat octets)"

text \<open>\<open>Ipv6Addr::new\<close> on the eight 16-bit segments.\<close>
definition ip6_of :: "nat list \<Rightarrow> 128 word" where
  "ip6_of segments = of_nat (foldl (\<lambda>acc s. acc * 65536 + s) 0 segments)"

definition ipv4 :: "u8 \<Rightarrow> u8 \<Rightarrow> u8 \<Rightarrow> u8 \<Rightarrow> sock4" where
  "ipv4 a b c d = \<lparr>ip4 = ip4_of [a, b, c, d], port4 = 443\<rparr>"

definition ipv6 :: "nat list \<Rightarrow> sock6" where
  "ipv6 segments = \<lparr>ip6 = ip6_of segments, port6 = 443, flowinfo = 0, scope_id = 0\<rparr>"

definition KNOWN_DC_OPTIONS :: "dc_option list" where
  "KNOWN_DC_OPTIONS =
    [\<lparr>dc_id = 1, dc_ipv4 = ipv4 149 154 175 53,
      dc_ipv6 = ipv6 [0x2001, 0xb28, 0xf23d, 0xf001, 0, 0, 0, 0xa], dc_auth_key = None\<rparr>,
     \<lparr>dc_id = 2, dc_ipv4 = ipv4 149 154 167 41,
      dc_ipv6 = ipv6 [0x2001, 0x67c, 0x4e8, 0xf002, 0, 0, 0, 0xa], dc_auth_key = None\<rparr>,
     \<lparr>dc_id = 3, dc_ipv4 = ipv4 149 154 175 100,
      dc_ipv6 = ipv6 [0x2001, 0xb28, 0xf23d, 0xf003, 0, 0, 0, 0xa], dc_auth_key = None\<rparr>,
     \<lparr>dc_id = 4, dc_ipv4 = ipv4 149 154 167 92,
      dc_ipv6 = ipv6 [0x2001, 0x67c, 0x4e8, 0xf004, 0, 0, 0, 0xa], dc_auth_key = None\<rparr>,
     \<lparr>dc_id = 5, dc_ipv4 = ipv4 91 108 56 104,
      dc_ipv6 = ipv6 [0x2001, 0xb28, 0xf23f, 0xf005, 0, 0, 0, 0xa], dc_auth_key = None\<rparr>]"

section \<open>Session data\<close>

text \<open>A \<open>HashMap\<close> is its list of entries, with distinct keys, in the order it iterates.\<close>

record session_data =
  sd_home_dc :: int
  sd_dc_options :: "(int \<times> dc_option) list"
  sd_peer_infos :: "(peer_id \<times> peer_info) list"
  sd_updates_state :: updates_state

definition updates_default :: updates_state where
  "updates_default = \<lparr>us_pts = 0, us_qts = 0, us_date = 0, us_seq = 0, us_channels = []\<rparr>"

definition session_data_default :: session_data where
  "session_data_default =
     \<lparr>sd_home_dc = DEFAULT_DC,
      sd_dc_options = map (\<lambda>opt. (dc_id opt, opt)) KNOWN_DC_OPTIONS,
      sd_peer_infos = [],
      sd_updates_state = updates_default\<rparr>"

text \<open>\<open>UpdateState\<close>, the argument of \<open>set_update_state\<close>.\<close>
datatype state_change =
    SetAll updates_state
  | SetPrimary int int int
  | SetSecondary int
  | SetChannel int int

section \<open>The interface\<close>

text \<open>How an operation ends: it may also panic.\<close>

datatype ('e, 'a) outcome = Panic | Err 'e | Ok 'a

fun map_err :: "('e \<Rightarrow> 'f) \<Rightarrow> ('e, 'a) outcome \<Rightarrow> ('f, 'a) outcome" where
  "map_err f Panic = Panic"
| "map_err f (Err e) = Err (f e)"
| "map_err f (Ok x) = Ok x"

record ('s, 'e) session_ops =
  op_home_dc_id :: "'s \<Rightarrow> ('e, int) outcome"
  op_set_home_dc_id :: "int \<Rightarrow> 's \<Rightarrow> ('e, unit) outcome \<times> 's"
  op_dc_option :: "int \<Rightarrow> 's \<Rightarrow> ('e, dc_option option) outcome"
  op_set_dc_option :: "dc_option \<Rightarrow> 's \<Rightarrow> ('e, unit) outcome \<times> 's"
  op_peer :: "peer_id \<Rightarrow> 's \<Rightarrow> ('e, peer_info option) outcome"
  op_peer_ref :: "peer_id \<Rightarrow> 's \<Rightarrow> ('e, peer_ref option) outcome"
  op_cache_peer :: "peer_info \<Rightarrow> 's \<Rightarrow> ('e, unit) outcome \<times> 's"
  op_cache_peers :: "peer_info list \<Rightarrow> 's \<Rightarrow> ('e, unit) outcome \<times> 's"
  op_updates_state :: "'s \<Rightarrow> ('e, updates_state) outcome"
  op_set_update_state :: "state_change \<Rightarrow> 's \<Rightarrow> ('e, unit) outcome \<times> 's"

text \<open>The default method \<open>Session::peer_ref\<close>, on the storage's \<open>peer\<close>.\<close>
definition session_peer_ref ::
    "(peer_id \<Rightarrow> 's \<Rightarrow> ('e, peer_info option) outcome) \<Rightarrow> peer_id \<Rightarrow> 's \<Rightarrow> ('e, peer_ref option) outcome" where
  "session_peer_ref peer p s =
     (case peer p s of
        Panic \<Rightarrow> Panic
      | Err e \<Rightarrow> Err e
      | Ok info \<Rightarrow> Ok (map_option (\<lambda>a. \<lparr>ref_id = p, ref_auth = a\<rparr>) (Option.bind info info_auth)))"

text \<open>
  The default method \<open>Session::cache_peers\<close>: every peer is tried, the last error is returned.
\<close>
fun cache_peers_loop ::
    "('s, 'e) session_ops \<Rightarrow> ('e, unit) outcome \<Rightarrow> peer_info list \<Rightarrow> 's \<Rightarrow> ('e, unit) outcome \<times> 's" where
  "cache_peers_loop ops result [] s = (result, s)"
| "cache_peers_loop ops result (p # ps) s =
     (case op_cache_peer ops p s of
        (Panic, s') \<Rightarrow> (Panic, s')
      | (Err e, s') \<Rightarrow> cache_peers_loop ops (Err e) ps s'
      | (Ok u, s') \<Rightarrow> cache_peers_loop ops result ps s')"

definition cache_peers_default :: "('s, 'e) session_ops \<Rightarrow> peer_info list \<Rightarrow> 's \<Rightarrow> ('e, unit) outcome \<times> 's" where
  "cache_peers_default ops ps s = cache_peers_loop ops (Ok ()) ps s"

text \<open>\<open>Eraser\<close>: the same operations with the error converted.\<close>
definition erase :: "('e \<Rightarrow> 'f) \<Rightarrow> ('s, 'e) session_ops \<Rightarrow> ('s, 'f) session_ops" where
  "erase f ops =
     \<lparr>op_home_dc_id = \<lambda>s. map_err f (op_home_dc_id ops s),
      op_set_home_dc_id = \<lambda>d s. apfst (map_err f) (op_set_home_dc_id ops d s),
      op_dc_option = \<lambda>d s. map_err f (op_dc_option ops d s),
      op_set_dc_option = \<lambda>opt s. apfst (map_err f) (op_set_dc_option ops opt s),
      op_peer = \<lambda>p s. map_err f (op_peer ops p s),
      op_peer_ref = \<lambda>p s. map_err f (op_peer_ref ops p s),
      op_cache_peer = \<lambda>p s. apfst (map_err f) (op_cache_peer ops p s),
      op_cache_peers = \<lambda>ps s. apfst (map_err f) (op_cache_peers ops ps s),
      op_updates_state = \<lambda>s. map_err f (op_updates_state ops s),
      op_set_update_state = \<lambda>u s. apfst (map_err f) (op_set_update_state ops u s)\<rparr>"

text \<open>
  \<open>SessionData::import_to\<close>: the \<open>?\<close> operator ends the import at the first operation that does
  not succeed.
\<close>

fun and_then :: "('e, unit) outcome \<times> 's \<Rightarrow> ('s \<Rightarrow> ('e, unit) outcome \<times> 's) \<Rightarrow> ('e, unit) outcome \<times> 's" where
  "and_then (Ok u, s) k = k s"
| "and_then (r, s) k = (r, s)"

fun for_each :: "('a \<Rightarrow> 's \<Rightarrow> ('e, unit) outcome \<times> 's) \<Rightarrow> 'a list \<Rightarrow> 's \<Rightarrow> ('e, unit) outcome \<times> 's" where
  "for_each f [] s = (Ok (), s)"
| "for_each f (x # xs) s = and_then (f x s) (for_each f xs)"

definition import_to :: "('s, 'e) session_ops \<Rightarrow> session_data \<Rightarrow> 's \<Rightarrow> ('e, unit) outcome \<times> 's" where
  "import_to ops d s =
     and_then (op_set_home_dc_id ops (sd_home_dc d) s) (\<lambda>s1.
     and_then (for_each (op_set_dc_option ops) (map snd (sd_dc_options d)) s1) (\<lambda>s2.
     and_then (for_each (op_cache_peer ops) (map snd (sd_peer_infos d)) s2) (\<lambda>s3.
     op_set_update_state ops (SetAll (sd_updates_state d)) s3)))"

section \<open>The contract\<close>

text \<open>
  What a client can observe of a storage. Channel positions are a map: storages may list them in
  any order.
\<close>

record session_view =
  v_home :: int
  v_dcs :: "int \<rightharpoonup> dc_option"
  v_peers :: "peer_id \<rightharpoonup> peer_info"
  v_account :: "int \<times> int \<times> int \<times> int"
  v_channels :: "int \<rightharpoonup> int"

definition channel_map :: "channel_state list \<Rightarrow> int \<rightharpoonup> int" where
  "channel_map cs = map_of (map (\<lambda>c. (chan_id c, chan_pts c)) cs)"

definition shows_updates :: "updates_state \<Rightarrow> session_view \<Rightarrow> bool" where
  "shows_updates u v \<longleftrightarrow>
     v_account v = (us_pts u, us_qts u, us_date u, us_seq u) \<and>
     v_channels v = channel_map (us_channels u) \<and> distinct (map chan_id (us_channels u))"

fun change_view :: "state_change \<Rightarrow> session_view \<Rightarrow> session_view" where
  "change_view (SetAll u) v =
     v\<lparr>v_account := (us_pts u, us_qts u, us_date u, us_seq u), v_channels := channel_map (us_channels u)\<rparr>"
| "change_view (SetPrimary p d s) v =
     v\<lparr>v_account := (case v_account v of (_, q, _, _) \<Rightarrow> (p, q, d, s))\<rparr>"
| "change_view (SetSecondary q) v =
     v\<lparr>v_account := (case v_account v of (p, _, d, s) \<Rightarrow> (p, q, d, s))\<rparr>"
| "change_view (SetChannel c p) v = v\<lparr>v_channels := (v_channels v)(c \<mapsto> p)\<rparr>"

fun change_ok :: "state_change \<Rightarrow> bool" where
  "change_ok (SetAll u) = distinct (map chan_id (us_channels u))"
| "change_ok _ = True"

definition cache_view :: "peer_info \<Rightarrow> session_view \<Rightarrow> session_view" where
  "cache_view i v = v\<lparr>v_peers := (v_peers v)(the_id i \<mapsto>
     (case v_peers v (the_id i) of None \<Rightarrow> i | Some old \<Rightarrow> merge_info old i))\<rparr>"

fun is_self_info :: "peer_info \<Rightarrow> bool" where
  "is_self_info (InfoUser i a b s) \<longleftrightarrow> s = Some True"
| "is_self_info _ \<longleftrightarrow> False"

text \<open>Calls that change a storage, with what they do to the view.\<close>

datatype session_call =
    SetHome int
  | SetDcOption dc_option
  | CachePeer peer_info
  | CachePeers "peer_info list"
  | SetUpdateState state_change

fun do_call :: "('s, 'e) session_ops \<Rightarrow> session_call \<Rightarrow> 's \<Rightarrow> ('e, unit) outcome \<times> 's" where
  "do_call ops (SetHome d) s = op_set_home_dc_id ops d s"
| "do_call ops (SetDcOption dc) s = op_set_dc_option ops dc s"
| "do_call ops (CachePeer i) s = op_cache_peer ops i s"
| "do_call ops (CachePeers is) s = op_cache_peers ops is s"
| "do_call ops (SetUpdateState c) s = op_set_update_state ops c s"

fun call_view :: "session_call \<Rightarrow> session_view \<Rightarrow> session_view" where
  "call_view (SetHome d) v = v\<lparr>v_home := d\<rparr>"
| "call_view (SetDcOption dc) v = v\<lparr>v_dcs := (v_dcs v)(dc_id dc \<mapsto> dc)\<rparr>"
| "call_view (CachePeer i) v = cache_view i v"
| "call_view (CachePeers is) v = fold cache_view is v"
| "call_view (SetUpdateState c) v = change_view c v"

fun call_ok :: "session_call \<Rightarrow> bool" where
  "call_ok (CachePeer i) = info_ok i"
| "call_ok (CachePeers is) = (\<forall>i\<in>set is. info_ok i)"
| "call_ok (SetUpdateState c) = change_ok c"
| "call_ok _ = True"

text \<open>
  What a lookup may answer: the peer cached under the identifier, and for the own user the peer
  that is marked as such, if there is one.
\<close>

definition finds :: "session_view \<Rightarrow> peer_id \<Rightarrow> peer_info option \<Rightarrow> bool" where
  "finds v p r \<longleftrightarrow>
     (if p \<noteq> SELF_USER_ID then r = v_peers v p
      else case r of
          None \<Rightarrow> \<not> (\<exists>i \<in> ran (v_peers v). is_self_info i)
        | Some i \<Rightarrow> is_self_info i \<and> i \<in> ran (v_peers v))"

text \<open>All the queries of a storage answer from a view.\<close>

definition view_answers :: "('s, 'e) session_ops \<Rightarrow> 's \<Rightarrow> session_view \<Rightarrow> bool" where
  "view_answers ops s v \<longleftrightarrow>
     op_home_dc_id ops s = Ok (v_home v) \<and>
     (\<forall>k. op_dc_option ops k s = Ok (v_dcs v k)) \<and>
     (\<forall>p. \<exists>r. op_peer ops p s = Ok r \<and> finds v p r \<and>
        op_peer_ref ops p s = Ok (map_option (\<lambda>a. \<lparr>ref_id = p, ref_auth = a\<rparr>) (Option.bind r info_auth))) \<and>
     (\<exists>u. op_updates_state ops s = Ok u \<and> shows_updates u v)"

locale session_contract =
  fixes ops :: "('s, 'e) session_ops"
    and usable :: "'s \<Rightarrow> bool"
    and view :: "'s \<Rightarrow> session_view"
  assumes home: "usable s \<Longrightarrow> op_home_dc_id ops s = Ok (v_home (view s))"
    and set_home: "usable s \<Longrightarrow> \<exists>s'. op_set_home_dc_id ops d s = (Ok (), s') \<and> usable s' \<and>
                     view s' = (view s)\<lparr>v_home := d\<rparr>"
    and option: "usable s \<Longrightarrow> op_dc_option ops d s = Ok (v_dcs (view s) d)"
    and set_option: "usable s \<Longrightarrow> \<exists>s'. op_set_dc_option ops dc s = (Ok (), s') \<and> usable s' \<and>
                     view s' = (view s)\<lparr>v_dcs := (v_dcs (view s))(dc_id dc \<mapsto> dc)\<rparr>"
    and lookup: "usable s \<Longrightarrow> \<exists>r. op_peer ops p s = Ok r \<and> finds (view s) p r"
    and lookup_ref: "usable s \<Longrightarrow> op_peer_ref ops p s = session_peer_ref (op_peer ops) p s"
    and cache: "usable s \<Longrightarrow> info_ok i \<Longrightarrow> \<exists>s'. op_cache_peer ops i s = (Ok (), s') \<and> usable s' \<and>
                     view s' = cache_view i (view s)"
    and cache_many: "usable s \<Longrightarrow> \<forall>i \<in> set is. info_ok i \<Longrightarrow> \<exists>s'. op_cache_peers ops is s = (Ok (), s') \<and>
                     usable s' \<and> view s' = fold cache_view is (view s)"
    and updates: "usable s \<Longrightarrow> \<exists>u. op_updates_state ops s = Ok u \<and> shows_updates u (view s)"
    and set_updates: "usable s \<Longrightarrow> change_ok c \<Longrightarrow> \<exists>s'. op_set_update_state ops c s = (Ok (), s') \<and>
                     usable s' \<and> view s' = change_view c (view s)"
begin

lemma set_options:
  "usable s \<Longrightarrow> \<exists>s'. for_each (op_set_dc_option ops) ds s = (Ok (), s') \<and> usable s' \<and>
     view s' = (view s)\<lparr>v_dcs := v_dcs (view s) ++ map_of (rev (map (\<lambda>dc. (dc_id dc, dc)) ds))\<rparr>"
proof (induction ds arbitrary: s)
  case Nil
  then show ?case by simp
next
  case (Cons dc ds)
  obtain s1 where "op_set_dc_option ops dc s = (Ok (), s1)" "usable s1"
    "view s1 = (view s)\<lparr>v_dcs := (v_dcs (view s))(dc_id dc \<mapsto> dc)\<rparr>"
    using set_option[OF Cons.prems] by metis
  then show ?case using Cons.IH[of s1] by (auto simp: map_add_def fun_eq_iff split: option.splits)
qed

lemma cache_all:
  "usable s \<Longrightarrow> \<forall>i \<in> set is. info_ok i \<Longrightarrow>
     \<exists>s'. for_each (op_cache_peer ops) is s = (Ok (), s') \<and> usable s' \<and> view s' = fold cache_view is (view s)"
proof (induction "is" arbitrary: s)
  case Nil
  then show ?case by simp
next
  case (Cons i "is")
  obtain s1 where "op_cache_peer ops i s = (Ok (), s1)" "usable s1" "view s1 = cache_view i (view s)"
    using cache[OF Cons.prems(1), of i] Cons.prems(2) by auto
  then show ?case using Cons.IH[of s1] Cons.prems(2) by auto
qed

text \<open>The default \<open>cache_peers\<close> of the trait keeps the contract's promise, peer by peer.\<close>
lemma cache_default:
  "usable s \<Longrightarrow> \<forall>i \<in> set is. info_ok i \<Longrightarrow>
     \<exists>s'. cache_peers_default ops is s = (Ok (), s') \<and> usable s' \<and> view s' = fold cache_view is (view s)"
  unfolding cache_peers_default_def
proof (induction "is" arbitrary: s)
  case Nil
  then show ?case by simp
next
  case (Cons i "is")
  obtain s1 where "op_cache_peer ops i s = (Ok (), s1)" "usable s1" "view s1 = cache_view i (view s)"
    using cache[OF Cons.prems(1), of i] Cons.prems(2) by auto
  then show ?case using Cons.IH[of s1] Cons.prems(2) by auto
qed

lemma import_view:
  assumes "usable s" and "\<forall>i \<in> snd ` set (sd_peer_infos d). info_ok i"
    and "distinct (map chan_id (us_channels (sd_updates_state d)))"
  shows "\<exists>s'. import_to ops d s = (Ok (), s') \<and> usable s' \<and>
     view s' = change_view (SetAll (sd_updates_state d))
       (fold cache_view (map snd (sd_peer_infos d))
         ((view s)\<lparr>v_home := sd_home_dc d,
                   v_dcs := v_dcs (view s) ++ map_of (rev (map (\<lambda>dc. (dc_id dc, dc)) (map snd (sd_dc_options d))))\<rparr>))"
proof -
  obtain s1 where 1: "op_set_home_dc_id ops (sd_home_dc d) s = (Ok (), s1)" "usable s1"
    "view s1 = (view s)\<lparr>v_home := sd_home_dc d\<rparr>" using set_home[OF assms(1)] by blast
  obtain s2 where 2: "for_each (op_set_dc_option ops) (map snd (sd_dc_options d)) s1 = (Ok (), s2)" "usable s2"
    "view s2 = (view s1)\<lparr>v_dcs := v_dcs (view s1) ++ map_of (rev (map (\<lambda>dc. (dc_id dc, dc)) (map snd (sd_dc_options d))))\<rparr>"
    using set_options[OF 1(2)] by blast
  obtain s3 where 3: "for_each (op_cache_peer ops) (map snd (sd_peer_infos d)) s2 = (Ok (), s3)" "usable s3"
    "view s3 = fold cache_view (map snd (sd_peer_infos d)) (view s2)"
    using cache_all[OF 2(2), of "map snd (sd_peer_infos d)"] assms(2) by auto
  obtain s4 where "op_set_update_state ops (SetAll (sd_updates_state d)) s3 = (Ok (), s4)" "usable s4"
    "view s4 = change_view (SetAll (sd_updates_state d)) (view s3)"
    using set_updates[OF 3(2), of "SetAll (sd_updates_state d)"] assms(3) by auto
  with 1 2 3 show ?thesis by (simp add: import_to_def)
qed

lemma call: "usable s \<Longrightarrow> call_ok c \<Longrightarrow> \<exists>s'. do_call ops c s = (Ok (), s') \<and> usable s' \<and> view s' = call_view c (view s)"
  using set_home set_option cache cache_many set_updates by (cases c) auto

text \<open>A sequence of calls is answered as the view prescribes.\<close>
lemma run_calls:
  "usable s \<Longrightarrow> \<forall>c \<in> set cs. call_ok c \<Longrightarrow>
     \<exists>s'. for_each (do_call ops) cs s = (Ok (), s') \<and> usable s' \<and> view s' = fold call_view cs (view s)"
proof (induction cs arbitrary: s)
  case Nil
  then show ?case by simp
next
  case (Cons c cs)
  obtain s1 where "do_call ops c s = (Ok (), s1)" "usable s1" "view s1 = call_view c (view s)"
    using call[OF Cons.prems(1), of c] Cons.prems(2) by auto
  then show ?case using Cons.IH[of s1] Cons.prems(2) by auto
qed

text \<open>Every query of a usable storage answers from its view.\<close>
lemma answered: "usable s \<Longrightarrow> view_answers ops s (view s)"
  unfolding view_answers_def
proof (intro conjI allI)
  fix p
  assume s: "usable s"
  obtain r where "op_peer ops p s = Ok r" "finds (view s) p r" using lookup[OF s] by blast
  then show "\<exists>r. op_peer ops p s = Ok r \<and> finds (view s) p r \<and>
      op_peer_ref ops p s = Ok (map_option (\<lambda>a. \<lparr>ref_id = p, ref_auth = a\<rparr>) (Option.bind r info_auth))"
    by (simp add: lookup_ref[OF s] session_peer_ref_def)
qed (use home option updates in auto)

lemma queries:
  assumes "usable s"
  shows "op_home_dc_id ops s = Ok (v_home (view s))"
    "op_dc_option ops d s = Ok (v_dcs (view s) d)"
    "p \<noteq> SELF_USER_ID \<Longrightarrow> op_peer ops p s = Ok (v_peers (view s) p)"
    "\<exists>u. op_updates_state ops s = Ok u \<and> shows_updates u (view s)"
  using assms home option updates lookup[OF assms, of p] by (auto simp: finds_def)

text \<open>Type erasure keeps the contract.\<close>
lemma erased: "session_contract (erase f ops) usable view"
proof
  fix s p d dc i "is" c
  assume s: "usable s"
  show "op_home_dc_id (erase f ops) s = Ok (v_home (view s))"
    by (simp add: erase_def home[OF s])
  show "\<exists>s'. op_set_home_dc_id (erase f ops) d s = (Ok (), s') \<and> usable s' \<and> view s' = (view s)\<lparr>v_home := d\<rparr>"
    using set_home[OF s, of d] by (auto simp: erase_def)
  show "op_dc_option (erase f ops) d s = Ok (v_dcs (view s) d)"
    by (simp add: erase_def option[OF s])
  show "\<exists>s'. op_set_dc_option (erase f ops) dc s = (Ok (), s') \<and> usable s' \<and>
      view s' = (view s)\<lparr>v_dcs := (v_dcs (view s))(dc_id dc \<mapsto> dc)\<rparr>"
    using set_option[OF s, of dc] by (auto simp: erase_def)
  show "\<exists>r. op_peer (erase f ops) p s = Ok r \<and> finds (view s) p r"
    using lookup[OF s, of p] by (auto simp: erase_def)
  show "op_peer_ref (erase f ops) p s = session_peer_ref (op_peer (erase f ops)) p s"
    by (cases "op_peer ops p s") (simp_all add: erase_def lookup_ref[OF s] session_peer_ref_def)
  show "info_ok i \<Longrightarrow> \<exists>s'. op_cache_peer (erase f ops) i s = (Ok (), s') \<and> usable s' \<and> view s' = cache_view i (view s)"
    using cache[OF s, of i] by (auto simp: erase_def)
  show "\<forall>i\<in>set is. info_ok i \<Longrightarrow> \<exists>s'. op_cache_peers (erase f ops) is s = (Ok (), s') \<and> usable s' \<and>
      view s' = fold cache_view is (view s)"
    using cache_many[OF s, of "is"] by (auto simp: erase_def)
  show "\<exists>u. op_updates_state (erase f ops) s = Ok u \<and> shows_updates u (view s)"
    using updates[OF s] by (auto simp: erase_def)
  show "change_ok c \<Longrightarrow> \<exists>s'. op_set_update_state (erase f ops) c s = (Ok (), s') \<and> usable s' \<and>
      view s' = change_view c (view s)"
    using set_updates[OF s, of c] by (auto simp: erase_def)
qed

end

text \<open>The erased storage goes through the same states.\<close>

lemma erased_call: "do_call (erase f ops) c s = apfst (map_err f) (do_call ops c s)"
  by (cases c) (simp_all add: erase_def)

lemma erased_calls:
  "for_each (do_call ops) cs s = (Ok (), s') \<Longrightarrow> for_each (do_call (erase f ops)) cs s = (Ok (), s')"
proof (induction cs arbitrary: s)
  case Nil
  then show ?case by simp
next
  case (Cons c cs)
  obtain r s1 where c: "do_call ops c s = (r, s1)" by fastforce
  with Cons.prems have "r = Ok ()" "for_each (do_call ops) cs s1 = (Ok (), s')" by (cases r; simp)+
  then show ?case using c Cons.IH[of s1] by (simp add: erased_call)
qed

end
