(* ===== verification/Memory_Session.thy ===== *)
theory Memory_Session
  imports Sessions "HOL-Library.AList"
begin

text \<open>
  The in-memory storage, \<open>grammers-session/src/storages/memory.rs\<close>: its data behind a mutex, with
  the mutex poisoned by a panic while it is held (which the debug assertion of \<open>PeerInfo::id\<close>
  can raise), and the interpretation of the storage contract on it. \<open>peer_infos\<close>, a \<open>HashMap\<close>,
  is its list of entries; the results below do not depend on their order.
\<close>

section \<open>State\<close>

record stored_dc_option =
  st_key :: int
  st_id :: int
  st_ipv4 :: sock4
  st_ipv6 :: sock6
  st_auth_key :: "bytes option"

definition stored_new :: "int \<Rightarrow> dc_option \<Rightarrow> stored_dc_option" where
  "stored_new k dc =
     \<lparr>st_key = k, st_id = dc_id dc, st_ipv4 = dc_ipv4 dc, st_ipv6 = dc_ipv6 dc, st_auth_key = dc_auth_key dc\<rparr>"

definition to_option :: "stored_dc_option \<Rightarrow> dc_option" where
  "to_option o' =
     \<lparr>dc_id = st_id o', dc_ipv4 = st_ipv4 o', dc_ipv6 = st_ipv6 o', dc_auth_key = st_auth_key o'\<rparr>"

record memory_data =
  md_home_dc :: int
  md_dc_options :: "stored_dc_option list"
  md_peer_infos :: "(peer_id \<times> peer_info) list"
  md_updates_state :: updates_state

text \<open>\<open>Mutex<MemoryData>\<close>.\<close>
record memory_session =
  poisoned :: bool
  mem_data :: memory_data

datatype memory_session_error = Poisoned

definition memory_from :: "session_data \<Rightarrow> memory_session" where
  "memory_from d =
     \<lparr>poisoned = False,
      mem_data = \<lparr>md_home_dc = sd_home_dc d,
              md_dc_options = map (\<lambda>(k, dc). stored_new k dc) (sd_dc_options d),
              md_peer_infos = sd_peer_infos d,
              md_updates_state = sd_updates_state d\<rparr>\<rparr>"

definition memory_default :: memory_session where
  "memory_default = memory_from session_data_default"

section \<open>Operations\<close>

text \<open>\<open>MemorySession::data\<close> followed by a computation on the locked data.\<close>

definition with_data ::
    "memory_session \<Rightarrow> (memory_data \<Rightarrow> (memory_session_error, 'a) outcome) \<Rightarrow> (memory_session_error, 'a) outcome" where
  "with_data s f = (if poisoned s then Err Poisoned else f (mem_data s))"

text \<open>A panic of the computation leaves its changes and poisons the lock.\<close>
definition update_data ::
    "memory_session \<Rightarrow> (memory_data \<Rightarrow> (memory_session_error, unit) outcome \<times> memory_data)
       \<Rightarrow> (memory_session_error, unit) outcome \<times> memory_session" where
  "update_data s f =
     (if poisoned s then (Err Poisoned, s)
      else case f (mem_data s) of
        (Panic, d) \<Rightarrow> (Panic, \<lparr>poisoned = True, mem_data = d\<rparr>)
      | (r, d) \<Rightarrow> (r, s\<lparr>mem_data := d\<rparr>))"

definition mem_home_dc_id :: "memory_session \<Rightarrow> (memory_session_error, int) outcome" where
  "mem_home_dc_id s = with_data s (\<lambda>d. Ok (md_home_dc d))"

definition mem_set_home_dc_id :: "int \<Rightarrow> memory_session \<Rightarrow> (memory_session_error, unit) outcome \<times> memory_session" where
  "mem_set_home_dc_id dc s = update_data s (\<lambda>d. (Ok (), d\<lparr>md_home_dc := dc\<rparr>))"

definition mem_dc_option :: "int \<Rightarrow> memory_session \<Rightarrow> (memory_session_error, dc_option option) outcome" where
  "mem_dc_option dc s =
     with_data s (\<lambda>d. Ok (map_option to_option (find (\<lambda>o'. st_key o' = dc) (md_dc_options d))))"

text \<open>\<open>iter_mut().find(...)\<close> and the assignment through it, or the push.\<close>
fun replace_or_push :: "stored_dc_option \<Rightarrow> stored_dc_option list \<Rightarrow> stored_dc_option list" where
  "replace_or_push o' [] = [o']"
| "replace_or_push o' (x # xs) = (if st_key x = st_key o' then o' # xs else x # replace_or_push o' xs)"

definition mem_set_dc_option :: "dc_option \<Rightarrow> memory_session \<Rightarrow> (memory_session_error, unit) outcome \<times> memory_session" where
  "mem_set_dc_option dc s =
     update_data s (\<lambda>d. (Ok (), d\<lparr>md_dc_options := replace_or_push (stored_new (dc_id dc) dc) (md_dc_options d)\<rparr>))"

definition mem_peer :: "peer_id \<Rightarrow> memory_session \<Rightarrow> (memory_session_error, peer_info option) outcome" where
  "mem_peer p s =
     with_data s (\<lambda>d. Ok (if p = pid_self_user then find is_self_info (map snd (md_peer_infos d))
                          else map_of (md_peer_infos d) p))"

definition mem_cache_peer :: "bool \<Rightarrow> peer_info \<Rightarrow> memory_session \<Rightarrow> (memory_session_error, unit) outcome \<times> memory_session" where
  "mem_cache_peer dbg i s =
     update_data s (\<lambda>d. case info_id dbg i of
         None \<Rightarrow> (Panic, d)
       | Some p \<Rightarrow>
           let entry = (case map_of (md_peer_infos d) p of Some old \<Rightarrow> old | None \<Rightarrow> i) in
           (Ok (), d\<lparr>md_peer_infos := AList.update p (merge_info entry i) (md_peer_infos d)\<rparr>))"

fun cache_loop :: "bool \<Rightarrow> peer_info list \<Rightarrow> memory_data \<Rightarrow> (memory_session_error, unit) outcome \<times> memory_data" where
  "cache_loop dbg [] d = (Ok (), d)"
| "cache_loop dbg (i # is) d =
     (case info_id dbg i of
        None \<Rightarrow> (Panic, d)
      | Some p \<Rightarrow>
          let entry = (case map_of (md_peer_infos d) p of Some old \<Rightarrow> merge_info old i | None \<Rightarrow> i) in
          cache_loop dbg is (d\<lparr>md_peer_infos := AList.update p entry (md_peer_infos d)\<rparr>))"

definition mem_cache_peers :: "bool \<Rightarrow> peer_info list \<Rightarrow> memory_session \<Rightarrow> (memory_session_error, unit) outcome \<times> memory_session" where
  "mem_cache_peers dbg is s = (if is = [] then (Ok (), s) else update_data s (cache_loop dbg is))"

definition mem_updates_state :: "memory_session \<Rightarrow> (memory_session_error, updates_state) outcome" where
  "mem_updates_state s = with_data s (\<lambda>d. Ok (md_updates_state d))"

fun apply_change :: "state_change \<Rightarrow> updates_state \<Rightarrow> updates_state" where
  "apply_change (SetAll u) st = u"
| "apply_change (SetPrimary p d q) st = st\<lparr>us_pts := p, us_date := d, us_seq := q\<rparr>"
| "apply_change (SetSecondary q) st = st\<lparr>us_qts := q\<rparr>"
| "apply_change (SetChannel c p) st =
     st\<lparr>us_channels := filter (\<lambda>r. chan_id r \<noteq> c) (us_channels st) @ [\<lparr>chan_id = c, chan_pts = p\<rparr>]\<rparr>"

definition mem_set_update_state :: "state_change \<Rightarrow> memory_session \<Rightarrow> (memory_session_error, unit) outcome \<times> memory_session" where
  "mem_set_update_state c s = update_data s (\<lambda>d. (Ok (), d\<lparr>md_updates_state := apply_change c (md_updates_state d)\<rparr>))"

definition memory_ops :: "bool \<Rightarrow> (memory_session, memory_session_error) session_ops" where
  "memory_ops dbg =
     \<lparr>op_home_dc_id = mem_home_dc_id,
      op_set_home_dc_id = mem_set_home_dc_id,
      op_dc_option = mem_dc_option,
      op_set_dc_option = mem_set_dc_option,
      op_peer = mem_peer,
      op_peer_ref = session_peer_ref mem_peer,
      op_cache_peer = mem_cache_peer dbg,
      op_cache_peers = mem_cache_peers dbg,
      op_updates_state = mem_updates_state,
      op_set_update_state = mem_set_update_state\<rparr>"

section \<open>The contract holds\<close>

definition data_view :: "memory_data \<Rightarrow> session_view" where
  "data_view d =
     \<lparr>v_home = md_home_dc d,
      v_dcs = (\<lambda>k. map_option to_option (find (\<lambda>o'. st_key o' = k) (md_dc_options d))),
      v_peers = map_of (md_peer_infos d),
      v_account = (us_pts (md_updates_state d), us_qts (md_updates_state d),
                   us_date (md_updates_state d), us_seq (md_updates_state d)),
      v_channels = channel_map (us_channels (md_updates_state d))\<rparr>"

definition mem_view :: "memory_session \<Rightarrow> session_view" where
  "mem_view s = data_view (mem_data s)"

definition data_usable :: "memory_data \<Rightarrow> bool" where
  "data_usable d \<longleftrightarrow> distinct (map fst (md_peer_infos d)) \<and> distinct (map chan_id (us_channels (md_updates_state d)))"

definition mem_usable :: "memory_session \<Rightarrow> bool" where
  "mem_usable s \<longleftrightarrow> \<not> poisoned s \<and> data_usable (mem_data s)"

lemmas mem_defs =
  mem_home_dc_id_def mem_set_home_dc_id_def mem_dc_option_def mem_set_dc_option_def mem_peer_def
  mem_cache_peer_def mem_updates_state_def mem_set_update_state_def with_data_def update_data_def

lemma to_option_stored [simp]: "to_option (stored_new k dc) = dc"
  by (simp add: to_option_def stored_new_def)

lemma st_key_stored [simp]: "st_key (stored_new k dc) = k"
  by (simp add: stored_new_def)

lemma find_replace_or_push:
  "find (\<lambda>x. st_key x = k) (replace_or_push o' xs) =
     (if st_key o' = k then Some o' else find (\<lambda>x. st_key x = k) xs)"
  by (induction xs) auto

lemma stored_lookup:
  "map_option to_option (find (\<lambda>o'. st_key o' = x) (map (\<lambda>(k, dc). stored_new k dc) xs)) = map_of xs x"
  by (induction xs) auto

lemma channel_map_set:
  "channel_map (filter (\<lambda>r. chan_id r \<noteq> c) cs @ [\<lparr>chan_id = c, chan_pts = p\<rparr>]) = (channel_map cs)(c \<mapsto> p)"
proof (rule ext)
  fix x
  have "map_of (map (\<lambda>r. (chan_id r, chan_pts r)) (filter (\<lambda>r. chan_id r \<noteq> c) cs)) x =
    (if x = c then None else map_of (map (\<lambda>r. (chan_id r, chan_pts r)) cs) x)"
    by (induction cs) auto
  then show "channel_map (filter (\<lambda>r. chan_id r \<noteq> c) cs @ [\<lparr>chan_id = c, chan_pts = p\<rparr>]) x = ((channel_map cs)(c \<mapsto> p)) x"
    by (auto simp: channel_map_def map_add_def split: option.splits)
qed

lemma apply_change_view:
  "data_view (d\<lparr>md_updates_state := apply_change c (md_updates_state d)\<rparr>) = change_view c (data_view d)"
  by (cases c) (simp_all add: data_view_def channel_map_set)

lemma apply_change_usable:
  "change_ok c \<Longrightarrow> data_usable d \<Longrightarrow> data_usable (d\<lparr>md_updates_state := apply_change c (md_updates_state d)\<rparr>)"
  by (cases c) (auto simp: data_usable_def distinct_map inj_on_def)

lemma cache_data:
  assumes "info_ok i" "data_usable d"
  defines "e \<equiv> (case map_of (md_peer_infos d) (the_id i) of Some old \<Rightarrow> merge_info old i | None \<Rightarrow> i)"
  defines "d' \<equiv> d\<lparr>md_peer_infos := AList.update (the_id i) e (md_peer_infos d)\<rparr>"
  shows "data_view d' = cache_view i (data_view d)" "data_usable d'"
proof -
  show "data_view d' = cache_view i (data_view d)"
    by (simp add: d'_def e_def data_view_def cache_view_def AList.update_conv' split: option.splits)
  show "data_usable d'"
    using assms(2) by (simp add: d'_def data_usable_def distinct_update)
qed

lemma find_self:
  assumes "distinct (map fst ps)"
  shows "case find is_self_info (map snd ps) of
     None \<Rightarrow> \<not> (\<exists>i\<in>ran (map_of ps). is_self_info i)
   | Some i \<Rightarrow> is_self_info i \<and> i \<in> ran (map_of ps)"
  using assms by (auto simp: ran_distinct find_None_iff find_Some_iff split: option.splits)

text \<open>The loop of the bulk operation caches the peers one after the other.\<close>

lemma cache_loop_view:
  "\<forall>i\<in>set is. info_ok i \<Longrightarrow> data_usable d \<Longrightarrow>
     \<exists>d'. cache_loop dbg is d = (Ok (), d') \<and> data_usable d' \<and> data_view d' = fold cache_view is (data_view d)"
proof (induction "is" arbitrary: d)
  case Nil
  then show ?case by simp
next
  case (Cons i "is")
  then have i: "info_ok i" "\<forall>i\<in>set is. info_ok i" by simp_all
  note c = cache_data[OF i(1) Cons.prems(2)]
  show ?case using Cons.IH[OF i(2) c(2)] c(1) i(1) by (simp add: info_ok_id Let_def)
qed

interpretation mem: session_contract "memory_ops dbg" mem_usable mem_view
proof
  fix s d dc p i "is" c
  assume s: "mem_usable s"
  note usable = s[unfolded mem_usable_def]
  show "op_home_dc_id (memory_ops dbg) s = Ok (v_home (mem_view s))"
    "op_dc_option (memory_ops dbg) d s = Ok (v_dcs (mem_view s) d)"
    "op_peer_ref (memory_ops dbg) p s = session_peer_ref (op_peer (memory_ops dbg)) p s"
    using usable by (simp_all add: memory_ops_def mem_defs mem_view_def data_view_def pid_self_user_def)
  show "\<exists>s'. op_set_home_dc_id (memory_ops dbg) d s = (Ok (), s') \<and> mem_usable s' \<and>
      mem_view s' = (mem_view s)\<lparr>v_home := d\<rparr>"
    using usable by (simp add: memory_ops_def mem_defs mem_view_def data_view_def mem_usable_def data_usable_def)
  show "\<exists>s'. op_set_dc_option (memory_ops dbg) dc s = (Ok (), s') \<and> mem_usable s' \<and>
      mem_view s' = (mem_view s)\<lparr>v_dcs := (v_dcs (mem_view s))(dc_id dc \<mapsto> dc)\<rparr>"
    using usable
    by (auto simp: memory_ops_def mem_defs mem_view_def data_view_def mem_usable_def data_usable_def
        find_replace_or_push)
  show "\<exists>r. op_peer (memory_ops dbg) p s = Ok r \<and> finds (mem_view s) p r"
    using usable find_self[of "md_peer_infos (mem_data s)"]
    by (auto simp: memory_ops_def mem_defs mem_view_def data_view_def data_usable_def pid_self_user_def finds_def
        split: option.splits)
  show "info_ok i \<Longrightarrow> \<exists>s'. op_cache_peer (memory_ops dbg) i s = (Ok (), s') \<and> mem_usable s' \<and>
      mem_view s' = cache_view i (mem_view s)"
    using usable cache_data[of i "mem_data s"]
    by (auto simp: memory_ops_def mem_defs mem_view_def mem_usable_def info_ok_id merge_idem split: option.splits)
  show "\<forall>i\<in>set is. info_ok i \<Longrightarrow> \<exists>s'. op_cache_peers (memory_ops dbg) is s = (Ok (), s') \<and> mem_usable s' \<and>
      mem_view s' = fold cache_view is (mem_view s)"
    using usable cache_loop_view[of "is" "mem_data s" dbg]
    by (cases "is = []") (auto simp: memory_ops_def mem_cache_peers_def update_data_def mem_usable_def mem_view_def)
  show "\<exists>u. op_updates_state (memory_ops dbg) s = Ok u \<and> shows_updates u (mem_view s)"
    using usable
    by (simp add: memory_ops_def mem_defs mem_view_def data_view_def shows_updates_def data_usable_def)
  show "change_ok c \<Longrightarrow> \<exists>s'. op_set_update_state (memory_ops dbg) c s = (Ok (), s') \<and> mem_usable s' \<and>
      mem_view s' = change_view c (mem_view s)"
    using usable
    by (simp add: memory_ops_def mem_defs mem_view_def mem_usable_def apply_change_view apply_change_usable)
qed

text \<open>The erased storage has the same contract.\<close>

interpretation erased_mem: session_contract "erase f (memory_ops dbg)" mem_usable mem_view
  by (rule mem.erased)

section \<open>Properties\<close>

lemma cache_loop_append:
  "cache_loop dbg (a @ b) d =
     (case cache_loop dbg a d of (Ok u, d') \<Rightarrow> cache_loop dbg b d' | r \<Rightarrow> r)"
  by (induction a arbitrary: d) (auto simp: Let_def split: option.splits)

text \<open>
  C28: caching peers in bulk leaves the storage exactly as caching them one after the other with
  the trait's default method: same answer, and the same view of the session.
\<close>
theorem memory_cache_peers_equiv:
  assumes "mem_usable s" "\<forall>i\<in>set is. info_ok i"
  shows "\<exists>s1 s2. op_cache_peers (memory_ops dbg) is s = (Ok (), s1)
     \<and> cache_peers_default (memory_ops dbg) is s = (Ok (), s2)
     \<and> mem_usable s1 \<and> mem_view s1 = mem_view s2 \<and> mem_view s1 = fold cache_view is (mem_view s)"
proof -
  obtain s1 where s1: "op_cache_peers (memory_ops dbg) is s = (Ok (), s1)" "mem_usable s1"
    "mem_view s1 = fold cache_view is (mem_view s)"
    using mem.cache_many[OF assms, of dbg] by blast
  obtain s2 where s2: "cache_peers_default (memory_ops dbg) is s = (Ok (), s2)"
    "mem_view s2 = fold cache_view is (mem_view s)"
    using mem.cache_default[OF assms, of dbg] by blast
  from s1 s2 show ?thesis by simp
qed

theorem memory_cache_peers_equiv_witness:
  "\<exists>s1 s2. op_cache_peers (memory_ops True) [InfoChat 9, InfoUser 9 (Some 200) (Some True) (Some True)] memory_default = (Ok (), s1)
     \<and> cache_peers_default (memory_ops True) [InfoChat 9, InfoUser 9 (Some 200) (Some True) (Some True)] memory_default = (Ok (), s2)
     \<and> mem_usable s1 \<and> mem_view s1 = mem_view s2
     \<and> mem_view s1 = fold cache_view [InfoChat 9, InfoUser 9 (Some 200) (Some True) (Some True)] (mem_view memory_default)"
  by (rule memory_cache_peers_equiv)
    (simp_all add: memory_default_def memory_from_def mem_usable_def data_usable_def session_data_default_def
      updates_default_def info_ok_def pid_debug_checks pid_defs)

text \<open>What a storage shows at the start.\<close>
definition view_of_data :: "session_data \<Rightarrow> session_view" where
  "view_of_data d =
     \<lparr>v_home = sd_home_dc d, v_dcs = map_of (sd_dc_options d), v_peers = map_of (sd_peer_infos d),
      v_account = (us_pts (sd_updates_state d), us_qts (sd_updates_state d),
                   us_date (sd_updates_state d), us_seq (sd_updates_state d)),
      v_channels = channel_map (us_channels (sd_updates_state d))\<rparr>"

text \<open>
  C21: the storage refines the session interface: from any session data, any sequence of valid
  calls, bulk caching included, succeeds through the storage itself and through the erased
  interface, with the same state, and afterwards every query of both interfaces answers what the
  abstract session prescribes. The home datacenter is the last one set; a datacenter option is the
  last one set under its identifier, or the initial one; a peer is the merge of everything cached
  for it; the own user is a cached peer that is marked as such, and is missing only if there is
  none; a reference carries the authority of the peer found; the update state shows the last
  account position and the last position of each channel.
\<close>
theorem memory_session_refines:
  assumes "distinct (map fst (sd_peer_infos d))" "distinct (map chan_id (us_channels (sd_updates_state d)))"
    and "\<forall>c\<in>set cs. call_ok c"
  shows "\<exists>s. for_each (do_call (memory_ops dbg)) cs (memory_from d) = (Ok (), s) \<and>
    for_each (do_call (erase f (memory_ops dbg))) cs (memory_from d) = (Ok (), s) \<and>
    view_answers (memory_ops dbg) s (fold call_view cs (view_of_data d)) \<and>
    view_answers (erase f (memory_ops dbg)) s (fold call_view cs (view_of_data d))"
proof -
  have u: "mem_usable (memory_from d)"
    using assms(1,2) by (simp add: mem_usable_def data_usable_def memory_from_def)
  have v: "mem_view (memory_from d) = view_of_data d"
    by (simp add: mem_view_def data_view_def memory_from_def stored_lookup view_of_data_def)
  obtain s where s: "for_each (do_call (memory_ops dbg)) cs (memory_from d) = (Ok (), s)"
    "mem_usable s" "mem_view s = fold call_view cs (mem_view (memory_from d))"
    using mem.run_calls[OF u assms(3), of dbg] by blast
  show ?thesis
    using s(1) erased_calls[OF s(1), of f] mem.answered[OF s(2), of dbg] erased_mem.answered[OF s(2), of f dbg]
    by (simp add: s(3) v)
qed

theorem memory_session_refines_witness:
  "\<exists>s. for_each (do_call (memory_ops True))
        [SetHome 4, CachePeers [InfoUser 5 (Some 77) None (Some True), InfoChat 7]] (memory_from session_data_default) = (Ok (), s) \<and>
    for_each (do_call (erase (\<lambda>_. ()) (memory_ops True)))
        [SetHome 4, CachePeers [InfoUser 5 (Some 77) None (Some True), InfoChat 7]] (memory_from session_data_default) = (Ok (), s) \<and>
    view_answers (memory_ops True) s (fold call_view
        [SetHome 4, CachePeers [InfoUser 5 (Some 77) None (Some True), InfoChat 7]] (view_of_data session_data_default)) \<and>
    view_answers (erase (\<lambda>_. ()) (memory_ops True)) s (fold call_view
        [SetHome 4, CachePeers [InfoUser 5 (Some 77) None (Some True), InfoChat 7]] (view_of_data session_data_default))"
  by (rule memory_session_refines)
    (simp_all add: session_data_default_def updates_default_def info_ok_def pid_debug_checks pid_defs)

lemma map_of_rev_distinct: "distinct (map fst xs) \<Longrightarrow> map_of (rev xs) = map_of xs"
  by (rule map_of_inject_set[THEN iffD2]) (simp_all add: rev_map[symmetric])

lemma map_of_snd_keys:
  assumes "\<forall>(k, dc)\<in>set xs. k = dc_id dc" "distinct (map fst xs)"
  shows "map_of (rev (map (\<lambda>dc. (dc_id dc, dc)) (map snd xs))) = map_of xs"
proof -
  have "map (\<lambda>dc. (dc_id dc, dc)) (map snd xs) = xs" using assms(1) by (induction xs) auto
  then show ?thesis using assms(2) by (simp add: map_of_rev_distinct[of xs])
qed

lemma cache_fold_frame:
  "v_home (fold cache_view is v) = v_home v" "v_dcs (fold cache_view is v) = v_dcs v"
  "v_account (fold cache_view is v) = v_account v" "v_channels (fold cache_view is v) = v_channels v"
  by (induction "is" arbitrary: v) (simp_all add: cache_view_def)

lemma cache_fresh:
  assumes "\<forall>(p, i)\<in>set ps. info_ok i \<and> p = the_id i" "distinct (map fst ps)"
    and "\<forall>p\<in>fst ` set ps. v_peers v p = None"
  shows "v_peers (fold cache_view (map snd ps) v) = v_peers v ++ map_of ps"
  using assms
proof (induction ps arbitrary: v)
  case Nil
  then show ?case by simp
next
  case (Cons q ps)
  obtain p i where q: "q = (p, i)" by fastforce
  with Cons.prems have p: "p = the_id i" "v_peers v p = None" by auto
  then have c: "v_peers (cache_view i v) = (v_peers v)(p \<mapsto> i)" by (simp add: cache_view_def)
  have "v_peers (fold cache_view (map snd ps) (cache_view i v)) = v_peers (cache_view i v) ++ map_of ps"
  proof (rule Cons.IH)
    show "\<forall>p'\<in>fst ` set ps. v_peers (cache_view i v) p' = None"
    proof
      fix p'
      assume "p' \<in> fst ` set ps"
      moreover have "p \<notin> fst ` set ps" using Cons.prems(2) q by simp
      ultimately show "v_peers (cache_view i v) p' = None"
        using Cons.prems(3) unfolding c by (metis fun_upd_apply imageE image_eqI list.set_intros(2))
    qed
  qed (use Cons.prems in auto)
  moreover have "p \<notin> dom (map_of ps)" using Cons.prems(2) q by (simp add: dom_map_of_conv_image_fst)
  ultimately show ?case using q by (auto simp: c map_add_def fun_eq_iff split: option.splits)
qed

lemma mem_view_default:
  "mem_view memory_default =
     \<lparr>v_home = DEFAULT_DC, v_dcs = map_of (sd_dc_options session_data_default), v_peers = Map.empty,
      v_account = (0, 0, 0, 0), v_channels = Map.empty\<rparr>"
  using stored_lookup[of _ "sd_dc_options session_data_default"]
  by (simp add: mem_view_def data_view_def memory_default_def memory_from_def
      session_data_default_def updates_default_def channel_map_def del: map_map)

text \<open>
  Importing session data into a fresh in-memory storage gives back the data: the import
  succeeds, the home datacenter and the update state are the data's, every peer of the data is
  found under its identifier, and each datacenter is answered from the data where it has it and
  otherwise from the statically known options.
\<close>
theorem memory_import_complete:
  assumes keys: "\<forall>(k, dc)\<in>set (sd_dc_options d). k = dc_id dc" "distinct (map fst (sd_dc_options d))"
    and peers: "\<forall>(p, i)\<in>set (sd_peer_infos d). info_ok i \<and> p = the_id i" "distinct (map fst (sd_peer_infos d))"
    and channels: "distinct (map chan_id (us_channels (sd_updates_state d)))"
  shows "\<exists>s. import_to (memory_ops dbg) d memory_default = (Ok (), s)
    \<and> mem_home_dc_id s = Ok (sd_home_dc d)
    \<and> mem_dc_option k s = Ok ((map_of (sd_dc_options session_data_default) ++ map_of (sd_dc_options d)) k)
    \<and> (p \<noteq> SELF_USER_ID \<longrightarrow> mem_peer p s = Ok (map_of (sd_peer_infos d) p))
    \<and> (\<exists>u. mem_updates_state s = Ok u \<and> us_pts u = us_pts (sd_updates_state d)
          \<and> us_qts u = us_qts (sd_updates_state d) \<and> us_date u = us_date (sd_updates_state d)
          \<and> us_seq u = us_seq (sd_updates_state d)
          \<and> channel_map (us_channels u) = channel_map (us_channels (sd_updates_state d)))"
proof -
  define v0 where "v0 = (mem_view memory_default)\<lparr>v_home := sd_home_dc d,
     v_dcs := v_dcs (mem_view memory_default) ++ map_of (rev (map (\<lambda>dc. (dc_id dc, dc)) (map snd (sd_dc_options d))))\<rparr>"
  have u: "mem_usable memory_default"
    by (simp add: mem_usable_def data_usable_def memory_default_def memory_from_def session_data_default_def updates_default_def)
  obtain s where s: "import_to (memory_ops dbg) d memory_default = (Ok (), s)" "mem_usable s"
    "mem_view s = change_view (SetAll (sd_updates_state d)) (fold cache_view (map snd (sd_peer_infos d)) v0)"
    using mem.import_view[OF u, of d dbg] peers(1) channels by (fastforce simp: v0_def)
  have dcs: "map_of (rev (map (\<lambda>dc. (dc_id dc, dc)) (map snd (sd_dc_options d)))) = map_of (sd_dc_options d)"
    by (rule map_of_snd_keys) (use keys in auto)
  have ps: "v_peers (fold cache_view (map snd (sd_peer_infos d)) v0) = map_of (sd_peer_infos d)"
    using cache_fresh[OF peers(1,2), of v0] by (simp add: v0_def mem_view_default)
  note q = mem.queries[OF s(2), where dbg = dbg, unfolded memory_ops_def, simplified]
  show ?thesis
    using s(1) q dcs ps cache_fold_frame[of "map snd (sd_peer_infos d)" v0]
    by (auto simp: s(3) v0_def mem_view_default shows_updates_def)
qed

definition sample_data :: session_data where
  "sample_data =
     \<lparr>sd_home_dc = 4,
      sd_dc_options = [(7, \<lparr>dc_id = 7, dc_ipv4 = ipv4 10 0 0 7, dc_ipv6 = ipv6 [0, 0, 0, 0, 0, 0, 0, 1],
                            dc_auth_key = Some [1, 2, 3]\<rparr>)],
      sd_peer_infos = [(- 9, InfoChat 9), (5, InfoUser 5 (Some 77) None (Some True))],
      sd_updates_state = updates_default\<lparr>us_pts := 10, us_channels := [\<lparr>chan_id = 3, chan_pts = 8\<rparr>]\<rparr>\<rparr>"

theorem memory_import_complete_witness:
  "\<exists>s. import_to (memory_ops True) sample_data memory_default = (Ok (), s)
    \<and> mem_home_dc_id s = Ok (sd_home_dc sample_data)
    \<and> mem_dc_option 7 s = Ok ((map_of (sd_dc_options session_data_default) ++ map_of (sd_dc_options sample_data)) 7)
    \<and> (5 \<noteq> SELF_USER_ID \<longrightarrow> mem_peer 5 s = Ok (map_of (sd_peer_infos sample_data) 5))
    \<and> (\<exists>u. mem_updates_state s = Ok u \<and> us_pts u = us_pts (sd_updates_state sample_data)
          \<and> us_qts u = us_qts (sd_updates_state sample_data) \<and> us_date u = us_date (sd_updates_state sample_data)
          \<and> us_seq u = us_seq (sd_updates_state sample_data)
          \<and> channel_map (us_channels u) = channel_map (us_channels (sd_updates_state sample_data)))"
  by (rule memory_import_complete)
    (simp_all add: sample_data_def updates_default_def info_ok_def the_id_def pid_debug_checks pid_defs)

text \<open>
  The error paths of the storage. In a build with debug assertions, caching a peer whose
  identifier is out of range panics and poisons the lock, the peers before it being kept; from
  then on every query and every change reports the poisoned lock and changes nothing, except
  that caching an empty list still succeeds.
\<close>
theorem memory_poisoning:
  assumes "mem_usable s" "\<forall>i\<in>set good. info_ok i" "\<not> info_ok bad"
  shows "\<exists>s'. mem_cache_peers True (good @ bad # rest) s = (Panic, s')
    \<and> mem_view s' = fold cache_view good (mem_view s)
    \<and> mem_home_dc_id s' = Err Poisoned \<and> mem_dc_option k s' = Err Poisoned
    \<and> mem_peer p s' = Err Poisoned \<and> mem_updates_state s' = Err Poisoned
    \<and> do_call (memory_ops True) c s' = (if c = CachePeers [] then Ok () else Err Poisoned, s')"
proof -
  obtain d' where d': "cache_loop True good (mem_data s) = (Ok (), d')"
    "data_view d' = fold cache_view good (data_view (mem_data s))"
    using cache_loop_view[OF assms(2), of "mem_data s" True] assms(1) by (auto simp: mem_usable_def)
  have "cache_loop True (good @ bad # rest) (mem_data s) = (Panic, d')"
    using d'(1) assms(3) by (simp add: cache_loop_append info_ok_def)
  then have "mem_cache_peers True (good @ bad # rest) s = (Panic, \<lparr>poisoned = True, mem_data = d'\<rparr>)"
    using assms(1) by (simp add: mem_cache_peers_def update_data_def mem_usable_def)
  then show ?thesis
    using d'(2) by (cases c) (simp_all add: memory_ops_def mem_defs mem_cache_peers_def mem_view_def)
qed

theorem memory_poisoning_witness:
  "\<exists>s'. mem_cache_peers True ([InfoChat 3] @ InfoUser 0 None None None # []) memory_default = (Panic, s')
    \<and> mem_view s' = fold cache_view [InfoChat 3] (mem_view memory_default)
    \<and> mem_home_dc_id s' = Err Poisoned \<and> mem_dc_option 2 s' = Err Poisoned
    \<and> mem_peer 1 s' = Err Poisoned \<and> mem_updates_state s' = Err Poisoned
    \<and> do_call (memory_ops True) (SetHome 1) s' = (if SetHome 1 = CachePeers [] then Ok () else Err Poisoned, s')"
  by (rule memory_poisoning)
    (simp_all add: mem_usable_def data_usable_def memory_default_def memory_from_def session_data_default_def
      updates_default_def info_ok_def pid_debug_checks pid_defs)

end
