(* ===== verification/Native_Session.thy ===== *)
theory Native_Session
  imports Memory_Session
begin

text \<open>
  Portable authorization strings, \<open>grammers-session/src/native.rs\<close>: the fixed 332-byte record
  with its checksum, its validation, and the conversions from and to session storages. Strings
  are their UTF-8 bytes. The base64 engine and SHA-256 are the packages \<open>base64\<close> and \<open>sha2\<close>,
  so they are parameters: \<open>enc\<close>, \<open>dec\<close> and \<open>sha256\<close>. What is used of them is \<open>base64_ok\<close>
  (RFC 4648's URL-safe alphabet without padding, canonical decoding) and the length of a digest.
\<close>

section \<open>Definitions\<close>

definition ascii :: "string \<Rightarrow> bytes" where
  "ascii s = map of_char s"

definition PREFIX :: bytes where
  "PREFIX = ascii ''grammers:1:''"

definition PAYLOAD_LEN :: nat where "PAYLOAD_LEN = 300"
definition DECODED_LEN :: nat where "DECODED_LEN = 332"
definition ENCODED_LEN :: nat where "ENCODED_LEN = 443"
definition MAX_INPUT_LEN :: nat where "MAX_INPUT_LEN = 1024"

datatype session_string_error =
    TooLong | InvalidPrefix | UnsupportedVersion | InvalidEncoding | InvalidLength | InvalidHeader
  | InvalidChecksum | InvalidDc | InvalidEndpoint | MissingDc | MissingAuthKey | InvalidAuthKey
  | StorageError

record native_session =
  ns_dc :: dc_option
  ns_prefer_ipv6 :: bool

text \<open>\<open>str::strip_prefix\<close>.\<close>
definition strip_prefix :: "bytes \<Rightarrow> bytes \<Rightarrow> bytes option" where
  "strip_prefix p s = (if take (length p) s = p then Some (drop (length p) s) else None)"

definition is_ascii_alphanumeric :: "u8 \<Rightarrow> bool" where
  "is_ascii_alphanumeric b \<longleftrightarrow>
     48 \<le> unat b \<and> unat b \<le> 57 \<or> 65 \<le> unat b \<and> unat b \<le> 90 \<or> 97 \<le> unat b \<and> unat b \<le> 122"

definition in_alphabet :: "u8 \<Rightarrow> bool" where
  "in_alphabet b \<longleftrightarrow> is_ascii_alphanumeric b \<or> b = 45 \<or> b = 95"

text \<open>\<open>field\<close>: the slice \<open>bytes[offset..offset + n]\<close>.\<close>
definition field :: "bytes \<Rightarrow> nat \<Rightarrow> nat \<Rightarrow> bytes" where
  "field bs offset n = take n (drop offset bs)"

definition be_word :: "bytes \<Rightarrow> 'a::len word" where
  "be_word bs = of_nat (be_nat bs)"

text \<open>\<open>i32::from_be_bytes\<close> and \<open>i32::to_be_bytes\<close>.\<close>
definition be_i32 :: "bytes \<Rightarrow> int" where
  "be_i32 bs = sint (be_word bs :: 32 word)"

definition i32_be :: "int \<Rightarrow> bytes" where
  "i32_be x = be_bytes 4 (unat (of_int x :: 32 word))"

definition ip4_multicast :: "32 word \<Rightarrow> bool" where
  "ip4_multicast ip \<longleftrightarrow> 224 \<le> unat ip div 2 ^ 24 \<and> unat ip div 2 ^ 24 \<le> 239"

definition ip4_broadcast :: "32 word \<Rightarrow> bool" where
  "ip4_broadcast ip \<longleftrightarrow> unat ip = 2 ^ 32 - 1"

definition ip6_multicast :: "128 word \<Rightarrow> bool" where
  "ip6_multicast ip \<longleftrightarrow> unat ip div 2 ^ 120 = 255"

definition validated :: "dc_option \<Rightarrow> bool \<Rightarrow> session_string_error + native_session" where
  "validated dc prefer_ipv6 =
     (if dc_id dc \<le> 0 then Inl InvalidDc
      else case dc_auth_key dc of
        None \<Rightarrow> Inl MissingAuthKey
      | Some key \<Rightarrow>
          if list_all (\<lambda>b. b = 0) key then Inl InvalidAuthKey
          else
            let a4 = dc_ipv4 dc; a6 = dc_ipv6 dc;
                ipv4_absent = (ip4 a4 = 0 \<and> (port4 a4 = 0 \<or> prefer_ipv6));
                ipv6_absent = (ip6 a6 = 0 \<and> port6 a6 = 0 \<and> flowinfo a6 = 0 \<and> scope_id a6 = 0);
                ipv4_valid = (port4 a4 \<noteq> 0 \<and> ip4 a4 \<noteq> 0 \<and> \<not> ip4_multicast (ip4 a4) \<and> \<not> ip4_broadcast (ip4 a4));
                ipv6_valid = (port6 a6 \<noteq> 0 \<and> ip6 a6 \<noteq> 0 \<and> \<not> ip6_multicast (ip6 a6))
            in if (\<not> ipv4_valid \<and> \<not> ipv4_absent) \<or> (\<not> ipv6_valid \<and> \<not> ipv6_absent)
                  \<or> (prefer_ipv6 \<and> \<not> ipv6_valid) \<or> (\<not> prefer_ipv6 \<and> \<not> ipv4_valid)
               then Inl InvalidEndpoint
               else Inr \<lparr>ns_dc = dc, ns_prefer_ipv6 = prefer_ipv6\<rparr>)"

text \<open>The option \<open>NativeSession::parse\<close> reads at fixed offsets.\<close>
definition parse_dc :: "bytes \<Rightarrow> dc_option" where
  "parse_dc bs =
     \<lparr>dc_id = be_i32 (field bs 8 4),
      dc_ipv4 = \<lparr>ip4 = be_word (field bs 12 4), port4 = be_word (field bs 16 2)\<rparr>,
      dc_ipv6 = \<lparr>ip6 = be_word (field bs 18 16), port6 = be_word (field bs 34 2),
                 flowinfo = be_word (field bs 36 4), scope_id = be_word (field bs 40 4)\<rparr>,
      dc_auth_key = Some (field bs 44 256)\<rparr>"

text \<open>The checks on the decoded bytes.\<close>
definition parse_record :: "(bytes \<Rightarrow> bytes) \<Rightarrow> bytes \<Rightarrow> session_string_error + native_session" where
  "parse_record sha256 bs =
     (if drop PAYLOAD_LEN bs \<noteq> sha256 (PREFIX @ take PAYLOAD_LEN bs) then Inl InvalidChecksum
      else if take 4 bs \<noteq> ascii ''GRAM'' then Inl InvalidHeader
      else if field bs 4 1 \<noteq> [1] then Inl UnsupportedVersion
      else if unat (hd (field bs 5 1)) div 2 \<noteq> 0 \<or> field bs 6 2 \<noteq> [0, 0] then Inl InvalidHeader
      else validated (parse_dc bs) (field bs 5 1 = [1]))"

definition parse_session ::
    "(bytes \<Rightarrow> bytes option) \<Rightarrow> (bytes \<Rightarrow> bytes) \<Rightarrow> bytes \<Rightarrow> session_string_error + native_session" where
  "parse_session dec sha256 input =
     (if length input > MAX_INPUT_LEN then Inl TooLong
      else case strip_prefix (ascii ''grammers:'') input of
        None \<Rightarrow> Inl InvalidPrefix
      | Some versioned \<Rightarrow>
          case strip_prefix (ascii ''1:'') versioned of
            None \<Rightarrow> Inl UnsupportedVersion
          | Some encoded \<Rightarrow>
              if \<not> list_all in_alphabet encoded then Inl InvalidEncoding
              else if length encoded \<noteq> ENCODED_LEN then Inl InvalidLength
              else case dec encoded of
                None \<Rightarrow> Inl InvalidEncoding
              | Some bs \<Rightarrow>
                  if length bs > DECODED_LEN then Inl InvalidEncoding
                  else if length bs \<noteq> DECODED_LEN then Inl InvalidLength
                  else parse_record sha256 bs)"

definition from_session :: "('s, 'e) session_ops \<Rightarrow> 's \<Rightarrow> bool \<Rightarrow> (session_string_error + native_session) option" where
  "from_session ops s prefer_ipv6 =
     (case op_home_dc_id ops s of
        Panic \<Rightarrow> None
      | Err e \<Rightarrow> Some (Inl StorageError)
      | Ok home_dc \<Rightarrow>
          if home_dc \<le> 0 then Some (Inl InvalidDc)
          else case op_dc_option ops home_dc s of
            Panic \<Rightarrow> None
          | Err e \<Rightarrow> Some (Inl StorageError)
          | Ok None \<Rightarrow> Some (Inl MissingDc)
          | Ok (Some dc) \<Rightarrow>
              if dc_id dc \<noteq> home_dc then Some (Inl InvalidDc)
              else Some (validated dc prefer_ipv6))"

definition native_payload :: "native_session \<Rightarrow> bytes" where
  "native_payload n =
     (let dc = ns_dc n in
      ascii ''GRAM'' @ [1] @ [if ns_prefer_ipv6 n then 1 else 0] @ [0, 0]
      @ i32_be (dc_id dc)
      @ be_bytes 4 (unat (ip4 (dc_ipv4 dc))) @ be_bytes 2 (unat (port4 (dc_ipv4 dc)))
      @ be_bytes 16 (unat (ip6 (dc_ipv6 dc))) @ be_bytes 2 (unat (port6 (dc_ipv6 dc)))
      @ be_bytes 4 (unat (flowinfo (dc_ipv6 dc))) @ be_bytes 4 (unat (scope_id (dc_ipv6 dc)))
      @ (case dc_auth_key dc of Some key \<Rightarrow> key | None \<Rightarrow> replicate 256 0))"

definition encode_session :: "(bytes \<Rightarrow> bytes) \<Rightarrow> (bytes \<Rightarrow> bytes) \<Rightarrow> native_session \<Rightarrow> bytes" where
  "encode_session enc sha256 n =
     (let payload = native_payload n in PREFIX @ enc (payload @ sha256 (PREFIX @ payload)))"

definition into_session_data :: "native_session \<Rightarrow> session_data" where
  "into_session_data n =
     \<lparr>sd_home_dc = dc_id (ns_dc n), sd_dc_options = [(dc_id (ns_dc n), ns_dc n)],
      sd_peer_infos = [], sd_updates_state = updates_default\<rparr>"

definition into_memory_session :: "native_session \<Rightarrow> memory_session" where
  "into_memory_session n = memory_from (into_session_data n)"

section \<open>Base64\<close>

text \<open>What the URL-safe engine without padding promises.\<close>

definition base64_ok :: "(bytes \<Rightarrow> bytes) \<Rightarrow> (bytes \<Rightarrow> bytes option) \<Rightarrow> bool" where
  "base64_ok enc dec \<longleftrightarrow>
     (\<forall>bs. dec (enc bs) = Some bs \<and> length (enc bs) = (4 * length bs + 2) div 3 \<and> list_all in_alphabet (enc bs))
     \<and> (\<forall>e bs. dec e = Some bs \<longrightarrow> enc bs = e)"

text \<open>The types' fixed sizes: an \<open>i32\<close> identifier and a 256-byte key.\<close>
definition native_sized :: "dc_option \<Rightarrow> bool" where
  "native_sized dc \<longleftrightarrow> dc_id dc < 2 ^ 31 \<and> (\<forall>key. dc_auth_key dc = Some key \<longrightarrow> length key = 256)"

section \<open>Fields\<close>

lemma length_ascii [simp]: "length (ascii s) = length s"
  by (simp add: ascii_def)

lemma length_i32_be [simp]: "length (i32_be x) = 4"
  by (simp add: i32_be_def)

lemma be_word_bytes:
  "256 ^ n = (2 :: nat) ^ LENGTH('a) \<Longrightarrow> be_word (be_bytes n (unat (w :: 'a::len word))) = w"
  using unsigned_less[of w, where ?'a = nat] by (simp add: be_word_def)

lemmas be_word_rt =
  be_word_bytes[where ?'a = 16 and n = 2, simplified] be_word_bytes[where ?'a = 32 and n = 4, simplified]
  be_word_bytes[where ?'a = 128 and n = 16, simplified]

lemma be_bytes_word:
  assumes "length bs = n" "256 ^ n = (2 :: nat) ^ LENGTH('a)"
  shows "be_bytes n (unat (be_word bs :: 'a::len word)) = bs"
proof -
  have "be_nat bs < 2 ^ LENGTH('a)" using be_nat_bound[of bs] assms by simp
  then have "unat (be_word bs :: 'a word) = be_nat bs" by (simp add: be_word_def unat_of_nat)
  then show ?thesis using be_bytes_be_nat[of bs] assms(1) by simp
qed

lemma be_i32_i32_be: "- (2 ^ 31) \<le> x \<Longrightarrow> x < 2 ^ 31 \<Longrightarrow> be_i32 (i32_be x) = x"
  using int_word_sint[of x, where ?'a = 32] by (simp add: be_i32_def i32_be_def be_word_rt)

lemma i32_be_be_i32: "length bs = 4 \<Longrightarrow> i32_be (be_i32 bs) = bs"
  by (simp add: be_i32_def i32_be_def be_bytes_word)

lemma length_field: "offset + n \<le> length bs \<Longrightarrow> length (field bs offset n) = n"
  by (simp add: field_def)

lemma field_split: "drop a bs = field bs a n @ drop (a + n) bs"
  by (metis add.commute append_take_drop_id drop_drop field_def)

lemma length_payload:
  "native_sized (ns_dc n) \<Longrightarrow> length (native_payload n) = 300"
  by (auto simp: native_payload_def native_sized_def Let_def split: option.splits)

text \<open>Reading the fields of an encoded record.\<close>

lemma field_app: "length a = m \<Longrightarrow> m \<le> k \<Longrightarrow> field (a @ bs) k n = field bs (k - m) n"
  by (simp add: field_def)

lemma field_hd: "length a = n \<Longrightarrow> field (a @ bs) 0 n = a"
  by (simp add: field_def)

lemma parse_dc_payload:
  assumes "native_sized (ns_dc n)" "0 < dc_id (ns_dc n)" "dc_auth_key (ns_dc n) \<noteq> None"
  shows "parse_dc (native_payload n @ chk) = ns_dc n"
    and "take 4 (native_payload n @ chk) = ascii ''GRAM''" "field (native_payload n @ chk) 4 1 = [1]"
    "field (native_payload n @ chk) 5 1 = [if ns_prefer_ipv6 n then 1 else 0]"
    "field (native_payload n @ chk) 6 2 = [0, 0]"
proof -
  obtain key where key: "dc_auth_key (ns_dc n) = Some key" "length key = 256"
    using assms by (auto simp: native_sized_def)
  have "dc_id (ns_dc n) < 2 ^ 31" using assms by (simp add: native_sized_def)
  then have i: "be_i32 (i32_be (dc_id (ns_dc n))) = dc_id (ns_dc n)"
    using assms(2) by (intro be_i32_i32_be) auto
  show "parse_dc (native_payload n @ chk) = ns_dc n"
    using key i by (simp add: parse_dc_def native_payload_def Let_def field_def be_word_rt)
  show "take 4 (native_payload n @ chk) = ascii ''GRAM''" "field (native_payload n @ chk) 4 1 = [1]"
    "field (native_payload n @ chk) 5 1 = [if ns_prefer_ipv6 n then 1 else 0]"
    "field (native_payload n @ chk) 6 2 = [0, 0]"
    by (simp_all add: native_payload_def Let_def field_def)
qed

lemma validated_inv:
  assumes "validated dc pref = Inr n"
  shows "ns_dc n = dc" "ns_prefer_ipv6 n = pref" "0 < dc_id dc" "dc_auth_key dc \<noteq> None"
  using assms by (auto simp: validated_def Let_def split: if_splits option.splits)

end
