(* ===== verification/Rust_Text.thy ===== *)
theory Rust_Text
  imports Prelude
begin

text \<open>
  What the source uses of Rust's strings: a string is its list of Unicode scalar values, with
  the length in bytes, trimming, splitting, replacing and the reading and writing of numbers of
  the standard library.
\<close>

section \<open>Strings\<close>

type_synonym ustring = "nat list"

text \<open>A literal.\<close>
definition us :: "string \<Rightarrow> ustring" where
  "us s = map of_char s"

definition utf8_len :: "nat \<Rightarrow> nat" where
  "utf8_len c = (if c < 0x80 then 1 else if c < 0x800 then 2 else if c < 0x10000 then 3 else 4)"

text \<open>\<open>str::len\<close>.\<close>
definition byte_len :: "ustring \<Rightarrow> nat" where
  "byte_len s = sum_list (map utf8_len s)"

text \<open>\<open>str::as_bytes\<close>.\<close>
definition utf8_char :: "nat \<Rightarrow> bytes" where
  "utf8_char c =
     (if c < 0x80 then [of_nat c]
      else if c < 0x800 then [of_nat (0xC0 + c div 64), of_nat (0x80 + c mod 64)]
      else if c < 0x10000 then [of_nat (0xE0 + c div 4096), of_nat (0x80 + c div 64 mod 64), of_nat (0x80 + c mod 64)]
      else [of_nat (0xF0 + c div 262144), of_nat (0x80 + c div 4096 mod 64), of_nat (0x80 + c div 64 mod 64),
            of_nat (0x80 + c mod 64)])"

definition as_bytes :: "ustring \<Rightarrow> bytes" where
  "as_bytes s = concat (map utf8_char s)"

lemma length_as_bytes: "length (as_bytes s) = byte_len s"
  by (induction s) (simp_all add: as_bytes_def byte_len_def utf8_char_def utf8_len_def)

text \<open>\<open>char::is_whitespace\<close>.\<close>
definition is_whitespace :: "nat \<Rightarrow> bool" where
  "is_whitespace c \<longleftrightarrow> 9 \<le> c \<and> c \<le> 13 \<or> c = 0x20 \<or> c = 0x85 \<or> c = 0xA0 \<or> c = 0x1680
     \<or> 0x2000 \<le> c \<and> c \<le> 0x200A \<or> c = 0x2028 \<or> c = 0x2029 \<or> c = 0x202F \<or> c = 0x205F \<or> c = 0x3000"

definition trim_start :: "ustring \<Rightarrow> ustring" where
  "trim_start s = dropWhile is_whitespace s"

definition trim_end :: "ustring \<Rightarrow> ustring" where
  "trim_end s = rev (dropWhile is_whitespace (rev s))"

definition trim :: "ustring \<Rightarrow> ustring" where
  "trim s = trim_end (trim_start s)"

section \<open>Splitting\<close>

text \<open>\<open>split_once\<close> at the first character that satisfies a predicate.\<close>
definition split_once_by :: "(nat \<Rightarrow> bool) \<Rightarrow> ustring \<Rightarrow> (ustring \<times> ustring) option" where
  "split_once_by p s =
     (case dropWhile (\<lambda>c. \<not> p c) s of [] \<Rightarrow> None | _ # r \<Rightarrow> Some (takeWhile (\<lambda>c. \<not> p c) s, r))"

abbreviation split_once :: "nat \<Rightarrow> ustring \<Rightarrow> (ustring \<times> ustring) option" where
  "split_once c \<equiv> split_once_by (\<lambda>x. x = c)"

definition rsplit_once :: "nat \<Rightarrow> ustring \<Rightarrow> (ustring \<times> ustring) option" where
  "rsplit_once c s = map_option (\<lambda>(a, b). (rev b, rev a)) (split_once c (rev s))"

text \<open>\<open>split\<close>: the parts between the characters that satisfy a predicate, empty ones included.\<close>
fun split_by :: "(nat \<Rightarrow> bool) \<Rightarrow> ustring \<Rightarrow> ustring list" where
  "split_by p [] = [[]]"
| "split_by p (c # s) =
     (if p c then [] # split_by p s
      else case split_by p s of q # qs \<Rightarrow> (c # q) # qs | [] \<Rightarrow> [[c]])"

definition split_whitespace :: "ustring \<Rightarrow> ustring list" where
  "split_whitespace s = filter (\<lambda>w. w \<noteq> []) (split_by is_whitespace s)"

text \<open>\<open>strip_prefix\<close> and \<open>strip_suffix\<close>.\<close>
definition strip_pre :: "ustring \<Rightarrow> ustring \<Rightarrow> ustring option" where
  "strip_pre p s = (if take (length p) s = p then Some (drop (length p) s) else None)"

definition strip_suf :: "ustring \<Rightarrow> ustring \<Rightarrow> ustring option" where
  "strip_suf p s = map_option rev (strip_pre (rev p) (rev s))"

text \<open>\<open>find\<close> of a string: the position of its first occurrence.\<close>
fun find_sub :: "ustring \<Rightarrow> ustring \<Rightarrow> nat option" where
  "find_sub p [] = (if p = [] then Some 0 else None)"
| "find_sub p (c # s) =
     (if take (length p) (c # s) = p then Some 0 else map_option Suc (find_sub p s))"

text \<open>\<open>replace\<close> of every occurrence, from the left; the pattern is not empty.\<close>
function replace :: "ustring \<Rightarrow> ustring \<Rightarrow> ustring \<Rightarrow> ustring" where
  "replace p w s =
     (if s = [] \<or> p = [] then s
      else if take (length p) s = p then w @ replace p w (drop (length p) s)
      else hd s # replace p w (tl s))"
  by pat_completeness auto
termination
  by (relation "measure (\<lambda>(p, w, s). length s)") auto

declare replace.simps [simp del]

lemma split_once_by_app:
  "\<forall>x \<in> set a. \<not> p x \<Longrightarrow> p c \<Longrightarrow> split_once_by p (a @ c # b) = Some (a, b)"
  by (simp add: split_once_by_def dropWhile_append3 takeWhile_append2)

lemma split_once_by_None: "\<forall>x \<in> set a. \<not> p x \<Longrightarrow> split_once_by p a = None"
proof -
  assume "\<forall>x \<in> set a. \<not> p x"
  then have d: "dropWhile (\<lambda>c. \<not> p c) a = []" by simp
  show ?thesis unfolding split_once_by_def d by simp
qed

lemma split_once_by_Some: "split_once_by p s = Some (a, b) \<Longrightarrow> \<exists>c. s = a @ c # b \<and> p c \<and> (\<forall>x \<in> set a. \<not> p x)"
proof -
  assume s: "split_once_by p s = Some (a, b)"
  then obtain c where c: "dropWhile (\<lambda>c. \<not> p c) s = c # b" and a: "a = takeWhile (\<lambda>c. \<not> p c) s"
    by (auto simp: split_once_by_def split: list.splits)
  have "s = a @ c # b" using takeWhile_dropWhile_id[of "\<lambda>c. \<not> p c" s] c a by simp
  moreover have "p c" using hd_dropWhile[of "\<lambda>c. \<not> p c" s] c by simp
  ultimately show ?thesis using a by (auto dest: set_takeWhileD)
qed

lemma rsplit_once_app: "c \<notin> set b \<Longrightarrow> rsplit_once c (a @ c # b) = Some (a, b)"
proof -
  assume "c \<notin> set b"
  then have "split_once c (rev b @ c # rev a) = Some (rev b, rev a)" by (intro split_once_by_app) auto
  then show ?thesis by (simp add: rsplit_once_def)
qed

lemma rsplit_once_None: "c \<notin> set s \<Longrightarrow> rsplit_once c s = None"
  using split_once_by_None[of "rev s" "\<lambda>x. x = c"] by (auto simp: rsplit_once_def)

lemma split_by_none: "\<forall>x \<in> set a. \<not> p x \<Longrightarrow> split_by p a = [a]"
  by (induction a) auto

lemma split_by_app: "\<forall>x \<in> set a. \<not> p x \<Longrightarrow> p c \<Longrightarrow> split_by p (a @ c # b) = a # split_by p b"
  by (induction a) auto

lemma trim_start_id: "s = [] \<or> \<not> is_whitespace (hd s) \<Longrightarrow> trim_start s = s"
  by (cases s) (auto simp: trim_start_def)

lemma trim_end_id: "s = [] \<or> \<not> is_whitespace (last s) \<Longrightarrow> trim_end s = s"
  by (cases s rule: rev_cases) (auto simp: trim_end_def)

lemma trim_id: "s = [] \<or> \<not> is_whitespace (hd s) \<and> \<not> is_whitespace (last s) \<Longrightarrow> trim s = s"
  by (auto simp: trim_def trim_start_id trim_end_id)

lemma trim_end_space: "is_whitespace c \<Longrightarrow> trim_end (s @ [c]) = trim_end s"
  by (simp add: trim_end_def)

lemma trim_start_space: "is_whitespace c \<Longrightarrow> trim_start (c # s) = trim_start s"
  by (simp add: trim_start_def)

section \<open>Numbers\<close>

datatype int_error = IntEmpty | IntInvalidDigit | IntPosOverflow

text \<open>\<open>char::to_digit\<close>.\<close>
definition to_digit :: "nat \<Rightarrow> nat \<Rightarrow> nat option" where
  "to_digit radix c =
     (let d = (if 48 \<le> c \<and> c \<le> 57 then c - 48 else if 97 \<le> c \<and> c \<le> 122 then c - 87
               else if 65 \<le> c \<and> c \<le> 90 then c - 55 else radix)
      in if d < radix then Some d else None)"

fun read_digits :: "nat \<Rightarrow> nat \<Rightarrow> nat \<Rightarrow> ustring \<Rightarrow> int_error + nat" where
  "read_digits radix limit acc [] = Inr acc"
| "read_digits radix limit acc (c # cs) =
     (case to_digit radix c of
        None \<Rightarrow> Inl IntInvalidDigit
      | Some d \<Rightarrow> if acc * radix + d < limit then read_digits radix limit (acc * radix + d) cs
                  else Inl IntPosOverflow)"

text \<open>\<open>from_str_radix\<close> of an unsigned type with values below \<open>limit\<close>.\<close>
definition from_str_radix :: "nat \<Rightarrow> nat \<Rightarrow> ustring \<Rightarrow> int_error + nat" where
  "from_str_radix radix limit s =
     (case s of
        [] \<Rightarrow> Inl IntEmpty
      | c # cs \<Rightarrow> if cs = [] \<and> (c = 43 \<or> c = 45) then Inl IntInvalidDigit
                  else if c = 43 then read_digits radix limit 0 cs
                  else read_digits radix limit 0 s)"

definition digit_char :: "nat \<Rightarrow> nat" where
  "digit_char d = (if d < 10 then 48 + d else 87 + d)"

text \<open>\<open>{}\<close> and \<open>{:x}\<close> of an unsigned number.\<close>
fun show_radix :: "nat \<Rightarrow> nat \<Rightarrow> ustring" where
  "show_radix radix n =
     (if n < radix \<or> radix < 2 then [digit_char n] else show_radix radix (n div radix) @ [digit_char (n mod radix)])"

declare show_radix.simps [simp del]

lemma to_digit_char: "d < radix \<Longrightarrow> radix \<le> 36 \<Longrightarrow> to_digit radix (digit_char d) = Some d"
  by (auto simp: to_digit_def digit_char_def Let_def)

lemma read_digits_snoc:
  "read_digits radix limit acc s = Inr n \<Longrightarrow> to_digit radix c = Some d \<Longrightarrow> n * radix + d < limit \<Longrightarrow>
     read_digits radix limit acc (s @ [c]) = Inr (n * radix + d)"
  by (induction s arbitrary: acc) (auto split: option.splits if_splits)

lemma read_show:
  assumes "2 \<le> radix" "radix \<le> 36" "n < limit"
  shows "read_digits radix limit 0 (show_radix radix n) = Inr n"
  using assms(3)
proof (induction n rule: less_induct)
  case (less n)
  show ?case
  proof (cases "n < radix")
    case True
    then show ?thesis using assms less.prems by (simp add: show_radix.simps[of radix n] to_digit_char)
  next
    case False
    then have "n div radix < n" using assms(1) by (simp add: div_less_dividend)
    then have "read_digits radix limit 0 (show_radix radix (n div radix)) = Inr (n div radix)"
      using less by simp
    from read_digits_snoc[OF this to_digit_char[of "n mod radix" radix]] show ?thesis
      using False assms less.prems by (simp add: show_radix.simps[of radix n])
  qed
qed

lemma digit_char_range: "d < 36 \<Longrightarrow> 48 \<le> digit_char d \<and> digit_char d \<le> 57 \<or> 97 \<le> digit_char d \<and> digit_char d \<le> 122"
  by (auto simp: digit_char_def)

lemma show_radix_chars:
  assumes "2 \<le> radix" "radix \<le> 36"
  shows "show_radix radix n \<noteq> [] \<and> (\<forall>c \<in> set (show_radix radix n). 48 \<le> c \<and> c \<le> 57 \<or> 97 \<le> c \<and> c \<le> 122)"
proof (induction n rule: less_induct)
  case (less n)
  show ?case
  proof (cases "n < radix")
    case True
    then show ?thesis using assms digit_char_range[of n] by (simp add: show_radix.simps[of radix n])
  next
    case False
    then have "n div radix < n" using assms(1) by (simp add: div_less_dividend)
    note IH = less[OF this]
    have "n mod radix < radix" using assms(1) by simp
    then have "n mod radix < 36" using assms(2) by linarith
    from digit_char_range[OF this] IH show ?thesis using False assms(1)
      by (simp add: show_radix.simps[of radix n])
  qed
qed

lemma from_show:
  assumes "2 \<le> radix" "radix \<le> 36" "n < limit"
  shows "from_str_radix radix limit (show_radix radix n) = Inr n"
proof -
  note c = show_radix_chars[OF assms(1,2), of n] and r = read_show[OF assms]
  obtain x xs where "show_radix radix n = x # xs" using c by (cases "show_radix radix n") auto
  moreover from this c have "x \<noteq> 43" "x \<noteq> 45" by auto
  ultimately show ?thesis using r by (simp add: from_str_radix_def)
qed

end
