(* ===== verification/Session_Import.thy ===== *)
theory Session_Import
  imports Native_Session Rust_Text
begin

text \<open>
  Imports of sessions exported by other libraries, \<open>grammers-session/src/import.rs\<close> and the
  validation part of \<open>import_files.rs\<close>. The base64 engines, the JSON decoder, SHA-1 and the results of SQL queries come from other packages
  and are parameters, as is the standard library's reading of an address from text. The file
  access of \<open>import_files.rs\<close> is not modelled.
\<close>

section \<open>Types and limits\<close>

definition STRING_LIMIT :: nat where "STRING_LIMIT = 512"
definition JSON_LIMIT :: nat where "JSON_LIMIT = 1024 * 1024"

datatype session_format = Pyrogram | Telethon | Gotd

datatype import_error =
    IEInputTooLarge | IEInvalidEncoding | IEInvalidLength | IEUnsupportedVersion | IEInvalidDc
  | IEInvalidBoolean | IEInvalidApiId | IEInvalidUserId | IEInvalidAuthKey | IEInvalidAuthKeyId
  | IEInvalidAddress | IEInvalidJson | IEIpv6PreferenceRequired

datatype ip_addr = V4 "32 word" | V6 "128 word"

datatype sock_addr = S4 sock4 | S6 sock6

text \<open>\<open>SocketAddr::new\<close>.\<close>
fun sock_new :: "ip_addr \<Rightarrow> u16 \<Rightarrow> sock_addr" where
  "sock_new (V4 ip) port = S4 \<lparr>ip4 = ip, port4 = port\<rparr>"
| "sock_new (V6 ip) port = S6 \<lparr>ip6 = ip, port6 = port, flowinfo = 0, scope_id = 0\<rparr>"

fun sock_ip :: "sock_addr \<Rightarrow> ip_addr" where
  "sock_ip (S4 a) = V4 (ip4 a)"
| "sock_ip (S6 a) = V6 (ip6 a)"

fun sock_port :: "sock_addr \<Rightarrow> u16" where
  "sock_port (S4 a) = port4 a"
| "sock_port (S6 a) = port6 a"

fun ip_unspecified :: "ip_addr \<Rightarrow> bool" where
  "ip_unspecified (V4 ip) = (ip = 0)"
| "ip_unspecified (V6 ip) = (ip = 0)"

fun ip_multicast :: "ip_addr \<Rightarrow> bool" where
  "ip_multicast (V4 ip) = ip4_multicast ip"
| "ip_multicast (V6 ip) = ip6_multicast ip"

text \<open>\<open>Ipv6Addr::to_ipv4_mapped\<close> and \<open>Ipv4Addr::to_ipv6_mapped\<close>.\<close>
definition to_ipv4_mapped :: "128 word \<Rightarrow> 32 word option" where
  "to_ipv4_mapped ip =
     (if unat ip div 2 ^ 32 = 0xffff then Some (of_nat (unat ip mod 2 ^ 32)) else None)"

definition to_ipv6_mapped :: "32 word \<Rightarrow> 128 word" where
  "to_ipv6_mapped ip = of_nat (0xffff * 2 ^ 32 + unat ip)"

record imported_session =
  im_data :: session_data
  im_format :: session_format
  im_api_id :: "int option"
  im_user_id :: "nat option"
  im_is_bot :: "bool option"
  im_test_mode :: "bool option"
  im_prefer_ipv6 :: bool

section \<open>Validation\<close>

text \<open>\<open>ImportOptions::apply\<close>; the options are the preference.\<close>
definition apply_options :: "bool \<Rightarrow> imported_session \<Rightarrow> import_error + imported_session" where
  "apply_options prefer_ipv6 imported =
     (if im_prefer_ipv6 imported \<and> \<not> prefer_ipv6 then Inl IEIpv6PreferenceRequired
      else Inr (imported\<lparr>im_prefer_ipv6 := prefer_ipv6\<rparr>))"

definition check_size :: "ustring \<Rightarrow> nat \<Rightarrow> import_error + unit" where
  "check_size input limit = (if byte_len input > limit then Inl IEInputTooLarge else Inr ())"

definition read_fixed :: "bytes \<Rightarrow> nat \<Rightarrow> nat \<Rightarrow> import_error + bytes" where
  "read_fixed input offset n =
     (if offset + n \<le> length input then Inr (take n (drop offset input)) else Inl IEInvalidLength)"

definition parse_boolean :: "u8 \<Rightarrow> import_error + bool" where
  "parse_boolean v = (if v = 0 then Inr False else if v = 1 then Inr True else Inl IEInvalidBoolean)"

definition validate_key :: "bytes \<Rightarrow> import_error + bytes" where
  "validate_key bs =
     (if length bs \<noteq> 256 then Inl IEInvalidAuthKey
      else if list_all (\<lambda>b. b = 0) bs then Inl IEInvalidAuthKey
      else Inr bs)"

fun unmap_ipv4 :: "ip_addr \<Rightarrow> ip_addr" where
  "unmap_ipv4 (V6 ip) = (case to_ipv4_mapped ip of Some ip' \<Rightarrow> V4 ip' | None \<Rightarrow> V6 ip)"
| "unmap_ipv4 (V4 ip) = V4 ip"

definition validate_endpoint :: "sock_addr \<Rightarrow> import_error + sock_addr" where
  "validate_endpoint endpoint =
     (let ip = unmap_ipv4 (sock_ip endpoint) in
      if sock_port endpoint = 0 \<or> ip_unspecified ip \<or> ip_multicast ip
         \<or> (case ip of V4 i \<Rightarrow> ip4_broadcast i | _ \<Rightarrow> False)
      then Inl IEInvalidAddress else Inr endpoint)"

text \<open>The routes of the test environment and of datacenter 203.\<close>

definition test_dc :: "int \<Rightarrow> bytes \<Rightarrow> nat list \<Rightarrow> dc_option" where
  "test_dc i octets segments =
     \<lparr>dc_id = i, dc_ipv4 = \<lparr>ip4 = ip4_of octets, port4 = 80\<rparr>,
      dc_ipv6 = \<lparr>ip6 = ip6_of segments, port6 = 80, flowinfo = 0, scope_id = 0\<rparr>, dc_auth_key = None\<rparr>"

definition test_dc_options :: "dc_option list" where
  "test_dc_options =
     [test_dc 1 [149, 154, 175, 10] [0x2001, 0xb28, 0xf23d, 0xf001, 0, 0, 0, 0xe],
      test_dc 2 [149, 154, 167, 40] [0x2001, 0x67c, 0x4e8, 0xf002, 0, 0, 0, 0xe],
      test_dc 3 [149, 154, 175, 117] [0x2001, 0xb28, 0xf23d, 0xf003, 0, 0, 0, 0xe]]"

definition dc_203 :: dc_option where
  "dc_203 =
     \<lparr>dc_id = 203, dc_ipv4 = ipv4 91 105 192 100,
      dc_ipv6 = ipv6 [0x2a0a, 0xf280, 0x0203, 0x000a, 0x5000, 0, 0, 0x0100], dc_auth_key = None\<rparr>"

definition endpoint_environment :: "ip_addr \<Rightarrow> bool option" where
  "endpoint_environment ip0 =
     (let ip = unmap_ipv4 ip0;
          matches_ip = (\<lambda>opt. ip = V4 (ip4 (dc_ipv4 opt)) \<or> ip = V6 (ip6 (dc_ipv6 opt)))
      in if list_ex matches_ip test_dc_options then Some True
         else if list_ex matches_ip KNOWN_DC_OPTIONS \<or> matches_ip dc_203 then Some False
         else None)"

section \<open>Building the session\<close>

definition environment_options :: "bool option \<Rightarrow> (int \<times> dc_option) list" where
  "environment_options test_mode =
     (case test_mode of
        Some True \<Rightarrow> map (\<lambda>opt. (dc_id opt, opt)) test_dc_options
      | Some False \<Rightarrow> map (\<lambda>opt. (dc_id opt, opt)) KNOWN_DC_OPTIONS
      | None \<Rightarrow> [])"

text \<open>
  The two routes stored for an explicit endpoint: the other address family never selects another
  server.
\<close>
fun endpoint_routes :: "sock_addr \<Rightarrow> sock4 \<times> sock6" where
  "endpoint_routes (S4 a) =
     (a, \<lparr>ip6 = to_ipv6_mapped (ip4 a), port6 = port4 a, flowinfo = 0, scope_id = 0\<rparr>)"
| "endpoint_routes (S6 a) = (\<lparr>ip4 = 0, port4 = port6 a\<rparr>, a)"

definition add_home_route :: "int \<Rightarrow> sock_addr option \<Rightarrow> (int \<times> dc_option) list \<Rightarrow> (int \<times> dc_option) list" where
  "add_home_route dc endpoint opts =
     (case endpoint of
        Some e \<Rightarrow> (case endpoint_routes e of (a4, a6) \<Rightarrow>
          AList.update dc \<lparr>dc_id = dc, dc_ipv4 = a4, dc_ipv6 = a6, dc_auth_key = None\<rparr> opts)
      | None \<Rightarrow> if dc = 203 then AList.update dc dc_203 opts else opts)"

definition from_parts ::
    "session_format \<Rightarrow> int \<Rightarrow> bool option \<Rightarrow> sock_addr option \<Rightarrow> bytes \<Rightarrow> import_error + imported_session" where
  "from_parts format dc test_mode endpoint key =
     (if \<not> (if test_mode = Some True then 1 \<le> dc \<and> dc \<le> 3 else (1 \<le> dc \<and> dc \<le> 5) \<or> dc = 203)
      then Inl IEInvalidDc
      else
        let opts = add_home_route dc endpoint (environment_options test_mode) in
        case map_of opts dc of
          None \<Rightarrow> Inl IEInvalidDc
        | Some home \<Rightarrow> Inr
            \<lparr>im_data = \<lparr>sd_home_dc = dc,
                        sd_dc_options = AList.update dc (home\<lparr>dc_auth_key := Some key\<rparr>) opts,
                        sd_peer_infos = [], sd_updates_state = updates_default\<rparr>,
             im_format = format, im_api_id = None, im_user_id = None, im_is_bot = None,
             im_test_mode = test_mode,
             im_prefer_ipv6 = (case endpoint of Some (S6 a) \<Rightarrow> True | _ \<Rightarrow> False)\<rparr>)"

section \<open>The formats\<close>

text \<open>The \<open>?\<close> operator on \<open>Result\<close>.\<close>
fun attempt :: "'e + 'a \<Rightarrow> ('a \<Rightarrow> 'e + 'b) \<Rightarrow> 'e + 'b" where
  "attempt (Inl e) k = Inl e"
| "attempt (Inr x) k = k x"

text \<open>Application identifier, offset of the test flag and size of the user identifier.\<close>
definition pyrogram_layout :: "bytes \<Rightarrow> import_error + (int option \<times> nat \<times> nat)" where
  "pyrogram_layout bs =
     (if length bs = 271 then
        attempt (read_fixed bs 1 4) (\<lambda>f.
          let i = be_nat f in
          if i > 2147483647 then Inl IEInvalidApiId
          else Inr (if i \<noteq> 0 then Some (int i) else None, 5, 8))
      else if length bs = 263 then Inr (None, 1, 4)
      else if length bs = 267 then Inr (None, 1, 8)
      else Inl IEInvalidLength)"

definition pyrogram_bytes :: "bytes \<Rightarrow> import_error + imported_session" where
  "pyrogram_bytes bs =
     attempt (pyrogram_layout bs) (\<lambda>(api_id, test_offset, user_size).
       let dc = int (unat (bs ! 0)) in
       attempt (parse_boolean (bs ! test_offset)) (\<lambda>test_mode.
         let key_offset = test_offset + 1 in
         attempt (validate_key (take 256 (drop key_offset bs))) (\<lambda>key.
           let user_offset = key_offset + 256 in
           attempt (read_fixed bs user_offset (if user_size = 8 then 8 else 4)) (\<lambda>f.
             let user_id = be_nat f in
             if user_id = 0 then Inl IEInvalidUserId
             else attempt (parse_boolean (bs ! (user_offset + user_size))) (\<lambda>is_bot.
               attempt (from_parts Pyrogram dc (Some test_mode) None key) (\<lambda>imported.
                 Inr (imported\<lparr>im_api_id := api_id, im_user_id := Some user_id, im_is_bot := Some is_bot\<rparr>)))))))"

definition from_pyrogram :: "(ustring \<Rightarrow> bytes option) \<Rightarrow> ustring \<Rightarrow> import_error + imported_session" where
  "from_pyrogram dec input =
     attempt (check_size input STRING_LIMIT) (\<lambda>_.
       case dec (trim input) of
         None \<Rightarrow> Inl IEInvalidEncoding
       | Some bs \<Rightarrow> pyrogram_bytes bs)"

definition telethon_bytes :: "bytes \<Rightarrow> import_error + imported_session" where
  "telethon_bytes bs =
     attempt (if length bs = 263 then attempt (read_fixed bs 1 4) (\<lambda>f. Inr (V4 (be_word f), 5))
          else if length bs = 275 then attempt (read_fixed bs 1 16) (\<lambda>f. Inr (V6 (be_word f), 17))
          else Inl IEInvalidLength) (\<lambda>(ip, port_offset).
       attempt (read_fixed bs port_offset 2) (\<lambda>f.
       attempt (validate_endpoint (sock_new ip (be_word f))) (\<lambda>endpoint.
       attempt (validate_key (drop (port_offset + 2) bs)) (\<lambda>key.
       from_parts Telethon (int (unat (bs ! 0))) (endpoint_environment ip) (Some endpoint) key))))"

definition from_telethon :: "(ustring \<Rightarrow> bytes option) \<Rightarrow> ustring \<Rightarrow> import_error + imported_session" where
  "from_telethon dec input =
     attempt (check_size input STRING_LIMIT) (\<lambda>_.
       case trim input of
         c # encoded \<Rightarrow>
           if c = 49 then
             (case dec encoded of
                None \<Rightarrow> Inl IEInvalidEncoding
              | Some bs \<Rightarrow> telethon_bytes bs)
           else Inl IEUnsupportedVersion
       | [] \<Rightarrow> Inl IEUnsupportedVersion)"

text \<open>The document \<open>GotdWrapper\<close> the JSON decoder returns.\<close>

record gotd_wrapper =
  gw_version :: nat
  gw_dc :: int
  gw_addr :: ustring
  gw_auth_key :: ustring
  gw_auth_key_id :: "ustring option"
  gw_test_mode :: bool

definition check_key_id :: "(ustring \<Rightarrow> bytes option) \<Rightarrow> (bytes \<Rightarrow> bytes) \<Rightarrow> bytes \<Rightarrow> ustring option \<Rightarrow> import_error + unit" where
  "check_key_id std_dec sha1 key auth_key_id =
     (case auth_key_id of
        None \<Rightarrow> Inr ()
      | Some i \<Rightarrow>
          if byte_len i \<noteq> 12 then Inl IEInvalidAuthKeyId
          else case std_dec i of
            None \<Rightarrow> Inl IEInvalidAuthKeyId
          | Some bs \<Rightarrow> if bs \<noteq> take 8 (drop 12 (sha1 key)) then Inl IEInvalidAuthKeyId else Inr ())"

definition from_gotd_json ::
    "(ustring \<Rightarrow> gotd_wrapper option) \<Rightarrow> (ustring \<Rightarrow> sock_addr option) \<Rightarrow> (ustring \<Rightarrow> bytes option) \<Rightarrow> (bytes \<Rightarrow> bytes)
       \<Rightarrow> ustring \<Rightarrow> import_error + imported_session" where
  "from_gotd_json json addr std_dec sha1 input =
     attempt (check_size input JSON_LIMIT) (\<lambda>_.
       case json input of
         None \<Rightarrow> Inl IEInvalidJson
       | Some w \<Rightarrow>
           if gw_version w \<noteq> 1 then Inl IEUnsupportedVersion
           else case addr (gw_addr w) of
             None \<Rightarrow> Inl IEInvalidAddress
           | Some a \<Rightarrow> attempt (validate_endpoint a) (\<lambda>endpoint.
               if (case endpoint_environment (sock_ip endpoint) of
                     Some known_test \<Rightarrow> known_test \<noteq> gw_test_mode w | None \<Rightarrow> False)
               then Inl IEInvalidAddress
               else if byte_len (gw_auth_key w) \<noteq> 344 then Inl IEInvalidAuthKey
               else case std_dec (gw_auth_key w) of
                 None \<Rightarrow> Inl IEInvalidAuthKey
               | Some k \<Rightarrow> attempt (validate_key k) (\<lambda>key.
                   attempt (check_key_id std_dec sha1 key (gw_auth_key_id w)) (\<lambda>_.
                   from_parts Gotd (gw_dc w) (Some (gw_test_mode w)) (Some endpoint) key))))"

definition parse_import ::
    "(ustring \<Rightarrow> bytes option) \<Rightarrow> (ustring \<Rightarrow> gotd_wrapper option) \<Rightarrow> (ustring \<Rightarrow> sock_addr option) \<Rightarrow> (ustring \<Rightarrow> bytes option)
       \<Rightarrow> (bytes \<Rightarrow> bytes) \<Rightarrow> ustring \<Rightarrow> import_error + imported_session" where
  "parse_import dec json addr std_dec sha1 input =
     attempt (check_size input JSON_LIMIT) (\<lambda>_.
       case trim_start input of
         c # _ \<Rightarrow> if c = 123 then from_gotd_json json addr std_dec sha1 input
                  else if c = 49 then from_telethon dec input
                  else from_pyrogram dec input
       | [] \<Rightarrow> from_pyrogram dec input)"

definition parse_pyrogram_string :: "(ustring \<Rightarrow> bytes option) \<Rightarrow> ustring \<Rightarrow> bool \<Rightarrow> import_error + imported_session" where
  "parse_pyrogram_string dec input options = attempt (from_pyrogram dec input) (apply_options options)"

definition parse_telethon_string :: "(ustring \<Rightarrow> bytes option) \<Rightarrow> ustring \<Rightarrow> bool \<Rightarrow> import_error + imported_session" where
  "parse_telethon_string dec input options = attempt (from_telethon dec input) (apply_options options)"

definition parse_gotd_json ::
    "(ustring \<Rightarrow> gotd_wrapper option) \<Rightarrow> (ustring \<Rightarrow> sock_addr option) \<Rightarrow> (ustring \<Rightarrow> bytes option) \<Rightarrow> (bytes \<Rightarrow> bytes)
       \<Rightarrow> ustring \<Rightarrow> bool \<Rightarrow> import_error + imported_session" where
  "parse_gotd_json json addr std_dec sha1 input options =
     attempt (from_gotd_json json addr std_dec sha1 input) (apply_options options)"

section \<open>Rows of a session database\<close>

datatype sql_value = SNull | SInteger int | SReal | SText ustring | SBlob bytes

datatype import_file_error = FUnsupportedSchema | FMalformedDatabase | FInvalidData import_error

text \<open>\<open>?\<close> on an \<open>ImportError\<close>, converted by \<open>From\<close>.\<close>
fun try_data :: "import_error + 'a \<Rightarrow> ('a \<Rightarrow> import_file_error + 'b) \<Rightarrow> import_file_error + 'b" where
  "try_data (Inl e) k = Inl (FInvalidData e)"
| "try_data (Inr x) k = k x"

text \<open>The value at an index of a row, \<open>row.get(index)\<close>.\<close>
definition column :: "sql_value list \<Rightarrow> nat \<Rightarrow> sql_value option" where
  "column row i = (if i < length row then Some (row ! i) else None)"

definition row_integer :: "sql_value list \<Rightarrow> nat \<Rightarrow> import_file_error + int" where
  "row_integer row i = (case column row i of Some (SInteger v) \<Rightarrow> Inr v | _ \<Rightarrow> Inl FMalformedDatabase)"

definition row_boolean :: "sql_value list \<Rightarrow> nat \<Rightarrow> import_file_error + bool" where
  "row_boolean row i = attempt (row_integer row i) (\<lambda>v.
     if v = 0 then Inr False else if v = 1 then Inr True else Inl (FInvalidData IEInvalidBoolean))"

definition row_dc_id :: "sql_value list \<Rightarrow> import_file_error + int" where
  "row_dc_id row = attempt (row_integer row 0) (\<lambda>v.
     if i32_min \<le> v \<and> v \<le> i32_max then Inr v else Inl (FInvalidData IEInvalidDc))"

definition row_auth_key :: "sql_value list \<Rightarrow> nat \<Rightarrow> import_file_error + bytes" where
  "row_auth_key row i =
     (case column row i of Some (SBlob bs) \<Rightarrow> try_data (validate_key bs) Inr | _ \<Rightarrow> Inl (FInvalidData IEInvalidAuthKey))"

definition row_endpoint ::
    "(ustring \<Rightarrow> ip_addr option) \<Rightarrow> sql_value list \<Rightarrow> nat \<Rightarrow> nat \<Rightarrow> import_file_error + sock_addr" where
  "row_endpoint parse_ip row address port =
     (case column row address of
        Some (SText t) \<Rightarrow>
          (case parse_ip t of
             None \<Rightarrow> Inl (FInvalidData IEInvalidAddress)
           | Some ip \<Rightarrow> attempt (row_integer row port) (\<lambda>v.
               if 0 \<le> v \<and> v \<le> 65535 then try_data (validate_endpoint (sock_new ip (of_int v))) Inr
               else Inl (FInvalidData IEInvalidAddress)))
      | _ \<Rightarrow> Inl (FInvalidData IEInvalidAddress))"

text \<open>\<open>single_row\<close> on the rows the query returned (at most two, by its limit).\<close>
fun single_row :: "sql_value list list \<Rightarrow> import_file_error + sql_value list" where
  "single_row [] = Inl FMalformedDatabase"
| "single_row [row] = Inr row"
| "single_row (row # _ # _) = Inl FMalformedDatabase"

text \<open>
  \<open>schema\<close> on the columns the database lists: name, upper-cased type, hidden flag. The
  declaration of the table itself is the parameter \<open>is_table\<close>.
\<close>
fun schema_loop :: "(string \<times> string) list \<Rightarrow> string list \<Rightarrow> (string \<times> string \<times> int) list \<Rightarrow> string list option" where
  "schema_loop columns found [] = Some found"
| "schema_loop columns found ((name, kind, hidden) # rows) =
     (if hidden \<noteq> 0 \<or> \<not> list_ex (\<lambda>(n, k). n = name \<and> k = kind) columns \<or> name \<in> set found then None
      else schema_loop columns (found @ [name]) rows)"

definition schema :: "bool \<Rightarrow> (string \<times> string \<times> int) list \<Rightarrow> (string \<times> string) list \<Rightarrow> import_file_error + unit" where
  "schema is_table rows columns =
     (if \<not> is_table then Inl FUnsupportedSchema
      else case schema_loop columns [] rows of
        None \<Rightarrow> Inl FUnsupportedSchema
      | Some found \<Rightarrow> if length found \<noteq> length columns then Inl FUnsupportedSchema else Inr ())"

text \<open>What the connection answers about the table \<open>sessions\<close>.\<close>
record sessions_table =
  is_plain_table :: bool
  table_columns :: "(string \<times> string \<times> int) list"
  table_rows :: "sql_value list list"

definition pyrogram_columns :: "int \<Rightarrow> (string \<times> string) list" where
  "pyrogram_columns version =
     [(''dc_id'', ''INTEGER''), (''api_id'', ''INTEGER''), (''test_mode'', ''INTEGER''), (''auth_key'', ''BLOB''),
      (''date'', ''INTEGER''), (''user_id'', ''INTEGER''), (''is_bot'', ''INTEGER'')]
     @ (if version = 7 then [(''server_address'', ''TEXT''), (''port'', ''INTEGER'')] else [])"

definition row_api_id :: "sql_value list \<Rightarrow> import_file_error + int option" where
  "row_api_id row =
     (case row ! 1 of
        SNull \<Rightarrow> Inr None
      | SInteger v \<Rightarrow> if v = 0 then Inr None else if 1 \<le> v \<and> v \<le> i32_max then Inr (Some v)
                      else Inl (FInvalidData IEInvalidApiId)
      | _ \<Rightarrow> Inl (FInvalidData IEInvalidApiId))"

definition row_user_id :: "sql_value list \<Rightarrow> import_file_error + nat" where
  "row_user_id row = attempt (row_integer row 4) (\<lambda>v.
     if 0 < v then Inr (nat v) else Inl (FInvalidData IEInvalidUserId))"

text \<open>The endpoint of a Kurigram row, which must belong to the row's environment.\<close>
definition kurigram_endpoint ::
    "(ustring \<Rightarrow> ip_addr option) \<Rightarrow> int \<Rightarrow> bool \<Rightarrow> sql_value list \<Rightarrow> import_file_error + sock_addr option" where
  "kurigram_endpoint parse_ip version test_mode row =
     (if version = 7 then
        attempt (row_endpoint parse_ip row 6 7) (\<lambda>endpoint.
          if (case endpoint_environment (sock_ip endpoint) of Some known \<Rightarrow> known \<noteq> test_mode | None \<Rightarrow> False)
          then Inl (FInvalidData IEInvalidAddress) else Inr (Some endpoint))
      else Inr None)"

definition read_pyrogram ::
    "(ustring \<Rightarrow> ip_addr option) \<Rightarrow> sessions_table \<Rightarrow> int \<Rightarrow> bool \<Rightarrow> import_file_error + imported_session" where
  "read_pyrogram parse_ip t version options =
     (if version \<noteq> 3 \<and> version \<noteq> 7 then Inl FUnsupportedSchema
      else attempt (schema (is_plain_table t) (table_columns t) (pyrogram_columns version)) (\<lambda>_.
        attempt (single_row (table_rows t)) (\<lambda>row.
        attempt (row_dc_id row) (\<lambda>dc.
        attempt (row_api_id row) (\<lambda>api_id.
        attempt (row_boolean row 2) (\<lambda>test_mode.
        attempt (row_auth_key row 3) (\<lambda>key.
        attempt (row_user_id row) (\<lambda>user_id.
        attempt (row_boolean row 5) (\<lambda>is_bot.
        attempt (kurigram_endpoint parse_ip version test_mode row) (\<lambda>endpoint.
        try_data (from_parts Pyrogram dc (Some test_mode) endpoint key) (\<lambda>imported.
        try_data (apply_options options
          (imported\<lparr>im_api_id := api_id, im_user_id := Some user_id, im_is_bot := Some is_bot\<rparr>)) Inr)))))))))))"

definition telethon_columns :: "int \<Rightarrow> (string \<times> string) list" where
  "telethon_columns version =
     [(''dc_id'', ''INTEGER''), (''server_address'', ''TEXT''), (''port'', ''INTEGER''), (''auth_key'', ''BLOB''),
      (''takeout_id'', ''INTEGER'')]
     @ (if version = 8 then [(''tmp_auth_key'', ''BLOB'')] else [])"

definition read_telethon ::
    "(ustring \<Rightarrow> ip_addr option) \<Rightarrow> sessions_table \<Rightarrow> int \<Rightarrow> bool \<Rightarrow> import_file_error + imported_session" where
  "read_telethon parse_ip t version options =
     (if version \<noteq> 7 \<and> version \<noteq> 8 then Inl FUnsupportedSchema
      else attempt (schema (is_plain_table t) (table_columns t) (telethon_columns version)) (\<lambda>_.
        attempt (single_row (table_rows t)) (\<lambda>row.
        attempt (row_dc_id row) (\<lambda>dc.
        attempt (row_endpoint parse_ip row 1 2) (\<lambda>endpoint.
        attempt (row_auth_key row 3) (\<lambda>key.
        try_data (from_parts Telethon dc (endpoint_environment (sock_ip endpoint)) (Some endpoint) key) (\<lambda>imported.
        try_data (apply_options options imported) Inr)))))))"

end
