(* ===== verification/Base64_Url.thy ===== *)
theory Base64_Url
  imports Native_Session
begin

text \<open>
  The URL-safe base64 of RFC 4648 without padding, written as arithmetic on the numbers the byte
  string and the text stand for: it shows that the hypotheses on the \<open>base64\<close> engine of the
  session strings can hold, and it is the engine of the examples below.
\<close>

fun digits64 :: "nat \<Rightarrow> nat \<Rightarrow> nat list" where
  "digits64 0 v = []"
| "digits64 (Suc n) v = digits64 n (v div 64) @ [v mod 64]"

definition value64 :: "nat list \<Rightarrow> nat" where
  "value64 ds = foldl (\<lambda>a d. a * 64 + d) 0 ds"

definition b64_char :: "nat \<Rightarrow> u8" where
  "b64_char v = of_nat (if v < 26 then 65 + v else if v < 52 then 71 + v else if v < 62 then v - 4
                        else if v = 62 then 45 else 95)"

definition b64_val :: "u8 \<Rightarrow> nat" where
  "b64_val c = (let k = unat c in
     if 65 \<le> k \<and> k \<le> 90 then k - 65 else if 97 \<le> k \<and> k \<le> 122 then k - 71
     else if 48 \<le> k \<and> k \<le> 57 then k + 4 else if k = 45 then 62 else 63)"

definition text_len :: "nat \<Rightarrow> nat" where
  "text_len n = (4 * n + 2) div 3"

definition b64_enc :: "bytes \<Rightarrow> bytes" where
  "b64_enc bs = (let n = length bs; m = text_len n in
     map b64_char (digits64 m (be_nat bs * 2 ^ (6 * m - 8 * n))))"

definition b64_dec :: "bytes \<Rightarrow> bytes option" where
  "b64_dec e = (let m = length e; n = 3 * m div 4; pad = 2 ^ (6 * m - 8 * n); v = value64 (map b64_val e) in
     if list_all in_alphabet e \<and> m mod 4 \<noteq> 1 \<and> v mod pad = 0 then Some (be_bytes n (v div pad)) else None)"

lemma length_digits64 [simp]: "length (digits64 n v) = n"
  by (induction n arbitrary: v) auto

lemma digits64_lt: "d \<in> set (digits64 n v) \<Longrightarrow> d < 64"
  by (induction n arbitrary: v) auto

lemma value64_snoc [simp]: "value64 (ds @ [d]) = value64 ds * 64 + d"
  by (simp add: value64_def)

lemma value64_digits64: "value64 (digits64 n v) = v mod 64 ^ n"
proof (induction n arbitrary: v)
  case 0
  then show ?case by (simp add: value64_def)
next
  case (Suc n)
  have "v mod 64 ^ Suc n = 64 * (v div 64 mod 64 ^ n) + v mod 64" by (simp add: mod_mult2_eq)
  with Suc show ?case by simp
qed

lemma digits64_value64: "\<forall>d \<in> set ds. d < 64 \<Longrightarrow> digits64 (length ds) (value64 ds) = ds"
  by (induction ds rule: rev_induct) auto

lemma value64_bound: "\<forall>d \<in> set ds. d < 64 \<Longrightarrow> value64 ds < 64 ^ length ds"
  by (metis digits64_value64 mod_less_divisor value64_digits64 zero_less_numeral zero_less_power)

lemma b64_char_cases:
  "v < 64 \<Longrightarrow> unat (b64_char v) = (if v < 26 then 65 + v else if v < 52 then 71 + v else if v < 62 then v - 4
                        else if v = 62 then 45 else 95)"
  by (simp add: b64_char_def unat_of_nat)

lemma b64_val_char: "v < 64 \<Longrightarrow> b64_val (b64_char v) = v"
  by (auto simp: b64_val_def Let_def b64_char_cases)

lemma in_alphabet_nat:
  "in_alphabet c \<longleftrightarrow> 48 \<le> unat c \<and> unat c \<le> 57 \<or> 65 \<le> unat c \<and> unat c \<le> 90
     \<or> 97 \<le> unat c \<and> unat c \<le> 122 \<or> unat c = 45 \<or> unat c = 95"
proof -
  have "c = 45 \<longleftrightarrow> unat c = 45" "c = 95 \<longleftrightarrow> unat c = 95"
    by (auto intro!: unsigned_word_eqI[of c])
  then show ?thesis by (auto simp: in_alphabet_def is_ascii_alphanumeric_def)
qed

lemma b64_char_alphabet: "v < 64 \<Longrightarrow> in_alphabet (b64_char v)"
  by (auto simp: in_alphabet_nat b64_char_cases)

lemma b64_val_lt: "in_alphabet c \<Longrightarrow> b64_val c < 64"
  by (auto simp: in_alphabet_nat b64_val_def Let_def)

lemma b64_char_val: "in_alphabet c \<Longrightarrow> b64_char (b64_val c) = c"
proof -
  assume c: "in_alphabet c"
  then have "unat (b64_char (b64_val c)) = unat c"
    unfolding b64_char_cases[OF b64_val_lt[OF c]]
    by (auto simp: in_alphabet_nat b64_val_def Let_def)
  then show ?thesis by (rule unsigned_word_eqI)
qed

lemma text_len_back:
  "3 * text_len n div 4 = n" "text_len n mod 4 \<noteq> 1" "8 * n \<le> 6 * text_len n"
  unfolding text_len_def by presburger+

lemma byte_len_back: "m mod 4 \<noteq> 1 \<Longrightarrow> text_len (3 * m div 4) = m" "8 * (3 * m div 4) \<le> 6 * m"
  unfolding text_len_def by presburger+

lemma pow64: "(64 :: nat) ^ m = 256 ^ n * 2 ^ (6 * m - 8 * n)" if "8 * n \<le> 6 * m"
proof -
  have "(64 :: nat) ^ m = 2 ^ (6 * m)" "(256 :: nat) ^ n = 2 ^ (8 * n)"
    using power_mult[of "2 :: nat" 6 m] power_mult[of "2 :: nat" 8 n] by simp_all
  then show ?thesis using that by (simp flip: power_add)
qed

lemma dec_enc: "b64_dec (b64_enc bs) = Some bs"
proof -
  define n m where "n = length bs" and "m = text_len n"
  define v where "v = be_nat bs * 2 ^ (6 * m - 8 * n)"
  have "v < 64 ^ m"
    using be_nat_bound[of bs] pow64[OF text_len_back(3)[of n]] by (simp add: v_def m_def n_def)
  then have v: "value64 (map b64_val (map b64_char (digits64 m v))) = v"
    by (simp add: map_idI b64_val_char digits64_lt value64_digits64 comp_def cong: map_cong)
  have e: "b64_enc bs = map b64_char (digits64 m v)"
    by (simp add: b64_enc_def Let_def v_def m_def n_def)
  have "list_all in_alphabet (map b64_char (digits64 m v))"
    by (auto simp: list_all_iff dest: digits64_lt b64_char_alphabet)
  then show ?thesis
    using v text_len_back[of n] unfolding e b64_dec_def Let_def
    by (simp add: m_def[symmetric]) (simp add: v_def n_def)
qed

lemma enc_dec: "b64_dec e = Some bs \<Longrightarrow> b64_enc bs = e"
proof -
  assume d: "b64_dec e = Some bs"
  define m n where "m = length e" and "n = 3 * m div 4"
  define p :: nat where "p = 2 ^ (6 * m - 8 * n)"
  define ds where "ds = map b64_val e"
  have d: "list_all in_alphabet e" "m mod 4 \<noteq> 1" "value64 ds mod p = 0" "bs = be_bytes n (value64 ds div p)"
    using d by (auto simp: b64_dec_def Let_def m_def n_def p_def ds_def split: if_splits)
  have ds: "\<forall>d \<in> set ds. d < 64" using d(1) by (auto simp: ds_def list_all_iff b64_val_lt)
  have "value64 ds < 256 ^ n * p"
    using value64_bound[OF ds] pow64[OF byte_len_back(2)[of m]] by (simp add: ds_def m_def n_def p_def)
  then have "value64 ds div p < 256 ^ n" by (simp add: less_mult_imp_div_less)
  moreover have "value64 ds div p * p = value64 ds" using d(3) by auto
  moreover have len: "length bs = n" using d(4) by simp
  ultimately have "b64_enc bs = map b64_char (digits64 m (value64 ds))"
    unfolding b64_enc_def Let_def len byte_len_back(1)[OF d(2), folded n_def] p_def[symmetric] by (simp add: d(4))
  also have "\<dots> = map b64_char ds" using digits64_value64[OF ds] by (simp add: ds_def m_def)
  also have "\<dots> = e" using d(1) by (simp add: ds_def list_all_iff b64_char_val map_idI)
  finally show ?thesis .
qed

lemma b64_is_base64: "base64_ok b64_enc b64_dec"
proof -
  have "list_all in_alphabet (b64_enc bs)" for bs
    by (auto simp: b64_enc_def Let_def list_all_iff dest: digits64_lt b64_char_alphabet)
  moreover have "length (b64_enc bs) = (4 * length bs + 2) div 3" for bs
    by (simp add: b64_enc_def Let_def text_len_def)
  ultimately show ?thesis by (auto simp: base64_ok_def dec_enc enc_dec)
qed

end
