(* ===== verification/Native_Strings.thy ===== *)
theory Native_Strings
  imports Base64_Url
begin

text \<open>
  What the portable authorization strings guarantee: round trip, canonical form, and export from
  a restored storage.
\<close>

section \<open>Round trips\<close>

lemma PREFIX_split: "PREFIX = ascii ''grammers:'' @ ascii ''1:''"
  by (simp add: PREFIX_def ascii_def)

lemma strip_prefix_app [simp]: "strip_prefix p (p @ s) = Some s"
  by (simp add: strip_prefix_def)

lemma strip_prefix_Some: "strip_prefix p s = Some r \<Longrightarrow> s = p @ r"
  by (metis append_take_drop_id option.distinct(1) option.inject strip_prefix_def)

lemma parse_encode:
  assumes "base64_ok enc dec" "\<And>m. length (sha256 m) = 32"
    and "validated dc pref = Inr n" "native_sized dc"
  shows "parse_session dec sha256 (encode_session enc sha256 n) = Inr n
     \<and> length (encode_session enc sha256 n) = 454"
proof -
  note v = validated_inv[OF assms(3)]
  define p where "p = native_payload n"
  define r where "r = p @ sha256 (PREFIX @ p)"
  have p: "length p = 300" using assms(4) v(1) by (simp add: p_def length_payload)
  then have r: "length r = 332" by (simp add: r_def assms(2))
  have e: "dec (enc r) = Some r" "length (enc r) = 443" "list_all in_alphabet (enc r)"
    using assms(1) r by (simp_all add: base64_ok_def)
  have "encode_session enc sha256 n = PREFIX @ enc r"
    by (simp add: encode_session_def Let_def p_def r_def)
  then have es: "encode_session enc sha256 n = ascii ''grammers:'' @ ascii ''1:'' @ enc r"
    by (simp add: PREFIX_split)
  note f = parse_dc_payload[of n, folded p_def, unfolded v(1), OF assms(4) v(3,4), of "sha256 (PREFIX @ p)", folded r_def]
  have "parse_record sha256 r = validated dc pref"
    using f p v(2) by (simp add: parse_record_def PAYLOAD_LEN_def r_def[symmetric]) (simp add: r_def)
  then show ?thesis
    using assms(3) e r
    by (simp add: parse_session_def es MAX_INPUT_LEN_def ENCODED_LEN_def DECODED_LEN_def)
qed

text \<open>
  C22: a validated session survives its portable string: parsing what \<open>encode\<close> writes gives the
  session back, endpoints, key and address preference included, and the string is 454 bytes.
\<close>
theorem native_string_roundtrip:
  assumes "base64_ok enc dec" "\<And>m. length (sha256 m) = 32"
    and "validated dc pref = Inr n" "native_sized dc"
  shows "parse_session dec sha256 (encode_session enc sha256 n) = Inr n
     \<and> length (encode_session enc sha256 n) = 454"
  using parse_encode[OF assms] .

definition sample_dc :: dc_option where
  "sample_dc = \<lparr>dc_id = 2, dc_ipv4 = ipv4 149 154 167 41,
     dc_ipv6 = ipv6 [0x2001, 0x67c, 0x4e8, 0xf002, 0, 0, 0, 0xa], dc_auth_key = Some (replicate 256 7)\<rparr>"

lemma sample_dc_valid:
  "validated sample_dc False = Inr \<lparr>ns_dc = sample_dc, ns_prefer_ipv6 = False\<rparr>" "native_sized sample_dc"
  by (simp_all add: validated_def sample_dc_def native_sized_def ipv4_def ipv6_def ip4_of_def ip6_of_def
      be_nat_Cons ip4_multicast_def ip4_broadcast_def ip6_multicast_def list_all_iff)

theorem native_string_roundtrip_witness:
  "parse_session b64_dec (\<lambda>_. replicate 32 0)
     (encode_session b64_enc (\<lambda>_. replicate 32 0) \<lparr>ns_dc = sample_dc, ns_prefer_ipv6 = False\<rparr>)
       = Inr \<lparr>ns_dc = sample_dc, ns_prefer_ipv6 = False\<rparr>
   \<and> length (encode_session b64_enc (\<lambda>_. replicate 32 0) \<lparr>ns_dc = sample_dc, ns_prefer_ipv6 = False\<rparr>) = 454"
  by (rule native_string_roundtrip[OF b64_is_base64 _ sample_dc_valid]) simp

lemma record_decompose:
  assumes "length bs = 332" "take 4 bs = ascii ''GRAM''" "field bs 4 1 = [1]" "field bs 6 2 = [0, 0]"
    "unat (hd (field bs 5 1)) div 2 = 0"
  shows "native_payload \<lparr>ns_dc = parse_dc bs, ns_prefer_ipv6 = (field bs 5 1 = [1])\<rparr> = take 300 bs"
proof -
  have flag: "field bs 5 1 = [if field bs 5 1 = [1] then 1 else 0]"
  proof -
    obtain b where b: "field bs 5 1 = [b]"
      using length_field[of 5 1 bs] assms(1) by (auto simp: length_Suc_conv)
    have "unat b = 0 \<or> unat b = 1" using assms(5) b by auto
    then have "b = 0 \<or> b = 1" by (metis unat_0 unat_1 unsigned_word_eqI)
    then show ?thesis using b by auto
  qed
  have l: "length (field bs k m) = m" if "k + m \<le> 332" for k m
    using that assms(1) by (simp add: length_field)
  have "bs = take 4 bs @ drop 4 bs" by simp
  also have "drop 4 bs = field bs 4 1 @ field bs 5 1 @ field bs 6 2 @ field bs 8 4 @ field bs 12 4
      @ field bs 16 2 @ field bs 18 16 @ field bs 34 2 @ field bs 36 4 @ field bs 40 4
      @ field bs 44 256 @ drop 300 bs"
    using field_split[of 4 bs 1] field_split[of 5 bs 1] field_split[of 6 bs 2] field_split[of 8 bs 4]
      field_split[of 12 bs 4] field_split[of 16 bs 2] field_split[of 18 bs 16] field_split[of 34 bs 2]
      field_split[of 36 bs 4] field_split[of 40 bs 4] field_split[of 44 bs 256] by simp
  finally have "take 300 bs = take 300 (take 4 bs @ field bs 4 1 @ field bs 5 1 @ field bs 6 2 @ field bs 8 4
      @ field bs 12 4 @ field bs 16 2 @ field bs 18 16 @ field bs 34 2 @ field bs 36 4 @ field bs 40 4
      @ field bs 44 256 @ drop 300 bs)" by (rule arg_cong)
  also have "\<dots> = take 4 bs @ field bs 4 1 @ field bs 5 1 @ field bs 6 2 @ field bs 8 4
      @ field bs 12 4 @ field bs 16 2 @ field bs 18 16 @ field bs 34 2 @ field bs 36 4 @ field bs 40 4
      @ field bs 44 256" using assms(1) by (simp add: l)
  also have "\<dots> = native_payload \<lparr>ns_dc = parse_dc bs, ns_prefer_ipv6 = (field bs 5 1 = [1])\<rparr>"
    using flag assms(2,3,4) by (simp add: native_payload_def parse_dc_def Let_def i32_be_be_i32 l be_bytes_word)
  finally show ?thesis by simp
qed

text \<open>
  C23: the parser accepts only canonical strings: whatever it accepts is exactly what \<open>encode\<close>
  writes for the session returned, so two different strings never give the same session, and the
  session has passed the validation of its datacenter, key and endpoints.
\<close>
theorem native_string_canonical:
  assumes "base64_ok enc dec" and "parse_session dec sha256 input = Inr n"
  shows "encode_session enc sha256 n = input \<and> validated (ns_dc n) (ns_prefer_ipv6 n) = Inr n"
proof -
  obtain versioned encoded bs where
    i: "strip_prefix (ascii ''grammers:'') input = Some versioned" "strip_prefix (ascii ''1:'') versioned = Some encoded"
    and e: "dec encoded = Some bs" "length bs = 332" "parse_record sha256 bs = Inr n"
    using assms(2) by (auto simp: parse_session_def DECODED_LEN_def split: if_splits option.splits)
  have input: "input = PREFIX @ encoded" using i[THEN strip_prefix_Some] by (simp add: PREFIX_split)
  have r: "drop 300 bs = sha256 (PREFIX @ take 300 bs)" "take 4 bs = ascii ''GRAM''" "field bs 4 1 = [1]"
    "field bs 6 2 = [0, 0]" "unat (hd (field bs 5 1)) div 2 = 0"
    "validated (parse_dc bs) (field bs 5 1 = [1]) = Inr n"
    using e(3) by (auto simp: parse_record_def PAYLOAD_LEN_def split: if_splits)
  note v = validated_inv[OF r(6)]
  have "n = \<lparr>ns_dc = parse_dc bs, ns_prefer_ipv6 = (field bs 5 1 = [1])\<rparr>" using v by simp
  then have p: "native_payload n = take 300 bs" using record_decompose[OF e(2) r(2-5)] by simp
  have "native_payload n @ sha256 (PREFIX @ native_payload n) = bs"
    unfolding p using r(1) by (metis append_take_drop_id)
  moreover have "enc bs = encoded" using assms(1) e(1) by (simp add: base64_ok_def)
  ultimately show ?thesis using input r(6) v by (simp add: encode_session_def Let_def)
qed

theorem native_string_canonical_witness:
  "encode_session b64_enc (\<lambda>_. replicate 32 0) \<lparr>ns_dc = sample_dc, ns_prefer_ipv6 = False\<rparr>
     = encode_session b64_enc (\<lambda>_. replicate 32 0) \<lparr>ns_dc = sample_dc, ns_prefer_ipv6 = False\<rparr>
   \<and> validated (ns_dc \<lparr>ns_dc = sample_dc, ns_prefer_ipv6 = False\<rparr>)
       (ns_prefer_ipv6 \<lparr>ns_dc = sample_dc, ns_prefer_ipv6 = False\<rparr>) = Inr \<lparr>ns_dc = sample_dc, ns_prefer_ipv6 = False\<rparr>"
proof (rule native_string_canonical[OF b64_is_base64])
  show "parse_session b64_dec (\<lambda>_. replicate 32 0)
      (encode_session b64_enc (\<lambda>_. replicate 32 0) \<lparr>ns_dc = sample_dc, ns_prefer_ipv6 = False\<rparr>)
    = Inr \<lparr>ns_dc = sample_dc, ns_prefer_ipv6 = False\<rparr>"
    using parse_encode[OF b64_is_base64 _ sample_dc_valid, of "\<lambda>_. replicate 32 0"] by simp
qed

text \<open>
  Exporting the session of a storage restored from a portable string gives the same session:
  the home datacenter and its route go through the in-memory storage unchanged.
\<close>
theorem native_memory_roundtrip:
  assumes "validated dc pref = Inr n"
  shows "from_session (erase f (memory_ops dbg)) (into_memory_session n) pref = Some (Inr n)"
proof -
  note v = validated_inv[OF assms]
  have u: "mem_usable (into_memory_session n)"
    by (simp add: into_memory_session_def into_session_data_def memory_from_def mem_usable_def data_usable_def updates_default_def)
  have "v_home (mem_view (into_memory_session n)) = dc_id dc" "v_dcs (mem_view (into_memory_session n)) (dc_id dc) = Some dc"
    using v(1) by (simp_all add: into_memory_session_def into_session_data_def memory_from_def mem_view_def data_view_def)
  then show ?thesis
    using assms v(3) erased_mem.home[OF u, of f dbg] erased_mem.option[OF u, of f dbg "dc_id dc"]
    by (simp add: from_session_def)
qed

theorem native_memory_roundtrip_witness:
  "from_session (erase (\<lambda>_. ()) (memory_ops True))
     (into_memory_session \<lparr>ns_dc = sample_dc, ns_prefer_ipv6 = False\<rparr>) False
     = Some (Inr \<lparr>ns_dc = sample_dc, ns_prefer_ipv6 = False\<rparr>)"
  by (rule native_memory_roundtrip[OF sample_dc_valid(1)])

end
