(* ===== verification/Import_Laws.thy ===== *)
theory Import_Laws
  imports Session_Import Native_Strings
begin

text \<open>
  What the imports of foreign sessions guarantee: the shape of the session data they build, that
  an accepted session can be exported again as a portable string, and that the binary layouts
  are read back.
\<close>

section \<open>Routes\<close>

definition route4_valid :: "sock4 \<Rightarrow> bool" where
  "route4_valid a \<longleftrightarrow> port4 a \<noteq> 0 \<and> ip4 a \<noteq> 0 \<and> \<not> ip4_multicast (ip4 a) \<and> \<not> ip4_broadcast (ip4 a)"

definition route6_valid :: "sock6 \<Rightarrow> bool" where
  "route6_valid a \<longleftrightarrow> port6 a \<noteq> 0 \<and> ip6 a \<noteq> 0 \<and> \<not> ip6_multicast (ip6 a)"

text \<open>The option has a usable route when the preference is \<open>p\<close>.\<close>
definition routes_ok :: "dc_option \<Rightarrow> bool \<Rightarrow> bool" where
  "routes_ok dc p \<longleftrightarrow>
     (route4_valid (dc_ipv4 dc) \<and> route6_valid (dc_ipv6 dc))
     \<or> p \<and> ip4 (dc_ipv4 dc) = 0 \<and> route6_valid (dc_ipv6 dc)"

lemma validated_routes:
  assumes "routes_ok dc p" "0 < dc_id dc" "dc_auth_key dc = Some key" "\<not> list_all (\<lambda>b. b = 0) key"
  shows "validated dc p = Inr \<lparr>ns_dc = dc, ns_prefer_ipv6 = p\<rparr>"
  using assms by (auto simp: validated_def Let_def routes_ok_def route4_valid_def route6_valid_def)

lemma unat_mapped: "unat (to_ipv6_mapped ip) = 0xffff * 2 ^ 32 + unat ip"
proof -
  have "unat ip < 2 ^ 32" using unsigned_less[of ip, where ?'a = nat] by simp
  then show ?thesis
    unfolding to_ipv6_mapped_def using unat_of_nat[of "0xffff * 2 ^ 32 + unat ip", where ?'a = 128]
    by (simp del: of_nat_add)
qed

lemma mapped_valid: "to_ipv6_mapped ip \<noteq> 0" "\<not> ip6_multicast (to_ipv6_mapped ip)"
proof -
  have "unat ip < 2 ^ 32" using unsigned_less[of ip, where ?'a = nat] by simp
  then show "\<not> ip6_multicast (to_ipv6_mapped ip)" by (simp add: ip6_multicast_def unat_mapped)
  show "to_ipv6_mapped ip \<noteq> 0"
  proof
    assume "to_ipv6_mapped ip = 0"
    then have "unat (to_ipv6_mapped ip) = 0" by simp
    then show False by (simp add: unat_mapped)
  qed
qed

text \<open>An address embedding an IPv4 one is never a multicast or unspecified IPv6 address.\<close>
lemma unmap_valid6:
  assumes "\<not> ip_unspecified (unmap_ipv4 (V6 ip))" "\<not> ip_multicast (unmap_ipv4 (V6 ip))"
  shows "ip \<noteq> 0 \<and> \<not> ip6_multicast ip"
proof (cases "to_ipv4_mapped ip")
  case None
  then show ?thesis using assms by simp
next
  case (Some ip')
  then have top: "unat ip div 2 ^ 32 = 0xffff" by (auto simp: to_ipv4_mapped_def split: if_splits)
  then have "unat ip div 2 ^ 32 div 2 ^ 88 = 0" by simp
  then have "unat ip div 2 ^ 120 = 0" by (simp add: div_mult2_eq[symmetric])
  then show ?thesis using top by (auto simp: ip6_multicast_def)
qed

lemma endpoint_routes_ok:
  assumes "validate_endpoint e = Inr e'" and "p \<or> (\<exists>a. e = S4 a)"
    and "endpoint_routes e = (dc_ipv4 dc, dc_ipv6 dc)"
  shows "e' = e" "routes_ok dc p"
proof -
  show "e' = e" using assms(1) by (auto simp: validate_endpoint_def Let_def split: if_splits)
  have v: "sock_port e \<noteq> 0" "\<not> ip_unspecified (unmap_ipv4 (sock_ip e))" "\<not> ip_multicast (unmap_ipv4 (sock_ip e))"
    "case unmap_ipv4 (sock_ip e) of V4 i \<Rightarrow> \<not> ip4_broadcast i | _ \<Rightarrow> True"
    using assms(1) by (auto simp: validate_endpoint_def Let_def split: if_splits ip_addr.splits)
  show "routes_ok dc p"
  proof (cases e)
    case (S4 a)
    then show ?thesis using v assms(3)[symmetric]
      by (auto simp: routes_ok_def route4_valid_def route6_valid_def mapped_valid)
  next
    case (S6 a)
    then have "ip6 a \<noteq> 0 \<and> \<not> ip6_multicast (ip6 a)" using v unmap_valid6[of "ip6 a"] by simp
    then show ?thesis using S6 v(1) assms(2) assms(3)[symmetric] by (auto simp: routes_ok_def route6_valid_def)
  qed
qed

section \<open>Shape of an imported session\<close>

text \<open>A table of routes: keys are the identifiers, once each, and no option has a key.\<close>
definition plain_options :: "(int \<times> dc_option) list \<Rightarrow> bool" where
  "plain_options opts \<longleftrightarrow> distinct (map fst opts) \<and>
     (\<forall>(k, dc) \<in> set opts. k = dc_id dc \<and> dc_auth_key dc = None)"

definition imported_ok :: "imported_session \<Rightarrow> bool" where
  "imported_ok i \<longleftrightarrow> (let d = im_data i in
     sd_peer_infos d = [] \<and> sd_updates_state d = updates_default \<and>
     distinct (map fst (sd_dc_options d)) \<and> (\<forall>(k, dc) \<in> set (sd_dc_options d). k = dc_id dc) \<and>
     0 < sd_home_dc d \<and> sd_home_dc d < 2 ^ 31 \<and>
     (\<exists>home key. map_of (sd_dc_options d) (sd_home_dc d) = Some home \<and> dc_auth_key home = Some key \<and>
        length key = 256 \<and> \<not> list_all (\<lambda>b. b = 0) key \<and>
        (\<forall>p. (im_prefer_ipv6 i \<longrightarrow> p) \<longrightarrow> routes_ok home p)) \<and>
     (\<forall>k dc. map_of (sd_dc_options d) k = Some dc \<longrightarrow> k \<noteq> sd_home_dc d \<longrightarrow> dc_auth_key dc = None))"

lemmas dc_table_simps =
  KNOWN_DC_OPTIONS_def test_dc_options_def test_dc_def dc_203_def ipv4_def ipv6_def ip4_of_def ip6_of_def be_nat_Cons

lemma environment_plain: "plain_options (environment_options tm)"
  by (auto simp: plain_options_def environment_options_def dc_table_simps split: option.splits bool.splits)

lemma known_routes_valid:
  "list_all (\<lambda>dc. route4_valid (dc_ipv4 dc) \<and> route6_valid (dc_ipv6 dc)) (dc_203 # test_dc_options @ KNOWN_DC_OPTIONS)"
  by (simp add: route4_valid_def route6_valid_def ip4_multicast_def ip4_broadcast_def ip6_multicast_def dc_table_simps)

lemma known_routes_ok: "dc \<in> set (dc_203 # test_dc_options @ KNOWN_DC_OPTIONS) \<Longrightarrow> routes_ok dc p"
  using known_routes_valid unfolding list_all_iff routes_ok_def by blast

lemma environment_routes_ok: "map_of (environment_options tm) k = Some dc \<Longrightarrow> routes_ok dc p"
proof -
  assume "map_of (environment_options tm) k = Some dc"
  then have "(k, dc) \<in> set (environment_options tm)" by (rule map_of_SomeD)
  then have "dc \<in> set (dc_203 # test_dc_options @ KNOWN_DC_OPTIONS)"
    by (auto simp: environment_options_def split: option.splits bool.splits)
  then show ?thesis by (rule known_routes_ok)
qed

lemma set_update_subset: "set (AList.update k v xs) \<subseteq> insert (k, v) (set xs)"
  by (induction xs) auto

lemma plain_update:
  "plain_options opts \<Longrightarrow> dc_id dc = k \<Longrightarrow> dc_auth_key dc = None \<Longrightarrow> plain_options (AList.update k dc opts)"
proof -
  assume p: "plain_options opts" and dc: "dc_id dc = k" "dc_auth_key dc = None"
  show ?thesis using set_update_subset[of k dc opts] p dc by (fastforce simp: plain_options_def distinct_update)
qed

lemma home_route:
  assumes "case ep of Some e \<Rightarrow> validate_endpoint e = Inr e | None \<Rightarrow> True"
    and "map_of (add_home_route dc ep (environment_options tm)) dc = Some home"
  shows "plain_options (add_home_route dc ep (environment_options tm))"
    and "((case ep of Some (S6 a) \<Rightarrow> True | _ \<Rightarrow> False) \<longrightarrow> p) \<Longrightarrow> routes_ok home p"
proof -
  have 203: "dc_id dc_203 = 203" "dc_auth_key dc_203 = None" by (simp_all add: dc_203_def)
  show "plain_options (add_home_route dc ep (environment_options tm))"
    using environment_plain[of tm] 203
    by (auto simp: add_home_route_def plain_update split: option.splits prod.splits)
  assume p: "(case ep of Some (S6 a) \<Rightarrow> True | _ \<Rightarrow> False) \<longrightarrow> p"
  show "routes_ok home p"
  proof (cases ep)
    case None
    then show ?thesis using assms(2) environment_routes_ok[of tm dc home p] known_routes_ok[of dc_203 p]
      by (auto simp: add_home_route_def update_conv' split: if_splits)
  next
    case (Some e)
    obtain a4 a6 where r: "endpoint_routes e = (a4, a6)" by fastforce
    have h: "home = \<lparr>dc_id = dc, dc_ipv4 = a4, dc_ipv6 = a6, dc_auth_key = None\<rparr>"
      using assms(2) Some r by (simp add: add_home_route_def update_conv')
    show ?thesis
      by (rule endpoint_routes_ok(2)[of e e]) (use assms(1) Some r p in \<open>auto simp: h split: sock_addr.splits\<close>)
  qed
qed

lemma from_parts_ok:
  assumes "from_parts f dc tm ep key = Inr i" and "validate_key k = Inr key"
    and "case ep of Some e \<Rightarrow> validate_endpoint e = Inr e | None \<Rightarrow> True"
  shows "imported_ok i" "sd_home_dc (im_data i) = dc" "im_format i = f"
    "im_prefer_ipv6 i = (case ep of Some (S6 a) \<Rightarrow> True | _ \<Rightarrow> False)"
    "\<exists>home. map_of (sd_dc_options (im_data i)) dc = Some home \<and> dc_auth_key home = Some key \<and>
       (\<forall>e. ep = Some e \<longrightarrow> (dc_ipv4 home, dc_ipv6 home) = endpoint_routes e)"
proof -
  define opts where "opts = add_home_route dc ep (environment_options tm)"
  obtain home where home: "map_of opts dc = Some home"
    and i: "i = \<lparr>im_data = \<lparr>sd_home_dc = dc, sd_dc_options = AList.update dc (home\<lparr>dc_auth_key := Some key\<rparr>) opts,
                        sd_peer_infos = [], sd_updates_state = updates_default\<rparr>,
             im_format = f, im_api_id = None, im_user_id = None, im_is_bot = None, im_test_mode = tm,
             im_prefer_ipv6 = (case ep of Some (S6 a) \<Rightarrow> True | _ \<Rightarrow> False)\<rparr>"
    and dc: "0 < dc" "dc < 2 ^ 31"
    using assms(1) by (auto simp: from_parts_def Let_def opts_def split: if_splits option.splits)
  note r = home_route[OF assms(3) home[unfolded opts_def]]
  have plain: "plain_options opts" using r(1) by (simp add: opts_def)
  have "dc_id home = dc" using plain map_of_SomeD[OF home] by (auto simp: plain_options_def)
  then have ids: "\<forall>(k, dc) \<in> set (AList.update dc (home\<lparr>dc_auth_key := Some key\<rparr>) opts). k = dc_id dc"
    using plain set_update_subset[of dc "home\<lparr>dc_auth_key := Some key\<rparr>" opts] by (fastforce simp: plain_options_def)
  have key: "length key = 256" "\<not> list_all (\<lambda>b. b = 0) key"
    using assms(2) by (auto simp: validate_key_def split: if_splits)
  have routes: "routes_ok (home\<lparr>dc_auth_key := Some key\<rparr>) p" if "im_prefer_ipv6 i \<longrightarrow> p" for p
    using r(2)[of p] that by (simp add: i routes_ok_def)
  have others: "dc_auth_key o' = None" if "map_of opts k' = Some o'" for k' o'
    using plain map_of_SomeD[OF that] by (auto simp: plain_options_def)
  show "imported_ok i"
    using key dc ids plain routes others
    by (simp add: imported_ok_def Let_def i update_conv' distinct_update plain_options_def)
  show "sd_home_dc (im_data i) = dc" "im_format i = f"
    "im_prefer_ipv6 i = (case ep of Some (S6 a) \<Rightarrow> True | _ \<Rightarrow> False)" by (simp_all add: i)
  show "\<exists>home. map_of (sd_dc_options (im_data i)) dc = Some home \<and> dc_auth_key home = Some key \<and>
       (\<forall>e. ep = Some e \<longrightarrow> (dc_ipv4 home, dc_ipv6 home) = endpoint_routes e)"
    using home by (auto simp: i update_conv' opts_def add_home_route_def split: prod.splits)
qed

section \<open>Every accepted import has that shape\<close>

lemma attempt_Inr: "attempt r k = Inr y \<longleftrightarrow> (\<exists>x. r = Inr x \<and> k x = Inr y)"
  by (cases r) auto

lemma try_data_Inr: "try_data r k = Inr y \<longleftrightarrow> (\<exists>x. r = Inr x \<and> k x = Inr y)"
  by (cases r) auto

lemma validate_endpoint_same: "validate_endpoint e = Inr e' \<Longrightarrow> e' = e"
  by (auto simp: validate_endpoint_def Let_def split: if_splits)

text \<open>The metadata a format adds does not touch the session data.\<close>
lemma imported_ok_meta [simp]:
  "imported_ok (i\<lparr>im_api_id := a, im_user_id := u, im_is_bot := b\<rparr>) = imported_ok i"
  by (simp add: imported_ok_def)

lemma imported_ok_options: "imported_ok i \<Longrightarrow> apply_options p i = Inr j \<Longrightarrow> imported_ok j \<and> im_prefer_ipv6 j = p"
  by (auto simp: imported_ok_def apply_options_def Let_def split: if_splits)

lemma pyrogram_ok: "pyrogram_bytes bs = Inr i \<Longrightarrow> imported_ok i"
proof -
  assume "pyrogram_bytes bs = Inr i"
  then obtain k key dc tm imported a u b where
    k: "validate_key k = Inr key" and f: "from_parts Pyrogram dc (Some tm) None key = Inr imported"
    and i: "i = imported\<lparr>im_api_id := a, im_user_id := u, im_is_bot := b\<rparr>"
    unfolding pyrogram_bytes_def Let_def by (fastforce simp: attempt_Inr split: if_split_asm)
  show "imported_ok i" using from_parts_ok(1)[OF f k] i by simp
qed

lemma telethon_ok: "telethon_bytes bs = Inr i \<Longrightarrow> imported_ok i"
proof -
  assume "telethon_bytes bs = Inr i"
  then obtain ip port_offset f endpoint key where
    e: "validate_endpoint (sock_new ip (be_word f)) = Inr endpoint"
    and k: "validate_key (drop (port_offset + 2) bs) = Inr key"
    and i: "from_parts Telethon (int (unat (bs ! 0))) (endpoint_environment ip) (Some endpoint) key = Inr i"
    by (auto simp: telethon_bytes_def attempt_Inr split: prod.splits)
  show "imported_ok i"
    by (rule from_parts_ok(1)[OF i k]) (use e validate_endpoint_same[OF e] in simp)
qed

lemma gotd_ok: "from_gotd_json json addr std_dec sha1 input = Inr i \<Longrightarrow> imported_ok i"
proof -
  assume "from_gotd_json json addr std_dec sha1 input = Inr i"
  note A = this[unfolded from_gotd_json_def]
  then obtain w where w: "json input = Some w"
    by (cases "check_size input JSON_LIMIT"; cases "json input") simp_all
  with A obtain a0 where a: "addr (gw_addr w) = Some a0"
    by (cases "check_size input JSON_LIMIT"; cases "addr (gw_addr w)") (simp_all split: if_split_asm)
  with A w obtain endpoint where e: "validate_endpoint a0 = Inr endpoint"
    by (cases "check_size input JSON_LIMIT"; cases "validate_endpoint a0") (simp_all split: if_split_asm)
  with A w a obtain k where k': "std_dec (gw_auth_key w) = Some k"
    by (cases "check_size input JSON_LIMIT"; cases "std_dec (gw_auth_key w)") (simp_all split: if_split_asm)
  with A w a e obtain key where k: "validate_key k = Inr key"
    by (cases "check_size input JSON_LIMIT"; cases "validate_key k") (simp_all split: if_split_asm)
  from A w a e k' k have i: "from_parts Gotd (gw_dc w) (Some (gw_test_mode w)) (Some endpoint) key = Inr i"
    by (cases "check_size input JSON_LIMIT"; cases "check_key_id std_dec sha1 key (gw_auth_key_id w)")
      (simp_all split: if_split_asm)
  show "imported_ok i"
    by (rule from_parts_ok(1)[OF i k]) (use e validate_endpoint_same[OF e] in simp)
qed

lemma parse_import_ok: "parse_import dec json addr std_dec sha1 input = Inr i \<Longrightarrow> imported_ok i"
  by (auto simp: parse_import_def from_pyrogram_def from_telethon_def attempt_Inr
      split: list.splits if_splits option.splits dest: pyrogram_ok telethon_ok gotd_ok)

lemma row_endpoint_ok: "row_endpoint parse_ip row a b = Inr e \<Longrightarrow> validate_endpoint e = Inr e"
  by (auto simp: row_endpoint_def attempt_Inr try_data_Inr dest: validate_endpoint_same
      split: option.splits sql_value.splits if_splits)

lemma row_auth_key_ok: "row_auth_key row n = Inr key \<Longrightarrow> \<exists>k. validate_key k = Inr key"
  by (auto simp: row_auth_key_def try_data_Inr split: option.splits sql_value.splits)

lemma read_pyrogram_ok:
  assumes "read_pyrogram parse_ip t version p = Inr i"
  shows "imported_ok i \<and> im_prefer_ipv6 i = p"
proof -
  from assms obtain row dc tm key ep imported api_id user_id is_bot where
    k: "row_auth_key row 3 = Inr key" and e: "kurigram_endpoint parse_ip version tm row = Inr ep"
    and f: "from_parts Pyrogram dc (Some tm) ep key = Inr imported"
    and a: "apply_options p (imported\<lparr>im_api_id := api_id, im_user_id := Some user_id, im_is_bot := Some is_bot\<rparr>) = Inr i"
    by (auto simp: read_pyrogram_def attempt_Inr try_data_Inr split: if_splits)
  obtain k' where k': "validate_key k' = Inr key" using row_auth_key_ok[OF k] by blast
  have "case ep of Some e \<Rightarrow> validate_endpoint e = Inr e | None \<Rightarrow> True"
    using e by (auto simp: kurigram_endpoint_def attempt_Inr dest: row_endpoint_ok split: if_splits option.splits)
  from from_parts_ok(1)[OF f k' this] imported_ok_options[OF _ a] show ?thesis by simp
qed

lemma read_telethon_ok:
  assumes "read_telethon parse_ip t version p = Inr i"
  shows "imported_ok i \<and> im_prefer_ipv6 i = p"
proof -
  from assms obtain row dc key ep imported where
    k: "row_auth_key row 3 = Inr key" and e: "row_endpoint parse_ip row 1 2 = Inr ep"
    and f: "from_parts Telethon dc (endpoint_environment (sock_ip ep)) (Some ep) key = Inr imported"
    and a: "apply_options p imported = Inr i"
    by (auto simp: read_telethon_def attempt_Inr try_data_Inr split: if_splits)
  obtain k' where k': "validate_key k' = Inr key" using row_auth_key_ok[OF k] by blast
  have "case Some ep of Some e \<Rightarrow> validate_endpoint e = Inr e | None \<Rightarrow> True"
    using row_endpoint_ok[OF e] by simp
  from from_parts_ok(1)[OF f k' this] imported_ok_options[OF _ a] show ?thesis by simp
qed

section \<open>From any import to a portable string\<close>

lemma imported_exports:
  assumes "imported_ok i" "im_prefer_ipv6 i \<longrightarrow> p"
  shows "\<exists>n. from_session (erase f (memory_ops dbg)) (memory_from (im_data i)) p = Some (Inr n) \<and>
     validated (ns_dc n) p = Inr n \<and> native_sized (ns_dc n)"
proof -
  define d where "d = im_data i"
  obtain home key where home: "map_of (sd_dc_options d) (sd_home_dc d) = Some home" "dc_auth_key home = Some key"
    "length key = 256" "\<not> list_all (\<lambda>b. b = 0) key" and rs: "\<forall>p. (im_prefer_ipv6 i \<longrightarrow> p) \<longrightarrow> routes_ok home p"
    and h: "0 < sd_home_dc d" "sd_home_dc d < 2 ^ 31"
    and d: "sd_peer_infos d = []" "sd_updates_state d = updates_default"
    "\<forall>(k, dc) \<in> set (sd_dc_options d). k = dc_id dc"
    using assms(1) unfolding imported_ok_def Let_def d_def[symmetric] by (elim conjE exE) (rule that)
  have r: "routes_ok home p" using rs assms(2) by blast
  have id: "dc_id home = sd_home_dc d" using d(3) map_of_SomeD[OF home(1)] by auto
  have u: "mem_usable (memory_from d)"
    by (simp add: mem_usable_def data_usable_def memory_from_def d updates_default_def)
  have v: "validated home p = Inr \<lparr>ns_dc = home, ns_prefer_ipv6 = p\<rparr>"
    using validated_routes[OF r _ home(2,4)] h id by simp
  have "v_home (mem_view (memory_from d)) = sd_home_dc d" "v_dcs (mem_view (memory_from d)) (sd_home_dc d) = Some home"
    using home(1) by (simp_all add: mem_view_def data_view_def memory_from_def stored_lookup)
  then have "from_session (erase f (memory_ops dbg)) (memory_from d) p = Some (Inr \<lparr>ns_dc = home, ns_prefer_ipv6 = p\<rparr>)"
    using v h id erased_mem.home[OF u, of f dbg] erased_mem.option[OF u, of f dbg "sd_home_dc d"]
    by (simp add: from_session_def)
  moreover have "native_sized home" using home id h by (simp add: native_sized_def)
  ultimately show ?thesis using v by (auto simp: d_def)
qed

section \<open>The binary layouts\<close>

text \<open>The records the other libraries write.\<close>

definition flag_byte :: "bool \<Rightarrow> u8" where
  "flag_byte b = (if b then 1 else 0)"

definition pyrogram_record :: "nat \<Rightarrow> nat \<Rightarrow> bool \<Rightarrow> bytes \<Rightarrow> nat \<Rightarrow> bool \<Rightarrow> bytes" where
  "pyrogram_record dc api test key user is_bot =
     be_bytes 1 dc @ be_bytes 4 api @ [flag_byte test] @ key @ be_bytes 8 user @ [flag_byte is_bot]"

definition telethon_record :: "nat \<Rightarrow> ip_addr \<Rightarrow> u16 \<Rightarrow> bytes \<Rightarrow> bytes" where
  "telethon_record dc ip port key =
     be_bytes 1 dc @ (case ip of V4 a \<Rightarrow> be_bytes 4 (unat a) | V6 a \<Rightarrow> be_bytes 16 (unat a)) @ be_bytes 2 (unat port) @ key"

lemma parse_boolean_flag [simp]: "parse_boolean (flag_byte b) = Inr b"
  by (simp add: parse_boolean_def flag_byte_def)

lemma be_bytes_1: "be_bytes (Suc 0) v = [of_nat (v mod 256)]"
  by (simp add: be_bytes_def)

lemma validate_key_same: "validate_key k = Inr key \<Longrightarrow> key = k \<and> length k = 256"
  by (auto simp: validate_key_def split: if_splits)

lemma pyrogram_read:
  assumes "1 \<le> dc" "dc \<le> (if test then 3 else 5)" "api < 2 ^ 31" "0 < user" "user < 2 ^ 64"
    and "validate_key key = Inr key"
  shows "\<exists>i home. pyrogram_bytes (pyrogram_record dc api test key user is_bot) = Inr i
     \<and> sd_home_dc (im_data i) = int dc \<and> im_user_id i = Some user \<and> im_is_bot i = Some is_bot
     \<and> im_api_id i = (if api = 0 then None else Some (int api)) \<and> im_test_mode i = Some test
     \<and> map_of (sd_dc_options (im_data i)) (int dc) = Some home \<and> dc_auth_key home = Some key"
proof -
  define r where "r = pyrogram_record dc api test key user is_bot"
  have k: "length key = 256" using validate_key_same[OF assms(6)] by simp
  have len: "length r = 271" by (simp add: r_def pyrogram_record_def k be_bytes_1)
  have layout: "pyrogram_layout r = Inr (if api \<noteq> 0 then Some (int api) else None, 5, 8)"
    using assms(3) len by (simp add: pyrogram_layout_def read_fixed_def r_def pyrogram_record_def be_bytes_1 Let_def)
  have at: "r ! 0 = of_nat dc" "r ! 5 = flag_byte test" "r ! 270 = flag_byte is_bot"
    "take 256 (drop 6 r) = key" "take 8 (drop 262 r) = be_bytes 8 user"
    using assms(1,2) k by (simp_all add: r_def pyrogram_record_def be_bytes_1 nth_append split: if_splits)
  have "dc < 256" using assms(2) by (simp split: if_splits)
  then have "unat (of_nat dc :: u8) = dc" by (simp add: unat_of_nat)
  then have dc: "uint (of_nat dc :: u8) = int dc" by (metis uint_nat)
  obtain home where h: "map_of (add_home_route (int dc) None (environment_options (Some test))) (int dc) = Some home"
  proof -
    have "dc \<in> {1, 2, 3} \<or> \<not> test \<and> dc \<in> {4, 5}" using assms(1,2) by (auto split: if_splits)
    then have "map_of (add_home_route (int dc) None (environment_options (Some test))) (int dc) \<noteq> None"
      by (cases test) (auto simp: add_home_route_def environment_options_def test_dc_options_def KNOWN_DC_OPTIONS_def test_dc_def)
    then show ?thesis using that by blast
  qed
  have "user < 256 ^ 8" using assms(5) by simp
  moreover obtain i where i: "from_parts Pyrogram (int dc) (Some test) None key = Inr i"
    "sd_home_dc (im_data i) = int dc" "im_test_mode i = Some test"
    "map_of (sd_dc_options (im_data i)) (int dc) = Some (home\<lparr>dc_auth_key := Some key\<rparr>)"
    using assms(1,2) h by (auto simp: from_parts_def Let_def update_conv' split: if_splits)
  ultimately show ?thesis
    using assms(4,6) unfolding r_def[symmetric]
    by (simp add: pyrogram_bytes_def layout at dc read_fixed_def len)
qed

text \<open>
  A Pyrogram record of the current layout is read back: for a datacenter of its environment
  (1 to 3 in test mode, 1 to 5 otherwise), a valid key and a nonzero user, the import succeeds
  with that home datacenter, key, user, bot flag and application identifier (zero meaning none).
\<close>
theorem pyrogram_roundtrip:
  assumes "1 \<le> dc" "dc \<le> (if test then 3 else 5)" "api < 2 ^ 31" "0 < user" "user < 2 ^ 64"
    and "validate_key key = Inr key"
  shows "\<exists>i home. pyrogram_bytes (pyrogram_record dc api test key user is_bot) = Inr i
     \<and> sd_home_dc (im_data i) = int dc \<and> im_user_id i = Some user \<and> im_is_bot i = Some is_bot
     \<and> im_api_id i = (if api = 0 then None else Some (int api)) \<and> im_test_mode i = Some test
     \<and> map_of (sd_dc_options (im_data i)) (int dc) = Some home \<and> dc_auth_key home = Some key"
  using pyrogram_read[OF assms] .

definition sample_key :: bytes where
  "sample_key = replicate 256 7"

lemma sample_key_valid: "validate_key sample_key = Inr sample_key"
  by (simp add: validate_key_def sample_key_def list_all_iff)

theorem pyrogram_roundtrip_witness:
  "\<exists>i home. pyrogram_bytes (pyrogram_record 2 17 False sample_key 12345 True) = Inr i
     \<and> sd_home_dc (im_data i) = int 2 \<and> im_user_id i = Some 12345 \<and> im_is_bot i = Some True
     \<and> im_api_id i = (if 17 = (0 :: nat) then None else Some (int 17)) \<and> im_test_mode i = Some False
     \<and> map_of (sd_dc_options (im_data i)) (int 2) = Some home \<and> dc_auth_key home = Some sample_key"
  by (rule pyrogram_roundtrip) (simp_all add: sample_key_valid)

lemma telethon_read:
  assumes "1 \<le> dc" "dc \<le> (if endpoint_environment ip = Some True then 3 else 5)"
    and "validate_endpoint (sock_new ip port) = Inr (sock_new ip port)" "validate_key key = Inr key"
  shows "\<exists>i home. telethon_bytes (telethon_record dc ip port key) = Inr i
     \<and> sd_home_dc (im_data i) = int dc \<and> map_of (sd_dc_options (im_data i)) (int dc) = Some home
     \<and> (dc_ipv4 home, dc_ipv6 home) = endpoint_routes (sock_new ip port) \<and> dc_auth_key home = Some key
     \<and> im_prefer_ipv6 i = (case ip of V6 a \<Rightarrow> True | V4 a \<Rightarrow> False)"
proof -
  define r where "r = telethon_record dc ip port key"
  have k: "length key = 256" using validate_key_same[OF assms(4)] by simp
  have "dc < 256" using assms(2) by (simp split: if_splits)
  then have "unat (of_nat dc :: u8) = dc" by (simp add: unat_of_nat)
  then have dc: "uint (of_nat dc :: u8) = int dc" by (metis uint_nat)
  have hd: "r ! 0 = of_nat dc" using \<open>dc < 256\<close> by (simp add: r_def telethon_record_def be_bytes_1)
  obtain a4 a6 where r: "endpoint_routes (sock_new ip port) = (a4, a6)" by fastforce
  obtain i where i: "from_parts Telethon (int dc) (endpoint_environment ip) (Some (sock_new ip port)) key = Inr i"
    using assms(1,2) by (auto simp: from_parts_def Let_def add_home_route_def update_conv' r split: if_splits)
  note f = from_parts_ok[OF i assms(4)]
  have "telethon_bytes r = Inr i"
    using assms(3,4) k i hd dc
    by (cases ip) (simp_all add: telethon_bytes_def r_def telethon_record_def read_fixed_def be_bytes_1 be_word_rt)
  moreover have "im_prefer_ipv6 i = (case ip of V6 a \<Rightarrow> True | V4 a \<Rightarrow> False)"
    using f(4) assms(3) by (cases ip) auto
  ultimately show ?thesis using f(2,5) assms(3) unfolding r_def by fastforce
qed

text \<open>
  A Telethon record keeps its endpoint: for a datacenter of the endpoint's environment, a
  usable endpoint and a valid key, the import succeeds, the home datacenter connects to exactly
  that endpoint, over IPv4 or IPv6 as the record says, and the other address family leads either
  to the same address (IPv4 mapped) or nowhere.
\<close>
theorem telethon_roundtrip:
  assumes "1 \<le> dc" "dc \<le> (if endpoint_environment ip = Some True then 3 else 5)"
    and "validate_endpoint (sock_new ip port) = Inr (sock_new ip port)" "validate_key key = Inr key"
  shows "\<exists>i home. telethon_bytes (telethon_record dc ip port key) = Inr i
     \<and> sd_home_dc (im_data i) = int dc \<and> map_of (sd_dc_options (im_data i)) (int dc) = Some home
     \<and> (dc_ipv4 home, dc_ipv6 home) = endpoint_routes (sock_new ip port) \<and> dc_auth_key home = Some key
     \<and> im_prefer_ipv6 i = (case ip of V6 a \<Rightarrow> True | V4 a \<Rightarrow> False)"
  using telethon_read[OF assms] .

theorem telethon_roundtrip_witness:
  "\<exists>i home. telethon_bytes (telethon_record 3 (V4 0x0A000001) 443 sample_key) = Inr i
     \<and> sd_home_dc (im_data i) = int 3 \<and> map_of (sd_dc_options (im_data i)) (int 3) = Some home
     \<and> (dc_ipv4 home, dc_ipv6 home) = endpoint_routes (sock_new (V4 0x0A000001) 443) \<and> dc_auth_key home = Some sample_key
     \<and> im_prefer_ipv6 i = (case V4 0x0A000001 of V6 a \<Rightarrow> True | V4 a \<Rightarrow> False)"
  by (rule telethon_roundtrip)
    (simp_all add: sample_key_valid validate_endpoint_def Let_def ip4_multicast_def ip4_broadcast_def)

text \<open>
  C25: whatever text is accepted as an exported session, in whichever of the three formats, the
  session built has a positive home datacenter whose route is in the table, exactly one
  authentication key, of 256 bytes and not all zero, on the home datacenter and on no other, and
  a usable route for the address preference it reports; no peers and no update state come in.
\<close>
theorem import_well_formed:
  assumes "parse_import dec json addr std_dec sha1 input = Inr i"
  shows "imported_ok i"
  using parse_import_ok[OF assms] .

lemma sample_import:
  "\<exists>i. parse_import (\<lambda>_. Some (pyrogram_record 2 17 False sample_key 12345 True)) (\<lambda>_. None) (\<lambda>_. None)
         (\<lambda>_. None) (\<lambda>_. []) [65] = Inr i"
  using pyrogram_read[OF _ _ _ _ _ sample_key_valid, of 2 False 17 12345 True]
  by (auto simp: parse_import_def from_pyrogram_def check_size_def byte_len_def utf8_len_def JSON_LIMIT_def
      STRING_LIMIT_def trim_start_def trim_end_def trim_def is_whitespace_def)

theorem import_well_formed_witness:
  "\<exists>i. parse_import (\<lambda>_. Some (pyrogram_record 2 17 False sample_key 12345 True)) (\<lambda>_. None) (\<lambda>_. None)
         (\<lambda>_. None) (\<lambda>_. []) [65] = Inr i \<and> imported_ok i"
  using sample_import import_well_formed by blast

text \<open>
  The same holds of a session read from the row of a Pyrogram, Kurigram or Telethon database,
  whatever the database answers; the import keeps the caller's address preference, and a source
  that has only an IPv6 route is refused unless IPv6 was asked for.
\<close>
theorem import_rows_well_formed:
  assumes "r = read_pyrogram parse_ip t version p \<or> r = read_telethon parse_ip t version p"
  shows "case r of Inr i \<Rightarrow> imported_ok i \<and> im_prefer_ipv6 i = p | Inl e \<Rightarrow> True"
  using assms read_pyrogram_ok read_telethon_ok by (auto split: sum.splits)

theorem import_rows_well_formed_witness:
  "case read_telethon (\<lambda>_. Some (V4 0x0A000001))
      \<lparr>is_plain_table = True,
       table_columns = [(''dc_id'', ''INTEGER'', 0), (''server_address'', ''TEXT'', 0), (''port'', ''INTEGER'', 0),
                        (''auth_key'', ''BLOB'', 0), (''takeout_id'', ''INTEGER'', 0)],
       table_rows = [[SInteger 3, SText [], SInteger 443, SBlob sample_key]]\<rparr> 7 True
   of Inr i \<Rightarrow> imported_ok i \<and> im_prefer_ipv6 i = True | Inl e \<Rightarrow> True"
  by (rule import_rows_well_formed) blast

text \<open>
  C24: an accepted import is portable: loaded into the in-memory storage, it can be exported with
  its address preference (or with IPv6 preferred), and the portable string of that export is
  read back as the same session. No accepted import is rejected by the stricter rules of the
  native format.
\<close>
theorem import_is_portable:
  assumes "parse_import dec json addr std_dec sha1 input = Inr i" "im_prefer_ipv6 i \<longrightarrow> p"
    and "base64_ok enc dec'" "\<And>m. length (sha256 m) = 32"
  shows "\<exists>n. from_session (erase f (memory_ops dbg)) (memory_from (im_data i)) p = Some (Inr n)
     \<and> parse_session dec' sha256 (encode_session enc sha256 n) = Inr n"
proof -
  obtain n where n: "from_session (erase f (memory_ops dbg)) (memory_from (im_data i)) p = Some (Inr n)"
    "validated (ns_dc n) p = Inr n" "native_sized (ns_dc n)"
    using imported_exports[OF parse_import_ok[OF assms(1)] assms(2)] by blast
  then show ?thesis using parse_encode[of enc dec' sha256, OF assms(3,4) n(2,3)] by blast
qed

theorem import_is_portable_witness:
  "\<exists>i n. parse_import (\<lambda>_. Some (pyrogram_record 2 17 False sample_key 12345 True)) (\<lambda>_. None) (\<lambda>_. None)
         (\<lambda>_. None) (\<lambda>_. []) [65] = Inr i
     \<and> from_session (erase (\<lambda>_. ()) (memory_ops True)) (memory_from (im_data i)) True = Some (Inr n)
     \<and> parse_session b64_dec (\<lambda>_. replicate 32 0) (encode_session b64_enc (\<lambda>_. replicate 32 0) n) = Inr n"
proof -
  obtain i where i: "parse_import (\<lambda>_. Some (pyrogram_record 2 17 False sample_key 12345 True)) (\<lambda>_. None) (\<lambda>_. None)
         (\<lambda>_. None) (\<lambda>_. []) [65] = Inr i" using sample_import by blast
  have "\<exists>n. from_session (erase (\<lambda>_. ()) (memory_ops True)) (memory_from (im_data i)) True = Some (Inr n)
     \<and> parse_session b64_dec (\<lambda>_. replicate 32 0) (encode_session b64_enc (\<lambda>_. replicate 32 0) n) = Inr n"
    by (rule import_is_portable[OF i _ b64_is_base64]) simp_all
  with i show ?thesis by blast
qed

end
