(* ===== verification/Sqlite_Rows.thy ===== *)
theory Sqlite_Rows
  imports Sessions
begin

text \<open>
  The parts of the SQLite storage, \<open>grammers-session/src/storages/sqlite.rs\<close>, that compute
  rather than query: how a peer is written to a row of \<open>peer_info\<close> and read back, what caching
  writes given the row selected, the layer of datacenter options in front of the database, the
  check of a file's schema, and the immutable URI a file is inspected through (shared with
  \<open>import_files.rs\<close>). The SQL statements are executed by the package \<open>libsql\<close>: a query's
  answer is an argument here.
\<close>

unbundle bit_operations_syntax

section \<open>Rows of peers\<close>

definition UserSelf :: u8 where "UserSelf = 1"
definition UserBot :: u8 where "UserBot = 2"
definition UserSelfBot :: u8 where "UserSelfBot = 3"
definition SubMegagroup :: u8 where "SubMegagroup = 4"
definition SubBroadcast :: u8 where "SubBroadcast = 8"
definition SubGigagroup :: u8 where "SubGigagroup = 12"
definition SubCommunity :: u8 where "SubCommunity = 16"

text \<open>Columns \<open>peer_id\<close>, \<open>hash\<close> and \<open>subtype\<close>.\<close>
record peer_row =
  row_peer_id :: int
  row_hash :: "int option"
  row_subtype :: "int option"

definition channel_kind_of_subtype :: "u8 \<Rightarrow> channel_kind option" where
  "channel_kind_of_subtype s =
     (if s AND SubGigagroup = SubGigagroup then Some Gigagroup
      else if s AND SubBroadcast \<noteq> 0 then Some Broadcast
      else if s AND SubMegagroup \<noteq> 0 then Some Megagroup
      else None)"

text \<open>\<open>Database::peer_from_row\<close>; \<open>None\<close> is a panic.\<close>
definition peer_from_row :: "bool \<Rightarrow> peer_id \<Rightarrow> peer_row \<Rightarrow> peer_info option" where
  "peer_from_row dbg p row =
     (let subtype = map_option of_int (row_subtype row) in do {
        k \<leftarrow> pid_kind p;
        case k of
          KUser \<Rightarrow> do {
            u \<leftarrow> pid_user_unchecked dbg (row_peer_id row);
            b \<leftarrow> pid_bare_id_unchecked dbg u;
            Some (InfoUser b (row_hash row)
              (map_option (\<lambda>s. s AND UserBot \<noteq> 0) subtype) (map_option (\<lambda>s. s AND UserSelf \<noteq> 0) subtype))
          }
        | KChat \<Rightarrow> do { b \<leftarrow> pid_bare_id_unchecked dbg p; Some (InfoChat b) }
        | KChannel \<Rightarrow> do {
            b \<leftarrow> pid_bare_id_unchecked dbg p;
            Some (InfoChannel b (row_hash row) (Option.bind subtype channel_kind_of_subtype))
          }
      })"

fun subtype_of :: "peer_info \<Rightarrow> u8 option" where
  "subtype_of (InfoUser i a b s) =
     (case (b = Some True, s = Some True) of
        (True, True) \<Rightarrow> Some UserSelfBot
      | (True, False) \<Rightarrow> Some UserBot
      | (False, True) \<Rightarrow> Some UserSelf
      | (False, False) \<Rightarrow> None)"
| "subtype_of (InfoChat i) = None"
| "subtype_of (InfoChannel i a k) =
     map_option (\<lambda>k. case k of Megagroup \<Rightarrow> SubMegagroup | Broadcast \<Rightarrow> SubBroadcast
                             | Gigagroup \<Rightarrow> SubGigagroup | Community \<Rightarrow> SubCommunity) k"

text \<open>The parameters of the \<open>INSERT OR REPLACE\<close>.\<close>
definition peer_params :: "bool \<Rightarrow> peer_info \<Rightarrow> peer_row option" where
  "peer_params dbg i = do {
     p \<leftarrow> info_id dbg i;
     d \<leftarrow> pid_bot_api_dialog_id_unchecked dbg p;
     Some \<lparr>row_peer_id = d, row_hash = info_auth i, row_subtype = map_option uint (subtype_of i)\<rparr>
   }"

text \<open>
  \<open>SqliteSession::cache_peer\<close> between its two statements: the row to write, given the row
  selected for the peer's identifier.
\<close>
definition cache_peer_row :: "bool \<Rightarrow> (int \<Rightarrow> peer_row option) \<Rightarrow> peer_info \<Rightarrow> peer_row option" where
  "cache_peer_row dbg sel peer = do {
     p \<leftarrow> info_id dbg peer;
     d \<leftarrow> pid_bot_api_dialog_id_unchecked dbg p;
     merged \<leftarrow> (case sel d of
        None \<Rightarrow> Some peer
      | Some row \<Rightarrow> do { old \<leftarrow> peer_from_row dbg p row; Some (merge_info old peer) });
     peer_params dbg merged
   }"

section \<open>The layer of datacenter options\<close>

record sqlite_cache =
  sc_home_dc :: int
  sc_dc_options :: "int \<rightharpoonup> dc_option"

definition sqlite_dc_option :: "int \<Rightarrow> sqlite_cache \<Rightarrow> dc_option option" where
  "sqlite_dc_option d c =
     opt_or (sc_dc_options c d) (find (\<lambda>opt. dc_id opt = d) KNOWN_DC_OPTIONS)"

definition sqlite_cache_dc_option :: "dc_option \<Rightarrow> sqlite_cache \<Rightarrow> sqlite_cache" where
  "sqlite_cache_dc_option dc c = c\<lparr>sc_dc_options := (sc_dc_options c)(dc_id dc \<mapsto> dc)\<rparr>"

definition sqlite_cache_home_dc :: "int \<Rightarrow> sqlite_cache \<Rightarrow> sqlite_cache" where
  "sqlite_cache_home_dc d c = c\<lparr>sc_home_dc := d\<rparr>"

text \<open>A row of \<open>dc_option\<close> as \<open>open\<close> reads it; reading addresses from text is a parameter.\<close>

datatype sqlite_error = AddrParse | InvalidAuthKeyLength nat

record dc_row =
  dr_id :: int
  dr_ipv4 :: string
  dr_ipv6 :: string
  dr_auth_key :: "bytes option"

definition dc_from_row ::
    "(string \<Rightarrow> sock4 option) \<Rightarrow> (string \<Rightarrow> sock6 option) \<Rightarrow> dc_row \<Rightarrow> sqlite_error + dc_option" where
  "dc_from_row parse4 parse6 row =
     (case parse4 (dr_ipv4 row) of
        None \<Rightarrow> Inl AddrParse
      | Some a4 \<Rightarrow> (case parse6 (dr_ipv6 row) of
          None \<Rightarrow> Inl AddrParse
        | Some a6 \<Rightarrow> (case dr_auth_key row of
            None \<Rightarrow> Inr \<lparr>dc_id = dr_id row, dc_ipv4 = a4, dc_ipv6 = a6, dc_auth_key = None\<rparr>
          | Some k \<Rightarrow> if length k = 256
              then Inr \<lparr>dc_id = dr_id row, dc_ipv4 = a4, dc_ipv6 = a6, dc_auth_key = Some k\<rparr>
              else Inl (InvalidAuthKeyLength (length k)))))"

fun dcs_from_rows ::
    "(string \<Rightarrow> sock4 option) \<Rightarrow> (string \<Rightarrow> sock6 option) \<Rightarrow> dc_row list \<Rightarrow> sqlite_error + dc_option list" where
  "dcs_from_rows parse4 parse6 [] = Inr []"
| "dcs_from_rows parse4 parse6 (r # rs) =
     (case dc_from_row parse4 parse6 r of
        Inl e \<Rightarrow> Inl e
      | Inr dc \<Rightarrow> (case dcs_from_rows parse4 parse6 rs of Inl e \<Rightarrow> Inl e | Inr dcs \<Rightarrow> Inr (dc # dcs)))"

text \<open>The cache \<open>open\<close> fills, from the row of \<open>dc_home\<close> if any and the rows of \<open>dc_option\<close>.\<close>
definition open_cache ::
    "(string \<Rightarrow> sock4 option) \<Rightarrow> (string \<Rightarrow> sock6 option) \<Rightarrow> int option \<Rightarrow> dc_row list \<Rightarrow> sqlite_error + sqlite_cache" where
  "open_cache parse4 parse6 home rows =
     (case dcs_from_rows parse4 parse6 rows of
        Inl e \<Rightarrow> Inl e
      | Inr dcs \<Rightarrow> Inr \<lparr>sc_home_dc = (case home of Some h \<Rightarrow> h | None \<Rightarrow> DEFAULT_DC),
                       sc_dc_options = map_of (rev (map (\<lambda>dc. (dc_id dc, dc)) dcs))\<rparr>)"

section \<open>Schema check\<close>

definition VERSION :: int where "VERSION = 1"

type_synonym column_info = "string \<times> string \<times> int \<times> int"

definition TABLES :: "(string \<times> column_info list) list" where
  "TABLES =
     [(''dc_home'', [(''dc_id'', ''INTEGER'', 1, 1)]),
      (''dc_option'', [(''dc_id'', ''INTEGER'', 1, 1), (''ipv4'', ''TEXT'', 1, 0), (''ipv6'', ''TEXT'', 1, 0),
                       (''auth_key'', ''BLOB'', 0, 0)]),
      (''peer_info'', [(''peer_id'', ''INTEGER'', 1, 1), (''hash'', ''INTEGER'', 0, 0), (''subtype'', ''INTEGER'', 0, 0)]),
      (''update_state'', [(''pts'', ''INTEGER'', 1, 0), (''qts'', ''INTEGER'', 1, 0), (''date'', ''INTEGER'', 1, 0),
                          (''seq'', ''INTEGER'', 1, 0)]),
      (''channel_state'', [(''peer_id'', ''INTEGER'', 1, 1), (''pts'', ''INTEGER'', 1, 0)])]"

text \<open>A column as the database lists it: also its hidden flag and whether it has no default.\<close>
type_synonym listed_column = "string \<times> string \<times> int \<times> int \<times> int \<times> int"

fun columns_match :: "column_info list \<Rightarrow> listed_column list \<Rightarrow> bool" where
  "columns_match [] rows = (rows = [])"
| "columns_match (c # cs) [] = False"
| "columns_match ((name, kind, not_null, primary) # cs) ((n, k, nn, pk, hidden, no_default) # rows) =
     (n = name \<and> k = kind \<and> nn = not_null \<and> pk = primary \<and> hidden = 0 \<and> no_default = 1 \<and> columns_match cs rows)"

text \<open>\<open>user_version\<close>, the number of objects, of known tables, and the columns of each table.\<close>
definition validate_native_schema :: "int \<Rightarrow> int \<Rightarrow> int \<Rightarrow> (string \<Rightarrow> listed_column list) \<Rightarrow> bool" where
  "validate_native_schema version count tables columns =
     (version = 0 \<and> count = 0
      \<or> version = VERSION \<and> count = 5 \<and> tables = 5
        \<and> list_all (\<lambda>(table, cs). columns_match cs (columns table)) TABLES)"

section \<open>The immutable URI\<close>

definition hex_upper :: "nat \<Rightarrow> u8" where
  "hex_upper d = of_nat (if d < 10 then 48 + d else 55 + d)"

text \<open>Letters, digits and the bytes of \<open>/:-._~\<close>.\<close>
definition uri_plain :: "u8 \<Rightarrow> bool" where
  "uri_plain b \<longleftrightarrow>
     48 \<le> unat b \<and> unat b \<le> 57 \<or> 65 \<le> unat b \<and> unat b \<le> 90 \<or> 97 \<le> unat b \<and> unat b \<le> 122
     \<or> b \<in> {47, 58, 45, 46, 95, 126}"

definition uri_byte :: "u8 \<Rightarrow> bytes" where
  "uri_byte b = (if uri_plain b then [b] else [37, hex_upper (unat b div 16), hex_upper (unat b mod 16)])"

text \<open>\<open>file:\<close>, and the suffix \<open>?mode=ro&immutable=1\<close>.\<close>
definition URI_SCHEME :: bytes where "URI_SCHEME = map of_char ''file:''"
definition URI_SUFFIX :: bytes where "URI_SUFFIX = map of_char ''?mode=ro&immutable=1''"

text \<open>\<open>None\<close> is the error for paths SQLite would read as remote; on other systems than Windows.\<close>
definition immutable_uri :: "bytes \<Rightarrow> bytes option" where
  "immutable_uri path =
     (if take 2 path = [47, 47] \<or> take 4 path = map of_char ''UNC/'' then None
      else Some (URI_SCHEME @ (if take 1 path = [47] then [] else [47]) @ concat (map uri_byte path) @ URI_SUFFIX))"

section \<open>What a row keeps\<close>

text \<open>
  The information left of a peer after a round through its row: a user's flags are kept as one
  subtype, absent when neither is set; a channel keeps its kind unless it is a community.
\<close>
fun stored_info :: "peer_info \<Rightarrow> peer_info" where
  "stored_info (InfoUser i a b s) =
     (if b = Some True \<or> s = Some True then InfoUser i a (Some (b = Some True)) (Some (s = Some True))
      else InfoUser i a None None)"
| "stored_info (InfoChat i) = InfoChat i"
| "stored_info (InfoChannel i a k) = InfoChannel i a (if k = Some Community then None else k)"

lemma subtype_bits:
  "UserSelfBot AND UserBot = UserBot" "UserSelfBot AND UserSelf = UserSelf" "UserBot AND UserBot = UserBot"
  "UserBot AND UserSelf = 0" "UserSelf AND UserBot = 0" "UserSelf AND UserSelf = UserSelf"
  "UserBot \<noteq> 0" "UserSelf \<noteq> 0"
  by (simp_all add: UserSelfBot_def UserBot_def UserSelf_def)

lemma kind_subtype:
  "channel_kind_of_subtype SubGigagroup = Some Gigagroup" "channel_kind_of_subtype SubBroadcast = Some Broadcast"
  "channel_kind_of_subtype SubMegagroup = Some Megagroup" "channel_kind_of_subtype SubCommunity = None"
  by (simp_all add: channel_kind_of_subtype_def SubGigagroup_def SubBroadcast_def SubMegagroup_def SubCommunity_def)

lemma stored_bare [simp]: "bare_info (stored_info i) = bare_info i"
  by (cases i) auto

lemma peer_params_ok:
  "info_ok i \<Longrightarrow> peer_params dbg i =
     Some \<lparr>row_peer_id = the_id i, row_hash = info_auth i, row_subtype = map_option uint (subtype_of i)\<rparr>"
  using info_ok_kind(1)[of i] by (simp add: peer_params_def info_ok_id pid_bot_api_dialog_id_unchecked_def)

lemma peer_from_params:
  assumes "info_ok i"
  shows "peer_from_row dbg (the_id i)
    \<lparr>row_peer_id = the_id i, row_hash = info_auth i, row_subtype = map_option uint (subtype_of i)\<rparr> = Some (stored_info i)"
proof -
  note k = info_ok_kind[OF assms] and p = pid_bare_unchecked_of_kind[OF info_ok_of_kind[OF assms], of dbg]
  show ?thesis
  proof (cases i)
    case (InfoUser u a b s)
    have "pid_user u = Some (the_id i)" using info_ok_of_kind[OF assms] InfoUser by simp
    then have u: "the_id i = u" "pid_user_unchecked dbg u = Some u"
      by (auto simp: pid_user_def pid_user_unchecked_def split: if_splits)
    show ?thesis using InfoUser k(2) p u
      by (auto simp: peer_from_row_def Let_def subtype_bits split: bool.splits)
  next
    case (InfoChat c)
    then show ?thesis using k(2) p by (simp add: peer_from_row_def)
  next
    case (InfoChannel c a kd)
    then show ?thesis using k(2) p
      by (cases kd) (auto simp: peer_from_row_def Let_def kind_subtype split: channel_kind.splits)
  qed
qed

text \<open>
  C29: what the SQLite storage keeps of a peer. Caching a peer never panics on a valid
  identifier; the row written, read back, is the merge of what the row before it meant with the
  new information, reduced to what a row can hold (\<open>stored_info\<close>). In particular identity and
  authority survive, and so does the mark of the session's own user.
\<close>
theorem sqlite_cache_roundtrip:
  assumes "info_ok i" "sel (the_id i) = None \<or>
      (\<exists>old. info_ok old \<and> the_id old = the_id i \<and> sel (the_id i) = peer_params dbg old)"
  shows "\<exists>row. cache_peer_row dbg sel i = Some row \<and> row_peer_id row = the_id i \<and>
    (let before = Option.bind (sel (the_id i)) (peer_from_row dbg (the_id i));
         known = (case before of None \<Rightarrow> i | Some old \<Rightarrow> merge_info old i)
     in peer_from_row dbg (the_id i) row = Some (stored_info known) \<and>
        info_auth (stored_info known) = info_auth known \<and>
        is_self_info (stored_info known) = is_self_info known)"
proof -
  have d: "pid_bot_api_dialog_id_unchecked dbg (the_id i) = Some (the_id i)"
    using info_ok_kind(1)[OF assms(1)] by (simp add: pid_bot_api_dialog_id_unchecked_def)
  have keeps: "info_auth (stored_info j) = info_auth j" "is_self_info (stored_info j) = is_self_info j" for j
    by (cases j; auto)+
  from assms(2) show ?thesis
  proof
    assume "sel (the_id i) = None"
    then show ?thesis using assms(1) d keeps
      by (simp add: cache_peer_row_def info_ok_id peer_params_ok peer_from_params)
  next
    assume "\<exists>old. info_ok old \<and> the_id old = the_id i \<and> sel (the_id i) = peer_params dbg old"
    then obtain old where old: "info_ok old" "the_id old = the_id i" "sel (the_id i) = peer_params dbg old" by blast
    define m where "m = merge_info (stored_info old) i"
    have so: "info_ok (stored_info old)" "the_id (stored_info old) = the_id i"
      using old by (simp_all add: info_ok_def the_id_def info_id_checked)
    have m: "info_ok m" "the_id m = the_id i" using so by (simp_all add: m_def)
    have r: "Option.bind (sel (the_id i)) (peer_from_row dbg (the_id i)) = Some (stored_info old)"
      using peer_from_params[OF old(1), of dbg] old by (simp add: peer_params_ok)
    have "cache_peer_row dbg sel i = peer_params dbg m"
      using r d assms(1) old by (simp add: cache_peer_row_def info_ok_id m_def peer_params_ok)
    then show ?thesis using m r keeps peer_from_params[OF m(1), of dbg]
      by (simp add: peer_params_ok m_def Let_def)
  qed
qed

theorem sqlite_cache_roundtrip_witness:
  "\<exists>row. cache_peer_row True (\<lambda>_. None) (InfoUser 7 (Some 10) None (Some True)) = Some row \<and>
     row_peer_id row = the_id (InfoUser 7 (Some 10) None (Some True)) \<and>
    (let before = Option.bind None (peer_from_row True (the_id (InfoUser 7 (Some 10) None (Some True))));
         known = (case before of None \<Rightarrow> InfoUser 7 (Some 10) None (Some True)
                               | Some old \<Rightarrow> merge_info old (InfoUser 7 (Some 10) None (Some True)))
     in peer_from_row True (the_id (InfoUser 7 (Some 10) None (Some True))) row = Some (stored_info known) \<and>
        info_auth (stored_info known) = info_auth known \<and>
        is_self_info (stored_info known) = is_self_info known)"
  by (rule sqlite_cache_roundtrip) (simp_all add: info_ok_def pid_debug_checks pid_defs)

text \<open>
  The kind of a community is lost: it is written as subtype 16, which reading maps to no kind.
\<close>
lemma community_kind_lost:
  "pid_channel c \<noteq> None \<Longrightarrow>
     Option.bind (peer_params dbg (InfoChannel c a (Some Community))) (peer_from_row dbg (the_id (InfoChannel c a (Some Community))))
       = Some (InfoChannel c a None)"
proof -
  assume c: "pid_channel c \<noteq> None"
  have "info_ok (InfoChannel c a (Some Community))"
    using c by (auto simp: info_ok_def pid_debug_checks)
  from peer_params_ok[OF this] peer_from_params[OF this] show ?thesis by simp
qed

text \<open>The layer in front of the database answers what was last set, and knows the static options.\<close>

lemma sqlite_dc_option_set:
  "sqlite_dc_option d (sqlite_cache_dc_option dc c) = (if d = dc_id dc then Some dc else sqlite_dc_option d c)"
  by (simp add: sqlite_dc_option_def sqlite_cache_dc_option_def)

lemma sqlite_dc_option_fresh:
  "open_cache parse4 parse6 None [] = Inr c \<Longrightarrow> sqlite_dc_option d c = map_of (sd_dc_options session_data_default) d"
  by (auto simp: open_cache_def sqlite_dc_option_def session_data_default_def KNOWN_DC_OPTIONS_def)

section \<open>A path cannot escape its URI\<close>

definition hex_value :: "u8 \<Rightarrow> nat" where
  "hex_value b = (if unat b < 58 then unat b - 48 else unat b - 55)"

text \<open>What SQLite does to the path of a URI: percent-escapes become bytes.\<close>
fun percent_decode :: "bytes \<Rightarrow> bytes" where
  "percent_decode (b # h # l # bs) =
     (if b = 37 then of_nat (16 * hex_value h + hex_value l) # percent_decode bs
      else b # percent_decode (h # l # bs))"
| "percent_decode bs = bs"

lemma hex_value_upper: "d < 16 \<Longrightarrow> hex_value (hex_upper d) = d"
  by (simp add: hex_value_def hex_upper_def unat_of_nat)

lemma percent_decode_plain: "b \<noteq> 37 \<Longrightarrow> percent_decode (b # bs) = b # percent_decode bs"
  by (cases bs rule: percent_decode.cases) simp_all

lemma uri_plain_not_percent: "uri_plain b \<Longrightarrow> b \<noteq> 37"
  by (auto simp: uri_plain_def)

lemma percent_decode_byte: "percent_decode (uri_byte b @ bs) = b # percent_decode bs"
proof (cases "uri_plain b")
  case True
  then show ?thesis by (simp add: uri_byte_def uri_plain_not_percent percent_decode_plain)
next
  case False
  have "unat b div 16 < 16" by (rule less_mult_imp_div_less) simp
  then show ?thesis using False by (simp add: uri_byte_def hex_value_upper)
qed

lemma percent_decode_body: "percent_decode (concat (map uri_byte path)) = path"
  by (induction path) (simp_all add: percent_decode_byte)

lemma uri_byte_safe: "c \<in> set (uri_byte b) \<Longrightarrow> c \<noteq> 63 \<and> c \<noteq> 35"
proof -
  assume c: "c \<in> set (uri_byte b)"
  have h: "unat (hex_upper d) = (if d < 10 then 48 + d else 55 + d)" if "d < 16" for d
    using that by (simp add: hex_upper_def unat_of_nat)
  have "unat b div 16 < 16" by (rule less_mult_imp_div_less) simp
  moreover have "unat b mod 16 < 16" by simp
  ultimately have "unat c \<noteq> 63 \<and> unat c \<noteq> 35"
    using c h[of "unat b div 16"] h[of "unat b mod 16"]
    by (auto simp: uri_byte_def uri_plain_def split: if_splits)
  then show ?thesis by auto
qed

text \<open>
  The URI through which a file is inspected names that file and nothing else: it is accepted
  unless the path would be read as remote, its escaped path decodes to the given bytes, and it
  contains no byte that could end the path, so the parameters are always the read-only and
  immutable ones.
\<close>
theorem immutable_uri_faithful:
  "case immutable_uri path of
     None \<Rightarrow> take 2 path = map of_char ''//'' \<or> take 4 path = map of_char ''UNC/''
   | Some uri \<Rightarrow> \<exists>root body. uri = map of_char ''file:'' @ root @ body @ map of_char ''?mode=ro&immutable=1''
       \<and> root = (if take 1 path = [47] then [] else [47]) \<and> percent_decode body = path
       \<and> list_all (\<lambda>b. b \<noteq> 63 \<and> b \<noteq> 35) body"
proof -
  have "list_all (\<lambda>b. b \<noteq> 63 \<and> b \<noteq> 35) (concat (map uri_byte path))"
    using uri_byte_safe by (auto simp: list_all_iff)
  then show ?thesis
    using percent_decode_body[of path]
    by (auto simp: immutable_uri_def URI_SCHEME_def URI_SUFFIX_def)
qed

end
