(* ===== verification/Tl_Schema.thy ===== *)
theory Tl_Schema
  imports Rust_Text "HOL-Library.List_Lexorder"
begin

text \<open>
  The parser of schema files, \<open>grammers-tl-parser/src\<close>: types, flags, parameters and
  definitions with their \<open>FromStr\<close> and \<open>Display\<close> implementations (\<open>tl/\<close>), removal of comments
  and inference of identifiers (\<open>utils.rs\<close>), and the iterator over the definitions of a file
  (\<open>tl_iterator.rs\<close>). CRC-32 comes from the package \<open>crc32fast\<close> and is a parameter.
\<close>

section \<open>Errors\<close>

datatype param_error =
    PEmpty | PInvalidFlag | PInvalidGeneric | PTypeDef ustring | PMissingDef | PNotImplemented

datatype tl_parse_error =
    TEmpty | TInvalidId int_error | TInvalidParam param_error | TMissingName | TMissingType
  | TNotImplemented | TUnknownSeparator

section \<open>Types\<close>

datatype tl_type =
  TlType (ty_namespace: "ustring list") (ty_name: ustring) (ty_bare: bool) (ty_generic_ref: bool)
    (ty_generic_arg: "tl_type option")

definition display_namespace :: "ustring list \<Rightarrow> ustring" where
  "display_namespace ns = concat (map (\<lambda>n. n @ [46]) ns)"

fun display_type :: "tl_type \<Rightarrow> ustring" where
  "display_type (TlType ns name bare generic_ref generic_arg) =
     display_namespace ns @ (if generic_ref then [33] else []) @ name
     @ (case generic_arg of None \<Rightarrow> [] | Some t \<Rightarrow> [60] @ display_type t @ [62])"

fun find_generic_refs :: "tl_type \<Rightarrow> ustring list" where
  "find_generic_refs (TlType ns name bare generic_ref generic_arg) =
     (if generic_ref then [name] else [])
     @ (case generic_arg of None \<Rightarrow> [] | Some t \<Rightarrow> find_generic_refs t)"

text \<open>Parse \<open>ns1.ns2.name\<close>.\<close>
definition split_name :: "ustring \<Rightarrow> ustring list \<times> ustring" where
  "split_name name =
     (case rsplit_once 46 name of
        Some (ns, n) \<Rightarrow> (split_by (\<lambda>c. c = 46) ns, n)
      | None \<Rightarrow> ([], name))"

definition is_ascii_lowercase :: "nat \<Rightarrow> bool" where
  "is_ascii_lowercase c \<longleftrightarrow> 97 \<le> c \<and> c \<le> 122"

definition named_type :: "ustring \<Rightarrow> bool \<Rightarrow> tl_type option \<Rightarrow> param_error + tl_type" where
  "named_type full generic_ref generic_arg =
     (case split_name full of (ns, name) \<Rightarrow>
        if [] \<in> set ns \<or> name = [] then Inl PEmpty
        else Inr (TlType ns name (is_ascii_lowercase (hd name)) generic_ref generic_arg))"

text \<open>Parse \<open>!type\<close>.\<close>
definition strip_bang :: "ustring \<Rightarrow> ustring \<times> bool" where
  "strip_bang s = (case strip_pre [33] s of Some r \<Rightarrow> (r, True) | None \<Rightarrow> (s, False))"

function parse_type :: "ustring \<Rightarrow> param_error + tl_type" where
  "parse_type s =
     (case strip_bang s of (s1, generic_ref) \<Rightarrow>
        case split_once 60 s1 of
          None \<Rightarrow> named_type s1 generic_ref None
        | Some (name, arg) \<Rightarrow>
            (case strip_suf [62] arg of
               None \<Rightarrow> Inl PInvalidGeneric
             | Some arg' \<Rightarrow>
                 (case parse_type arg' of
                    Inl e \<Rightarrow> Inl e
                  | Inr t \<Rightarrow> named_type name generic_ref (Some t))))"
  by pat_completeness auto
termination
proof (relation "measure length")
  fix s s1 g p name arg arg'
  assume b: "(s1, g) = strip_bang s" and p: "split_once 60 s1 = Some p" "(name, arg) = p"
    and a: "strip_suf [62] arg = Some arg'"
  have "length s1 \<le> length s"
    using b by (auto simp: strip_bang_def strip_pre_def split: option.splits if_splits)
  moreover have "length arg < length s1" using split_once_by_Some[of "\<lambda>x. x = 60" s1 name arg] p by auto
  moreover have "length arg' \<le> length arg" using a by (auto simp: strip_suf_def strip_pre_def split: if_splits)
  ultimately show "(arg', s) \<in> measure length" by simp
qed simp

declare parse_type.simps [simp del]

section \<open>Flags and parameters\<close>

record tl_flag =
  flag_name :: ustring
  flag_index :: nat

definition display_flag :: "tl_flag \<Rightarrow> ustring" where
  "display_flag f = flag_name f @ [46] @ show_radix 10 (flag_index f)"

definition parse_flag :: "ustring \<Rightarrow> param_error + tl_flag" where
  "parse_flag s =
     (case split_once 46 s of
        Some (name, index) \<Rightarrow>
          (case from_str_radix 10 (2 ^ 64) index of
             Inl e \<Rightarrow> Inl PInvalidFlag
           | Inr i \<Rightarrow> Inr \<lparr>flag_name = name, flag_index = i\<rparr>)
      | None \<Rightarrow> Inl PInvalidFlag)"

datatype parameter_type = Flags | Normal tl_type "tl_flag option"

fun display_ptype :: "parameter_type \<Rightarrow> ustring" where
  "display_ptype Flags = [35]"
| "display_ptype (Normal ty flag) =
     (case flag of Some f \<Rightarrow> display_flag f @ [63] | None \<Rightarrow> []) @ display_type ty"

definition parse_ptype :: "ustring \<Rightarrow> param_error + parameter_type" where
  "parse_ptype s =
     (if s = [] then Inl PEmpty
      else if s = [35] then Inr Flags
      else case split_once 63 s of
        Some (flag, ty) \<Rightarrow>
          (case parse_flag flag of
             Inl e \<Rightarrow> Inl e
           | Inr f \<Rightarrow> (case parse_type ty of Inl e \<Rightarrow> Inl e | Inr t \<Rightarrow> Inr (Normal t (Some f))))
      | None \<Rightarrow> (case parse_type s of Inl e \<Rightarrow> Inl e | Inr t \<Rightarrow> Inr (Normal t None)))"

record tl_parameter =
  param_name :: ustring
  param_ty :: parameter_type

definition display_param :: "tl_parameter \<Rightarrow> ustring" where
  "display_param p = param_name p @ [58] @ display_ptype (param_ty p)"

definition TYPE_DEF_SUFFIX :: ustring where
  "TYPE_DEF_SUFFIX = us '':Type}''"

definition parse_param :: "ustring \<Rightarrow> param_error + tl_parameter" where
  "parse_param s =
     (case strip_pre [123] s of
        Some def \<Rightarrow>
          (case strip_suf TYPE_DEF_SUFFIX def of
             Some name \<Rightarrow> Inl (PTypeDef name)
           | None \<Rightarrow> Inl PMissingDef)
      | None \<Rightarrow>
          (case split_once 58 s of
             None \<Rightarrow> Inl PNotImplemented
           | Some (name, ty) \<Rightarrow>
               if name = [] \<or> ty = [] then Inl PEmpty
               else (case parse_ptype ty of
                       Inl e \<Rightarrow> Inl e
                     | Inr t \<Rightarrow> Inr \<lparr>param_name = name, param_ty = t\<rparr>)))"

section \<open>Definitions\<close>

datatype category = Types | Functions

record tl_definition =
  def_namespace :: "ustring list"
  def_name :: ustring
  def_id :: nat
  def_params :: "tl_parameter list"
  def_ty :: tl_type
  def_category :: category

fun param_refs :: "parameter_type \<Rightarrow> ustring list" where
  "param_refs Flags = []"
| "param_refs (Normal ty flag) = find_generic_refs ty"

text \<open>The generic names declared first, sorted and without repetitions.\<close>
definition generic_defs :: "tl_definition \<Rightarrow> ustring list" where
  "generic_defs d = remdups_adj (sort (concat (map (\<lambda>p. param_refs (param_ty p)) (def_params d))))"

definition display_definition :: "tl_definition \<Rightarrow> ustring" where
  "display_definition d =
     display_namespace (def_namespace d) @ def_name d @ [35] @ show_radix 16 (def_id d)
     @ concat (map (\<lambda>t. [32, 123] @ t @ TYPE_DEF_SUFFIX) (generic_defs d))
     @ concat (map (\<lambda>p. [32] @ display_param p) (def_params d))
     @ us '' = '' @ display_type (def_ty d)"

definition full_name :: "tl_definition \<Rightarrow> ustring" where
  "full_name d = display_namespace (def_namespace d) @ def_name d"

text \<open>
  The parameters, with the generic names and flag fields declared so far; the first error ends
  the collection. The generic names are returned too.
\<close>
fun parse_params ::
    "ustring list \<Rightarrow> ustring list \<Rightarrow> ustring list \<Rightarrow> tl_parse_error + (tl_parameter list \<times> ustring list)" where
  "parse_params type_defs flag_defs [] = Inr ([], type_defs)"
| "parse_params type_defs flag_defs (w # ws) =
     (case parse_param w of
        Inl (PTypeDef name) \<Rightarrow> parse_params (type_defs @ [name]) flag_defs ws
      | Inl PNotImplemented \<Rightarrow> Inl TNotImplemented
      | Inl e \<Rightarrow> Inl (TInvalidParam e)
      | Inr p \<Rightarrow>
          let next = (\<lambda>fds. case parse_params type_defs fds ws of
                        Inl e \<Rightarrow> Inl e | Inr (ps, tds) \<Rightarrow> Inr (p # ps, tds)) in
          (case param_ty p of
             Flags \<Rightarrow> next (flag_defs @ [param_name p])
           | Normal ty flag \<Rightarrow>
               if ty_generic_ref ty \<and> ty_name ty \<notin> set type_defs then Inl (TInvalidParam PMissingDef)
               else (case flag of
                  Some f \<Rightarrow> if flag_name f \<notin> set flag_defs then Inl (TInvalidParam PMissingDef)
                            else next flag_defs
                | None \<Rightarrow> next flag_defs)))"

section \<open>Inferring the identifier\<close>

text \<open>Position of the last space before \<open>pos\<close>, or zero.\<close>
definition last_space :: "ustring \<Rightarrow> nat \<Rightarrow> nat" where
  "last_space s pos =
     (case rsplit_once 32 (take pos s) of Some (a, b) \<Rightarrow> length a | None \<Rightarrow> 0)"

lemma find_sub_bound: "find_sub p s = Some n \<Longrightarrow> n + length p \<le> length s"
proof (induction s arbitrary: n)
  case Nil
  then show ?case by (auto split: if_splits)
next
  case (Cons c s)
  show ?case
  proof (cases "take (length p) (c # s) = p")
    case True
    then have "n = 0" using Cons.prems by simp
    then show ?thesis using arg_cong[OF True, of length] by simp
  next
    case False
    then obtain m where "find_sub p s = Some m" "n = Suc m" using Cons.prems by auto
    then show ?thesis using Cons.IH by auto
  qed
qed

lemma last_space_le: "last_space s pos \<le> pos"
proof (cases "rsplit_once 32 (take pos s)")
  case None
  then show ?thesis by (simp add: last_space_def)
next
  case (Some q)
  then obtain a b where q: "split_once 32 (rev (take pos s)) = Some (b, a)" "q = (rev a, rev b)"
    by (auto simp: rsplit_once_def)
  then have "rev (take pos s) = b @ 32 # a" using split_once_by_Some[OF q(1)] by auto
  then have "length a < length (take pos s)" by (metis length_append length_rev length_Cons less_add_Suc2 add_Suc_right)
  then show ?thesis using Some q by (simp add: last_space_def)
qed

function drop_true_flags :: "ustring \<Rightarrow> ustring" where
  "drop_true_flags s =
     (case find_sub (us ''?true'') s of
        None \<Rightarrow> s
      | Some pos \<Rightarrow> drop_true_flags (take (last_space s pos) s @ drop (pos + 5) s))"
  by pat_completeness auto

termination
proof (relation "measure length")
  fix s pos
  assume "find_sub (us ''?true'') s = Some pos"
  from find_sub_bound[OF this] last_space_le[of s pos]
  show "(take (last_space s pos) s @ drop (pos + 5) s, s) \<in> measure length" by (simp add: us_def)
qed simp

declare drop_true_flags.simps [simp del]

text \<open>The text whose checksum is the identifier.\<close>
definition id_representation :: "ustring \<Rightarrow> ustring" where
  "id_representation s =
     drop_true_flags
       (replace (us ''}'') [] (replace (us ''{'') [] (replace (us ''>'') [] (replace (us ''<'') (us '' '')
         (replace (us ''?bytes '') (us ''? string'') (replace (us '':bytes '') (us '': string'') s))))))"

definition infer_id :: "(bytes \<Rightarrow> u32) \<Rightarrow> ustring \<Rightarrow> nat" where
  "infer_id crc32 s = unat (crc32 (as_bytes (id_representation s)))"

section \<open>Parsing a definition\<close>

definition finish_definition ::
    "ustring \<Rightarrow> (tl_parse_error + nat) \<Rightarrow> ustring \<Rightarrow> tl_type \<Rightarrow> tl_parse_error + tl_definition" where
  "finish_definition name identifier middle ty =
     (case split_name name of (ns, n) \<Rightarrow>
        if [] \<in> set ns \<or> n = [] then Inl TMissingName
        else case identifier of
          Inl e \<Rightarrow> Inl e
        | Inr i \<Rightarrow>
            (case parse_params [] [] (split_whitespace middle) of
               Inl e \<Rightarrow> Inl e
             | Inr (ps, tds) \<Rightarrow> Inr
                 \<lparr>def_namespace = ns, def_name = n, def_id = i, def_params = ps,
                  def_ty = (if ty_name ty \<in> set tds
                            then TlType (ty_namespace ty) (ty_name ty) (ty_bare ty) True (ty_generic_arg ty)
                            else ty),
                  def_category = Types\<rparr>))"

definition parse_definition :: "(bytes \<Rightarrow> u32) \<Rightarrow> ustring \<Rightarrow> tl_parse_error + tl_definition" where
  "parse_definition crc32 s =
     (if trim s = [] then Inl TEmpty
      else case split_once 61 s of
        None \<Rightarrow> Inl TMissingType
      | Some (l, t) \<Rightarrow>
          (case parse_type (trim t) of
             Inl e \<Rightarrow> Inl TMissingType
           | Inr ty \<Rightarrow>
               (let left = trim l;
                    (name, middle) = (case split_once_by is_whitespace left of
                       Some (a, b) \<Rightarrow> (trim_end a, trim_start b) | None \<Rightarrow> (left, []))
                in case split_once 35 name of
                     Some (n, i) \<Rightarrow>
                       finish_definition (trim_end n)
                         (case from_str_radix 16 (2 ^ 32) (trim_start i) of Inl e \<Rightarrow> Inl (TInvalidId e) | Inr v \<Rightarrow> Inr v)
                         middle ty
                   | None \<Rightarrow> finish_definition name (Inr (infer_id crc32 s)) middle ty)))"

section \<open>Files\<close>

text \<open>\<open>split_inclusive('\n')\<close>: the lines, each with its newline.\<close>
fun lines_inclusive :: "ustring \<Rightarrow> ustring list" where
  "lines_inclusive [] = []"
| "lines_inclusive (c # s) =
     (if c = 10 then [10] # lines_inclusive s
      else case lines_inclusive s of
        l # ls \<Rightarrow> (c # l) # ls
      | [] \<Rightarrow> [[c]])"

text \<open>The part of a line that is not a comment.\<close>
definition strip_comment :: "ustring \<Rightarrow> ustring" where
  "strip_comment line =
     (case find_sub (us ''//'') line of
        Some pos \<Rightarrow> take pos line @ (if line \<noteq> [] \<and> last line = 10 then [10] else [])
      | None \<Rightarrow> line)"

definition remove_tl_comments :: "ustring \<Rightarrow> ustring" where
  "remove_tl_comments contents = concat (map strip_comment (lines_inclusive contents))"

record tl_iterator =
  contents :: ustring
  it_index :: nat
  it_category :: category

definition iterator_new :: "ustring \<Rightarrow> tl_iterator" where
  "iterator_new c = \<lparr>contents = remove_tl_comments c, it_index = 0, it_category = Types\<rparr>"

definition definition_end :: "ustring \<Rightarrow> nat \<Rightarrow> nat" where
  "definition_end c i = (case find_sub (us '';'') (drop i c) of Some e \<Rightarrow> i + e | None \<Rightarrow> length c)"

lemma definition_end_ge: "i < length c \<Longrightarrow> i \<le> definition_end c i"
  by (simp add: definition_end_def split: option.splits)

text \<open>The next text that is not blank, and the position after it.\<close>
function next_text :: "ustring \<Rightarrow> nat \<Rightarrow> (ustring \<times> nat) option" where
  "next_text c i =
     (if length c \<le> i then None
      else
        let e = definition_end c i; t = trim (take (e - i) (drop i c)) in
        if t \<noteq> [] then Some (t, e + 1) else next_text c (e + 1))"
  by pat_completeness auto

termination
proof (relation "measure (\<lambda>(c, i). length c - i)")
  fix c :: ustring and i e t
  assume "\<not> length c \<le> i" "e = definition_end c i"
  then show "((c, e + 1), c, i) \<in> measure (\<lambda>(c, i). length c - i)"
    using definition_end_ge[of i c] by auto
qed simp

declare next_text.simps [simp del]

definition strip_separator :: "category \<Rightarrow> ustring \<Rightarrow> (category \<times> ustring) option" where
  "strip_separator cat s =
     (if take 3 s = us ''---'' then
        (case strip_pre (us ''---functions---'') s of
           Some d \<Rightarrow> Some (Functions, trim d)
         | None \<Rightarrow> (case strip_pre (us ''---types---'') s of
             Some d \<Rightarrow> Some (Types, trim d)
           | None \<Rightarrow> None))
      else Some (cat, s))"

definition iterator_next ::
    "(bytes \<Rightarrow> u32) \<Rightarrow> tl_iterator \<Rightarrow> ((tl_parse_error + tl_definition) \<times> tl_iterator) option" where
  "iterator_next crc32 it =
     (case next_text (contents it) (it_index it) of
        None \<Rightarrow> None
      | Some (t, i) \<Rightarrow>
          (case strip_separator (it_category it) t of
             None \<Rightarrow> Some (Inl TUnknownSeparator, it\<lparr>it_index := i\<rparr>)
           | Some (cat, d) \<Rightarrow>
               Some (case parse_definition crc32 d of
                       Inr df \<Rightarrow> Inr (df\<lparr>def_category := cat\<rparr>)
                     | Inl e \<Rightarrow> Inl e,
                     it\<lparr>it_index := i, it_category := cat\<rparr>)))"

end
