(* ===== verification/Tl_Schema_Laws.thy ===== *)
theory Tl_Schema_Laws
  imports Tl_Schema
begin

text \<open>
  Printing and parsing schema definitions: what \<open>Display\<close> writes, \<open>FromStr\<close> reads back, for
  single definitions and for whole files read through the iterator.
\<close>

section \<open>Identifiers\<close>

text \<open>Characters that are no punctuation of the language.\<close>
definition plain :: "nat \<Rightarrow> bool" where
  "plain c \<longleftrightarrow> c \<notin> {33, 35, 45, 46, 47, 58, 59, 60, 61, 62, 63, 123, 125} \<and> \<not> is_whitespace c"

definition ident :: "ustring \<Rightarrow> bool" where
  "ident s \<longleftrightarrow> s \<noteq> [] \<and> (\<forall>c \<in> set s. plain c)"

lemma ident_not_Nil [simp]: "ident s \<Longrightarrow> s \<noteq> []" by (simp add: ident_def)

lemma ident_plain: "ident s \<Longrightarrow> c \<in> set s \<Longrightarrow> plain c" by (simp add: ident_def)

lemma plain_neq:
  "plain c \<Longrightarrow> c \<noteq> 33 \<and> c \<noteq> 35 \<and> c \<noteq> 45 \<and> c \<noteq> 46 \<and> c \<noteq> 47 \<and> c \<noteq> 58 \<and> c \<noteq> 59 \<and> c \<noteq> 60 \<and> c \<noteq> 61 \<and> c \<noteq> 62 \<and> c \<noteq> 63
     \<and> c \<noteq> 123 \<and> c \<noteq> 125 \<and> \<not> is_whitespace c"
  by (auto simp: plain_def)

lemma punct_not_plain [simp]:
  "\<not> plain 33" "\<not> plain 35" "\<not> plain 45" "\<not> plain 46" "\<not> plain 47" "\<not> plain 58" "\<not> plain 59" "\<not> plain 60"
  "\<not> plain 61" "\<not> plain 62" "\<not> plain 63" "\<not> plain 123" "\<not> plain 125"
  by (simp_all add: plain_def)

lemma ident_hd: "ident s \<Longrightarrow> plain (hd s)" by (simp add: ident_def)

lemma ident_notin: "ident s \<Longrightarrow> \<not> plain c \<Longrightarrow> c \<notin> set s" by (auto simp: ident_def)

lemma punct_not_space [simp]:
  "\<not> is_whitespace 33" "\<not> is_whitespace 35" "\<not> is_whitespace 46" "\<not> is_whitespace 58" "\<not> is_whitespace 60"
  "\<not> is_whitespace 61" "\<not> is_whitespace 62" "\<not> is_whitespace 63" "\<not> is_whitespace 123" "\<not> is_whitespace 125"
  "is_whitespace 32" "\<not> is_whitespace 45"
  by (simp_all add: is_whitespace_def)

lemma digit_plain: "48 \<le> c \<and> c \<le> 57 \<or> 97 \<le> c \<and> c \<le> 122 \<Longrightarrow> plain c"
  by (auto simp: plain_def is_whitespace_def)

lemma show_radix_plain:
  "2 \<le> radix \<Longrightarrow> radix \<le> 36 \<Longrightarrow> ident (show_radix radix n)"
  using show_radix_chars[of radix n] digit_plain by (simp add: ident_def)

section \<open>Namespaces\<close>

lemma split_namespace:
  "\<forall>x \<in> set ns. 46 \<notin> set x \<Longrightarrow> 46 \<notin> set y \<Longrightarrow>
     split_by (\<lambda>c. c = 46) (display_namespace ns @ y) = ns @ [y]"
proof (induction ns)
  case Nil
  then have "\<forall>c \<in> set y. c \<noteq> 46" by auto
  then show ?case by (simp add: display_namespace_def split_by_none)
next
  case (Cons x ns)
  then have "\<forall>c \<in> set x. c \<noteq> 46" by auto
  then show ?case using Cons split_by_app[of x "\<lambda>c. c = 46" 46 "display_namespace ns @ y"]
    by (simp add: display_namespace_def)
qed

lemma display_namespace_snoc: "display_namespace (ns @ [x]) = display_namespace ns @ x @ [46]"
  by (simp add: display_namespace_def)

lemma split_name_display:
  assumes "\<forall>x \<in> set ns. 46 \<notin> set x" "46 \<notin> set n"
  shows "split_name (display_namespace ns @ n) = (ns, n)"
proof (cases ns rule: rev_cases)
  case Nil
  then show ?thesis using assms by (simp add: split_name_def display_namespace_def rsplit_once_None)
next
  case (snoc ns' x)
  have "rsplit_once 46 ((display_namespace ns' @ x) @ 46 # n) = Some (display_namespace ns' @ x, n)"
    by (rule rsplit_once_app) (rule assms)
  then show ?thesis
    using assms split_namespace[of ns' x] by (simp add: split_name_def snoc display_namespace_snoc)
qed

section \<open>Types\<close>

text \<open>
  Types that printing represents: names are identifiers, the bare flag is the one the name has,
  and a generic reference has no namespace (its mark would be printed behind the namespace).
\<close>
fun type_ok :: "tl_type \<Rightarrow> bool" where
  "type_ok (TlType ns n b g a) \<longleftrightarrow>
     (\<forall>x \<in> set ns. ident x) \<and> ident n \<and> b = is_ascii_lowercase (hd n) \<and> (g \<longrightarrow> ns = []) \<and>
     (case a of None \<Rightarrow> True | Some t \<Rightarrow> type_ok t)"

lemma namespace_chars: "\<forall>x \<in> set ns. ident x \<Longrightarrow> c \<in> set (display_namespace ns) \<Longrightarrow> plain c \<or> c = 46"
  by (auto simp: display_namespace_def ident_def split: if_splits)

lemma type_chars: "type_ok t \<Longrightarrow> c \<in> set (display_type t) \<Longrightarrow> plain c \<or> c \<in> {33, 46, 60, 62}"
proof (induction t rule: display_type.induct)
  case (1 ns n b g a)
  then show ?case
    by (auto dest: namespace_chars ident_plain split: if_splits option.splits)
qed

lemma type_not_Nil: "type_ok t \<Longrightarrow> display_type t \<noteq> []"
  by (cases t) auto

lemma type_no_space: "type_ok t \<Longrightarrow> c \<in> set (display_type t) \<Longrightarrow> \<not> is_whitespace c"
  using type_chars[of t c] plain_neq[of c] by auto

lemma strip_bang_name:
  assumes "\<forall>x \<in> set ns. ident x" "ident n" "g \<longrightarrow> ns = []"
  shows "strip_bang (display_namespace ns @ (if g then [33] else []) @ n @ r) = (display_namespace ns @ n @ r, g)"
proof (cases g)
  case True
  then show ?thesis using assms by (simp add: strip_bang_def strip_pre_def display_namespace_def)
next
  case False
  have "hd (display_namespace ns @ n @ r) \<noteq> 33" "display_namespace ns @ n @ r \<noteq> []"
    using assms plain_neq[OF ident_hd] by (cases ns; auto simp: display_namespace_def ident_def plain_def)+
  then have "strip_pre [33] (display_namespace ns @ n @ r) = None"
    by (cases "display_namespace ns @ n @ r") (auto simp: strip_pre_def)
  then show ?thesis using False by (simp add: strip_bang_def)
qed

lemma strip_suf_app: "strip_suf p (s @ p) = Some s"
  by (simp add: strip_suf_def strip_pre_def)

lemma parse_display_type: "type_ok t \<Longrightarrow> parse_type (display_type t) = Inr t"
proof (induction t rule: display_type.induct)
  case (1 ns n b g a)
  then have ok: "\<forall>x \<in> set ns. ident x" "ident n" "b = is_ascii_lowercase (hd n)" "g \<longrightarrow> ns = []" by simp_all
  have no: "46 \<notin> set n" "\<forall>x \<in> set ns. 46 \<notin> set x" using ok by (auto simp: ident_notin)
  have "[] \<notin> set ns" using ok(1) by (auto simp: ident_def)
  then have named: "named_type (display_namespace ns @ n) g a' = Inr (TlType ns n b g a')" for a'
    using ok split_name_display[OF no(2,1)] by (simp add: named_type_def)
  have no60: "\<forall>c \<in> set (display_namespace ns @ n). c \<noteq> 60"
    using ok namespace_chars[OF ok(1)] ident_notin[OF ok(2), of 60] by force
  show ?case
  proof (cases a)
    case None
    then show ?thesis
      using strip_bang_name[OF ok(1,2,4), of "[]"] split_once_by_None[OF no60] named
      by (subst parse_type.simps) simp
  next
    case (Some t)
    then have t: "parse_type (display_type t) = Inr t" using 1 by simp
    have "split_once 60 ((display_namespace ns @ n) @ 60 # display_type t @ [62])
        = Some (display_namespace ns @ n, display_type t @ [62])"
      using split_once_by_app[OF no60] by simp
    then show ?thesis
      using Some t strip_bang_name[OF ok(1,2,4), of "60 # display_type t @ [62]"] strip_suf_app[of "[62]"] named
      by (subst parse_type.simps) simp
  qed
qed

section \<open>Parameters\<close>

fun ptype_ok :: "parameter_type \<Rightarrow> bool" where
  "ptype_ok Flags = True"
| "ptype_ok (Normal ty flag) =
     (type_ok ty \<and> (case flag of None \<Rightarrow> True | Some f \<Rightarrow> ident (flag_name f) \<and> flag_index f < 2 ^ 64))"

definition param_ok :: "tl_parameter \<Rightarrow> bool" where
  "param_ok p \<longleftrightarrow> ident (param_name p) \<and> ptype_ok (param_ty p)"

lemma parse_display_flag:
  "ident (flag_name f) \<Longrightarrow> flag_index f < 2 ^ 64 \<Longrightarrow> parse_flag (display_flag f) = Inr f"
proof -
  assume n: "ident (flag_name f)" and i: "flag_index f < 2 ^ 64"
  have "\<forall>c \<in> set (flag_name f). c \<noteq> 46" using ident_notin[OF n, of 46] by auto
  then have "split_once 46 (display_flag f) = Some (flag_name f, show_radix 10 (flag_index f))"
    using split_once_by_app[of "flag_name f" "\<lambda>x. x = 46" 46] by (simp add: display_flag_def)
  then show ?thesis using from_show[of 10, OF _ _ i] by (simp add: parse_flag_def)
qed

lemma flag_chars: "ident (flag_name f) \<Longrightarrow> c \<in> set (display_flag f) \<Longrightarrow> plain c \<or> c = 46"
  using ident_plain[OF show_radix_plain[of 10 "flag_index f"], of c]
  by (auto simp: display_flag_def dest: ident_plain)

lemma ptype_chars:
  "ptype_ok t \<Longrightarrow> c \<in> set (display_ptype t) \<Longrightarrow> plain c \<or> c \<in> {33, 35, 46, 60, 62, 63}"
  by (cases t) (auto split: option.splits dest: type_chars flag_chars)

lemma parse_display_ptype: "ptype_ok t \<Longrightarrow> parse_ptype (display_ptype t) = Inr t"
proof (cases t)
  case Flags
  then show ?thesis by (simp add: parse_ptype_def)
next
  case (Normal ty flag)
  assume "ptype_ok t"
  then have ty: "type_ok ty" using Normal by simp
  note p = parse_display_type[OF ty]
  show ?thesis
  proof (cases flag)
    case None
    have "\<forall>c \<in> set (display_type ty). c \<noteq> 63" "display_type ty \<noteq> [35]"
      using type_chars[OF ty] plain_neq by fastforce+
    then show ?thesis
      using None Normal p type_not_Nil[OF ty] split_once_by_None[of "display_type ty" "\<lambda>x. x = 63"]
      by (simp add: parse_ptype_def)
  next
    case (Some f)
    then have f: "ident (flag_name f)" "flag_index f < 2 ^ 64" using \<open>ptype_ok t\<close> Normal by simp_all
    have "\<forall>c \<in> set (display_flag f). c \<noteq> 63" using flag_chars[OF f(1)] by force
    then have "split_once 63 (display_flag f @ 63 # display_type ty) = Some (display_flag f, display_type ty)"
      by (intro split_once_by_app) auto
    moreover have "display_flag f @ 63 # display_type ty \<noteq> [35]"
      by (cases "display_flag f") auto
    ultimately show ?thesis using Some Normal p parse_display_flag[OF f] by (simp add: parse_ptype_def)
  qed
qed

lemma ptype_not_Nil: "ptype_ok t \<Longrightarrow> display_ptype t \<noteq> []"
  by (cases t) (auto simp: type_not_Nil)

lemma parse_display_param: "param_ok p \<Longrightarrow> parse_param (display_param p) = Inr p"
proof -
  assume p: "param_ok p"
  then have n: "ident (param_name p)" and t: "ptype_ok (param_ty p)" by (simp_all add: param_ok_def)
  have "\<forall>c \<in> set (param_name p). c \<noteq> 58" using ident_notin[OF n, of 58] by auto
  then have s: "split_once 58 (display_param p) = Some (param_name p, display_ptype (param_ty p))"
    using split_once_by_app[of "param_name p" "\<lambda>x. x = 58" 58] by (simp add: display_param_def)
  have "strip_pre [123] (display_param p) = None"
    using n by (cases "param_name p") (auto simp: strip_pre_def display_param_def ident_def)
  then show ?thesis
    using s n parse_display_ptype[OF t] ptype_not_Nil[OF t] by (simp add: parse_param_def)
qed

lemma param_no_space: "param_ok p \<Longrightarrow> c \<in> set (display_param p) \<Longrightarrow> \<not> is_whitespace c \<and> c \<notin> {47, 59, 61}"
  using ptype_chars[of "param_ty p" c] plain_neq[of c]
  by (auto simp: display_param_def param_ok_def dest: ident_plain)

lemma parse_type_def: "ident t \<Longrightarrow> parse_param ([123] @ t @ TYPE_DEF_SUFFIX) = Inl (PTypeDef t)"
  by (simp add: parse_param_def strip_pre_def strip_suf_app)

section \<open>Definitions\<close>

text \<open>A parameter may depend only on a flags field before it.\<close>
fun flags_declared :: "ustring list \<Rightarrow> tl_parameter list \<Rightarrow> bool" where
  "flags_declared fds [] = True"
| "flags_declared fds (p # ps) =
     (case param_ty p of
        Flags \<Rightarrow> flags_declared (fds @ [param_name p]) ps
      | Normal ty flag \<Rightarrow>
          (case flag of Some f \<Rightarrow> flag_name f \<in> set fds | None \<Rightarrow> True) \<and> flags_declared fds ps)"

definition def_ok :: "tl_definition \<Rightarrow> bool" where
  "def_ok d \<longleftrightarrow>
     (\<forall>x \<in> set (def_namespace d). ident x) \<and> ident (def_name d) \<and> def_id d < 2 ^ 32 \<and>
     (\<forall>p \<in> set (def_params d). param_ok p) \<and> flags_declared [] (def_params d) \<and> type_ok (def_ty d) \<and>
     (ty_name (def_ty d) \<in> set (generic_defs d) \<longrightarrow> ty_generic_ref (def_ty d))"

definition def_words :: "tl_definition \<Rightarrow> ustring list" where
  "def_words d = map (\<lambda>t. [123] @ t @ TYPE_DEF_SUFFIX) (generic_defs d) @ map display_param (def_params d)"

lemma generic_refs_ident: "type_ok t \<Longrightarrow> x \<in> set (find_generic_refs t) \<Longrightarrow> ident x"
  by (induction t rule: display_type.induct) (auto split: if_splits option.splits)

lemma set_generic_defs: "set (generic_defs d) = (\<Union>p \<in> set (def_params d). set (param_refs (param_ty p)))"
  by (simp add: generic_defs_def)

lemma generic_defs_ident: "def_ok d \<Longrightarrow> t \<in> set (generic_defs d) \<Longrightarrow> ident t"
proof -
  assume d: "def_ok d" and "t \<in> set (generic_defs d)"
  then obtain p where p: "p \<in> set (def_params d)" "t \<in> set (param_refs (param_ty p))"
    by (auto simp: set_generic_defs)
  then have "ptype_ok (param_ty p)" using d by (auto simp: def_ok_def param_ok_def)
  then show "ident t" using p(2) generic_refs_ident by (cases "param_ty p") auto
qed

lemma parse_type_defs:
  "\<forall>t \<in> set ts. ident t \<Longrightarrow>
     parse_params tds fds (map (\<lambda>t. [123] @ t @ TYPE_DEF_SUFFIX) ts @ ws) = parse_params (tds @ ts) fds ws"
  by (induction ts arbitrary: tds) (simp_all add: parse_type_def[simplified])

lemma parse_display_params:
  assumes "\<forall>p \<in> set ps. param_ok p" "flags_declared fds ps"
    and "\<forall>p \<in> set ps. set (param_refs (param_ty p)) \<subseteq> set tds"
  shows "parse_params tds fds (map display_param ps) = Inr (ps, tds)"
  using assms
proof (induction ps arbitrary: fds)
  case Nil
  then show ?case by simp
next
  case (Cons p ps)
  then have p: "parse_param (display_param p) = Inr p" by (simp add: parse_display_param)
  show ?case
  proof (cases "param_ty p")
    case Flags
    then show ?thesis using Cons p by (simp add: Let_def)
  next
    case (Normal ty flag)
    have "ty_generic_ref ty \<longrightarrow> ty_name ty \<in> set tds" using Cons.prems(3) Normal by (cases ty) auto
    then show ?thesis using Cons p Normal by (auto simp: Let_def split: option.splits)
  qed
qed

text \<open>Words separated by single spaces are found again.\<close>

definition word :: "ustring \<Rightarrow> bool" where
  "word w \<longleftrightarrow> w \<noteq> [] \<and> (\<forall>c \<in> set w. \<not> is_whitespace c)"

definition spaced :: "ustring list \<Rightarrow> ustring" where
  "spaced ws = concat (map (\<lambda>w. 32 # w) ws)"

lemma split_by_spaced:
  "\<forall>w \<in> set ws. word w \<Longrightarrow> word v \<Longrightarrow> split_by is_whitespace (v @ spaced ws) = v # ws"
proof (induction ws arbitrary: v)
  case Nil
  then show ?case by (simp add: spaced_def word_def split_by_none)
next
  case (Cons w ws)
  then have "split_by is_whitespace (v @ 32 # (w @ spaced ws)) = v # split_by is_whitespace (w @ spaced ws)"
    by (intro split_by_app) (auto simp: word_def)
  then show ?case using Cons by (simp add: spaced_def)
qed

lemma last_spaced: "\<forall>w \<in> set ws. word w \<Longrightarrow> word v \<Longrightarrow> \<not> is_whitespace (last (v @ spaced ws))"
  by (cases ws rule: rev_cases) (auto simp: spaced_def word_def)

lemma def_words_word: "def_ok d \<Longrightarrow> w \<in> set (def_words d) \<Longrightarrow> word w \<and> (\<forall>c \<in> set w. c \<notin> {47, 59, 61})"
proof -
  assume d: "def_ok d" and "w \<in> set (def_words d)"
  then consider t where "w = [123] @ t @ TYPE_DEF_SUFFIX" "ident t"
    | p where "w = display_param p" "param_ok p"
    using generic_defs_ident[OF d] by (auto simp: def_words_def def_ok_def)
  then show ?thesis
  proof cases
    case 1
    have "\<not> is_whitespace c \<and> c \<notin> {47, 59, 61}" if "c \<in> set TYPE_DEF_SUFFIX" for c
      using that by (auto simp: TYPE_DEF_SUFFIX_def us_def is_whitespace_def)
    then show ?thesis using 1 plain_neq[OF ident_plain[OF 1(2)]] by (auto simp: word_def)
  next
    case 2
    then show ?thesis using param_no_space[OF 2(2)] by (auto simp: word_def display_param_def)
  qed
qed

definition def_head :: "tl_definition \<Rightarrow> ustring" where
  "def_head d = full_name d @ [35] @ show_radix 16 (def_id d)"

lemma display_split:
  "display_definition d = (def_head d @ spaced (def_words d) @ [32]) @ 61 # 32 # display_type (def_ty d)"
  by (simp add: display_definition_def def_head_def full_name_def spaced_def def_words_def us_def comp_def)

lemma full_name_chars: "def_ok d \<Longrightarrow> c \<in> set (full_name d) \<Longrightarrow> plain c \<or> c = 46"
  by (auto simp: full_name_def def_ok_def dest: namespace_chars ident_plain)

lemma head_chars: "def_ok d \<Longrightarrow> c \<in> set (def_head d) \<Longrightarrow> plain c \<or> c = 46 \<or> c = 35"
  using ident_plain[OF show_radix_plain[of 16 "def_id d"], of c] full_name_chars[of d c]
  by (auto simp: def_head_def)

lemma head_word: "def_ok d \<Longrightarrow> word (def_head d)"
  using head_chars[of d] plain_neq by (fastforce simp: word_def def_head_def)

lemma set_spaced: "c \<in> set (spaced ws) \<Longrightarrow> c = 32 \<or> (\<exists>w \<in> set ws. c \<in> set w)"
  by (auto simp: spaced_def split: if_splits)

lemma left_chars: "def_ok d \<Longrightarrow> c \<in> set (def_head d @ spaced (def_words d)) \<Longrightarrow> c \<notin> {47, 59, 61}"
proof -
  assume d: "def_ok d" and "c \<in> set (def_head d @ spaced (def_words d))"
  then consider "c \<in> set (def_head d)" | "c \<in> set (spaced (def_words d))" by auto
  then show ?thesis
  proof cases
    case 1
    from head_chars[OF d 1] show ?thesis using plain_neq[of c] by auto
  next
    case 2
    from set_spaced[OF 2] show ?thesis using def_words_word[OF d] by auto
  qed
qed

lemma finish_display:
  assumes "def_ok d" "split_whitespace middle = def_words d"
  shows "finish_definition (full_name d) (Inr (def_id d)) middle (def_ty d) = Inr (d\<lparr>def_category := Types\<rparr>)"
proof -
  have ok: "\<forall>x \<in> set (def_namespace d). ident x" "ident (def_name d)" "\<forall>p \<in> set (def_params d). param_ok p"
    "flags_declared [] (def_params d)" using assms(1) by (simp_all add: def_ok_def)
  have "split_name (full_name d) = (def_namespace d, def_name d)"
    unfolding full_name_def by (rule split_name_display) (use ok in \<open>auto simp: ident_notin\<close>)
  moreover have "[] \<notin> set (def_namespace d)" using ok(1) by (auto simp: ident_def)
  moreover have "parse_params [] [] (def_words d) = Inr (def_params d, generic_defs d)"
    unfolding def_words_def using generic_defs_ident[OF assms(1)] ok parse_display_params[of "def_params d" "[]" "generic_defs d"]
    by (subst parse_type_defs) (auto simp: set_generic_defs)
  moreover have "(if ty_name (def_ty d) \<in> set (generic_defs d)
      then TlType (ty_namespace (def_ty d)) (ty_name (def_ty d)) (ty_bare (def_ty d)) True (ty_generic_arg (def_ty d))
      else def_ty d) = def_ty d"
    using assms(1) by (cases "def_ty d") (auto simp: def_ok_def)
  ultimately show ?thesis using ok(2) assms(2) by (simp add: finish_definition_def)
qed

lemma display_trim: "def_ok d \<Longrightarrow> trim (display_definition d) = display_definition d"
proof -
  assume d: "def_ok d"
  then have ty: "type_ok (def_ty d)" by (simp add: def_ok_def)
  have "\<not> is_whitespace (hd (display_definition d))"
    unfolding display_split using head_word[OF d] by (simp add: word_def)
  moreover have "\<not> is_whitespace (last (display_definition d))"
    unfolding display_split using type_no_space[OF ty] type_not_Nil[OF ty] by simp
  ultimately show ?thesis by (simp add: trim_id)
qed

lemma parse_display:
  assumes "def_ok d"
  shows "parse_definition crc32 (display_definition d) = Inr (d\<lparr>def_category := Types\<rparr>)"
proof -
  define l where "l = def_head d @ spaced (def_words d)"
  have ty: "type_ok (def_ty d)" using assms by (simp add: def_ok_def)
  have ws: "\<forall>w \<in> set (def_words d). word w" using def_words_word[OF assms] by simp
  note hw = head_word[OF assms]
  have "\<forall>c \<in> set (l @ [32]). c \<noteq> 61"
    using left_chars[OF assms] by (auto simp: l_def)
  then have eq: "split_once 61 (display_definition d) = Some (l @ [32], 32 # display_type (def_ty d))"
    unfolding display_split using split_once_by_app[of "l @ [32]" "\<lambda>x. x = 61" 61] by (simp add: l_def)
  have "trim (32 # display_type (def_ty d)) = display_type (def_ty d)"
    using type_not_Nil[OF ty] type_no_space[OF ty] by (simp add: trim_def trim_start_space trim_start_id trim_end_id)
  then have t: "parse_type (trim (32 # display_type (def_ty d))) = Inr (def_ty d)" by (simp add: parse_display_type[OF ty])
  have "hd l = hd (def_head d)" "l \<noteq> []" "\<not> is_whitespace (hd (def_head d))" "\<not> is_whitespace (last l)"
    using hw last_spaced[OF ws hw] by (auto simp: l_def word_def)
  then have left: "trim (l @ [32]) = l"
    by (simp add: trim_def trim_start_id trim_end_space trim_end_id)
  obtain middle where m: "(case split_once_by is_whitespace l of
      Some (a, b) \<Rightarrow> (trim_end a, trim_start b) | None \<Rightarrow> (l, [])) = (def_head d, middle)"
    "split_whitespace middle = def_words d"
  proof (cases "def_words d")
    case Nil
    have "split_once_by is_whitespace l = None"
      using hw Nil split_once_by_None[of l is_whitespace] by (simp add: l_def spaced_def word_def)
    then show ?thesis using that[of "[]"] Nil by (simp add: l_def spaced_def split_whitespace_def)
  next
    case (Cons w vs)
    have "split_once_by is_whitespace (def_head d @ 32 # (w @ spaced vs)) = Some (def_head d, w @ spaced vs)"
      using hw by (intro split_once_by_app) (auto simp: word_def)
    moreover have "trim_end (def_head d) = def_head d" "trim_start (w @ spaced vs) = w @ spaced vs"
      using hw ws Cons by (auto simp: word_def intro!: trim_end_id trim_start_id)
    moreover have "split_whitespace (w @ spaced vs) = def_words d"
      using split_by_spaced[of vs w] ws Cons by (auto simp: split_whitespace_def word_def filter_id_conv)
    ultimately show ?thesis using that[of "w @ spaced vs"] Cons by (simp add: l_def spaced_def)
  qed
  have "c \<noteq> 35" if "c \<in> set (full_name d)" for c
    using full_name_chars[OF assms that] plain_neq[of c] by auto
  then have nm: "split_once 35 (def_head d) = Some (full_name d, show_radix 16 (def_id d))"
    using split_once_by_app[of "full_name d" "\<lambda>x. x = 35" 35] by (simp add: def_head_def)
  have "ident (def_name d)" using assms by (simp add: def_ok_def)
  then have "last (full_name d) = last (def_name d)" "full_name d \<noteq> []" "\<not> is_whitespace (last (def_name d))"
    using plain_neq[of "last (def_name d)"] by (auto simp: full_name_def ident_def)
  then have n: "trim_end (full_name d) = full_name d" by (simp add: trim_end_id)
  have "trim_start (show_radix 16 (def_id d)) = show_radix 16 (def_id d)"
    using plain_neq[OF ident_hd[OF show_radix_plain[of 16 "def_id d"]]] by (simp add: trim_start_id)
  moreover have "from_str_radix 16 (2 ^ 32) (show_radix 16 (def_id d)) = Inr (def_id d)"
    using assms from_show[of 16 "def_id d" "2 ^ 32"] by (simp add: def_ok_def)
  moreover have "trim (display_definition d) \<noteq> []" using display_trim[OF assms] by (simp add: display_split)
  ultimately show ?thesis
    using eq t left m nm n finish_display[OF assms m(2)] by (simp add: parse_definition_def Let_def)
qed

text \<open>
  C31: what \<open>Display\<close> prints of a schema definition, \<open>FromStr\<close> reads back as the same definition,
  without inferring an identifier: namespace, name, identifier, parameters with their flags and
  generic references, and result type. It holds for every definition made of identifiers whose
  optional parameters refer to flag fields before them and whose generic references carry no
  namespace.
\<close>
theorem definition_roundtrip:
  assumes "def_ok d" "def_category d = Types"
  shows "parse_definition crc32 (display_definition d) = Inr d"
proof -
  have "d\<lparr>def_category := Types\<rparr> = d" using assms(2) by (cases d) simp
  then show ?thesis using parse_display[OF assms(1), of crc32] by simp
qed

definition sample_def :: tl_definition where
  "sample_def =
     \<lparr>def_namespace = [us ''ns''], def_name = us ''name'', def_id = 0x123,
      def_params = [\<lparr>param_name = us ''flags'', param_ty = Flags\<rparr>,
        \<lparr>param_name = us ''x'', param_ty = Normal (TlType [] (us ''X'') False True None)
            (Some \<lparr>flag_name = us ''flags'', flag_index = 10\<rparr>)\<rparr>],
      def_ty = TlType [us ''t''] (us ''Vector'') False False (Some (TlType [] (us ''long'') True False None)),
      def_category = Types\<rparr>"

lemma sample_def_ok: "def_ok sample_def"
  by (simp add: def_ok_def sample_def_def us_def ident_def plain_def is_whitespace_def param_ok_def
      is_ascii_lowercase_def generic_defs_def)

theorem definition_roundtrip_witness: "parse_definition (\<lambda>_. 0) (display_definition sample_def) = Inr sample_def"
  by (rule definition_roundtrip[OF sample_def_ok]) (simp add: sample_def_def)

text \<open>
  A generic reference with a namespace is printed with its mark behind the namespace, and what
  is read back is no generic reference.
\<close>
lemma namespaced_reference_lost:
  "parse_type (display_type (TlType [us ''a''] (us ''X'') False True None)) = Inr (TlType [us ''a''] (us ''!X'') False False None)"
  by (subst parse_type.simps)
    (simp add: us_def display_namespace_def strip_bang_def strip_pre_def split_once_by_def named_type_def
      split_name_def rsplit_once_def is_ascii_lowercase_def)

section \<open>Files\<close>

lemma definition_chars: "def_ok d \<Longrightarrow> c \<in> set (display_definition d) \<Longrightarrow> c \<noteq> 47 \<and> c \<noteq> 59"
proof -
  assume d: "def_ok d" and "c \<in> set (display_definition d)"
  then consider "c \<in> set (def_head d @ spaced (def_words d))" | "c \<in> {32, 61}" | "c \<in> set (display_type (def_ty d))"
    by (auto simp: display_split)
  then show ?thesis
  proof cases
    case 1
    from left_chars[OF d 1] show ?thesis by auto
  next
    case 3
    have "type_ok (def_ty d)" using d by (simp add: def_ok_def)
    from type_chars[OF this 3] show ?thesis using plain_neq[of c] by auto
  qed auto
qed

lemma find_sub_single: "c \<notin> set a \<Longrightarrow> find_sub [c] (a @ c # b) = Some (length a)"
  by (induction a) auto

lemma find_sub_absent: "p \<noteq> [] \<Longrightarrow> hd p \<notin> set s \<Longrightarrow> find_sub p s = None"
  by (induction s) (auto simp: neq_Nil_conv)

lemma concat_lines: "concat (lines_inclusive s) = s"
  by (induction s) (auto split: list.splits)

lemma lines_chars: "l \<in> set (lines_inclusive s) \<Longrightarrow> set l \<subseteq> set s"
  using concat_lines[of s] by (metis Union_upper image_eqI set_concat list.set_map)

lemma no_comments: "47 \<notin> set s \<Longrightarrow> remove_tl_comments s = s"
proof -
  assume s: "47 \<notin> set s"
  have "strip_comment l = l" if "l \<in> set (lines_inclusive s)" for l
  proof -
    have "47 \<notin> set l" using lines_chars[OF that] s by blast
    then show ?thesis using find_sub_absent[of "us ''//''" l] by (simp add: strip_comment_def us_def)
  qed
  then show ?thesis by (simp add: remove_tl_comments_def concat_lines map_idI)
qed

text \<open>One definition, found at its place in the file.\<close>

lemma next_text_at:
  assumes "drop i c = t @ 59 # rest" "59 \<notin> set t" "trim t \<noteq> []"
  shows "next_text c i = Some (trim t, i + length t + 1)" "drop (i + length t + 1) c = rest"
proof -
  have "i < length c" using arg_cong[OF assms(1), of length] by simp
  have "definition_end c i = i + length t"
    using assms(1) find_sub_single[OF assms(2)] by (simp add: definition_end_def us_def)
  then show "next_text c i = Some (trim t, i + length t + 1)"
    using assms \<open>i < length c\<close> by (subst next_text.simps) (simp add: Let_def)
  have "drop (i + length t + 1) c = drop (length t + 1) (drop i c)" by (simp add: add.commute add.left_commute)
  then show "drop (i + length t + 1) c = rest" by (simp add: assms(1))
qed

text \<open>All results of the iterator.\<close>

lemma next_text_advances: "next_text c i = Some (t, j) \<Longrightarrow> i < j \<and> i < length c"
proof (induction c i rule: next_text.induct)
  case (1 c i)
  show ?case
  proof (cases "length c \<le> i")
    case True
    then show ?thesis using "1.prems" by (subst (asm) next_text.simps) simp
  next
    case False
    define e where "e = definition_end c i"
    have "i \<le> e" using definition_end_ge[of i c] False by (simp add: e_def)
    show ?thesis
    proof (cases "trim (take (e - i) (drop i c)) = []")
      case True
      then have "next_text c (e + 1) = Some (t, j)"
        using "1.prems" False by (subst (asm) next_text.simps) (simp add: Let_def e_def)
      then have "e + 1 < j" using "1.IH"[OF False e_def refl] True by simp
      then show ?thesis using \<open>i \<le> e\<close> False by simp
    next
      case neq: False
      then have "j = e + 1" using "1.prems" False by (subst (asm) next_text.simps) (simp add: Let_def e_def)
      then show ?thesis using \<open>i \<le> e\<close> False by simp
    qed
  qed
qed

lemma iterator_advances:
  "iterator_next crc32 it = Some (r, it') \<Longrightarrow>
     contents it' = contents it \<and> it_index it < it_index it' \<and> it_index it < length (contents it)"
  by (auto simp: iterator_next_def dest!: next_text_advances split: option.splits prod.splits)

function collect_definitions :: "(bytes \<Rightarrow> u32) \<Rightarrow> tl_iterator \<Rightarrow> (tl_parse_error + tl_definition) list" where
  "collect_definitions crc32 it =
     (case iterator_next crc32 it of
        None \<Rightarrow> []
      | Some (r, it') \<Rightarrow> r # collect_definitions crc32 it')"
  by pat_completeness auto
termination
  by (relation "measure (\<lambda>(crc32, it). length (contents it) - it_index it)")
    (auto dest: iterator_advances[OF sym] iterator_advances)

declare collect_definitions.simps [simp del]

text \<open>A file: the types, then the functions behind their separator.\<close>

definition file_text :: "tl_definition list \<Rightarrow> ustring" where
  "file_text ds = concat (map (\<lambda>d. display_definition d @ [59]) ds)"

definition schema_text :: "tl_definition list \<Rightarrow> tl_definition list \<Rightarrow> ustring" where
  "schema_text ts fs = file_text ts @ (if fs = [] then [] else us ''---functions---'' @ file_text fs)"

lemma display_no_separator: "def_ok d \<Longrightarrow> strip_separator cat (display_definition d) = Some (cat, display_definition d)"
proof -
  assume d: "def_ok d"
  have "hd (def_head d) \<in> set (def_head d)" using head_word[OF d] by (simp add: word_def)
  then have "hd (display_definition d) \<noteq> 45" "display_definition d \<noteq> []"
    using head_chars[OF d \<open>hd (def_head d) \<in> set (def_head d)\<close>] head_word[OF d] by (auto simp: display_split word_def)
  then have "take 3 (display_definition d) \<noteq> us ''---''"
    by (cases "display_definition d") (auto simp: us_def)
  then show ?thesis by (simp add: strip_separator_def)
qed

lemma iterator_step:
  assumes "def_ok d" "drop i c = pre @ display_definition d @ 59 # rest"
    and "59 \<notin> set pre" "trim (pre @ display_definition d) = t" "t \<noteq> []"
    and "strip_separator cat t = Some (cat', display_definition d)"
  shows "\<exists>j. iterator_next crc32 \<lparr>contents = c, it_index = i, it_category = cat\<rparr>
      = Some (Inr (d\<lparr>def_category := cat'\<rparr>), \<lparr>contents = c, it_index = j, it_category = cat'\<rparr>) \<and> drop j c = rest"
proof -
  have "59 \<notin> set (pre @ display_definition d)" using assms(3) definition_chars[OF assms(1)] by auto
  then have n: "next_text c i = Some (t, i + length (pre @ display_definition d) + 1)"
    "drop (i + length (pre @ display_definition d) + 1) c = rest"
    using next_text_at[of i c "pre @ display_definition d" rest] assms(2,4,5) by simp_all
  then show ?thesis using assms(6) parse_display[OF assms(1), of crc32] by (simp add: iterator_next_def)
qed

lemma collect_defs:
  assumes "\<forall>d \<in> set ds. def_ok d" "drop i c = file_text ds @ rest"
  shows "\<exists>j. collect_definitions crc32 \<lparr>contents = c, it_index = i, it_category = cat\<rparr>
      = map (\<lambda>d. Inr (d\<lparr>def_category := cat\<rparr>)) ds @ collect_definitions crc32 \<lparr>contents = c, it_index = j, it_category = cat\<rparr>
      \<and> drop j c = rest"
  using assms
proof (induction ds arbitrary: i)
  case Nil
  then show ?case by (auto simp: file_text_def)
next
  case (Cons d ds)
  then have d: "def_ok d" by simp
  have "drop i c = [] @ display_definition d @ 59 # (file_text ds @ rest)"
    using Cons.prems(2) by (simp add: file_text_def)
  moreover have "display_definition d \<noteq> []" by (simp add: display_split)
  ultimately obtain j where j: "iterator_next crc32 \<lparr>contents = c, it_index = i, it_category = cat\<rparr>
      = Some (Inr (d\<lparr>def_category := cat\<rparr>), \<lparr>contents = c, it_index = j, it_category = cat\<rparr>)" "drop j c = file_text ds @ rest"
    using iterator_step[OF d, of i c "[]" "file_text ds @ rest" "display_definition d" cat cat crc32]
      display_trim[OF d] display_no_separator[OF d] by auto
  from Cons.IH[OF _ j(2)] Cons.prems(1) j(1) show ?case
    by (subst collect_definitions.simps) simp
qed

lemma collect_end: "length c \<le> i \<Longrightarrow> collect_definitions crc32 \<lparr>contents = c, it_index = i, it_category = cat\<rparr> = []"
  by (subst collect_definitions.simps) (simp add: iterator_next_def next_text.simps)

lemma file_text_chars: "\<forall>d \<in> set ds. def_ok d \<Longrightarrow> 47 \<notin> set (file_text ds)"
  by (induction ds) (auto simp: file_text_def dest: definition_chars)

lemma collect_functions:
  assumes "\<forall>d \<in> set (f # fs). def_ok d" "drop i c = us ''---functions---'' @ file_text (f # fs)"
  shows "collect_definitions crc32 \<lparr>contents = c, it_index = i, it_category = cat\<rparr>
    = map (\<lambda>d. Inr (d\<lparr>def_category := Functions\<rparr>)) (f # fs)"
proof -
  have f: "def_ok f" using assms(1) by simp
  have t: "trim (us ''---functions---'' @ display_definition f) = us ''---functions---'' @ display_definition f"
  proof -
    have "\<not> is_whitespace (last (display_definition f))" "display_definition f \<noteq> []"
      using type_no_space[of "def_ty f"] type_not_Nil[of "def_ty f"] f by (simp_all add: display_split def_ok_def)
    then show ?thesis by (intro trim_id) (simp add: us_def)
  qed
  have sep: "strip_separator cat (us ''---functions---'' @ display_definition f) = Some (Functions, display_definition f)"
    using display_trim[OF f] by (simp add: strip_separator_def strip_pre_def us_def)
  obtain j where j: "iterator_next crc32 \<lparr>contents = c, it_index = i, it_category = cat\<rparr>
      = Some (Inr (f\<lparr>def_category := Functions\<rparr>), \<lparr>contents = c, it_index = j, it_category = Functions\<rparr>)" "drop j c = file_text fs"
    using iterator_step[OF f _ _ t _ sep, of i c "file_text fs" crc32] assms(2) by (auto simp: file_text_def us_def)
  obtain k where "collect_definitions crc32 \<lparr>contents = c, it_index = j, it_category = Functions\<rparr>
      = map (\<lambda>d. Inr (d\<lparr>def_category := Functions\<rparr>)) fs
        @ collect_definitions crc32 \<lparr>contents = c, it_index = k, it_category = Functions\<rparr>" "drop k c = []"
    using collect_defs[of fs j c "[]" crc32 Functions] assms(1) j(2) by auto
  then show ?thesis using j(1) collect_end[of c k] by (subst collect_definitions.simps) simp
qed

text \<open>
  C30: a schema file written from definitions is read back by the iterator as exactly those
  definitions, in order, without an error, the ones behind the functions separator in the
  category of functions.
\<close>
theorem schema_file_roundtrip:
  assumes "\<forall>d \<in> set (types @ functions). def_ok d"
    and "\<forall>d \<in> set types. def_category d = Types" "\<forall>d \<in> set functions. def_category d = Functions"
  shows "collect_definitions crc32 (iterator_new (schema_text types functions)) = map Inr (types @ functions)"
proof -
  define c where "c = schema_text types functions"
  have "47 \<notin> set c"
    using file_text_chars assms(1) by (auto simp: c_def schema_text_def us_def)
  then have it: "iterator_new c = \<lparr>contents = c, it_index = 0, it_category = Types\<rparr>"
    by (simp add: iterator_new_def no_comments)
  obtain j where j: "collect_definitions crc32 (iterator_new c)
      = map (\<lambda>d. Inr (d\<lparr>def_category := Types\<rparr>)) types
        @ collect_definitions crc32 \<lparr>contents = c, it_index = j, it_category = Types\<rparr>"
    "drop j c = (if functions = [] then [] else us ''---functions---'' @ file_text functions)"
    using collect_defs[of types 0 c "if functions = [] then [] else us ''---functions---'' @ file_text functions" crc32 Types]
      assms(1) unfolding it by (auto simp: c_def schema_text_def)
  have cat: "d\<lparr>def_category := def_category d\<rparr> = d" for d :: tl_definition by (cases d) simp
  have ts: "map (\<lambda>d. Inr (d\<lparr>def_category := Types\<rparr>)) types = map Inr types"
  proof (rule map_cong[OF refl])
    fix d assume "d \<in> set types"
    then show "Inr (d\<lparr>def_category := Types\<rparr>) = Inr d" using assms(2) cat[of d] by simp
  qed
  show ?thesis
  proof (cases "functions")
    case Nil
    then show ?thesis using j ts collect_end[of c j] by (simp add: c_def)
  next
    case (Cons f fs)
    have "map (\<lambda>d. Inr (d\<lparr>def_category := Functions\<rparr>)) functions = map Inr functions"
    proof (rule map_cong[OF refl])
      fix d assume "d \<in> set functions"
      then show "Inr (d\<lparr>def_category := Functions\<rparr>) = Inr d" using assms(3) cat[of d] by simp
    qed
    moreover have "collect_definitions crc32 \<lparr>contents = c, it_index = j, it_category = Types\<rparr>
        = map (\<lambda>d. Inr (d\<lparr>def_category := Functions\<rparr>)) functions"
      using collect_functions[of f fs j c crc32 Types] assms(1) j(2) Cons by simp
    ultimately show ?thesis using j(1) ts by (simp add: c_def)
  qed
qed

theorem schema_file_roundtrip_witness:
  "collect_definitions (\<lambda>_. 0) (iterator_new (schema_text [sample_def] [sample_def\<lparr>def_category := Functions\<rparr>]))
     = map Inr ([sample_def] @ [sample_def\<lparr>def_category := Functions\<rparr>])"
proof (rule schema_file_roundtrip)
  have "def_ok (sample_def\<lparr>def_category := Functions\<rparr>)"
    using sample_def_ok by (simp add: def_ok_def generic_defs_def)
  then show "\<forall>d \<in> set ([sample_def] @ [sample_def\<lparr>def_category := Functions\<rparr>]). def_ok d"
    using sample_def_ok by simp
qed (simp_all add: sample_def_def)

end
