(* ===== verification/Invocation_Errors.thy ===== *)
theory Invocation_Errors
  imports Transport Manual_Tl Key_Exchange Encrypted_Mtp Rust_Text
begin

text \<open>
  The errors of an invocation, \<open>grammers-mtsender/src/errors.rs\<close>, and the policies that decide
  whether a failed invocation is repeated, \<open>grammers-mtsender/src/configuration.rs\<close>.

  A \<open>String\<close> of Rust is the sequence of its UTF-8 bytes, here as numbers: splitting at characters
  that are not ASCII digits, removing an ASCII pattern and comparing prefixes act on those bytes as
  they act on the characters, up to empty parts between the bytes of one character, which parse to
  no number. A session's error is opaque and stands for its text.
\<close>

section \<open>Errors\<close>

text \<open>The kinds of \<open>io::Error\<close> that the code names; the rest are numbered.\<close>
datatype io_kind =
    ConnectionRefused | ConnectionResetKind | ConnectionAborted | NotConnected | BrokenPipe
  | TimedOut | UnexpectedEofKind | NetworkDown | NetworkUnreachable | HostUnreachable
  | InvalidData | InvalidInput | WouldBlock | WriteZero | OtherKind nat

record io_error =
  io_kind :: io_kind
  io_text :: string

datatype read_failure =
    SharedRead read_failure
  | IoRead io_error
  | TransportRead transport_error
  | DeserializeRead deserialize_error

fun read_transport_error :: "read_failure \<Rightarrow> transport_error option" where
  "read_transport_error (SharedRead e) = read_transport_error e"
| "read_transport_error (TransportRead e) = Some e"
| "read_transport_error _ = None"

fun read_io_error :: "read_failure \<Rightarrow> io_error option" where
  "read_io_error (SharedRead e) = read_io_error e"
| "read_io_error (IoRead e) = Some e"
| "read_io_error _ = None"

record rpc_failure =
  rpc_code :: int
  rpc_name :: ustring
  rpc_value :: "nat option"
  caused_by :: "u32 option"

definition is_ascii_digit :: "nat \<Rightarrow> bool" where
  "is_ascii_digit c \<longleftrightarrow> 48 \<le> c \<and> c \<le> 57"

text \<open>The first part made of digits that is a number of 32 bits, with that number.\<close>
fun first_number :: "ustring list \<Rightarrow> (ustring \<times> nat) option" where
  "first_number [] = None"
| "first_number (p # ps) =
     (case from_str_radix 10 (2 ^ 32) p of Inr n \<Rightarrow> Some (p, n) | Inl _ \<Rightarrow> first_number ps)"

definition rpc_failure_from :: "int \<Rightarrow> ustring \<Rightarrow> rpc_failure" where
  "rpc_failure_from code msg =
     (case first_number (split_by (\<lambda>c. \<not> is_ascii_digit c) msg) of
        Some (v, n) \<Rightarrow>
          \<lparr>rpc_code = code, rpc_name = replace (us ''_'' @ v) [] msg, rpc_value = Some n, caused_by = None\<rparr>
      | None \<Rightarrow> \<lparr>rpc_code = code, rpc_name = msg, rpc_value = None, caused_by = None\<rparr>)"

definition rpc_is :: "ustring \<Rightarrow> rpc_failure \<Rightarrow> bool" where
  "rpc_is pat e =
     (case strip_suf (us ''*'') pat of
        Some p \<Rightarrow> strip_pre p (rpc_name e) \<noteq> None
      | None \<Rightarrow>
          case strip_pre (us ''*'') pat of
            Some p \<Rightarrow> strip_suf p (rpc_name e) \<noteq> None
          | None \<Rightarrow> rpc_name e = pat)"

definition with_caused_by :: "u32 \<Rightarrow> rpc_failure \<Rightarrow> rpc_failure" where
  "with_caused_by cid e = e\<lparr>caused_by := Some cid\<rparr>"

datatype invocation_error =
    BadMessageErr int nat
  | SharedErr invocation_error
  | ReadErr read_failure bool
  | SessionErr string
  | RpcErr rpc_failure
  | IoErr io_error
  | DeserializeErr deserialize_error
  | TransportErr transport_error
  | Dropped string
  | InvalidDc
  | AuthenticationErr auth_error

datatype error_category =
    Overloaded | ClosedCategory | Network | Protocol | SessionCategory | Authentication | Permission
  | InvalidRequest | ServerCategory | UncertainDelivery | FloodWait | RpcCategory

fun from_read_failure :: "read_failure \<Rightarrow> invocation_error" where
  "from_read_failure (SharedRead e) = ReadErr e True"
| "from_read_failure (IoRead e) = IoErr e"
| "from_read_failure (TransportRead e) = TransportErr e"
| "from_read_failure (DeserializeRead e) = DeserializeErr e"

fun root_cause :: "invocation_error \<Rightarrow> invocation_error" where
  "root_cause (SharedErr e) = root_cause e"
| "root_cause e = e"

definition for_unframed_request :: "invocation_error \<Rightarrow> invocation_error" where
  "for_unframed_request e = (case root_cause e of ReadErr r _ \<Rightarrow> ReadErr r False | _ \<Rightarrow> e)"

definition invocation_transport_error :: "invocation_error \<Rightarrow> transport_error option" where
  "invocation_transport_error e =
     (case root_cause e of
        ReadErr r _ \<Rightarrow> read_transport_error r
      | TransportErr t \<Rightarrow> Some t
      | _ \<Rightarrow> None)"

definition flood_names :: "ustring list" where
  "flood_names = [us ''FLOOD_WAIT'', us ''FLOOD_PREMIUM_WAIT'', us ''SLOWMODE_WAIT'', us ''FLOOD_TEST_PHONE_WAIT'']"

definition from_secs :: "nat \<Rightarrow> duration" where
  "from_secs n = 1000 * n"

definition retry_after :: "invocation_error \<Rightarrow> duration option" where
  "retry_after e =
     (case root_cause e of
        RpcErr r \<Rightarrow>
          if 0 \<le> rpc_code r \<and> rpc_name r \<in> set flood_names then map_option from_secs (rpc_value r) else None
      | _ \<Rightarrow> None)"

definition is_flood_wait :: "invocation_error \<Rightarrow> bool" where
  "is_flood_wait e \<longleftrightarrow> retry_after e \<noteq> None"

definition rpc_code_category :: "int \<Rightarrow> error_category" where
  "rpc_code_category code =
     (if code = 401 then Authentication
      else if code = 403 then Permission
      else if code = 400 \<or> code = 404 then InvalidRequest
      else if 500 \<le> code then ServerCategory
      else RpcCategory)"

fun category :: "invocation_error \<Rightarrow> error_category" where
  "category (BadMessageErr _ _) = Protocol"
| "category (SharedErr e) = category e"
| "category (ReadErr r _) =
     (case map_option io_kind (read_io_error r) of
        None \<Rightarrow> Protocol
      | Some k \<Rightarrow>
          if k = InvalidData then Protocol
          else if k = InvalidInput then InvalidRequest
          else if k = WouldBlock then Overloaded
          else Network)"
| "category (SessionErr _) = SessionCategory"
| "category (Dropped _) = ClosedCategory"
| "category InvalidDc = InvalidRequest"
| "category (AuthenticationErr _) = Authentication"
| "category (DeserializeErr _) = Protocol"
| "category (TransportErr _) = Protocol"
| "category (IoErr e) =
     (if io_kind e = WouldBlock then Overloaded
      else if io_kind e = InvalidInput then InvalidRequest
      else if io_kind e = InvalidData then Protocol
      else Network)"
| "category (RpcErr r) =
     (if rpc_code r < 0 then UncertainDelivery
      else if is_flood_wait (RpcErr r) then FloodWait
      else rpc_code_category (rpc_code r))"

definition invocation_is :: "ustring \<Rightarrow> invocation_error \<Rightarrow> bool" where
  "invocation_is pat e = (case root_cause e of RpcErr r \<Rightarrow> rpc_is pat r | _ \<Rightarrow> False)"

section \<open>Retry policies\<close>

record retry_context =
  fail_count :: nat
  slept_so_far :: duration
  ctx_error :: invocation_error

text \<open>\<open>None\<close> stands for \<open>Break\<close>, \<open>Some d\<close> for continuing after a sleep of \<open>d\<close>.\<close>
type_synonym retry_policy = "retry_context \<Rightarrow> duration option"

definition no_retries :: retry_policy where
  "no_retries ctx = None"

definition retryable_kinds :: "io_kind list" where
  "retryable_kinds = [ConnectionRefused, ConnectionResetKind, ConnectionAborted, NotConnected, BrokenPipe,
     TimedOut, UnexpectedEofKind, NetworkDown, NetworkUnreachable, HostUnreachable]"

definition retryable_io :: "io_error \<Rightarrow> bool" where
  "retryable_io e \<longleftrightarrow> io_kind e \<in> set retryable_kinds"

record auto_sleep =
  tries :: nat
  threshold :: duration
  io_errors_as_flood_of :: "duration option"

definition auto_sleep_default :: auto_sleep where
  "auto_sleep_default = \<lparr>tries = 1, threshold = from_secs 60, io_errors_as_flood_of = Some (from_secs 1)\<rparr>"

definition auto_sleep_policy :: "auto_sleep \<Rightarrow> retry_policy" where
  "auto_sleep_policy p ctx =
     (case root_cause (ctx_error ctx) of
        ReadErr r sent \<Rightarrow>
          if \<not> sent \<and> fail_count ctx \<le> tries p \<and>
             (case read_io_error r of Some e \<Rightarrow> retryable_io e | None \<Rightarrow> False)
          then io_errors_as_flood_of p else None
      | RpcErr r \<Rightarrow>
          (case rpc_value r of
             Some seconds \<Rightarrow>
               if rpc_code r = 420 \<and> fail_count ctx \<le> tries p \<and> seconds \<le> threshold p div 1000
               then Some (from_secs seconds) else None
           | None \<Rightarrow> None)
      | IoErr e \<Rightarrow>
          if fail_count ctx \<le> tries p \<and> retryable_io e then io_errors_as_flood_of p else None
      | _ \<Rightarrow> None)"

text \<open>The largest \<open>Duration\<close>; \<open>checked_add\<close> fails beyond it.\<close>
definition DURATION_MAX :: duration where
  "DURATION_MAX = 2 ^ 64 * 1000 - 1"

definition retry_budget :: "retry_policy \<Rightarrow> duration \<Rightarrow> retry_policy" where
  "retry_budget policy max_sleep ctx =
     (case policy ctx of
        Some delay \<Rightarrow>
          if slept_so_far ctx + delay \<le> DURATION_MAX \<and> slept_so_far ctx + delay \<le> max_sleep
          then Some delay else None
      | None \<Rightarrow> None)"

section \<open>What the classification promises\<close>

lemma root_cause_not_shared: "root_cause e \<noteq> SharedErr f"
  by (induction e) auto

lemma root_cause_idem [simp]: "root_cause (root_cause e) = root_cause e"
  by (induction e) auto

lemma category_root_cause: "category (root_cause e) = category e"
  by (induction e) auto

lemma retry_after_root_cause: "retry_after (root_cause e) = retry_after e"
  by (simp add: retry_after_def)

lemma category_flood_wait: "category e = FloodWait \<longleftrightarrow> is_flood_wait e"
proof -
  have "category (root_cause e) = FloodWait \<longleftrightarrow> is_flood_wait (root_cause e)"
    using root_cause_not_shared[of e]
    by (cases "root_cause e")
      (auto simp: is_flood_wait_def retry_after_def rpc_code_category_def split: option.splits)
  then show ?thesis by (simp add: category_root_cause is_flood_wait_def retry_after_root_cause)
qed

lemma category_unframed: "category (for_unframed_request e) = category e"
proof (cases "root_cause e")
  case (ReadErr r sent)
  then have "category (for_unframed_request e) = category (root_cause e)"
    by (simp add: for_unframed_request_def)
  then show ?thesis by (simp only: category_root_cause)
qed (simp_all add: for_unframed_request_def)

text \<open>What a policy's approval of another attempt says about the failure.\<close>
definition safe_to_repeat :: "invocation_error \<Rightarrow> bool" where
  "safe_to_repeat e =
     (case root_cause e of
        ReadErr _ sent \<Rightarrow> \<not> sent
      | RpcErr r \<Rightarrow> rpc_code r = 420
      | IoErr io \<Rightarrow> retryable_io io
      | _ \<Rightarrow> False)"

definition longest_sleep :: "auto_sleep \<Rightarrow> duration" where
  "longest_sleep p = max (threshold p) (case io_errors_as_flood_of p of None \<Rightarrow> 0 | Some d \<Rightarrow> d)"

lemma auto_sleep_approves:
  assumes "auto_sleep_policy p ctx = Some d"
  shows "fail_count ctx \<le> tries p" "safe_to_repeat (ctx_error ctx)" "d \<le> longest_sleep p"
  using assms
  by (auto simp: auto_sleep_policy_def safe_to_repeat_def longest_sleep_def from_secs_def
      split: invocation_error.splits option.splits if_splits)

lemma safe_to_repeat_certain: "safe_to_repeat e \<Longrightarrow> category e \<noteq> UncertainDelivery"
  using category_root_cause[of e]
  by (auto simp: safe_to_repeat_def rpc_code_category_def split: invocation_error.splits if_splits option.splits)

lemma retry_budget_approves:
  "retry_budget policy m ctx = Some d \<Longrightarrow> policy ctx = Some d \<and> slept_so_far ctx + d \<le> m"
  by (auto simp: retry_budget_def split: option.splits if_splits)

section \<open>Numbers in error names\<close>

lemma show_decimal_digits: "\<forall>c \<in> set (show_radix 10 n). is_ascii_digit c"
proof (induction n rule: less_induct)
  case (less n)
  show ?case
  proof (cases "n < 10")
    case True
    then show ?thesis by (simp add: show_radix.simps[of 10 n] digit_char_def is_ascii_digit_def)
  next
    case False
    then have "\<forall>c \<in> set (show_radix 10 (n div 10)). is_ascii_digit c" by (intro less.IH) simp
    then show ?thesis using False by (auto simp: show_radix.simps[of 10 n] digit_char_def is_ascii_digit_def)
  qed
qed

lemma first_number_skip:
  "\<forall>c \<in> set a. \<not> is_ascii_digit c \<Longrightarrow>
     first_number (split_by (\<lambda>c. \<not> is_ascii_digit c) (a @ b)) = first_number (split_by (\<lambda>c. \<not> is_ascii_digit c) b)"
  by (induction a) (auto simp: from_str_radix_def)

lemma first_number_at:
  assumes "n < 2 ^ 32" "b = [] \<or> \<not> is_ascii_digit (hd b)"
  shows "first_number (split_by (\<lambda>c. \<not> is_ascii_digit c) (show_radix 10 n @ b)) = Some (show_radix 10 n, n)"
proof -
  have r: "from_str_radix 10 (2 ^ 32) (show_radix 10 n) = Inr n" using from_show[of 10 n "2 ^ 32"] assms(1) by simp
  show ?thesis
  proof (cases b)
    case Nil
    then show ?thesis using show_decimal_digits r by (simp add: split_by_none)
  next
    case (Cons c cs)
    then have "split_by (\<lambda>c. \<not> is_ascii_digit c) (show_radix 10 n @ c # cs)
        = show_radix 10 n # split_by (\<lambda>c. \<not> is_ascii_digit c) cs"
      using assms(2) show_decimal_digits by (intro split_by_app) auto
    then show ?thesis using Cons r by simp
  qed
qed

text \<open>A pattern whose second character is a digit is found nowhere in a text without digits.\<close>

lemma no_match:
  assumes "\<forall>c \<in> set a. \<not> is_ascii_digit c" "a \<noteq> []" "\<not> is_ascii_digit x" "is_ascii_digit d"
  shows "take (length (x # d # ds)) (a @ x # s) \<noteq> x # d # ds"
proof
  assume m: "take (length (x # d # ds)) (a @ x # s) = x # d # ds"
  obtain a1 as where a: "a = a1 # as" using assms(2) by (cases a) auto
  with m assms show False by (cases as) auto
qed

lemma no_match_end:
  assumes "\<forall>c \<in> set a. \<not> is_ascii_digit c" "is_ascii_digit d"
  shows "take (length (x # d # ds)) a \<noteq> x # d # ds"
proof
  assume m: "take (length (x # d # ds)) a = x # d # ds"
  then have "d \<in> set a" by (metis in_set_takeD list.set_intros)
  then show False using assms by auto
qed

lemma replace_no_digits:
  "\<forall>c \<in> set b. \<not> is_ascii_digit c \<Longrightarrow> is_ascii_digit d \<Longrightarrow> replace (x # d # ds) w b = b"
proof (induction b)
  case Nil
  then show ?case by (simp add: replace.simps)
next
  case (Cons c b)
  have "take (length (x # d # ds)) (c # b) \<noteq> x # d # ds"
    using no_match_end[OF Cons.prems(1,2)] .
  then have "replace (x # d # ds) w (c # b) = c # replace (x # d # ds) w b"
    by (subst replace.simps) auto
  then show ?case using Cons by simp
qed

lemma replace_marked:
  assumes "\<forall>c \<in> set a. \<not> is_ascii_digit c" "\<forall>c \<in> set b. \<not> is_ascii_digit c" "\<not> is_ascii_digit x" "is_ascii_digit d"
  shows "replace (x # d # ds) [] (a @ x # d # ds @ b) = a @ b"
  using assms(1)
proof (induction a)
  case Nil
  then show ?case using replace_no_digits[OF assms(2,4)]
    by (simp add: replace.simps[of _ _ "x # d # ds @ b"])
next
  case (Cons c a)
  have "take (length (x # d # ds)) ((c # a) @ x # d # ds @ b) \<noteq> x # d # ds"
    using no_match[OF Cons.prems(1) _ assms(3,4)] by blast
  then have "replace (x # d # ds) [] ((c # a) @ x # d # ds @ b) = c # replace (x # d # ds) [] (a @ x # d # ds @ b)"
    by (subst replace.simps) auto
  then show ?case using Cons by simp
qed

text \<open>
  The number is taken out of the name of an error with its underscore, and nothing else is: for a
  name \<open>a_123b\<close> whose other characters are not digits, the name is \<open>ab\<close> and the value 123.
\<close>
theorem rpc_name_and_value:
  assumes "\<forall>c \<in> set a. \<not> is_ascii_digit c" "\<forall>c \<in> set b. \<not> is_ascii_digit c" "n < 2 ^ 32"
  shows "rpc_failure_from code (a @ us ''_'' @ show_radix 10 n @ b) =
    \<lparr>rpc_code = code, rpc_name = a @ b, rpc_value = Some n, caused_by = None\<rparr>"
proof -
  obtain d ds where d: "show_radix 10 n = d # ds" using show_radix_chars[of 10 n] by (cases "show_radix 10 n") auto
  have x: "us ''_'' = [95]" by (simp add: us_def)
  have sep: "\<forall>c \<in> set (a @ us ''_''). \<not> is_ascii_digit c" using assms(1) by (auto simp: x is_ascii_digit_def)
  have nb: "b = [] \<or> \<not> is_ascii_digit (hd b)" using assms(2) by (cases b) auto
  have "first_number (split_by (\<lambda>c. \<not> is_ascii_digit c) ((a @ us ''_'') @ show_radix 10 n @ b)) = Some (show_radix 10 n, n)"
    unfolding first_number_skip[OF sep] by (rule first_number_at[OF assms(3) nb])
  moreover have "replace (95 # d # ds) [] (a @ 95 # d # ds @ b) = a @ b"
    using show_decimal_digits[of n] d by (intro replace_marked[OF assms(1,2)]) (auto simp: is_ascii_digit_def)
  ultimately show ?thesis by (simp add: rpc_failure_from_def x d)
qed

end
