(* ===== verification/Invocation_Tracker.thy ===== *)
theory Invocation_Tracker
  imports Invocation_Errors "HOL-Library.Multiset"
begin

text \<open>
  Trackers and permits of invocations, \<open>grammers-mtsender/src/invocation_tracker.rs\<close>. A permit may
  hold a reservation of a tracker, a slot of the pool's request limit and a part of its byte limit;
  dropping it gives all three back. The trackers and the two semaphores of a pool are one record,
  trackers being known by their number.
\<close>

section \<open>Trackers\<close>

text \<open>The stage is the atomic's value; \<open>sent_at\<close> is nanoseconds plus one, zero while unsent.\<close>
record tracker =
  stage_code :: nat
  sent_nanos :: nat

datatype invocation_stage = IdleStage | PendingStage | SentStage

definition tracker_default :: tracker where
  "tracker_default = \<lparr>stage_code = 0, sent_nanos = 0\<rparr>"

definition tracker_stage :: "tracker \<Rightarrow> invocation_stage" where
  "tracker_stage t = (if stage_code t = 0 then IdleStage else if stage_code t = 1 then PendingStage else SentStage)"

definition tracker_acquire :: "tracker \<Rightarrow> tracker option" where
  "tracker_acquire t = (if stage_code t = 0 then Some \<lparr>stage_code = 1, sent_nanos = 0\<rparr> else None)"

text \<open>Relative to the origin of the timestamps.\<close>
definition tracker_sent_at :: "tracker \<Rightarrow> nat option" where
  "tracker_sent_at t = (if sent_nanos t = 0 then None else Some (sent_nanos t - 1))"

definition tracker_mark_sent :: "nat \<Rightarrow> tracker \<Rightarrow> tracker" where
  "tracker_mark_sent elapsed t =
     (let nanos = (if elapsed < 2 ^ 64 then elapsed else 2 ^ 64 - 2)
      in \<lparr>stage_code = 2,
          sent_nanos = (if sent_nanos t = 0 then (nanos + 1) mod 2 ^ 64 else sent_nanos t)\<rparr>)"

definition tracker_release :: "tracker \<Rightarrow> tracker" where
  "tracker_release t = t\<lparr>stage_code := 0\<rparr>"

section \<open>Permits\<close>

record permit =
  permit_tracker :: "nat option"
  permit_capacity :: bool
  permit_bytes :: "nat option"

definition empty_permit :: permit where
  "empty_permit = \<lparr>permit_tracker = None, permit_capacity = False, permit_bytes = None\<rparr>"

definition permit_with_capacity :: "permit option \<Rightarrow> permit" where
  "permit_with_capacity p = (case p of None \<Rightarrow> empty_permit | Some q \<Rightarrow> q)\<lparr>permit_capacity := True\<rparr>"

definition permit_with_bytes :: "permit option \<Rightarrow> nat \<Rightarrow> permit" where
  "permit_with_bytes p n = (case p of None \<Rightarrow> empty_permit | Some q \<Rightarrow> q)\<lparr>permit_bytes := Some n\<rparr>"

record admission =
  trackers :: "nat \<Rightarrow> tracker"
  free_slots :: nat
  free_bytes :: nat

definition try_acquire :: "nat \<Rightarrow> admission \<Rightarrow> (permit \<times> admission) option" where
  "try_acquire i a =
     (case tracker_acquire (trackers a i) of
        None \<Rightarrow> None
      | Some t \<Rightarrow> Some (empty_permit\<lparr>permit_tracker := Some i\<rparr>, a\<lparr>trackers := (trackers a)(i := t)\<rparr>))"

definition mark_sent :: "nat \<Rightarrow> permit \<Rightarrow> admission \<Rightarrow> admission" where
  "mark_sent elapsed p a =
     (case permit_tracker p of
        None \<Rightarrow> a
      | Some i \<Rightarrow> a\<lparr>trackers := (trackers a)(i := tracker_mark_sent elapsed (trackers a i))\<rparr>)"

definition drop_permit :: "permit \<Rightarrow> admission \<Rightarrow> admission" where
  "drop_permit p a =
     a\<lparr>trackers := (case permit_tracker p of None \<Rightarrow> trackers a
          | Some i \<Rightarrow> (trackers a)(i := tracker_release (trackers a i))),
       free_slots := free_slots a + (if permit_capacity p then 1 else 0),
       free_bytes := free_bytes a + (case permit_bytes p of None \<Rightarrow> 0 | Some n \<Rightarrow> n)\<rparr>"

section \<open>The response waiter\<close>

datatype 'a oneshot = Waiting | Answered 'a | SenderGone

definition poll_invocation :: "(invocation_error + bytes) oneshot \<Rightarrow> (invocation_error + bytes) option" where
  "poll_invocation ch =
     (case ch of
        Waiting \<Rightarrow> None
      | Answered r \<Rightarrow> Some r
      | SenderGone \<Rightarrow> Some (Inl (Dropped ''request response channel was closed'')))"

section \<open>The ledger of permits\<close>

text \<open>
  \<open>ledger slots bytes a live\<close> says that the live permits and what is free account for the limits, and
  that a tracker is reserved exactly while one live permit holds it.
\<close>

definition held_by :: "nat \<Rightarrow> permit multiset \<Rightarrow> permit multiset" where
  "held_by i live = filter_mset (\<lambda>p. permit_tracker p = Some i) live"

definition slots_held :: "permit multiset \<Rightarrow> nat" where
  "slots_held live = size (filter_mset permit_capacity live)"

definition bytes_held :: "permit multiset \<Rightarrow> nat" where
  "bytes_held live = (\<Sum>p\<in>#live. case permit_bytes p of None \<Rightarrow> 0 | Some n \<Rightarrow> n)"

definition ledger :: "nat \<Rightarrow> nat \<Rightarrow> admission \<Rightarrow> permit multiset \<Rightarrow> bool" where
  "ledger slots limit a live \<longleftrightarrow>
     free_slots a + slots_held live = slots \<and> free_bytes a + bytes_held live = limit \<and>
     (\<forall>i. size (held_by i live) = (if stage_code (trackers a i) = 0 then 0 else 1))"

lemma held_by_add: "held_by i (add_mset p live) = (if permit_tracker p = Some i then {#p#} else {#}) + held_by i live"
  by (simp add: held_by_def)

lemma ledger_acquire:
  "ledger slots limit a live \<Longrightarrow> try_acquire i a = Some (p, a') \<Longrightarrow> ledger slots limit a' (add_mset p live)"
  by (auto simp: ledger_def try_acquire_def tracker_acquire_def held_by_add slots_held_def bytes_held_def
      empty_permit_def split: option.splits if_splits)

lemma ledger_mark_sent:
  "ledger slots limit a live \<Longrightarrow> p \<in># live \<Longrightarrow> ledger slots limit (mark_sent elapsed p a) live"
proof -
  assume l: "ledger slots limit a live" and p: "p \<in># live"
  have "stage_code (trackers a i) \<noteq> 0" if "permit_tracker p = Some i" for i
  proof
    assume "stage_code (trackers a i) = 0"
    moreover have "\<forall>i. size (held_by i live) = (if stage_code (trackers a i) = 0 then 0 else 1)"
      using l by (simp add: ledger_def)
    ultimately have "held_by i live = {#}" by (metis size_eq_0_iff_empty)
    moreover have "p \<in># held_by i live" using p that by (simp add: held_by_def)
    ultimately show False by simp
  qed
  then show ?thesis using l
    by (auto simp: ledger_def mark_sent_def tracker_mark_sent_def Let_def split: option.splits)
qed

lemma ledger_drop:
  "ledger slots limit a (add_mset p live) \<Longrightarrow> ledger slots limit (drop_permit p a) live"
proof -
  assume l: "ledger slots limit a (add_mset p live)"
  have "size (held_by i live) = (if stage_code (trackers (drop_permit p a) i) = 0 then 0 else 1)" for i
  proof -
    have "size (held_by i (add_mset p live)) = (if stage_code (trackers a i) = 0 then 0 else 1)"
      using l by (simp add: ledger_def)
    then show ?thesis
      by (auto simp: held_by_add drop_permit_def tracker_release_def split: option.splits if_splits)
  qed
  then show ?thesis using l
    by (auto simp: ledger_def drop_permit_def slots_held_def bytes_held_def)
qed

end
