(* ===== verification/Sender.thy ===== *)
theory Sender
  imports Invocation_Tracker Mb_Adaptor Plain_Mtp
begin

text \<open>
  The sender of one connection, \<open>grammers-mtsender/src/sender.rs\<close>: its queue of requests, the packets
  it writes and the answers it reads. The source is generic in the framing and in the protocol: here
  \<open>tpack\<close> and \<open>tunpack\<close>, and the record \<open>mtp_ops\<close> of the operations of the trait \<open>Mtp\<close>.

  Callers wait on one-shot channels, known by their numbers; \<open>shut\<close> says which of them have been
  given up by their caller. What the sender does to channels and permits is the list \<open>effects\<close>, in
  order. The clock's reading is an argument of each operation. \<open>None\<close> is a panic (or, in the receive
  loop, a transport that never consumes anything).
\<close>

section \<open>Data\<close>

record 'm mtp_ops =
  mtp_request_is_valid :: "'m \<Rightarrow> bytes \<Rightarrow> bool"
  mtp_supports_keepalive :: "'m \<Rightarrow> bool"
  mtp_service_deadline :: "'m \<Rightarrow> instant option"
  mtp_on_service_timeout :: "'m \<Rightarrow> 'm"
  mtp_push :: "'m \<Rightarrow> buffer \<Rightarrow> bytes \<Rightarrow> int option \<times> 'm \<times> buffer"
  mtp_finalize :: "'m \<Rightarrow> buffer \<Rightarrow> (int option \<times> 'm \<times> buffer) option"
  mtp_deserialize :: "'m \<Rightarrow> bytes \<Rightarrow> ((deserialize_error + deserialized list) \<times> 'm) option"

text \<open>Serializers and parsers that the build generates from the schema.\<close>
record tl_ops =
  ping_delay_disconnect :: "int \<Rightarrow> int \<Rightarrow> bytes"
  parse_updates :: "bytes \<Rightarrow> tl_error + updates"
  parse_affected_messages :: "bytes \<Rightarrow> tl_error + affected_messages"
  parse_invited_users :: "bytes \<Rightarrow> tl_error + updates \<times> tl_object"
  parse_join_result :: "bytes \<Rightarrow> tl_error + updates option"
  parse_send_message :: "cursor \<Rightarrow> tl_error + send_message"
  parse_delete_messages :: "cursor \<Rightarrow> tl_error + int option \<times> int list"

record msg_id_pair =
  pair_msg_id :: int
  container_msg_id :: int

definition pair_new :: "int \<Rightarrow> msg_id_pair" where
  "pair_new i = \<lparr>pair_msg_id = i, container_msg_id = i\<rparr>"

datatype request_state = NotSerialized | Serialized msg_id_pair | Sent msg_id_pair

text \<open>Without a channel the request is a keepalive of the sender's own.\<close>
record request =
  protocol_retries :: nat
  req_body :: bytes
  req_state :: request_state
  req_permit :: "permit option"
  req_result :: "nat option"

type_synonym reply = "invocation_error + bytes"

datatype effect = Retire permit | MarkSent permit | Reply nat reply | Discard nat

record ('m, 't) sender =
  stransport :: 't
  smtp :: 'm
  requests :: "request list"
  ping_timer :: instant
  next_ping :: instant
  liveness :: "(duration \<times> instant \<times> bool) option"
  read_buffer :: bytes
  read_tail :: nat
  write_buffer :: buffer
  write_head :: nat
  last_large_transfer :: instant
  read_since_charge :: nat
  effects :: "effect list"

definition MAXIMUM_DATA :: nat where "MAXIMUM_DATA = 1024 * 1024 + 8 * 1024"
definition INITIAL_READ_BUFFER_SIZE :: nat where "INITIAL_READ_BUFFER_SIZE = 1024"
definition INITIAL_WRITE_BUFFER_SIZE :: nat where "INITIAL_WRITE_BUFFER_SIZE = 1024"
definition RETAINED_BUFFER_SIZE :: nat where "RETAINED_BUFFER_SIZE = 16 * 1024"
definition BUSY_READ_BUFFER_SIZE :: nat where "BUSY_READ_BUFFER_SIZE = RETAINED_BUFFER_SIZE"
definition READ_CHARGE_UNIT :: nat where "READ_CHARGE_UNIT = 2 * 1024"
definition BUFFER_RELEASE_DELAY :: duration where "BUFFER_RELEASE_DELAY = from_secs 60"
definition PING_DELAY :: duration where "PING_DELAY = from_secs 60"
definition NO_PING_DISCONNECT :: int where "NO_PING_DISCONNECT = 75"

definition MAX_TRANSPORT_HEADER_LEN :: nat where "MAX_TRANSPORT_HEADER_LEN = 4 + 4"
definition ENCRYPTED_PACKET_HEADER_LEN :: nat where "ENCRYPTED_PACKET_HEADER_LEN = 8 + 16"
definition PLAIN_PACKET_HEADER_LEN :: nat where "PLAIN_PACKET_HEADER_LEN = 8 + 8"
definition MESSAGE_CONTAINER_HEADER_LEN :: nat where "MESSAGE_CONTAINER_HEADER_LEN = (8 + 4 + 4) + (4 + 4)"

definition LEADING_BUFFER_SPACE :: nat where
  "LEADING_BUFFER_SPACE = MAX_TRANSPORT_HEADER_LEN + ENCRYPTED_PACKET_HEADER_LEN + PLAIN_PACKET_HEADER_LEN +
     MESSAGE_CONTAINER_HEADER_LEN"

type_synonym closed_channels = "nat \<Rightarrow> bool"

text \<open>A fallible operation: a panic, or a result with the state it leaves.\<close>
type_synonym ('a, 's) io = "((read_failure + 'a) \<times> 's) option"

fun bind_io :: "('a, 's) io \<Rightarrow> ('a \<Rightarrow> 's \<Rightarrow> ('b, 's) io) \<Rightarrow> ('b, 's) io" where
  "bind_io None f = None"
| "bind_io (Some (Inl e, s)) f = Some (Inl e, s)"
| "bind_io (Some (Inr x, s)) f = f x s"

section \<open>Requests\<close>

definition retire :: "permit option \<Rightarrow> effect list" where
  "retire p = (case p of None \<Rightarrow> [] | Some q \<Rightarrow> [Retire q])"

definition notify :: "nat option \<Rightarrow> reply \<Rightarrow> effect list" where
  "notify result out = (case result of None \<Rightarrow> [] | Some ch \<Rightarrow> [Reply ch out])"

definition complete :: "request \<Rightarrow> reply \<Rightarrow> effect list" where
  "complete r out = retire (req_permit r) @ notify (req_result r) out"

text \<open>A request that is dropped releases its fields in their order: the permit, then the channel.\<close>
definition drop_request :: "request \<Rightarrow> effect list" where
  "drop_request r = retire (req_permit r) @ (case req_result r of None \<Rightarrow> [] | Some ch \<Rightarrow> [Discard ch])"

definition record_effects :: "effect list \<Rightarrow> ('m, 't) sender \<Rightarrow> ('m, 't) sender" where
  "record_effects es s = s\<lparr>effects := effects s @ es\<rparr>"

definition swap_remove :: "nat \<Rightarrow> 'a list \<Rightarrow> 'a list" where
  "swap_remove i xs = (if Suc i = length xs then butlast xs else (butlast xs)[i := last xs])"

definition caller_gone :: "closed_channels \<Rightarrow> request \<Rightarrow> bool" where
  "caller_gone shut r \<longleftrightarrow> (case req_result r of None \<Rightarrow> False | Some ch \<Rightarrow> shut ch)"

definition sender_new :: "'m \<Rightarrow> 't \<Rightarrow> instant \<Rightarrow> ('m, 't) sender" where
  "sender_new m t now =
     \<lparr>stransport = t, smtp = m, requests = [], ping_timer = now + PING_DELAY, next_ping = now + PING_DELAY,
      liveness = None, read_buffer = replicate INITIAL_READ_BUFFER_SIZE 0, read_tail = 0,
      write_buffer = with_capacity 0 INITIAL_WRITE_BUFFER_SIZE LEADING_BUFFER_SPACE, write_head = 0,
      last_large_transfer = now, read_since_charge = 0, effects = []\<rparr>"

definition ping_interval :: "('m, 't) sender \<Rightarrow> duration" where
  "ping_interval s = (case liveness s of None \<Rightarrow> PING_DELAY | Some (limit, _, _) \<Rightarrow> min PING_DELAY (limit div 2))"

definition set_liveness_timeout :: "instant \<Rightarrow> duration option \<Rightarrow> ('m, 't) sender \<Rightarrow> ('m, 't) sender" where
  "set_liveness_timeout now timeout s =
     (let s1 = s\<lparr>liveness := map_option (\<lambda>limit. (limit, now, False)) timeout\<rparr>
      in s1\<lparr>next_ping := min (next_ping s1) (now + ping_interval s1)\<rparr>)"

definition invalid_request_error :: invocation_error where
  "invalid_request_error = IoErr \<lparr>io_kind = InvalidInput, io_text =
     ''request must contain a constructor, be word-aligned and fit the MTProto packet limit''\<rparr>"

definition enqueue_request ::
    "'m mtp_ops \<Rightarrow> bytes \<Rightarrow> nat option \<Rightarrow> permit option \<Rightarrow> ('m, 't) sender \<Rightarrow> ('m, 't) sender option" where
  "enqueue_request ops bd result permit s =
     (if \<not> mtp_request_is_valid ops (smtp s) bd
      then Some (record_effects (retire permit @ notify result (Inl invalid_request_error)) s)
      else if length bd < 4 then None
      else Some (s\<lparr>requests := requests s @
             [\<lparr>protocol_retries = 0, req_body = bd, req_state = NotSerialized, req_permit = permit,
               req_result = result\<rparr>]\<rparr>))"

text \<open>The arguments of a call that returns at once are dropped, the last one first.\<close>
definition enqueue_tracked_body ::
    "'m mtp_ops \<Rightarrow> closed_channels \<Rightarrow> bytes \<Rightarrow> nat \<Rightarrow> permit option \<Rightarrow> ('m, 't) sender \<Rightarrow>
     ('m, 't) sender option" where
  "enqueue_tracked_body ops shut bd ch permit s =
     (if shut ch then Some (record_effects (retire permit @ [Discard ch]) s)
      else enqueue_request ops bd (Some ch) permit s)"

definition enqueue_body ::
    "'m mtp_ops \<Rightarrow> closed_channels \<Rightarrow> bytes \<Rightarrow> nat \<Rightarrow> ('m, 't) sender \<Rightarrow> ('m, 't) sender option" where
  "enqueue_body ops shut bd ch s = enqueue_tracked_body ops shut bd ch None s"

text \<open>Looking a request up by the identifier of its message; only a sent one can be answered.\<close>

fun has_id :: "int \<Rightarrow> request_state \<Rightarrow> bool" where
  "has_id i NotSerialized = False"
| "has_id i (Serialized p) = (pair_msg_id p = i)"
| "has_id i (Sent p) = (pair_msg_id p = i)"

definition peek_request :: "int \<Rightarrow> ('m, 't) sender \<Rightarrow> request option" where
  "peek_request i s = find (\<lambda>r. has_id i (req_state r)) (requests s)"

definition unsent_response :: read_failure where
  "unsent_response = DeserializeRead (InvalidEnvelope ''response for an unsent request'')"

fun is_serialized :: "request_state \<Rightarrow> bool" where
  "is_serialized (Serialized p) = True"
| "is_serialized _ = False"

fun index_of :: "('a \<Rightarrow> bool) \<Rightarrow> 'a list \<Rightarrow> nat option" where
  "index_of P [] = None"
| "index_of P (x # xs) = (if P x then Some 0 else map_option Suc (index_of P xs))"

definition pop_request :: "int \<Rightarrow> ('m, 't) sender \<Rightarrow> (read_failure + request option) \<times> ('m, 't) sender" where
  "pop_request i s =
     (case index_of (\<lambda>r. has_id i (req_state r)) (requests s) of
        None \<Rightarrow> (Inr None, s)
      | Some k \<Rightarrow>
          if is_serialized (req_state (requests s ! k)) then (Inl unsent_response, s)
          else (Inr (Some (requests s ! k)), s\<lparr>requests := swap_remove k (requests s)\<rparr>))"

section \<open>Writing\<close>

fun push_requests ::
    "'m mtp_ops \<Rightarrow> 'm \<Rightarrow> buffer \<Rightarrow> request list \<Rightarrow> (request list \<times> 'm \<times> buffer) option" where
  "push_requests ops m buf [] = Some ([], m, buf)"
| "push_requests ops m buf (r # rs) =
     (if req_state r \<noteq> NotSerialized
      then map_option (\<lambda>(rs', m', buf'). (r # rs', m', buf')) (push_requests ops m buf rs)
      else case mtp_push ops m buf (req_body r) of
        (None, m', buf') \<Rightarrow> Some (r # rs, m', buf')
      | (Some i, m', buf') \<Rightarrow>
          if length (req_body r) < 4 then None
          else map_option (\<lambda>(rs', m'', buf''). (r\<lparr>req_state := Serialized (pair_new i)\<rparr> # rs', m'', buf''))
                 (push_requests ops m' buf' rs))"

fun set_container :: "int \<Rightarrow> request_state \<Rightarrow> request_state" where
  "set_container c (Serialized p) = Serialized (p\<lparr>container_msg_id := c\<rparr>)"
| "set_container c st = st"

definition purge_cancelled :: "closed_channels \<Rightarrow> ('m, 't) sender \<Rightarrow> ('m, 't) sender" where
  "purge_cancelled shut s =
     (let gone = (\<lambda>r. req_state r = NotSerialized \<and> caller_gone shut r)
      in record_effects (concat (map drop_request (filter gone (requests s))))
           (s\<lparr>requests := filter (\<lambda>r. \<not> gone r) (requests s)\<rparr>))"

definition try_fill_write ::
    "'m mtp_ops \<Rightarrow> 't packer \<Rightarrow> closed_channels \<Rightarrow> ('m, 't) sender \<Rightarrow> ('m, 't) sender option" where
  "try_fill_write ops tpack shut s =
     (let s1 = purge_cancelled shut s in
      if \<not> is_empty (write_buffer s1) then Some s1
      else do {
        (rs, m1, b1) \<leftarrow> push_requests ops (smtp s1) (write_buffer s1) (requests s1);
        (c, m2, b2) \<leftarrow> mtp_finalize ops m1 b1;
        case c of
          None \<Rightarrow> Some (s1\<lparr>requests := rs, smtp := m2, write_buffer := b2\<rparr>)
        | Some cid \<Rightarrow> do {
            (t, b3) \<leftarrow> tpack (stransport s1) b2;
            Some (s1\<lparr>requests := map (\<lambda>r. r\<lparr>req_state := set_container cid (req_state r)\<rparr>) rs,
                     smtp := m2, stransport := t, write_buffer := b3\<rparr>)
          }
      })"

text \<open>
  \<open>wcap\<close> is the capacity the allocator has given the write buffer. Replacing an empty write buffer
  by a fresh one changes nothing but that.
\<close>
definition release_idle_buffers ::
    "instant \<Rightarrow> nat \<Rightarrow> nat \<Rightarrow> bool \<Rightarrow> ('m, 't) sender \<Rightarrow> ('m, 't) sender" where
  "release_idle_buffers now wcap used filled s =
     (if used > RETAINED_BUFFER_SIZE \<or> (filled \<and> length (read_buffer s) > INITIAL_READ_BUFFER_SIZE)
      then s\<lparr>last_large_transfer := now\<rparr>
      else if (length (read_buffer s) > INITIAL_READ_BUFFER_SIZE \<or> wcap > RETAINED_BUFFER_SIZE + LEADING_BUFFER_SPACE)
              \<and> now - last_large_transfer s \<ge> BUFFER_RELEASE_DELAY
      then
        let s1 = (if read_tail s = 0 \<and> length (read_buffer s) > INITIAL_READ_BUFFER_SIZE
                  then s\<lparr>read_buffer := replicate INITIAL_READ_BUFFER_SIZE 0\<rparr> else s)
        in if is_empty (write_buffer s1) \<and> wcap > RETAINED_BUFFER_SIZE + LEADING_BUFFER_SPACE
           then s1\<lparr>write_buffer := with_capacity 0 INITIAL_WRITE_BUFFER_SIZE LEADING_BUFFER_SPACE\<rparr> else s1
      else s)"

fun mark_state_sent :: "request \<Rightarrow> request" where
  "mark_state_sent r = (case req_state r of Serialized p \<Rightarrow> r\<lparr>req_state := Sent p\<rparr> | _ \<Rightarrow> r)"

definition sent_marks :: "request list \<Rightarrow> effect list" where
  "sent_marks rs =
     concat (map (\<lambda>r. if is_serialized (req_state r) then (case req_permit r of None \<Rightarrow> [] | Some p \<Rightarrow> [MarkSent p]) else []) rs)"

definition io_failure :: "io_kind \<Rightarrow> string \<Rightarrow> read_failure" where
  "io_failure k text = IoRead \<lparr>io_kind = k, io_text = text\<rparr>"

definition on_net_write :: "instant \<Rightarrow> nat \<Rightarrow> nat \<Rightarrow> ('m, 't) sender \<Rightarrow> (unit, ('m, 't) sender) io" where
  "on_net_write now wcap n s =
     (if n = 0 \<and> \<not> is_empty (write_buffer s) then Some (Inl (io_failure WriteZero ''socket wrote zero bytes''), s)
      else
        let s1 = s\<lparr>write_head := write_head s + n\<rparr> in
        if write_head s1 > len (write_buffer s1) then None
        else if write_head s1 \<noteq> len (write_buffer s1) then Some (Inr (), s1)
        else
          let s2 = release_idle_buffers now wcap (len (write_buffer s1)) False
                     (s1\<lparr>write_buffer := clear 0 (write_buffer s1), write_head := 0\<rparr>)
          in Some (Inr (), record_effects (sent_marks (requests s2))
                     (s2\<lparr>requests := map mark_state_sent (requests s2)\<rparr>)))"

text \<open>The keepalive. \<open>ping_id\<close> is the identifier that \<open>generate_random_id\<close> draws.\<close>

definition generate_random_id :: "int \<Rightarrow> int \<Rightarrow> int \<times> int" where
  "generate_random_id last_id now_nanos =
     (let i = (if last_id = 0 then now_nanos else last_id) in (i, wrap64 (i + 1)))"

text \<open>A ping whose packet was written is given up, so that the server's deadline is refreshed.\<close>
definition stale_ping :: "request \<Rightarrow> bool" where
  "stale_ping r \<longleftrightarrow> req_result r = None \<and> (case req_state r of Sent _ \<Rightarrow> True | _ \<Rightarrow> False)"

definition drop_stale_pings :: "('m, 't) sender \<Rightarrow> ('m, 't) sender" where
  "drop_stale_pings s =
     record_effects (concat (map drop_request (filter stale_ping (requests s))))
       (s\<lparr>requests := filter (\<lambda>r. \<not> stale_ping r) (requests s)\<rparr>)"

definition on_ping_timeout ::
    "tl_ops \<Rightarrow> 'm mtp_ops \<Rightarrow> instant \<Rightarrow> int \<Rightarrow> ('m, 't) sender \<Rightarrow> ('m, 't) sender option" where
  "on_ping_timeout schema ops now ping_id s =
     (let s2 = drop_stale_pings (s\<lparr>next_ping := now + ping_interval s, ping_timer := now + ping_interval s\<rparr>)
      in if \<exists>r \<in> set (requests s2). req_result r = None then Some s2
         else enqueue_request ops (ping_delay_disconnect schema ping_id NO_PING_DISCONNECT) None None s2)"

section \<open>Failing\<close>

fun may_have_been_sent :: "nat \<Rightarrow> request_state \<Rightarrow> bool" where
  "may_have_been_sent written NotSerialized = False"
| "may_have_been_sent written (Serialized p) = (written \<noteq> 0)"
| "may_have_been_sent written (Sent p) = True"

definition fail_request :: "read_failure \<Rightarrow> nat \<Rightarrow> request \<Rightarrow> effect list" where
  "fail_request err written r =
     (if req_result r \<noteq> None then complete r (Inl (ReadErr err (may_have_been_sent written (req_state r))))
      else drop_request r)"

definition on_error :: "read_failure \<Rightarrow> ('m, 't) sender \<Rightarrow> read_failure \<times> ('m, 't) sender" where
  "on_error err s =
     (SharedRead err,
      record_effects (concat (map (fail_request err (write_head s)) (requests s))) (s\<lparr>requests := []\<rparr>))"

section \<open>Updates\<close>

definition deserialize_updates_like :: "tl_ops \<Rightarrow> bytes \<Rightarrow> tl_error + updates_like" where
  "deserialize_updates_like schema u =
     (case parse_updates schema u of
        Inr ul \<Rightarrow> Inr (UpdatesLike ul)
      | Inl e \<Rightarrow>
          case parse_affected_messages schema u of
            Inr am \<Rightarrow> Inr (AffectedMessages am)
          | Inl _ \<Rightarrow>
              case parse_invited_users schema u of
                Inr (ul, missing) \<Rightarrow> Inr (InvitedUsers ul missing)
              | Inl _ \<Rightarrow>
                  case parse_join_result schema u of
                    Inr (Some ul) \<Rightarrow> Inr (ChatInviteJoinResult ul)
                  | _ \<Rightarrow> Inl e)"

definition send_message_id :: u32 where "send_message_id = 0xfef48f62"
definition delete_messages_id :: u32 where "delete_messages_id = 0x84c1fd4e"

definition deserialize_request :: "u32 \<Rightarrow> (cursor \<Rightarrow> tl_error + 'a) \<Rightarrow> bytes \<Rightarrow> 'a option" where
  "deserialize_request cid parse bd =
     (case deserialize_u32 (from_slice bd) of
        (Inr i, c) \<Rightarrow> if i = cid then (case parse c of Inr x \<Rightarrow> Some x | Inl _ \<Rightarrow> None) else None
      | _ \<Rightarrow> None)"

definition deserialize_own_update :: "tl_ops \<Rightarrow> bytes \<Rightarrow> bytes option \<Rightarrow> tl_error + updates_like" where
  "deserialize_own_update schema u request =
     (case deserialize_updates_like schema u of
        Inl e \<Rightarrow> Inl e
      | Inr (UpdatesLike (UpdateShortSentMessage ss)) \<Rightarrow>
          (case Option.bind request (deserialize_request send_message_id (parse_send_message schema)) of
             Some r \<Rightarrow> Inr (ShortSentMessage r ss)
           | None \<Rightarrow> Inr (UpdatesLike (UpdateShortSentMessage ss)))
      | Inr (AffectedMessages am) \<Rightarrow>
          (case Option.bind request (deserialize_request delete_messages_id (parse_delete_messages schema)) of
             Some (Some channel_id, deleted) \<Rightarrow> Inr (AffectedChannelMessages am channel_id deleted)
           | _ \<Rightarrow> Inr (AffectedMessages am))
      | Inr other \<Rightarrow> Inr other)"

definition process_own_update :: "tl_ops \<Rightarrow> int \<Rightarrow> bytes \<Rightarrow> ('m, 't) sender \<Rightarrow> updates_like list" where
  "process_own_update schema i u s =
     (case deserialize_own_update schema u (map_option req_body (peek_request i s)) of Inr x \<Rightarrow> [x] | Inl _ \<Rightarrow> [])"

definition process_update :: "tl_ops \<Rightarrow> bytes \<Rightarrow> updates_like list" where
  "process_update schema u = (case deserialize_updates_like schema u of Inr x \<Rightarrow> [x] | Inl _ \<Rightarrow> [MalformedUpdates])"

section \<open>Answers\<close>

definition process_result :: "int \<Rightarrow> bytes \<Rightarrow> ('m, 't) sender \<Rightarrow> (read_failure + unit) \<times> ('m, 't) sender" where
  "process_result i x s =
     (case pop_request i s of
        (Inl e, s') \<Rightarrow> (Inl e, s')
      | (Inr None, s') \<Rightarrow> (Inr (), s')
      | (Inr (Some r), s') \<Rightarrow>
          (Inr (), record_effects (complete r (if length x < 4 then Inl (DeserializeErr MessageBufferTooSmall) else Inr x)) s'))"

text \<open>The message of the error is the sequence of its bytes. The request's identifier is its first word.\<close>
definition process_error :: "int \<Rightarrow> rpc_error \<Rightarrow> ('m, 't) sender \<Rightarrow> (unit, ('m, 't) sender) io" where
  "process_error i err s =
     (case pop_request i s of
        (Inl e, s') \<Rightarrow> Some (Inl e, s')
      | (Inr None, s') \<Rightarrow> Some (Inr (), s')
      | (Inr (Some r), s') \<Rightarrow>
          if length (req_body r) < 4 then None
          else Some (Inr (), record_effects
            (complete r (Inl (RpcErr (with_caused_by (le_word32 (take 4 (req_body r)))
               (rpc_failure_from (rpc_error_code err) (map unat (rpc_error_message err))))))) s'))"

definition process_deserialize_error ::
    "int \<Rightarrow> deserialize_error \<Rightarrow> ('m, 't) sender \<Rightarrow> (read_failure + unit) \<times> ('m, 't) sender" where
  "process_deserialize_error i err s =
     (case pop_request i s of
        (Inl e, s') \<Rightarrow> (Inl e, s')
      | (Inr None, s') \<Rightarrow> (Inr (), s')
      | (Inr (Some r), s') \<Rightarrow> (Inr (), record_effects (complete r (Inl (DeserializeErr err))) s'))"

definition bad_retryable :: "int \<Rightarrow> bool" where
  "bad_retryable code \<longleftrightarrow> code \<in> {16, 17, 48}"

definition bad_fatal :: "int \<Rightarrow> bool" where
  "bad_fatal code \<longleftrightarrow> \<not> bad_retryable code \<and> code \<notin> {32, 33}"

definition in_message :: "int \<Rightarrow> msg_id_pair \<Rightarrow> bool" where
  "in_message i p \<longleftrightarrow> pair_msg_id p = i \<or> container_msg_id p = i"

definition resend :: "request \<Rightarrow> request" where
  "resend r = r\<lparr>req_state := NotSerialized, protocol_retries := protocol_retries r + 1\<rparr>"

text \<open>One request of the loop, at position \<open>i\<close>.\<close>
definition bad_message_at ::
    "closed_channels \<Rightarrow> int \<Rightarrow> int \<Rightarrow> nat \<Rightarrow> ('m, 't) sender \<Rightarrow> (read_failure + unit) \<times> ('m, 't) sender" where
  "bad_message_at shut mid code i s =
     (let r = requests s ! i in
      case req_state r of
        NotSerialized \<Rightarrow> (Inr (), s)
      | Serialized p \<Rightarrow> if in_message mid p then (Inl unsent_response, s) else (Inr (), s)
      | Sent p \<Rightarrow>
          if \<not> in_message mid p then (Inr (), s)
          else if caller_gone shut r
          then (Inr (), record_effects (drop_request r) (s\<lparr>requests := swap_remove i (requests s)\<rparr>))
          else if bad_retryable code \<and> protocol_retries r < 3
          then (Inr (), s\<lparr>requests := (requests s)[i := resend r]\<rparr>)
          else (Inr (), record_effects (complete r (Inl (BadMessageErr code (protocol_retries r))))
                  (s\<lparr>requests := swap_remove i (requests s)\<rparr>)))"

fun bad_message_loop ::
    "closed_channels \<Rightarrow> int \<Rightarrow> int \<Rightarrow> nat \<Rightarrow> ('m, 't) sender \<Rightarrow> (read_failure + unit) \<times> ('m, 't) sender" where
  "bad_message_loop shut mid code 0 s = (Inr (), s)"
| "bad_message_loop shut mid code (Suc i) s =
     (case bad_message_at shut mid code i s of
        (Inl e, s') \<Rightarrow> (Inl e, s')
      | (Inr _, s') \<Rightarrow> bad_message_loop shut mid code i s')"

definition process_bad_message ::
    "closed_channels \<Rightarrow> int \<Rightarrow> int \<Rightarrow> ('m, 't) sender \<Rightarrow> (read_failure + unit) \<times> ('m, 't) sender" where
  "process_bad_message shut mid code s = bad_message_loop shut mid code (length (requests s)) s"

section \<open>Reading\<close>

text \<open>Updates read so far are an accumulator; they are lost when an error follows them.\<close>

fun process_one ::
    "tl_ops \<Rightarrow> closed_channels \<Rightarrow> deserialized \<Rightarrow> ('m, 't) sender \<Rightarrow> (updates_like list, ('m, 't) sender) io" where
  "process_one schema shut (OwnUpdate i u) s = Some (Inr (process_own_update schema i u s), s)"
| "process_one schema shut (PlainUpdate u) s = Some (Inr (process_update schema u), s)"
| "process_one schema shut (RpcResult i x) s = Some (map_prod (map_sum id (\<lambda>_. [])) id (process_result i x s))"
| "process_one schema shut (RpcError i e) s = map_option (map_prod (map_sum id (\<lambda>_. [])) id) (process_error i e s)"
| "process_one schema shut (BadMessage i c) s = Some (map_prod (map_sum id (\<lambda>_. [])) id (process_bad_message shut i c s))"
| "process_one schema shut (Failure i e) s = Some (map_prod (map_sum id (\<lambda>_. [])) id (process_deserialize_error i e s))"

fun process_mtp_buffer ::
    "tl_ops \<Rightarrow> closed_channels \<Rightarrow> deserialized list \<Rightarrow> updates_like list \<Rightarrow> ('m, 't) sender \<Rightarrow>
     (updates_like list, ('m, 't) sender) io" where
  "process_mtp_buffer schema shut [] ups s = Some (Inr ups, s)"
| "process_mtp_buffer schema shut (d # ds) ups s =
     bind_io (process_one schema shut d s) (\<lambda>ul. process_mtp_buffer schema shut ds (ups @ ul))"

definition slice :: "nat \<Rightarrow> nat \<Rightarrow> bytes \<Rightarrow> bytes" where
  "slice i j bs = take (j - i) (drop i bs)"

definition saw_packet :: "instant \<Rightarrow> ('m, 't) sender \<Rightarrow> ('m, 't) sender" where
  "saw_packet now s = s\<lparr>liveness := map_option (\<lambda>(limit, _, _). (limit, now, False)) (liveness s)\<rparr>"

text \<open>
  The payload is decrypted in place, which only changes bytes that are consumed; the model leaves
  them as they were.
\<close>
fun read_packets ::
    "tl_ops \<Rightarrow> 'm mtp_ops \<Rightarrow> 't unpacker \<Rightarrow> closed_channels \<Rightarrow> instant \<Rightarrow> nat \<Rightarrow> nat \<Rightarrow>
     updates_like list \<Rightarrow> ('m, 't) sender \<Rightarrow> (nat \<times> updates_like list, ('m, 't) sender) io" where
  "read_packets schema ops tunpack shut now 0 off ups s = None"
| "read_packets schema ops tunpack shut now (Suc fuel) off ups s =
     (if off = read_tail s then Some (Inr (off, ups), s)
      else if off > read_tail s then None
      else case tunpack (stransport s) (slice off (read_tail s) (read_buffer s)) of
        None \<Rightarrow> None
      | Some (t, data, Inl e) \<Rightarrow>
          let s1 = s\<lparr>stransport := t, read_buffer := overwrite (read_buffer s) off data\<rparr>
          in if e = MissingBytes then Some (Inr (off, ups), s1) else Some (Inl (TransportRead e), s1)
      | Some (t, data, Inr u) \<Rightarrow>
          let s1 = s\<lparr>stransport := t, read_buffer := overwrite (read_buffer s) off data\<rparr> in
          if data_start u > data_end u \<or> data_end u > length (read_buffer s1) - off then None
          else case mtp_deserialize ops (smtp s1) (slice (data_start u) (data_end u) (drop off (read_buffer s1))) of
            None \<Rightarrow> None
          | Some (Inl e, m) \<Rightarrow> Some (Inl (DeserializeRead e), s1\<lparr>smtp := m\<rparr>)
          | Some (Inr results, m) \<Rightarrow>
              bind_io (process_mtp_buffer schema shut results ups (s1\<lparr>smtp := m\<rparr>))
                (\<lambda>ups' s2. read_packets schema ops tunpack shut now fuel (off + next_offset u) ups' (saw_packet now s2)))"

definition grow_buffer :: "nat \<Rightarrow> bytes \<Rightarrow> bytes" where
  "grow_buffer limit bs = bs @ replicate (min (length bs * 2) limit - length bs) 0"

text \<open>What remains after the packets that were read, and the size of the buffer for the next read.\<close>
definition finish_read :: "instant \<Rightarrow> nat \<Rightarrow> bool \<Rightarrow> nat \<Rightarrow> ('m, 't) sender \<Rightarrow> ('m, 't) sender" where
  "finish_read now wcap filled off s =
     (let used = read_tail s;
          s1 = s\<lparr>read_buffer := overwrite (read_buffer s) 0 (slice off (read_tail s) (read_buffer s)),
                 read_tail := read_tail s - off\<rparr>
      in if filled \<and> length (read_buffer s1) < BUSY_READ_BUFFER_SIZE
         then s1\<lparr>last_large_transfer := now, read_buffer := grow_buffer BUSY_READ_BUFFER_SIZE (read_buffer s1)\<rparr>
         else release_idle_buffers now wcap used filled s1)"

text \<open>\<open>data\<close> are the bytes that the socket has written behind \<open>read_tail\<close>.\<close>
definition sender_on_net_read ::
    "tl_ops \<Rightarrow> 'm mtp_ops \<Rightarrow> 't unpacker \<Rightarrow> closed_channels \<Rightarrow> instant \<Rightarrow> nat \<Rightarrow> bytes \<Rightarrow>
     ('m, 't) sender \<Rightarrow> (updates_like list, ('m, 't) sender) io" where
  "sender_on_net_read schema ops tunpack shut now wcap data s =
     (if data = [] then Some (Inl (io_failure ConnectionResetKind ''read 0 bytes''), s)
      else
        let filled = (read_tail s + length data = length (read_buffer s));
            s1 = s\<lparr>read_buffer := overwrite (read_buffer s) (read_tail s) data,
                   read_since_charge := read_since_charge s + length data,
                   read_tail := read_tail s + length data\<rparr>
        in bind_io (read_packets schema ops tunpack shut now (Suc (read_tail s1)) 0 [] s1)
             (\<lambda>(off, ups) s2. Some (Inr ups, finish_read now wcap filled off s2)))"

definition take_read_charge :: "('m, 't) sender \<Rightarrow> nat \<times> ('m, 't) sender" where
  "take_read_charge s =
     (read_since_charge s div READ_CHARGE_UNIT, s\<lparr>read_since_charge := read_since_charge s mod READ_CHARGE_UNIT\<rparr>)"

definition prepare_read_buffer :: "('m, 't) sender \<Rightarrow> (read_failure + unit) \<times> ('m, 't) sender" where
  "prepare_read_buffer s =
     (if read_tail s = length (read_buffer s) then
        if read_tail s \<ge> MAXIMUM_DATA then (Inl (io_failure InvalidData ''transport packet exceeds receive limit''), s)
        else (Inr (), s\<lparr>read_buffer := grow_buffer MAXIMUM_DATA (read_buffer s)\<rparr>)
      else (Inr (), s))"

section \<open>One step\<close>

text \<open>\<open>Poll\<close> lists what successive polls of the socket give when liveness has expired.\<close>

type_synonym socket_read = "io_error + bytes"

datatype io_event = ReadReady socket_read | WriteReady "io_error + nat" | TimerFired

definition liveness_expired :: "instant \<Rightarrow> ('m, 't) sender \<Rightarrow> bool" where
  "liveness_expired now s = (case liveness s of None \<Rightarrow> False | Some (limit, since, _) \<Rightarrow> now - since \<ge> limit)"

text \<open>An error marks the requests as failed and is then shared.\<close>
definition fail :: "('a, ('m, 't) sender) io \<Rightarrow> ('a, ('m, 't) sender) io" where
  "fail r = (case r of Some (Inl e, s) \<Rightarrow> Some (map_prod Inl id (on_error e s)) | _ \<Rightarrow> r)"

definition liveness_error :: read_failure where
  "liveness_error = io_failure TimedOut ''no valid packet received before liveness deadline''"

text \<open>A read takes what the socket offers, up to the room it is given; the rest stays in the socket.\<close>
definition read_room :: "nat \<Rightarrow> ('m, 't) sender \<Rightarrow> nat" where
  "read_room budget s = min (length (read_buffer s)) (read_tail s + budget) - read_tail s"

fun poll_expired ::
    "tl_ops \<Rightarrow> 'm mtp_ops \<Rightarrow> 't unpacker \<Rightarrow> closed_channels \<Rightarrow> instant \<Rightarrow> nat \<Rightarrow> socket_read list \<Rightarrow> nat \<Rightarrow>
     ('m, 't) sender \<Rightarrow> (updates_like list, ('m, 't) sender) io" where
  "poll_expired schema ops tunpack shut now wcap [] budget s = Some (Inl liveness_error, s)"
| "poll_expired schema ops tunpack shut now wcap (p # ps) budget s =
     (if budget = 0 then Some (Inl liveness_error, s)
      else case prepare_read_buffer s of
        (Inl e, s1) \<Rightarrow> Some (Inl e, s1)
      | (Inr _, s1) \<Rightarrow>
          (case p of
             Inl e \<Rightarrow> Some (Inl (IoRead e), s1)
           | Inr offered \<Rightarrow>
               let data = take (read_room budget s1) offered in
               bind_io (sender_on_net_read schema ops tunpack shut now wcap data s1)
                 (\<lambda>ups s2. if ups \<noteq> [] \<or> \<not> liveness_expired now s2 then Some (Inr ups, s2)
                           else poll_expired schema ops tunpack shut now wcap ps (budget - length data) s2)))"

definition read_expired_liveness ::
    "tl_ops \<Rightarrow> 'm mtp_ops \<Rightarrow> 't unpacker \<Rightarrow> closed_channels \<Rightarrow> instant \<Rightarrow> nat \<Rightarrow> socket_read list \<Rightarrow>
     ('m, 't) sender \<Rightarrow> (updates_like list, ('m, 't) sender) io" where
  "read_expired_liveness schema ops tunpack shut now wcap polls s =
     (let s1 = (case liveness s of
                  Some (limit, since, False) \<Rightarrow> s\<lparr>liveness := Some (limit, since, True), ping_timer := now + 1\<rparr>
                | _ \<Rightarrow> s)
      in fail (poll_expired schema ops tunpack shut now wcap polls MAXIMUM_DATA s1))"

definition step_deadlines :: "'m mtp_ops \<Rightarrow> nat \<Rightarrow> ('m, 't) sender \<Rightarrow> instant option \<times> instant option" where
  "step_deadlines ops write_len s =
     (let protocol = (if write_len = 0 then mtp_service_deadline ops (smtp s) else None);
          candidates = List.map_filter id
            [protocol, map_option (\<lambda>(limit, since, _). since + limit) (liveness s),
             if mtp_supports_keepalive ops (smtp s) then Some (next_ping s) else None]
      in (protocol, if candidates = [] then None else Some (Min (set candidates))))"

definition reset_timer :: "instant \<Rightarrow> instant option \<Rightarrow> ('m, 't) sender \<Rightarrow> ('m, 't) sender" where
  "reset_timer now due s =
     (case due of
        Some d \<Rightarrow> if d < ping_timer s \<or> ping_timer s \<le> now then s\<lparr>ping_timer := d\<rparr> else s
      | None \<Rightarrow> s)"

definition on_timer ::
    "tl_ops \<Rightarrow> 'm mtp_ops \<Rightarrow> instant \<Rightarrow> int \<Rightarrow> instant option \<Rightarrow> ('m, 't) sender \<Rightarrow> ('m, 't) sender option" where
  "on_timer schema ops now ping_id protocol s =
     (let s1 = (case protocol of
                  Some d \<Rightarrow> if now \<ge> d then s\<lparr>smtp := mtp_on_service_timeout ops (smtp s)\<rparr> else s
                | None \<Rightarrow> s)
      in if mtp_supports_keepalive ops (smtp s1) \<and> now \<ge> next_ping s1
         then on_ping_timeout schema ops now ping_id s1 else Some s1)"

text \<open>
  \<open>now\<close> is read when the step begins, \<open>now'\<close> when the event arrives. A branch of the selection that
  is disabled does not complete: its event leaves the state. A write takes what the socket accepts,
  up to what there is.
\<close>
definition sender_step ::
    "tl_ops \<Rightarrow> 'm mtp_ops \<Rightarrow> 't packer \<Rightarrow> 't unpacker \<Rightarrow> closed_channels \<Rightarrow> instant \<Rightarrow> instant \<Rightarrow> nat \<Rightarrow> int \<Rightarrow>
     socket_read list \<Rightarrow> io_event \<Rightarrow> ('m, 't) sender \<Rightarrow> (updates_like list, ('m, 't) sender) io" where
  "sender_step schema ops tpack tunpack shut now now' wcap ping_id polls ev s =
     (if liveness_expired now s then read_expired_liveness schema ops tunpack shut now wcap polls s
      else case prepare_read_buffer s of
        (Inl e, s1) \<Rightarrow> fail (Some (Inl e, s1))
      | (Inr _, s1) \<Rightarrow>
        (case try_fill_write ops tpack shut s1 of
           None \<Rightarrow> None
         | Some s2 \<Rightarrow>
            let (protocol, due) = step_deadlines ops (len (write_buffer s2) - write_head s2) s2;
                s3 = reset_timer now due s2
            in case ev of
              ReadReady (Inl e) \<Rightarrow> fail (Some (Inl (IoRead e), s3))
            | ReadReady (Inr offered) \<Rightarrow>
                fail (sender_on_net_read schema ops tunpack shut now' wcap
                        (take (length (read_buffer s3) - read_tail s3) offered) s3)
            | WriteReady w \<Rightarrow>
                if is_empty (write_buffer s3) then Some (Inr [], s3)
                else (case w of
                  Inl e \<Rightarrow> fail (Some (Inl (IoRead e), s3))
                | Inr n \<Rightarrow> fail (bind_io (on_net_write now' wcap (min n (len (write_buffer s3) - write_head s3)) s3)
                             (\<lambda>_ s4. Some (Inr [], s4))))
            | TimerFired \<Rightarrow>
                if due = None then Some (Inr [], s3)
                else if liveness_expired now' s3 then read_expired_liveness schema ops tunpack shut now' wcap polls s3
                else map_option (\<lambda>s4. (Inr [], s4)) (on_timer schema ops now' ping_id protocol s3)))"

end
