(* ===== verification/Sender_Answers.thy ===== *)
theory Sender_Answers
  imports Sender
begin

text \<open>
  What reading does to the requests of a sender, as a specification: a request that was sent is
  answered and leaves, leaves without an answer because its caller is gone, or waits for another
  attempt, at most three times. The relation \<open>answers\<close> is the closure of those; every operation of
  the reading side stays within it, whatever the order in which it keeps the requests.
\<close>

section \<open>The specification\<close>

inductive answers ::
    "closed_channels \<Rightarrow> request multiset \<Rightarrow> effect list \<Rightarrow> request multiset \<Rightarrow> effect list \<Rightarrow> bool"
  for shut :: closed_channels and rs0 :: "request multiset" and es0 :: "effect list" where
  answers_refl: "answers shut rs0 es0 rs0 es0"
| answers_reply:
    "answers shut rs0 es0 (add_mset r rs) es \<Longrightarrow> req_state r = Sent p \<Longrightarrow>
     answers shut rs0 es0 rs (es @ complete r out)"
| answers_gone:
    "answers shut rs0 es0 (add_mset r rs) es \<Longrightarrow> req_state r = Sent p \<Longrightarrow> caller_gone shut r \<Longrightarrow>
     answers shut rs0 es0 rs (es @ drop_request r)"
| answers_retry:
    "answers shut rs0 es0 (add_mset r rs) es \<Longrightarrow> req_state r = Sent p \<Longrightarrow> protocol_retries r < 3 \<Longrightarrow>
     answers shut rs0 es0 (add_mset (resend r) rs) es"

lemma answers_trans:
  "answers shut rs1 es1 rs2 es2 \<Longrightarrow> answers shut rs0 es0 rs1 es1 \<Longrightarrow> answers shut rs0 es0 rs2 es2"
  by (induction rule: answers.induct) (auto intro: answers.intros)

text \<open>The state after a step of reading, compared with the state before: only requests and effects differ.\<close>
definition answered :: "closed_channels \<Rightarrow> ('m, 't) sender \<Rightarrow> ('m, 't) sender \<Rightarrow> bool" where
  "answered shut s s' \<longleftrightarrow>
     answers shut (mset (requests s)) (effects s) (mset (requests s')) (effects s') \<and>
     s' = s\<lparr>requests := requests s', effects := effects s'\<rparr>"

lemma answered_refl [simp]: "answered shut s s"
  by (simp add: answered_def answers_refl)

lemma answered_trans: "answered shut s1 s2 \<Longrightarrow> answered shut s2 s3 \<Longrightarrow> answered shut s1 s3"
  unfolding answered_def by (metis (no_types, lifting) answers_trans sender.surjective sender.update_convs(3,13))

section \<open>Removing a request\<close>

lemma mset_swap_remove: "i < length xs \<Longrightarrow> mset xs = add_mset (xs ! i) (mset (swap_remove i xs))"
proof (cases xs rule: rev_cases)
  case (snoc ys y)
  assume i: "i < length xs"
  show ?thesis
  proof (cases "i = length ys")
    case False
    then have "i < length ys" using i snoc by simp
    then show ?thesis using snoc
      by (simp add: swap_remove_def nth_append mset_update)
  qed (use snoc in \<open>simp add: swap_remove_def\<close>)
qed simp

lemma length_swap_remove: "i < length xs \<Longrightarrow> length (swap_remove i xs) = length xs - 1"
  by (simp add: swap_remove_def)

lemma index_of_Some: "index_of P xs = Some k \<Longrightarrow> k < length xs \<and> P (xs ! k) \<and> (\<forall>j < k. \<not> P (xs ! j))"
proof (induction xs arbitrary: k)
  case (Cons x xs)
  show ?case
  proof (cases "P x")
    case False
    then obtain m where "index_of P xs = Some m" "k = Suc m" using Cons.prems by auto
    then show ?thesis using Cons.IH False by (auto simp: less_Suc_eq_0_disj)
  qed (use Cons.prems in auto)
qed simp

lemma index_of_None: "index_of P xs = None \<longleftrightarrow> (\<forall>x \<in> set xs. \<not> P x)"
  by (induction xs) auto

lemma has_id_cases: "has_id i st \<Longrightarrow> (\<exists>p. st = Serialized p \<and> pair_msg_id p = i) \<or> (\<exists>p. st = Sent p \<and> pair_msg_id p = i)"
  by (cases st) auto

lemma is_serialized_iff: "is_serialized st \<longleftrightarrow> (\<exists>p. st = Serialized p)"
  by (cases st) auto

text \<open>What \<open>pop_request\<close> does: an error leaves everything; a request that it returns was sent under the identifier.\<close>

lemma pop_request_cases:
  assumes "pop_request i s = (res, s')"
  obtains (err) "res = Inl unsent_response" "s' = s" "\<exists>r \<in> set (requests s). \<exists>p. req_state r = Serialized p \<and> pair_msg_id p = i"
  | (none) "res = Inr None" "s' = s" "\<forall>r \<in> set (requests s). \<not> has_id i (req_state r)"
  | (popped) r p where "res = Inr (Some r)" "req_state r = Sent p" "pair_msg_id p = i"
      "mset (requests s) = add_mset r (mset (requests s'))" "s' = s\<lparr>requests := requests s'\<rparr>"
proof (cases "index_of (\<lambda>r. has_id i (req_state r)) (requests s)")
  case None
  then have "\<forall>r \<in> set (requests s). \<not> has_id i (req_state r)" by (simp only: index_of_None)
  then show ?thesis using assms None none by (simp add: pop_request_def)
next
  case (Some k)
  note k = index_of_Some[OF Some]
  show ?thesis
  proof (cases "is_serialized (req_state (requests s ! k))")
    case True
    then have "\<exists>r \<in> set (requests s). \<exists>p. req_state r = Serialized p \<and> pair_msg_id p = i"
      using k by (metis has_id_cases is_serialized_iff nth_mem request_state.distinct(5))
    then show ?thesis using assms Some True err by (simp add: pop_request_def)
  next
    case False
    then obtain p where "req_state (requests s ! k) = Sent p" "pair_msg_id p = i"
      using k has_id_cases[of i "req_state (requests s ! k)"] by auto
    then show ?thesis using assms Some False k popped mset_swap_remove[of k "requests s"]
      by (auto simp: pop_request_def)
  qed
qed

section \<open>Every operation stays within the specification\<close>

lemma record_effects_simps [simp]:
  "requests (record_effects es s) = requests s" "effects (record_effects es s) = effects s @ es"
  "write_buffer (record_effects es s) = write_buffer s" "write_head (record_effects es s) = write_head s"
  "read_buffer (record_effects es s) = read_buffer s" "read_tail (record_effects es s) = read_tail s"
  "smtp (record_effects es s) = smtp s" "stransport (record_effects es s) = stransport s"
  "liveness (record_effects es s) = liveness s"
  by (simp_all add: record_effects_def)

lemma answered_complete:
  assumes "mset (requests s) = add_mset r (mset (requests s'))" "req_state r = Sent p" "s' = s\<lparr>requests := requests s'\<rparr>"
  shows "answered shut s (record_effects (complete r out) s')"
proof -
  have "answers shut (mset (requests s)) (effects s) (add_mset r (mset (requests s'))) (effects s)"
    using answers_refl by (simp add: assms(1))
  from answers_reply[OF this assms(2)]
  have "answers shut (mset (requests s)) (effects s) (mset (requests s')) (effects s @ complete r out)" .
  moreover have "effects s' = effects s" by (subst assms(3)) simp
  moreover have "record_effects (complete r out) s' =
      s\<lparr>requests := requests s', effects := effects s @ complete r out\<rparr>"
    by (subst assms(3)) (simp add: record_effects_def)
  ultimately show ?thesis by (simp add: answered_def)
qed

lemma process_result_answered: "process_result i x s = (res, s') \<Longrightarrow> answered shut s s'"
proof -
  assume a: "process_result i x s = (res, s')"
  obtain r0 s0 where p: "pop_request i s = (r0, s0)" by fastforce
  from p show ?thesis using a
    by (cases rule: pop_request_cases) (auto simp: process_result_def p intro: answered_complete)
qed

lemma process_error_answered: "process_error i x s = Some (res, s') \<Longrightarrow> answered shut s s'"
proof -
  assume a: "process_error i x s = Some (res, s')"
  obtain r0 s0 where p: "pop_request i s = (r0, s0)" by fastforce
  from p show ?thesis using a
    by (cases rule: pop_request_cases) (auto simp: process_error_def p intro: answered_complete split: if_splits)
qed

lemma process_deserialize_error_answered: "process_deserialize_error i x s = (res, s') \<Longrightarrow> answered shut s s'"
proof -
  assume a: "process_deserialize_error i x s = (res, s')"
  obtain r0 s0 where p: "pop_request i s = (r0, s0)" by fastforce
  from p show ?thesis using a
    by (cases rule: pop_request_cases) (auto simp: process_deserialize_error_def p intro: answered_complete)
qed

lemma bad_message_at_answered:
  assumes "i < length (requests s)" "bad_message_at shut mid code i s = (res, s')"
  shows "answered shut s s'" "i \<le> length (requests s')"
proof -
  let ?r = "requests s ! i"
  note sr = mset_swap_remove[OF assms(1)] and lsr = length_swap_remove[OF assms(1)]
  have start: "answers shut (mset (requests s)) (effects s) (add_mset ?r (mset (swap_remove i (requests s)))) (effects s)"
    using answers_refl sr by metis
  have upd: "mset ((requests s)[i := x]) = add_mset x (mset (swap_remove i (requests s)))" for x
    using sr by (simp add: mset_update assms(1))
  show "answered shut s s'"
  proof (cases "req_state ?r")
    case (Sent p)
    have c: "answered shut s (record_effects (complete ?r out) (s\<lparr>requests := swap_remove i (requests s)\<rparr>))" for out
      using sr Sent by (intro answered_complete) auto
    have g: "answered shut s (record_effects (drop_request ?r) (s\<lparr>requests := swap_remove i (requests s)\<rparr>))"
      if "caller_gone shut ?r"
      using answers_gone[OF start Sent that] by (simp add: answered_def record_effects_def)
    have t: "answered shut s (s\<lparr>requests := (requests s)[i := resend ?r]\<rparr>)" if "protocol_retries ?r < 3"
      using answers_retry[OF start Sent that] by (simp add: answered_def upd)
    from assms(2) Sent show ?thesis
      by (auto simp: bad_message_at_def Let_def intro: c g t split: if_splits)
  qed (use assms(2) in \<open>auto simp: bad_message_at_def Let_def split: if_splits\<close>)
  show "i \<le> length (requests s')"
    using assms lsr by (auto simp: bad_message_at_def Let_def split: request_state.splits if_splits)
qed

lemma bad_message_loop_answered:
  "n \<le> length (requests s) \<Longrightarrow> bad_message_loop shut mid code n s = (res, s') \<Longrightarrow> answered shut s s'"
proof (induction n arbitrary: s)
  case (Suc n)
  obtain r1 s1 where b: "bad_message_at shut mid code n s = (r1, s1)" by fastforce
  note a = bad_message_at_answered[OF _ b]
  show ?case
  proof (cases r1)
    case (Inl e)
    then show ?thesis using Suc.prems b a by auto
  next
    case (Inr u)
    then have "bad_message_loop shut mid code n s1 = (res, s')" using Suc.prems b by simp
    then show ?thesis using Suc a answered_trans by fastforce
  qed
qed simp

lemma process_one_answered:
  assumes "process_one schema shut d s = Some (res, s')"
  shows "answered shut s s'"
proof (cases d)
  case (RpcResult i x)
  obtain r0 s0 where p: "process_result i x s = (r0, s0)" by fastforce
  then show ?thesis using assms RpcResult process_result_answered[OF p] by auto
next
  case (RpcError i e)
  then show ?thesis using assms process_error_answered by auto
next
  case (BadMessage i c)
  obtain r0 s0 where p: "process_bad_message shut i c s = (r0, s0)" by fastforce
  then show ?thesis using assms BadMessage bad_message_loop_answered[of "length (requests s)" s shut i c]
    by (auto simp: process_bad_message_def)
next
  case (Failure i e)
  obtain r0 s0 where p: "process_deserialize_error i e s = (r0, s0)" by fastforce
  then show ?thesis using assms Failure process_deserialize_error_answered[OF p] by auto
qed (use assms in auto)

lemma process_mtp_buffer_answered:
  "process_mtp_buffer schema shut ds ups s = Some (res, s') \<Longrightarrow> answered shut s s'"
proof (induction ds arbitrary: ups s)
  case (Cons d ds)
  then obtain r1 s1 where o: "process_one schema shut d s = Some (r1, s1)"
    by (cases "process_one schema shut d s") auto
  note a = process_one_answered[OF o]
  show ?case
  proof (cases r1)
    case (Inl e)
    then show ?thesis using Cons.prems o a by simp
  next
    case (Inr us)
    then have "process_mtp_buffer schema shut ds (ups @ us) s1 = Some (res, s')" using Cons.prems o by simp
    then show ?thesis using Cons.IH a answered_trans by blast
  qed
qed simp

end
