(* ===== verification/Spec2Isabelle.thy ===== *)
theory Spec2Isabelle
  imports Transport_Laws Obfuscated Tl_Codec Replay_Ids Mb_Batches Mb_Deadlines Unbounded_Queue Encrypted_Safety Plain_Mtp Key_Request Hex Import_Laws Sqlite_Rows Tl_Schema_Laws Sender_Answers
begin

text \<open>
  Verification of grammers, a Rust client library for Telegram's MTProto protocol.

  \<^bold>\<open>The program.\<close> Bytes that arrive from a socket pass through an optional obfuscation layer
  (\<open>grammers-mtproto/src/transport/obfuscated.rs\<close>), are cut into packets by a transport
  (\<open>grammers-mtproto/src/transport\<close>), decrypted and checked for replays by the session layer
  (\<open>grammers-mtproto/src/mtp\<close>), decoded as TL values (\<open>grammers-tl-types\<close>), and, when they are
  updates, ordered by the message boxes (\<open>grammers-session/src/message_box\<close>) before the client sees
  them. The authorization key that encrypts everything comes from a key exchange over plain messages
  (\<open>grammers-mtproto/src/authentication.rs\<close>) that uses RSA, factorization and the checks of
  \<open>grammers-crypto\<close>. Tasks exchange requests and packets over an unbounded channel
  (\<open>grammers-mtsender/src/queue.rs\<close>). What survives a restart is kept by a session storage
  (\<open>grammers-session/src/storages\<close>), can travel as a string (\<open>native.rs\<close>) and can be imported from
  other libraries (\<open>import.rs\<close>). The schema of TL values is parsed at build time
  (\<open>grammers-tl-parser\<close>).

  \<^bold>\<open>The theories.\<close> \<open>Prelude\<close> has the shared lemmas: byte codecs, saturating integers, binary search.
  \<^item> \<open>Deque_Buffer\<close>: the packet buffer of \<open>grammers-crypto/src/deque_buffer.rs\<close>, a record of its
    elements and reserved front space, refining a plain list.
  \<^item> \<open>Transport\<close>, \<open>Transport_Laws\<close>: \<open>pack\<close> and \<open>unpack\<close> of the abridged, intermediate and full
    transports and the receive loop of \<open>Sender::on_net_read\<close>; the locale of transport laws gives
    delivery of every packet for every chunking, interpreted for the three transports. The CRC-32
    of the full transport is a parameter. An index or a range outside a buffer is a panic, in the
    transports and in the loop, and so is an overflow of a sequence number when the flag \<open>checks\<close>
    says that the build checks for it. What the loop does with a packet is its list of payloads
    here; \<open>Sender\<close> has the handlers.
  \<^item> \<open>Obfuscated\<close>: \<open>ObfuscatedCipher\<close> and the obfuscated transport with its handshake; AES-CTR and
    SHA-256 are parameters. Also termination of the receive loop without a panic, over each
    transport and over the obfuscated abridged and intermediate ones: its fuel is the number of
    buffered bytes plus one, and every packet found consumes at least one byte (locale \<open>framed\<close>). In
    a build with overflow checks the full transport needs that \<open>recv_seq\<close> cannot pass \<open>i32::MAX\<close>.
  \<^item> \<open>Tl_Codec\<close>: \<open>serialize.rs\<close> and \<open>deserialize.rs\<close>, with round trips, safety on arbitrary input and
    the nesting limit.
  \<^item> \<open>Replay_Ids\<close>: the packed history of received identifiers of \<open>mtp/replay.rs\<close>; it refines a
    bounded set.
  \<^item> \<open>Message_Crypto\<close>: IGE mode, authorization keys and the encryption of packets of
    \<open>grammers-crypto\<close> (\<open>aes.rs\<close>, \<open>auth_key.rs\<close>, \<open>lib.rs\<close>) over a block cipher and hashes that are
    parameters; decryption accepts exactly the sealed packets.
  \<^item> \<open>Manual_Tl\<close>: messages, containers, RPC results and compressed objects of \<open>manual_tl.rs\<close>, as
    further interpretations of the codec contract; gzip is a parameter.
  \<^item> \<open>Encrypted_Mtp\<close>, \<open>Encrypted_Receive\<close>: the session of \<open>mtp/encrypted.rs\<close>, its sending and its
    receiving half, one definition per method. The loops that unwrap compressed bodies end because
    each round costs one unit of the packet's work; the recursion between messages and containers
    is one level deep, since nested containers are refused.
  \<^item> \<open>Encrypted_Sending\<close>, \<open>Encrypted_Packets\<close>: the letters of a packet, and that the other side
    reads back what was pushed, within the limits and with rising identifiers. How the other side
    reads a message is stated on its own, over a decompressor that undoes the compressor.
  \<^item> \<open>Encrypted_Effects\<close>, \<open>Encrypted_Safety\<close>: what handling a message may change, and from it that
    replayed packets are inert, failed packets leave no trace and results complete their requests.
  \<^item> \<open>Big_Numbers\<close>: big-endian numbers, and the big-number crate as a record of parameters with its
    documented laws.
  \<^item> \<open>Factorize\<close>: \<open>factorize.rs\<close>, Brent's algorithm and the Miller-Rabin test. The loops end because
    every round takes from the work budget; Fermat's theorem is proved to show that no prime is
    refused.
  \<^item> \<open>Rsa\<close>, \<open>Two_Factor\<close>, \<open>Hex\<close>: \<open>rsa.rs\<close>, whose search for a temporary key may not end and is a
    partial function, \<open>two_factor_auth.rs\<close> and \<open>hex.rs\<close>, each against the other side of its protocol.
  \<^item> \<open>Plain_Mtp\<close>: the unencrypted messages of \<open>mtp/plain.rs\<close>.
  \<^item> \<open>Key_Exchange\<close>: the steps of \<open>authentication.rs\<close>. \<open>Key_Agreement\<close> has the third step and the
    key, from an exact description of the answers that are accepted; \<open>Key_Request\<close> the second step.
  \<^item> \<open>Mb_Defs\<close>, \<open>Mb_Adaptor\<close>, \<open>Mb_Store\<close>, \<open>Message_Boxes\<close>: the message boxes, from \<open>defs.rs\<close>,
    \<open>adaptor.rs\<close> and \<open>mod.rs\<close>; one definition per function of the source, with the loop body of
    \<open>process_updates_inner\<close> split into its branches. The sorted table of entries is a keyed store
    (a locale) interpreted on the binary searches of the source.
  \<^item> \<open>Mb_Invariant\<close>, \<open>Mb_Process\<close>, \<open>Mb_Operations\<close>, \<open>Mb_Channels\<close>: the invariant of the message
    boxes and what each operation does to it, to positions and to deliveries.
  \<^item> \<open>Mb_Properties\<close>, \<open>Mb_Recovery\<close>, \<open>Mb_Saved\<close>, \<open>Mb_Reorder\<close>, \<open>Mb_Batches\<close>: reachable states,
    exactly when the operations panic, contiguous and single delivery, recovery by differences,
    deferral, the saved state, tolerance of reordering, refused batches and the held updates.
  \<^item> \<open>Mb_Deadlines\<close>: that no deadline is overslept, for the states in which the cached
    \<open>next_deadline\<close> is early enough. Three operations can add a deadline without lowering the cache;
    the step relation \<open>attended\<close> has the condition under which each of them is harmless, and
    \<open>registered_channel_overslept\<close> is a run in which one is not.
  \<^item> \<open>Unbounded_Queue\<close>: the channel between tasks, its critical sections as definitions and their
    interleavings as a step relation in which a waker is called some time after it was taken.

  \<^item> \<open>Peers\<close>: peer identifiers, cached information and the conversions of \<open>peer.rs\<close>. The packed
    identifier is a bijection, and merging information is map override.
  \<^item> \<open>Sessions\<close>: the trait \<open>Session\<close> as a record of operations, its default methods, session data and
    its import, and the erased wrapper. The locale of the contract says what each operation does to
    an abstract view, and what each query answers from it. \<open>Memory_Session\<close>: the storage of
    \<open>storages/memory.rs\<close> with its poisoned lock, an interpretation of the contract, also when erased.
  \<^item> \<open>Native_Session\<close>, \<open>Base64_Url\<close>, \<open>Native_Strings\<close>: the portable strings of \<open>native.rs\<close>; base64 and
    SHA-256 are parameters, and the arithmetic of base64 shows that the laws asked of it can hold.
  \<^item> \<open>Session_Import\<close>, \<open>Import_Laws\<close>: sessions exported by other libraries (\<open>import.rs\<close>, and the rows
    of \<open>import_files.rs\<close>), the shape of what is accepted, and that it can be exported again.
  \<^item> \<open>Sqlite_Rows\<close>: what \<open>storages/sqlite.rs\<close> computes around its statements: rows, merging, the
    schema check and the URI of a file.
  \<^item> \<open>Rust_Text\<close>: the string functions of the standard library in use. \<open>Tl_Schema\<close>,
    \<open>Tl_Schema_Laws\<close>: the schema parser of \<open>grammers-tl-parser\<close>; printing and parsing are inverse, for
    definitions and for files.
  \<^item> \<open>Invocation_Errors\<close>: \<open>errors.rs\<close> and the retry policies of \<open>configuration.rs\<close>; how errors are
    classified, the numbers in their names, and what a policy's approval implies.
  \<^item> \<open>Invocation_Tracker\<close>: trackers and permits of \<open>invocation_tracker.rs\<close>, with the ledger that
    balances live permits against the limits.
  \<^item> \<open>Sender\<close>, \<open>Sender_Answers\<close>: the sender of \<open>sender.rs\<close>, over operations for the protocol and the
    framing as in the source; what reading may do to the requests, as a specification that every
    handler refines. The receive loop's fuel is the number of buffered bytes plus one.

  \<^bold>\<open>Conventions.\<close> A panic of the source is \<open>None\<close>, an error is \<open>Inl\<close>. Machine integers are words
  where they wrap, and integers where the source widens them before it computes, as the message
  boxes do. Instants are milliseconds; every operation takes the clock reading of its call.
  Fields of TL values that the source only moves are opaque objects. Logging is left
  out. In \<open>Peers\<close> and the storages a flag says whether the build has debug assertions; elsewhere
  the build has none, and a statement that depends on one says so: the message boxes assert that
  no account state is known before \<open>set_state\<close>, that a difference is pending when one is applied,
  and that a recovery ends without a gap, which can fail.

  \<^bold>\<open>Not modelled.\<close> The connection pool, proxies and sockets: tasks over sockets and timers. The
  SQL statements of the SQLite storage and the file access of the imports, which another package
  executes. The code generator, which prints source text, and the client's high-level requests.
\<close>

end
